(* ===== verification/Access_Mask.thy ===== *)
theory Access_Mask
  imports Prelude
begin

unbundle bit_operations_syntax

section \<open>Access masks\<close>

text \<open>
  The package \<open>packages/access_mask\<close>: 32-bit RBAC permission masks, their bit layout
  (\<open>constants.py\<close>) and the operations of \<open>mask.py\<close>. Python integers are unbounded, so a
  mask is an \<open>int\<close>; the 32-bit range is a property that is proved, not a type.
  The operations keep the names of the source; \<open>decode\<close> returns the record of
  \<open>class DecodedMask\<close>.
\<close>

subsection \<open>Layout (constants.py)\<close>

definition ORG_BITS :: nat where "ORG_BITS = 11"
definition REGION_BITS :: nat where "REGION_BITS = 5"
definition ROLE_BITS :: nat where "ROLE_BITS = 5"
definition GROUP_BITS :: nat where "GROUP_BITS = 7"
definition DEPT_BITS :: nat where "DEPT_BITS = 4"

definition MAX_ORG_ID :: int where "MAX_ORG_ID = push_bit ORG_BITS 1 - 1"
definition MAX_REGION :: int where "MAX_REGION = push_bit REGION_BITS 1 - 1"
definition MAX_ROLE :: int where "MAX_ROLE = push_bit ROLE_BITS 1 - 1"
definition MAX_GROUP :: int where "MAX_GROUP = push_bit GROUP_BITS 1 - 1"
definition MAX_DEPT :: int where "MAX_DEPT = push_bit DEPT_BITS 1 - 1"

definition ORG_SHIFT :: nat where
  "ORG_SHIFT = REGION_BITS + ROLE_BITS + GROUP_BITS + DEPT_BITS"
definition REGION_SHIFT :: nat where "REGION_SHIFT = ROLE_BITS + GROUP_BITS + DEPT_BITS"
definition ROLE_SHIFT :: nat where "ROLE_SHIFT = GROUP_BITS + DEPT_BITS"
definition GROUP_SHIFT :: nat where "GROUP_SHIFT = DEPT_BITS"
definition DEPT_SHIFT :: nat where "DEPT_SHIFT = 0"

lemmas layout_bits = ORG_BITS_def REGION_BITS_def ROLE_BITS_def GROUP_BITS_def DEPT_BITS_def

lemma layout_max [simp]:
  "MAX_ORG_ID = 2047" "MAX_REGION = 31" "MAX_ROLE = 31" "MAX_GROUP = 127" "MAX_DEPT = 15"
  by (simp_all add: MAX_ORG_ID_def MAX_REGION_def MAX_ROLE_def MAX_GROUP_def MAX_DEPT_def
      layout_bits push_bit_eq_mult)

lemma layout_shift [simp]:
  "ORG_SHIFT = 21" "REGION_SHIFT = 16" "ROLE_SHIFT = 11" "GROUP_SHIFT = 4" "DEPT_SHIFT = 0"
  by (simp_all add: ORG_SHIFT_def REGION_SHIFT_def ROLE_SHIFT_def GROUP_SHIFT_def DEPT_SHIFT_def
      layout_bits)

subsection \<open>Operations (mask.py)\<close>

record decoded_mask =
  dm_org :: int
  dm_region :: int
  dm_role :: int
  dm_group :: int
  dm_dept :: int

datatype mask_error = OutOfRange string int int

definition validate_range :: "string \<Rightarrow> int \<Rightarrow> int \<Rightarrow> (mask_error, unit) result" where
  "validate_range name v mx = (if \<not> (0 \<le> v \<and> v \<le> mx) then Inl (OutOfRange name v mx) else Inr ())"

definition encode :: "int \<Rightarrow> int \<Rightarrow> int \<Rightarrow> int \<Rightarrow> int \<Rightarrow> (mask_error, int) result" where
  "encode og rg ro gr dp =
     bind_res (validate_range ''org'' og MAX_ORG_ID) (\<lambda>_.
     bind_res (validate_range ''region'' rg MAX_REGION) (\<lambda>_.
     bind_res (validate_range ''role'' ro MAX_ROLE) (\<lambda>_.
     bind_res (validate_range ''group'' gr MAX_GROUP) (\<lambda>_.
     bind_res (validate_range ''dept'' dp MAX_DEPT) (\<lambda>_.
       Inr (push_bit ORG_SHIFT og OR push_bit REGION_SHIFT rg OR push_bit ROLE_SHIFT ro
            OR push_bit GROUP_SHIFT gr OR push_bit DEPT_SHIFT dp))))))"

definition decode :: "int \<Rightarrow> decoded_mask" where
  "decode m = \<lparr>
     dm_org = drop_bit ORG_SHIFT m AND MAX_ORG_ID,
     dm_region = drop_bit REGION_SHIFT m AND MAX_REGION,
     dm_role = drop_bit ROLE_SHIFT m AND MAX_ROLE,
     dm_group = drop_bit GROUP_SHIFT m AND MAX_GROUP,
     dm_dept = drop_bit DEPT_SHIFT m AND MAX_DEPT\<rparr>"

definition field_matches :: "int \<Rightarrow> int \<Rightarrow> int \<Rightarrow> bool" where
  "field_matches user_val doc_val wildcard \<longleftrightarrow> doc_val = wildcard \<or> user_val = doc_val"

definition matches :: "int \<Rightarrow> int \<Rightarrow> bool" where
  "matches user_mask doc_mask =
     (let u = decode user_mask; d = decode doc_mask in
      if dm_org u \<noteq> dm_org d then False
      else field_matches (dm_region u) (dm_region d) MAX_REGION
         \<and> field_matches (dm_role u) (dm_role d) MAX_ROLE
         \<and> field_matches (dm_group u) (dm_group d) MAX_GROUP
         \<and> field_matches (dm_dept u) (dm_dept d) MAX_DEPT)"

text \<open>
  The four nested loops over \<open>dict.fromkeys((own, MAX))\<close>; the outer dictionary keeps the
  first occurrence of each mask.
\<close>

definition own_or_wild :: "int \<Rightarrow> int \<Rightarrow> int list" where
  "own_or_wild own wild = fromkeys [own, wild]"

definition mask_product ::
  "int \<Rightarrow> int list \<Rightarrow> int list \<Rightarrow> int list \<Rightarrow> int list \<Rightarrow> (mask_error, int list) result" where
  "mask_product og rgs ros grs dps =
     map_res (\<lambda>(rg, ro, gr, dp). encode og rg ro gr dp)
       [(rg, ro, gr, dp). rg \<leftarrow> rgs, ro \<leftarrow> ros, gr \<leftarrow> grs, dp \<leftarrow> dps]"

definition expand_wildcards :: "int \<Rightarrow> (mask_error, int list) result" where
  "expand_wildcards user_mask =
     (let d = decode user_mask in
      bind_res (mask_product (dm_org d)
          (own_or_wild (dm_region d) MAX_REGION) (own_or_wild (dm_role d) MAX_ROLE)
          (own_or_wild (dm_group d) MAX_GROUP) (own_or_wild (dm_dept d) MAX_DEPT))
        (\<lambda>ms. Inr (fromkeys ms)))"

definition expand_member_masks :: "int list \<Rightarrow> (mask_error, int list) result" where
  "expand_member_masks user_masks =
     bind_res (map_res expand_wildcards user_masks) (\<lambda>mss. Inr (fromkeys (concat mss)))"

definition MAX_ACCESS_KEYS :: nat where "MAX_ACCESS_KEYS = 8192"

definition with_wildcard :: "int list \<Rightarrow> int \<Rightarrow> int list" where
  "with_wildcard vals wild = fromkeys (vals @ [wild])"

definition member_masks ::
  "int \<Rightarrow> int list \<Rightarrow> int list \<Rightarrow> int list \<Rightarrow> int list \<Rightarrow> (mask_error, int list) result" where
  "member_masks og rgs ros grs dps =
     mask_product og (with_wildcard rgs MAX_REGION) (with_wildcard ros MAX_ROLE)
       (with_wildcard grs MAX_GROUP) (with_wildcard dps MAX_DEPT)"


subsection \<open>Masks as mixed-radix numbers\<close>

definition in_layout :: "decoded_mask \<Rightarrow> bool" where
  "in_layout d \<longleftrightarrow> dm_org d \<in> {0..MAX_ORG_ID} \<and> dm_region d \<in> {0..MAX_REGION}
     \<and> dm_role d \<in> {0..MAX_ROLE} \<and> dm_group d \<in> {0..MAX_GROUP} \<and> dm_dept d \<in> {0..MAX_DEPT}"

definition is_mask32 :: "int \<Rightarrow> bool" where
  "is_mask32 m \<longleftrightarrow> 0 \<le> m \<and> m < 2 ^ 32"

definition radix :: "decoded_mask \<Rightarrow> int" where
  "radix d = dm_org d * 2 ^ 21 + dm_region d * 2 ^ 16 + dm_role d * 2 ^ 11 + dm_group d * 2 ^ 4
     + dm_dept d"

lemma push_bit_or_low:
  fixes a b :: int
  assumes "0 \<le> b" and "b < 2 ^ n"
  shows "push_bit n a OR b = a * 2 ^ n + b"
proof -
  have "take_bit n b = b" using assms by (simp add: take_bit_int_eq_self)
  then have "bit b i \<Longrightarrow> i < n" for i by (metis bit_take_bit_iff)
  then have "push_bit n a AND b = 0" by (intro bit_eqI) (force simp: bit_simps)
  then show ?thesis
    by (simp add: disjunctive_add_eq_or [symmetric] push_bit_eq_mult)
qed

lemma decode_arith:
  "decode m = \<lparr>dm_org = m div 2 ^ 21 mod 2 ^ 11, dm_region = m div 2 ^ 16 mod 2 ^ 5,
     dm_role = m div 2 ^ 11 mod 2 ^ 5, dm_group = m div 2 ^ 4 mod 2 ^ 7, dm_dept = m mod 2 ^ 4\<rparr>"
proof -
  have and_max: "k AND (2 ^ n - 1) = k mod 2 ^ n" for k :: int and n
    using take_bit_eq_mask [of n k] by (simp add: take_bit_eq_mod mask_eq_exp_minus_1)
  show ?thesis
    using and_max [of _ 11] and_max [of _ 5] and_max [of _ 7] and_max [of _ 4]
    by (simp add: decode_def drop_bit_eq_div)
qed

lemma in_layout_decode: "in_layout (decode m)"
proof -
  have "k mod 2 ^ n \<in> {0..2 ^ n - 1}" for k :: int and n
    using pos_mod_bound [of "2 ^ n" k] by simp
  from this [of _ 11] this [of _ 5] this [of _ 7] this [of _ 4] show ?thesis
    by (simp add: in_layout_def decode_arith)
qed

lemma in_layout_simp:
  "in_layout d \<longleftrightarrow> 0 \<le> dm_org d \<and> dm_org d \<le> 2047 \<and> 0 \<le> dm_region d \<and> dm_region d \<le> 31
     \<and> 0 \<le> dm_role d \<and> dm_role d \<le> 31 \<and> 0 \<le> dm_group d \<and> dm_group d \<le> 127
     \<and> 0 \<le> dm_dept d \<and> dm_dept d \<le> 15"
  by (auto simp: in_layout_def)

definition encode_rec :: "decoded_mask \<Rightarrow> (mask_error, int) result" where
  "encode_rec d = encode (dm_org d) (dm_region d) (dm_role d) (dm_group d) (dm_dept d)"

lemma encode_rec_ok:
  assumes "in_layout d"
  shows "encode_rec d = Inr (radix d)"
proof -
  have or_eq: "x OR y = x + y"
    if "x = push_bit n a" "0 \<le> y" "y < 2 ^ n" for x y a :: int and n
    using push_bit_or_low [of y n a] that by (simp add: push_bit_eq_mult)
  let ?d = "dm_dept d" and ?g = "push_bit 4 (dm_group d)" and ?r = "push_bit 11 (dm_role d)"
    and ?e = "push_bit 16 (dm_region d)" and ?o = "push_bit 21 (dm_org d)"
  have 1: "?g OR ?d = ?g + ?d"
    by (rule or_eq [OF refl]) (use assms in \<open>auto simp: in_layout_simp\<close>)
  have 2: "?r OR (?g + ?d) = ?r + (?g + ?d)"
    by (rule or_eq [OF refl]) (use assms in \<open>auto simp: in_layout_simp push_bit_eq_mult\<close>)
  have 3: "?e OR (?r + (?g + ?d)) = ?e + (?r + (?g + ?d))"
    by (rule or_eq [OF refl]) (use assms in \<open>auto simp: in_layout_simp push_bit_eq_mult\<close>)
  have 4: "?o OR (?e + (?r + (?g + ?d))) = ?o + (?e + (?r + (?g + ?d)))"
    by (rule or_eq [OF refl]) (use assms in \<open>auto simp: in_layout_simp push_bit_eq_mult\<close>)
  have eq: "?o OR (?e OR (?r OR (?g OR ?d))) = radix d"
    unfolding 1 2 3 4 by (simp add: radix_def push_bit_eq_mult)
  have "encode_rec d = Inr (?o OR (?e OR (?r OR (?g OR ?d))))"
    using assms by (simp add: encode_rec_def encode_def validate_range_def in_layout_simp)
  then show ?thesis by (simp only: eq)
qed

lemma encode_rec_error: "\<not> in_layout d \<Longrightarrow> \<exists>e. encode_rec d = Inl e"
  by (auto simp: encode_rec_def encode_def validate_range_def in_layout_simp)

lemma encode_rec_Inr_iff: "encode_rec d = Inr m \<longleftrightarrow> in_layout d \<and> m = radix d"
  using encode_rec_ok [of d] encode_rec_error [of d] by (cases "in_layout d") auto

lemma radix_bounds: "in_layout d \<Longrightarrow> is_mask32 (radix d)"
  by (auto simp: in_layout_simp radix_def is_mask32_def)

lemma low_digit:
  fixes x r b :: int
  assumes "0 \<le> r" and "r < b"
  shows "(x * b + r) div b = x" and "(x * b + r) mod b = r"
  using assms by (simp_all add: div_add1_eq mod_pos_pos_trivial div_pos_pos_trivial)

lemma radix_horner:
  "radix d = (((dm_org d * 32 + dm_region d) * 32 + dm_role d) * 128 + dm_group d) * 16 + dm_dept d"
  by (simp add: radix_def algebra_simps)

lemma decode_horner:
  "decode m = \<lparr>dm_org = m div 16 div 128 div 32 div 32 mod 2048, dm_region = m div 16 div 128 div 32 mod 32,
     dm_role = m div 16 div 128 mod 32, dm_group = m div 16 mod 128, dm_dept = m mod 16\<rparr>"
  by (simp add: decode_arith zdiv_zmult2_eq [symmetric])

lemma decode_radix:
  assumes "in_layout d"
  shows "decode (radix d) = d"
proof -
  define q3 where "q3 = dm_org d * 32 + dm_region d"
  define q2 where "q2 = q3 * 32 + dm_role d"
  define q1 where "q1 = q2 * 128 + dm_group d"
  define m where "m = q1 * 16 + dm_dept d"
  note digits = assms [unfolded in_layout_simp]
  have e1: "m div 16 = q1" "m mod 16 = dm_dept d"
    unfolding m_def using low_digit [of "dm_dept d" 16 q1] digits by simp_all
  have e2: "q1 div 128 = q2" "q1 mod 128 = dm_group d"
    unfolding q1_def using low_digit [of "dm_group d" 128 q2] digits by simp_all
  have e3: "q2 div 32 = q3" "q2 mod 32 = dm_role d"
    unfolding q2_def using low_digit [of "dm_role d" 32 q3] digits by simp_all
  have e4: "q3 div 32 = dm_org d" "q3 mod 32 = dm_region d" "dm_org d mod 2048 = dm_org d"
    unfolding q3_def using low_digit [of "dm_region d" 32 "dm_org d"] digits by simp_all
  have "radix d = m" by (simp only: radix_horner m_def q1_def q2_def q3_def)
  then show ?thesis by (simp only: decode_horner e1 e2 e3 e4 decoded_mask.surjective) simp
qed

lemma radix_decode:
  assumes "is_mask32 m"
  shows "radix (decode m) = m"
proof -
  define q1 where "q1 = m div 16"
  define q2 where "q2 = q1 div 128"
  define q3 where "q3 = q2 div 32"
  define q4 where "q4 = q3 div 32"
  have "m div 2 ^ 21 = q4"
    by (simp add: q1_def q2_def q3_def q4_def zdiv_zmult2_eq [symmetric])
  then have "0 \<le> q4" "q4 < 2048"
    using assms by (auto simp: is_mask32_def)
  then have "q4 mod 2048 = q4" by simp
  moreover have "q3 = q4 * 32 + q3 mod 32" "q2 = q3 * 32 + q2 mod 32"
    "q1 = q2 * 128 + q1 mod 128" "m = q1 * 16 + m mod 16"
    by (simp_all add: q1_def q2_def q3_def q4_def)
  ultimately show ?thesis
    by (simp add: radix_horner decode_horner q1_def [symmetric] q2_def [symmetric]
        q3_def [symmetric] q4_def [symmetric])
qed


subsection \<open>Products of dimension values\<close>

text \<open>
  \<open>mask_product\<close> of in-range dimension lists never raises, has no duplicates when the
  lists have none, and its members are exactly the masks with one value per dimension.
\<close>

definition dims_ok :: "int \<Rightarrow> int list \<Rightarrow> int list \<Rightarrow> int list \<Rightarrow> int list \<Rightarrow> bool" where
  "dims_ok og rgs ros grs dps \<longleftrightarrow> og \<in> {0..MAX_ORG_ID} \<and> set rgs \<subseteq> {0..MAX_REGION}
     \<and> set ros \<subseteq> {0..MAX_ROLE} \<and> set grs \<subseteq> {0..MAX_GROUP} \<and> set dps \<subseteq> {0..MAX_DEPT}"

abbreviation mk_mask :: "int \<Rightarrow> int \<times> int \<times> int \<times> int \<Rightarrow> decoded_mask" where
  "mk_mask og t \<equiv> (case t of (rg, ro, gr, dp) \<Rightarrow>
     \<lparr>dm_org = og, dm_region = rg, dm_role = ro, dm_group = gr, dm_dept = dp\<rparr>)"

abbreviation dim_tuples ::
  "int list \<Rightarrow> int list \<Rightarrow> int list \<Rightarrow> int list \<Rightarrow> (int \<times> int \<times> int \<times> int) list" where
  "dim_tuples rgs ros grs dps \<equiv> [(rg, ro, gr, dp). rg \<leftarrow> rgs, ro \<leftarrow> ros, gr \<leftarrow> grs, dp \<leftarrow> dps]"

lemma dim_tuples_product:
  "dim_tuples rgs ros grs dps = List.product rgs (List.product ros (List.product grs dps))"
proof -
  have prod: "List.product xs ys = concat (map (\<lambda>x. map (Pair x) ys) xs)" for xs :: "'x list" and ys :: "'y list"
    by (induction xs) auto
  show ?thesis by (simp add: prod map_concat comp_def)
qed

lemma in_layout_mk_mask:
  assumes "dims_ok og rgs ros grs dps"
    and "t \<in> set (List.product rgs (List.product ros (List.product grs dps)))"
  shows "in_layout (mk_mask og t)"
proof -
  obtain rg ro gr dp where t: "t = (rg, ro, gr, dp)" by (cases t)
  with assms show ?thesis by (auto simp: dims_ok_def in_layout_def)
qed

lemma mask_product_ok:
  assumes "dims_ok og rgs ros grs dps"
  shows "mask_product og rgs ros grs dps =
    Inr (map (\<lambda>t. radix (mk_mask og t)) (List.product rgs (List.product ros (List.product grs dps))))"
proof -
  have "(\<lambda>(rg, ro, gr, dp). encode og rg ro gr dp) t = Inr (radix (mk_mask og t))"
    if "t \<in> set (List.product rgs (List.product ros (List.product grs dps)))" for t
    using encode_rec_ok [OF in_layout_mk_mask [OF assms that]]
    by (simp add: encode_rec_def split: prod.splits)
  then show ?thesis
    unfolding mask_product_def dim_tuples_product by (intro map_res_total)
qed

lemma mask_product_eq:
  assumes "dims_ok og rgs ros grs dps" and "mask_product og rgs ros grs dps = Inr ms"
  shows "ms = map (\<lambda>t. radix (mk_mask og t)) (List.product rgs (List.product ros (List.product grs dps)))"
  using assms(2) unfolding mask_product_ok [OF assms(1)] by (rule sum.inject(2) [THEN iffD1, symmetric])

lemma set_mask_product:
  "dims_ok og rgs ros grs dps \<Longrightarrow> mask_product og rgs ros grs dps = Inr ms \<Longrightarrow>
   set ms = (\<lambda>t. radix (mk_mask og t)) ` set (List.product rgs (List.product ros (List.product grs dps)))"
  by (drule (1) mask_product_eq) (simp only: list.set_map)

lemma mem_mask_product:
  assumes "dims_ok og rgs ros grs dps" and "is_mask32 m" and "mask_product og rgs ros grs dps = Inr ms"
  shows "m \<in> set ms \<longleftrightarrow> dm_org (decode m) = og \<and> dm_region (decode m) \<in> set rgs
    \<and> dm_role (decode m) \<in> set ros \<and> dm_group (decode m) \<in> set grs \<and> dm_dept (decode m) \<in> set dps"
  (is "_ \<longleftrightarrow> ?rhs")
proof
  assume "m \<in> set ms"
  then obtain t where t: "t \<in> set (List.product rgs (List.product ros (List.product grs dps)))"
    and m: "m = radix (mk_mask og t)"
    by (auto simp: set_mask_product [OF assms(1,3)])
  have "decode m = mk_mask og t" unfolding m by (rule decode_radix [OF in_layout_mk_mask [OF assms(1) t]])
  with t show ?rhs by auto
next
  assume rhs: ?rhs
  let ?t = "(dm_region (decode m), dm_role (decode m), dm_group (decode m), dm_dept (decode m))"
  from rhs have "mk_mask og ?t = decode m" by simp
  then have "radix (mk_mask og ?t) = m" using radix_decode [OF assms(2)] by simp
  moreover from rhs have "?t \<in> set (List.product rgs (List.product ros (List.product grs dps)))" by simp
  ultimately show "m \<in> set ms"
    unfolding set_mask_product [OF assms(1,3)] by (rule image_eqI [OF sym])
qed

lemma distinct_mask_product:
  assumes "dims_ok og rgs ros grs dps" and "mask_product og rgs ros grs dps = Inr ms"
    and "distinct rgs" "distinct ros" "distinct grs" "distinct dps"
  shows "distinct ms"
proof -
  let ?P = "List.product rgs (List.product ros (List.product grs dps))"
  have "inj_on (\<lambda>t. radix (mk_mask og t)) (set ?P)"
  proof (rule inj_onI)
    fix s t assume st: "s \<in> set ?P" "t \<in> set ?P" "radix (mk_mask og s) = radix (mk_mask og t)"
    then have "mk_mask og s = mk_mask og t"
      by (metis decode_radix in_layout_mk_mask [OF assms(1)])
    then show "s = t" by (auto split: prod.splits)
  qed
  moreover have "distinct ?P" using assms(3-6) by (simp add: distinct_product)
  moreover have "ms = map (\<lambda>t. radix (mk_mask og t)) ?P"
    by (rule mask_product_eq [OF assms(1,2)])
  ultimately show ?thesis by (simp add: distinct_map)
qed

lemma mask_product_is_mask32:
  "dims_ok og rgs ros grs dps \<Longrightarrow> mask_product og rgs ros grs dps = Inr ms \<Longrightarrow> m \<in> set ms \<Longrightarrow> is_mask32 m"
  using radix_bounds in_layout_mk_mask by (force simp del: set_product simp: set_mask_product)

lemma length_mask_product:
  assumes "dims_ok og rgs ros grs dps" and "mask_product og rgs ros grs dps = Inr ms"
  shows "length ms = length rgs * (length ros * (length grs * length dps))"
  using assms by (auto simp: mask_product_ok)


subsection \<open>Wildcard expansion\<close>

lemma dims_ok_decode:
  "dims_ok (dm_org (decode u)) (own_or_wild (dm_region (decode u)) MAX_REGION)
     (own_or_wild (dm_role (decode u)) MAX_ROLE) (own_or_wild (dm_group (decode u)) MAX_GROUP)
     (own_or_wild (dm_dept (decode u)) MAX_DEPT)"
  using in_layout_decode [of u] by (simp add: dims_ok_def in_layout_simp own_or_wild_def)

lemma expand_wildcards_total: "\<exists>ms. expand_wildcards u = Inr ms"
  unfolding expand_wildcards_def Let_def mask_product_ok [OF dims_ok_decode] by simp

lemma mem_own_or_wild: "d \<in> set (own_or_wild own wild) \<longleftrightarrow> field_matches own d wild"
  by (auto simp: own_or_wild_def field_matches_def)

lemma mem_expand_wildcards:
  assumes "is_mask32 d" and "expand_wildcards u = Inr ms"
  shows "d \<in> set ms \<longleftrightarrow> matches u d"
proof -
  from assms(2) obtain ps where ps: "mask_product (dm_org (decode u))
      (own_or_wild (dm_region (decode u)) MAX_REGION) (own_or_wild (dm_role (decode u)) MAX_ROLE)
      (own_or_wild (dm_group (decode u)) MAX_GROUP) (own_or_wild (dm_dept (decode u)) MAX_DEPT) = Inr ps"
    and ms: "ms = fromkeys ps"
    by (auto simp: expand_wildcards_def Let_def result_simps)
  show ?thesis
    unfolding ms set_fromkeys mem_mask_product [OF dims_ok_decode assms(1) ps]
    by (simp add: matches_def Let_def mem_own_or_wild eq_commute [of "dm_org (decode u)"])
qed

lemma expand_wildcards_is_mask32:
  assumes "expand_wildcards u = Inr ms" and "m \<in> set ms"
  shows "is_mask32 m"
  using assms mask_product_is_mask32 [OF dims_ok_decode]
  by (auto simp: expand_wildcards_def Let_def result_simps)

lemma expand_member_masks_total: "\<exists>ms. expand_member_masks us = Inr ms"
proof -
  have "map_res expand_wildcards us = Inr (map (\<lambda>u. projr (expand_wildcards u)) us)"
    by (rule map_res_total) (metis expand_wildcards_total sum.sel(2))
  then show ?thesis by (simp add: expand_member_masks_def)
qed

lemma expand_member_masks_is_mask32:
  assumes "expand_member_masks us = Inr es" and "m \<in> set es"
  shows "is_mask32 m"
proof -
  from assms obtain mss xs where mss: "map_res expand_wildcards us = Inr mss" and "xs \<in> set mss" "m \<in> set xs"
    by (auto simp: expand_member_masks_def result_simps)
  with set_map_res [OF mss, of xs] show ?thesis by (auto intro: expand_wildcards_is_mask32)
qed

lemma mem_expand_member_masks:
  assumes "is_mask32 d" and "expand_member_masks us = Inr ms"
  shows "d \<in> set ms \<longleftrightarrow> (\<exists>u \<in> set us. matches u d)"
proof -
  from assms(2) obtain mss where mss: "map_res expand_wildcards us = Inr mss"
    and ms: "ms = fromkeys (concat mss)"
    by (auto simp: expand_member_masks_def result_simps)
  have "d \<in> set ms \<longleftrightarrow> (\<exists>xs. d \<in> set xs \<and> (\<exists>u \<in> set us. expand_wildcards u = Inr xs))"
    using set_map_res [OF mss] by (auto simp: ms)
  also have "\<dots> \<longleftrightarrow> (\<exists>u \<in> set us. matches u d)"
    using mem_expand_wildcards [OF assms(1)] expand_wildcards_total by blast
  finally show ?thesis .
qed

subsection \<open>The interface the stores rely on\<close>

text \<open>
  Postgres array overlap, Qdrant \<open>MatchAny\<close> and Neo4j \<open>k IN $keys\<close> compare integers for
  equality. A filter over expanded keys is right when expansion turns the grant relation
  into equality; the overlap test over whole key lists is then the relation \<open>some key grants
  some document mask\<close>.
\<close>

locale equality_filter =
  fixes expand :: "'u \<Rightarrow> 'k list" and grants :: "'u \<Rightarrow> 'k \<Rightarrow> bool" and valid :: "'k \<Rightarrow> bool"
  assumes expand_iff: "valid d \<Longrightarrow> d \<in> set (expand u) \<longleftrightarrow> grants u d"
begin

lemma overlap_iff:
  assumes "\<And>d. d \<in> set docs \<Longrightarrow> valid d"
  shows "list_ex (\<lambda>d. d \<in> set (concat (map expand us))) docs
    \<longleftrightarrow> (\<exists>u \<in> set us. \<exists>d \<in> set docs. grants u d)"
  using assms by (auto simp: list_ex_iff expand_iff)

lemma no_grant_no_hit:
  assumes "valid d" and "\<And>u. u \<in> set us \<Longrightarrow> \<not> grants u d"
  shows "d \<notin> set (concat (map expand us))"
  using assms by (auto simp: expand_iff)

end

definition wildcard_keys :: "int \<Rightarrow> int list" where
  "wildcard_keys u = (case expand_wildcards u of Inl _ \<Rightarrow> [] | Inr ms \<Rightarrow> ms)"

interpretation store_filter: equality_filter wildcard_keys matches is_mask32
proof
  fix d u assume "is_mask32 d"
  with expand_wildcards_total [of u] mem_expand_wildcards [of d u]
  show "d \<in> set (wildcard_keys u) \<longleftrightarrow> matches u d" by (auto simp: wildcard_keys_def)
qed

subsection \<open>Member masks\<close>

definition assignment_masks :: "int \<Rightarrow> int list \<Rightarrow> int list \<Rightarrow> int list \<Rightarrow> int list \<Rightarrow> int list" where
  "assignment_masks og rgs ros grs dps =
     (case mask_product og rgs ros grs dps of Inl _ \<Rightarrow> [] | Inr ms \<Rightarrow> ms)"

lemma map_res_Inr_mem: "map_res f xs = Inr ys \<Longrightarrow> x \<in> set xs \<Longrightarrow> \<exists>y. f x = Inr y"
  by (induction xs arbitrary: ys) (auto simp: result_simps)

text \<open>A product that does not raise has all its values in range, unless it is empty.\<close>

lemma member_masks_Inr:
  assumes "member_masks og rgs ros grs dps = Inr ms"
  shows "dims_ok og (with_wildcard rgs MAX_REGION) (with_wildcard ros MAX_ROLE)
     (with_wildcard grs MAX_GROUP) (with_wildcard dps MAX_DEPT)"
proof -
  have "in_layout (mk_mask og (rg, ro, gr, dp))"
    if "rg \<in> set (with_wildcard rgs MAX_REGION)" "ro \<in> set (with_wildcard ros MAX_ROLE)"
      "gr \<in> set (with_wildcard grs MAX_GROUP)" "dp \<in> set (with_wildcard dps MAX_DEPT)" for rg ro gr dp
  proof -
    have "(rg, ro, gr, dp) \<in> set (dim_tuples (with_wildcard rgs MAX_REGION) (with_wildcard ros MAX_ROLE)
      (with_wildcard grs MAX_GROUP) (with_wildcard dps MAX_DEPT))"
      using that unfolding dim_tuples_product by simp
    from map_res_Inr_mem [OF assms [unfolded member_masks_def mask_product_def] this]
    have "\<exists>m. encode_rec (mk_mask og (rg, ro, gr, dp)) = Inr m" by (simp add: encode_rec_def)
    then show ?thesis by (auto simp: encode_rec_Inr_iff)
  qed
  then have all: "in_layout (mk_mask og (rg, ro, gr, dp))"
    if "rg = MAX_REGION \<or> rg \<in> set rgs" "ro = MAX_ROLE \<or> ro \<in> set ros"
      "gr = MAX_GROUP \<or> gr \<in> set grs" "dp = MAX_DEPT \<or> dp \<in> set dps" for rg ro gr dp
    using that by (auto simp: with_wildcard_def)
  from all [of MAX_REGION MAX_ROLE MAX_GROUP MAX_DEPT] all [of _ MAX_ROLE MAX_GROUP MAX_DEPT]
    all [of MAX_REGION _ MAX_GROUP MAX_DEPT] all [of MAX_REGION MAX_ROLE _ MAX_DEPT]
    all [of MAX_REGION MAX_ROLE MAX_GROUP]
  show ?thesis by (auto simp: dims_ok_def in_layout_def with_wildcard_def)
qed

lemma dims_ok_with_wildcard:
  "dims_ok og rgs ros grs dps \<Longrightarrow> dims_ok og (with_wildcard rgs MAX_REGION)
     (with_wildcard ros MAX_ROLE) (with_wildcard grs MAX_GROUP) (with_wildcard dps MAX_DEPT)"
  by (auto simp: dims_ok_def with_wildcard_def)

lemma mem_assignment_masks:
  assumes "dims_ok og rgs ros grs dps"
  shows "u \<in> set (assignment_masks og rgs ros grs dps) \<longleftrightarrow> is_mask32 u \<and> dm_org (decode u) = og
    \<and> dm_region (decode u) \<in> set rgs \<and> dm_role (decode u) \<in> set ros
    \<and> dm_group (decode u) \<in> set grs \<and> dm_dept (decode u) \<in> set dps"
proof -
  obtain ms where ms: "mask_product og rgs ros grs dps = Inr ms" using mask_product_ok [OF assms] by blast
  then have "assignment_masks og rgs ros grs dps = ms" by (simp add: assignment_masks_def)
  with mem_mask_product [OF assms _ ms] mask_product_is_mask32 [OF assms ms] show ?thesis by blast
qed

lemma mem_member_masks:
  assumes "dims_ok og rgs ros grs dps" and "is_mask32 d" and "member_masks og rgs ros grs dps = Inr ms"
  shows "d \<in> set ms \<longleftrightarrow> dm_org (decode d) = og
    \<and> (dm_region (decode d) \<in> set rgs \<or> dm_region (decode d) = MAX_REGION)
    \<and> (dm_role (decode d) \<in> set ros \<or> dm_role (decode d) = MAX_ROLE)
    \<and> (dm_group (decode d) \<in> set grs \<or> dm_group (decode d) = MAX_GROUP)
    \<and> (dm_dept (decode d) \<in> set dps \<or> dm_dept (decode d) = MAX_DEPT)"
  unfolding mem_mask_product [OF dims_ok_with_wildcard [OF assms(1)] assms(2)
      assms(3) [unfolded member_masks_def]]
  by (auto simp: with_wildcard_def)

lemma matches_iff:
  "matches u d \<longleftrightarrow> dm_org (decode u) = dm_org (decode d)
    \<and> (dm_region (decode d) = MAX_REGION \<or> dm_region (decode u) = dm_region (decode d))
    \<and> (dm_role (decode d) = MAX_ROLE \<or> dm_role (decode u) = dm_role (decode d))
    \<and> (dm_group (decode d) = MAX_GROUP \<or> dm_group (decode u) = dm_group (decode d))
    \<and> (dm_dept (decode d) = MAX_DEPT \<or> dm_dept (decode u) = dm_dept (decode d))"
  by (simp add: matches_def Let_def field_matches_def)

text \<open>A tuple of own values that covers a document mask exists when every dimension has one.\<close>

lemma assignment_covers:
  assumes ok: "dims_ok og rgs ros grs dps" and d: "is_mask32 d"
    and ne: "rgs \<noteq> []" "ros \<noteq> []" "grs \<noteq> []" "dps \<noteq> []"
  shows "(\<exists>u \<in> set (assignment_masks og rgs ros grs dps). matches u d) \<longleftrightarrow> dm_org (decode d) = og
    \<and> (dm_region (decode d) \<in> set rgs \<or> dm_region (decode d) = MAX_REGION)
    \<and> (dm_role (decode d) \<in> set ros \<or> dm_role (decode d) = MAX_ROLE)
    \<and> (dm_group (decode d) \<in> set grs \<or> dm_group (decode d) = MAX_GROUP)
    \<and> (dm_dept (decode d) \<in> set dps \<or> dm_dept (decode d) = MAX_DEPT)" (is "_ \<longleftrightarrow> ?rhs")
proof
  assume "\<exists>u \<in> set (assignment_masks og rgs ros grs dps). matches u d"
  then obtain u where u: "u \<in> set (assignment_masks og rgs ros grs dps)" and m: "matches u d" by blast
  show ?rhs using u m unfolding mem_assignment_masks [OF ok] matches_iff by metis
next
  assume rhs: ?rhs
  define pick where "pick v xs = (if v \<in> set xs then v else hd xs)" for v :: int and xs
  define t where "t = (pick (dm_region (decode d)) rgs, pick (dm_role (decode d)) ros,
    pick (dm_group (decode d)) grs, pick (dm_dept (decode d)) dps)"
  have "t \<in> set (List.product rgs (List.product ros (List.product grs dps)))"
    using ne by (auto simp: t_def pick_def)
  then have lay: "in_layout (mk_mask og t)" by (rule in_layout_mk_mask [OF ok])
  have dec: "decode (radix (mk_mask og t)) = mk_mask og t" by (rule decode_radix [OF lay])
  have "radix (mk_mask og t) \<in> set (assignment_masks og rgs ros grs dps)"
    unfolding mem_assignment_masks [OF ok] dec using radix_bounds [OF lay] ne
    by (auto simp: t_def pick_def)
  moreover have "matches (radix (mk_mask og t)) d"
    unfolding matches_iff dec using rhs by (auto simp: t_def pick_def)
  ultimately show "\<exists>u \<in> set (assignment_masks og rgs ros grs dps). matches u d" by blast
qed

subsection \<open>Properties\<close>

text \<open>
  C38. \<open>encode\<close> accepts exactly the components in range; what it returns is a 32-bit mask,
  and \<open>decode\<close> gives the components back. Out of range it raises. Conversely every 32-bit mask is the encoding of the
  components \<open>decode\<close> reads from it.
\<close>

theorem encode_decode_roundtrip:
  "(case encode og rg ro gr dp of
     Inr m \<Rightarrow> og \<in> {0..MAX_ORG_ID} \<and> rg \<in> {0..MAX_REGION} \<and> ro \<in> {0..MAX_ROLE}
       \<and> gr \<in> {0..MAX_GROUP} \<and> dp \<in> {0..MAX_DEPT} \<and> 0 \<le> m \<and> m < 2 ^ 32
       \<and> decode m = \<lparr>dm_org = og, dm_region = rg, dm_role = ro, dm_group = gr, dm_dept = dp\<rparr>
   | Inl e \<Rightarrow> \<not> (og \<in> {0..MAX_ORG_ID} \<and> rg \<in> {0..MAX_REGION} \<and> ro \<in> {0..MAX_ROLE}
       \<and> gr \<in> {0..MAX_GROUP} \<and> dp \<in> {0..MAX_DEPT}))
   \<and> (\<forall>m. 0 \<le> m \<and> m < 2 ^ 32 \<longrightarrow>
       encode (dm_org (decode m)) (dm_region (decode m)) (dm_role (decode m)) (dm_group (decode m)) (dm_dept (decode m)) = Inr m)"
proof -
  let ?d = "mk_mask og (rg, ro, gr, dp)"
  have enc: "encode og rg ro gr dp = encode_rec ?d" by (simp add: encode_rec_def)
  show ?thesis
  proof (rule conjI)
    show "\<forall>m. 0 \<le> m \<and> m < 2 ^ 32 \<longrightarrow>
        encode (dm_org (decode m)) (dm_region (decode m)) (dm_role (decode m)) (dm_group (decode m)) (dm_dept (decode m)) = Inr m"
      unfolding encode_rec_def [symmetric] by (simp add: encode_rec_ok in_layout_decode radix_decode is_mask32_def)
  next
    show "case encode og rg ro gr dp of
        Inr m \<Rightarrow> og \<in> {0..MAX_ORG_ID} \<and> rg \<in> {0..MAX_REGION} \<and> ro \<in> {0..MAX_ROLE}
          \<and> gr \<in> {0..MAX_GROUP} \<and> dp \<in> {0..MAX_DEPT} \<and> 0 \<le> m \<and> m < 2 ^ 32
          \<and> decode m = \<lparr>dm_org = og, dm_region = rg, dm_role = ro, dm_group = gr, dm_dept = dp\<rparr>
      | Inl e \<Rightarrow> \<not> (og \<in> {0..MAX_ORG_ID} \<and> rg \<in> {0..MAX_REGION} \<and> ro \<in> {0..MAX_ROLE}
          \<and> gr \<in> {0..MAX_GROUP} \<and> dp \<in> {0..MAX_DEPT})"
    proof (cases "in_layout ?d")
      case True
      with decode_radix [OF True] radix_bounds [OF True] show ?thesis
        by (simp add: enc encode_rec_ok in_layout_def is_mask32_def)
    next
      case False
      with encode_rec_error [OF False] show ?thesis by (auto simp: enc in_layout_def)
    qed
  qed
qed

theorem encode_decode_roundtrip_witness:
  "encode (dm_org (decode 2293759)) (dm_region (decode 2293759)) (dm_role (decode 2293759)) (dm_group (decode 2293759)) (dm_dept (decode 2293759))
    = Inr 2293759"
  using encode_decode_roundtrip by simp

text \<open>
  Expanding a member's mask turns \<open>matches\<close> into equality: for every 32-bit document
  mask, membership in \<open>expand_wildcards\<close> is exactly \<open>matches\<close>; the expansion never raises.
\<close>

theorem expand_wildcards_matches:
  assumes "0 \<le> d" and "d < 2 ^ 32"
  shows "\<exists>ms. expand_wildcards u = Inr ms \<and> (d \<in> set ms \<longleftrightarrow> matches u d)"
  using expand_wildcards_total [of u] mem_expand_wildcards [of d u] assms
  by (auto simp: is_mask32_def)

theorem expand_wildcards_matches_witness:
  "\<exists>ms. expand_wildcards 2168849 = Inr ms \<and> (2228223 \<in> set ms \<longleftrightarrow> matches 2168849 2228223)"
  using expand_wildcards_matches [of 2228223 2168849] by simp

text \<open>
  A member's mask set built per dimension is the set obtained by expanding every
  region, role, group and department tuple; neither raises for in-range values. The
  lists have to be non-empty: with no value in a dimension there is no tuple to expand,
  while \<open>member_masks\<close> still yields the masks with the wildcard there.
\<close>

theorem member_masks_expand:
  assumes "og \<in> {0..MAX_ORG_ID}" and "set rgs \<subseteq> {0..MAX_REGION}" and "set ros \<subseteq> {0..MAX_ROLE}"
    and "set grs \<subseteq> {0..MAX_GROUP}" and "set dps \<subseteq> {0..MAX_DEPT}"
    and "rgs \<noteq> []" and "ros \<noteq> []" and "grs \<noteq> []" and "dps \<noteq> []"
  shows "\<exists>us ms es. mask_product og rgs ros grs dps = Inr us \<and> member_masks og rgs ros grs dps = Inr ms
    \<and> expand_member_masks us = Inr es \<and> set ms = set es \<and> distinct ms"
proof -
  have ok: "dims_ok og rgs ros grs dps" using assms by (simp add: dims_ok_def)
  let ?us = "assignment_masks og rgs ros grs dps"
  note okw = dims_ok_with_wildcard [OF ok]
  obtain ms where ms: "member_masks og rgs ros grs dps = Inr ms"
    unfolding member_masks_def mask_product_ok [OF okw] by blast
  obtain es where es: "expand_member_masks ?us = Inr es" using expand_member_masks_total by blast
  have us: "mask_product og rgs ros grs dps = Inr ?us"
    by (simp add: assignment_masks_def mask_product_ok [OF ok])
  have "m \<in> set ms \<longleftrightarrow> m \<in> set es" if "is_mask32 m" for m
    unfolding mem_member_masks [OF ok that ms] mem_expand_member_masks [OF that es]
      assignment_covers [OF ok that assms(6-9)] ..
  moreover have "is_mask32 m" if "m \<in> set ms" for m
    using mask_product_is_mask32 [OF okw ms [unfolded member_masks_def] that] .
  moreover have "is_mask32 m" if "m \<in> set es" for m
    using expand_member_masks_is_mask32 [OF es that] .
  moreover have "distinct ms"
    using distinct_mask_product [OF okw ms [unfolded member_masks_def]] by (simp add: with_wildcard_def)
  ultimately show ?thesis using us ms es by blast
qed

theorem member_masks_expand_witness:
  "\<exists>us ms es. mask_product 1 [2, 5] [3] [4] [7] = Inr us \<and> member_masks 1 [2, 5] [3] [4] [7] = Inr ms
    \<and> expand_member_masks us = Inr es \<and> set ms = set es \<and> distinct ms"
  by (rule member_masks_expand) simp_all

text \<open>
  Tenant isolation and size: every mask of a member's set carries the member's own org,
  so \<open>matches\<close> never crosses organisations through it, and the set has at most
  \<open>(r+1)(ro+1)(g+1)(d+1)\<close> masks.
\<close>

theorem member_masks_isolation:
  assumes "member_masks og rgs ros grs dps = Inr ms" and "m \<in> set ms"
  shows "dm_org (decode m) = og \<and> (matches m d \<longrightarrow> dm_org (decode d) = og)
    \<and> length ms \<le> (length rgs + 1) * ((length ros + 1) * ((length grs + 1) * (length dps + 1)))"
proof -
  from member_masks_Inr [OF assms(1)] have ok: "dims_ok og (with_wildcard rgs MAX_REGION)
     (with_wildcard ros MAX_ROLE) (with_wildcard grs MAX_GROUP) (with_wildcard dps MAX_DEPT)" .
  note ms = assms(1) [unfolded member_masks_def]
  have "is_mask32 m" by (rule mask_product_is_mask32 [OF ok ms assms(2)])
  with assms(2) have org: "dm_org (decode m) = og" by (simp add: mem_mask_product [OF ok _ ms])
  have len: "length (with_wildcard xs w) \<le> length xs + 1" for xs w
    using length_fromkeys [of "xs @ [w]"] by (simp add: with_wildcard_def)
  have "length ms \<le> (length rgs + 1) * ((length ros + 1) * ((length grs + 1) * (length dps + 1)))"
    unfolding length_mask_product [OF ok ms] by (intro mult_le_mono len)
  then show ?thesis using org by (simp add: matches_iff)
qed

theorem member_masks_isolation_witness:
  "\<exists>ms m. member_masks 1 [2] [3] [4] [7] = Inr ms \<and> m \<in> set ms \<and> dm_org (decode m) = 1
    \<and> (matches m 2168951 \<longrightarrow> dm_org (decode 2168951) = 1) \<and> length ms \<le> 16"
proof -
  have "dims_ok 1 [2] [3] [4] [7]" by (simp add: dims_ok_def)
  from mask_product_ok [OF dims_ok_with_wildcard [OF this]] obtain ms where
    ms: "member_masks 1 [2] [3] [4] [7] = Inr ms" by (simp add: member_masks_def)
  then have "ms \<noteq> []"
    using length_mask_product [OF member_masks_Inr [OF ms] ms [unfolded member_masks_def]]
    by (auto simp: with_wildcard_def)
  then obtain m where m: "m \<in> set ms" by (cases ms) auto
  from member_masks_isolation [OF ms m, of 2168951] ms m show ?thesis by auto
qed

end
