(* ===== verification/Py_Values.thy ===== *)
theory Py_Values
  imports Complex_Main "HOL-Library.Log_Nat" Prelude
begin

section \<open>The Python values the workflow code computes with\<close>

text \<open>
  What the sources use of Python itself: JSON-shaped values, IEEE double arithmetic,
  \<open>==\<close>, \<open><\<close>, \<open>in\<close>, truthiness, \<open>str()\<close>, \<open>float()\<close> and \<open>int()\<close>, and the built-in
  exceptions they raise. Conventions:
  \<^item> a \<open>dict\<close> of a JSON value is an association list in insertion order with string keys;
  \<^item> a finite float is the exact rational it denotes, and every arithmetic result is
    rounded to the nearest double (\<open>fl\<close>, ties to even, subnormals, overflow to infinity);
    the sign of zero is not kept;
  \<^item> a \<open>char\<close> is a code point below 256, so strings are those of Latin-1 text;
  \<^item> \<open>x in xs\<close> is equality; Python's identity shortcut differs from it on NaN only.
\<close>

datatype py_exc = TypeError | ValueError | UnsupportedOperator string | IndexError | KeyError
  | AttributeError | ZeroDivisionError | OverflowError

subsection \<open>Doubles\<close>

datatype pyfloat = Fin rat | PInf | NInf | NaN

definition round_half_even :: "rat \<Rightarrow> int" where
  "round_half_even q =
     (let f = \<lfloor>q\<rfloor>; d = q - of_int f in
      if d < 1 / 2 then f else if 1 / 2 < d then f + 1 else if even f then f else f + 1)"

definition pow_rat :: "rat \<Rightarrow> int \<Rightarrow> rat" where
  "pow_rat b k = (if 0 \<le> k then b ^ nat k else 1 / b ^ nat (- k))"

text \<open>\<open>rat_log b q\<close> is the integer \<open>k\<close> with \<open>b^k \<le> q < b^(k+1)\<close>, for \<open>q > 0\<close>.\<close>

definition rat_log :: "nat \<Rightarrow> rat \<Rightarrow> int" where
  "rat_log b q =
     (let nd = quotient_of q;
          k = int (floorlog b (nat (fst nd))) - int (floorlog b (nat (snd nd))) in
      if pow_rat (of_nat b) k \<le> q then k else k - 1)"

definition fl :: "rat \<Rightarrow> pyfloat" where
  "fl q =
     (if q = 0 then Fin 0
      else let a = \<bar>q\<bar>; e = max (rat_log 2 a) (- 1022);
               r = of_int (round_half_even (a * pow_rat 2 (52 - e))) * pow_rat 2 (e - 52) in
           if 2 ^ 1024 \<le> r then (if 0 < q then PInf else NInf) else Fin (sgn q * r))"

fun f_neg :: "pyfloat \<Rightarrow> pyfloat" where
  "f_neg (Fin a) = Fin (- a)" | "f_neg PInf = NInf" | "f_neg NInf = PInf" | "f_neg NaN = NaN"

fun f_add :: "pyfloat \<Rightarrow> pyfloat \<Rightarrow> pyfloat" where
  "f_add NaN _ = NaN" | "f_add _ NaN = NaN"
| "f_add PInf NInf = NaN" | "f_add NInf PInf = NaN"
| "f_add PInf _ = PInf" | "f_add _ PInf = PInf" | "f_add NInf _ = NInf" | "f_add _ NInf = NInf"
| "f_add (Fin a) (Fin b) = fl (a + b)"

definition f_sub :: "pyfloat \<Rightarrow> pyfloat \<Rightarrow> pyfloat" where
  "f_sub x y = f_add x (f_neg y)"

fun f_sgn :: "pyfloat \<Rightarrow> int" where
  "f_sgn (Fin a) = (if 0 < a then 1 else if a < 0 then - 1 else 0)"
| "f_sgn PInf = 1" | "f_sgn NInf = - 1" | "f_sgn NaN = 0"

definition f_signed_inf :: "int \<Rightarrow> pyfloat" where
  "f_signed_inf s = (if 0 < s then PInf else if s < 0 then NInf else NaN)"

fun f_mul :: "pyfloat \<Rightarrow> pyfloat \<Rightarrow> pyfloat" where
  "f_mul NaN _ = NaN" | "f_mul _ NaN = NaN"
| "f_mul (Fin a) (Fin b) = fl (a * b)"
| "f_mul x y = f_signed_inf (f_sgn x * f_sgn y)"

text \<open>Division by zero raises in Python, so it is not a case of \<open>f_div\<close>'s callers.\<close>

fun f_div :: "pyfloat \<Rightarrow> pyfloat \<Rightarrow> pyfloat" where
  "f_div NaN _ = NaN" | "f_div _ NaN = NaN"
| "f_div (Fin a) (Fin b) = fl (a / b)"
| "f_div (Fin a) _ = Fin 0"
| "f_div x (Fin b) = f_signed_inf (f_sgn x * (if b < 0 then - 1 else 1))"
| "f_div _ _ = NaN"

fun f_lt :: "pyfloat \<Rightarrow> pyfloat \<Rightarrow> bool" where
  "f_lt (Fin a) (Fin b) = (a < b)"
| "f_lt NInf (Fin _) = True" | "f_lt NInf PInf = True" | "f_lt (Fin _) PInf = True"
| "f_lt _ _ = False"

definition f_eq :: "pyfloat \<Rightarrow> pyfloat \<Rightarrow> bool" where
  "f_eq x y \<longleftrightarrow> x = y \<and> x \<noteq> NaN"

definition f_abs :: "pyfloat \<Rightarrow> pyfloat" where
  "f_abs x = (if f_lt x (Fin 0) then f_neg x else x)"

text \<open>\<open>float(i)\<close> for an integer raises on overflow.\<close>

definition float_of_int :: "int \<Rightarrow> (py_exc, pyfloat) result" where
  "float_of_int i = (case fl (of_int i) of Fin q \<Rightarrow> Inr (Fin q) | _ \<Rightarrow> Inl OverflowError)"

text \<open>
  \<open>sum()\<close> over floats, as of Python 3.12: it starts from the integer \<open>0\<close>, adds the first
  float to it and then keeps a compensation term (Neumaier).
\<close>

definition sum_step :: "pyfloat \<times> pyfloat \<Rightarrow> pyfloat \<Rightarrow> pyfloat \<times> pyfloat" where
  "sum_step s x =
     (let hi = fst s; t = f_add hi x in
      if \<not> f_lt (f_abs hi) (f_abs x) then (t, f_add (snd s) (f_add (f_sub hi t) x))
      else (t, f_add (snd s) (f_add (f_sub x t) hi)))"

definition is_finite :: "pyfloat \<Rightarrow> bool" where
  "is_finite x \<longleftrightarrow> (case x of Fin _ \<Rightarrow> True | _ \<Rightarrow> False)"

subsection \<open>JSON values\<close>

datatype json = JNull | JBool bool | JInt int | JFloat pyfloat | JStr string
  | JList "json list" | JObj "(string \<times> json) list"

definition py_sum :: "pyfloat list \<Rightarrow> json" where
  "py_sum xs = (case xs of [] \<Rightarrow> JInt 0
     | x # xs \<Rightarrow> (let s = fold (\<lambda>y s. sum_step s y) xs (f_add (Fin 0) x, Fin 0) in
         JFloat (if snd s \<noteq> Fin 0 \<and> is_finite (snd s) then f_add (fst s) (snd s) else fst s)))"

type_synonym jdict = "(string \<times> json) list"

text \<open>The numeric value of a bool, int or float, exactly.\<close>

fun num_val :: "json \<Rightarrow> pyfloat option" where
  "num_val (JBool b) = Some (Fin (of_bool b))"
| "num_val (JInt i) = Some (Fin (of_int i))"
| "num_val (JFloat f) = Some f"
| "num_val _ = None"

fun truthy :: "json \<Rightarrow> bool" where
  "truthy JNull = False"
| "truthy (JBool b) = b"
| "truthy (JInt i) = (i \<noteq> 0)"
| "truthy (JFloat f) = (f \<noteq> Fin 0)"
| "truthy (JStr s) = (s \<noteq> [])"
| "truthy (JList xs) = (xs \<noteq> [])"
| "truthy (JObj d) = (d \<noteq> [])"

text \<open>Python's \<open>==\<close>: numbers compare by value across types, dictionaries ignore order.\<close>

function (sequential) py_eq :: "json \<Rightarrow> json \<Rightarrow> bool"
  and py_eq_list :: "json list \<Rightarrow> json list \<Rightarrow> bool"
  and py_eq_dict :: "jdict \<Rightarrow> jdict \<Rightarrow> bool" where
  "py_eq JNull JNull = True"
| "py_eq (JStr s) (JStr t) = (s = t)"
| "py_eq (JList xs) (JList ys) = py_eq_list xs ys"
| "py_eq (JObj d) (JObj e) = (length d = length e \<and> py_eq_dict d e)"
| "py_eq x y = (case (num_val x, num_val y) of (Some a, Some b) \<Rightarrow> f_eq a b | _ \<Rightarrow> False)"
| "py_eq_list [] [] = True"
| "py_eq_list (x # xs) (y # ys) = (py_eq x y \<and> py_eq_list xs ys)"
| "py_eq_list _ _ = False"
| "py_eq_dict [] e = True"
| "py_eq_dict ((k, v) # d) e =
     ((case dget e k of None \<Rightarrow> False | Some w \<Rightarrow> py_eq v w) \<and> py_eq_dict d e)"
  by pat_completeness auto
termination
  by (relation "measure (\<lambda>s. case s of Inl p \<Rightarrow> size (fst p)
        | Inr (Inl p) \<Rightarrow> size_list size (fst p)
        | Inr (Inr p) \<Rightarrow> size_list (size_prod (\<lambda>_. 0) size) (fst p))") auto

definition char_code :: "char \<Rightarrow> nat" where
  "char_code c = of_char c"

fun str_lt :: "string \<Rightarrow> string \<Rightarrow> bool" where
  "str_lt _ [] = False"
| "str_lt [] (_ # _) = True"
| "str_lt (c # s) (d # t) = (char_code c < char_code d \<or> (c = d \<and> str_lt s t))"

text \<open>Python's \<open><\<close>: numbers, strings and lists; anything else raises \<open>TypeError\<close>.\<close>

function (sequential) py_lt :: "json \<Rightarrow> json \<Rightarrow> (py_exc, bool) result"
  and py_lt_list :: "json list \<Rightarrow> json list \<Rightarrow> (py_exc, bool) result" where
  "py_lt (JStr s) (JStr t) = Inr (str_lt s t)"
| "py_lt (JList xs) (JList ys) = py_lt_list xs ys"
| "py_lt x y = (case (num_val x, num_val y) of (Some a, Some b) \<Rightarrow> Inr (f_lt a b)
     | _ \<Rightarrow> Inl TypeError)"
| "py_lt_list _ [] = Inr False"
| "py_lt_list [] (_ # _) = Inr True"
| "py_lt_list (x # xs) (y # ys) = (if py_eq x y then py_lt_list xs ys else py_lt x y)"
  by pat_completeness auto
termination
  by (relation "measure (\<lambda>s. case s of Inl p \<Rightarrow> size (fst p) | Inr p \<Rightarrow> size_list size (fst p))") auto

fun substring :: "string \<Rightarrow> string \<Rightarrow> bool" where
  "substring s [] = (s = [])"
| "substring s (c # t) = (take (length s) (c # t) = s \<or> substring s t)"

text \<open>\<open>x in container\<close>, for the container types that support it.\<close>

fun py_in :: "json \<Rightarrow> json \<Rightarrow> (py_exc, bool) result" where
  "py_in x (JList ys) = Inr (list_ex (\<lambda>y. py_eq x y) ys)"
| "py_in (JStr s) (JStr t) = Inr (substring s t)"
| "py_in (JStr s) (JObj d) = Inr (s \<in> set (dkeys d))"
| "py_in (JList _) (JObj _) = Inl TypeError"
| "py_in (JObj _) (JObj _) = Inl TypeError"
| "py_in _ (JObj _) = Inr False"
| "py_in _ _ = Inl TypeError"

end
