(* ===== verification/Py_Text.thy ===== *)
theory Py_Text
  imports Py_Values
begin

section \<open>Text conversions of Python: str, repr, split, strip, float and int\<close>

text \<open>
  The conversions between values and text the sources rely on. \<open>py_str\<close> is \<open>str()\<close> and
  \<open>py_repr\<close> is \<open>repr()\<close> (a float prints as the shortest decimal that reads back as the
  same double), \<open>float_of_str\<close> and \<open>int_of_str\<close> are \<open>float()\<close> and \<open>int()\<close> on text,
  \<open>split_on\<close> is \<open>s.split(c)\<close> for one separator character, \<open>strip\<close> is \<open>s.strip()\<close>.
\<close>

subsection \<open>Digits\<close>

definition chr_of :: "nat \<Rightarrow> char" where
  "chr_of n = char_of n"

definition digit_char :: "nat \<Rightarrow> char" where
  "digit_char n = chr_of (48 + n)"

text \<open>Evaluation takes the characters as they are, and does not compute their bits from the number.\<close>

lemma chr_of_literal [code_unfold]:
  "chr_of 9 = CHR 0x09" "chr_of 10 = CHR 0x0A" "chr_of 34 = CHR 0x22" "chr_of 39 = CHR 0x27" "chr_of 92 = CHR 0x5C"
  by code_simp+

lemma digit_char_code [code]:
  "digit_char n = (if n < 10 then ''0123456789'' ! n else chr_of (48 + n))"
proof -
  have "\<forall>k \<in> set [0..<10]. chr_of (48 + k) = ''0123456789'' ! k" by code_simp
  then show ?thesis by (simp add: digit_char_def)
qed

definition is_digit :: "char \<Rightarrow> bool" where
  "is_digit c \<longleftrightarrow> 48 \<le> char_code c \<and> char_code c \<le> 57"

definition digit_val :: "char \<Rightarrow> nat" where
  "digit_val c = char_code c - 48"

fun show_nat :: "nat \<Rightarrow> string" where
  "show_nat n = (if n < 10 then [digit_char n] else show_nat (n div 10) @ [digit_char (n mod 10)])"

declare show_nat.simps [simp del]

definition show_int :: "int \<Rightarrow> string" where
  "show_int i = (if i < 0 then ''-'' @ show_nat (nat (- i)) else show_nat (nat i))"

subsection \<open>repr of a float\<close>

text \<open>
  The decimal of \<open>k\<close> significant digits nearest to \<open>a\<close>: its digits as an integer and the
  exponent of its last digit. The shortest one that rounds back to \<open>a\<close> is printed.
\<close>

definition dec_approx :: "rat \<Rightarrow> nat \<Rightarrow> int \<times> int" where
  "dec_approx a k =
     (let e = rat_log 10 a - int k + 1 in (round_half_even (a * pow_rat 10 (- e)), e))"

definition shortest_dec :: "rat \<Rightarrow> int \<times> int" where
  "shortest_dec a =
     (case find (\<lambda>me. fl (of_int (fst me) * pow_rat 10 (snd me)) = Fin a)
             (map (dec_approx a) [1..<18]) of
        Some me \<Rightarrow> me | None \<Rightarrow> dec_approx a 17)"

definition strip_zeros :: "string \<Rightarrow> string" where
  "strip_zeros s = rev (dropWhile (\<lambda>c. c = CHR ''0'') (rev s))"

definition show_exp :: "int \<Rightarrow> string" where
  "show_exp x = (if x < 0 then ''e-'' else ''e+'') @
     (let s = show_nat (nat \<bar>x\<bar>) in if length s < 2 then ''0'' @ s else s)"

definition show_pos_float :: "rat \<Rightarrow> string" where
  "show_pos_float a =
     (let me = shortest_dec a;
          raw = show_nat (nat (fst me));
          decpt = int (length raw) + snd me;
          ds = strip_zeros raw;
          n = length ds in
      if - 4 < decpt \<and> decpt \<le> 16 then
        (if decpt \<le> 0 then ''0.'' @ replicate (nat (- decpt)) (CHR ''0'') @ ds
         else if n \<le> nat decpt then ds @ replicate (nat decpt - n) (CHR ''0'') @ ''.0''
         else take (nat decpt) ds @ ''.'' @ drop (nat decpt) ds)
      else take 1 ds @ (if n \<le> 1 then [] else ''.'' @ drop 1 ds) @ show_exp (decpt - 1))"

fun show_float :: "pyfloat \<Rightarrow> string" where
  "show_float (Fin q) = (if q = 0 then ''0.0'' else if q < 0 then ''-'' @ show_pos_float (- q)
     else show_pos_float q)"
| "show_float PInf = ''inf''" | "show_float NInf = ''-inf''" | "show_float NaN = ''nan''"

subsection \<open>repr and str\<close>

definition hex_char :: "nat \<Rightarrow> char" where
  "hex_char n = (if n < 10 then digit_char n else chr_of (87 + n))"

definition printable :: "nat \<Rightarrow> bool" where
  "printable n \<longleftrightarrow> (32 \<le> n \<and> n \<le> 126) \<or> (161 \<le> n \<and> n \<noteq> 173)"

definition repr_char :: "char \<Rightarrow> char \<Rightarrow> string" where
  "repr_char q c =
     (let n = char_code c in
      if c = q \<or> n = 92 then [chr_of 92, c]
      else if n = 10 then [chr_of 92, CHR ''n''] else if n = 13 then [chr_of 92, CHR ''r'']
      else if n = 9 then [chr_of 92, CHR ''t'']
      else if printable n then [c]
      else [chr_of 92, CHR ''x'', hex_char (n div 16), hex_char (n mod 16)])"

definition repr_str :: "string \<Rightarrow> string" where
  "repr_str s =
     (let q = (if chr_of 39 \<in> set s \<and> chr_of 34 \<notin> set s then chr_of 34 else chr_of 39) in
      [q] @ concat (map (repr_char q) s) @ [q])"

fun join_with :: "string \<Rightarrow> string list \<Rightarrow> string" where
  "join_with sep [] = []"
| "join_with sep [s] = s"
| "join_with sep (s # t # ts) = s @ sep @ join_with sep (t # ts)"

fun py_repr :: "json \<Rightarrow> string" where
  "py_repr JNull = ''None''"
| "py_repr (JBool b) = (if b then ''True'' else ''False'')"
| "py_repr (JInt i) = show_int i"
| "py_repr (JFloat f) = show_float f"
| "py_repr (JStr s) = repr_str s"
| "py_repr (JList xs) = ''['' @ join_with '', '' (map py_repr xs) @ '']''"
| "py_repr (JObj d) = ''{'' @ join_with '', '' (map (\<lambda>(k, v). repr_str k @ '': '' @ py_repr v) d) @ ''}''"

definition py_str :: "json \<Rightarrow> string" where
  "py_str v = (case v of JStr s \<Rightarrow> s | _ \<Rightarrow> py_repr v)"

subsection \<open>split and strip\<close>

fun split_on :: "char \<Rightarrow> string \<Rightarrow> string list" where
  "split_on c [] = [[]]"
| "split_on c (d # s) =
     (if d = c then [] # split_on c s
      else case split_on c s of [] \<Rightarrow> [[d]] | p # ps \<Rightarrow> (d # p) # ps)"

definition is_space :: "char \<Rightarrow> bool" where
  "is_space c \<longleftrightarrow> (let n = char_code c in (9 \<le> n \<and> n \<le> 13) \<or> (28 \<le> n \<and> n \<le> 32) \<or> n = 133 \<or> n = 160)"

definition strip :: "string \<Rightarrow> string" where
  "strip s = rev (dropWhile is_space (rev (dropWhile is_space s)))"

definition lower_char :: "char \<Rightarrow> char" where
  "lower_char c = (let n = char_code c in
     if (65 \<le> n \<and> n \<le> 90) \<or> (192 \<le> n \<and> n \<le> 222 \<and> n \<noteq> 215) then chr_of (n + 32) else c)"

definition lower :: "string \<Rightarrow> string" where
  "lower s = map lower_char s"

subsection \<open>float() and int() of text\<close>

text \<open>A run of digits, with single underscores allowed between two digits.\<close>

fun take_digits :: "string \<Rightarrow> nat list \<times> string" where
  "take_digits [] = ([], [])"
| "take_digits (c # s) =
     (if \<not> is_digit c then ([], c # s)
      else if (case s of u # d # _ \<Rightarrow> u = CHR ''_'' \<and> is_digit d | _ \<Rightarrow> False)
      then (let r = take_digits (tl s) in (digit_val c # fst r, snd r))
      else (let r = take_digits s in (digit_val c # fst r, snd r)))"

definition digits_val :: "nat list \<Rightarrow> int" where
  "digits_val ds = fold (\<lambda>d n. 10 * n + int d) ds 0"

definition take_sign :: "string \<Rightarrow> int \<times> string" where
  "take_sign s = (case s of c # t \<Rightarrow> if c = CHR ''-'' then (- 1, t) else if c = CHR ''+'' then (1, t)
     else (1, s) | [] \<Rightarrow> (1, []))"

definition take_exp :: "string \<Rightarrow> int option" where
  "take_exp s =
     (case s of [] \<Rightarrow> Some 0
      | c # t \<Rightarrow> if lower_char c \<noteq> CHR ''e'' then None
          else let sg = take_sign t; r = take_digits (snd sg) in
               if fst r = [] \<or> snd r \<noteq> [] then None else Some (fst sg * digits_val (fst r)))"

definition float_of_str :: "string \<Rightarrow> pyfloat option" where
  "float_of_str s0 =
     (let sg = take_sign (strip s0); s = snd sg; w = lower s in
      if w = ''inf'' \<or> w = ''infinity'' then Some (if fst sg < 0 then NInf else PInf)
      else if w = ''nan'' then Some NaN
      else let ip = take_digits s;
               fp = (case snd ip of c # t \<Rightarrow> if c = CHR ''.'' then take_digits t else ([], snd ip)
                     | [] \<Rightarrow> ([], [])) in
           if fst ip = [] \<and> fst fp = [] then None
           else case take_exp (snd fp) of None \<Rightarrow> None
             | Some x \<Rightarrow> Some (fl (of_int (fst sg * digits_val (fst ip @ fst fp))
                                 * pow_rat 10 (x - int (length (fst fp))))))"

definition int_of_str :: "string \<Rightarrow> int option" where
  "int_of_str s0 =
     (let sg = take_sign (strip s0); r = take_digits (snd sg) in
      if fst r = [] \<or> snd r \<noteq> [] then None else Some (fst sg * digits_val (fst r)))"

definition f_trunc :: "rat \<Rightarrow> int" where
  "f_trunc q = (if q < 0 then - \<lfloor>- q\<rfloor> else \<lfloor>q\<rfloor>)"

definition py_int_float :: "pyfloat \<Rightarrow> (py_exc, int) result" where
  "py_int_float f = (case f of Fin q \<Rightarrow> Inr (f_trunc q) | NaN \<Rightarrow> Inl ValueError | _ \<Rightarrow> Inl OverflowError)"

text \<open>\<open>int(v)\<close> and \<open>float(v)\<close>.\<close>

definition py_int :: "json \<Rightarrow> (py_exc, int) result" where
  "py_int v =
     (case v of JBool b \<Rightarrow> Inr (of_bool b) | JInt i \<Rightarrow> Inr i | JFloat f \<Rightarrow> py_int_float f
      | JStr s \<Rightarrow> (case int_of_str s of Some i \<Rightarrow> Inr i | None \<Rightarrow> Inl ValueError)
      | _ \<Rightarrow> Inl TypeError)"

definition py_float :: "json \<Rightarrow> (py_exc, pyfloat) result" where
  "py_float v =
     (case v of JBool b \<Rightarrow> Inr (Fin (of_bool b)) | JInt i \<Rightarrow> float_of_int i | JFloat f \<Rightarrow> Inr f
      | JStr s \<Rightarrow> (case float_of_str s of Some f \<Rightarrow> Inr f | None \<Rightarrow> Inl ValueError)
      | _ \<Rightarrow> Inl TypeError)"

subsection \<open>Untyped access\<close>

text \<open>
  \<open>for x in v\<close>, \<open>v.get(k)\<close>, \<open>v or dflt\<close> and \<open>dict(v)\<close> on a value of unknown shape. A dict is
  iterated by its keys, a string by its characters. \<open>dict(v)\<close> of a list accepts a list of
  two-element lists; the model covers those with string keys.
\<close>

definition py_iter :: "json \<Rightarrow> (py_exc, json list) result" where
  "py_iter v = (case v of JList xs \<Rightarrow> Inr xs | JObj d \<Rightarrow> Inr (map (\<lambda>kv. JStr (fst kv)) d)
     | JStr s \<Rightarrow> Inr (map (\<lambda>c. JStr [c]) s) | _ \<Rightarrow> Inl TypeError)"

definition jget :: "jdict \<Rightarrow> string \<Rightarrow> json" where
  "jget d k = (case dget d k of None \<Rightarrow> JNull | Some v \<Rightarrow> v)"

definition attr_get :: "json \<Rightarrow> string \<Rightarrow> (py_exc, json) result" where
  "attr_get v k = (case v of JObj d \<Rightarrow> Inr (jget d k) | _ \<Rightarrow> Inl AttributeError)"

definition py_or :: "json \<Rightarrow> json \<Rightarrow> json" where
  "py_or v dflt = (if truthy v then v else dflt)"

definition pair_item :: "json \<Rightarrow> (py_exc, string \<times> json) result" where
  "pair_item v = (case v of JList [JStr k, x] \<Rightarrow> Inr (k, x) | JList _ \<Rightarrow> Inl ValueError | _ \<Rightarrow> Inl TypeError)"

definition py_dict :: "json \<Rightarrow> (py_exc, jdict) result" where
  "py_dict v =
     (case v of JObj d \<Rightarrow> Inr d
      | JList xs \<Rightarrow> bind_res (map_res pair_item xs) (\<lambda>kvs. Inr (dmerge [] kvs))
      | JStr s \<Rightarrow> (if s = [] then Inr [] else Inl ValueError)
      | _ \<Rightarrow> Inl TypeError)"

text \<open>\<open>set(v)\<close> of a value: iterable, with hashable members. Only the membership of the result is used.\<close>

definition hashable :: "json \<Rightarrow> bool" where
  "hashable v \<longleftrightarrow> (case v of JList _ \<Rightarrow> False | JObj _ \<Rightarrow> False | _ \<Rightarrow> True)"

definition py_set :: "json \<Rightarrow> (py_exc, json list) result" where
  "py_set v = bind_res (py_iter v) (\<lambda>xs. if list_all hashable xs then Inr xs else Inl TypeError)"

text \<open>
  A character outside Latin-1, such as a dash, is written as its UTF-8 bytes.
\<close>

definition EM_DASH :: string where "EM_DASH = map chr_of [226, 128, 148]"

lemma EM_DASH_code [code]: "EM_DASH = [CHR 0xE2, CHR 0x80, CHR 0x94]"
  by code_simp

subsection \<open>Facts about splitting\<close>

lemma split_on_not_Nil [simp]: "split_on c s \<noteq> []"
  by (induction s) (auto split: list.splits)

lemma split_on_no_sep: "c \<notin> set s \<Longrightarrow> split_on c s = [s]"
  by (induction s) auto

lemma split_on_append:
  "c \<notin> set s \<Longrightarrow> split_on c (s @ c # t) = s # split_on c t"
  by (induction s) auto

end
