(* ===== verification/Wf_Graph.thy ===== *)
theory Wf_Graph
  imports Py_Text
begin

section \<open>Workflow definitions: the graph contract, normalization and graph queries\<close>

text \<open>
  The parsed workflow definition (\<open>schemas/workflow_definition.py\<close>), the vocabulary it is
  written in (\<open>services/workflow/constants.py\<close>), the read-time normalization of legacy
  graphs (\<open>services/workflow/compat.py\<close>) and the graph queries of the token engine
  (\<open>services/workflow/engine.py\<close>, graph helpers). A node's \<open>data\<close> stays a free-form
  dictionary, as in the source; canvas positions are dropped.
\<close>

subsection \<open>Vocabulary (constants.py)\<close>

definition SCHEMA_VERSION :: int where "SCHEMA_VERSION = 2"

definition LEGACY_NODE_TYPES :: "string list" where
  "LEGACY_NODE_TYPES = [''action'', ''condition'', ''switch'', ''delay'', ''merge'', ''passthrough'']"
definition NEW_NODE_TYPES :: "string list" where
  "NEW_NODE_TYPES = [''trigger'', ''task'', ''gateway'', ''event'']"
definition NODE_TYPES :: "string list" where
  "NODE_TYPES = NEW_NODE_TYPES @ LEGACY_NODE_TYPES"
definition TASK_TYPES :: "string list" where
  "TASK_TYPES = [''service'', ''send'', ''script'', ''businessRule'', ''user'', ''receive'', ''call'',
     ''subProcess'', ''manual'', ''agent'']"
definition WAIT_TASK_TYPES :: "string list" where
  "WAIT_TASK_TYPES = [''user'', ''receive'', ''call'', ''subProcess'', ''manual'']"
definition GATEWAY_TYPES :: "string list" where
  "GATEWAY_TYPES = [''exclusive'', ''parallel'', ''inclusive'', ''event_based'']"
definition FORKING_GATEWAY_TYPES :: "string list" where
  "FORKING_GATEWAY_TYPES = [''parallel'', ''inclusive'']"
definition EVENT_POSITIONS :: "string list" where
  "EVENT_POSITIONS = [''intermediate'', ''end'', ''boundary'']"
definition EVENT_TYPES :: "string list" where
  "EVENT_TYPES = [''timer'', ''message'', ''signal'', ''error'', ''escalation'', ''terminate'', ''none'']"
definition WAIT_EVENT_TYPES :: "string list" where
  "WAIT_EVENT_TYPES = [''timer'', ''message'', ''signal'']"

lemmas vocabulary = LEGACY_NODE_TYPES_def NEW_NODE_TYPES_def NODE_TYPES_def TASK_TYPES_def
  WAIT_TASK_TYPES_def GATEWAY_TYPES_def FORKING_GATEWAY_TYPES_def EVENT_POSITIONS_def EVENT_TYPES_def
  WAIT_EVENT_TYPES_def

subsection \<open>Nodes, edges, definitions (workflow_definition.py)\<close>

record wedge =
  e_id :: "string option"
  e_source :: string
  e_target :: string
  e_handle :: "string option"

record wnode =
  n_id :: string
  n_type :: string
  n_data :: jdict

record wdef =
  w_version :: int
  w_nodes :: "wnode list"
  w_edges :: "wedge list"

definition jstr_in :: "json \<Rightarrow> string list \<Rightarrow> bool" where
  "jstr_in v xs = (case v of JStr s \<Rightarrow> s \<in> set xs | _ \<Rightarrow> False)"

definition id_char :: "char \<Rightarrow> bool" where
  "id_char c \<longleftrightarrow> (let n = char_code c in
     (65 \<le> n \<and> n \<le> 90) \<or> (97 \<le> n \<and> n \<le> 122) \<or> is_digit c \<or> n = 95 \<or> n = 45)"

text \<open>
  \<open>re.match(r"^[A-Za-z0-9_-]{1,64}$", v)\<close>: the \<open>$\<close> of Python also matches before a newline
  that ends the string.
\<close>

definition node_id_ok :: "string \<Rightarrow> bool" where
  "node_id_ok v =
     (let body = (if v \<noteq> [] \<and> char_code (last v) = 10 then butlast v else v) in
      1 \<le> length body \<and> length body \<le> 64 \<and> list_all id_char body)"

datatype parse_error = BadNodeId string | UnknownNodeType string | UnknownTaskType string
  | UnknownGatewayType string | UnknownPosition string | UnknownEventType string
  | DuplicateNodeIds "string list" | UnknownSource string | UnknownTarget string

text \<open>The discriminator checks: a missing one is allowed, an unknown one is refused.\<close>

definition subtype_in_vocab :: "wnode \<Rightarrow> (parse_error, unit) result" where
  "subtype_in_vocab n =
     (let d = n_data n; bad = (\<lambda>k xs. jget d k \<noteq> JNull \<and> \<not> jstr_in (jget d k) xs) in
      if n_type n = ''task'' then
        (if bad ''task_type'' TASK_TYPES then Inl (UnknownTaskType (n_id n)) else Inr ())
      else if n_type n = ''gateway'' then
        (if bad ''gateway_type'' GATEWAY_TYPES then Inl (UnknownGatewayType (n_id n)) else Inr ())
      else if n_type n = ''event'' then
        (if bad ''position'' EVENT_POSITIONS then Inl (UnknownPosition (n_id n))
         else if bad ''event_type'' EVENT_TYPES then Inl (UnknownEventType (n_id n)) else Inr ())
      else Inr ())"

definition check_node :: "wnode \<Rightarrow> (parse_error, unit) result" where
  "check_node n =
     (if \<not> node_id_ok (n_id n) then Inl (BadNodeId (n_id n))
      else if n_type n \<notin> set NODE_TYPES then Inl (UnknownNodeType (n_type n))
      else subtype_in_vocab n)"

fun scan_ids :: "wnode list \<Rightarrow> string list \<Rightarrow> string list \<Rightarrow> string list \<times> string list" where
  "scan_ids [] seen dupes = (seen, dupes)"
| "scan_ids (n # ns) seen dupes =
     (if n_id n \<in> set seen then scan_ids ns seen (if n_id n \<in> set dupes then dupes else dupes @ [n_id n])
      else scan_ids ns (n_id n # seen) dupes)"

fun check_edges :: "wedge list \<Rightarrow> string list \<Rightarrow> (parse_error, unit) result" where
  "check_edges [] seen = Inr ()"
| "check_edges (e # es) seen =
     (if e_source e \<notin> set seen then Inl (UnknownSource (e_source e))
      else if e_target e \<notin> set seen then Inl (UnknownTarget (e_target e))
      else check_edges es seen)"

definition check_structure :: "wdef \<Rightarrow> (parse_error, unit) result" where
  "check_structure w =
     (let sd = scan_ids (w_nodes w) [] [] in
      if snd sd \<noteq> [] then Inl (DuplicateNodeIds (snd sd)) else check_edges (w_edges w) (fst sd))"

definition parse_def :: "wdef \<Rightarrow> (parse_error, wdef) result" where
  "parse_def w = bind_res (map_res check_node (w_nodes w)) (\<lambda>_.
     bind_res (check_structure w) (\<lambda>_. Inr w))"

definition task_type :: "wnode \<Rightarrow> json" where
  "task_type n = (if n_type n = ''task'' then jget (n_data n) ''task_type'' else JNull)"

definition gateway_type :: "wnode \<Rightarrow> json" where
  "gateway_type n = (if n_type n = ''gateway'' then jget (n_data n) ''gateway_type'' else JNull)"

definition is_wait_state :: "wnode \<Rightarrow> bool" where
  "is_wait_state n =
     (if n_type n = ''task'' then jstr_in (task_type n) WAIT_TASK_TYPES
      else if n_type n = ''event'' then
        (if jget (n_data n) ''position'' = JStr ''intermediate'' then
           (case dget (n_data n) ''throw_catch'' of None \<Rightarrow> True | Some v \<Rightarrow> v = JStr ''catch'')
           \<and> jstr_in (jget (n_data n) ''event_type'') WAIT_EVENT_TYPES
         else jget (n_data n) ''position'' = JStr ''boundary'')
      else False)"

definition is_v2 :: "wdef \<Rightarrow> bool" where
  "is_v2 w \<longleftrightarrow> w_version w \<ge> SCHEMA_VERSION
     \<or> list_ex (\<lambda>n. n_type n \<in> set NEW_NODE_TYPES \<and> n_type n \<noteq> ''trigger'') (w_nodes w)"

definition node_by_id :: "wdef \<Rightarrow> string \<Rightarrow> wnode option" where
  "node_by_id w i = find (\<lambda>n. n_id n = i) (w_nodes w)"

subsection \<open>Read-time normalization (compat.py)\<close>

definition setdefault :: "jdict \<Rightarrow> string \<Rightarrow> json \<Rightarrow> jdict" where
  "setdefault d k v = (case dget d k of None \<Rightarrow> dset d k v | Some _ \<Rightarrow> d)"

definition SEND_ACTIONS :: "string list" where
  "SEND_ACTIONS = [''send_email'', ''send_webhook'', ''send_form'']"

definition GATEWAY_LEGACY_TYPES :: "string list" where
  "GATEWAY_LEGACY_TYPES = [''condition'', ''switch'', ''merge'', ''passthrough'']"

definition task_type_for_action :: "json \<Rightarrow> string" where
  "task_type_for_action a = (if jstr_in a SEND_ACTIONS then ''send'' else ''service'')"

definition normalize_node :: "wnode \<Rightarrow> wnode" where
  "normalize_node n =
     (let d = n_data n in
      if n_type n = ''action'' then
        n\<lparr>n_type := ''task'',
          n_data := setdefault d ''task_type'' (JStr (task_type_for_action (jget d ''action_type'')))\<rparr>
      else if n_type n \<in> set GATEWAY_LEGACY_TYPES then
        n\<lparr>n_type := ''gateway'', n_data := setdefault d ''gateway_type'' (JStr ''exclusive'')\<rparr>
      else if n_type n = ''delay'' then
        n\<lparr>n_type := ''event'',
          n_data := setdefault (setdefault (setdefault d ''position'' (JStr ''intermediate''))
                      ''event_type'' (JStr ''timer'')) ''throw_catch'' (JStr ''catch'')\<rparr>
      else n)"

definition normalize :: "wdef \<Rightarrow> wdef" where
  "normalize w =
     (if \<not> list_ex (\<lambda>n. n_type n \<in> set LEGACY_NODE_TYPES) (w_nodes w) then w
      else w\<lparr>w_version := max (w_version w) SCHEMA_VERSION, w_nodes := map normalize_node (w_nodes w)\<rparr>)"

subsection \<open>Graph queries (engine.py)\<close>

definition out_edges :: "wdef \<Rightarrow> string \<Rightarrow> (string \<times> string option) list" where
  "out_edges w i = map (\<lambda>e. (e_target e, e_handle e)) (filter (\<lambda>e. e_source e = i) (w_edges w))"

definition incoming_edges :: "wdef \<Rightarrow> string \<Rightarrow> (string \<times> string option) list" where
  "incoming_edges w i = map (\<lambda>e. (e_source e, e_handle e)) (filter (\<lambda>e. e_target e = i) (w_edges w))"

definition succs :: "(string \<times> string) list \<Rightarrow> string \<Rightarrow> string list" where
  "succs links c = map snd (filter (\<lambda>l. fst l = c) links)"

text \<open>The breadth-first walk over a list of links, from a queue of start ids.\<close>

function bfs :: "(string \<times> string) list \<Rightarrow> string list \<Rightarrow> string list \<Rightarrow> string list" where
  "bfs links [] seen = seen"
| "bfs links (c # q) seen =
     (if c \<in> set seen then bfs links q seen else bfs links (q @ succs links c) (c # seen))"
  by pat_completeness auto
termination
proof (relation "measures [\<lambda>(links, q, seen). card ((set q \<union> snd ` set links) - set seen),
    \<lambda>(links, q, seen). length q]", goal_cases)
  case 1 show ?case by simp
next
  case (2 links c q seen)
  then have "(set q \<union> snd ` set links) - set seen = (set (c # q) \<union> snd ` set links) - set seen" by auto
  then show ?case by simp
next
  case (3 links c q seen)
  have "(set (q @ succs links c) \<union> snd ` set links) - set (c # seen)
      \<subset> (set (c # q) \<union> snd ` set links) - set seen"
    using 3 by (auto simp: succs_def)
  then show ?case by (simp add: psubset_card_mono)
qed

definition edge_links :: "wdef \<Rightarrow> (string \<times> string) list" where
  "edge_links w = map (\<lambda>e. (e_source e, e_target e)) (w_edges w)"

definition forward_reachable_nodes :: "wdef \<Rightarrow> string list \<Rightarrow> string list" where
  "forward_reachable_nodes w starts = bfs (edge_links w) starts []"

definition is_boundary :: "wnode \<Rightarrow> bool" where
  "is_boundary n \<longleftrightarrow> n_type n = ''event'' \<and> jget (n_data n) ''position'' = JStr ''boundary''"

definition boundary_of :: "string \<Rightarrow> string \<Rightarrow> wnode \<Rightarrow> bool" where
  "boundary_of event_type i n \<longleftrightarrow> is_boundary n \<and> jget (n_data n) ''event_type'' = JStr event_type
     \<and> jget (n_data n) ''attached_to'' = JStr i"

text \<open>
  The scan for an error boundary: a boundary whose code equals the error's ends it, the
  first one without a code is remembered as the catch-all.
\<close>

fun error_boundary_scan :: "wnode list \<Rightarrow> string \<Rightarrow> string option \<Rightarrow> wnode option \<Rightarrow> wnode option" where
  "error_boundary_scan [] i code catch_all = catch_all"
| "error_boundary_scan (n # ns) i code catch_all =
     (if boundary_of ''error'' i n then
        (let bcode = jget (n_data n) ''error_code'' in
         if truthy bcode \<and> code \<noteq> None \<and> code \<noteq> Some [] \<and> Some (py_str bcode) = code then Some n
         else if \<not> truthy bcode \<and> catch_all = None then error_boundary_scan ns i code (Some n)
         else error_boundary_scan ns i code catch_all)
      else error_boundary_scan ns i code catch_all)"

definition error_boundary_for :: "wdef \<Rightarrow> string \<Rightarrow> string option \<Rightarrow> wnode option" where
  "error_boundary_for w i code = error_boundary_scan (w_nodes w) i code None"

definition timer_boundary_for :: "wdef \<Rightarrow> string \<Rightarrow> wnode option" where
  "timer_boundary_for w i = find (boundary_of ''timer'' i) (w_nodes w)"

subsection \<open>The walk computes reachability\<close>

lemma set_succs [simp]: "v \<in> set (succs links c) \<longleftrightarrow> (c, v) \<in> set links"
  by (auto simp: succs_def image_iff)

lemma bfs_sound:
  "v \<in> set (bfs links q seen) \<Longrightarrow> v \<in> set seen \<or> (\<exists>s \<in> set q. (s, v) \<in> (set links)\<^sup>*)"
proof (induction links q seen rule: bfs.induct)
  case (2 links c q seen)
  show ?case
  proof (cases "c \<in> set seen")
    case True
    then show ?thesis using 2 by auto
  next
    case False
    then consider "v \<in> set seen" | "v = c" | s where "s \<in> set q" "(s, v) \<in> (set links)\<^sup>*"
      | s where "(c, s) \<in> set links" "(s, v) \<in> (set links)\<^sup>*"
      using 2 by auto
    then show ?thesis
      by cases (auto intro: converse_rtrancl_into_rtrancl)
  qed
qed simp

lemma bfs_incl: "set seen \<union> set q \<subseteq> set (bfs links q seen)"
  by (induction links q seen rule: bfs.induct) auto

text \<open>The loop invariant: a successor of a seen node is seen or queued.\<close>

definition frontier_inv :: "(string \<times> string) list \<Rightarrow> string list \<Rightarrow> string list \<Rightarrow> bool" where
  "frontier_inv links q seen \<longleftrightarrow>
     (\<forall>l \<in> set links. fst l \<in> set seen \<longrightarrow> snd l \<in> set seen \<union> set q)"

lemma bfs_closed:
  "frontier_inv links q seen \<Longrightarrow> frontier_inv links [] (bfs links q seen)"
proof (induction links q seen rule: bfs.induct)
  case (2 links c q seen)
  show ?case
  proof (cases "c \<in> set seen")
    case True
    then show ?thesis using 2 by (auto simp: frontier_inv_def)
  next
    case False
    have "frontier_inv links (q @ succs links c) (c # seen)"
      using 2(3) by (fastforce simp: frontier_inv_def)
    then show ?thesis using 2 False by simp
  qed
qed simp

lemma bfs_complete:
  assumes "(s, v) \<in> (set links)\<^sup>*" "s \<in> set q"
  shows "v \<in> set (bfs links q [])"
proof -
  have closed: "frontier_inv links [] (bfs links q [])"
    by (rule bfs_closed) (simp add: frontier_inv_def)
  from assms(1) show ?thesis
  proof (induction rule: rtrancl_induct)
    case base
    then show ?case using assms(2) bfs_incl [of "[]" q links] by auto
  next
    case (step y z)
    then show ?case using closed by (force simp: frontier_inv_def)
  qed
qed

locale graph_search =
  fixes search :: "(string \<times> string) list \<Rightarrow> string list \<Rightarrow> string list"
  assumes search_iff: "v \<in> set (search links starts) \<longleftrightarrow> (\<exists>s \<in> set starts. (s, v) \<in> (set links)\<^sup>*)"
begin

lemma starts_reached: "s \<in> set starts \<Longrightarrow> s \<in> set (search links starts)"
  by (auto simp: search_iff)

lemma edge_closed:
  "u \<in> set (search links starts) \<Longrightarrow> (u, v) \<in> set links \<Longrightarrow> v \<in> set (search links starts)"
  by (auto simp: search_iff intro: rtrancl_into_rtrancl)

lemma no_starts: "v \<notin> set (search links [])"
  by (simp add: search_iff)

lemma mono_starts:
  "set starts \<subseteq> set starts' \<Longrightarrow> set (search links starts) \<subseteq> set (search links starts')"
  by (fastforce simp: search_iff)

lemma mono_links:
  "set links \<subseteq> set links' \<Longrightarrow> set (search links starts) \<subseteq> set (search links' starts)"
  using rtrancl_mono [of "set links" "set links'"] by (fastforce simp: search_iff)

lemma within: "set (search links starts) \<subseteq> set starts \<union> snd ` set links"
proof
  fix v assume "v \<in> set (search links starts)"
  then obtain s where "s \<in> set starts" "(s, v) \<in> (set links)\<^sup>*" by (auto simp: search_iff)
  from this(2,1) show "v \<in> set starts \<union> snd ` set links"
    by (cases rule: rtranclE) (simp_all add: rev_image_eqI)
qed

end

interpretation walk: graph_search "\<lambda>links starts. bfs links starts []"
  by unfold_locales (use bfs_sound bfs_complete in fastforce)

declare bfs.simps [simp del]

text \<open>
  The forward-reachability walk of the engine, which decides whether an inclusive join may
  still receive a token, returns exactly the nodes that a path of edges of the definition
  joins to one of the start nodes, cyclic graphs included.
\<close>

theorem forward_reachable_nodes_iff:
  "v \<in> set (forward_reachable_nodes w starts) \<longleftrightarrow>
     (\<exists>s \<in> set starts. (s, v) \<in> {(e_source e, e_target e) | e. e \<in> set (w_edges w)}\<^sup>*)"
proof -
  have "set (edge_links w) = {(e_source e, e_target e) | e. e \<in> set (w_edges w)}"
    by (auto simp: edge_links_def)
  then show ?thesis by (simp add: forward_reachable_nodes_def walk.search_iff)
qed

subsection \<open>What a parsed definition satisfies\<close>

lemma scan_ids_seen: "set (fst (scan_ids ns seen dupes)) = set seen \<union> n_id ` set ns"
  by (induction ns seen dupes rule: scan_ids.induct) auto

lemma scan_ids_dupes:
  "snd (scan_ids ns seen dupes) = [] \<longleftrightarrow>
     dupes = [] \<and> distinct (map n_id ns) \<and> (\<forall>n \<in> set ns. n_id n \<notin> set seen)"
  by (induction ns seen dupes rule: scan_ids.induct) (auto simp: image_iff)

lemma check_edges_ok:
  "check_edges es seen = Inr () \<longleftrightarrow> (\<forall>e \<in> set es. e_source e \<in> set seen \<and> e_target e \<in> set seen)"
  by (induction es seen rule: check_edges.induct) auto

lemma check_structure_ok:
  "check_structure w = Inr () \<longleftrightarrow> distinct (map n_id (w_nodes w))
     \<and> (\<forall>e \<in> set (w_edges w). e_source e \<in> n_id ` set (w_nodes w) \<and> e_target e \<in> n_id ` set (w_nodes w))"
  by (simp add: check_structure_def Let_def scan_ids_dupes check_edges_ok scan_ids_seen)

lemma map_res_unit_ok: "(\<exists>us. map_res f xs = Inr us) \<longleftrightarrow> (\<forall>x \<in> set xs. \<exists>u. f x = Inr u)"
  by (induction xs) (auto simp: result_simps)

text \<open>
  Parsing accepts a definition exactly when every node has a well-formed id, a node type of the
  vocabulary and, where it is given, a task, gateway or event subtype of the vocabulary, no two
  nodes share an id, and both ends of every edge are nodes; it returns the definition unchanged.
\<close>

theorem parse_def_ok_iff:
  "parse_def w = Inr w' \<longleftrightarrow> w' = w
     \<and> (\<forall>n \<in> set (w_nodes w). node_id_ok (n_id n) \<and> n_type n \<in> set NODE_TYPES
          \<and> subtype_in_vocab n = Inr ())
     \<and> distinct (map n_id (w_nodes w))
     \<and> (\<forall>e \<in> set (w_edges w). e_source e \<in> n_id ` set (w_nodes w) \<and> e_target e \<in> n_id ` set (w_nodes w))"
proof -
  have "(\<exists>us. map_res check_node (w_nodes w) = Inr us) \<longleftrightarrow>
      (\<forall>n \<in> set (w_nodes w). node_id_ok (n_id n) \<and> n_type n \<in> set NODE_TYPES \<and> subtype_in_vocab n = Inr ())"
    unfolding map_res_unit_ok by (auto simp: check_node_def split: if_splits)
  then show ?thesis
    using check_structure_ok [of w] by (auto simp: parse_def_def result_simps)
qed

text \<open>Shorthands for the example graphs.\<close>

definition edge :: "string \<Rightarrow> string \<Rightarrow> wedge" where
  "edge a b = \<lparr>e_id = None, e_source = a, e_target = b, e_handle = None\<rparr>"

definition node_of :: "string \<Rightarrow> string \<Rightarrow> jdict \<Rightarrow> wnode" where
  "node_of i ty d = \<lparr>n_id = i, n_type = ty, n_data = d\<rparr>"

text \<open>The witness: a trigger and a task joined by one edge are accepted.\<close>

definition tiny_def :: wdef where
  "tiny_def = \<lparr>w_version = 2,
     w_nodes = [\<lparr>n_id = ''t'', n_type = ''trigger'', n_data = []\<rparr>,
                \<lparr>n_id = ''a'', n_type = ''task'', n_data = [(''task_type'', JStr ''service'')]\<rparr>],
     w_edges = [\<lparr>e_id = None, e_source = ''t'', e_target = ''a'', e_handle = None\<rparr>]\<rparr>"

theorem parse_def_ok_iff_witness: "parse_def tiny_def = Inr tiny_def"
  unfolding parse_def_ok_iff
  by (simp add: tiny_def_def vocabulary node_id_ok_def id_char_def char_code_def subtype_in_vocab_def
      jget_def jstr_in_def is_digit_def)

subsection \<open>Normalization\<close>

lemma n_id_normalize_node [simp]: "n_id (normalize_node n) = n_id n"
  by (simp add: normalize_node_def Let_def)

lemma normalize_node_not_legacy: "n_type (normalize_node n) \<notin> set LEGACY_NODE_TYPES"
  by (simp add: normalize_node_def Let_def LEGACY_NODE_TYPES_def GATEWAY_LEGACY_TYPES_def)

lemma normalize_node_new: "n_type n \<notin> set LEGACY_NODE_TYPES \<Longrightarrow> normalize_node n = n"
  by (simp add: normalize_node_def Let_def LEGACY_NODE_TYPES_def GATEWAY_LEGACY_TYPES_def)

lemma dget_setdefault [simp]:
  "dget (setdefault d k v) k' = (if k' = k \<and> dget d k = None then Some v else dget d k')"
  by (auto simp: setdefault_def split: option.splits)

lemma normalize_nodes: "w_nodes (normalize w) = map normalize_node (w_nodes w)"
  by (auto simp: normalize_def list_ex_iff normalize_node_new map_idI)

lemma normalize_edges [simp]: "w_edges (normalize w) = w_edges w"
  by (simp add: normalize_def)

lemma normalize_no_legacy: "n \<in> set (w_nodes (normalize w)) \<Longrightarrow> n_type n \<notin> set LEGACY_NODE_TYPES"
  using normalize_node_not_legacy by (auto simp: normalize_nodes)

lemma check_structure_normalize: "check_structure (normalize w) = Inr () \<longleftrightarrow> check_structure w = Inr ()"
  by (auto simp: check_structure_ok normalize_nodes comp_def image_image)

text \<open>
  Normalization leaves no legacy node type in the graph, keeps the node ids in their order and
  every edge (hence the structural checks of the parser), keeps every data field the author
  set, is idempotent, and is the identity on a graph that has no legacy node.
\<close>

theorem normalize_correct:
  "(\<forall>n \<in> set (w_nodes (normalize w)). n_type n \<notin> set LEGACY_NODE_TYPES)
   \<and> map n_id (w_nodes (normalize w)) = map n_id (w_nodes w) \<and> w_edges (normalize w) = w_edges w
   \<and> (check_structure (normalize w) = Inr () \<longleftrightarrow> check_structure w = Inr ())
   \<and> (\<forall>n \<in> set (w_nodes w). \<forall>k v. dget (n_data n) k = Some v \<longrightarrow> dget (n_data (normalize_node n)) k = Some v)
   \<and> normalize (normalize w) = normalize w
   \<and> ((\<forall>n \<in> set (w_nodes w). n_type n \<notin> set LEGACY_NODE_TYPES) \<longrightarrow> normalize w = w)"
proof (intro conjI)
  show "normalize (normalize w) = normalize w"
    using normalize_no_legacy [of _ w] by (subst normalize_def) (auto simp: list_ex_iff)
  show "\<forall>n \<in> set (w_nodes w). \<forall>k v. dget (n_data n) k = Some v
      \<longrightarrow> dget (n_data (normalize_node n)) k = Some v"
    by (auto simp: normalize_node_def Let_def)
  show "\<forall>n \<in> set (w_nodes (normalize w)). n_type n \<notin> set LEGACY_NODE_TYPES"
    using normalize_no_legacy by blast
  show "map n_id (w_nodes (normalize w)) = map n_id (w_nodes w)"
    by (simp add: normalize_nodes comp_def)
  show "check_structure (normalize w) = Inr () \<longleftrightarrow> check_structure w = Inr ()"
    by (rule check_structure_normalize)
  show "(\<forall>n \<in> set (w_nodes w). n_type n \<notin> set LEGACY_NODE_TYPES) \<longrightarrow> normalize w = w"
    by (auto simp: normalize_def list_ex_iff)
qed (rule normalize_edges)

text \<open>The witness: a legacy delay becomes an intermediate catching timer and keeps its seconds.\<close>

definition legacy_def :: wdef where
  "legacy_def = \<lparr>w_version = 1,
     w_nodes = [\<lparr>n_id = ''d'', n_type = ''delay'', n_data = [(''delay_seconds'', JInt 5)]\<rparr>], w_edges = []\<rparr>"

theorem normalize_correct_witness:
  "dget (n_data (normalize_node (hd (w_nodes legacy_def)))) ''delay_seconds'' = Some (JInt 5)
   \<and> map n_type (w_nodes (normalize legacy_def)) = [''event''] \<and> w_version (normalize legacy_def) = 2"
  using normalize_correct [of legacy_def]
  by (simp add: legacy_def_def normalize_def normalize_node_def LEGACY_NODE_TYPES_def
      GATEWAY_LEGACY_TYPES_def SCHEMA_VERSION_def Let_def)

subsection \<open>Boundary events\<close>

definition code_matches :: "string option \<Rightarrow> wnode \<Rightarrow> bool" where
  "code_matches code n \<longleftrightarrow> (let bcode = jget (n_data n) ''error_code'' in
     truthy bcode \<and> code \<noteq> None \<and> code \<noteq> Some [] \<and> Some (py_str bcode) = code)"

lemma error_boundary_scan_find:
  "error_boundary_scan ns i code catch_all =
     (case find (\<lambda>n. boundary_of ''error'' i n \<and> code_matches code n) ns of Some n \<Rightarrow> Some n
      | None \<Rightarrow> (case catch_all of Some c \<Rightarrow> Some c
         | None \<Rightarrow> find (\<lambda>n. boundary_of ''error'' i n \<and> \<not> truthy (jget (n_data n) ''error_code'')) ns))"
  by (induction ns i code catch_all rule: error_boundary_scan.induct)
    (auto simp: Let_def code_matches_def split: option.splits)

text \<open>
  The error boundary that catches a failure of node \<open>i\<close> is the first error boundary attached to it
  whose code equals the error's code, wherever it stands in the definition; failing that the first
  attached error boundary without a code; failing both there is none.
\<close>

theorem error_boundary_for_spec:
  "error_boundary_for w i code =
     (case find (\<lambda>n. boundary_of ''error'' i n \<and> code_matches code n) (w_nodes w) of Some n \<Rightarrow> Some n
      | None \<Rightarrow> find (\<lambda>n. boundary_of ''error'' i n \<and> \<not> truthy (jget (n_data n) ''error_code'')) (w_nodes w))"
  by (simp add: error_boundary_for_def error_boundary_scan_find split: option.splits)

end
