(* ===== verification/Py_Time.thy ===== *)
theory Py_Time
  imports Py_Text
begin

section \<open>Timestamps and identifiers as text\<close>

text \<open>
  \<open>datetime.isoformat()\<close>, \<open>date.isoformat()\<close> and \<open>datetime.fromisoformat()\<close> for UTC instants
  (an instant is its microseconds since 1970-01-01, the calendar is the proleptic Gregorian
  one), and the text form of a \<open>uuid.UUID\<close>. \<open>fromisoformat\<close> is modelled on the texts
  \<open>isoformat\<close> produces, the only ones the sources hand to it; \<open>uuid.UUID(s)\<close> on texts of
  hexadecimal digits with the decorations the constructor removes.
\<close>

subsection \<open>Calendar\<close>

definition civil_of_days :: "int \<Rightarrow> int \<times> int \<times> int" where
  "civil_of_days days =
     (let z = days + 719468; era = z div 146097; doe = z mod 146097;
          yoe = (doe - doe div 1460 + doe div 36524 - doe div 146096) div 365;
          doy = doe - (365 * yoe + yoe div 4 - yoe div 100);
          mp = (5 * doy + 2) div 153;
          d = doy - (153 * mp + 2) div 5 + 1;
          m = (if mp < 10 then mp + 3 else mp - 9);
          y = yoe + era * 400 + (if m \<le> 2 then 1 else 0) in (y, m, d))"

definition days_of_civil :: "int \<Rightarrow> int \<Rightarrow> int \<Rightarrow> int" where
  "days_of_civil y0 m d =
     (let y = (if m \<le> 2 then y0 - 1 else y0); era = y div 400; yoe = y mod 400;
          doy = (153 * (if m > 2 then m - 3 else m + 9) + 2) div 5 + d - 1;
          doe = yoe * 365 + yoe div 4 - yoe div 100 + doy in
      era * 146097 + doe - 719468)"

definition US_PER_DAY :: int where "US_PER_DAY = 86400000000"

subsection \<open>isoformat\<close>

definition pad :: "nat \<Rightarrow> int \<Rightarrow> string" where
  "pad w n = (let s = show_nat (nat n) in replicate (w - length s) (CHR ''0'') @ s)"

definition iso_date :: "int \<Rightarrow> string" where
  "iso_date t = (case civil_of_days (t div US_PER_DAY) of
     (y, m, d) \<Rightarrow> pad 4 y @ ''-'' @ pad 2 m @ ''-'' @ pad 2 d)"

definition iso_format :: "int \<Rightarrow> string" where
  "iso_format t =
     (let us = t mod US_PER_DAY; secs = us div 1000000; frac = us mod 1000000 in
      iso_date t @ ''T'' @ pad 2 (secs div 3600) @ '':'' @ pad 2 (secs div 60 mod 60) @ '':'' @ pad 2 (secs mod 60)
        @ (if frac = 0 then [] else ''.'' @ pad 6 frac) @ ''+00:00'')"

text \<open>A field of \<open>w\<close> digits at position \<open>i\<close>.\<close>

definition field_at :: "string \<Rightarrow> nat \<Rightarrow> nat \<Rightarrow> int option" where
  "field_at s i w = (let f = take w (drop i s) in
     if length f = w \<and> list_all is_digit f then Some (digits_val (map digit_val f)) else None)"

definition from_iso :: "string \<Rightarrow> int option" where
  "from_iso s =
     (let frac = (if take 1 (drop 19 s) = ''.'' then field_at s 20 6 else Some 0);
          zone = drop (if take 1 (drop 19 s) = ''.'' then 26 else 19) s in
      if zone \<noteq> ''+00:00'' then None
      else case (field_at s 0 4, field_at s 5 2, field_at s 8 2, field_at s 11 2, field_at s 14 2, field_at s 17 2, frac) of
          (Some y, Some m, Some d, Some hh, Some mm, Some ss, Some us) \<Rightarrow>
            Some (days_of_civil y m d * US_PER_DAY + ((hh * 60 + mm) * 60 + ss) * 1000000 + us)
        | _ \<Rightarrow> None)"

subsection \<open>UUIDs\<close>

fun hex_digits :: "nat \<Rightarrow> nat \<Rightarrow> string" where
  "hex_digits 0 n = []"
| "hex_digits (Suc k) n = hex_digits k (n div 16) @ [hex_char (n mod 16)]"

definition show_uuid :: "nat \<Rightarrow> string" where
  "show_uuid n = (let h = hex_digits 32 n in
     take 8 h @ ''-'' @ take 4 (drop 8 h) @ ''-'' @ take 4 (drop 12 h) @ ''-'' @ take 4 (drop 16 h) @ ''-'' @ drop 20 h)"

definition hex_val :: "char \<Rightarrow> nat option" where
  "hex_val c = (let n = char_code c in
     if is_digit c then Some (digit_val c)
     else if 97 \<le> n \<and> n \<le> 102 then Some (n - 87)
     else if 65 \<le> n \<and> n \<le> 70 then Some (n - 55) else None)"

fun hex_num :: "string \<Rightarrow> nat \<Rightarrow> nat option" where
  "hex_num [] acc = Some acc"
| "hex_num (c # s) acc = (case hex_val c of Some v \<Rightarrow> hex_num s (16 * acc + v) | None \<Rightarrow> None)"

text \<open>\<open>s.replace(x, "")\<close> for a non-empty \<open>x\<close>.\<close>

function remove_sub :: "string \<Rightarrow> string \<Rightarrow> string" where
  "remove_sub x s =
     (case s of [] \<Rightarrow> []
      | c # t \<Rightarrow> if x \<noteq> [] \<and> take (length x) s = x then remove_sub x (drop (length x) s)
                 else c # remove_sub x t)"
  by pat_completeness auto
termination
  by (relation "measure (\<lambda>(x, s). length s)") (auto simp: length_greater_0_conv)

declare remove_sub.simps [simp del]

definition strip_chars :: "char list \<Rightarrow> string \<Rightarrow> string" where
  "strip_chars cs s = rev (dropWhile (\<lambda>c. c \<in> set cs) (rev (dropWhile (\<lambda>c. c \<in> set cs) s)))"

definition parse_uuid :: "string \<Rightarrow> nat option" where
  "parse_uuid s =
     (let h = filter (\<lambda>c. c \<noteq> CHR ''-'') (strip_chars ''{}'' (remove_sub ''uuid:'' (remove_sub ''urn:'' s))) in
      if length h \<noteq> 32 then None else hex_num h 0)"

subsection \<open>Distinct identifiers have distinct texts\<close>

lemma length_hex_digits [simp]: "length (hex_digits k n) = k"
  by (induction k n rule: hex_digits.induct) auto

lemma hex_char_inj: "m < 16 \<Longrightarrow> n < 16 \<Longrightarrow> hex_char m = hex_char n \<Longrightarrow> m = n"
proof -
  assume a: "m < 16" "n < 16" "hex_char m = hex_char n"
  have v: "of_char (hex_char i) = (if i < 10 then 48 + i else 87 + i)" if "i < 16" for i
    using that by (auto simp: hex_char_def digit_char_def chr_of_def)
  have "(if m < 10 then 48 + m else 87 + m) = (if n < 10 then 48 + n else 87 + n)"
    using v [OF a(1)] v [OF a(2)] a(3) by simp
  then show "m = n" using a(1,2) by (auto split: if_splits)
qed

lemma hex_digits_inj: "m < 16 ^ k \<Longrightarrow> n < 16 ^ k \<Longrightarrow> hex_digits k m = hex_digits k n \<Longrightarrow> m = n"
proof (induction k arbitrary: m n)
  case (Suc k)
  have "m div 16 < 16 ^ k" "n div 16 < 16 ^ k"
    using Suc.prems(1,2) by (simp_all add: less_mult_imp_div_less mult.commute)
  with Suc have "m div 16 = n div 16" by simp
  moreover have "m mod 16 = n mod 16" using Suc.prems(3) by (auto intro: hex_char_inj)
  ultimately show ?case by (metis div_mult_mod_eq)
qed simp

lemma show_uuid_inj: "m < 16 ^ 32 \<Longrightarrow> n < 16 ^ 32 \<Longrightarrow> show_uuid m = show_uuid n \<Longrightarrow> m = n"
proof -
  assume a: "m < 16 ^ 32" "n < 16 ^ 32" "show_uuid m = show_uuid n"
  have split: "x = take 8 x @ take 4 (drop 8 x) @ take 4 (drop 12 x) @ take 4 (drop 16 x) @ drop 20 x" for x :: string
    using append_take_drop_id [of 8 x] append_take_drop_id [of 4 "drop 8 x"]
      append_take_drop_id [of 4 "drop 12 x"] append_take_drop_id [of 4 "drop 16 x"] by simp
  have "hex_digits 32 m = hex_digits 32 n"
    using a(3) split [of "hex_digits 32 m"] split [of "hex_digits 32 n"] by (simp add: show_uuid_def Let_def)
  then show "m = n" using a hex_digits_inj by blast
qed

end
