(* ===== verification/Wf_State.thy ===== *)
theory Wf_State
  imports Wf_Graph Py_Time
begin

section \<open>Runs, tokens, steps and agent runs: the rows and their repositories\<close>

text \<open>
  The durable state of the token engine: the rows of \<open>models/workflow.py\<close> and
  \<open>models/agent_run.py\<close> it works on, the queries and updates of
  \<open>repositories/workflow.py\<close> and \<open>repositories/agent_run.py\<close>, and the three primitives of
  \<open>services/workflow/agent_bridge.py\<close>. A table is a list of records in insertion order,
  which is the order of the identity column \<open>seq\<close>; a UUID is a natural number and
  \<open>uuid4()\<close> takes the next unused one; a timestamp is its microseconds. Every operation is
  a function on the whole database, so it is one transaction. Rows are read from the
  database: attributes that the ORM's identity map keeps stale after a raw UPDATE are not
  modelled. A missing JSON column and an empty one read the same.
\<close>

subsection \<open>Rows\<close>

datatype token_status = Active | Running | Waiting | Completed | Dead

datatype wait_kind = WJoin | WTimer | WBoundary | WRetry | WUserTask | WReceive | WSubprocess
  | WEventBased | WAgent

record token =
  tk_id :: nat
  tk_created :: int
  tk_org :: nat
  tk_run :: nat
  tk_node :: string
  tk_from :: "string option"
  tk_via :: "string option"
  tk_status :: token_status
  tk_wait :: "wait_kind option"
  tk_resume_at :: "int option"
  tk_corr :: "string option"
  tk_parent :: "nat option"
  tk_created_by :: "string option"
  tk_depth :: nat
  tk_lease_owner :: "string option"
  tk_leased_at :: "int option"
  tk_data :: jdict
  tk_finished_at :: "int option"

datatype run_status = RRunning | RWaiting | RSucceeded | RFailed | RSkipped

record wrun =
  r_id :: nat
  r_created :: int
  r_org :: nat
  r_workflow :: nat
  r_version :: nat
  r_outbox :: nat
  r_record :: "nat option"
  r_status :: run_status
  r_matched :: bool
  r_snapshot :: jdict
  r_error :: "string option"
  r_finished_at :: "int option"
  r_depth :: nat
  r_variables :: jdict
  r_step_seq :: nat
  r_parent_run :: "nat option"
  r_parent_token :: "nat option"
  r_dead_letter :: bool

datatype step_status = SPending | SRunning | SSucceeded | SSkipped | SFailed | SRetrying

record wstep =
  s_org :: nat
  s_run :: nat
  s_node :: string
  s_action :: string
  s_token :: nat
  s_index :: nat
  s_status :: step_status
  s_attempts :: nat
  s_max_attempts :: int
  s_next_retry_at :: "int option"
  s_output :: json
  s_error :: "string option"
  s_finished_at :: "int option"

datatype agent_status = AQueued | ARunning | AWaiting | ADone | AError | ACancelled | AEscalated

record agent_run =
  a_id :: nat
  a_org :: nat
  a_agent :: "nat option"
  a_status :: agent_status
  a_trigger :: string
  a_label :: string
  a_input :: jdict
  a_output :: json
  a_error :: "string option"
  a_prompt_tokens :: nat
  a_completion_tokens :: nat
  a_total_tokens :: nat
  a_cost :: json
  a_wf_run :: "nat option"
  a_wf_node :: "string option"
  a_wf_token :: "nat option"

datatype approval_status = ApPending | ApApproved | ApDenied | ApVoided

record approval =
  ap_org :: nat
  ap_run :: nat
  ap_status :: approval_status

record version_row =
  v_id :: nat
  v_org :: nat
  v_status :: string
  v_definition :: wdef

record workflow_row =
  wf_id :: nat
  wf_org :: nat
  wf_active_version :: "nat option"
  wf_entity :: "nat option"

record agent_row =
  ag_id :: nat
  ag_org :: nat
  ag_enabled :: bool
  ag_kind :: string
  ag_invocable :: "string list"

record notification =
  nt_org :: nat
  nt_kind :: string
  nt_title :: string
  nt_body :: json
  nt_run :: nat
  nt_role :: string

record db =
  d_tokens :: "token list"
  d_runs :: "wrun list"
  d_steps :: "wstep list"
  d_agent_runs :: "agent_run list"
  d_approvals :: "approval list"
  d_notifications :: "notification list"
  d_versions :: "version_row list"
  d_workflows :: "workflow_row list"
  d_agents :: "agent_row list"
  d_next :: nat
  d_tick :: nat

text \<open>Updates of one row by identity; the setters the ORM's attribute writes amount to.\<close>

definition upd_token :: "nat \<Rightarrow> (token \<Rightarrow> token) \<Rightarrow> db \<Rightarrow> db" where
  "upd_token i f db = db\<lparr>d_tokens := upd_where (\<lambda>t. tk_id t = i) f (d_tokens db)\<rparr>"

definition upd_run :: "nat \<Rightarrow> (wrun \<Rightarrow> wrun) \<Rightarrow> db \<Rightarrow> db" where
  "upd_run i f db = db\<lparr>d_runs := upd_where (\<lambda>r. r_id r = i) f (d_runs db)\<rparr>"

definition upd_step :: "nat \<Rightarrow> nat \<Rightarrow> (wstep \<Rightarrow> wstep) \<Rightarrow> db \<Rightarrow> db" where
  "upd_step run index f db =
     db\<lparr>d_steps := upd_where (\<lambda>s. s_run s = run \<and> s_index s = index) f (d_steps db)\<rparr>"

subsection \<open>Runs (repositories/workflow.py, WorkflowRunRepository)\<close>

definition get_run :: "db \<Rightarrow> nat \<Rightarrow> nat \<Rightarrow> wrun option" where
  "get_run db org i = find (\<lambda>r. r_id r = i \<and> r_org r = org) (d_runs db)"

definition get_version :: "db \<Rightarrow> nat \<Rightarrow> nat \<Rightarrow> version_row option" where
  "get_version db org i = find (\<lambda>v. v_id v = i \<and> v_org v = org) (d_versions db)"

definition get_workflow :: "db \<Rightarrow> nat \<Rightarrow> nat \<Rightarrow> workflow_row option" where
  "get_workflow db org i = find (\<lambda>w. wf_id w = i \<and> wf_org w = org) (d_workflows db)"

definition get_agent :: "db \<Rightarrow> nat \<Rightarrow> nat \<Rightarrow> agent_row option" where
  "get_agent db org i = find (\<lambda>a. ag_id a = i \<and> ag_org a = org) (d_agents db)"

text \<open>One run per event and workflow: the insert does nothing on a conflict.\<close>

definition create_run_if_absent ::
  "nat \<Rightarrow> nat \<Rightarrow> nat \<Rightarrow> nat \<Rightarrow> int \<Rightarrow> nat option \<Rightarrow> jdict \<Rightarrow> nat \<Rightarrow> nat option \<Rightarrow> nat option \<Rightarrow> db
   \<Rightarrow> db \<times> wrun option" where
  "create_run_if_absent org workflow version outbox created rec snapshot depth parent_run parent_token db =
     (if list_ex (\<lambda>r. r_org r = org \<and> r_outbox r = outbox \<and> r_workflow r = workflow \<and> r_created r = created) (d_runs db)
      then (db, None)
      else
        let run = \<lparr>r_id = d_next db, r_created = created, r_org = org, r_workflow = workflow, r_version = version,
                   r_outbox = outbox, r_record = rec, r_status = RRunning, r_matched = False,
                   r_snapshot = snapshot, r_error = None, r_finished_at = None, r_depth = depth,
                   r_variables = [], r_step_seq = 0, r_parent_run = parent_run,
                   r_parent_token = parent_token, r_dead_letter = False\<rparr> in
        (db\<lparr>d_runs := d_runs db @ [run], d_next := Suc (d_next db)\<rparr>, Some run))"

definition allocate_step_index :: "wrun \<Rightarrow> db \<Rightarrow> db \<times> nat" where
  "allocate_step_index run db =
     (let v = (case get_run db (r_org run) (r_id run) of Some r \<Rightarrow> Suc (r_step_seq r) | None \<Rightarrow> 0) in
      (upd_run (r_id run) (\<lambda>r. r\<lparr>r_step_seq := v\<rparr>) db, v))"

definition add_step :: "wrun \<Rightarrow> string \<Rightarrow> string \<Rightarrow> nat \<Rightarrow> nat \<Rightarrow> db \<Rightarrow> db" where
  "add_step run node action index tok db =
     db\<lparr>d_steps := d_steps db @ [\<lparr>s_org = r_org run, s_run = r_id run, s_node = node, s_action = action,
        s_token = tok, s_index = index, s_status = SPending, s_attempts = 0, s_max_attempts = 3,
        s_next_retry_at = None, s_output = JNull, s_error = None, s_finished_at = None\<rparr>]\<rparr>"

definition set_variables :: "wrun \<Rightarrow> jdict \<Rightarrow> db \<Rightarrow> db" where
  "set_variables run updates db =
     (if updates = [] then db
      else upd_run (r_id run) (\<lambda>r. r\<lparr>r_variables := dmerge (r_variables r) updates\<rparr>) db)"

subsection \<open>Tokens (WorkflowTokenRepository)\<close>

definition create_token ::
  "int \<Rightarrow> wrun \<Rightarrow> string \<Rightarrow> string option \<Rightarrow> string option \<Rightarrow> nat option \<Rightarrow> string option \<Rightarrow> nat \<Rightarrow> db \<Rightarrow> db" where
  "create_token now run node from via parent by depth db =
     db\<lparr>d_tokens := d_tokens db @ [\<lparr>tk_id = d_next db, tk_created = now, tk_org = r_org run,
          tk_run = r_id run, tk_node = node, tk_from = from, tk_via = via, tk_status = Active,
          tk_wait = None, tk_resume_at = None, tk_corr = None, tk_parent = parent, tk_created_by = by,
          tk_depth = depth, tk_lease_owner = None, tk_leased_at = None, tk_data = [],
          tk_finished_at = None\<rparr>],
        d_next := Suc (d_next db)\<rparr>"

definition get_token :: "db \<Rightarrow> nat \<Rightarrow> nat \<Rightarrow> token option" where
  "get_token db org i = find (\<lambda>t. tk_id t = i \<and> tk_org t = org) (d_tokens db)"

definition list_for_run :: "db \<Rightarrow> nat \<Rightarrow> nat \<Rightarrow> token list" where
  "list_for_run db org run = filter (\<lambda>t. tk_run t = run \<and> tk_org t = org) (d_tokens db)"

definition is_live :: "token \<Rightarrow> bool" where
  "is_live t \<longleftrightarrow> tk_status t \<in> {Active, Running, Waiting}"

definition live_count :: "db \<Rightarrow> nat \<Rightarrow> nat \<Rightarrow> nat" where
  "live_count db org run = length (filter is_live (list_for_run db org run))"

definition token_count :: "db \<Rightarrow> nat \<Rightarrow> nat \<Rightarrow> nat" where
  "token_count db org run = length (list_for_run db org run)"

definition is_buffered :: "nat \<Rightarrow> nat \<Rightarrow> string \<Rightarrow> wait_kind \<Rightarrow> token \<Rightarrow> bool" where
  "is_buffered org run node k t \<longleftrightarrow> tk_run t = run \<and> tk_org t = org \<and> tk_node t = node
     \<and> tk_status t = Waiting \<and> tk_wait t = Some k"

definition buffered_at :: "db \<Rightarrow> nat \<Rightarrow> nat \<Rightarrow> string \<Rightarrow> wait_kind \<Rightarrow> token list" where
  "buffered_at db org run node k = filter (is_buffered org run node k) (d_tokens db)"

definition kill_all :: "int \<Rightarrow> nat \<Rightarrow> nat \<Rightarrow> db \<Rightarrow> db" where
  "kill_all now org run db =
     db\<lparr>d_tokens := upd_where (\<lambda>t. tk_run t = run \<and> tk_org t = org \<and> is_live t)
          (\<lambda>t. t\<lparr>tk_status := Dead, tk_finished_at := Some now\<rparr>) (d_tokens db)\<rparr>"

definition is_dead_of :: "nat \<Rightarrow> nat \<Rightarrow> token \<Rightarrow> bool" where
  "is_dead_of org run t \<longleftrightarrow> tk_run t = run \<and> tk_org t = org \<and> tk_status t = Dead"

definition reactivate_dead :: "nat \<Rightarrow> nat \<Rightarrow> db \<Rightarrow> db \<times> nat" where
  "reactivate_dead org run db =
     (db\<lparr>d_tokens := upd_where (is_dead_of org run)
          (\<lambda>t. t\<lparr>tk_status := Active, tk_lease_owner := None, tk_leased_at := None, tk_resume_at := None,
                 tk_finished_at := None\<rparr>) (d_tokens db)\<rparr>,
      length (filter (is_dead_of org run) (d_tokens db)))"

subsection \<open>Agent runs (repositories/agent_run.py)\<close>

definition is_nonterminal :: "agent_status \<Rightarrow> bool" where
  "is_nonterminal s \<longleftrightarrow> s \<in> {AQueued, ARunning, AWaiting}"

definition create_agent_run ::
  "nat \<Rightarrow> nat \<Rightarrow> string \<Rightarrow> jdict \<Rightarrow> string \<Rightarrow> nat \<Rightarrow> string \<Rightarrow> nat \<Rightarrow> db \<Rightarrow> db \<times> nat" where
  "create_agent_run org agent trigger inp label wf_run wf_node wf_token db =
     (db\<lparr>d_agent_runs := d_agent_runs db @ [\<lparr>a_id = d_next db, a_org = org, a_agent = Some agent,
          a_status = AQueued, a_trigger = trigger, a_label = label, a_input = inp, a_output = JObj [],
          a_error = None, a_prompt_tokens = 0, a_completion_tokens = 0, a_total_tokens = 0,
          a_cost = JNull, a_wf_run = Some wf_run, a_wf_node = Some wf_node, a_wf_token = Some wf_token\<rparr>],
        d_next := Suc (d_next db)\<rparr>, d_next db)"

definition get_agent_run :: "db \<Rightarrow> nat \<Rightarrow> nat \<Rightarrow> agent_run option" where
  "get_agent_run db org i = find (\<lambda>a. a_id a = i \<and> a_org a = org) (d_agent_runs db)"

definition cas_target :: "nat \<Rightarrow> nat \<Rightarrow> agent_run \<Rightarrow> bool" where
  "cas_target org i a \<longleftrightarrow> a_id a = i \<and> a_org a = org \<and> is_nonterminal (a_status a)"

definition finalize_agent_run ::
  "nat \<Rightarrow> nat \<Rightarrow> agent_status \<Rightarrow> string option \<Rightarrow> nat \<Rightarrow> nat \<Rightarrow> nat \<Rightarrow> db \<Rightarrow> db \<times> bool" where
  "finalize_agent_run org i status err prompt completion tot db =
     (db\<lparr>d_agent_runs := upd_where (cas_target org i)
          (\<lambda>a. a\<lparr>a_status := status, a_error := err, a_prompt_tokens := a_prompt_tokens a + prompt,
                 a_completion_tokens := a_completion_tokens a + completion,
                 a_total_tokens := a_total_tokens a + tot\<rparr>) (d_agent_runs db)\<rparr>,
      list_ex (cas_target org i) (d_agent_runs db))"

definition cancel_agent_run :: "nat \<Rightarrow> nat \<Rightarrow> string \<Rightarrow> db \<Rightarrow> db \<times> bool" where
  "cancel_agent_run org i reason db =
     (let won = list_ex (cas_target org i) (d_agent_runs db);
          db1 = db\<lparr>d_agent_runs := upd_where (cas_target org i)
                  (\<lambda>a. a\<lparr>a_status := ACancelled, a_error := Some reason\<rparr>) (d_agent_runs db)\<rparr> in
      (if won then db1\<lparr>d_approvals := upd_where (\<lambda>p. ap_run p = i \<and> ap_org p = org \<and> ap_status p = ApPending)
                  (\<lambda>p. p\<lparr>ap_status := ApVoided\<rparr>) (d_approvals db1)\<rparr>
       else db1, won))"

definition claim_agent_run :: "nat \<Rightarrow> nat \<Rightarrow> db \<Rightarrow> db \<times> agent_run option" where
  "claim_agent_run org i db =
     (let p = (\<lambda>a. a_id a = i \<and> a_org a = org \<and> a_status a = AQueued);
          db1 = db\<lparr>d_agent_runs := upd_where p (\<lambda>a. a\<lparr>a_status := ARunning\<rparr>) (d_agent_runs db)\<rparr> in
      (db1, if list_ex p (d_agent_runs db) then get_agent_run db1 org i else None))"

subsection \<open>The bridge (agent_bridge.py)\<close>

definition agent_status_str :: "agent_status \<Rightarrow> string" where
  "agent_status_str s = (case s of AQueued \<Rightarrow> ''queued'' | ARunning \<Rightarrow> ''running'' | AWaiting \<Rightarrow> ''waiting''
     | ADone \<Rightarrow> ''done'' | AError \<Rightarrow> ''error'' | ACancelled \<Rightarrow> ''cancelled'' | AEscalated \<Rightarrow> ''escalated'')"

definition opt_uuid :: "nat option \<Rightarrow> json" where
  "opt_uuid i = (case i of None \<Rightarrow> JNull | Some n \<Rightarrow> JStr (show_uuid n))"

definition completion_patch :: "agent_run \<Rightarrow> jdict" where
  "completion_patch run =
     [(''_completed'', JBool True),
      (''_completion_output'', JObj
        [(''result'', py_or (a_output run) (JObj [])),
         (''agent_run_id'', JStr (show_uuid (a_id run))),
         (''agent_id'', opt_uuid (a_agent run)),
         (''status'', JStr (agent_status_str (a_status run))),
         (''total_tokens'', JInt (int (a_total_tokens run))),
         (''cost_usd'', a_cost run)])]"

definition failure_patch :: "agent_run \<Rightarrow> jdict" where
  "failure_patch run =
     [(''_agent_result'', JObj
        [(''status'', JStr (agent_status_str (a_status run))),
         (''error'', JStr (case a_error run of None \<Rightarrow> [] | Some e \<Rightarrow> e)),
         (''agent_run_id'', JStr (show_uuid (a_id run))),
         (''agent_id'', opt_uuid (a_agent run)),
         (''total_tokens'', JInt (int (a_total_tokens run)))])]"

definition run_patch :: "agent_run \<Rightarrow> jdict" where
  "run_patch run = (if a_status run = ADone then completion_patch run else failure_patch run)"

definition parse_token_created_at :: "jdict \<Rightarrow> int option" where
  "parse_token_created_at linkage =
     (let raw = jget linkage ''token_created_at'' in if truthy raw then from_iso (py_str raw) else None)"

text \<open>The wake-up both the wire-back and the sweep write.\<close>

definition wake :: "jdict \<Rightarrow> token \<Rightarrow> token" where
  "wake patch t = t\<lparr>tk_status := Active, tk_wait := None, tk_resume_at := None, tk_lease_owner := None,
     tk_leased_at := None, tk_data := dmerge (tk_data t) patch\<rparr>"

definition resume_target :: "nat \<Rightarrow> string \<Rightarrow> int \<Rightarrow> nat \<Rightarrow> token \<Rightarrow> bool" where
  "resume_target org token_id created ck t \<longleftrightarrow>
     parse_uuid token_id = Some (tk_id t) \<and> tk_created t = created \<and> tk_org t = org
     \<and> tk_status t = Waiting \<and> tk_wait t = Some WAgent \<and> tk_corr t = Some (show_uuid ck)"

definition resume_token_for_run :: "nat \<Rightarrow> agent_run \<Rightarrow> jdict \<Rightarrow> db \<Rightarrow> db \<times> bool" where
  "resume_token_for_run org run linkage db =
     (let token_id = jget linkage ''token_id'' in
      if \<not> truthy token_id then (db, False)
      else case parse_token_created_at linkage of
          None \<Rightarrow> (db, False)
        | Some created \<Rightarrow>
            (let p = resume_target org (py_str token_id) created (a_id run) in
             (db\<lparr>d_tokens := upd_where p (wake (run_patch run)) (d_tokens db)\<rparr>, list_ex p (d_tokens db))))"

definition terminal_for :: "db \<Rightarrow> token \<Rightarrow> agent_run option" where
  "terminal_for db t =
     find (\<lambda>a. tk_corr t = Some (show_uuid (a_id a)) \<and> a_org a = tk_org t \<and> \<not> is_nonterminal (a_status a))
       (d_agent_runs db)"

definition reconcilable :: "db \<Rightarrow> token \<Rightarrow> bool" where
  "reconcilable db t \<longleftrightarrow> tk_status t = Waiting \<and> tk_wait t = Some WAgent \<and> terminal_for db t \<noteq> None"

text \<open>The ids of the first \<open>limit\<close> rows a claim selects, in table order.\<close>

definition claim_ids :: "nat \<Rightarrow> (token \<Rightarrow> bool) \<Rightarrow> db \<Rightarrow> nat list" where
  "claim_ids limit p db = take limit (map tk_id (filter p (d_tokens db)))"

definition reconcile_agent_tokens :: "nat \<Rightarrow> db \<Rightarrow> db \<times> nat" where
  "reconcile_agent_tokens limit db =
     (let ids = claim_ids limit (reconcilable db) db in
      (db\<lparr>d_tokens := upd_where (\<lambda>t. tk_id t \<in> set ids)
            (\<lambda>t. case terminal_for db t of Some a \<Rightarrow> wake (run_patch a) t | None \<Rightarrow> t) (d_tokens db)\<rparr>,
       length ids))"

definition cancel_runs_for_workflow_run :: "nat \<Rightarrow> nat \<Rightarrow> string \<Rightarrow> db \<Rightarrow> db \<times> nat" where
  "cancel_runs_for_workflow_run org run reason db =
     fold (\<lambda>i acc. let r = cancel_agent_run org i reason (fst acc) in
             (fst r, if snd r then Suc (snd acc) else snd acc))
       (map a_id (filter (\<lambda>a. a_wf_run a = Some run \<and> a_org a = org \<and> is_nonterminal (a_status a))
          (d_agent_runs db))) (db, 0)"

subsection \<open>Terminal transitions (agents/lifecycle.py)\<close>

definition wire_back :: "nat \<Rightarrow> agent_run \<Rightarrow> db \<Rightarrow> db" where
  "wire_back org run db =
     (case jget (a_input run) ''workflow'' of
        JObj linkage \<Rightarrow> if linkage = [] then db else fst (resume_token_for_run org run linkage db)
      | _ \<Rightarrow> db)"

definition finalize_run ::
  "nat \<Rightarrow> nat \<Rightarrow> agent_status \<Rightarrow> string option \<Rightarrow> nat \<Rightarrow> nat \<Rightarrow> nat \<Rightarrow> db \<Rightarrow> db \<times> bool" where
  "finalize_run org i status err prompt completion tot db =
     (let r = finalize_agent_run org i status err prompt completion tot db in
      if snd r then
        (case get_agent_run (fst r) org i of
           Some run \<Rightarrow> (wire_back org run (fst r), True) | None \<Rightarrow> (fst r, True))
      else (fst r, False))"

definition cancel_run :: "nat \<Rightarrow> nat \<Rightarrow> string \<Rightarrow> db \<Rightarrow> db \<times> bool" where
  "cancel_run org i reason db = cancel_agent_run org i reason db"

end
