(* ===== verification/Json_Logic.thy ===== *)
theory Json_Logic
  imports Py_Text
begin

section \<open>The JsonLogic evaluator\<close>

text \<open>
  \<open>services/workflow/jsonlogic.py\<close>, with the two pure users of it: decision tables
  (\<open>decision.py\<close>) and the script task's mapping (\<open>expression.py\<close>). \<open>json_logic\<close> returns
  the value of a rule or the exception its evaluation raises. The recursion is on the
  rule, so every evaluation ends; Python's recursion limit is not modelled.
\<close>

subsection \<open>Helpers\<close>

fun walk_path :: "json \<Rightarrow> string list \<Rightarrow> json \<Rightarrow> json" where
  "walk_path current [] dflt = current"
| "walk_path current (part # parts) dflt =
     (case current of
        JObj d \<Rightarrow> (case dget d part of Some v \<Rightarrow> walk_path v parts dflt | None \<Rightarrow> dflt)
      | _ \<Rightarrow> dflt)"

definition get_var :: "json \<Rightarrow> json \<Rightarrow> json \<Rightarrow> json" where
  "get_var data path dflt =
     (if path = JStr [] \<or> path = JNull then data
      else walk_path data (split_on (CHR ''.'') (py_str path)) dflt)"

definition jl_truthy :: "json \<Rightarrow> bool" where
  "jl_truthy v = (case v of JList xs \<Rightarrow> 0 < length xs | _ \<Rightarrow> truthy v)"

fun same_type :: "json \<Rightarrow> json \<Rightarrow> bool" where
  "same_type JNull JNull = True"
| "same_type (JBool _) (JBool _) = True"
| "same_type (JInt _) (JInt _) = True"
| "same_type (JFloat _) (JFloat _) = True"
| "same_type (JStr _) (JStr _) = True"
| "same_type (JList _) (JList _) = True"
| "same_type (JObj _) (JObj _) = True"
| "same_type _ _ = False"

definition is_bool :: "json \<Rightarrow> bool" where
  "is_bool v \<longleftrightarrow> (case v of JBool _ \<Rightarrow> True | _ \<Rightarrow> False)"

text \<open>\<open>isinstance(v, (int, float))\<close>: a bool is an int.\<close>

definition is_number :: "json \<Rightarrow> bool" where
  "is_number v \<longleftrightarrow> (case v of JBool _ \<Rightarrow> True | JInt _ \<Rightarrow> True | JFloat _ \<Rightarrow> True | _ \<Rightarrow> False)"

definition loose_eq :: "json \<Rightarrow> json \<Rightarrow> bool" where
  "loose_eq a b =
     (if same_type a b then py_eq a b
      else if a = JNull \<or> b = JNull then a = JNull \<and> b = JNull
      else if is_bool a \<or> is_bool b then py_eq a b
      else if is_number a \<and> is_number b then py_eq a b
      else py_str a = py_str b)"

definition to_num :: "json \<Rightarrow> (py_exc, pyfloat) result" where
  "to_num v =
     (case v of
        JBool b \<Rightarrow> Inr (if b then Fin 1 else Fin 0)
      | JNull \<Rightarrow> Inr (Fin 0)
      | JInt i \<Rightarrow> float_of_int i
      | JFloat f \<Rightarrow> Inr f
      | JStr s \<Rightarrow> (if s = [] then Inr (Fin 0)
          else case float_of_str s of Some f \<Rightarrow> Inr f | None \<Rightarrow> Inl ValueError)
      | _ \<Rightarrow> Inl TypeError)"

definition cmp_of :: "bool \<Rightarrow> bool \<Rightarrow> int" where
  "cmp_of lt gt = (if lt then - 1 else if gt then 1 else 0)"

definition cmp :: "json \<Rightarrow> json \<Rightarrow> (py_exc, int) result" where
  "cmp a b =
     (if is_number a \<or> is_number b then
        bind_res (to_num a) (\<lambda>na. bind_res (to_num b) (\<lambda>nb. Inr (cmp_of (f_lt na nb) (f_lt nb na))))
      else bind_res (py_lt a b) (\<lambda>lt. if lt then Inr (- 1)
             else bind_res (py_lt b a) (\<lambda>gt. Inr (cmp_of False gt))))"

definition arg :: "json list \<Rightarrow> nat \<Rightarrow> (py_exc, json) result" where
  "arg args i = (if i < length args then Inr (args ! i) else Inl IndexError)"

subsection \<open>Operators over evaluated arguments\<close>

definition bin_bool ::
  "(json \<Rightarrow> json \<Rightarrow> (py_exc, bool) result) \<Rightarrow> json list \<Rightarrow> (py_exc, json) result" where
  "bin_bool f args = bind_res (arg args 0) (\<lambda>a. bind_res (arg args 1) (\<lambda>b.
     bind_res (f a b) (\<lambda>r. Inr (JBool r))))"

definition product_num :: "json list \<Rightarrow> (py_exc, pyfloat) result" where
  "product_num args = fold (\<lambda>a acc. bind_res acc (\<lambda>p. bind_res (to_num a) (\<lambda>n. Inr (f_mul p n))))
     args (Inr (Fin 1))"

definition apply_op :: "string \<Rightarrow> json list \<Rightarrow> (py_exc, json) result" where
  "apply_op opr args =
     (if opr = ''=='' then bin_bool (\<lambda>a b. Inr (loose_eq a b)) args
      else if opr = ''!='' then bin_bool (\<lambda>a b. Inr (\<not> loose_eq a b)) args
      else if opr = ''==='' then bin_bool (\<lambda>a b. Inr (py_eq a b)) args
      else if opr = ''!=='' then bin_bool (\<lambda>a b. Inr (\<not> py_eq a b)) args
      else if opr = ''!'' then bind_res (arg args 0) (\<lambda>a. Inr (JBool (\<not> jl_truthy a)))
      else if opr = ''!!'' then bind_res (arg args 0) (\<lambda>a. Inr (JBool (jl_truthy a)))
      else if opr = ''>'' then bin_bool (\<lambda>a b. bind_res (cmp a b) (\<lambda>c. Inr (c > 0))) args
      else if opr = ''>='' then bin_bool (\<lambda>a b. bind_res (cmp a b) (\<lambda>c. Inr (c \<ge> 0))) args
      else if opr = ''<'' then bin_bool (\<lambda>a b. bind_res (cmp a b) (\<lambda>c. Inr (c < 0))) args
      else if opr = ''<='' then bin_bool (\<lambda>a b. bind_res (cmp a b) (\<lambda>c. Inr (c \<le> 0))) args
      else if opr = ''in'' then
        bind_res (arg args 1) (\<lambda>container.
          if container = JNull then Inr (JBool False)
          else bind_res (arg args 0) (\<lambda>a. bind_res (py_in a container) (\<lambda>r. Inr (JBool r))))
      else if opr = ''+'' then bind_res (map_res to_num args) (\<lambda>ns. Inr (py_sum ns))
      else if opr = ''-'' then
        (if length args = 1 then bind_res (arg args 0) (\<lambda>a. bind_res (to_num a) (\<lambda>n. Inr (JFloat (f_neg n))))
         else bind_res (arg args 0) (\<lambda>a. bind_res (to_num a) (\<lambda>m.
           bind_res (arg args 1) (\<lambda>b. bind_res (to_num b) (\<lambda>n. Inr (JFloat (f_sub m n)))))))
      else if opr = ''*'' then bind_res (product_num args) (\<lambda>p. Inr (JFloat p))
      else if opr = ''/'' then
        bind_res (arg args 0) (\<lambda>a. bind_res (to_num a) (\<lambda>m. bind_res (arg args 1) (\<lambda>b.
          bind_res (to_num b) (\<lambda>n. if n = Fin 0 then Inl ZeroDivisionError else Inr (JFloat (f_div m n))))))
      else Inl (UnsupportedOperator opr))"

subsection \<open>The evaluator\<close>

text \<open>The loop of \<open>and\<close> and \<open>or\<close>: the last evaluated operand is the result.\<close>

fun logic_loop ::
  "bool \<Rightarrow> ('v \<Rightarrow> (py_exc, json) result) \<Rightarrow> 'v list \<Rightarrow> json \<Rightarrow> (py_exc, json) result" where
  "logic_loop is_and ev [] result = Inr result"
| "logic_loop is_and ev (v # vs) result =
     bind_res (ev v) (\<lambda>r. if is_and \<and> \<not> jl_truthy r then Inr r
       else if \<not> is_and \<and> jl_truthy r then Inr r
       else logic_loop is_and ev vs r)"

lemma logic_loop_cong [fundef_cong]:
  "a = a' \<Longrightarrow> vs = vs' \<Longrightarrow> r = r' \<Longrightarrow> (\<And>v. v \<in> set vs' \<Longrightarrow> ev v = ev' v) \<Longrightarrow>
   logic_loop a ev vs r = logic_loop a' ev' vs' r'"
  by (induction vs' arbitrary: vs r r') (auto intro!: bind_res_cong)

definition operands :: "json \<Rightarrow> json list" where
  "operands raw = (case raw of JList vs \<Rightarrow> vs | _ \<Rightarrow> [raw])"

lemma size_mem_list: "v \<in> set xs \<Longrightarrow> size v \<le> size_list size (xs :: json list)"
  using size_list_estimation' [of v xs "size v" size] by simp

lemma size_operands: "v \<in> set (operands raw) \<Longrightarrow> size v < Suc (Suc (Suc (size raw)))"
  using size_mem_list [of v] by (auto simp: operands_def le_imp_less_Suc less_Suc_eq_le le_SucI split: json.splits)

lemma size_operands_hd: "v # rest = operands raw \<Longrightarrow> size v < Suc (Suc (Suc (size raw)))"
  by (rule size_operands) (metis list.set_intros(1))

definition missing_keys :: "json list \<Rightarrow> json list" where
  "missing_keys vals = (case vals of [JList ks] \<Rightarrow> ks | _ \<Rightarrow> vals)"

function json_logic :: "json \<Rightarrow> json \<Rightarrow> (py_exc, json) result" where
  "json_logic rule data =
     (case rule of
        JObj [(opr, raw)] \<Rightarrow>
          (let vals = operands raw in
           if opr = ''var'' then
             (case vals of
                [] \<Rightarrow> Inr (get_var data (JStr []) JNull)
              | v # rest \<Rightarrow> bind_res (json_logic v data) (\<lambda>path.
                  Inr (get_var data path (case rest of [] \<Rightarrow> JNull | d # _ \<Rightarrow> d))))
           else if opr = ''missing'' then
             Inr (JList (filter (\<lambda>k. get_var data k JNull = JNull) (missing_keys vals)))
           else if opr = ''and'' \<or> opr = ''or'' then
             logic_loop (opr = ''and'') (\<lambda>v. json_logic v data) vals JNull
           else bind_res (map_res (\<lambda>v. json_logic v data) vals) (apply_op opr))
      | _ \<Rightarrow> Inr rule)"
  by pat_completeness auto
termination
proof (relation "measure (\<lambda>(rule, data). size rule)", goal_cases)
  case 1 show ?case by simp
next
  case (2 rule data x7 p ps opr raw vals v rest)
  then show ?case using size_operands_hd [of v rest raw] by auto
next
  case (3 rule data x7 p ps opr raw vals v)
  then show ?case using size_operands [of v raw] by auto
next
  case (4 rule data x7 p ps opr raw vals v)
  then show ?case using size_operands [of v raw] by auto
qed


declare json_logic.simps [simp del]

subsection \<open>Decision tables and transforms (decision.py, expression.py)\<close>

definition HIT_FIRST :: string where "HIT_FIRST = ''first''"
definition HIT_COLLECT :: string where "HIT_COLLECT = ''collect''"

fun decide_rules :: "bool \<Rightarrow> json list \<Rightarrow> json \<Rightarrow> jdict \<Rightarrow> (py_exc, jdict) result" where
  "decide_rules collect [] ctx outp = Inr outp"
| "decide_rules collect (rule # rules) ctx outp =
     (case rule of
        JObj r \<Rightarrow>
          bind_res
            (case dget r ''when'' of
               None \<Rightarrow> Inr True
             | Some cond \<Rightarrow> if cond = JNull then Inr True
                 else bind_res (json_logic cond ctx) (\<lambda>v. Inr (truthy v)))
            (\<lambda>hit. if \<not> hit then decide_rules collect rules ctx outp
               else let outp' = (case dget r ''output'' of
                          Some (JObj out) \<Rightarrow> dmerge outp out | _ \<Rightarrow> outp) in
                    if \<not> collect then Inr outp' else decide_rules collect rules ctx outp')
      | _ \<Rightarrow> decide_rules collect rules ctx outp)"

definition evaluate_decision_table :: "json \<Rightarrow> json \<Rightarrow> (py_exc, jdict) result" where
  "evaluate_decision_table spec ctx =
     (case spec of
        JObj d \<Rightarrow>
          (let hit_policy = (case dget d ''hit_policy'' of None \<Rightarrow> JStr HIT_FIRST | Some p \<Rightarrow> p) in
           case dget d ''rules'' of
             Some (JList rules) \<Rightarrow> decide_rules (hit_policy = JStr HIT_COLLECT) rules ctx []
           | _ \<Rightarrow> Inr [])
      | _ \<Rightarrow> Inr [])"

fun transform_items :: "jdict \<Rightarrow> json \<Rightarrow> jdict \<Rightarrow> (py_exc, jdict) result" where
  "transform_items [] ctx outputs = Inr outputs"
| "transform_items ((key, expr) # items) ctx outputs =
     bind_res (case expr of JObj _ \<Rightarrow> json_logic expr ctx | JList _ \<Rightarrow> json_logic expr ctx | _ \<Rightarrow> Inr expr)
       (\<lambda>v. transform_items items ctx (dset outputs key v))"

definition evaluate_transform :: "json \<Rightarrow> json \<Rightarrow> (py_exc, jdict) result" where
  "evaluate_transform mapping ctx =
     (case mapping of JObj m \<Rightarrow> transform_items m ctx [] | _ \<Rightarrow> Inr [])"

subsection \<open>Equations\<close>

lemma json_logic_literal:
  "(\<And>opr raw. rule \<noteq> JObj [(opr, raw)]) \<Longrightarrow> json_logic rule data = Inr rule"
  by (auto simp: json_logic.simps [of rule data] split: json.splits list.splits)

lemma json_logic_var:
  "json_logic (JObj [(''var'', raw)]) data =
     (case operands raw of
        [] \<Rightarrow> Inr (get_var data (JStr []) JNull)
      | v # rest \<Rightarrow> bind_res (json_logic v data) (\<lambda>path.
          Inr (get_var data path (case rest of [] \<Rightarrow> JNull | d # _ \<Rightarrow> d))))"
  by (subst json_logic.simps) simp

lemma json_logic_and:
  "json_logic (JObj [(''and'', raw)]) data = logic_loop True (\<lambda>v. json_logic v data) (operands raw) JNull"
  by (subst json_logic.simps) simp

lemma json_logic_or:
  "json_logic (JObj [(''or'', raw)]) data = logic_loop False (\<lambda>v. json_logic v data) (operands raw) JNull"
  by (subst json_logic.simps) simp

lemma json_logic_op:
  "opr \<noteq> ''var'' \<Longrightarrow> opr \<noteq> ''missing'' \<Longrightarrow> opr \<noteq> ''and'' \<Longrightarrow> opr \<noteq> ''or'' \<Longrightarrow>
   json_logic (JObj [(opr, raw)]) data = bind_res (map_res (\<lambda>v. json_logic v data) (operands raw)) (apply_op opr)"
  by (subst json_logic.simps) simp

lemmas json_logic_eqs = json_logic_literal json_logic_var json_logic_and json_logic_or json_logic_op

text \<open>Whether the evaluation of a rule reads its data: some evaluated operator is \<open>var\<close> or \<open>missing\<close>.\<close>

function reads_data :: "json \<Rightarrow> bool" where
  "reads_data rule =
     (case rule of
        JObj [(opr, raw)] \<Rightarrow> opr = ''var'' \<or> opr = ''missing'' \<or> list_ex reads_data (operands raw)
      | _ \<Rightarrow> False)"
  by pat_completeness auto
termination
  by (relation "measure size") (auto dest: size_operands)

declare reads_data.simps [simp del]

lemma reads_data_op:
  "reads_data (JObj [(opr, raw)]) \<longleftrightarrow>
     opr = ''var'' \<or> opr = ''missing'' \<or> (\<exists>v \<in> set (operands raw). reads_data v)"
  by (subst reads_data.simps) (simp add: list_ex_iff)

lemma json_logic_data_independent:
  "\<not> reads_data rule \<Longrightarrow> json_logic rule d = json_logic rule d'"
proof (induction rule rule: measure_induct_rule [of size])
  case (less rule)
  show ?case
  proof (cases "\<exists>opr raw. rule = JObj [(opr, raw)]")
    case False
    then show ?thesis by (simp add: json_logic_literal)
  next
    case True
    then obtain opr raw where rule: "rule = JObj [(opr, raw)]" by blast
    with less.prems have opr: "opr \<noteq> ''var''" "opr \<noteq> ''missing''"
      and sub: "\<And>v. v \<in> set (operands raw) \<Longrightarrow> \<not> reads_data v"
      by (auto simp: reads_data_op)
    have ih: "json_logic v d = json_logic v d'" if "v \<in> set (operands raw)" for v
      using less.IH [of v] sub [OF that] size_operands [OF that] by (simp add: rule)
    show ?thesis
    proof (cases "opr = ''and'' \<or> opr = ''or''")
      case True
      then show ?thesis unfolding rule
        by (elim disjE) (auto simp: json_logic_and json_logic_or intro!: logic_loop_cong ih)
    next
      case False
      then show ?thesis unfolding rule using opr
        by (auto simp: json_logic_op intro!: map_res_cong [THEN arg_cong [where f = "\<lambda>r. bind_res r _"]] ih)
    qed
  qed
qed

lemma logic_loop_stops:
  assumes "list_all (\<lambda>v. \<exists>r. ev v = Inr r \<and> jl_truthy r = is_and) vs"
    and "ev v = Inr r" and "jl_truthy r \<noteq> is_and"
  shows "logic_loop is_and ev (vs @ v # ws) acc = Inr r"
  using assms by (induction vs arbitrary: acc) auto


text \<open>Negating a boolean result; an exception stays an exception.\<close>

definition jl_not :: "(py_exc, json) result \<Rightarrow> (py_exc, json) result" where
  "jl_not r = bind_res r (\<lambda>v. Inr (JBool (\<not> jl_truthy v)))"

lemma bin_bool_not:
  assumes "\<And>a b. g a b = bind_res (f a b) (\<lambda>r. Inr (\<not> r))"
  shows "bin_bool g args = jl_not (bin_bool f args)"
proof (cases "1 < length args")
  case True
  then show ?thesis
    by (cases "f (args ! 0) (args ! 1)") (simp_all add: bin_bool_def jl_not_def arg_def assms jl_truthy_def)
next
  case False
  then show ?thesis by (cases "0 < length args") (simp_all add: bin_bool_def jl_not_def arg_def)
qed

lemma apply_op_dual:
  "apply_op ''!='' args = jl_not (apply_op ''=='' args)"
  "apply_op ''!=='' args = jl_not (apply_op ''==='' args)"
  "apply_op ''>'' args = jl_not (apply_op ''<='' args)"
  "apply_op ''>='' args = jl_not (apply_op ''<'' args)"
proof -
  have neg: "bind_res (cmp a b) (\<lambda>c. Inr (P c)) = bind_res (bind_res (cmp a b) (\<lambda>c. Inr (Q c))) (\<lambda>r. Inr (\<not> r))"
    if "\<And>c. P c = (\<not> Q c)" for a b P Q
    using that by (cases "cmp a b") simp_all
  show "apply_op ''!='' args = jl_not (apply_op ''=='' args)"
    unfolding apply_op_def by simp (rule bin_bool_not, simp)
  show "apply_op ''!=='' args = jl_not (apply_op ''==='' args)"
    unfolding apply_op_def by simp (rule bin_bool_not, simp)
  show "apply_op ''>'' args = jl_not (apply_op ''<='' args)"
    unfolding apply_op_def by simp (rule bin_bool_not, rule neg, auto)
  show "apply_op ''>='' args = jl_not (apply_op ''<'' args)"
    unfolding apply_op_def by simp (rule bin_bool_not, rule neg, auto)
qed

lemma json_logic_dual:
  assumes "\<And>args. apply_op p args = jl_not (apply_op q args)"
    and "p \<notin> {''var'', ''missing'', ''and'', ''or''}" and "q \<notin> {''var'', ''missing'', ''and'', ''or''}"
  shows "json_logic (JObj [(p, raw)]) d = jl_not (json_logic (JObj [(q, raw)]) d)"
proof -
  have "bind_res r (apply_op p) = jl_not (bind_res r (apply_op q))" for r
    by (cases r) (simp_all add: assms(1) jl_not_def)
  with assms(2,3) show ?thesis by (simp add: json_logic_op)
qed

subsection \<open>Paths\<close>

fun join_path :: "string list \<Rightarrow> string" where
  "join_path [] = []"
| "join_path [p] = p"
| "join_path (p # q # ps) = p @ CHR ''.'' # join_path (q # ps)"

lemma split_join_path:
  "ps \<noteq> [] \<Longrightarrow> list_all (\<lambda>p. CHR ''.'' \<notin> set p) ps \<Longrightarrow> split_on (CHR ''.'') (join_path ps) = ps"
  by (induction ps rule: join_path.induct) (simp_all add: split_on_no_sep split_on_append)

subsection \<open>Decision tables\<close>

text \<open>
  What a table means: the outputs of the rules that hit, in order, where evaluation of
  the conditions does not raise.
\<close>

fun rule_hits :: "json \<Rightarrow> json \<Rightarrow> (py_exc, bool) result" where
  "rule_hits ctx (JObj r) =
     (case dget r ''when'' of
        None \<Rightarrow> Inr True
      | Some cond \<Rightarrow> if cond = JNull then Inr True
          else bind_res (json_logic cond ctx) (\<lambda>v. Inr (truthy v)))"
| "rule_hits ctx _ = Inr False"

fun rule_output :: "json \<Rightarrow> jdict" where
  "rule_output (JObj r) = (case dget r ''output'' of Some (JObj out) \<Rightarrow> out | _ \<Rightarrow> [])"
| "rule_output _ = []"

definition is_hit :: "json \<Rightarrow> json \<Rightarrow> bool" where
  "is_hit ctx rule \<longleftrightarrow> rule_hits ctx rule = Inr True"

lemma rule_output_merge:
  "(case dget r ''output'' of Some (JObj out) \<Rightarrow> dmerge outp out | _ \<Rightarrow> outp) = dmerge outp (rule_output (JObj r))"
  by (auto split: option.splits json.splits)

lemma decide_rules_step:
  "decide_rules collect (rule # rules) ctx outp =
     bind_res (rule_hits ctx rule) (\<lambda>hit. if \<not> hit then decide_rules collect rules ctx outp
       else if \<not> collect then Inr (dmerge outp (rule_output rule))
       else decide_rules collect rules ctx (dmerge outp (rule_output rule)))"
  by (cases rule) (simp_all add: Let_def rule_output_merge cong: if_cong del: rule_output.simps)

lemma decide_rules_collect:
  assumes "\<And>rule. rule \<in> set rules \<Longrightarrow> \<exists>b. rule_hits ctx rule = Inr b"
  shows "decide_rules True rules ctx outp =
    Inr (fold (\<lambda>rule out. dmerge out (rule_output rule)) (filter (is_hit ctx) rules) outp)"
  using assms
proof (induction rules arbitrary: outp)
  case (Cons rule rules)
  then obtain b where "rule_hits ctx rule = Inr b" by auto
  with Cons show ?case by (cases b) (auto simp: decide_rules_step is_hit_def simp del: decide_rules.simps)
qed simp

lemma decide_rules_first:
  assumes "\<And>rule. rule \<in> set pre \<Longrightarrow> rule_hits ctx rule = Inr False"
  shows "decide_rules collect (pre @ rules) ctx outp = decide_rules collect rules ctx outp"
  using assms by (induction pre) (simp_all add: decide_rules_step del: decide_rules.simps)

subsection \<open>Properties\<close>

text \<open>
  The sandbox: a rule reads its data only through \<open>var\<close> and \<open>missing\<close>. A rule
  in which no evaluated operator is one of them has the same value, or raises the same
  exception, on every data.
\<close>

theorem json_logic_sandbox:
  assumes "\<not> reads_data rule"
  shows "json_logic rule d = json_logic rule d'"
  using assms by (rule json_logic_data_independent)

theorem json_logic_sandbox_witness:
  "json_logic (JObj [(''!'', JList [JBool False])]) (JObj [(''a'', JInt 1)]) =
   json_logic (JObj [(''!'', JList [JBool False])]) JNull"
  by (rule json_logic_sandbox) (simp add: reads_data_op operands_def, simp add: reads_data.simps)

text \<open>
  Comparisons come in dual pairs: \<open>!=\<close>, \<open>!==\<close>, \<open>>\<close> and \<open>>=\<close> are the negations of
  \<open>==\<close>, \<open>===\<close>, \<open><=\<close> and \<open><\<close> on every operand list, and raise exactly when they do.
\<close>

theorem json_logic_comparison_dual:
  "json_logic (JObj [(''!='', raw)]) d = jl_not (json_logic (JObj [(''=='', raw)]) d)
   \<and> json_logic (JObj [(''!=='', raw)]) d = jl_not (json_logic (JObj [(''==='', raw)]) d)
   \<and> json_logic (JObj [(''>'', raw)]) d = jl_not (json_logic (JObj [(''<='', raw)]) d)
   \<and> json_logic (JObj [(''>='', raw)]) d = jl_not (json_logic (JObj [(''<'', raw)]) d)"
  by (intro conjI json_logic_dual apply_op_dual) simp_all

text \<open>
  \<open>and\<close> and \<open>or\<close> stop at the deciding operand: if the operands before it are truthy
  (falsy for \<open>or\<close>) and it is not, its value is the result, whatever follows it. The
  operands that follow are not evaluated, so one that would raise does not.
\<close>

theorem json_logic_short_circuit:
  assumes "list_all (\<lambda>v. \<exists>r. json_logic v d = Inr r \<and> jl_truthy r) vs"
    and "list_all (\<lambda>v. \<exists>r. json_logic v d = Inr r \<and> \<not> jl_truthy r) us"
    and "json_logic f d = Inr rf" and "\<not> jl_truthy rf" and "json_logic t d = Inr rt" and "jl_truthy rt"
  shows "json_logic (JObj [(''and'', JList (vs @ f # ws))]) d = Inr rf
    \<and> json_logic (JObj [(''or'', JList (us @ t # ws))]) d = Inr rt"
  unfolding json_logic_and json_logic_or operands_def json.case
  using logic_loop_stops [of "\<lambda>v. json_logic v d" True vs f rf ws JNull]
    logic_loop_stops [of "\<lambda>v. json_logic v d" False us t rt ws JNull] assms by simp

theorem json_logic_short_circuit_witness:
  "json_logic (JObj [(''and'', JList ([JInt 1] @ JInt 0 # [JObj [(''bogus'', JNull)]]))]) JNull = Inr (JInt 0)
    \<and> json_logic (JObj [(''or'', JList ([JInt 0] @ JInt 1 # [JObj [(''bogus'', JNull)]]))]) JNull = Inr (JInt 1)"
  by (rule json_logic_short_circuit) (simp_all add: json_logic_literal jl_truthy_def)

text \<open>
  \<open>{"var": "a.b.c"}\<close> is the walk through the nested dictionaries along the path, with
  \<open>None\<close> where a segment is missing: splitting undoes the dotted spelling of any
  non-empty list of segments without dots.
\<close>

theorem json_logic_var_path:
  assumes "ps \<noteq> []" and "join_path ps \<noteq> []" and "list_all (\<lambda>p. CHR ''.'' \<notin> set p) ps"
  shows "json_logic (JObj [(''var'', JStr (join_path ps))]) d = Inr (walk_path d ps JNull)"
  using assms by (simp add: json_logic_var operands_def json_logic_literal get_var_def py_str_def split_join_path)

theorem json_logic_var_path_witness:
  "json_logic (JObj [(''var'', JStr (join_path [''after'', ''status'']))])
     (JObj [(''after'', JObj [(''status'', JStr ''open'')])]) = Inr (JStr ''open'')"
  using json_logic_var_path [of "[''after'', ''status'']" "JObj [(''after'', JObj [(''status'', JStr ''open'')])]"]
  by simp

text \<open>
  Decision tables: with the hit policy \<open>collect\<close> the outputs of the rules that hit are
  merged in order, later rules winning; with any other policy the first rule that hits
  gives the outp and later rules are not evaluated. The conditions evaluated have to
  be free of exceptions.
\<close>

theorem decision_table_spec:
  assumes "\<And>rule. rule \<in> set rules \<Longrightarrow> \<exists>b. rule_hits ctx rule = Inr b"
    and "rules = pre @ hit # post" and "\<And>rule. rule \<in> set pre \<Longrightarrow> \<not> is_hit ctx rule" and "is_hit ctx hit"
  shows "evaluate_decision_table (JObj [(''hit_policy'', JStr ''collect''), (''rules'', JList rules)]) ctx =
      Inr (fold (\<lambda>rule out. dmerge out (rule_output rule)) (filter (is_hit ctx) rules) [])
    \<and> evaluate_decision_table (JObj [(''rules'', JList rules)]) ctx = Inr (dmerge [] (rule_output hit))"
proof -
  have pre: "rule_hits ctx rule = Inr False" if "rule \<in> set pre" for rule
    using assms(1) [of rule] assms(2) assms(3) [OF that] that by (auto simp: is_hit_def)
  have "decide_rules False rules ctx [] = decide_rules False (hit # post) ctx []"
    unfolding assms(2) by (rule decide_rules_first [OF pre])
  also have "\<dots> = Inr (dmerge [] (rule_output hit))"
    using assms(4) by (simp add: decide_rules_step is_hit_def del: decide_rules.simps)
  finally show ?thesis
    using decide_rules_collect [OF assms(1), of rules]
    by (simp add: evaluate_decision_table_def HIT_FIRST_def HIT_COLLECT_def)
qed

theorem decision_table_spec_witness:
  "evaluate_decision_table (JObj [(''hit_policy'', JStr ''collect''), (''rules'', JList
       [JObj [(''when'', JBool False), (''output'', JObj [(''t'', JStr ''a'')])],
        JObj [(''output'', JObj [(''t'', JStr ''b'')])]])]) JNull = Inr [(''t'', JStr ''b'')]"
proof -
  let ?r1 = "JObj [(''when'', JBool False), (''output'', JObj [(''t'', JStr ''a'')])]"
  let ?r2 = "JObj [(''output'', JObj [(''t'', JStr ''b'')])]"
  have h: "rule_hits JNull ?r1 = Inr False" "rule_hits JNull ?r2 = Inr True"
    by (simp_all add: json_logic_literal)
  have i: "\<not> is_hit JNull ?r1" "is_hit JNull ?r2" using h by (simp_all add: is_hit_def del: rule_hits.simps)
  have "evaluate_decision_table (JObj [(''hit_policy'', JStr ''collect''), (''rules'', JList [?r1, ?r2])]) JNull =
     Inr (fold (\<lambda>rule out. dmerge out (rule_output rule)) (filter (is_hit JNull) [?r1, ?r2]) [])"
  proof (rule decision_table_spec [of "[?r1, ?r2]" JNull "[?r1]" ?r2 "[]", THEN conjunct1])
    fix rule assume "rule \<in> set [?r1, ?r2]"
    then consider "rule = ?r1" | "rule = ?r2" by auto
    then show "\<exists>b. rule_hits JNull rule = Inr b" using h by cases (simp_all only:, blast+)
  next
    fix rule assume "rule \<in> set [?r1]"
    then show "\<not> is_hit JNull rule" using i(1) by (simp only: list.set empty_iff insert_iff simp_thms)
  qed (use i(2) in \<open>simp_all only: append.simps\<close>)
  then show ?thesis using i by simp
qed

text \<open>
  A rule whose condition raises makes the whole table raise: a condition with an
  unsupported operator is not skipped, whatever the hit policy, unless an earlier rule
  already ended the evaluation.
\<close>

theorem decision_table_raises:
  assumes "\<And>rule. rule \<in> set pre \<Longrightarrow> rule_hits ctx rule = Inr False" and "rule_hits ctx bad = Inl e"
  shows "evaluate_decision_table (JObj [(''hit_policy'', p), (''rules'', JList (pre @ bad # post))]) ctx = Inl e"
  using decide_rules_first [OF assms(1)] assms(2)
  by (simp add: evaluate_decision_table_def decide_rules_step del: decide_rules.simps)

theorem decision_table_raises_witness:
  "evaluate_decision_table (JObj [(''hit_policy'', JStr ''first''),
     (''rules'', JList ([] @ JObj [(''when'', JObj [(''bogus'', JInt 1)])] # []))]) JNull
   = Inl (UnsupportedOperator ''bogus'')"
  by (rule decision_table_raises)
    (simp_all add: json_logic_op operands_def json_logic_literal apply_op_def)

end
