(* ===== verification/Wf_Values.thy ===== *)
theory Wf_Values
  imports Json_Logic
begin

section \<open>References, templates, delays and retry policies\<close>

text \<open>
  The pure value-level code of the token engine: \<open>$ref\<close> envelopes and \<open>{{ }}\<close> templates
  (\<open>actions.py\<close>), timer delays (\<open>engine.py\<close>, \<open>_resolve_one_delay\<close>,
  \<open>_resolve_delay_seconds\<close>) and the retry policy with its per-node attempt counters
  (\<open>retry.py\<close>). The template pattern is deterministic: after the braces and blanks its
  path must be a maximal run of name characters and dots, so matching is a scan. The
  random source of the backoff is a parameter.
\<close>

subsection \<open>References (actions.py)\<close>

fun lookup_path :: "json \<Rightarrow> string list \<Rightarrow> json" where
  "lookup_path cur [] = cur"
| "lookup_path cur (part # parts) =
     (case cur of JObj d \<Rightarrow> lookup_path (jget d part) parts | _ \<Rightarrow> JNull)"

definition lookup :: "json \<Rightarrow> string \<Rightarrow> json" where
  "lookup context path = lookup_path context (split_on (CHR ''.'') path)"

definition REF_KEY :: string where "REF_KEY = ''$ref''"

definition as_ref :: "json \<Rightarrow> string option" where
  "as_ref v = (case v of JObj [(k, JStr p)] \<Rightarrow> if k = REF_KEY then Some p else None | _ \<Rightarrow> None)"

definition resolve_ref :: "json \<Rightarrow> json \<Rightarrow> json" where
  "resolve_ref v context = (case as_ref v of Some p \<Rightarrow> lookup context p | None \<Rightarrow> v)"

text \<open>\<open>None\<close> is the sentinel of a path that does not exist.\<close>

fun lookup_or_missing_path :: "json \<Rightarrow> string list \<Rightarrow> json option" where
  "lookup_or_missing_path cur [] = Some cur"
| "lookup_or_missing_path cur (part # parts) =
     (case cur of
        JObj d \<Rightarrow> (case dget d part of None \<Rightarrow> None | Some v \<Rightarrow> lookup_or_missing_path v parts)
      | _ \<Rightarrow> None)"

definition lookup_or_missing :: "json \<Rightarrow> string \<Rightarrow> json option" where
  "lookup_or_missing context path = lookup_or_missing_path context (split_on (CHR ''.'') path)"

definition unresolved_ref_slugs :: "jdict \<Rightarrow> json \<Rightarrow> string list" where
  "unresolved_ref_slugs vals context =
     map fst (filter (\<lambda>kv. case as_ref (snd kv) of Some p \<Rightarrow> lookup_or_missing context p = None
                       | None \<Rightarrow> False) vals)"

definition resolve_values :: "jdict \<Rightarrow> json \<Rightarrow> jdict" where
  "resolve_values vals context = map (\<lambda>kv. (fst kv, resolve_ref (snd kv) context)) vals"

subsection \<open>Templates (actions.py)\<close>

definition NAMESPACES :: "string list" where
  "NAMESPACES = [''before'', ''after'', ''inputs'', ''vars'', ''run'', ''node'']"

definition word_char :: "char \<Rightarrow> bool" where
  "word_char c \<longleftrightarrow> (let n = char_code c in
     (65 \<le> n \<and> n \<le> 90) \<or> (97 \<le> n \<and> n \<le> 122) \<or> is_digit c \<or> n = 95)"

definition path_char :: "char \<Rightarrow> bool" where
  "path_char c \<longleftrightarrow> word_char c \<or> c = CHR ''.''"

definition path_ok :: "string \<Rightarrow> bool" where
  "path_ok p \<longleftrightarrow> p = ''now'' \<or> p = ''today''
     \<or> (case split_on (CHR ''.'') p of
          ns # w # ws \<Rightarrow> ns \<in> set NAMESPACES \<and> list_all (\<lambda>s. s \<noteq> []) (w # ws)
        | _ \<Rightarrow> False)"

text \<open>A token at the head of the text: its path and what follows it.\<close>

definition match_token :: "string \<Rightarrow> (string \<times> string) option" where
  "match_token s =
     (case s of
        a # b # t \<Rightarrow>
          if a = CHR ''{'' \<and> b = CHR ''{'' then
            (let u = dropWhile is_space t; p = takeWhile path_char u;
                 r = dropWhile is_space (dropWhile path_char u) in
             if path_ok p then
               (case r of x # y # rest \<Rightarrow> if x = CHR ''}'' \<and> y = CHR ''}'' then Some (p, rest) else None
                | _ \<Rightarrow> None)
             else None)
          else None
      | _ \<Rightarrow> None)"

lemma match_token_shorter: "match_token s = Some (p, rest) \<Longrightarrow> length rest < length s"
proof -
  assume m: "match_token s = Some (p, rest)"
  then obtain t x y where s: "s = CHR ''{'' # CHR ''{'' # t"
    and r: "dropWhile is_space (dropWhile path_char (dropWhile is_space t)) = x # y # rest"
    by (auto simp: match_token_def Let_def split: list.splits if_splits)
  have "length (x # y # rest) \<le> length t"
    unfolding r [symmetric] by (meson length_dropWhile_le order.trans)
  then show ?thesis using s by simp
qed

definition token_text :: "json \<Rightarrow> string \<Rightarrow> string" where
  "token_text context path = (let v = lookup context path in if v = JNull then [] else py_str v)"

function render_template :: "string \<Rightarrow> json \<Rightarrow> string" where
  "render_template s context =
     (case match_token s of
        Some pr \<Rightarrow> token_text context (fst pr) @ render_template (snd pr) context
      | None \<Rightarrow> (case s of [] \<Rightarrow> [] | c # t \<Rightarrow> c # render_template t context))"
  by pat_completeness auto
termination
  by (relation "measure (\<lambda>(s, context). length s)") (auto dest: match_token_shorter)

declare render_template.simps [simp del]

fun render_deep :: "json \<Rightarrow> json \<Rightarrow> json" where
  "render_deep (JStr s) context = JStr (render_template s context)"
| "render_deep (JObj d) context = JObj (map (\<lambda>(k, v). (k, render_deep v context)) d)"
| "render_deep (JList xs) context = JList (map (\<lambda>v. render_deep v context) xs)"
| "render_deep v context = v"

definition resolve_dynamic :: "json \<Rightarrow> json \<Rightarrow> json" where
  "resolve_dynamic raw context =
     (case raw of JObj _ \<Rightarrow> resolve_ref raw context
      | JStr s \<Rightarrow> JStr (render_template s context)
      | _ \<Rightarrow> raw)"

definition resolve_value_map :: "jdict \<Rightarrow> json \<Rightarrow> jdict" where
  "resolve_value_map vals context = map (\<lambda>kv. (fst kv, resolve_dynamic (snd kv) context)) vals"

subsection \<open>Coercions of resolved config values (actions.py)\<close>

definition as_bool :: "json \<Rightarrow> bool \<Rightarrow> bool" where
  "as_bool v dflt =
     (if v = JNull \<or> v = JStr [] then dflt
      else if is_number v then truthy v
      else lower (strip (py_str v)) \<in> {''true'', ''1'', ''yes'', ''on''})"

definition as_int :: "json \<Rightarrow> int \<Rightarrow> (py_exc, int) result" where
  "as_int v dflt =
     (if v = JNull \<or> v = JStr [] then Inr dflt
      else case bind_res (py_float v) py_int_float of
          Inl x \<Rightarrow> (if x = TypeError \<or> x = ValueError then Inr dflt else Inl x)
        | Inr i \<Rightarrow> Inr i)"

definition as_float :: "json \<Rightarrow> pyfloat option \<Rightarrow> (py_exc, pyfloat option) result" where
  "as_float v dflt =
     (if v = JNull \<or> v = JStr [] then Inr dflt
      else case py_float v of
          Inl x \<Rightarrow> (if x = TypeError \<or> x = ValueError then Inr dflt else Inl x)
        | Inr f \<Rightarrow> Inr (Some f))"

subsection \<open>Timer delays (engine.py)\<close>

text \<open>\<open>round(f)\<close> to an integer; it raises on infinities and NaN.\<close>

definition py_round :: "pyfloat \<Rightarrow> (py_exc, int) result" where
  "py_round f = (case f of Fin q \<Rightarrow> Inr (round_half_even q) | NaN \<Rightarrow> Inl ValueError | _ \<Rightarrow> Inl OverflowError)"

definition resolve_one_delay :: "json \<Rightarrow> json \<Rightarrow> pyfloat \<Rightarrow> (py_exc, int option) result" where
  "resolve_one_delay raw0 context divisor =
     (let raw = (case raw0 of JObj _ \<Rightarrow> resolve_dynamic raw0 context
                 | JStr _ \<Rightarrow> resolve_dynamic raw0 context | _ \<Rightarrow> raw0) in
      if raw = JNull \<or> raw = JStr [] then Inr None
      else case py_float raw of
          Inl x \<Rightarrow> (if x = TypeError \<or> x = ValueError then Inr None else Inl x)
        | Inr f \<Rightarrow>
            (let v = f_div f divisor in
             if \<not> f_lt (Fin 0) v \<and> v \<noteq> NaN then Inr None
             else bind_res (py_round v) (\<lambda>i. Inr (Some i))))"

definition resolve_delay_seconds :: "jdict \<Rightarrow> json \<Rightarrow> (py_exc, int) result" where
  "resolve_delay_seconds data context =
     bind_res (resolve_one_delay (jget data ''delay_ms'') context (Fin 1000)) (\<lambda>from_ms.
       case from_ms of
         Some n \<Rightarrow> Inr n
       | None \<Rightarrow> bind_res (resolve_one_delay (jget data ''delay_seconds'') context (Fin 1)) (\<lambda>s.
           Inr (case s of Some n \<Rightarrow> n | None \<Rightarrow> 0)))"

subsection \<open>Retry policy (retry.py)\<close>

definition MAX_ATTEMPTS_CAP :: int where "MAX_ATTEMPTS_CAP = 20"
definition MAX_DELAY_CAP_SECONDS :: rat where "MAX_DELAY_CAP_SECONDS = 86400"
definition DEFAULT_BASE_DELAY :: rat where "DEFAULT_BASE_DELAY = 1"
definition DEFAULT_MAX_DELAY :: rat where "DEFAULT_MAX_DELAY = 300"
definition DEFAULT_MAX_ATTEMPTS :: int where "DEFAULT_MAX_ATTEMPTS = 3"
definition RETRIES_KEY :: string where "RETRIES_KEY = ''_retries''"

record retry_policy =
  rp_max_attempts :: int
  rp_base_delay :: pyfloat
  rp_max_delay :: pyfloat

definition no_retry :: retry_policy where
  "no_retry = \<lparr>rp_max_attempts = 1, rp_base_delay = Fin DEFAULT_BASE_DELAY, rp_max_delay = Fin DEFAULT_MAX_DELAY\<rparr>"

definition retries_enabled :: "retry_policy \<Rightarrow> bool" where
  "retries_enabled p \<longleftrightarrow> rp_max_attempts p > 1"

text \<open>Python's \<open>min(a, b)\<close> and \<open>max(a, b)\<close> keep the first unless the second is strictly better.\<close>

definition f_min :: "pyfloat \<Rightarrow> pyfloat \<Rightarrow> pyfloat" where
  "f_min a b = (if f_lt b a then b else a)"

definition f_max :: "pyfloat \<Rightarrow> pyfloat \<Rightarrow> pyfloat" where
  "f_max a b = (if f_lt a b then b else a)"

definition clamp_int :: "json \<Rightarrow> int \<Rightarrow> int \<Rightarrow> int \<Rightarrow> int" where
  "clamp_int v dflt low high = (case v of JInt i \<Rightarrow> max low (min high i) | _ \<Rightarrow> dflt)"

definition clamp_float :: "json \<Rightarrow> rat \<Rightarrow> rat \<Rightarrow> rat \<Rightarrow> (py_exc, pyfloat) result" where
  "clamp_float v dflt low high =
     (if is_bool v \<or> \<not> is_number v then Inr (Fin dflt)
      else bind_res (py_float v) (\<lambda>f. Inr (f_max (Fin low) (f_min (Fin high) f))))"

definition read_policy :: "jdict \<Rightarrow> (py_exc, retry_policy) result" where
  "read_policy node_data =
     (case jget node_data ''retry'' of
        JObj spec \<Rightarrow>
          if spec = [] then Inr no_retry
          else
            let max_attempts = clamp_int (jget spec ''max_attempts'') DEFAULT_MAX_ATTEMPTS 1 MAX_ATTEMPTS_CAP in
            bind_res (clamp_float (jget spec ''base_delay_seconds'') DEFAULT_BASE_DELAY 0 MAX_DELAY_CAP_SECONDS) (\<lambda>base.
            bind_res (clamp_float (jget spec ''max_delay_seconds'') DEFAULT_MAX_DELAY 0 MAX_DELAY_CAP_SECONDS) (\<lambda>mx.
              Inr \<lparr>rp_max_attempts = max_attempts, rp_base_delay = base, rp_max_delay = f_max base mx\<rparr>))
      | _ \<Rightarrow> Inr no_retry)"

text \<open>The delay before the next attempt; \<open>uniform\<close> stands for \<open>random.uniform(0.0, ceiling)\<close>.\<close>

definition backoff :: "(pyfloat \<Rightarrow> pyfloat) \<Rightarrow> nat \<Rightarrow> retry_policy \<Rightarrow> (py_exc, pyfloat) result" where
  "backoff uniform attempt policy =
     bind_res (float_of_int (2 ^ attempt)) (\<lambda>p.
       let ceiling = f_min (rp_max_delay policy) (f_mul (rp_base_delay policy) p) in
       Inr (if \<not> f_lt (Fin 0) ceiling \<and> ceiling \<noteq> NaN then Fin 0 else uniform ceiling))"

definition attempts_so_far :: "jdict \<Rightarrow> string \<Rightarrow> nat" where
  "attempts_so_far token_data node_id =
     (case jget token_data RETRIES_KEY of
        JObj retries \<Rightarrow> (case dget retries node_id of Some (JInt i) \<Rightarrow> if i \<ge> 0 then nat i else 0 | _ \<Rightarrow> 0)
      | _ \<Rightarrow> 0)"

definition record_attempt :: "jdict \<Rightarrow> string \<Rightarrow> nat \<Rightarrow> (py_exc, jdict) result" where
  "record_attempt token_data node_id attempt =
     bind_res (py_dict (py_or (jget token_data RETRIES_KEY) (JObj []))) (\<lambda>retries.
       Inr (dset token_data RETRIES_KEY (JObj (dset retries node_id (JInt (int attempt))))))"

definition clear_attempts :: "jdict \<Rightarrow> string \<Rightarrow> jdict" where
  "clear_attempts token_data node_id =
     (case jget token_data RETRIES_KEY of
        JObj retries \<Rightarrow>
          if node_id \<notin> set (dkeys retries) then token_data
          else if dremove retries node_id \<noteq> [] then dset token_data RETRIES_KEY (JObj (dremove retries node_id))
          else dremove token_data RETRIES_KEY
      | _ \<Rightarrow> token_data)"

subsection \<open>Templates are rendered in one pass\<close>

lemma render_template_Nil [simp]: "render_template [] context = []"
  by (subst render_template.simps) (simp add: match_token_def)

lemma match_token_no_brace: "c \<noteq> CHR ''{'' \<Longrightarrow> match_token (c # t) = None"
  by (cases t) (simp_all add: match_token_def)

lemma render_template_char:
  "c \<noteq> CHR ''{'' \<Longrightarrow> render_template (c # t) context = c # render_template t context"
  by (subst render_template.simps) (simp add: match_token_no_brace)

lemma render_template_prefix:
  "CHR ''{'' \<notin> set pre \<Longrightarrow> render_template (pre @ t) context = pre @ render_template t context"
  by (induction pre) (auto simp: render_template_char)

lemma path_char_facts:
  "path_char c \<Longrightarrow> \<not> is_space c" "is_space c \<Longrightarrow> \<not> path_char c"
  by (auto simp: path_char_def word_char_def is_space_def is_digit_def char_code_def Let_def)

lemma brace_facts: "\<not> path_char (CHR ''}'')" "\<not> is_space (CHR ''}'')"
  by (simp_all add: path_char_def word_char_def is_space_def is_digit_def char_code_def)

lemma path_ok_not_Nil: "path_ok p \<Longrightarrow> p \<noteq> []"
  by (auto simp: path_ok_def)

lemma dropWhile_all: "list_all q xs \<Longrightarrow> dropWhile q (xs @ ys) = dropWhile q ys"
  by (induction xs) auto

lemma takeWhile_all: "list_all q xs \<Longrightarrow> takeWhile q (xs @ ys) = xs @ takeWhile q ys"
  by (induction xs) auto

lemma hd_not_path: "list_all is_space ws \<Longrightarrow> takeWhile path_char (ws @ CHR ''}'' # t) = []
   \<and> dropWhile path_char (ws @ CHR ''}'' # t) = ws @ CHR ''}'' # t"
  by (cases ws) (auto simp: path_char_facts brace_facts)

lemma match_token_intro:
  assumes "path_ok p" "list_all path_char p" "list_all is_space ws" "list_all is_space ws'"
  shows "match_token (''{{'' @ ws @ p @ ws' @ ''}}'' @ suf) = Some (p, suf)"
proof -
  have p: "dropWhile is_space (p @ r) = p @ r" for r
    using path_ok_not_Nil [OF assms(1)] assms(2) by (cases p) (auto simp: path_char_facts)
  show ?thesis
    using assms hd_not_path [OF assms(4), of "CHR ''}'' # suf"]
    by (simp add: match_token_def Let_def dropWhile_all takeWhile_all p brace_facts)
qed

text \<open>
  A template token is replaced by the text of the value its path names in the run's context,
  and by nothing when there is none; the text around it is kept, and the text substituted for
  a token is never rendered again: a value that itself looks like a token stays as it is.
\<close>

theorem render_template_token:
  assumes "CHR ''{'' \<notin> set pre" "path_ok p" "list_all path_char p"
    and "list_all is_space ws" "list_all is_space ws'"
  shows "render_template (pre @ ''{{'' @ ws @ p @ ws' @ ''}}'' @ suf) context =
     pre @ (if lookup context p = JNull then [] else py_str (lookup context p)) @ render_template suf context"
proof -
  have "render_template (''{{'' @ ws @ p @ ws' @ ''}}'' @ suf) context =
      token_text context p @ render_template suf context"
    using match_token_intro [OF assms(2-5), of suf] by (subst render_template.simps) simp
  then show ?thesis
    using render_template_prefix [OF assms(1)] by (simp add: token_text_def Let_def)
qed

text \<open>The witness: a value that contains a token is inserted verbatim.\<close>

theorem render_template_token_witness:
  "render_template (''Hi '' @ ''{{'' @ '' '' @ ''vars.x'' @ '' '' @ ''}}'' @ ''!'')
     (JObj [(''vars'', JObj [(''x'', JStr ''{{now}}'')]), (''now'', JStr ''N'')]) = ''Hi {{now}}!''"
proof -
  have "path_ok ''vars.x''" by (simp add: path_ok_def NAMESPACES_def)
  moreover have "list_all path_char ''vars.x''"
    by (simp add: path_char_def word_char_def char_code_def is_digit_def)
  moreover have "list_all is_space '' ''" by (simp add: is_space_def char_code_def)
  ultimately have "render_template (''Hi '' @ ''{{'' @ '' '' @ ''vars.x'' @ '' '' @ ''}}'' @ ''!'')
     (JObj [(''vars'', JObj [(''x'', JStr ''{{now}}'')]), (''now'', JStr ''N'')]) =
     ''Hi '' @ ''{{now}}'' @ render_template ''!'' (JObj [(''vars'', JObj [(''x'', JStr ''{{now}}'')]), (''now'', JStr ''N'')])"
    by (subst render_template_token) (simp_all add: lookup_def jget_def py_str_def)
  then show ?thesis by (simp add: render_template_char)
qed

subsection \<open>Delays\<close>

text \<open>
  A timer whose delay is the text \<open>nan\<close>, which \<open>float()\<close> accepts, makes the delay computation
  raise, although it is meant to fall back to no wait on anything malformed.
\<close>

theorem resolve_delay_nan_raises:
  "resolve_delay_seconds [(''delay_seconds'', JStr ''nan'')] context = Inl ValueError"
proof -
  have "render_template ''nan'' context = ''nan''" by (simp add: render_template_char)
  moreover have "float_of_str ''nan'' = Some NaN"
    by (simp add: float_of_str_def strip_def is_space_def take_sign_def lower_def lower_char_def char_code_def)
  ultimately show ?thesis
    by (simp add: resolve_delay_seconds_def resolve_one_delay_def jget_def resolve_dynamic_def py_float_def
        py_round_def)
qed

subsection \<open>Retry policies are clamped\<close>

lemma f_clamp:
  assumes "low \<le> high"
  shows "\<exists>q. f_max (Fin low) (f_min (Fin high) f) = Fin q \<and> low \<le> q \<and> q \<le> high"
  using assms by (cases f) (auto simp: f_max_def f_min_def)

lemma clamp_float_bounds:
  "clamp_float v dflt low high = Inr f \<Longrightarrow> low \<le> dflt \<Longrightarrow> dflt \<le> high \<Longrightarrow>
   \<exists>q. f = Fin q \<and> low \<le> q \<and> q \<le> high"
  using f_clamp [of low high] by (auto simp: clamp_float_def result_simps split: if_splits)

definition policy_ok :: "retry_policy \<Rightarrow> bool" where
  "policy_ok p \<longleftrightarrow> 1 \<le> rp_max_attempts p \<and> rp_max_attempts p \<le> MAX_ATTEMPTS_CAP
     \<and> (\<exists>b m. rp_base_delay p = Fin b \<and> rp_max_delay p = Fin m \<and> 0 \<le> b \<and> b \<le> m \<and> m \<le> MAX_DELAY_CAP_SECONDS)"

lemmas retry_constants = MAX_ATTEMPTS_CAP_def MAX_DELAY_CAP_SECONDS_def DEFAULT_BASE_DELAY_def
  DEFAULT_MAX_DELAY_def DEFAULT_MAX_ATTEMPTS_def

lemma read_policy_ok: "read_policy node_data = Inr p \<Longrightarrow> policy_ok p"
proof -
  assume r: "read_policy node_data = Inr p"
  show ?thesis
  proof (cases "p = no_retry")
    case True
    then show ?thesis by (simp add: policy_ok_def no_retry_def retry_constants)
  next
    case False
    with r obtain spec base mx where
      b: "clamp_float (jget spec ''base_delay_seconds'') DEFAULT_BASE_DELAY 0 MAX_DELAY_CAP_SECONDS = Inr base" and
      m: "clamp_float (jget spec ''max_delay_seconds'') DEFAULT_MAX_DELAY 0 MAX_DELAY_CAP_SECONDS = Inr mx" and
      p: "p = \<lparr>rp_max_attempts = clamp_int (jget spec ''max_attempts'') DEFAULT_MAX_ATTEMPTS 1 MAX_ATTEMPTS_CAP,
          rp_base_delay = base, rp_max_delay = f_max base mx\<rparr>"
      by (auto simp: read_policy_def Let_def result_simps split: json.splits if_splits)
    obtain bq mq where "base = Fin bq" "0 \<le> bq" "bq \<le> 86400" "mx = Fin mq" "0 \<le> mq" "mq \<le> 86400"
      using clamp_float_bounds [OF b] clamp_float_bounds [OF m] by (auto simp: retry_constants)
    then show ?thesis
      using p by (auto simp: policy_ok_def clamp_int_def retry_constants f_max_def split: json.splits)
  qed
qed

text \<open>The ceiling is finite whatever the product is; two to a small power is a double.\<close>

lemma ceiling_finite: "\<exists>q. f_min (Fin m) x = Fin q \<and> q \<le> m \<or> f_min (Fin m) x = NInf"
  by (cases x) (auto simp: f_min_def)

lemma round_half_even_int: "round_half_even (of_int n) = n"
  by (simp add: round_half_even_def)

lemma rat_log_power: "rat_log 2 (2 ^ a) = int a"
proof -
  have "(2 ^ a :: rat) = Rat.of_int (2 ^ a)" by (simp add: Rat.of_int_def)
  then have q: "quotient_of (2 ^ a :: rat) = (2 ^ a, 1)" by (simp only: quotient_of_int)
  have one: "floorlog 2 1 = 1"
    by (rule antisym [OF floorlog_leI floorlog_geI]) auto
  then have "floorlog 2 (nat (2 ^ a)) = Suc a"
    using floorlog_power [of 1 2 a] by (simp add: nat_power_eq)
  then show ?thesis using one by (simp add: rat_log_def q pow_rat_def)
qed

lemma float_of_power:
  assumes "a < 20"
  shows "float_of_int (2 ^ a) = Inr (Fin (2 ^ a))"
proof -
  have up: "(2 ^ a :: rat) * pow_rat 2 (52 - int a) = of_int (2 ^ 52)"
    using assms by (simp add: pow_rat_def nat_diff_distrib' power_diff)
  have down: "of_int (2 ^ 52) * pow_rat 2 (int a - 52) = (2 ^ a :: rat)"
    using assms by (simp add: pow_rat_def nat_diff_distrib' power_diff)
  have small: "\<not> (2 ^ 1024 :: rat) \<le> 2 ^ a"
    using power_strict_increasing [of a 1024 "2 :: rat"] assms by linarith
  have "fl (2 ^ a) = Fin (2 ^ a)"
    unfolding fl_def Let_def
    using up down small round_half_even_int [of "2 ^ 52"] by (simp add: rat_log_power)
  then show ?thesis by (simp add: float_of_int_def)
qed

text \<open>
  Whatever a task's \<open>retry\<close> block says, the policy read from it allows between one and twenty
  attempts and delays between zero and a day; for every retry the policy allows, the backoff
  returns a delay between zero and the policy's maximum, given that the random source draws
  within the bounds it is asked for.
\<close>

theorem retry_backoff_bounded:
  assumes policy: "read_policy node_data = Inr p"
    and uniform: "\<And>c. 0 < c \<Longrightarrow> \<exists>d. uniform (Fin c) = Fin d \<and> 0 \<le> d \<and> d \<le> c"
    and attempt: "int attempt + 1 < rp_max_attempts p"
  shows "policy_ok p \<and> (\<exists>d m. backoff uniform attempt p = Inr (Fin d) \<and> rp_max_delay p = Fin m \<and> 0 \<le> d \<and> d \<le> m)"
proof -
  have ok: "policy_ok p" by (rule read_policy_ok [OF policy])
  then obtain m where m: "rp_max_delay p = Fin m" "0 \<le> m" and n: "attempt < 20"
    using attempt by (auto simp: policy_ok_def MAX_ATTEMPTS_CAP_def)
  define c where "c = f_min (rp_max_delay p) (f_mul (rp_base_delay p) (Fin (2 ^ attempt)))"
  have b: "backoff uniform attempt p = Inr (if \<not> f_lt (Fin 0) c \<and> c \<noteq> NaN then Fin 0 else uniform c)"
    by (simp add: backoff_def float_of_power [OF n] c_def)
  consider q where "c = Fin q" "q \<le> m" | "c = NInf" using ceiling_finite [of m] m(1) c_def by metis
  then have "\<exists>d. backoff uniform attempt p = Inr (Fin d) \<and> 0 \<le> d \<and> d \<le> m"
    using m(2) b uniform by cases (force, simp)
  then show ?thesis using ok m(1) by blast
qed

text \<open>The witness: the default policy and a source that always draws the bound.\<close>

theorem retry_backoff_bounded_witness:
  "\<exists>d m. backoff (\<lambda>c. c) 1 \<lparr>rp_max_attempts = 3, rp_base_delay = Fin 1, rp_max_delay = Fin 300\<rparr> = Inr (Fin d)
     \<and> 0 \<le> d \<and> d \<le> m"
proof -
  have r: "read_policy [(''retry'', JObj [(''max_attempts'', JInt 3)])] =
      Inr \<lparr>rp_max_attempts = 3, rp_base_delay = Fin 1, rp_max_delay = Fin 300\<rparr>"
    by (simp add: read_policy_def jget_def clamp_int_def clamp_float_def is_number_def is_bool_def
        retry_constants f_max_def)
  show ?thesis using retry_backoff_bounded [OF r, of "\<lambda>c. c" 1] by auto
qed

subsection \<open>Attempt counters\<close>

definition retries_ok :: "jdict \<Rightarrow> bool" where
  "retries_ok d \<longleftrightarrow> jget d RETRIES_KEY = JNull \<or> (\<exists>r. jget d RETRIES_KEY = JObj r)"

lemma jget_dset [simp]: "jget (dset d k v) k' = (if k' = k then v else jget d k')"
  by (simp add: jget_def)

lemma jget_dremove [simp]: "jget (dremove d k) k' = (if k' = k then JNull else jget d k')"
  by (simp add: jget_def)

lemma record_attempt_ok:
  "retries_ok d \<Longrightarrow> record_attempt d n a = Inr (dset d RETRIES_KEY (JObj (dset
     (case jget d RETRIES_KEY of JObj r \<Rightarrow> r | _ \<Rightarrow> []) n (JInt (int a)))))"
  by (auto simp: retries_ok_def record_attempt_def py_or_def py_dict_def)

text \<open>
  The attempt counter of a node is a round trip: recording an attempt always succeeds on data the
  engine wrote, is read back by \<open>attempts_so_far\<close>, and clearing it resets that node to zero;
  neither touches another node's counter nor any other field of the token's data.
\<close>

theorem attempts_roundtrip:
  assumes "retries_ok d"
  shows "\<exists>d'. record_attempt d n a = Inr d' \<and> retries_ok d' \<and> retries_ok (clear_attempts d' n)
    \<and> attempts_so_far d' n = a \<and> attempts_so_far (clear_attempts d' n) n = 0
    \<and> (\<forall>m. m \<noteq> n \<longrightarrow> attempts_so_far d' m = attempts_so_far d m
           \<and> attempts_so_far (clear_attempts d' n) m = attempts_so_far d m)
    \<and> (\<forall>k. k \<noteq> RETRIES_KEY \<longrightarrow> jget d' k = jget d k \<and> jget (clear_attempts d' n) k = jget d k)"
proof -
  define r where "r = (case jget d RETRIES_KEY of JObj r \<Rightarrow> r | _ \<Rightarrow> [])"
  define d' where "d' = dset d RETRIES_KEY (JObj (dset r n (JInt (int a))))"
  have old: "attempts_so_far d m = (case dget r m of Some (JInt i) \<Rightarrow> if i \<ge> 0 then nat i else 0 | _ \<Rightarrow> 0)" for m
    using assms by (auto simp: attempts_so_far_def r_def retries_ok_def)
  have clear: "clear_attempts d' n = (if dremove (dset r n (JInt (int a))) n \<noteq> []
      then dset d' RETRIES_KEY (JObj (dremove (dset r n (JInt (int a))) n)) else dremove d' RETRIES_KEY)"
    by (simp add: clear_attempts_def d'_def)
  have empty: "dget r m = None" if "dremove (dset r n (JInt (int a))) n = []" "m \<noteq> n" for m
    using dget_dremove [of "dset r n (JInt (int a))" n m] that by simp
  have jd: "jget d' k = (if k = RETRIES_KEY then JObj (dset r n (JInt (int a))) else jget d k)" for k
    by (simp add: d'_def)
  have "record_attempt d n a = Inr d'" using record_attempt_ok [OF assms] by (simp add: d'_def r_def)
  moreover have "retries_ok d'" "retries_ok (clear_attempts d' n)"
    by (simp_all add: retries_ok_def clear jd)
  moreover have "attempts_so_far d' n = a" "attempts_so_far (clear_attempts d' n) n = 0"
    by (simp_all add: attempts_so_far_def clear jd)
  moreover have "attempts_so_far d' m = attempts_so_far d m
      \<and> attempts_so_far (clear_attempts d' n) m = attempts_so_far d m" if "m \<noteq> n" for m
    using that empty [of m] unfolding old by (simp add: attempts_so_far_def clear jd)
  moreover have "jget d' k = jget d k \<and> jget (clear_attempts d' n) k = jget d k" if "k \<noteq> RETRIES_KEY" for k
    using that by (simp add: clear jd)
  ultimately show ?thesis by blast
qed

theorem attempts_roundtrip_witness:
  "\<exists>d'. record_attempt [] ''n1'' 2 = Inr d' \<and> attempts_so_far d' ''n1'' = 2
     \<and> attempts_so_far (clear_attempts d' ''n1'') ''n1'' = 0"
  using attempts_roundtrip [of "[]" "''n1''" 2] by (auto simp: retries_ok_def jget_def)

end
