(* ===== verification/Wf_Eval.thy ===== *)
theory Wf_Eval
  imports Json_Logic Wf_Graph
begin

section \<open>The graph walker, triggers, schedules, run permissions and manual inputs\<close>

text \<open>
  The pure decision code of the workflow service: \<open>evaluator.py\<close> (trigger pre-filter and the
  single-path walker shared by the dispatcher and the dry run), \<open>schedule.py\<close>,
  \<open>permissions.py\<close> and \<open>manual_inputs.py\<close>. The walker's loop is a recursion whose measure
  is the number of definition nodes not visited yet, so it always returns. Times are
  microseconds; the cron library is a parameter that returns the last boundary, or nothing
  for an invalid expression.
\<close>

subsection \<open>Trigger pre-filter (evaluator.py)\<close>

definition trigger_matches :: "jdict \<Rightarrow> string \<Rightarrow> string list \<Rightarrow> string \<Rightarrow> (py_exc, bool) result" where
  "trigger_matches trigger_data operation changed_fields source =
     (let required_source = jget trigger_data ''source'' in
      if required_source = JStr ''manual'' then Inr False
      else
        let ops = (if jget trigger_data ''operations'' = JNull
                   then JList [JStr ''create'', JStr ''update'', JStr ''delete'']
                   else jget trigger_data ''operations'') in
        bind_res (py_in (JStr operation) ops) (\<lambda>inops.
          if \<not> inops then Inr False
          else if truthy required_source \<and> required_source \<noteq> JStr ''any'' \<and> required_source \<noteq> JStr source
          then Inr False
          else
            let field_filter = py_or (jget trigger_data ''field_filter'') (JList []) in
            if truthy field_filter \<and> operation = ''update'' then
              bind_res (py_set field_filter) (\<lambda>xs. Inr (list_ex (\<lambda>f. JStr f \<in> set xs) changed_fields))
            else Inr True))"

subsection \<open>The walker (evaluator.py)\<close>

datatype eval_error = NoTriggerNode | Raised py_exc

record graph_evaluation =
  g_matched :: bool
  g_actions :: "wnode list"
  g_trace :: "(string \<times> bool) list"
  g_error :: "eval_error option"
  g_paused :: bool
  g_resume_node_id :: "string option"
  g_delay_seconds :: int

text \<open>The node index is a dict: of two nodes with one id the later replaces the earlier.\<close>

definition nodes_index :: "wdef \<Rightarrow> (string, wnode) dict" where
  "nodes_index w = fold (\<lambda>n d. dset d (n_id n) n) (w_nodes w) []"

text \<open>An expression that is absent or null counts as true.\<close>

definition eval_expr :: "json \<Rightarrow> json \<Rightarrow> (py_exc, bool) result" where
  "eval_expr expr context =
     (if expr = JNull then Inr True else bind_res (json_logic expr context) (\<lambda>v. Inr (truthy v)))"

fun switch_cases ::
  "json list \<Rightarrow> json \<Rightarrow> string \<Rightarrow> (string \<times> bool) list \<Rightarrow> (string \<times> bool) list \<times> (py_exc, json) result" where
  "switch_cases [] context nid trace = (trace, Inr JNull)"
| "switch_cases (c # cs) context nid trace =
     (case bind_res (attr_get c ''expr'') (\<lambda>expr. eval_expr expr context) of
        Inl x \<Rightarrow> (trace, Inl x)
      | Inr m \<Rightarrow> if m then (trace @ [(nid, True)], attr_get c ''handle'')
                 else switch_cases cs context nid (trace @ [(nid, False)]))"

definition first_out :: "(string \<times> string option) list \<Rightarrow> string option" where
  "first_out outs = (case outs of [] \<Rightarrow> None | o1 # _ \<Rightarrow> Some (fst o1))"

definition handle_out :: "((string option) \<Rightarrow> bool) \<Rightarrow> (string \<times> string option) list \<Rightarrow> string option" where
  "handle_out p outs = map_option fst (find (\<lambda>th. p (snd th)) outs)"

text \<open>\<open>h or "true"\<close>: a missing or empty handle reads as \<open>true\<close>.\<close>

definition handle_or :: "string \<Rightarrow> string option \<Rightarrow> string" where
  "handle_or dflt h = (case h of None \<Rightarrow> dflt | Some s \<Rightarrow> if s = [] then dflt else s)"

datatype node_eval = Step "string option" | Act "string option" | Pause int "string option" | Fail py_exc

text \<open>One iteration of the loop at a node: the trace after it and what happens next.\<close>

definition eval_node ::
  "wnode \<Rightarrow> string \<Rightarrow> (string \<times> string option) list \<Rightarrow> json \<Rightarrow> (string \<times> bool) list \<Rightarrow>
   (string \<times> bool) list \<times> node_eval" where
  "eval_node node current outs context trace =
     (if n_type node = ''condition'' then
        (case eval_expr (jget (n_data node) ''expr'') context of
           Inl x \<Rightarrow> (trace, Fail x)
         | Inr result \<Rightarrow> (trace @ [(current, result)],
             Step (handle_out (\<lambda>h. handle_or ''true'' h = (if result then ''true'' else ''false'')) outs)))
      else if n_type node = ''switch'' then
        (case py_iter (py_or (jget (n_data node) ''cases'') (JList [])) of
           Inl x \<Rightarrow> (trace, Fail x)
         | Inr cases \<Rightarrow>
             (let r = switch_cases cases context current trace in
              case snd r of
                Inl x \<Rightarrow> (fst r, Fail x)
              | Inr chosen \<Rightarrow>
                  (let handle = (if chosen \<noteq> JNull then chosen else JStr ''default'') in
                   (fst r, Step (handle_out (\<lambda>h. map_option JStr h = Some handle) outs)))))
      else if n_type node = ''delay'' then
        (case py_int (py_or (jget (n_data node) ''delay_seconds'') (JInt 0)) of
           Inl x \<Rightarrow> (trace, Fail x)
         | Inr secs \<Rightarrow> (trace, Pause secs (first_out outs)))
      else if n_type node = ''action'' then (trace, Act (first_out outs))
      else (trace, Step (first_out outs)))"

definition eval_done :: "wnode list \<Rightarrow> (string \<times> bool) list \<Rightarrow> graph_evaluation" where
  "eval_done actions trace = \<lparr>g_matched = (0 < length actions), g_actions = actions, g_trace = trace,
     g_error = None, g_paused = False, g_resume_node_id = None, g_delay_seconds = 0\<rparr>"

definition eval_failed :: "wnode list \<Rightarrow> (string \<times> bool) list \<Rightarrow> eval_error \<Rightarrow> graph_evaluation" where
  "eval_failed actions trace x = \<lparr>g_matched = False, g_actions = actions, g_trace = trace,
     g_error = Some x, g_paused = False, g_resume_node_id = None, g_delay_seconds = 0\<rparr>"

lemma walk_measure:
  assumes "dget d cur = Some n" "cur \<notin> set visited"
  shows "card (set (dkeys d) - insert cur (set visited)) < card (set (dkeys d) - set visited)"
proof -
  have "cur \<in> set (dkeys d)" using assms(1) dget_None_iff [of d cur] by auto
  then have "set (dkeys d) - insert cur (set visited) \<subset> set (dkeys d) - set visited"
    using assms(2) by blast
  then show ?thesis by (simp add: psubset_card_mono)
qed

function walk_graph ::
  "wdef \<Rightarrow> json \<Rightarrow> string option \<Rightarrow> string list \<Rightarrow> wnode list \<Rightarrow> (string \<times> bool) list \<Rightarrow> graph_evaluation" where
  "walk_graph w context cur visited actions trace =
     (case cur of
        None \<Rightarrow> eval_done actions trace
      | Some current \<Rightarrow>
          if current \<in> set visited then eval_done actions trace
          else (case dget (nodes_index w) current of
              None \<Rightarrow> eval_done actions trace
            | Some node \<Rightarrow>
                (let r = eval_node node current (out_edges w current) context trace in
                 case snd r of
                   Step nxt \<Rightarrow> walk_graph w context nxt (current # visited) actions (fst r)
                 | Act nxt \<Rightarrow> walk_graph w context nxt (current # visited) (actions @ [node]) (fst r)
                 | Pause secs nxt \<Rightarrow> \<lparr>g_matched = True, g_actions = actions, g_trace = fst r, g_error = None,
                     g_paused = True, g_resume_node_id = nxt, g_delay_seconds = secs\<rparr>
                 | Fail x \<Rightarrow> eval_failed actions (fst r) (Raised x))))"
  by pat_completeness auto

termination
  by (relation "measure (\<lambda>(w, ctx, cur, visited, a, t). card (set (dkeys (nodes_index w)) - set visited))")
    (auto simp: walk_measure)

declare walk_graph.simps [simp del]

definition evaluate_graph :: "wdef \<Rightarrow> json \<Rightarrow> string option \<Rightarrow> graph_evaluation" where
  "evaluate_graph w context start_node_id =
     (case start_node_id of
        Some s \<Rightarrow> walk_graph w context (Some s) [] [] []
      | None \<Rightarrow> (case find (\<lambda>n. n_type n = ''trigger'') (map snd (nodes_index w)) of
            None \<Rightarrow> eval_failed [] [] NoTriggerNode
          | Some trigger \<Rightarrow> walk_graph w context (Some (n_id trigger)) [] [] []))"

subsection \<open>Schedules (schedule.py)\<close>

text \<open>\<open>timedelta(seconds=n)\<close> raises beyond 999999999 days; durations are microseconds.\<close>

definition timedelta_seconds :: "int \<Rightarrow> (py_exc, int) result" where
  "timedelta_seconds n =
     (if n < - 86399999913600 \<or> n \<ge> 86400000000000 then Inl OverflowError else Inr (n * 1000000))"

definition schedule_as_int :: "json \<Rightarrow> (py_exc, int) result" where
  "schedule_as_int v =
     (if is_bool v \<or> \<not> (is_number v \<or> (case v of JStr _ \<Rightarrow> True | _ \<Rightarrow> False)) then Inr 0
      else case py_int v of Inl x \<Rightarrow> (if x = ValueError \<or> x = TypeError then Inr 0 else Inl x)
        | Inr i \<Rightarrow> Inr i)"

definition interval_due :: "int \<Rightarrow> int option \<Rightarrow> int \<Rightarrow> bool" where
  "interval_due period last_run now =
     (case last_run of None \<Rightarrow> True | Some l \<Rightarrow> now - l \<ge> period)"

definition cron_due :: "(string \<Rightarrow> int \<Rightarrow> int option) \<Rightarrow> string \<Rightarrow> int option \<Rightarrow> int \<Rightarrow> bool" where
  "cron_due cron expr last_run now =
     (case cron expr now of None \<Rightarrow> False
      | Some prev_boundary \<Rightarrow> (case last_run of None \<Rightarrow> True | Some l \<Rightarrow> l < prev_boundary))"

definition cron_of :: "jdict \<Rightarrow> string option" where
  "cron_of d = (case jget d ''cron'' of JStr e \<Rightarrow> if strip e \<noteq> [] then Some (strip e) else None | _ \<Rightarrow> None)"

definition is_schedule_due ::
  "(string \<Rightarrow> int \<Rightarrow> int option) \<Rightarrow> json \<Rightarrow> int option \<Rightarrow> int \<Rightarrow> (py_exc, bool) result" where
  "is_schedule_due cron schedule last_run now =
     (case schedule of
        JObj d \<Rightarrow>
          (case cron_of d of
             Some e \<Rightarrow> Inr (cron_due cron e last_run now)
           | None \<Rightarrow>
               bind_res (schedule_as_int (jget d ''every_seconds'')) (\<lambda>every_seconds.
                 if every_seconds > 0 then
                   bind_res (timedelta_seconds every_seconds) (\<lambda>p. Inr (interval_due p last_run now))
                 else bind_res (schedule_as_int (jget d ''every_minutes'')) (\<lambda>every_minutes.
                   if every_minutes \<le> 0 then Inr False
                   else bind_res (timedelta_seconds (60 * every_minutes)) (\<lambda>p.
                     Inr (interval_due p last_run now)))))
      | _ \<Rightarrow> Inr False)"

subsection \<open>Run permission (permissions.py)\<close>

record org_context =
  oc_is_org_admin :: bool
  oc_roles :: "string list"
  oc_groups :: "string list"

definition id_strings :: "json \<Rightarrow> (py_exc, string list) result" where
  "id_strings v = bind_res (py_iter (py_or v (JList []))) (\<lambda>xs. Inr (map py_str xs))"

definition can_run :: "org_context \<Rightarrow> jdict option \<Rightarrow> (py_exc, bool) result" where
  "can_run ctx run_permission =
     (if oc_is_org_admin ctx then Inr True
      else
        let perm = (case run_permission of None \<Rightarrow> [] | Some p \<Rightarrow> p);
            mode = (case dget perm ''mode'' of None \<Rightarrow> JStr ''org_admin'' | Some m \<Rightarrow> m) in
        if mode = JStr ''any_member'' then Inr True
        else if mode = JStr ''roles'' then
          bind_res (id_strings (jget perm ''role_ids'')) (\<lambda>allowed_roles.
          bind_res (id_strings (jget perm ''group_ids'')) (\<lambda>allowed_groups.
            Inr (list_ex (\<lambda>r. r \<in> set (oc_roles ctx)) allowed_roles
                 \<or> list_ex (\<lambda>g. g \<in> set (oc_groups ctx)) allowed_groups)))
        else Inr False)"

subsection \<open>Declared inputs of a manual trigger (manual_inputs.py)\<close>

datatype input_type = TText | TNumber | TBoolean

record input_spec =
  is_key :: string
  is_label :: string
  is_type :: input_type
  is_required :: bool

datatype input_error = MissingRequired string | NotANumber string | InputRaised py_exc

definition trigger_data_of :: "wdef \<Rightarrow> jdict" where
  "trigger_data_of w = (case find (\<lambda>n. n_type n = ''trigger'') (w_nodes w) of
     Some n \<Rightarrow> n_data n | None \<Rightarrow> [])"

definition is_manual_trigger :: "wdef \<Rightarrow> bool" where
  "is_manual_trigger w \<longleftrightarrow> jget (trigger_data_of w) ''source'' = JStr ''manual''"

definition key_char :: "char \<Rightarrow> bool" where
  "key_char c \<longleftrightarrow> (let n = char_code c in
     (65 \<le> n \<and> n \<le> 90) \<or> (97 \<le> n \<and> n \<le> 122) \<or> is_digit c \<or> n = 95)"

text \<open>The key is stripped first, so the \<open>$\<close> of the pattern has no newline to skip.\<close>

definition key_ok :: "string \<Rightarrow> bool" where
  "key_ok k \<longleftrightarrow> k \<noteq> [] \<and> list_all key_char k"

definition input_type_of :: "json \<Rightarrow> input_type" where
  "input_type_of v = (if v = JStr ''number'' then TNumber else if v = JStr ''boolean'' then TBoolean else TText)"

fun collect_specs :: "json list \<Rightarrow> string list \<Rightarrow> input_spec list" where
  "collect_specs [] seen = []"
| "collect_specs (item # items) seen =
     (case item of
        JObj d \<Rightarrow>
          (let key = strip (py_str (py_or (jget d ''key'') (JStr []))) in
           if key = [] \<or> key \<in> set seen \<or> \<not> key_ok key then collect_specs items seen
           else \<lparr>is_key = key, is_label = py_str (py_or (jget d ''label'') (JStr key)),
                  is_type = input_type_of (jget d ''type''), is_required = truthy (jget d ''required'')\<rparr>
                # collect_specs items (key # seen))
      | _ \<Rightarrow> collect_specs items seen)"

definition declared_inputs :: "wdef \<Rightarrow> (py_exc, input_spec list) result" where
  "declared_inputs w = bind_res (py_iter (py_or (jget (trigger_data_of w) ''inputs'') (JList [])))
     (\<lambda>items. Inr (collect_specs items []))"

definition f_is_integer :: "pyfloat \<Rightarrow> bool" where
  "f_is_integer f = (case f of Fin q \<Rightarrow> of_int \<lfloor>q\<rfloor> = q | _ \<Rightarrow> False)"

definition coerce_value :: "input_spec \<Rightarrow> json \<Rightarrow> (input_error, json) result" where
  "coerce_value spec v =
     (case is_type spec of
        TNumber \<Rightarrow>
          (case py_float v of
             Inl x \<Rightarrow> (if x = TypeError \<or> x = ValueError then Inl (NotANumber (is_label spec))
                       else Inl (InputRaised x))
           | Inr num \<Rightarrow>
               if f_is_integer num then
                 (case py_int_float num of Inr i \<Rightarrow> Inr (JInt i) | Inl x \<Rightarrow> Inl (InputRaised x))
               else Inr (JFloat num))
      | TBoolean \<Rightarrow>
          (case v of JBool b \<Rightarrow> Inr (JBool b)
           | JStr s \<Rightarrow> Inr (JBool (lower (strip s) \<in> {''true'', ''1'', ''yes'', ''on''}))
           | _ \<Rightarrow> Inr (JBool (truthy v)))
      | TText \<Rightarrow> Inr (JStr (if v = JNull then [] else py_str v)))"

fun coerce_loop :: "input_spec list \<Rightarrow> jdict \<Rightarrow> jdict \<Rightarrow> (input_error, jdict) result" where
  "coerce_loop [] raw result = Inr result"
| "coerce_loop (spec # specs) raw result =
     (case dget raw (is_key spec) of
        None \<Rightarrow> (if is_required spec then Inl (MissingRequired (is_label spec))
                 else coerce_loop specs raw result)
      | Some v \<Rightarrow>
          if v = JNull \<or> v = JStr [] then
            (if is_required spec then Inl (MissingRequired (is_label spec)) else coerce_loop specs raw result)
          else bind_res (coerce_value spec v) (\<lambda>x. coerce_loop specs raw (dset result (is_key spec) x)))"

definition coerce_inputs :: "wdef \<Rightarrow> jdict \<Rightarrow> (input_error, jdict) result" where
  "coerce_inputs w raw =
     (case declared_inputs w of Inl x \<Rightarrow> Inl (InputRaised x) | Inr specs \<Rightarrow> coerce_loop specs raw [])"

subsection \<open>What the walker returns\<close>

lemma nodes_index_fold:
  "(\<And>i n. dget d i = Some n \<Longrightarrow> n \<in> S \<and> n_id n = i) \<Longrightarrow> set ns \<subseteq> S \<Longrightarrow>
   dget (fold (\<lambda>n d. dset d (n_id n) n) ns d) i = Some n \<Longrightarrow> n \<in> S \<and> n_id n = i"
proof (induction ns arbitrary: d)
  case (Cons m ns)
  show ?case
    by (rule Cons.IH [of "dset d (n_id m) m"]) (use Cons.prems in \<open>auto split: if_splits\<close>)
qed simp

lemma nodes_index_SomeD: "dget (nodes_index w) i = Some n \<Longrightarrow> n \<in> set (w_nodes w) \<and> n_id n = i"
  unfolding nodes_index_def by (rule nodes_index_fold [of "[]"]) auto

lemma handle_out_SomeD: "handle_out p outs = Some t \<Longrightarrow> t \<in> fst ` set outs"
  by (force simp: handle_out_def dest!: find_SomeD)

lemma first_out_SomeD: "first_out outs = Some t \<Longrightarrow> t \<in> fst ` set outs"
  by (auto simp: first_out_def split: list.splits)

definition next_of :: "node_eval \<Rightarrow> string option" where
  "next_of e = (case e of Step n \<Rightarrow> n | Act n \<Rightarrow> n | Pause _ n \<Rightarrow> n | Fail _ \<Rightarrow> None)"

lemma eval_node_next:
  "next_of (snd (eval_node node cur outs ctx trace)) = Some t \<Longrightarrow> t \<in> fst ` set outs"
  by (auto simp: eval_node_def next_of_def Let_def split: if_splits sum.splits
      dest: handle_out_SomeD first_out_SomeD)

lemma eval_node_Act: "snd (eval_node node cur outs ctx trace) = Act nxt \<Longrightarrow> n_type node = ''action''"
  by (auto simp: eval_node_def Let_def split: if_splits sum.splits)

lemma out_edges_link: "t \<in> fst ` set (out_edges w c) \<longleftrightarrow> (c, t) \<in> set (edge_links w)"
  by (auto simp: out_edges_def edge_links_def image_iff)

text \<open>The loop invariant: what was collected lies among the visited nodes.\<close>

definition walk_inv :: "wdef \<Rightarrow> string set \<Rightarrow> string list \<Rightarrow> wnode list \<Rightarrow> bool" where
  "walk_inv w R visited actions \<longleftrightarrow> distinct (map n_id actions) \<and> n_id ` set actions \<subseteq> set visited
     \<and> (\<forall>a \<in> set actions. n_type a = ''action'' \<and> a \<in> set (w_nodes w) \<and> n_id a \<in> R)"

lemma walk_inv_skip: "walk_inv w R visited actions \<Longrightarrow> walk_inv w R (c # visited) actions"
  by (auto simp: walk_inv_def)

lemma walk_inv_act:
  "walk_inv w R visited actions \<Longrightarrow> c \<notin> set visited \<Longrightarrow> c \<in> R \<Longrightarrow> n_type node = ''action'' \<Longrightarrow>
   node \<in> set (w_nodes w) \<Longrightarrow> n_id node = c \<Longrightarrow> walk_inv w R (c # visited) (actions @ [node])"
  by (auto simp: walk_inv_def)

lemma eval_done_sel [simp]:
  "g_actions (eval_done a t) = a" "g_resume_node_id (eval_done a t) = None"
  "g_error (eval_done a t) = None" "g_paused (eval_done a t) = False"
  "g_matched (eval_done a t) = (a \<noteq> [])"
  by (auto simp: eval_done_def)

lemma eval_failed_sel [simp]:
  "g_actions (eval_failed a t x) = a" "g_resume_node_id (eval_failed a t x) = None"
  "g_error (eval_failed a t x) = Some x" "g_paused (eval_failed a t x) = False"
  "g_matched (eval_failed a t x) = False"
  by (auto simp: eval_failed_def)

definition closed_under :: "wdef \<Rightarrow> string set \<Rightarrow> bool" where
  "closed_under w R \<longleftrightarrow> (\<forall>l \<in> set (edge_links w). fst l \<in> R \<longrightarrow> snd l \<in> R)"

lemma walk_graph_inv:
  assumes "closed_under w R"
  shows "walk_inv w R visited actions \<Longrightarrow> set_option cur \<subseteq> R \<Longrightarrow>
    (\<exists>visited'. walk_inv w R visited' (g_actions (walk_graph w ctx cur visited actions trace)))
    \<and> set_option (g_resume_node_id (walk_graph w ctx cur visited actions trace)) \<subseteq> R"
  using assms
proof (induction w ctx cur visited actions trace rule: walk_graph.induct)
  case (1 w ctx cur visited actions trace)
  show ?case
  proof (cases "\<exists>c node. cur = Some c \<and> c \<notin> set visited \<and> dget (nodes_index w) c = Some node")
    case False
    then show ?thesis using 1(3) by (subst (1 2) walk_graph.simps) (auto split: option.splits)
  next
    case True
    then obtain c node where c: "cur = Some c" "c \<notin> set visited" "dget (nodes_index w) c = Some node"
      by blast
    define r where "r = eval_node node c (out_edges w c) ctx trace"
    have nxt: "set_option (next_of (snd r)) \<subseteq> R"
      using eval_node_next [of node c "out_edges w c" ctx trace] 1(4,5) c(1) out_edges_link [of _ w c]
      by (fastforce simp: r_def closed_under_def)
    have node: "node \<in> set (w_nodes w)" "n_id node = c" using nodes_index_SomeD [OF c(3)] by auto
    have act: "walk_inv w R (c # visited) (actions @ [node])" if "snd r = Act n" for n
      using walk_inv_act [OF 1(3) c(2)] 1(4) c(1) node eval_node_Act [of node c] that by (simp add: r_def)
    show ?thesis
    proof (cases "snd r")
      case (Step n)
      then show ?thesis
        using 1(1) [OF c r_def Step walk_inv_skip [OF 1(3)] _ 1(5)] nxt c r_def
        by (subst (1 2) walk_graph.simps) (simp add: next_of_def Let_def)
    next
      case (Act n)
      then show ?thesis
        using 1(2) [OF c r_def Act act [OF Act] _ 1(5)] nxt c r_def
        by (subst (1 2) walk_graph.simps) (simp add: next_of_def Let_def)
    next
      case (Pause secs n)
      then show ?thesis
        using 1(3) nxt c r_def by (subst (1 2) walk_graph.simps) (auto simp: next_of_def Let_def)
    next
      case (Fail x)
      then show ?thesis
        using 1(3) c r_def by (subst (1 2) walk_graph.simps) (auto simp: Let_def)
    qed
  qed
qed

lemma walk_graph_status:
  "(g_error (walk_graph w ctx cur visited actions trace) \<noteq> None \<longrightarrow>
      \<not> g_matched (walk_graph w ctx cur visited actions trace)
      \<and> \<not> g_paused (walk_graph w ctx cur visited actions trace))
   \<and> (g_error (walk_graph w ctx cur visited actions trace) = None \<longrightarrow>
      g_matched (walk_graph w ctx cur visited actions trace)
        = (g_paused (walk_graph w ctx cur visited actions trace)
           \<or> g_actions (walk_graph w ctx cur visited actions trace) \<noteq> []))"
proof (induction w ctx cur visited actions trace rule: walk_graph.induct)
  case (1 w ctx cur visited actions trace)
  then show ?case
    by (subst (1 2 3 4 5 6 7) walk_graph.simps) (auto simp: Let_def split: option.splits node_eval.splits)
qed

lemma closed_reachable: "closed_under w (set (forward_reachable_nodes w [s]))"
  by (auto simp: closed_under_def forward_reachable_nodes_def intro: walk.edge_closed)

lemma closed_UNIV: "closed_under w UNIV"
  by (simp add: closed_under_def)

lemma walk_inv_Nil: "walk_inv w R [] []"
  by (simp add: walk_inv_def)

lemma evaluate_graph_inv:
  "\<exists>visited. walk_inv w UNIV visited (g_actions (evaluate_graph w ctx st))"
  using walk_graph_inv [OF closed_UNIV walk_inv_Nil] walk_inv_Nil [of w UNIV]
  by (auto simp: evaluate_graph_def split: option.splits)

text \<open>The node a walk begins at: the one it is resumed at, or the trigger.\<close>

definition walk_start :: "wdef \<Rightarrow> string option \<Rightarrow> string option" where
  "walk_start w st = (case st of Some s \<Rightarrow> Some s
     | None \<Rightarrow> map_option n_id (find (\<lambda>n. n_type n = ''trigger'') (map snd (nodes_index w))))"

lemma evaluate_graph_start:
  "evaluate_graph w ctx st = (case walk_start w st of None \<Rightarrow> eval_failed [] [] NoTriggerNode
     | Some s \<Rightarrow> walk_graph w ctx (Some s) [] [] [])"
  by (simp add: evaluate_graph_def walk_start_def split: option.split)

text \<open>
  C39. On every graph, cyclic or malformed, the walker returns; it collects each action node at most
  once, only action nodes of the definition, and only nodes a path of edges joins to the node the walk begins at: the
  given one, or the trigger. The node to resume at after a delay is reachable from there as well, and without a trigger
  nothing is collected.
\<close>

theorem evaluate_graph_actions:
  "distinct (map n_id (g_actions (evaluate_graph w ctx st)))
   \<and> (\<forall>a \<in> set (g_actions (evaluate_graph w ctx st)). n_type a = ''action'' \<and> a \<in> set (w_nodes w))
   \<and> n_id ` set (g_actions (evaluate_graph w ctx st)) \<union> set_option (g_resume_node_id (evaluate_graph w ctx st))
       \<subseteq> (case walk_start w st of None \<Rightarrow> {} | Some s \<Rightarrow> set (forward_reachable_nodes w [s]))"
proof (intro conjI)
  show "n_id ` set (g_actions (evaluate_graph w ctx st)) \<union> set_option (g_resume_node_id (evaluate_graph w ctx st))
       \<subseteq> (case walk_start w st of None \<Rightarrow> {} | Some s \<Rightarrow> set (forward_reachable_nodes w [s]))"
  proof (cases "walk_start w st")
    case None
    then show ?thesis by (simp add: evaluate_graph_start eval_failed_def)
  next
    case (Some s)
    have "set_option (Some s) \<subseteq> set (forward_reachable_nodes w [s])"
      by (simp add: forward_reachable_nodes_def walk.starts_reached)
    from walk_graph_inv [OF closed_reachable walk_inv_Nil this, of ctx "[]"] show ?thesis
      by (auto simp: evaluate_graph_start Some walk_inv_def)
  qed
qed (use evaluate_graph_inv [of w ctx st] in \<open>auto simp: walk_inv_def\<close>)

text \<open>The witness: a loop of two actions.\<close>

definition loop_def :: wdef where
  "loop_def = \<lparr>w_version = 1,
     w_nodes = [\<lparr>n_id = ''t'', n_type = ''trigger'', n_data = []\<rparr>, \<lparr>n_id = ''a'', n_type = ''action'', n_data = []\<rparr>,
                \<lparr>n_id = ''b'', n_type = ''action'', n_data = []\<rparr>],
     w_edges = [\<lparr>e_id = None, e_source = ''t'', e_target = ''a'', e_handle = None\<rparr>,
                \<lparr>e_id = None, e_source = ''a'', e_target = ''b'', e_handle = None\<rparr>,
                \<lparr>e_id = None, e_source = ''b'', e_target = ''a'', e_handle = None\<rparr>]\<rparr>"

theorem evaluate_graph_actions_witness:
  "map n_id (g_actions (evaluate_graph loop_def JNull None)) = [''a'', ''b'']
   \<and> {''a'', ''b''} \<subseteq> set (forward_reachable_nodes loop_def [''t''])"
proof -
  have run: "map n_id (g_actions (evaluate_graph loop_def JNull None)) = [''a'', ''b'']" and start: "walk_start loop_def None = Some ''t''"
    by (simp_all add: evaluate_graph_def walk_graph.simps nodes_index_def loop_def_def eval_node_def out_edges_def
        first_out_def Let_def walk_start_def)
  then have "n_id ` set (g_actions (evaluate_graph loop_def JNull None)) = {''a'', ''b''}"
    by (metis list.set_map empty_set list.simps(15))
  then show ?thesis
    using run evaluate_graph_actions [of loop_def JNull None] start by simp
qed

text \<open>
  An exception in a condition, a switch or a delay never escapes the walker: it is reported as
  the evaluation's error, which is then neither matched nor paused; without an error the
  evaluation matched exactly when it paused at a delay or collected an action.
\<close>

theorem evaluate_graph_error_contained:
  "(g_error (evaluate_graph w ctx st) \<noteq> None \<longrightarrow>
      \<not> g_matched (evaluate_graph w ctx st) \<and> \<not> g_paused (evaluate_graph w ctx st))
   \<and> (g_error (evaluate_graph w ctx st) = None \<longrightarrow>
      g_matched (evaluate_graph w ctx st)
        = (g_paused (evaluate_graph w ctx st) \<or> g_actions (evaluate_graph w ctx st) \<noteq> []))"
  using walk_graph_status by (simp add: evaluate_graph_def split: option.split)

text \<open>The witness: a condition with an unknown operator.\<close>

definition bad_condition_def :: wdef where
  "bad_condition_def = \<lparr>w_version = 1, w_nodes = [\<lparr>n_id = ''c'', n_type = ''condition'',
     n_data = [(''expr'', JObj [(''nope'', JNull)])]\<rparr>], w_edges = []\<rparr>"

theorem evaluate_graph_error_contained_witness:
  "g_error (evaluate_graph bad_condition_def JNull (Some ''c'')) = Some (Raised (UnsupportedOperator ''nope''))
   \<and> \<not> g_matched (evaluate_graph bad_condition_def JNull (Some ''c''))"
proof -
  have e: "g_error (evaluate_graph bad_condition_def JNull (Some ''c'')) = Some (Raised (UnsupportedOperator ''nope''))"
    by (simp add: evaluate_graph_def walk_graph.simps nodes_index_def bad_condition_def_def eval_node_def
        eval_expr_def jget_def json_logic.simps operands_def apply_op_def Let_def)
  then show ?thesis using evaluate_graph_error_contained [of bad_condition_def JNull "Some ''c''"] by simp
qed

subsection \<open>Schedules fire once and stay due until fired\<close>

text \<open>The effective schedule: a cron expression, a period in microseconds, or none.\<close>

datatype due_rule = Never | Cron string | Every int

definition due_rule_of :: "json \<Rightarrow> (py_exc, due_rule) result" where
  "due_rule_of schedule =
     (case schedule of
        JObj d \<Rightarrow> (case cron_of d of Some e \<Rightarrow> Inr (Cron e)
          | None \<Rightarrow> bind_res (schedule_as_int (jget d ''every_seconds'')) (\<lambda>s.
              if s > 0 then bind_res (timedelta_seconds s) (\<lambda>p. Inr (Every p))
              else bind_res (schedule_as_int (jget d ''every_minutes'')) (\<lambda>m.
                if m \<le> 0 then Inr Never else bind_res (timedelta_seconds (60 * m)) (\<lambda>p. Inr (Every p)))))
      | _ \<Rightarrow> Inr Never)"

definition rule_due :: "(string \<Rightarrow> int \<Rightarrow> int option) \<Rightarrow> due_rule \<Rightarrow> int option \<Rightarrow> int \<Rightarrow> bool" where
  "rule_due cron r last_run now = (case r of Never \<Rightarrow> False | Cron e \<Rightarrow> cron_due cron e last_run now
     | Every p \<Rightarrow> interval_due p last_run now)"

lemma is_schedule_due_rule:
  "is_schedule_due cron schedule last_run now =
     bind_res (due_rule_of schedule) (\<lambda>r. Inr (rule_due cron r last_run now))"
proof -
  have bind2: "bind_res (bind_res r f) g = bind_res r (\<lambda>a. bind_res (f a) g)"
    for r :: "(py_exc, int) result" and f and g :: "due_rule \<Rightarrow> (py_exc, bool) result"
    by (cases r) auto
  show ?thesis
    by (auto simp: is_schedule_due_def due_rule_of_def rule_due_def bind2 split: json.splits option.splits
        intro!: bind_res_cong)
qed

lemma due_rule_period: "due_rule_of schedule = Inr (Every p) \<Longrightarrow> 0 < p"
  by (auto simp: due_rule_of_def result_simps timedelta_seconds_def split: json.splits option.splits if_splits)

text \<open>
  A schedule that is due stays due at every later sweep until it fires (nothing is lost between
  sweeps), and once it has fired at some instant it is not due again at that instant. The two
  facts relied on of the cron library are that its previous boundary is not after the given
  time and does not move backwards.
\<close>

theorem schedule_due_until_fired:
  assumes prev: "\<And>e t b. cron e t = Some b \<Longrightarrow> b \<le> t"
    and mono: "\<And>e t t' b. cron e t = Some b \<Longrightarrow> t \<le> t' \<Longrightarrow> \<exists>b'. cron e t' = Some b' \<and> b \<le> b'"
    and due: "is_schedule_due cron schedule last_run now = Inr True"
  shows "(now \<le> now' \<longrightarrow> is_schedule_due cron schedule last_run now' = Inr True)
     \<and> is_schedule_due cron schedule (Some now) now = Inr False"
proof -
  from due obtain r where r: "due_rule_of schedule = Inr r" "rule_due cron r last_run now"
    by (auto simp: is_schedule_due_rule result_simps)
  have later: "rule_due cron r last_run now'" if "now \<le> now'"
    using r(2) mono [of _ now _ now'] that
    by (fastforce simp: rule_due_def cron_due_def interval_due_def split: due_rule.splits option.splits)
  have fired: "\<not> rule_due cron r (Some now) now"
    using r(1) prev [of _ now] due_rule_period [of schedule]
    by (fastforce simp: rule_due_def cron_due_def interval_due_def split: due_rule.splits option.splits)
  show ?thesis using r(1) later fired by (auto simp: is_schedule_due_rule)
qed

text \<open>The witness: a cron library whose only expression is every minute.\<close>

definition minute_cron :: "string \<Rightarrow> int \<Rightarrow> int option" where
  "minute_cron e t = (if e = ''* * * * *'' then Some (t - t mod 60000000) else None)"

theorem schedule_due_until_fired_witness:
  "is_schedule_due minute_cron (JObj [(''cron'', JStr ''* * * * *'')]) (Some 0) 150000000 = Inr True
   \<and> is_schedule_due minute_cron (JObj [(''cron'', JStr ''* * * * *'')]) (Some 150000000) 150000000 = Inr False"
proof -
  have due: "is_schedule_due minute_cron (JObj [(''cron'', JStr ''* * * * *'')]) (Some 0) 150000000 = Inr True"
    by (simp add: is_schedule_due_def cron_of_def jget_def strip_def is_space_def char_code_def cron_due_def
        minute_cron_def)
  have mono: "t - t mod 60000000 \<le> t' - t' mod 60000000" if "t \<le> t'" for t t' :: int
    using zdiv_mono1 [OF that, of 60000000] by (simp add: minus_mod_eq_mult_div)
  have prev: "\<And>e t b. minute_cron e t = Some b \<Longrightarrow> b \<le> t"
    by (auto simp: minute_cron_def split: if_splits)
  have step: "\<And>e t t' b. minute_cron e t = Some b \<Longrightarrow> t \<le> t' \<Longrightarrow> \<exists>b'. minute_cron e t' = Some b' \<and> b \<le> b'"
    using mono by (auto simp: minute_cron_def split: if_splits)
  show ?thesis
  proof
    show "is_schedule_due minute_cron (JObj [(''cron'', JStr ''* * * * *'')]) (Some 150000000) 150000000 = Inr False"
      by (rule schedule_due_until_fired [THEN conjunct2, OF _ _ due]) (use prev step in blast)+
  qed (rule due)
qed

text \<open>
  A schedule whose interval exceeds what a \<open>timedelta\<close> can hold is not reported as \<open>not due\<close>:
  the check raises, whatever else the sweep is doing.
\<close>

theorem schedule_overflow_raises:
  "n \<ge> 86400000000000 \<Longrightarrow>
   is_schedule_due cron (JObj [(''every_seconds'', JInt n)]) last_run now = Inl OverflowError"
  by (simp add: is_schedule_due_def cron_of_def jget_def schedule_as_int_def is_bool_def is_number_def
      py_int_def timedelta_seconds_def)

theorem schedule_overflow_raises_witness:
  "is_schedule_due minute_cron (JObj [(''every_seconds'', JInt 86400000000000)]) None 0 = Inl OverflowError"
  by (rule schedule_overflow_raises) simp

subsection \<open>Manual inputs are the declared ones, well-typed\<close>

definition has_type :: "input_type \<Rightarrow> json \<Rightarrow> bool" where
  "has_type t v = (case t of TNumber \<Rightarrow> (case v of JInt _ \<Rightarrow> True | JFloat _ \<Rightarrow> True | _ \<Rightarrow> False)
     | TBoolean \<Rightarrow> (case v of JBool _ \<Rightarrow> True | _ \<Rightarrow> False)
     | TText \<Rightarrow> (case v of JStr _ \<Rightarrow> True | _ \<Rightarrow> False))"

lemma coerce_value_typed: "coerce_value spec v = Inr x \<Longrightarrow> has_type (is_type spec) x"
  by (auto simp: coerce_value_def has_type_def split: input_type.splits sum.splits json.splits if_splits)

lemma collect_specs_keys:
  "distinct (map is_key (collect_specs items seen)) \<and> is_key ` set (collect_specs items seen) \<inter> set seen = {}
   \<and> (\<forall>s \<in> set (collect_specs items seen). key_ok (is_key s))"
  by (induction items seen rule: collect_specs.induct) (auto simp: Let_def split: json.splits)

text \<open>What the coercion loop adds: one typed value per declared key.\<close>

definition blank :: "jdict \<Rightarrow> string \<Rightarrow> bool" where
  "blank raw k \<longleftrightarrow> dget raw k = None \<or> dget raw k = Some JNull \<or> dget raw k = Some (JStr [])"

lemma coerce_loop_keeps:
  "coerce_loop specs raw result = Inr out \<Longrightarrow> k \<notin> is_key ` set specs \<Longrightarrow> dget out k = dget result k"
  by (induction specs raw result rule: coerce_loop.induct)
    (auto simp: result_simps split: option.splits if_splits)

lemma coerce_loop_declared:
  "coerce_loop specs raw result = Inr out \<Longrightarrow> spec \<in> set specs \<Longrightarrow> distinct (map is_key specs) \<Longrightarrow>
   dget result (is_key spec) = None \<Longrightarrow>
   (if blank raw (is_key spec) then \<not> is_required spec \<and> dget out (is_key spec) = None
    else \<exists>v x. dget raw (is_key spec) = Some v \<and> coerce_value spec v = Inr x \<and> dget out (is_key spec) = Some x)"
proof (induction specs arbitrary: result)
  case (Cons s specs)
  show ?case
  proof (cases "spec = s")
    case True
    then show ?thesis
      using Cons.prems coerce_loop_keeps [of specs raw _ out "is_key s"]
      by (auto simp: blank_def result_simps split: option.splits if_splits)
  next
    case False
    with Cons.prems(2) have mem: "spec \<in> set specs" by simp
    with Cons.prems(3) have "is_key spec \<noteq> is_key s" by (auto simp: image_iff)
    then obtain result' where "coerce_loop specs raw result' = Inr out" "dget result' (is_key spec) = None"
      using Cons.prems(1,4) by (auto simp: result_simps split: option.splits if_splits)
    then show ?thesis using Cons.IH [of result'] mem Cons.prems(3) by (simp del: ex_simps)
  qed
qed simp

text \<open>
  C40. When the coercion of a manual run's payload succeeds, the result holds only keys the trigger
  declares, one for each declared input the caller filled in and for no other; every value
  has its declared type, and no required input is missing or blank.
\<close>

theorem coerce_inputs_sound:
  assumes "declared_inputs w = Inr specs" "coerce_inputs w raw = Inr out"
  shows "set (dkeys out) \<subseteq> is_key ` set specs
    \<and> (\<forall>spec \<in> set specs.
         (dget out (is_key spec) = None \<longleftrightarrow> blank raw (is_key spec))
         \<and> (is_required spec \<longrightarrow> \<not> blank raw (is_key spec))
         \<and> (\<forall>x. dget out (is_key spec) = Some x \<longrightarrow> has_type (is_type spec) x))"
proof -
  have loop: "coerce_loop specs raw [] = Inr out" and dist: "distinct (map is_key specs)"
    using assms collect_specs_keys by (auto simp: coerce_inputs_def declared_inputs_def result_simps)
  have keys: "k \<in> is_key ` set specs" if "k \<in> set (dkeys out)" for k
    using coerce_loop_keeps [OF loop, of k] that dget_None_iff [of out k] by auto
  have "(dget out (is_key spec) = None \<longleftrightarrow> blank raw (is_key spec))
         \<and> (is_required spec \<longrightarrow> \<not> blank raw (is_key spec))
         \<and> (\<forall>x. dget out (is_key spec) = Some x \<longrightarrow> has_type (is_type spec) x)" if "spec \<in> set specs" for spec
    using coerce_loop_declared [OF loop that dist] coerce_value_typed [of spec] by (auto split: if_splits)
  with keys show ?thesis by blast
qed

text \<open>The witness: one required boolean, and an undeclared key that is dropped.\<close>

definition manual_def :: wdef where
  "manual_def = \<lparr>w_version = 2, w_nodes = [\<lparr>n_id = ''t'', n_type = ''trigger'',
     n_data = [(''source'', JStr ''manual''), (''inputs'', JList [JObj [(''key'', JStr ''go''),
       (''type'', JStr ''boolean''), (''required'', JBool True)]])]\<rparr>], w_edges = []\<rparr>"

theorem coerce_inputs_sound_witness:
  "coerce_inputs manual_def [(''go'', JStr ''yes''), (''x'', JInt 1)] = Inr [(''go'', JBool True)]
   \<and> set (dkeys [(''go'', JBool True)]) \<subseteq> {''go''}"
proof -
  have d: "declared_inputs manual_def = Inr [\<lparr>is_key = ''go'', is_label = ''go'', is_type = TBoolean,
      is_required = True\<rparr>]"
    by (simp add: declared_inputs_def manual_def_def trigger_data_of_def jget_def py_or_def py_iter_def
        py_str_def strip_def is_space_def char_code_def key_ok_def key_char_def input_type_of_def Let_def)
  have c: "coerce_inputs manual_def [(''go'', JStr ''yes''), (''x'', JInt 1)] = Inr [(''go'', JBool True)]"
    by (simp add: coerce_inputs_def d coerce_value_def lower_def lower_char_def strip_def is_space_def
        char_code_def chr_of_def)
  show ?thesis using c coerce_inputs_sound [OF d c] by simp
qed

text \<open>
  Who may run a workflow by hand: an org admin always; anyone else exactly when the
  permission's mode is \<open>any_member\<close>, or it is \<open>roles\<close> and one of the member's roles or groups is
  listed. An absent permission, or an unknown mode, admits admins only.
\<close>

theorem can_run_iff:
  assumes "id_strings (jget perm ''role_ids'') = Inr roles" "id_strings (jget perm ''group_ids'') = Inr groups"
  shows "can_run ctx (Some perm) = Inr (oc_is_org_admin ctx \<or> jget perm ''mode'' = JStr ''any_member''
      \<or> (jget perm ''mode'' = JStr ''roles''
         \<and> (set roles \<inter> set (oc_roles ctx) \<noteq> {} \<or> set groups \<inter> set (oc_groups ctx) \<noteq> {})))
    \<and> can_run ctx None = Inr (oc_is_org_admin ctx)"
  using assms by (auto simp: can_run_def jget_def Let_def list_ex_iff split: option.splits)

theorem can_run_iff_witness:
  "can_run \<lparr>oc_is_org_admin = False, oc_roles = [''r1''], oc_groups = []\<rparr>
     (Some [(''mode'', JStr ''roles''), (''role_ids'', JList [JStr ''r1'', JStr ''r2''])]) = Inr True"
  using can_run_iff [of "[(''mode'', JStr ''roles''), (''role_ids'', JList [JStr ''r1'', JStr ''r2''])]"
      "[''r1'', ''r2'']" "[]" "\<lparr>oc_is_org_admin = False, oc_roles = [''r1''], oc_groups = []\<rparr>"]
  by (simp add: id_strings_def jget_def py_or_def py_iter_def py_str_def)

end
