(* ===== verification/Wf_Engine.thy ===== *)
theory Wf_Engine
  imports Wf_State Wf_Values Wf_Eval
begin

section \<open>The token engine\<close>

text \<open>
  \<open>services/workflow/engine.py\<close>: a run advances as durable tokens. \<open>dispatch\<close> executes the node
  a token sits at and says what happened to the token, \<open>apply_outcome\<close> writes that to the
  token table, \<open>settle_run\<close> derives the run's status. What the engine does not compute
  itself is a field of \<open>env\<close>, read at the current tick of the database: the clock, whether
  the advisory lock of a run is free, the outcome of an action handler and the random source
  of the backoff. An exception that escapes is the \<open>Inl\<close> case.

  A call activity starts a child run and drives it from inside the dispatch of its node, so
  driving is recursive; \<open>drive_run_d\<close> carries the number of nested calls that may still
  happen and is started with \<open>DRIVE_FUEL\<close>, one more than \<open>MAX_TOKEN_DEPTH\<close>, which the engine
  itself enforces; running out of it is the value \<open>Inl OutOfFuel\<close>.
\<close>

subsection \<open>Limits, environment, outcomes\<close>

definition MAX_TOKENS_PER_RUN :: nat where "MAX_TOKENS_PER_RUN = 500"
definition MAX_TOKEN_DEPTH :: nat where "MAX_TOKEN_DEPTH = 32"
definition LEASE_TTL_SECONDS :: int where "LEASE_TTL_SECONDS = 300"
definition MAX_PASSES :: nat where "MAX_PASSES = 2000"
definition DRIVE_FUEL :: nat where "DRIVE_FUEL = 33"

definition SIGNALABLE_WAIT_KINDS :: "wait_kind list" where
  "SIGNALABLE_WAIT_KINDS = [WUserTask, WReceive, WSubprocess, WEventBased]"

record action_request =
  aq_org :: nat
  aq_type :: string
  aq_config :: json
  aq_record :: "nat option"
  aq_before :: json
  aq_after :: json
  aq_inputs :: json
  aq_vars :: jdict
  aq_entity :: "nat option"
  aq_run :: nat
  aq_node :: string

text \<open>\<open>ActionExecutor.execute\<close> never raises: a failure is a result with \<open>ok = False\<close>.\<close>

record action_result =
  ar_ok :: bool
  ar_output :: json
  ar_error :: "string option"

record env =
  e_now :: "nat \<Rightarrow> int"
  e_lock :: "nat \<Rightarrow> nat \<Rightarrow> bool"
  e_exec :: "nat \<Rightarrow> action_request \<Rightarrow> action_result"
  e_uniform :: "nat \<Rightarrow> pyfloat \<Rightarrow> pyfloat"
  e_max_run_steps :: nat
  e_worker :: string

datatype engine_exc = Exn py_exc | InvalidDefinition parse_error | OutOfFuel

datatype outcome_kind = KAdvance | KEmit | KPark | KNoop | KComplete | KTerminate | KFail

record node_outcome =
  o_kind :: outcome_kind
  o_targets :: "(string \<times> string option) list"
  o_wait :: "wait_kind option"
  o_resume_at :: "int option"
  o_corr :: "string option"
  o_token_data :: "jdict option"
  o_variables :: "jdict option"
  o_error :: "string option"

definition outcome :: "outcome_kind \<Rightarrow> node_outcome" where
  "outcome k = \<lparr>o_kind = k, o_targets = [], o_wait = None, o_resume_at = None, o_corr = None,
     o_token_data = None, o_variables = None, o_error = None\<rparr>"

definition advance_to :: "(string \<times> string option) list \<Rightarrow> node_outcome" where
  "advance_to ts = (outcome KAdvance)\<lparr>o_targets := ts\<rparr>"

definition fail_with :: "string \<Rightarrow> node_outcome" where
  "fail_with err = (outcome KFail)\<lparr>o_error := Some err\<rparr>"

definition now_of :: "env \<Rightarrow> db \<Rightarrow> int" where
  "now_of env db = e_now env (d_tick db)"

definition exn :: "(py_exc, 'a) result \<Rightarrow> (engine_exc, 'a) result" where
  "exn r = (case r of Inl x \<Rightarrow> Inl (Exn x) | Inr a \<Rightarrow> Inr a)"

text \<open>\<open>{k: v for k, v in d.items() if k not in keys}\<close>.\<close>

definition without :: "string list \<Rightarrow> jdict \<Rightarrow> jdict" where
  "without keys d = filter (\<lambda>kv. fst kv \<notin> set keys) d"

text \<open>\<open>now + timedelta(seconds=n)\<close>: both the duration and the date can overflow.\<close>

definition MAX_DATETIME :: int where "MAX_DATETIME = 253402300799999999"

definition add_us :: "int \<Rightarrow> int \<Rightarrow> (py_exc, int) result" where
  "add_us now us = (if now + us > MAX_DATETIME then Inl OverflowError else Inr (now + us))"

definition after_seconds :: "int \<Rightarrow> int \<Rightarrow> (py_exc, int) result" where
  "after_seconds now n = bind_res (timedelta_seconds n) (add_us now)"

definition after_float_seconds :: "int \<Rightarrow> pyfloat \<Rightarrow> (py_exc, int) result" where
  "after_float_seconds now f =
     (case f of Fin q \<Rightarrow> add_us now (round_half_even (q * 1000000)) | NaN \<Rightarrow> Inl ValueError | _ \<Rightarrow> Inl OverflowError)"

definition capture_of :: "wnode \<Rightarrow> string option" where
  "capture_of node = (case jget (n_data node) ''capture'' of JStr s \<Rightarrow> if s = [] then None else Some s | _ \<Rightarrow> None)"

definition captured :: "wnode \<Rightarrow> json \<Rightarrow> jdict option" where
  "captured node v = map_option (\<lambda>k. [(k, v)]) (capture_of node)"

definition expr_context :: "env \<Rightarrow> wrun \<Rightarrow> db \<Rightarrow> json" where
  "expr_context env run db =
     JObj [(''before'', jget (r_snapshot run) ''before''),
           (''after'', jget (r_snapshot run) ''after''),
           (''inputs'', py_or (jget (r_snapshot run) ''inputs'') (JObj [])),
           (''vars'', JObj (r_variables run)),
           (''now'', JStr (iso_format (now_of env db))),
           (''today'', JStr (iso_date (now_of env db)))]"

definition load_def :: "wdef \<Rightarrow> (engine_exc, wdef) result" where
  "load_def w = (case parse_def w of Inl x \<Rightarrow> Inl (InvalidDefinition x) | Inr d \<Rightarrow> Inr (normalize d))"

subsection \<open>Steps\<close>

definition record_step ::
  "env \<Rightarrow> wrun \<Rightarrow> wnode \<Rightarrow> nat \<Rightarrow> step_status \<Rightarrow> json option \<Rightarrow> db \<Rightarrow> db \<times> nat" where
  "record_step env run node tok status outp db =
     (let r = allocate_step_index run db; index = snd r;
          action = py_str (py_or (jget (n_data node) ''action_type'') (py_or (task_type node) (JStr (n_type node))));
          db1 = add_step run (n_id node) action index tok (fst r);
          db2 = upd_step (r_id run) index (\<lambda>s. s\<lparr>s_status := status,
             s_output := (case outp of Some v \<Rightarrow> v | None \<Rightarrow> s_output s),
             s_finished_at := (if status \<in> {SSucceeded, SSkipped, SFailed} then Some (now_of env db)
                               else s_finished_at s)\<rparr>) db1 in
      (db2, index))"

subsection \<open>Run settlement\<close>

definition run_status_str :: "run_status \<Rightarrow> string" where
  "run_status_str s = (case s of RRunning \<Rightarrow> ''running'' | RWaiting \<Rightarrow> ''waiting'' | RSucceeded \<Rightarrow> ''succeeded''
     | RFailed \<Rightarrow> ''failed'' | RSkipped \<Rightarrow> ''skipped'')"

definition parked_call :: "nat \<Rightarrow> nat \<Rightarrow> token \<Rightarrow> bool" where
  "parked_call org i t \<longleftrightarrow> tk_id t = i \<and> tk_org t = org \<and> tk_status t = Waiting \<and> tk_wait t = Some WSubprocess"

definition signal_parent :: "nat \<Rightarrow> nat \<Rightarrow> db \<Rightarrow> db" where
  "signal_parent org rid db =
     (case get_run db org rid of
        None \<Rightarrow> db
      | Some run \<Rightarrow>
          (case (r_parent_run run, r_parent_token run) of
             (Some _, Some ptok) \<Rightarrow>
               (let completion = JObj [(''child_run_id'', JStr (show_uuid rid)),
                      (''status'', JStr (run_status_str (r_status run))), (''vars'', JObj (r_variables run))];
                    patch = [(''_completed'', JBool True), (''_completion_output'', completion)] in
                db\<lparr>d_tokens := upd_where (parked_call org ptok)
                     (\<lambda>t. t\<lparr>tk_status := Active, tk_wait := None, tk_lease_owner := None, tk_leased_at := None,
                            tk_data := dmerge (tk_data t) patch\<rparr>) (d_tokens db)\<rparr>)
           | _ \<Rightarrow> db))"

definition finish_run :: "env \<Rightarrow> nat \<Rightarrow> nat \<Rightarrow> run_status \<Rightarrow> db \<Rightarrow> db" where
  "finish_run env org rid status db =
     signal_parent org rid (upd_run rid (\<lambda>r. r\<lparr>r_status := status, r_matched := True,
       r_finished_at := Some (now_of env db)\<rparr>) db)"

definition fail_run :: "env \<Rightarrow> nat \<Rightarrow> nat \<Rightarrow> string \<Rightarrow> db \<Rightarrow> db" where
  "fail_run env org rid err db =
     (let db1 = upd_run rid (\<lambda>r. r\<lparr>r_status := RFailed, r_error := Some err,
            r_finished_at := Some (now_of env db)\<rparr>) db;
          db2 = fst (cancel_runs_for_workflow_run org rid (''workflow run failed: '' @ err) db1) in
      signal_parent org rid db2)"

definition is_terminal :: "run_status \<Rightarrow> bool" where
  "is_terminal s \<longleftrightarrow> s \<in> {RSucceeded, RFailed, RSkipped}"

definition settle_run :: "env \<Rightarrow> nat \<Rightarrow> nat \<Rightarrow> db \<Rightarrow> db" where
  "settle_run env org rid db =
     (case get_run db org rid of
        None \<Rightarrow> db
      | Some run \<Rightarrow>
          if is_terminal (r_status run) then db
          else
            let statuses = map tk_status (list_for_run db org rid) in
            if list_ex (\<lambda>s. s \<in> {Active, Running}) statuses then upd_run rid (\<lambda>r. r\<lparr>r_status := RRunning\<rparr>) db
            else if list_ex (\<lambda>s. s = Waiting) statuses then upd_run rid (\<lambda>r. r\<lparr>r_status := RWaiting\<rparr>) db
            else finish_run env org rid RSucceeded db)"

subsection \<open>Run startup\<close>

definition start_run :: "env \<Rightarrow> wrun \<Rightarrow> wdef \<Rightarrow> db \<Rightarrow> (engine_exc, db) result" where
  "start_run env run definition db =
     bind_res (load_def definition) (\<lambda>model.
       let triggers = filter (\<lambda>n. n_type n = ''trigger'') (w_nodes model) in
       if triggers = [] then Inr (fail_run env (r_org run) (r_id run) ''no trigger node'' db)
       else Inr (fold (\<lambda>n d. create_token (now_of env db) run (n_id n) None None None None 0 d) triggers db))"

subsection \<open>Gateways\<close>

fun first_case :: "json list \<Rightarrow> json \<Rightarrow> (py_exc, json) result" where
  "first_case [] ctx = Inr (JStr ''default'')"
| "first_case (c # cs) ctx =
     bind_res (bind_res (attr_get c ''expr'') (\<lambda>expr. eval_expr expr ctx)) (\<lambda>hit.
       if hit then attr_get c ''handle'' else first_case cs ctx)"

definition route_target :: "json \<Rightarrow> (string \<times> string option) list \<Rightarrow> (string \<times> string option) option" where
  "route_target chosen outs =
     (case find (\<lambda>t. JStr (handle_or ''default'' (snd t)) = chosen) outs of
        Some t \<Rightarrow> Some t
      | None \<Rightarrow> if chosen \<noteq> JStr ''default'' then find (\<lambda>t. handle_or ''default'' (snd t) = ''default'') outs else None)"

definition exclusive_route :: "env \<Rightarrow> wnode \<Rightarrow> wrun \<Rightarrow> wdef \<Rightarrow> db \<Rightarrow> (engine_exc, node_outcome) result" where
  "exclusive_route env node run model db =
     (let outs = out_edges model (n_id node); ctx = expr_context env run db; data = n_data node;
          take_branch = (\<lambda>chosen. case route_target chosen outs of
             None \<Rightarrow> Inr (outcome KComplete) | Some t \<Rightarrow> Inr (advance_to [t])) in
      if outs = [] then Inr (outcome KComplete)
      else if truthy (jget data ''cases'') then
        bind_res (exn (bind_res (py_iter (jget data ''cases'')) (\<lambda>cs. first_case cs ctx))) take_branch
      else if jget data ''expr'' \<noteq> JNull then
        bind_res (exn (json_logic (jget data ''expr'') ctx)) (\<lambda>v.
          take_branch (JStr (if truthy v then ''true'' else ''false'')))
      else Inr (advance_to [hd outs]))"

text \<open>Both joins first buffer the arriving token.\<close>

definition buffer_token :: "nat \<Rightarrow> db \<Rightarrow> db" where
  "buffer_token tok db =
     upd_token tok (\<lambda>t. t\<lparr>tk_status := Waiting, tk_wait := Some WJoin, tk_finished_at := None\<rparr>) db"

definition consume_buffer :: "env \<Rightarrow> nat \<Rightarrow> nat \<Rightarrow> string \<Rightarrow> db \<Rightarrow> db" where
  "consume_buffer env org rid node db =
     db\<lparr>d_tokens := upd_where (is_buffered org rid node WJoin)
          (\<lambda>t. t\<lparr>tk_status := Dead, tk_finished_at := Some (now_of env db)\<rparr>) (d_tokens db)\<rparr>"

definition parallel_join :: "env \<Rightarrow> wnode \<Rightarrow> nat \<Rightarrow> wrun \<Rightarrow> wdef \<Rightarrow> db \<Rightarrow> db \<times> node_outcome" where
  "parallel_join env node tok run model db =
     (let db1 = buffer_token tok db;
          buffered = buffered_at db1 (r_org run) (r_id run) (n_id node) WJoin;
          have_edges = map (\<lambda>t. (tk_from t, tk_via t)) buffered;
          need = incoming_edges model (n_id node) in
      if \<not> list_all (\<lambda>e. (Some (fst e), snd e) \<in> set have_edges) need then (db1, outcome KNoop)
      else (consume_buffer env (r_org run) (r_id run) (n_id node) db1,
            (outcome KEmit)\<lparr>o_targets := out_edges model (n_id node)\<rparr>))"

definition other_live :: "string \<Rightarrow> token \<Rightarrow> bool" where
  "other_live node t \<longleftrightarrow> is_live t \<and> \<not> (tk_node t = node \<and> tk_wait t = Some WJoin)"

definition inclusive_join :: "env \<Rightarrow> wnode \<Rightarrow> nat \<Rightarrow> wrun \<Rightarrow> wdef \<Rightarrow> db \<Rightarrow> db \<times> node_outcome" where
  "inclusive_join env node tok run model db =
     (let db1 = buffer_token tok db;
          others = filter (other_live (n_id node)) (list_for_run db1 (r_org run) (r_id run));
          reachable = forward_reachable_nodes model (map tk_node others) in
      if n_id node \<in> set reachable then (db1, outcome KNoop)
      else (consume_buffer env (r_org run) (r_id run) (n_id node) db1,
            (outcome KEmit)\<lparr>o_targets := out_edges model (n_id node)\<rparr>))"

definition dispatch_gateway ::
  "env \<Rightarrow> wnode \<Rightarrow> nat \<Rightarrow> wrun \<Rightarrow> wdef \<Rightarrow> db \<Rightarrow> (engine_exc, db \<times> node_outcome) result" where
  "dispatch_gateway env node tok run model db =
     (let gw = py_or (gateway_type node) (JStr ''exclusive'') in
      if jstr_in gw FORKING_GATEWAY_TYPES \<and> length (incoming_edges model (n_id node)) \<ge> 2 then
        Inr (if gw = JStr ''inclusive'' then inclusive_join env node tok run model db
             else parallel_join env node tok run model db)
      else if jstr_in gw FORKING_GATEWAY_TYPES then Inr (db, advance_to (out_edges model (n_id node)))
      else bind_res (exclusive_route env node run model db) (\<lambda>o1. Inr (db, o1)))"

subsection \<open>Events\<close>

definition dispatch_event ::
  "env \<Rightarrow> wnode \<Rightarrow> token \<Rightarrow> wrun \<Rightarrow> wdef \<Rightarrow> db \<Rightarrow> (engine_exc, db \<times> node_outcome) result" where
  "dispatch_event env node token run model db =
     (let data = n_data node; outs = out_edges model (n_id node);
          position = (case dget data ''position'' of None \<Rightarrow> JStr ''intermediate'' | Some v \<Rightarrow> v) in
      if position = JStr ''end'' then
        (let end_type = py_or (jget data ''end_type'') (py_or (jget data ''event_type'') (JStr ''none'')) in
         if end_type = JStr ''terminate'' then Inr (db, outcome KTerminate)
         else if end_type = JStr ''error'' then
           Inr (db, fail_with (''error end event ('' @ py_str (py_or (jget data ''error_code'') (JStr ''error'')) @ '')''))
         else Inr (db, outcome KComplete))
      else if position = JStr ''intermediate'' then
        (let event_type = jget data ''event_type'' in
         if event_type = JStr ''timer'' then
           (if truthy (jget (tk_data token) ''_timer_armed'') then
              Inr (db, (advance_to outs)\<lparr>o_token_data := Some (without [''_timer_armed''] (tk_data token))\<rparr>)
            else bind_res (exn (resolve_delay_seconds data (expr_context env run db))) (\<lambda>delay.
              bind_res (exn (after_seconds (now_of env db) delay)) (\<lambda>resume_at.
                Inr (db, (outcome KPark)\<lparr>o_wait := Some WTimer, o_resume_at := Some resume_at,
                  o_token_data := Some (dset (tk_data token) ''_timer_armed'' (JBool True))\<rparr>))))
         else if event_type = JStr ''message'' \<or> event_type = JStr ''signal'' then
           Inr (db, (outcome KPark)\<lparr>o_wait := Some WReceive\<rparr>)
         else Inr (db, advance_to outs))
      else Inr (db, advance_to outs))"

subsection \<open>Decision and script tasks\<close>

definition steps_exhausted :: "env \<Rightarrow> wrun \<Rightarrow> bool" where
  "steps_exhausted env run \<longleftrightarrow> r_step_seq run \<ge> e_max_run_steps env"

definition max_steps_error :: "env \<Rightarrow> string" where
  "max_steps_error env = ''max run steps '' @ show_nat (e_max_run_steps env) @ '' exceeded''"

definition publish :: "env \<Rightarrow> wnode \<Rightarrow> nat \<Rightarrow> wrun \<Rightarrow> wdef \<Rightarrow> jdict \<Rightarrow> db \<Rightarrow> db \<times> node_outcome" where
  "publish env node tok run model outputs db =
     (fst (record_step env run node tok SSucceeded (Some (JObj outputs)) db),
      (advance_to (out_edges model (n_id node)))\<lparr>o_variables := (if outputs = [] then None else Some outputs)\<rparr>)"

definition dispatch_decision ::
  "env \<Rightarrow> wnode \<Rightarrow> nat \<Rightarrow> wrun \<Rightarrow> wdef \<Rightarrow> db \<Rightarrow> (engine_exc, db \<times> node_outcome) result" where
  "dispatch_decision env node tok run model db =
     (if steps_exhausted env run then Inr (db, fail_with (max_steps_error env))
      else bind_res (exn (evaluate_decision_table (jget (n_data node) ''decision_table'') (expr_context env run db)))
        (\<lambda>outputs. Inr (publish env node tok run model outputs db)))"

definition dispatch_script ::
  "env \<Rightarrow> wnode \<Rightarrow> nat \<Rightarrow> wrun \<Rightarrow> wdef \<Rightarrow> db \<Rightarrow> (engine_exc, db \<times> node_outcome) result" where
  "dispatch_script env node tok run model db =
     (if steps_exhausted env run then Inr (db, fail_with (max_steps_error env))
      else bind_res (exn (evaluate_transform (jget (n_data node) ''transform'') (expr_context env run db)))
        (\<lambda>outputs. Inr (publish env node tok run model outputs db)))"

subsection \<open>Failures of a task\<close>

definition HANDLE_BOUNDARY :: string where "HANDLE_BOUNDARY = ''boundary''"

definition opt_str :: "string option \<Rightarrow> json" where
  "opt_str s = (case s of None \<Rightarrow> JNull | Some x \<Rightarrow> JStr x)"

text \<open>A caught error travels on the token to the boundary.\<close>

definition to_boundary :: "wnode \<Rightarrow> jdict \<Rightarrow> jdict \<Rightarrow> node_outcome" where
  "to_boundary boundary data error_ctx =
     (advance_to [(n_id boundary, Some HANDLE_BOUNDARY)])\<lparr>o_token_data := Some (dset data ''_error'' (JObj error_ctx))\<rparr>"

definition set_dead_letter :: "nat \<Rightarrow> db \<Rightarrow> db" where
  "set_dead_letter rid db = upd_run rid (\<lambda>r. r\<lparr>r_dead_letter := True\<rparr>) db"

subsection \<open>Action tasks\<close>

definition action_request_of :: "wnode \<Rightarrow> wrun \<Rightarrow> db \<Rightarrow> action_request" where
  "action_request_of node run db =
     \<lparr>aq_org = r_org run, aq_type = py_str (jget (n_data node) ''action_type''),
      aq_config = py_or (jget (n_data node) ''config'') (JObj []), aq_record = r_record run,
      aq_before = jget (r_snapshot run) ''before'', aq_after = jget (r_snapshot run) ''after'',
      aq_inputs = py_or (jget (r_snapshot run) ''inputs'') (JObj []), aq_vars = r_variables run,
      aq_entity = (case get_workflow db (r_org run) (r_workflow run) of Some w \<Rightarrow> wf_entity w | None \<Rightarrow> None),
      aq_run = r_id run, aq_node = n_id node\<rparr>"

definition action_succeeded ::
  "env \<Rightarrow> wnode \<Rightarrow> token \<Rightarrow> wrun \<Rightarrow> wdef \<Rightarrow> action_result \<Rightarrow> nat \<Rightarrow> db \<Rightarrow> db \<times> node_outcome" where
  "action_succeeded env node token run model res index db =
     (let cleared = clear_attempts (tk_data token) (n_id node) in
      (upd_step (r_id run) index (\<lambda>s. s\<lparr>s_status := SSucceeded, s_output := ar_output res,
         s_finished_at := Some (now_of env db)\<rparr>) db,
       (advance_to (out_edges model (n_id node)))\<lparr>
         o_token_data := (if cleared \<noteq> tk_data token then Some cleared else None),
         o_variables := captured node (ar_output res)\<rparr>))"

definition action_failed ::
  "env \<Rightarrow> wnode \<Rightarrow> token \<Rightarrow> wrun \<Rightarrow> wdef \<Rightarrow> action_result \<Rightarrow> nat \<Rightarrow> db \<Rightarrow> (engine_exc, db \<times> node_outcome) result" where
  "action_failed env node token run model res index db =
     bind_res (exn (read_policy (n_data node))) (\<lambda>policy.
       let attempt = attempts_so_far (tk_data token) (n_id node); now = now_of env db in
       if int attempt + 1 < rp_max_attempts policy then
         bind_res (exn (backoff (e_uniform env (d_tick db)) attempt policy)) (\<lambda>retry_delay.
         bind_res (exn (after_float_seconds now retry_delay)) (\<lambda>resume_at.
         bind_res (exn (record_attempt (tk_data token) (n_id node) (attempt + 1))) (\<lambda>data.
           Inr (upd_step (r_id run) index (\<lambda>s. s\<lparr>s_status := SRetrying, s_error := ar_error res,
                  s_attempts := attempt + 1, s_max_attempts := rp_max_attempts policy,
                  s_next_retry_at := Some resume_at, s_finished_at := Some now\<rparr>) db,
                (outcome KPark)\<lparr>o_wait := Some WRetry, o_resume_at := Some resume_at,
                  o_token_data := Some data\<rparr>))))
       else
         let db1 = upd_step (r_id run) index (\<lambda>s. s\<lparr>s_status := SFailed, s_error := ar_error res,
                s_attempts := attempt + 1, s_max_attempts := rp_max_attempts policy,
                s_finished_at := Some now\<rparr>) db in
         case error_boundary_for model (n_id node) None of
           Some boundary \<Rightarrow> Inr (db1, to_boundary boundary (tk_data token)
             [(''node'', JStr (n_id node)), (''message'', opt_str (ar_error res)), (''code'', JNull)])
         | None \<Rightarrow>
             if truthy (jget (n_data node) ''continue_on_error'') then Inr (db1, advance_to (out_edges model (n_id node)))
             else Inr (set_dead_letter (r_id run) db1, (outcome KFail)\<lparr>o_error := ar_error res\<rparr>))"

definition dispatch_action ::
  "env \<Rightarrow> wnode \<Rightarrow> token \<Rightarrow> wrun \<Rightarrow> wdef \<Rightarrow> db \<Rightarrow> (engine_exc, db \<times> node_outcome) result" where
  "dispatch_action env node token run model db =
     (if \<not> truthy (jget (n_data node) ''action_type'') then
        Inr (fst (record_step env run node (tk_id token) SSkipped
               (Some (JObj [(''note'', JStr ''task type not yet supported'')])) db),
             advance_to (out_edges model (n_id node)))
      else if steps_exhausted env run then Inr (db, fail_with (max_steps_error env))
      else
        let st = record_step env run node (tk_id token) SRunning None db;
            res = e_exec env (d_tick db) (action_request_of node run (fst st)) in
        if ar_ok res then Inr (action_succeeded env node token run model res (snd st) (fst st))
        else action_failed env node token run model res (snd st) (fst st))"

subsection \<open>Agent tasks\<close>

definition agent_failure_outcome :: "wnode \<Rightarrow> wdef \<Rightarrow> jdict \<Rightarrow> string \<Rightarrow> string \<Rightarrow> node_outcome" where
  "agent_failure_outcome node model token_data message error_code =
     (case error_boundary_for model (n_id node) (Some error_code) of
        Some boundary \<Rightarrow> to_boundary boundary token_data
          [(''node'', JStr (n_id node)), (''message'', JStr message), (''code'', JStr error_code)]
      | None \<Rightarrow>
          if truthy (jget (n_data node) ''continue_on_error'') then
            (advance_to (out_edges model (n_id node)))\<lparr>o_token_data := Some token_data\<rparr>
          else fail_with message)"

definition agent_setup_failure ::
  "env \<Rightarrow> wnode \<Rightarrow> token \<Rightarrow> wrun \<Rightarrow> wdef \<Rightarrow> string \<Rightarrow> db \<Rightarrow> db \<times> node_outcome" where
  "agent_setup_failure env node token run model message db =
     (let db1 = fst (record_step env run node (tk_id token) SFailed (Some (JObj [(''error'', JStr message)])) db);
          o1 = agent_failure_outcome node model (tk_data token) message ''failed'' in
      (if o_kind o1 = KFail then set_dead_letter (r_id run) db1 else db1, o1))"

definition open_agent_step :: "wrun \<Rightarrow> wnode \<Rightarrow> nat \<Rightarrow> wstep \<Rightarrow> bool" where
  "open_agent_step run node tok s \<longleftrightarrow> s_run s = r_id run \<and> s_org s = r_org run \<and> s_node s = n_id node
     \<and> s_token s = tok \<and> s_status s = SRunning"

definition obj_or_empty :: "json \<Rightarrow> jdict" where
  "obj_or_empty v = (case v of JObj d \<Rightarrow> d | _ \<Rightarrow> [])"

text \<open>The open step with the highest index is settled; without one a fresh step is recorded.\<close>

definition finish_agent_step ::
  "env \<Rightarrow> wrun \<Rightarrow> wnode \<Rightarrow> nat \<Rightarrow> step_status \<Rightarrow> jdict \<Rightarrow> string option \<Rightarrow> db \<Rightarrow> db" where
  "finish_agent_step env run node tok status outp err db =
     (let open_steps = filter (open_agent_step run node tok) (d_steps db) in
      if open_steps = [] then
        (let r = record_step env run node tok status (Some (JObj outp)) db in
         if err \<noteq> None \<and> err \<noteq> Some [] then upd_step (r_id run) (snd r) (\<lambda>s. s\<lparr>s_error := err\<rparr>) (fst r) else fst r)
      else
        let index = Max (set (map s_index open_steps)) in
        upd_step (r_id run) index (\<lambda>s. s\<lparr>s_status := status,
          s_output := JObj (dmerge (obj_or_empty (s_output s)) outp), s_error := err,
          s_finished_at := Some (now_of env db)\<rparr>) db)"

definition review_pct :: "json \<Rightarrow> (py_exc, int) result" where
  "review_pct v = (case py_int (py_or v (JInt 0)) of
     Inl x \<Rightarrow> if x = TypeError \<or> x = ValueError then Inr 0 else Inl x | Inr i \<Rightarrow> Inr i)"

definition maybe_sample_review :: "wrun \<Rightarrow> wnode \<Rightarrow> jdict \<Rightarrow> db \<Rightarrow> (engine_exc, db) result" where
  "maybe_sample_review run node outp db =
     bind_res (exn (review_pct (jget (n_data node) ''review_sample_pct''))) (\<lambda>pct.
       if pct \<le> 0 then Inr db
       else case parse_uuid (py_str (jget outp ''agent_run_id'')) of
           None \<Rightarrow> Inr db
         | Some ar \<Rightarrow>
             if pct < 100 \<and> int (ar mod 100) \<ge> pct then Inr db
             else Inr (db\<lparr>d_notifications := d_notifications db @ [\<lparr>nt_org = r_org run, nt_kind = ''review'',
                 nt_title = ''Sampled for review: agent step '' @ n_id node,
                 nt_body = JObj [(''workflow_run_id'', JStr (show_uuid (r_id run))), (''node_id'', JStr (n_id node)),
                   (''agent_run_id'', JStr (show_uuid ar)), (''result'', py_or (jget outp ''result'') (JObj []))],
                 nt_run = ar, nt_role = ''org_admin''\<rparr>]\<rparr>))"

definition agent_completed ::
  "env \<Rightarrow> wnode \<Rightarrow> token \<Rightarrow> wrun \<Rightarrow> wdef \<Rightarrow> db \<Rightarrow> (engine_exc, db \<times> node_outcome) result" where
  "agent_completed env node token run model db =
     (let data = tk_data token; outp = obj_or_empty (jget data ''_completion_output'');
          cleaned = without [''_completed'', ''_completion_output'', ''_armed'', ''_agent_run_id''] data;
          db1 = finish_agent_step env run node (tk_id token) SSucceeded outp None db in
      bind_res (maybe_sample_review run node outp db1) (\<lambda>db2.
        Inr (db2, (advance_to (out_edges model (n_id node)))\<lparr>o_token_data := Some cleaned,
          o_variables := captured node (py_or (jget outp ''result'') (JObj []))\<rparr>)))"

definition agent_ended_badly ::
  "env \<Rightarrow> wnode \<Rightarrow> token \<Rightarrow> wrun \<Rightarrow> wdef \<Rightarrow> jdict \<Rightarrow> db \<Rightarrow> db \<times> node_outcome" where
  "agent_ended_badly env node token run model agent_result db =
     (let cleaned = without [''_agent_result'', ''_armed'', ''_agent_run_id''] (tk_data token);
          status = py_str (py_or (jget agent_result ''status'') (JStr ''error''));
          msg0 = py_str (py_or (jget agent_result ''error'') (JStr []));
          message = (if msg0 = [] then ''agent run '' @ status else msg0);
          code = (if status = ''escalated'' then ''escalated'' else ''failed'') in
      (finish_agent_step env run node (tk_id token) SFailed agent_result (Some message) db,
       agent_failure_outcome node model cleaned message code))"

text \<open>A token that already enqueued its agent run: the SLA timer fired, or a spurious wake-up.\<close>

definition agent_linked ::
  "env \<Rightarrow> wnode \<Rightarrow> token \<Rightarrow> wrun \<Rightarrow> wdef \<Rightarrow> json \<Rightarrow> db \<Rightarrow> db \<times> node_outcome" where
  "agent_linked env node token run model linked db =
     (let data = tk_data token; repark = (outcome KPark)\<lparr>o_wait := Some WAgent,
            o_corr := Some (py_str linked), o_token_data := Some data\<rparr> in
      if \<not> truthy (jget data ''_armed'') then (db, repark)
      else case timer_boundary_for model (n_id node) of
          None \<Rightarrow> (db, repark)
        | Some boundary \<Rightarrow>
            (let c = (case parse_uuid (py_str linked) of
                   Some i \<Rightarrow> cancel_run (r_org run) i (''workflow SLA timeout at node '' @ n_id node) db
                 | None \<Rightarrow> (db, False));
                 db1 = finish_agent_step env run node (tk_id token) SSkipped
                   [(''timed_out'', JBool True), (''agent_run_id'', JStr (py_str linked)), (''cancelled'', JBool (snd c))]
                   None (fst c);
                 cleaned = without [''_armed'', ''_agent_run_id''] data in
             (db1, (advance_to (out_edges model (n_id boundary)))\<lparr>
                o_token_data := Some (dset cleaned ''_error'' (JObj [(''timeout'', JStr (n_id node))]))\<rparr>)))"

definition agent_binding_error :: "wnode \<Rightarrow> wrun \<Rightarrow> db \<Rightarrow> string option" where
  "agent_binding_error node run db =
     (case parse_uuid (py_str (jget (n_data node) ''agent_id'')) of
        None \<Rightarrow> Some ''agent task requires a valid agent_id''
      | Some i \<Rightarrow>
          (case get_agent db (r_org run) i of
             None \<Rightarrow> Some ''agent missing or disabled''
           | Some agent \<Rightarrow>
               if \<not> ag_enabled agent then Some ''agent missing or disabled''
               else if ag_kind agent \<noteq> ''operator'' then
                 Some (''agent kind '' @ [chr_of 39] @ ag_kind agent @ [chr_of 39] @ '' is not assignable (operator only)'')
               else if ''*'' \<notin> set (ag_invocable agent) \<and> show_uuid (r_workflow run) \<notin> set (ag_invocable agent) then
                 Some ''agent has not opted in to this workflow (workflow_invocable)''
               else if strip (py_str (py_or (jget (n_data node) ''task'') (JStr []))) = [] then
                 Some ''agent task requires a task prompt''
               else None))"

definition agent_input :: "env \<Rightarrow> wnode \<Rightarrow> token \<Rightarrow> wrun \<Rightarrow> db \<Rightarrow> jdict" where
  "agent_input env node token run db =
     [(''task'', JStr (render_template (strip (py_str (py_or (jget (n_data node) ''task'') (JStr []))))
          (expr_context env run db))),
      (''workflow'', JObj
        [(''run_id'', JStr (show_uuid (r_id run))), (''run_created_at'', JStr (iso_format (r_created run))),
         (''token_id'', JStr (show_uuid (tk_id token))), (''token_created_at'', JStr (iso_format (tk_created token))),
         (''node_id'', JStr (n_id node)), (''workflow_id'', JStr (show_uuid (r_workflow run))),
         (''output_schema'', JObj (obj_or_empty (jget (n_data node) ''output_schema''))),
         (''allow_web_research'', JBool (truthy (jget (n_data node) ''allow_web_research'')))])]"

definition agent_first_arrival ::
  "env \<Rightarrow> wnode \<Rightarrow> token \<Rightarrow> wrun \<Rightarrow> wdef \<Rightarrow> db \<Rightarrow> (engine_exc, db \<times> node_outcome) result" where
  "agent_first_arrival env node token run model db =
     (if steps_exhausted env run then Inr (db, fail_with (max_steps_error env))
      else case agent_binding_error node run db of
          Some message \<Rightarrow> Inr (agent_setup_failure env node token run model message db)
        | None \<Rightarrow>
            (let agent = (case parse_uuid (py_str (jget (n_data node) ''agent_id'')) of Some i \<Rightarrow> i | None \<Rightarrow> 0);
                 c = create_agent_run (r_org run) agent ''workflow'' (agent_input env node token run db)
                   (''workflow step '' @ n_id node) (r_id run) (n_id node) (tk_id token) db;
                 ar = snd c;
                 db1 = fst (record_step env run node (tk_id token) SRunning
                   (Some (JObj [(''agent_run_id'', JStr (show_uuid ar)), (''agent_id'', JStr (show_uuid agent))])) (fst c));
                 parked = dset (tk_data token) ''_agent_run_id'' (JStr (show_uuid ar));
                 park = (outcome KPark)\<lparr>o_wait := Some WAgent, o_corr := Some (show_uuid ar)\<rparr> in
             case timer_boundary_for model (n_id node) of
               None \<Rightarrow> Inr (db1, park\<lparr>o_token_data := Some parked\<rparr>)
             | Some boundary \<Rightarrow>
                 bind_res (exn (resolve_delay_seconds (n_data boundary) (expr_context env run db))) (\<lambda>delay.
                 bind_res (exn (after_seconds (now_of env db) delay)) (\<lambda>resume_at.
                   Inr (db1, park\<lparr>o_resume_at := Some resume_at,
                     o_token_data := Some (dset parked ''_armed'' (JBool True))\<rparr>)))))"

definition dispatch_agent ::
  "env \<Rightarrow> wnode \<Rightarrow> token \<Rightarrow> wrun \<Rightarrow> wdef \<Rightarrow> db \<Rightarrow> (engine_exc, db \<times> node_outcome) result" where
  "dispatch_agent env node token run model db =
     (let data = tk_data token in
      if truthy (jget data ''_completed'') then agent_completed env node token run model db
      else case jget data ''_agent_result'' of
          JObj agent_result \<Rightarrow> Inr (agent_ended_badly env node token run model agent_result db)
        | _ \<Rightarrow>
            if truthy (jget data ''_agent_run_id'')
            then Inr (agent_linked env node token run model (jget data ''_agent_run_id'') db)
            else agent_first_arrival env node token run model db)"

subsection \<open>Call activities\<close>

type_synonym totals = "(string \<times> nat) list"
type_synonym driver = "nat \<Rightarrow> nat \<Rightarrow> db \<Rightarrow> (engine_exc, db \<times> totals) result"

definition resolve_call_inputs :: "env \<Rightarrow> wnode \<Rightarrow> wrun \<Rightarrow> db \<Rightarrow> (py_exc, jdict) result" where
  "resolve_call_inputs env node run db =
     bind_res (py_dict (py_or (jget (r_snapshot run) ''inputs'') (JObj []))) (\<lambda>inherited.
       case jget (n_data node) ''call_inputs'' of
         JObj declared \<Rightarrow> Inr (if declared = [] then inherited
           else dmerge inherited (resolve_value_map declared (expr_context env run db)))
       | _ \<Rightarrow> Inr inherited)"

text \<open>The published version the node calls, or why there is none.\<close>

definition call_target :: "wnode \<Rightarrow> wrun \<Rightarrow> db \<Rightarrow> (string, nat \<times> version_row) result" where
  "call_target node run db =
     (case parse_uuid (py_str (jget (n_data node) ''call_workflow_id'')) of
        None \<Rightarrow> Inl ''call task requires a valid call_workflow_id''
      | Some i \<Rightarrow>
          (case get_workflow db (r_org run) i of
             None \<Rightarrow> Inl ''call target workflow not found or has no published version''
           | Some target \<Rightarrow>
               (case wf_active_version target of
                  None \<Rightarrow> Inl ''call target workflow not found or has no published version''
                | Some vid \<Rightarrow>
                    (case get_version db (r_org run) vid of
                       None \<Rightarrow> Inl ''call target has no published version''
                     | Some v \<Rightarrow> if v_status v \<noteq> ''published'' then Inl ''call target has no published version''
                                 else Inr (wf_id target, v)))))"

definition call_snapshot :: "wrun \<Rightarrow> jdict \<Rightarrow> jdict" where
  "call_snapshot run inputs =
     [(''before'', jget (r_snapshot run) ''before''), (''after'', jget (r_snapshot run) ''after''),
      (''inputs'', JObj inputs), (''vars'', JObj (r_variables run))]"

definition call_returned ::
  "env \<Rightarrow> wnode \<Rightarrow> token \<Rightarrow> wrun \<Rightarrow> wdef \<Rightarrow> nat \<Rightarrow> db \<Rightarrow> db \<times> node_outcome" where
  "call_returned env node token run model child db =
     (let fresh = get_run db (r_org run) child;
          child_vars = (case fresh of Some r \<Rightarrow> r_variables r | None \<Rightarrow> []);
          status = (case fresh of Some r \<Rightarrow> r_status r | None \<Rightarrow> RFailed);
          cid = (''child_run_id'', JStr (show_uuid child)) in
      if status = RSucceeded \<or> status = RSkipped then
        (fst (record_step env run node (tk_id token) SSucceeded (Some (JObj [cid, (''vars'', JObj child_vars)])) db),
         (advance_to (out_edges model (n_id node)))\<lparr>o_variables := captured node (JObj child_vars)\<rparr>)
      else if status = RFailed then
        (let db1 = fst (record_step env run node (tk_id token) SFailed (Some (JObj [cid])) db) in
         case error_boundary_for model (n_id node) None of
           Some boundary \<Rightarrow> (db1, to_boundary boundary (tk_data token)
             [(''node'', JStr (n_id node)), (''message'', JStr ''child run failed'')])
         | None \<Rightarrow>
             if truthy (jget (n_data node) ''continue_on_error'') then (db1, advance_to (out_edges model (n_id node)))
             else (set_dead_letter (r_id run) db1, fail_with ''child run failed''))
      else (db, (outcome KPark)\<lparr>o_wait := Some WSubprocess,
              o_token_data := Some (dset (tk_data token) ''_child_run_id'' (JStr (show_uuid child)))\<rparr>))"

definition dispatch_call ::
  "driver \<Rightarrow> env \<Rightarrow> wnode \<Rightarrow> token \<Rightarrow> wrun \<Rightarrow> wdef \<Rightarrow> db \<Rightarrow> (engine_exc, db \<times> node_outcome) result" where
  "dispatch_call drive env node token run model db =
     (if r_depth run \<ge> MAX_TOKEN_DEPTH then
        Inr (db, fail_with (''call depth '' @ show_nat MAX_TOKEN_DEPTH @ '' exceeded''))
      else case call_target node run db of
          Inl message \<Rightarrow> Inr (db, fail_with message)
        | Inr wv \<Rightarrow>
            bind_res (exn (resolve_call_inputs env node run db)) (\<lambda>inputs.
              let c = create_run_if_absent (r_org run) (fst wv) (v_id (snd wv)) (d_next db) (now_of env db) (r_record run)
                    (call_snapshot run inputs) (Suc (r_depth run)) (Some (r_id run)) (Some (tk_id token))
                    (db\<lparr>d_next := Suc (d_next db)\<rparr>) in
              case snd c of
                None \<Rightarrow> Inr (fst c, fail_with ''could not create child run'')
              | Some child \<Rightarrow>
                  bind_res (start_run env child (v_definition (snd wv)) (fst c)) (\<lambda>db1.
                  bind_res (drive (r_org child) (r_id child) db1) (\<lambda>r.
                    Inr (call_returned env node token run model (r_id child) (fst r))))))"

subsection \<open>Wait-state tasks and task dispatch\<close>

definition wait_kind_for :: "json \<Rightarrow> wait_kind" where
  "wait_kind_for task = (if task = JStr ''receive'' then WReceive else WUserTask)"

definition wait_completed :: "env \<Rightarrow> wnode \<Rightarrow> token \<Rightarrow> wrun \<Rightarrow> wdef \<Rightarrow> db \<Rightarrow> db \<times> node_outcome" where
  "wait_completed env node token run model db =
     (let data = tk_data token;
          outp = py_or (jget data ''_completion_output'') (JObj [(''completed'', JBool True)]);
          cleaned = without [''_completed'', ''_completion_output'', ''_armed''] data in
      (fst (record_step env run node (tk_id token) SSucceeded (Some outp) db),
       (advance_to (out_edges model (n_id node)))\<lparr>o_token_data := Some cleaned, o_variables := captured node outp\<rparr>))"

definition park_wait ::
  "env \<Rightarrow> wnode \<Rightarrow> token \<Rightarrow> wrun \<Rightarrow> wdef \<Rightarrow> db \<Rightarrow> (engine_exc, db \<times> node_outcome) result" where
  "park_wait env node token run model db =
     (let data = tk_data token; kind = wait_kind_for (task_type node) in
      case timer_boundary_for model (n_id node) of
        None \<Rightarrow> Inr (db, (outcome KPark)\<lparr>o_wait := Some kind\<rparr>)
      | Some boundary \<Rightarrow>
          if truthy (jget data ''_armed'') then
            Inr (fst (record_step env run node (tk_id token) SSkipped (Some (JObj [(''timed_out'', JBool True)])) db),
                 (advance_to (out_edges model (n_id boundary)))\<lparr>o_token_data :=
                    Some (dset (without [''_armed''] data) ''_error'' (JObj [(''timeout'', JStr (n_id node))]))\<rparr>)
          else
            bind_res (exn (resolve_delay_seconds (n_data boundary) (expr_context env run db))) (\<lambda>delay.
            bind_res (exn (after_seconds (now_of env db) delay)) (\<lambda>resume_at.
              Inr (db, (outcome KPark)\<lparr>o_wait := Some kind, o_resume_at := Some resume_at,
                o_token_data := Some (dset data ''_armed'' (JBool True))\<rparr>))))"

definition dispatch_task ::
  "driver \<Rightarrow> env \<Rightarrow> wnode \<Rightarrow> token \<Rightarrow> wrun \<Rightarrow> wdef \<Rightarrow> db \<Rightarrow> (engine_exc, db \<times> node_outcome) result" where
  "dispatch_task drive env node token run model db =
     (let task = task_type node in
      if jstr_in task WAIT_TASK_TYPES then
        (if truthy (jget (tk_data token) ''_completed'') then Inr (wait_completed env node token run model db)
         else if task = JStr ''call'' \<or> task = JStr ''subProcess'' then
           dispatch_call drive env node token run model db
         else park_wait env node token run model db)
      else if task = JStr ''agent'' then dispatch_agent env node token run model db
      else if task = JStr ''businessRule'' then dispatch_decision env node (tk_id token) run model db
      else if task = JStr ''script'' then dispatch_script env node (tk_id token) run model db
      else dispatch_action env node token run model db)"

definition dispatch ::
  "driver \<Rightarrow> env \<Rightarrow> wnode \<Rightarrow> token \<Rightarrow> wrun \<Rightarrow> wdef \<Rightarrow> db \<Rightarrow> (engine_exc, db \<times> node_outcome) result" where
  "dispatch drive env node token run model db =
     (if n_type node = ''trigger'' then Inr (db, advance_to (out_edges model (n_id node)))
      else if n_type node = ''gateway'' then dispatch_gateway env node (tk_id token) run model db
      else if n_type node = ''event'' then dispatch_event env node token run model db
      else if n_type node = ''task'' then dispatch_task drive env node token run model db
      else Inr (db, advance_to (out_edges model (n_id node))))"

subsection \<open>Applying an outcome\<close>

definition with_data :: "jdict option \<Rightarrow> token \<Rightarrow> token" where
  "with_data d t = (case d of None \<Rightarrow> t | Some x \<Rightarrow> t\<lparr>tk_data := x\<rparr>)"

definition MAX_TOKENS_ERROR :: string where
  "MAX_TOKENS_ERROR = ''max tokens per run '' @ show_nat MAX_TOKENS_PER_RUN @ '' exceeded''"

definition spawn ::
  "env \<Rightarrow> wnode \<Rightarrow> token \<Rightarrow> wrun \<Rightarrow> (string \<times> string option) list \<Rightarrow> db \<Rightarrow> db" where
  "spawn env node token run targets db =
     fold (\<lambda>th d. create_token (now_of env db) run (fst th) (Some (n_id node)) (snd th) (Some (tk_id token))
             (Some (n_id node)) (min (tk_depth token + (if length targets > 1 then 1 else 0)) MAX_TOKEN_DEPTH) d)
       targets db"

definition set_status :: "env \<Rightarrow> token_status \<Rightarrow> nat \<Rightarrow> db \<Rightarrow> db" where
  "set_status env st tok db = upd_token tok (\<lambda>t. t\<lparr>tk_status := st, tk_finished_at := Some (now_of env db)\<rparr>) db"

definition apply_targets ::
  "env \<Rightarrow> node_outcome \<Rightarrow> wnode \<Rightarrow> token \<Rightarrow> wrun \<Rightarrow> db \<Rightarrow> db \<times> totals" where
  "apply_targets env o1 node token run db =
     (let tok = tk_id token; targets = o_targets o1 in
      if token_count db (r_org run) (r_id run) + length targets > MAX_TOKENS_PER_RUN then
        (fail_run env (r_org run) (r_id run) MAX_TOKENS_ERROR (upd_token tok (\<lambda>t. t\<lparr>tk_status := Dead\<rparr>) db),
         [(''failed'', 1)])
      else if o_kind o1 = KAdvance \<and> length targets = 1 then
        (upd_token tok (\<lambda>t. with_data (o_token_data o1) (t\<lparr>tk_node := fst (hd targets), tk_from := Some (n_id node),
            tk_via := snd (hd targets), tk_status := Active, tk_lease_owner := None, tk_leased_at := None\<rparr>)) db,
         [(''advanced'', 1)])
      else
        let db1 = (if o_kind o1 = KAdvance then
              upd_token tok (\<lambda>t. with_data (o_token_data o1)
                (t\<lparr>tk_status := Completed, tk_finished_at := Some (now_of env db)\<rparr>)) db
            else db) in
        (spawn env node token run targets db1, [(''advanced'', 1)]))"

definition apply_outcome ::
  "env \<Rightarrow> node_outcome \<Rightarrow> wnode \<Rightarrow> token \<Rightarrow> wrun \<Rightarrow> db \<Rightarrow> db \<times> totals" where
  "apply_outcome env o1 node token run db0 =
     (let org = r_org run; rid = r_id run; tok = tk_id token;
          db = (case o_variables o1 of Some vs \<Rightarrow> set_variables run vs db0 | None \<Rightarrow> db0) in
      case o_kind o1 of
        KNoop \<Rightarrow> (db, [(''parked'', 1)])
      | KPark \<Rightarrow>
          (upd_token tok (\<lambda>t. with_data (o_token_data o1) (t\<lparr>tk_status := Waiting, tk_wait := o_wait o1,
             tk_resume_at := o_resume_at o1, tk_corr := o_corr o1, tk_lease_owner := None, tk_leased_at := None\<rparr>)) db,
           [(''parked'', 1)])
      | KComplete \<Rightarrow> (set_status env Completed tok db, [(''advanced'', 1)])
      | KFail \<Rightarrow>
          (fail_run env org rid (case o_error o1 of Some e \<Rightarrow> if e = [] then ''task failed'' else e | None \<Rightarrow> ''task failed'')
             (set_status env Dead tok db), [(''failed'', 1)])
      | KTerminate \<Rightarrow>
          (let db1 = kill_all (now_of env db) org rid (set_status env Completed tok db);
               db2 = fst (cancel_runs_for_workflow_run org rid ''workflow terminated'' db1) in
           (finish_run env org rid RSucceeded db2, [(''advanced'', 1)]))
      | _ \<Rightarrow> apply_targets env o1 node token run db)"

subsection \<open>Advancing a token, driving a run\<close>

definition advance_one :: "driver \<Rightarrow> env \<Rightarrow> nat \<Rightarrow> nat \<Rightarrow> db \<Rightarrow> (engine_exc, db \<times> totals) result" where
  "advance_one drive env org tok db0 =
     (let db = db0\<lparr>d_tick := Suc (d_tick db0)\<rparr> in
      case get_token db org tok of
        None \<Rightarrow> Inr (db, [])
      | Some token \<Rightarrow>
          (case get_run db org (tk_run token) of
             None \<Rightarrow> Inr (upd_token tok (\<lambda>t. t\<lparr>tk_status := Dead\<rparr>) db, [])
           | Some run \<Rightarrow>
               (case get_version db org (r_version run) of
                  None \<Rightarrow> Inr (upd_token tok (\<lambda>t. t\<lparr>tk_status := Dead\<rparr>)
                            (fail_run env org (r_id run) ''workflow version missing'' db), [(''failed'', 1)])
                | Some version \<Rightarrow>
                    bind_res (load_def (v_definition version)) (\<lambda>model.
                      case node_by_id model (tk_node token) of
                        None \<Rightarrow> Inr (settle_run env org (r_id run) (upd_token tok (\<lambda>t. t\<lparr>tk_status := Dead\<rparr>) db), [])
                      | Some node \<Rightarrow>
                          bind_res (dispatch drive env node token run model db) (\<lambda>r.
                            let a = apply_outcome env (snd r) node token run (fst r) in
                            Inr (settle_run env org (r_id run) (fst a), snd a))))))"

definition bump :: "totals \<Rightarrow> totals \<Rightarrow> totals" where
  "bump tot delta = fold (\<lambda>kv acc. dset acc (fst kv) ((case dget acc (fst kv) of Some n \<Rightarrow> n | None \<Rightarrow> 0) + snd kv)) delta tot"

text \<open>One pass over the tokens that were active when it began.\<close>

fun drive_pass :: "driver \<Rightarrow> env \<Rightarrow> nat \<Rightarrow> nat list \<Rightarrow> db \<Rightarrow> totals \<Rightarrow> (engine_exc, db \<times> totals) result" where
  "drive_pass drive env org [] db tot = Inr (db, tot)"
| "drive_pass drive env org (i # ids) db tot =
     bind_res (advance_one drive env org i (upd_token i (\<lambda>t. t\<lparr>tk_status := Running\<rparr>) db))
       (\<lambda>r. drive_pass drive env org ids (fst r) (bump tot (snd r)))"

definition active_ids :: "db \<Rightarrow> nat \<Rightarrow> nat \<Rightarrow> nat list" where
  "active_ids db org run = map tk_id (filter (\<lambda>t. tk_status t = Active) (list_for_run db org run))"

fun drive_passes ::
  "nat \<Rightarrow> driver \<Rightarrow> env \<Rightarrow> nat \<Rightarrow> nat \<Rightarrow> db \<Rightarrow> totals \<Rightarrow> (engine_exc, db \<times> totals) result" where
  "drive_passes 0 drive env org run db tot = Inr (db, tot)"
| "drive_passes (Suc n) drive env org run db tot =
     (if active_ids db org run = [] then Inr (db, tot)
      else bind_res (drive_pass drive env org (active_ids db org run) db tot)
             (\<lambda>r. drive_passes n drive env org run (fst r) (snd r)))"

fun drive_run_d :: "nat \<Rightarrow> env \<Rightarrow> driver" where
  "drive_run_d 0 env org run db = Inl OutOfFuel"
| "drive_run_d (Suc d) env org run db =
     (if \<not> e_lock env (d_tick db) run then Inr (db, [(''skipped'', 1)])
      else drive_passes MAX_PASSES (drive_run_d d env) env org run db [])"

definition drive_run :: "env \<Rightarrow> driver" where
  "drive_run env = drive_run_d DRIVE_FUEL env"

definition retry_run :: "env \<Rightarrow> nat \<Rightarrow> nat \<Rightarrow> db \<Rightarrow> (engine_exc, db \<times> totals) result" where
  "retry_run env org run db =
     (let r = reactivate_dead org run db in
      if snd r = 0 then Inr (db, [(''reactivated'', 0)])
      else
        bind_res (drive_run env org run
          (upd_run run (\<lambda>x. x\<lparr>r_status := RRunning, r_error := None, r_finished_at := None\<rparr>) (fst r)))
          (\<lambda>d. Inr (fst d, dset (snd d) ''reactivated'' (snd r))))"

subsection \<open>Signals\<close>

definition signalable :: "nat \<Rightarrow> nat \<Rightarrow> string option \<Rightarrow> string option \<Rightarrow> token \<Rightarrow> bool" where
  "signalable org run node corr t \<longleftrightarrow> tk_run t = run \<and> tk_org t = org \<and> tk_status t = Waiting
     \<and> (case tk_wait t of Some k \<Rightarrow> k \<in> set SIGNALABLE_WAIT_KINDS | None \<Rightarrow> False)
     \<and> (case node of Some n \<Rightarrow> tk_node t = n | None \<Rightarrow> True)
     \<and> (case corr of Some c \<Rightarrow> tk_corr t = Some c | None \<Rightarrow> True)"

definition completed_by :: "jdict \<Rightarrow> token \<Rightarrow> token" where
  "completed_by outp t = t\<lparr>tk_data := dset (dset (tk_data t) ''_completed'' (JBool True)) ''_completion_output'' (JObj outp),
     tk_status := Active, tk_wait := None, tk_lease_owner := None, tk_leased_at := None\<rparr>"

definition signal_token ::
  "wrun \<Rightarrow> string option \<Rightarrow> string option \<Rightarrow> jdict \<Rightarrow> jdict \<Rightarrow> db \<Rightarrow> db \<times> bool" where
  "signal_token run node corr variables outp db =
     (case filter (signalable (r_org run) (r_id run) node corr) (d_tokens db) of
        [] \<Rightarrow> (db, False)
      | t # _ \<Rightarrow> (upd_token (tk_id t) (completed_by outp) (set_variables run variables db), True))"

subsection \<open>The sweeps\<close>

definition lease_tokens :: "env \<Rightarrow> nat list \<Rightarrow> db \<Rightarrow> db" where
  "lease_tokens env ids db =
     db\<lparr>d_tokens := upd_where (\<lambda>t. tk_id t \<in> set ids)
          (\<lambda>t. t\<lparr>tk_status := Running, tk_lease_owner := Some (e_worker env), tk_leased_at := Some (now_of env db)\<rparr>)
          (d_tokens db)\<rparr>"

definition release_token :: "nat \<Rightarrow> db \<Rightarrow> db" where
  "release_token i db = upd_token i (\<lambda>t. t\<lparr>tk_status := Active, tk_lease_owner := None, tk_leased_at := None\<rparr>) db"

definition kill_token :: "env \<Rightarrow> nat \<Rightarrow> string \<Rightarrow> db \<Rightarrow> db" where
  "kill_token env i err db =
     (case find (\<lambda>t. tk_id t = i) (d_tokens db) of
        None \<Rightarrow> db
      | Some t \<Rightarrow>
          (let now = now_of env db;
               db1 = upd_token i (\<lambda>t. t\<lparr>tk_status := Dead, tk_finished_at := Some now,
                   tk_data := dset (tk_data t) ''_error'' (JStr err)\<rparr>) db;
               db2 = upd_run (tk_run t) (\<lambda>r. if r_status r \<in> {RSucceeded, RSkipped} then r
                   else r\<lparr>r_status := RFailed, r_finished_at := Some now, r_error := Some err\<rparr>) db1 in
           fst (cancel_runs_for_workflow_run (tk_org t) (tk_run t) (''workflow run failed: '' @ err) db2)))"

definition advance_claimed :: "env \<Rightarrow> nat \<Rightarrow> nat \<Rightarrow> db \<Rightarrow> (engine_exc, db \<times> totals) result" where
  "advance_claimed env org i db =
     (case get_token db org i of
        Some t \<Rightarrow> if tk_status t = Running then advance_one (drive_run env) env org i db else Inr (db, [])
      | None \<Rightarrow> Inr (db, []))"

text \<open>One claimed row: an exception rolls the savepoint back and kills the token.\<close>

definition sweep_token :: "env \<Rightarrow> token \<Rightarrow> db \<times> totals \<Rightarrow> db \<times> totals" where
  "sweep_token env row acc =
     (let db = fst acc in
      if \<not> e_lock env (d_tick db) (tk_run row) then (release_token (tk_id row) db, snd acc)
      else case advance_claimed env (tk_org row) (tk_id row) db of
          Inr r \<Rightarrow> (fst r, bump (snd acc) (snd r))
        | Inl x \<Rightarrow> (kill_token env (tk_id row) ''advance error'' db, snd acc))"

definition advance_tokens :: "env \<Rightarrow> nat \<Rightarrow> db \<Rightarrow> db \<times> totals" where
  "advance_tokens env limit db =
     (let ids = claim_ids limit (\<lambda>t. tk_status t = Active) db;
          db1 = lease_tokens env ids db;
          rows = filter (\<lambda>t. tk_id t \<in> set ids) (d_tokens db1) in
      fold (sweep_token env) rows
        (db1, [(''claimed'', length ids), (''advanced'', 0), (''parked'', 0), (''failed'', 0)]))"

definition RESUMABLE_WAIT_KINDS :: "wait_kind list" where
  "RESUMABLE_WAIT_KINDS = [WTimer, WBoundary, WRetry, WUserTask, WReceive, WAgent]"

definition is_due :: "int \<Rightarrow> token \<Rightarrow> bool" where
  "is_due now t \<longleftrightarrow>
     (tk_status t = Waiting \<and> (case tk_wait t of Some k \<Rightarrow> k \<in> set RESUMABLE_WAIT_KINDS | None \<Rightarrow> False)
        \<and> (case tk_resume_at t of Some r \<Rightarrow> r \<le> now | None \<Rightarrow> False))
     \<or> (tk_status t = Running \<and> (case tk_leased_at t of Some l \<Rightarrow> l < now - LEASE_TTL_SECONDS * 1000000 | None \<Rightarrow> False))"

text \<open>\<open>ORDER BY resume_at NULLS FIRST\<close>, then the first \<open>limit\<close> of them.\<close>

fun insert_due :: "token \<Rightarrow> token list \<Rightarrow> token list" where
  "insert_due t [] = [t]"
| "insert_due t (u # us) =
     (if (case (tk_resume_at t, tk_resume_at u) of (None, _) \<Rightarrow> True | (Some _, None) \<Rightarrow> False | (Some a, Some b) \<Rightarrow> a \<le> b)
      then t # u # us else u # insert_due t us)"

definition due_ids :: "nat \<Rightarrow> int \<Rightarrow> db \<Rightarrow> nat list" where
  "due_ids limit now db = take limit (map tk_id (foldr insert_due (filter (is_due now) (d_tokens db)) []))"

definition resume_due_tokens :: "env \<Rightarrow> nat \<Rightarrow> db \<Rightarrow> db \<times> nat" where
  "resume_due_tokens env limit db =
     (let ids = due_ids limit (now_of env db) db in
      (db\<lparr>d_tokens := upd_where (\<lambda>t. tk_id t \<in> set ids)
            (\<lambda>t. t\<lparr>tk_status := Active, tk_lease_owner := None, tk_leased_at := None\<rparr>) (d_tokens db)\<rparr>,
       length ids))"

end
