(* ===== verification/Wf_Engine_Inv.thy ===== *)
theory Wf_Engine_Inv
  imports Wf_Engine
begin

section \<open>The invariant of the engine's state and what an advance may change\<close>

text \<open>
  \<open>db_inv\<close> is the invariant of the database: ids are unique and were allocated, and the steps of
  every run are numbered \<open>1, 2, \<dots>\<close> up to its counter, in the order they were recorded, and
  carry the run's organization.
  \<open>ev org db db'\<close> says what an operation on behalf of one organization may do: keep the
  invariant, keep the identity, tenant and lineage of every row, touch no row of another
  organization, and not push the token count of an existing run beyond the budget. It is
  reflexive and transitive, so an operation has it when its parts do. The driver a call
  activity uses is an interface, \<open>child_driver\<close>: the lemmas on dispatching, advancing and
  driving are proved for any driver with that contract, and the engine's own recursion is
  an instance of it at every depth.
\<close>

subsection \<open>Invariant and evolution\<close>

definition ids_ok :: "db \<Rightarrow> bool" where
  "ids_ok db \<longleftrightarrow> distinct (map tk_id (d_tokens db)) \<and> distinct (map r_id (d_runs db))
     \<and> (\<forall>t \<in> set (d_tokens db). tk_id t < d_next db) \<and> (\<forall>r \<in> set (d_runs db). r_id r < d_next db)"

definition step_indexes :: "db \<Rightarrow> nat \<Rightarrow> nat list" where
  "step_indexes db rid = map s_index (filter (\<lambda>s. s_run s = rid) (d_steps db))"

definition steps_dense :: "db \<Rightarrow> bool" where
  "steps_dense db \<longleftrightarrow> (\<forall>r \<in> set (d_runs db). step_indexes db (r_id r) = [1..<Suc (r_step_seq r)])
     \<and> (\<forall>s \<in> set (d_steps db). (s_run s, s_org s) \<in> set (map (\<lambda>r. (r_id r, r_org r)) (d_runs db)))"

definition db_inv :: "db \<Rightarrow> bool" where
  "db_inv db \<longleftrightarrow> ids_ok db \<and> steps_dense db"

definition tok_key :: "token \<Rightarrow> nat \<times> nat \<times> nat" where
  "tok_key t = (tk_id t, tk_org t, tk_run t)"

definition run_key :: "wrun \<Rightarrow> nat \<times> nat \<times> nat \<times> nat \<times> nat option \<times> nat option" where
  "run_key r = (r_id r, r_org r, r_depth r, r_version r, r_parent_run r, r_parent_token r)"

definition others_same :: "nat \<Rightarrow> db \<Rightarrow> db \<Rightarrow> bool" where
  "others_same org db db' \<longleftrightarrow>
     filter (\<lambda>t. tk_org t \<noteq> org) (d_tokens db') = filter (\<lambda>t. tk_org t \<noteq> org) (d_tokens db)
     \<and> filter (\<lambda>r. r_org r \<noteq> org) (d_runs db') = filter (\<lambda>r. r_org r \<noteq> org) (d_runs db)
     \<and> filter (\<lambda>s. s_org s \<noteq> org) (d_steps db') = filter (\<lambda>s. s_org s \<noteq> org) (d_steps db)
     \<and> filter (\<lambda>a. a_org a \<noteq> org) (d_agent_runs db') = filter (\<lambda>a. a_org a \<noteq> org) (d_agent_runs db)"

text \<open>A table grew at its end, by rows whose ids were not allocated before.\<close>

definition grown :: "nat \<Rightarrow> (nat \<times> 'a) list \<Rightarrow> (nat \<times> 'a) list \<Rightarrow> bool" where
  "grown n xs ys \<longleftrightarrow> (\<exists>new. ys = xs @ new \<and> (\<forall>k \<in> set new. n \<le> fst k))"

lemma grown_refl [simp]: "grown n xs xs"
  by (simp add: grown_def)

lemma grown_trans: "grown n xs ys \<Longrightarrow> grown m ys zs \<Longrightarrow> n \<le> m \<Longrightarrow> grown n xs zs"
proof -
  assume "grown n xs ys" "grown m ys zs" "n \<le> m"
  then obtain a b where "ys = xs @ a" "\<forall>k \<in> set a. n \<le> fst k" "zs = ys @ b" "\<forall>k \<in> set b. m \<le> fst k"
    by (auto simp: grown_def)
  then show "grown n xs zs"
    unfolding grown_def using \<open>n \<le> m\<close> by (intro exI [of _ "a @ b"]) (auto intro: order.trans)
qed

lemma grown_mem: "grown n xs ys \<Longrightarrow> k \<in> set xs \<Longrightarrow> k \<in> set ys"
  by (auto simp: grown_def)

definition rows_kept :: "db \<Rightarrow> db \<Rightarrow> bool" where
  "rows_kept db db' \<longleftrightarrow> d_next db \<le> d_next db' \<and> d_versions db' = d_versions db
     \<and> d_workflows db' = d_workflows db \<and> d_agents db' = d_agents db
     \<and> grown (d_next db) (map run_key (d_runs db)) (map run_key (d_runs db'))
     \<and> grown (d_next db) (map tok_key (d_tokens db)) (map tok_key (d_tokens db'))"

definition within_budget :: "db \<Rightarrow> db \<Rightarrow> bool" where
  "within_budget db db' \<longleftrightarrow> (\<forall>rid \<in> r_id ` set (d_runs db). \<forall>org.
     token_count db' org rid \<le> max (token_count db org rid) MAX_TOKENS_PER_RUN)"

definition ev :: "nat \<Rightarrow> db \<Rightarrow> db \<Rightarrow> bool" where
  "ev org db db' \<longleftrightarrow> db_inv db' \<and> others_same org db db' \<and> rows_kept db db' \<and> within_budget db db'"

text \<open>A run, and a token of a run, that belong to the organization.\<close>

definition at_run :: "db \<Rightarrow> nat \<Rightarrow> nat \<Rightarrow> bool" where
  "at_run db org rid \<longleftrightarrow> db_inv db \<and> (\<exists>r \<in> set (d_runs db). r_id r = rid \<and> r_org r = org)"

definition at_tok :: "db \<Rightarrow> nat \<Rightarrow> nat \<Rightarrow> nat \<Rightarrow> bool" where
  "at_tok db org rid tok \<longleftrightarrow> at_run db org rid
     \<and> (\<exists>t \<in> set (d_tokens db). tk_id t = tok \<and> tk_org t = org \<and> tk_run t = rid)"

lemma ids_of_run_key: "map r_id rs = map fst (map run_key rs)"
  by (simp add: run_key_def comp_def)

lemma ids_of_tok_key: "map tk_id ts = map fst (map tok_key ts)"
  by (simp add: tok_key_def comp_def)

lemma token_count_keys:
  "token_count db org rid = length (filter (\<lambda>k. snd (snd k) = rid \<and> fst (snd k) = org) (map tok_key (d_tokens db)))"
  by (simp add: token_count_def list_for_run_def filter_map comp_def tok_key_def)

lemma rows_keptD:
  assumes "rows_kept db db'" "r \<in> set (d_runs db)"
  shows "\<exists>r' \<in> set (d_runs db'). run_key r' = run_key r"
proof -
  have "run_key r \<in> set (map run_key (d_runs db'))"
    by (rule grown_mem [of "d_next db" "map run_key (d_runs db)"]) (use assms in \<open>auto simp: rows_kept_def\<close>)
  then show ?thesis by (metis (mono_tags, lifting) image_iff list.set_map)
qed

lemma rows_kept_tokD:
  assumes "rows_kept db db'" "t \<in> set (d_tokens db)"
  shows "\<exists>t' \<in> set (d_tokens db'). tok_key t' = tok_key t"
proof -
  have "tok_key t \<in> set (map tok_key (d_tokens db'))"
    by (rule grown_mem [of "d_next db" "map tok_key (d_tokens db)"]) (use assms in \<open>auto simp: rows_kept_def\<close>)
  then show ?thesis by (metis (mono_tags, lifting) image_iff list.set_map)
qed

lemma rows_kept_trans: "rows_kept a b \<Longrightarrow> rows_kept b c \<Longrightarrow> rows_kept a c"
  by (simp add: rows_kept_def) (blast intro: grown_trans order.trans)

lemma rows_kept_run_ids: "rows_kept a b \<Longrightarrow> r_id ` set (d_runs a) \<subseteq> r_id ` set (d_runs b)"
proof
  fix i assume k: "rows_kept a b" and "i \<in> r_id ` set (d_runs a)"
  then obtain r where "r \<in> set (d_runs a)" "r_id r = i" by auto
  with rows_keptD [OF k] obtain r' where "r' \<in> set (d_runs b)" "run_key r' = run_key r" by blast
  then show "i \<in> r_id ` set (d_runs b)" using \<open>r_id r = i\<close> by (intro image_eqI [of _ _ r']) (auto simp: run_key_def)
qed

lemma within_budget_trans:
  assumes "rows_kept a b" "within_budget a b" "within_budget b c"
  shows "within_budget a c"
  unfolding within_budget_def
proof (intro ballI allI)
  fix rid org assume rid: "rid \<in> r_id ` set (d_runs a)"
  then have "rid \<in> r_id ` set (d_runs b)" using rows_kept_run_ids [OF assms(1)] by blast
  then have "token_count c org rid \<le> max (token_count b org rid) MAX_TOKENS_PER_RUN"
    and "token_count b org rid \<le> max (token_count a org rid) MAX_TOKENS_PER_RUN"
    using assms(2,3) rid by (auto simp: within_budget_def)
  then show "token_count c org rid \<le> max (token_count a org rid) MAX_TOKENS_PER_RUN" by linarith
qed

lemma ev_refl: "db_inv db \<Longrightarrow> ev org db db"
  by (auto simp: ev_def others_same_def rows_kept_def within_budget_def)

lemma ev_trans: "ev org a b \<Longrightarrow> ev org b c \<Longrightarrow> ev org a c"
  by (simp add: ev_def others_same_def) (blast intro: rows_kept_trans within_budget_trans)

lemma ev_inv: "ev org a b \<Longrightarrow> db_inv b"
  by (simp add: ev_def)

lemma at_run_ev: "at_run a org rid \<Longrightarrow> ev o2 a b \<Longrightarrow> at_run b org rid"
  using rows_keptD [of a b] by (force simp: at_run_def ev_def run_key_def)

lemma at_tok_ev: "at_tok a org rid tok \<Longrightarrow> ev o2 a b \<Longrightarrow> at_tok b org rid tok"
  using rows_kept_tokD [of a b] at_run_ev [of a org rid o2 b] by (force simp: at_tok_def ev_def tok_key_def)

lemma at_run_inv: "at_run db org rid \<Longrightarrow> db_inv db"
  by (simp add: at_run_def)

lemma at_tok_run: "at_tok db org rid tok \<Longrightarrow> at_run db org rid"
  by (simp add: at_tok_def)

lemma at_run_unique: "at_run db org rid \<Longrightarrow> r \<in> set (d_runs db) \<Longrightarrow> r_id r = rid \<Longrightarrow> r_org r = org"
  by (auto simp: at_run_def db_inv_def ids_ok_def distinct_map inj_on_def)

lemma at_tok_unique:
  "at_tok db org rid tok \<Longrightarrow> t \<in> set (d_tokens db) \<Longrightarrow> tk_id t = tok \<Longrightarrow> tk_org t = org \<and> tk_run t = rid"
  by (auto simp: at_tok_def at_run_def db_inv_def ids_ok_def distinct_map inj_on_def)

subsection \<open>Primitive updates\<close>

lemma filter_upd_where:
  "(\<And>x. x \<in> set xs \<Longrightarrow> p x \<Longrightarrow> \<not> q x \<and> \<not> q (f x)) \<Longrightarrow> filter q (upd_where p f xs) = filter q xs"
  by (induction xs) auto

lemma map_upd_where_key: "(\<And>x. g (f x) = g x) \<Longrightarrow> map g (upd_where p f xs) = map g xs"
  by (simp add: map_upd_where)

lemma token_count_cong:
  "map tok_key (d_tokens a) = map tok_key (d_tokens b) \<Longrightarrow> token_count a org rid = token_count b org rid"
  by (simp add: token_count_keys)

text \<open>Fields no part of the relation reads.\<close>

lemma ev_other_fields:
  assumes "db_inv db" "n \<ge> d_next db"
  shows "ev org db (db\<lparr>d_next := n, d_tick := k, d_notifications := ns, d_approvals := ps\<rparr>)"
  using assms by (fastforce simp: ev_def db_inv_def ids_ok_def steps_dense_def step_indexes_def others_same_def
      rows_kept_def within_budget_def token_count_def list_for_run_def)

lemma ev_tokens:
  assumes "db_inv db" and org: "\<And>t. t \<in> set (d_tokens db) \<Longrightarrow> p t \<Longrightarrow> tk_org t = org"
    and key: "\<And>t. tok_key (f t) = tok_key t"
  shows "ev org db (db\<lparr>d_tokens := upd_where p f (d_tokens db)\<rparr>)"
proof -
  let ?db = "db\<lparr>d_tokens := upd_where p f (d_tokens db)\<rparr>"
  have keys: "map tok_key (d_tokens ?db) = map tok_key (d_tokens db)"
    by (simp add: map_upd_where_key key)
  have ids: "map tk_id (d_tokens ?db) = map tk_id (d_tokens db)"
    using keys unfolding ids_of_tok_key by simp
  have "\<forall>i \<in> set (map tk_id (d_tokens ?db)). i < d_next db"
    unfolding ids using assms(1) by (auto simp: db_inv_def ids_ok_def)
  then have inv: "db_inv ?db"
    using assms(1) ids by (auto simp: db_inv_def ids_ok_def steps_dense_def step_indexes_def)
  have "filter (\<lambda>t. tk_org t \<noteq> org) (d_tokens ?db) = filter (\<lambda>t. tk_org t \<noteq> org) (d_tokens db)"
    using org key by (auto simp: tok_key_def intro!: filter_upd_where)
  then show ?thesis
    using inv keys by (auto simp: ev_def others_same_def rows_kept_def within_budget_def token_count_cong [of ?db db])
qed

lemma ev_runs:
  assumes "db_inv db" and org: "\<And>r. r \<in> set (d_runs db) \<Longrightarrow> p r \<Longrightarrow> r_org r = org"
    and key: "\<And>r. run_key (f r) = run_key r" and seq: "\<And>r. r_step_seq (f r) = r_step_seq r"
  shows "ev org db (db\<lparr>d_runs := upd_where p f (d_runs db)\<rparr>)"
proof -
  let ?db = "db\<lparr>d_runs := upd_where p f (d_runs db)\<rparr>"
  have keys: "map run_key (d_runs ?db) = map run_key (d_runs db)"
    by (simp add: map_upd_where_key key)
  have ids: "map r_id (d_runs ?db) = map r_id (d_runs db)"
    using keys unfolding ids_of_run_key by simp
  have id: "r_id (f r) = r_id r" for r using key [of r] by (simp add: run_key_def)
  have "\<forall>i \<in> set (map r_id (d_runs ?db)). i < d_next db"
    unfolding ids using assms(1) by (auto simp: db_inv_def ids_ok_def)
  moreover have "steps_dense ?db"
  proof -
    have "map (\<lambda>r. (r_id r, r_org r)) (d_runs ?db) = map (\<lambda>r. (r_id r, r_org r)) (d_runs db)"
      using key by (auto simp: run_key_def intro!: map_upd_where)
    moreover have "\<exists>r' \<in> set (d_runs db). r_id r' = r_id r \<and> r_step_seq r' = r_step_seq r"
      if "r \<in> set (d_runs ?db)" for r
      using that id seq by (auto simp: set_upd_where)
    ultimately show ?thesis
      using assms(1) by (fastforce simp: db_inv_def steps_dense_def step_indexes_def simp del: upt_Suc set_map)
  qed
  ultimately have inv: "db_inv ?db"
    using assms(1) ids by (auto simp: db_inv_def ids_ok_def)
  have "filter (\<lambda>r. r_org r \<noteq> org) (d_runs ?db) = filter (\<lambda>r. r_org r \<noteq> org) (d_runs db)"
    using org key by (auto simp: run_key_def intro!: filter_upd_where)
  then show ?thesis
    using inv keys by (auto simp: ev_def others_same_def rows_kept_def within_budget_def token_count_cong [of ?db db])
qed

lemma ev_agent_runs:
  assumes "db_inv db" and "filter (\<lambda>a. a_org a \<noteq> org) as = filter (\<lambda>a. a_org a \<noteq> org) (d_agent_runs db)"
  shows "ev org db (db\<lparr>d_agent_runs := as\<rparr>)"
  using assms by (auto simp: ev_def db_inv_def ids_ok_def steps_dense_def step_indexes_def others_same_def
      rows_kept_def within_budget_def token_count_def list_for_run_def)

lemma ev_steps:
  assumes "db_inv db" and org: "\<And>s. s \<in> set (d_steps db) \<Longrightarrow> p s \<Longrightarrow> s_org s = org"
    and key: "\<And>s. s_run (f s) = s_run s" "\<And>s. s_index (f s) = s_index s" "\<And>s. s_org (f s) = s_org s"
  shows "ev org db (db\<lparr>d_steps := upd_where p f (d_steps db)\<rparr>)"
proof -
  let ?db = "db\<lparr>d_steps := upd_where p f (d_steps db)\<rparr>"
  have "step_indexes ?db rid = step_indexes db rid" for rid
    unfolding step_indexes_def by (induction "d_steps db" arbitrary: db) (auto simp: key upd_where_def filter_map comp_def if_distrib)
  then have inv: "db_inv ?db"
    using assms(1) by (auto simp: db_inv_def ids_ok_def steps_dense_def set_upd_where key)
  have "filter (\<lambda>s. s_org s \<noteq> org) (d_steps ?db) = filter (\<lambda>s. s_org s \<noteq> org) (d_steps db)"
    using org key by (auto intro!: filter_upd_where)
  then show ?thesis
    using inv by (auto simp: ev_def others_same_def rows_kept_def within_budget_def token_count_cong [of ?db db])
qed

lemma ev_upd_token:
  assumes "at_tok db org rid tok" "\<And>t. tok_key (f t) = tok_key t"
  shows "ev org db (upd_token tok f db)"
  unfolding upd_token_def
  by (rule ev_tokens) (use assms at_tok_unique [OF assms(1)] in \<open>auto simp: at_tok_def at_run_def\<close>)

lemma ev_upd_run:
  assumes "at_run db org rid" "\<And>r. run_key (f r) = run_key r" "\<And>r. r_step_seq (f r) = r_step_seq r"
  shows "ev org db (upd_run rid f db)"
  unfolding upd_run_def
  by (rule ev_runs) (use assms at_run_unique [OF assms(1)] in \<open>auto simp: at_run_def\<close>)

lemma step_owner:
  "at_run db org rid \<Longrightarrow> s \<in> set (d_steps db) \<Longrightarrow> s_run s = rid \<Longrightarrow> s_org s = org"
proof -
  assume a: "at_run db org rid" "s \<in> set (d_steps db)" "s_run s = rid"
  then have "(s_run s, s_org s) \<in> set (map (\<lambda>r. (r_id r, r_org r)) (d_runs db))"
    unfolding at_run_def db_inv_def steps_dense_def by blast
  then show "s_org s = org" using a at_run_unique [OF a(1)] by auto
qed

lemma ev_upd_step:
  assumes "at_run db org rid"
    and "\<And>s. s_run (f s) = s_run s" "\<And>s. s_index (f s) = s_index s" "\<And>s. s_org (f s) = s_org s"
  shows "ev org db (upd_step rid i f db)"
  unfolding upd_step_def
  by (rule ev_steps) (use assms step_owner [OF assms(1)] in \<open>auto simp: at_run_def\<close>)

text \<open>Allocating an index and adding the step: the counter and the trace move together.\<close>

lemma get_run_SomeD: "get_run db org rid = Some r \<Longrightarrow> r \<in> set (d_runs db) \<and> r_id r = rid \<and> r_org r = org"
  by (auto simp: get_run_def dest: find_SomeD)

lemma get_run_at: "at_run db org rid \<Longrightarrow> \<exists>r. get_run db org rid = Some r"
  by (cases "get_run db org rid") (auto simp: at_run_def get_run_def find_None_iff)

lemma at_run_of_get: "db_inv db \<Longrightarrow> get_run db org rid = Some r \<Longrightarrow> at_run db org rid"
  using get_run_SomeD [of db org rid r] by (auto simp: at_run_def)

lemma ev_new_step:
  assumes at: "at_run db org rid" and run: "r_id run = rid" "r_org run = org"
  shows "ev org db (add_step run node act (snd (allocate_step_index run db)) tok (fst (allocate_step_index run db)))"
proof -
  obtain r where r: "get_run db org rid = Some r" using get_run_at [OF at] by blast
  have mem: "r \<in> set (d_runs db)" "r_id r = rid" "r_org r = org" using get_run_SomeD [OF r] by auto
  define v where "v = Suc (r_step_seq r)"
  define f where "f = (\<lambda>x::wrun. x\<lparr>r_step_seq := v\<rparr>)"
  define st where "st = \<lparr>s_org = org, s_run = rid, s_node = node, s_action = act, s_token = tok, s_index = v,
      s_status = SPending, s_attempts = 0, s_max_attempts = 3, s_next_retry_at = None, s_output = JNull,
      s_error = None, s_finished_at = None\<rparr>"
  define db' where "db' = db\<lparr>d_runs := upd_where (\<lambda>x. r_id x = rid) f (d_runs db), d_steps := d_steps db @ [st]\<rparr>"
  have eq: "add_step run node act (snd (allocate_step_index run db)) tok (fst (allocate_step_index run db)) = db'"
    using run r by (simp add: add_step_def allocate_step_index_def v_def f_def st_def db'_def upd_run_def Let_def)
  have keys: "map run_key (d_runs db') = map run_key (d_runs db)"
    and pairs: "map (\<lambda>x. (r_id x, r_org x)) (d_runs db') = map (\<lambda>x. (r_id x, r_org x)) (d_runs db)"
    by (auto simp: db'_def f_def run_key_def intro!: map_upd_where)
  have ids: "map r_id (d_runs db') = map r_id (d_runs db)" using keys unfolding ids_of_run_key by simp
  have inv: "db_inv db" using at by (simp add: at_run_def)
  have uniq: "x = r" if "x \<in> set (d_runs db)" "r_id x = rid" for x
    using inv mem that by (auto simp: db_inv_def ids_ok_def distinct_map inj_on_def)
  have old: "step_indexes db (r_id x) = [1..<Suc (r_step_seq x)]" if "x \<in> set (d_runs db)" for x
    using inv that unfolding db_inv_def steps_dense_def by blast
  have new: "step_indexes db' i = step_indexes db i @ (if i = rid then [v] else [])" for i
    by (simp add: step_indexes_def db'_def st_def)
  have "step_indexes db' (r_id x) = [1..<Suc (r_step_seq x)]" if x: "x \<in> set (d_runs db')" for x
  proof -
    from x obtain y where y: "y \<in> set (d_runs db)" "x = (if r_id y = rid then f y else y)"
      by (auto simp: db'_def set_upd_where)
    show ?thesis
    proof (cases "r_id y = rid")
      case True
      then have "x = f r" "r_id x = rid" using y uniq mem(2) by (auto simp: f_def)
      then show ?thesis using new [of rid] old [OF mem(1)] mem(2) by (simp add: f_def v_def)
    next
      case False
      then show ?thesis using new [of "r_id y"] old [OF y(1)] y(2) by (simp del: upt_Suc)
    qed
  qed
  moreover have "(s_run s, s_org s) \<in> set (map (\<lambda>x. (r_id x, r_org x)) (d_runs db'))" if "s \<in> set (d_steps db')" for s
    using that inv mem unfolding pairs by (force simp: db'_def st_def db_inv_def steps_dense_def)
  ultimately have "steps_dense db'" unfolding steps_dense_def by blast
  moreover have "\<forall>i \<in> set (map r_id (d_runs db')). i < d_next db"
    unfolding ids using inv by (auto simp: db_inv_def ids_ok_def)
  ultimately have "db_inv db'" using inv ids by (auto simp: db_inv_def ids_ok_def db'_def)
  moreover have "filter (\<lambda>x. r_org x \<noteq> org) (d_runs db') = filter (\<lambda>x. r_org x \<noteq> org) (d_runs db)"
    unfolding db'_def using at_run_unique [OF at] by (auto simp: f_def intro!: filter_upd_where)
  ultimately show ?thesis
    unfolding eq using keys
    by (auto simp: ev_def others_same_def rows_kept_def within_budget_def db'_def st_def token_count_def list_for_run_def)
qed

lemma ev_record_step:
  assumes at: "at_run db org rid" and run: "r_id run = rid" "r_org run = org"
  shows "ev org db (fst (record_step env run node tok st outp db))"
proof -
  have e: "ev org db (add_step run (n_id node) act (snd (allocate_step_index run db)) tok (fst (allocate_step_index run db)))" for act
    by (rule ev_new_step [OF at run])
  show ?thesis
    unfolding record_step_def Let_def fst_conv
    by (rule ev_trans [OF e], rule ev_upd_step) (use at_run_ev [OF at e] run in simp_all)
qed

subsection \<open>Settling and failing runs, cancelling agent runs\<close>

lemma ev_cancel_agent_run: "db_inv db \<Longrightarrow> ev org db (fst (cancel_agent_run org i reason db))"
proof -
  assume inv: "db_inv db"
  let ?db1 = "db\<lparr>d_agent_runs := upd_where (cas_target org i)
      (\<lambda>a. a\<lparr>a_status := ACancelled, a_error := Some reason\<rparr>) (d_agent_runs db)\<rparr>"
  have e1: "ev org db ?db1"
    by (rule ev_agent_runs [OF inv]) (auto simp: cas_target_def intro!: filter_upd_where)
  have "ev org ?db1 (?db1\<lparr>d_approvals := ps\<rparr>)" for ps
    using ev_other_fields [OF ev_inv [OF e1] order.refl, of org, where k = "d_tick ?db1" and ns = "d_notifications ?db1" and ps = ps] by simp
  then show ?thesis using e1 ev_trans [OF e1] by (simp add: cancel_agent_run_def Let_def)
qed

lemma ev_cancel_runs: "db_inv db \<Longrightarrow> ev org db (fst (cancel_runs_for_workflow_run org rid reason db))"
proof -
  assume inv: "db_inv db"
  let ?step = "\<lambda>i acc. let r = cancel_agent_run org i reason (fst acc) in (fst r, if snd r then Suc (snd acc) else snd acc)"
  have "ev org db (fst (fold ?step ids (db', n)))" if "ev org db db'" for ids db' n
    using that
  proof (induction ids arbitrary: db' n)
    case (Cons i ids)
    have "ev org db (fst (cancel_agent_run org i reason db'))"
      by (rule ev_trans [OF Cons.prems ev_cancel_agent_run [OF ev_inv [OF Cons.prems]]])
    then show ?case using Cons.IH by (simp add: Let_def)
  qed simp
  then show ?thesis using ev_refl [OF inv] by (simp add: cancel_runs_for_workflow_run_def)
qed

lemma ev_signal_parent: "db_inv db \<Longrightarrow> ev org db (signal_parent org rid db)"
proof -
  assume inv: "db_inv db"
  have "ev org db (db\<lparr>d_tokens := upd_where (parked_call org i) (\<lambda>t. t\<lparr>tk_status := Active, tk_wait := None,
      tk_lease_owner := None, tk_leased_at := None, tk_data := dmerge (tk_data t) patch\<rparr>) (d_tokens db)\<rparr>)" for i patch
    by (rule ev_tokens [OF inv]) (auto simp: parked_call_def tok_key_def)
  then show ?thesis
    using ev_refl [OF inv] by (simp add: signal_parent_def Let_def del: dmerge_Cons split: option.splits prod.splits)
qed

lemma run_key_simps [simp]:
  "run_key (r\<lparr>r_status := a\<rparr>) = run_key r" "run_key (r\<lparr>r_error := b\<rparr>) = run_key r"
  "run_key (r\<lparr>r_finished_at := c\<rparr>) = run_key r" "run_key (r\<lparr>r_matched := d\<rparr>) = run_key r"
  "run_key (r\<lparr>r_variables := e\<rparr>) = run_key r" "run_key (r\<lparr>r_dead_letter := f\<rparr>) = run_key r"
  by (simp_all add: run_key_def)

lemma tok_key_simps [simp]:
  "tok_key (t\<lparr>tk_status := a\<rparr>) = tok_key t" "tok_key (t\<lparr>tk_wait := b\<rparr>) = tok_key t"
  "tok_key (t\<lparr>tk_resume_at := c\<rparr>) = tok_key t" "tok_key (t\<lparr>tk_corr := d\<rparr>) = tok_key t"
  "tok_key (t\<lparr>tk_data := e\<rparr>) = tok_key t" "tok_key (t\<lparr>tk_lease_owner := f\<rparr>) = tok_key t"
  "tok_key (t\<lparr>tk_leased_at := g\<rparr>) = tok_key t" "tok_key (t\<lparr>tk_finished_at := h\<rparr>) = tok_key t"
  "tok_key (t\<lparr>tk_node := i\<rparr>) = tok_key t" "tok_key (t\<lparr>tk_from := j\<rparr>) = tok_key t"
  "tok_key (t\<lparr>tk_via := k\<rparr>) = tok_key t"
  by (simp_all add: tok_key_def)

lemma tok_key_with_data [simp]: "tok_key (with_data d t) = tok_key t"
  by (simp add: with_data_def split: option.splits)

lemma ev_finish_run: "at_run db org rid \<Longrightarrow> ev org db (finish_run env org rid st db)"
  unfolding finish_run_def
  by (rule ev_trans [OF ev_upd_run ev_signal_parent [OF ev_inv [OF ev_upd_run]]]) auto

lemma ev_fail_run: "at_run db org rid \<Longrightarrow> ev org db (fail_run env org rid err db)"
proof -
  assume at: "at_run db org rid"
  let ?db1 = "upd_run rid (\<lambda>r. r\<lparr>r_status := RFailed, r_error := Some err, r_finished_at := Some (now_of env db)\<rparr>) db"
  have e1: "ev org db ?db1" by (rule ev_upd_run [OF at]) auto
  have e2: "ev org db (fst (cancel_runs_for_workflow_run org rid m ?db1))" for m
    by (rule ev_trans [OF e1 ev_cancel_runs [OF ev_inv [OF e1]]])
  show ?thesis
    unfolding fail_run_def Let_def by (rule ev_trans [OF e2 ev_signal_parent [OF ev_inv [OF e2]]])
qed

lemma ev_settle_run: "db_inv db \<Longrightarrow> ev org db (settle_run env org rid db)"
proof (cases "get_run db org rid")
  case (Some r)
  assume inv: "db_inv db"
  have at: "at_run db org rid" by (rule at_run_of_get [OF inv Some])
  have "ev org db (upd_run rid (\<lambda>r. r\<lparr>r_status := s\<rparr>) db)" for s by (rule ev_upd_run [OF at]) auto
  then show ?thesis using Some ev_refl [OF inv] ev_finish_run [OF at] by (simp add: settle_run_def Let_def)
qed (simp add: settle_run_def ev_refl)

lemma ev_set_variables: "at_run db org rid \<Longrightarrow> r_id run = rid \<Longrightarrow> ev org db (set_variables run vs db)"
  unfolding set_variables_def by (auto intro!: ev_upd_run ev_refl simp: at_run_def)

lemma ev_set_dead_letter: "at_run db org rid \<Longrightarrow> ev org db (set_dead_letter rid db)"
  unfolding set_dead_letter_def by (rule ev_upd_run) auto

lemma ev_kill_all: "db_inv db \<Longrightarrow> ev org db (kill_all now org rid db)"
  unfolding kill_all_def by (rule ev_tokens) auto

lemma ev_consume_buffer: "db_inv db \<Longrightarrow> ev org db (consume_buffer env org rid node db)"
  unfolding consume_buffer_def by (rule ev_tokens) (auto simp: is_buffered_def)

lemma ev_set_status: "at_tok db org rid tok \<Longrightarrow> ev org db (set_status env st tok db)"
  unfolding set_status_def by (rule ev_upd_token) auto

lemma ev_buffer_token: "at_tok db org rid tok \<Longrightarrow> ev org db (buffer_token tok db)"
  unfolding buffer_token_def by (rule ev_upd_token) auto

subsection \<open>New rows\<close>

lemma ev_grow:
  assumes inv: "db_inv db" and n: "d_next db \<le> n"
    and ts: "distinct (map tk_id ts)" "\<And>t. t \<in> set ts \<Longrightarrow> tk_org t = org \<and> d_next db \<le> tk_id t \<and> tk_id t < n"
    and rs: "distinct (map r_id rs)"
      "\<And>r. r \<in> set rs \<Longrightarrow> r_org r = org \<and> d_next db \<le> r_id r \<and> r_id r < n \<and> r_step_seq r = 0"
    and budget: "\<And>rid. rid \<in> r_id ` set (d_runs db) \<Longrightarrow> rid \<in> tk_run ` set ts \<Longrightarrow>
        token_count db org rid + length ts \<le> MAX_TOKENS_PER_RUN"
  shows "ev org db (db\<lparr>d_runs := d_runs db @ rs, d_tokens := d_tokens db @ ts, d_next := n\<rparr>)"
proof -
  let ?db = "db\<lparr>d_runs := d_runs db @ rs, d_tokens := d_tokens db @ ts, d_next := n\<rparr>"
  have old: "\<forall>t \<in> set (d_tokens db). tk_id t < d_next db" "\<forall>r \<in> set (d_runs db). r_id r < d_next db"
    using inv by (auto simp: db_inv_def ids_ok_def)
  have "ids_ok ?db"
    using inv n ts rs old unfolding db_inv_def ids_ok_def by (fastforce simp: not_less [symmetric])
  moreover have "steps_dense ?db"
  proof -
    have none: "step_indexes db (r_id r) = []" if "r \<in> set rs" for r
    proof -
      have "s_run s \<noteq> r_id r" if "s \<in> set (d_steps db)" for s
        using inv that \<open>r \<in> set rs\<close> rs(2) old(2) by (fastforce simp: db_inv_def steps_dense_def not_less [symmetric])
      then show ?thesis by (simp add: step_indexes_def)
    qed
    show ?thesis
      using inv none rs(2) unfolding db_inv_def steps_dense_def
      by (auto simp: step_indexes_def simp del: upt_Suc)
  qed
  moreover have "within_budget db ?db"
    unfolding within_budget_def
  proof (intro ballI allI)
    fix rid o2 assume rid: "rid \<in> r_id ` set (d_runs db)"
    have tc: "token_count ?db o2 rid = token_count db o2 rid + length (filter (\<lambda>t. tk_run t = rid \<and> tk_org t = o2) ts)"
      by (simp add: token_count_def list_for_run_def)
    show "token_count ?db o2 rid \<le> max (token_count db o2 rid) MAX_TOKENS_PER_RUN"
    proof (cases "filter (\<lambda>t. tk_run t = rid \<and> tk_org t = o2) ts = []")
      case False
      then obtain t where "t \<in> set ts" "tk_run t = rid" "tk_org t = o2" by (auto simp: filter_empty_conv)
      then have "rid \<in> tk_run ` set ts" "o2 = org" using ts(2) by auto
      then have "token_count db o2 rid + length ts \<le> MAX_TOKENS_PER_RUN" using budget [OF rid] by simp
      then show ?thesis
        unfolding tc using length_filter_le [of "\<lambda>t. tk_run t = rid \<and> tk_org t = o2" ts]
        by (intro order.trans [OF _ max.cobounded2]) linarith
    qed (simp add: tc)
  qed
  moreover have "others_same org db ?db"
    using ts(2) rs(2) by (auto simp: others_same_def filter_empty_conv)
  moreover have "rows_kept db ?db"
    using n ts(2) rs(2) by (auto simp: rows_kept_def grown_def run_key_def tok_key_def)
  ultimately show ?thesis by (simp add: ev_def db_inv_def)
qed

text \<open>Creating tokens one after another appends that many fresh rows.\<close>

definition mints :: "nat \<Rightarrow> nat \<Rightarrow> ('a \<Rightarrow> db \<Rightarrow> db) \<Rightarrow> bool" where
  "mints org rid c \<longleftrightarrow> (\<forall>x d. \<exists>t. c x d = d\<lparr>d_tokens := d_tokens d @ [t], d_next := Suc (d_next d)\<rparr>
     \<and> tk_id t = d_next d \<and> tk_org t = org \<and> tk_run t = rid)"

lemma mints_create: "r_org run = org \<Longrightarrow> r_id run = rid \<Longrightarrow>
   mints org rid (\<lambda>x. create_token now run (f x) (g x) (h x) p b k)"
  unfolding mints_def create_token_def by (intro allI exI conjI) (rule refl, simp_all)

lemma fold_mints:
  assumes "mints org rid c"
  shows "\<exists>ts. fold c xs d = d\<lparr>d_tokens := d_tokens d @ ts, d_next := d_next d + length xs\<rparr>
     \<and> map tk_id ts = [d_next d..<d_next d + length xs] \<and> (\<forall>t \<in> set ts. tk_org t = org \<and> tk_run t = rid)"
proof (induction xs arbitrary: d)
  case Nil
  show ?case by (rule exI [of _ "[]"]) simp
next
  case (Cons x xs)
  from assms obtain t where t: "c x d = d\<lparr>d_tokens := d_tokens d @ [t], d_next := Suc (d_next d)\<rparr>"
      "tk_id t = d_next d" "tk_org t = org" "tk_run t = rid"
    unfolding mints_def by blast
  from Cons.IH [of "c x d"] obtain ts where
      "fold c xs (c x d) = (c x d)\<lparr>d_tokens := d_tokens (c x d) @ ts, d_next := d_next (c x d) + length xs\<rparr>"
      "map tk_id ts = [d_next (c x d)..<d_next (c x d) + length xs]" "\<forall>t \<in> set ts. tk_org t = org \<and> tk_run t = rid"
    by blast
  then show ?case using t by (intro exI [of _ "t # ts"]) (simp add: upt_conv_Cons del: upt_Suc)
qed

lemma ev_spawn:
  assumes at: "at_run db org rid" and run: "r_id run = rid" "r_org run = org"
    and budget: "token_count db org rid + length targets \<le> MAX_TOKENS_PER_RUN"
  shows "ev org db (spawn env node token run targets db)"
proof -
  let ?c = "\<lambda>th. create_token (now_of env db) run (fst th) (Some (n_id node)) (snd th) (Some (tk_id token))
      (Some (n_id node)) (min (tk_depth token + (if length targets > 1 then 1 else 0)) MAX_TOKEN_DEPTH)"
  obtain ts where ts: "fold ?c targets db = db\<lparr>d_tokens := d_tokens db @ ts, d_next := d_next db + length targets\<rparr>"
      "map tk_id ts = [d_next db..<d_next db + length targets]" "\<forall>t \<in> set ts. tk_org t = org \<and> tk_run t = rid"
    using fold_mints [OF mints_create [OF run(2,1)], of "now_of env db" fst _ snd] by fast
  have len: "length ts = length targets" using ts(2) by (metis add_diff_cancel_left' length_map length_upt)
  have ids: "d_next db \<le> tk_id t \<and> tk_id t < d_next db + length targets" if "t \<in> set ts" for t
    using ts(2) that by (metis atLeastLessThan_iff image_eqI list.set_map set_upt)
  have "ev org db (db\<lparr>d_runs := d_runs db @ [], d_tokens := d_tokens db @ ts, d_next := d_next db + length targets\<rparr>)"
    by (rule ev_grow) (use at ts ids len budget in \<open>auto simp: at_run_def\<close>)
  then show ?thesis using ts(1) by (simp add: spawn_def)
qed

text \<open>The rows a call activity creates: the child run and the tokens at its triggers.\<close>

lemma create_run_SomeD:
  assumes "create_run_if_absent org wfl v ob created rec snap depth pr pt db = (db', Some child)"
  shows "db' = db\<lparr>d_runs := d_runs db @ [child], d_next := Suc (d_next db)\<rparr> \<and> r_id child = d_next db
     \<and> r_org child = org \<and> r_depth child = depth \<and> r_step_seq child = 0"
  using assms by (auto simp: create_run_if_absent_def Let_def split: if_splits)

lemma create_run_None: "snd (create_run_if_absent org wfl v ob created rec snap depth pr pt db) = None \<Longrightarrow>
    fst (create_run_if_absent org wfl v ob created rec snap depth pr pt db) = db"
  by (auto simp: create_run_if_absent_def Let_def split: if_splits)

lemma get_run_unique:
  "db_inv db \<Longrightarrow> r \<in> set (d_runs db) \<Longrightarrow> get_run db (r_org r) (r_id r) = Some r"
proof -
  assume inv: "db_inv db" and r: "r \<in> set (d_runs db)"
  then obtain r' where r': "get_run db (r_org r) (r_id r) = Some r'"
    using get_run_at [of db "r_org r" "r_id r"] by (auto simp: at_run_def)
  then have "r' = r" using get_run_SomeD [OF r'] inv r by (auto simp: db_inv_def ids_ok_def distinct_map inj_on_def)
  then show ?thesis using r' by simp
qed

lemma get_run_ev:
  assumes "get_run a org rid = Some r" "ev o2 a b"
  shows "\<exists>r'. get_run b org rid = Some r' \<and> run_key r' = run_key r"
proof -
  have r: "r \<in> set (d_runs a)" "r_id r = rid" "r_org r = org" using get_run_SomeD [OF assms(1)] by auto
  obtain r' where r': "r' \<in> set (d_runs b)" "run_key r' = run_key r"
    using rows_keptD [of a b r] r assms(2) by (auto simp: ev_def)
  then show ?thesis
    using get_run_unique [OF ev_inv [OF assms(2)] r'(1)] r by (auto simp: run_key_def)
qed

lemma ev_child_started:
  assumes inv: "db_inv db"
    and child: "create_run_if_absent org wfl v ob created rec snap depth pr pt (db\<lparr>d_next := Suc (d_next db)\<rparr>) = (db1, Some child)"
    and start: "start_run env child definition db1 = Inr db2"
  shows "ev org db db2 \<and> (\<exists>r. get_run db2 org (r_id child) = Some r \<and> r_depth r = depth)"
proof -
  let ?n = "Suc (d_next db)"
  have c: "db1 = db\<lparr>d_next := Suc ?n, d_runs := d_runs db @ [child]\<rparr>" "r_id child = ?n" "r_org child = org"
      "r_depth child = depth" "r_step_seq child = 0"
    using create_run_SomeD [OF child] by auto
  have "r_id r < d_next db" if "r \<in> set (d_runs db)" for r
    using inv that by (auto simp: db_inv_def ids_ok_def)
  then have new: "?n \<notin> r_id ` set (d_runs db)" by force
  have grow: "ev org db (db\<lparr>d_runs := d_runs db @ [child], d_tokens := d_tokens db @ ts, d_next := Suc ?n + k\<rparr>)"
    if "map tk_id ts = [Suc ?n..<Suc ?n + k]" "\<forall>t \<in> set ts. tk_org t = org \<and> tk_run t = ?n" for ts k
  proof (rule ev_grow)
    have "tk_id t \<in> set [Suc ?n..<Suc ?n + k]" if "t \<in> set ts" for t
      using that \<open>map tk_id ts = _\<close> by (metis image_eqI list.set_map)
    then show "tk_org t = org \<and> d_next db \<le> tk_id t \<and> tk_id t < Suc ?n + k" if "t \<in> set ts" for t
      using that \<open>\<forall>t \<in> set ts. _\<close> by fastforce
    show "token_count db org rid + length ts \<le> MAX_TOKENS_PER_RUN"
      if "rid \<in> r_id ` set (d_runs db)" "rid \<in> tk_run ` set ts" for rid
    proof -
      have "rid = ?n" using that(2) \<open>\<forall>t \<in> set ts. _\<close> by auto
      then show ?thesis using that(1) new by simp
    qed
  qed (use inv c that in auto)
  have "db1 = db\<lparr>d_runs := d_runs db @ [child], d_next := Suc ?n\<rparr>" using c(1) by (cases db) simp
  then have db1: "ev org db db1" using grow [of "[]" 0] by simp
  have at: "at_run db1 org ?n"
    using ev_inv [OF db1] c by (auto simp: at_run_def)
  have got: "get_run db1 org ?n = Some child"
    using get_run_unique [OF ev_inv [OF db1], of child] c by simp
  from start obtain model where ld: "load_def definition = Inr model" by (auto simp: start_run_def result_simps)
  then have model: "db2 = (let triggers = filter (\<lambda>n. n_type n = ''trigger'') (w_nodes model) in
      if triggers = [] then fail_run env org ?n ''no trigger node'' db1
      else fold (\<lambda>n. create_token (now_of env db1) child (n_id n) None None None None 0) triggers db1)"
    using start c(2,3) by (simp add: start_run_def Let_def split: if_splits)
  show ?thesis
  proof (cases "filter (\<lambda>n. n_type n = ''trigger'') (w_nodes model) = []")
    case True
    then have e: "ev org db1 db2" using model ev_fail_run [OF at] by simp
    then show ?thesis using ev_trans [OF db1 e] get_run_ev [OF got e] c by (auto simp: run_key_def)
  next
    case False
    define tr where "tr = filter (\<lambda>n. n_type n = ''trigger'') (w_nodes model)"
    obtain ts where ts: "db2 = db1\<lparr>d_tokens := d_tokens db1 @ ts, d_next := d_next db1 + length tr\<rparr>"
        "map tk_id ts = [d_next db1..<d_next db1 + length tr]" "\<forall>t \<in> set ts. tk_org t = org \<and> tk_run t = ?n"
      using fold_mints [OF mints_create [OF c(3,2)], of "now_of env db1" n_id "\<lambda>_. None" "\<lambda>_. None" None None 0 tr db1]
        model False by (auto simp: tr_def Let_def)
    have "db2 = db\<lparr>d_runs := d_runs db @ [child], d_tokens := d_tokens db @ ts, d_next := Suc ?n + length tr\<rparr>"
      using ts(1) c(1) by (cases db) simp
    moreover have "get_run db2 org ?n = get_run db1 org ?n" using ts(1) by (simp add: get_run_def)
    ultimately show ?thesis using grow [of ts "length tr"] ts(2,3) got c by simp
  qed
qed

subsection \<open>Dispatch\<close>

lemma ev_create_agent_run: "db_inv db \<Longrightarrow> ev org db (fst (create_agent_run org ag tr inp lb wr wn wt db))"
proof -
  assume inv: "db_inv db"
  have e: "ev org db (db\<lparr>d_agent_runs := d_agent_runs db @ [a]\<rparr>)" if "a_org a = org" for a
    by (rule ev_agent_runs [OF inv]) (use that in simp)
  have n: "ev org (db\<lparr>d_agent_runs := as\<rparr>) (db\<lparr>d_agent_runs := as, d_next := Suc (d_next db)\<rparr>)"
    if "db_inv (db\<lparr>d_agent_runs := as\<rparr>)" for as
    using ev_other_fields [OF that, of "Suc (d_next db)" org, where k = "d_tick db" and ns = "d_notifications db"
        and ps = "d_approvals db"] by simp
  show ?thesis
    unfolding create_agent_run_def fst_conv
    by (rule ev_trans [OF e n [OF ev_inv [OF e]]]) simp_all
qed

lemma ev_record: "at_run db (r_org run) (r_id run) \<Longrightarrow> ev (r_org run) db (fst (record_step env run node tok st outp db))"
  by (rule ev_record_step) simp_all

lemma ev_step_upd:
  "at_run db (r_org run) (r_id run) \<Longrightarrow> (\<And>s. s_run (f s) = s_run s \<and> s_index (f s) = s_index s \<and> s_org (f s) = s_org s) \<Longrightarrow>
   ev (r_org run) db (upd_step (r_id run) i f db)"
  by (rule ev_upd_step) simp_all

lemma ev_finish_agent_step:
  assumes at: "at_run db (r_org run) (r_id run)"
  shows "ev (r_org run) db (finish_agent_step env run node tok st outp err db)"
proof -
  have e: "ev (r_org run) db (fst (record_step env run node tok st x db))" for x by (rule ev_record [OF at])
  have "ev (r_org run) db (upd_step (r_id run) i (\<lambda>s. s\<lparr>s_error := err\<rparr>) (fst (record_step env run node tok st x db)))" for i x
    by (rule ev_trans [OF e ev_step_upd [OF at_run_ev [OF at e]]]) simp
  moreover have "ev (r_org run) db (upd_step (r_id run) i (\<lambda>s. s\<lparr>s_status := st,
      s_output := JObj (dmerge (obj_or_empty (s_output s)) outp), s_error := err, s_finished_at := Some n\<rparr>) db)" for i n
    by (rule ev_step_upd [OF at]) simp
  ultimately show ?thesis using e by (simp add: finish_agent_step_def Let_def)
qed

lemma ev_maybe_sample_review:
  "db_inv db \<Longrightarrow> maybe_sample_review run node outp db = Inr db' \<Longrightarrow> ev org db db'"
  using ev_other_fields [of db "d_next db" org, where k = "d_tick db" and ps = "d_approvals db"] ev_refl [of db org]
  by (auto simp: maybe_sample_review_def result_simps split: if_splits option.splits)

lemma ev_action_failed:
  assumes at: "at_run db (r_org run) (r_id run)"
    and ok: "action_failed env node token run model res i db = Inr r"
  shows "ev (r_org run) db (fst r)"
proof -
  have d: "ev (r_org run) db (set_dead_letter (r_id run) (upd_step (r_id run) i f db))"
    if "\<And>s. s_run (f s) = s_run s \<and> s_index (f s) = s_index s \<and> s_org (f s) = s_org s" for f
    by (rule ev_trans [OF ev_step_upd ev_set_dead_letter [OF at_run_ev [OF at ev_step_upd]]]) (use at that in auto)
  from ok show ?thesis
    by (auto simp: action_failed_def result_simps Let_def split: if_splits option.splits)
      (simp_all add: d ev_step_upd [OF at])
qed

lemma ev_action_succeeded:
  "at_run db (r_org run) (r_id run) \<Longrightarrow> ev (r_org run) db (fst (action_succeeded env node token run model res i db))"
  by (simp add: action_succeeded_def Let_def ev_step_upd)

lemma ev_dispatch_action:
  assumes at: "at_run db (r_org run) (r_id run)"
    and ok: "dispatch_action env node token run model db = Inr r"
  shows "ev (r_org run) db (fst r)"
proof -
  let ?st = "record_step env run node (tk_id token) SRunning None db"
  have at1: "at_run (fst ?st) (r_org run) (r_id run)" by (rule at_run_ev [OF at ev_record [OF at]])
  have "ev (r_org run) db (fst (action_succeeded env node token run model res (snd ?st) (fst ?st)))" for res
    by (rule ev_trans [OF ev_record [OF at] ev_action_succeeded [OF at1]])
  moreover have "ev (r_org run) db (fst r)" if "action_failed env node token run model res (snd ?st) (fst ?st) = Inr r" for res
    by (rule ev_trans [OF ev_record [OF at] ev_action_failed [OF at1 that]])
  ultimately show ?thesis
    using ok ev_record [OF at] ev_refl [OF at_run_inv [OF at]]
    by (auto simp: dispatch_action_def Let_def split: if_splits)
qed

lemma ev_dispatch_gateway:
  assumes at: "at_tok db (r_org run) (r_id run) tok"
    and ok: "dispatch_gateway env node tok run model db = Inr r"
  shows "ev (r_org run) db (fst r)"
proof -
  have b: "ev (r_org run) db (buffer_token tok db)" by (rule ev_buffer_token [OF at])
  have c: "ev (r_org run) db (consume_buffer env (r_org run) (r_id run) n (buffer_token tok db))" for n
    by (rule ev_trans [OF b ev_consume_buffer [OF ev_inv [OF b]]])
  have "ev (r_org run) db (fst (parallel_join env node tok run model db))"
    "ev (r_org run) db (fst (inclusive_join env node tok run model db))"
    using b c by (simp_all add: parallel_join_def inclusive_join_def Let_def)
  then show ?thesis
    using ok ev_refl [OF at_run_inv [OF at_tok_run [OF at]]]
    by (auto simp: dispatch_gateway_def Let_def result_simps split: if_splits)
qed

lemma ev_dispatch_event:
  "db_inv db \<Longrightarrow> dispatch_event env node token run model db = Inr r \<Longrightarrow> ev org db (fst r)"
  using ev_refl [of db org] by (auto simp: dispatch_event_def Let_def result_simps split: if_splits)

lemma ev_publish:
  "at_run db (r_org run) (r_id run) \<Longrightarrow> ev (r_org run) db (fst (publish env node tok run model outs db))"
  by (simp add: publish_def ev_record)

lemma ev_dispatch_decision:
  assumes at: "at_run db (r_org run) (r_id run)" and ok: "dispatch_decision env node tok run model db = Inr r"
  shows "ev (r_org run) db (fst r)"
proof -
  from ok have "fst r = db \<or> (\<exists>outs. r = publish env node tok run model outs db)"
    by (auto simp: dispatch_decision_def result_simps split: if_splits)
  then show ?thesis using ev_refl [OF at_run_inv [OF at]] ev_publish [OF at] by metis
qed

lemma ev_dispatch_script:
  assumes at: "at_run db (r_org run) (r_id run)" and ok: "dispatch_script env node tok run model db = Inr r"
  shows "ev (r_org run) db (fst r)"
proof -
  from ok have "fst r = db \<or> (\<exists>outs. r = publish env node tok run model outs db)"
    by (auto simp: dispatch_script_def result_simps split: if_splits)
  then show ?thesis using ev_refl [OF at_run_inv [OF at]] ev_publish [OF at] by metis
qed

lemma ev_park_wait:
  assumes at: "at_run db (r_org run) (r_id run)" and ok: "park_wait env node token run model db = Inr r"
  shows "ev (r_org run) db (fst r)"
  using ok ev_refl [OF at_run_inv [OF at]] ev_record [OF at]
  by (auto simp: park_wait_def Let_def result_simps split: if_splits option.splits)

lemma ev_agent_first_arrival:
  assumes at: "at_run db (r_org run) (r_id run)" and ok: "agent_first_arrival env node token run model db = Inr r"
  shows "ev (r_org run) db (fst r)"
proof -
  let ?c = "create_agent_run (r_org run) ag ''workflow'' inp lb (r_id run) (n_id node) (tk_id token) db"
  have c: "ev (r_org run) db (fst (create_agent_run (r_org run) ag tr inp lb wr wn wt db))" for ag tr inp lb wr wn wt
    by (rule ev_create_agent_run [OF at_run_inv [OF at]])
  have s: "ev (r_org run) db (fst (record_step env run node (tk_id token) st x
      (fst (create_agent_run (r_org run) ag tr inp lb wr wn wt db))))" for st x ag tr inp lb wr wn wt
    by (rule ev_trans [OF c ev_record [OF at_run_ev [OF at c]]])
  have f: "ev (r_org run) db (fst (agent_setup_failure env node token run model m db))" for m
    using ev_record [OF at] ev_trans [OF ev_record [OF at] ev_set_dead_letter [OF at_run_ev [OF at ev_record [OF at]]]]
    by (simp add: agent_setup_failure_def Let_def)
  from ok show ?thesis
    using s f ev_refl [OF at_run_inv [OF at]]
    by (auto simp: agent_first_arrival_def Let_def result_simps split: if_splits option.splits)
qed

lemma ev_agent_linked:
  assumes at: "at_run db (r_org run) (r_id run)"
  shows "ev (r_org run) db (fst (agent_linked env node token run model linked db))"
proof -
  have c: "ev (r_org run) db (fst (cancel_run (r_org run) i m db))" for i m
    unfolding cancel_run_def by (rule ev_cancel_agent_run [OF at_run_inv [OF at]])
  have "ev (r_org run) db (finish_agent_step env run node tok st out err (fst (cancel_run (r_org run) i m db)))" for tok st out err i m
    by (rule ev_trans [OF c ev_finish_agent_step [OF at_run_ev [OF at c]]])
  then show ?thesis
    using ev_refl [OF at_run_inv [OF at]] ev_finish_agent_step [OF at]
    by (simp add: agent_linked_def Let_def split: option.splits)
qed

lemma ev_dispatch_agent:
  assumes at: "at_run db (r_org run) (r_id run)" and ok: "dispatch_agent env node token run model db = Inr r"
  shows "ev (r_org run) db (fst r)"
proof -
  have fin: "ev (r_org run) db (finish_agent_step env run node tok st out err db)" for tok st out err
    by (rule ev_finish_agent_step [OF at])
  have comp: "ev (r_org run) db (fst r)" if "agent_completed env node token run model db = Inr r"
    using that ev_trans [OF fin ev_maybe_sample_review [OF ev_inv [OF fin]]]
    by (auto simp: agent_completed_def Let_def result_simps)
  show ?thesis
    using ok comp fin ev_agent_linked [OF at] ev_agent_first_arrival [OF at]
    by (auto simp: dispatch_agent_def agent_ended_badly_def Let_def split: if_splits json.splits)
qed

subsection \<open>Applying outcomes\<close>

lemma ev_apply_targets:
  assumes at: "at_tok db (r_org run) (r_id run) (tk_id token)"
  shows "ev (r_org run) db (fst (apply_targets env o1 node token run db))"
proof -
  have u: "ev (r_org run) db (upd_token (tk_id token) f db)" if "\<And>t. tok_key (f t) = tok_key t" for f
    by (rule ev_upd_token [OF at that])
  have f: "ev (r_org run) db (fail_run env (r_org run) (r_id run) m (upd_token (tk_id token) (\<lambda>t. t\<lparr>tk_status := Dead\<rparr>) db))" for m
    by (rule ev_trans [OF u ev_fail_run [OF at_run_ev [OF at_tok_run [OF at] u]]]) simp_all
  have s: "ev (r_org run) db (spawn env node token run (o_targets o1) db')"
    if "ev (r_org run) db db'" "map tok_key (d_tokens db') = map tok_key (d_tokens db)"
      "token_count db (r_org run) (r_id run) + length (o_targets o1) \<le> MAX_TOKENS_PER_RUN" for db'
    by (rule ev_trans [OF that(1) ev_spawn [OF at_run_ev [OF at_tok_run [OF at] that(1)]]])
      (use that token_count_cong [OF that(2)] in simp_all)
  have fin: "ev (r_org run) db (spawn env node token run (o_targets o1) (upd_token (tk_id token)
      (\<lambda>t. with_data (o_token_data o1) (t\<lparr>tk_status := Completed, tk_finished_at := n\<rparr>)) db))"
    if "token_count db (r_org run) (r_id run) + length (o_targets o1) \<le> MAX_TOKENS_PER_RUN" for n
    by (rule s [OF u]) (use that in \<open>simp_all add: upd_token_def map_upd_where_key\<close>)
  have "ev (r_org run) db (spawn env node token run (o_targets o1) db)"
    if "token_count db (r_org run) (r_id run) + length (o_targets o1) \<le> MAX_TOKENS_PER_RUN"
    by (rule s [OF ev_refl]) (use that at in \<open>simp_all add: at_tok_def at_run_def\<close>)
  then show ?thesis using f u fin by (simp add: apply_targets_def Let_def)
qed

lemma ev_apply_outcome:
  assumes at: "at_tok db (r_org run) (r_id run) (tk_id token)"
  shows "ev (r_org run) db (fst (apply_outcome env o1 node token run db))"
proof -
  define db1 where "db1 = (case o_variables o1 of Some vs \<Rightarrow> set_variables run vs db | None \<Rightarrow> db)"
  have e1: "ev (r_org run) db db1"
    using ev_set_variables [OF at_tok_run [OF at] refl] ev_refl [OF at_run_inv [OF at_tok_run [OF at]]]
    by (simp add: db1_def split: option.splits)
  have at1: "at_tok db1 (r_org run) (r_id run) (tk_id token)" by (rule at_tok_ev [OF at e1])
  have u: "ev (r_org run) db1 (upd_token (tk_id token) f db1)" if "\<And>t. tok_key (f t) = tok_key t" for f
    by (rule ev_upd_token [OF at1 that])
  have st: "ev (r_org run) db1 (set_status env s (tk_id token) db1)" for s by (rule ev_set_status [OF at1])
  have fl: "ev (r_org run) db1 (fail_run env (r_org run) (r_id run) m (set_status env s (tk_id token) db1))" for m s
    by (rule ev_trans [OF st ev_fail_run [OF at_run_ev [OF at_tok_run [OF at1] st]]])
  have k: "ev (r_org run) db1 (kill_all n (r_org run) (r_id run) (set_status env s (tk_id token) db1))" for n s
    by (rule ev_trans [OF st ev_kill_all [OF ev_inv [OF st]]])
  have c: "ev (r_org run) db1 (fst (cancel_runs_for_workflow_run (r_org run) (r_id run) m
      (kill_all n (r_org run) (r_id run) (set_status env s (tk_id token) db1))))" for m n s
    by (rule ev_trans [OF k ev_cancel_runs [OF ev_inv [OF k]]])
  have t: "ev (r_org run) db1 (finish_run env (r_org run) (r_id run) RSucceeded (fst (cancel_runs_for_workflow_run
      (r_org run) (r_id run) m (kill_all n (r_org run) (r_id run) (set_status env s (tk_id token) db1)))))" for m n s
    by (rule ev_trans [OF c ev_finish_run [OF at_run_ev [OF at_tok_run [OF at1] c]]])
  have "ev (r_org run) db1 (fst (apply_outcome env o1 node token run db))"
    using u st fl t ev_apply_targets [OF at1] ev_refl [OF ev_inv [OF e1]]
    unfolding apply_outcome_def Let_def db1_def [symmetric] by (cases "o_kind o1") simp_all
  then show ?thesis by (rule ev_trans [OF e1])
qed

subsection \<open>The driver interface\<close>

definition own_tok :: "db \<Rightarrow> nat \<Rightarrow> nat \<Rightarrow> bool" where
  "own_tok db org i \<longleftrightarrow> (\<exists>t \<in> set (d_tokens db). tk_id t = i \<and> tk_org t = org)"

lemma own_tok_ev: "own_tok a org i \<Longrightarrow> ev o2 a b \<Longrightarrow> own_tok b org i"
  using rows_kept_tokD [of a b] by (force simp: own_tok_def ev_def tok_key_def)

lemma ev_upd_own:
  "db_inv db \<Longrightarrow> own_tok db org i \<Longrightarrow> (\<And>t. tok_key (f t) = tok_key t) \<Longrightarrow> ev org db (upd_token i f db)"
  unfolding upd_token_def
  by (rule ev_tokens) (auto simp: own_tok_def db_inv_def ids_ok_def distinct_map inj_on_def)

lemma own_active_ids: "i \<in> set (active_ids db org rid) \<Longrightarrow> own_tok db org i"
  by (auto simp: active_ids_def list_for_run_def own_tok_def)

locale child_driver =
  fixes drive :: driver
  assumes drive_ev: "db_inv db \<Longrightarrow> drive org rid db = Inr r \<Longrightarrow> ev org db (fst r)"
begin

lemma ev_dispatch_call:
  assumes at: "at_run db (r_org run) (r_id run)" and ok: "dispatch_call drive env node token run model db = Inr r"
  shows "ev (r_org run) db (fst r)"
proof (cases "r_depth run \<ge> MAX_TOKEN_DEPTH \<or> (\<exists>m. call_target node run db = Inl m)")
  case True
  then show ?thesis
    using ok ev_refl [OF at_run_inv [OF at]] by (auto simp: dispatch_call_def split: if_splits)
next
  case False
  then obtain wv where wv: "call_target node run db = Inr wv" by (metis sum.exhaust)
  with ok False obtain inputs where inputs: "exn (resolve_call_inputs env node run db) = Inr inputs"
    by (auto simp: dispatch_call_def result_simps)
  define c where "c = create_run_if_absent (r_org run) (fst wv) (v_id (snd wv)) (d_next db) (now_of env db) (r_record run)
      (call_snapshot run inputs) (Suc (r_depth run)) (Some (r_id run)) (Some (tk_id token)) (db\<lparr>d_next := Suc (d_next db)\<rparr>)"
  show ?thesis
  proof (cases "snd c")
    case None
    then have "fst c = db\<lparr>d_next := Suc (d_next db)\<rparr>" unfolding c_def by (rule create_run_None)
    then have "fst r = db\<lparr>d_next := Suc (d_next db)\<rparr>"
      using ok False wv inputs None by (auto simp: dispatch_call_def c_def [symmetric] Let_def)
    then show ?thesis
      using ev_other_fields [OF at_run_inv [OF at], of "Suc (d_next db)" "r_org run", where k = "d_tick db"
          and ns = "d_notifications db" and ps = "d_approvals db"] by simp
  next
    case (Some child)
    then obtain db1 d where db1: "start_run env child (v_definition (snd wv)) (fst c) = Inr db1"
        and d: "drive (r_org child) (r_id child) db1 = Inr d" and r: "r = call_returned env node token run model (r_id child) (fst d)"
      using ok False wv inputs by (auto simp: dispatch_call_def c_def [symmetric] Let_def result_simps)
    have cc: "c = (fst c, Some child)" using Some by (cases c) simp
    have e1: "ev (r_org run) db db1"
      using ev_child_started [OF at_run_inv [OF at] cc [unfolded c_def] db1 [unfolded c_def]] by blast
    have org: "r_org child = r_org run" using create_run_SomeD [OF cc [unfolded c_def]] by simp
    have e2: "ev (r_org run) db (fst d)" using ev_trans [OF e1 drive_ev [OF ev_inv [OF e1] d, unfolded org]] .
    have at2: "at_run (fst d) (r_org run) (r_id run)" by (rule at_run_ev [OF at e2])
    have "ev (r_org run) (fst d) (set_dead_letter (r_id run) (fst (record_step env run node tok st x (fst d))))" for tok st x
      by (rule ev_trans [OF ev_record [OF at2] ev_set_dead_letter [OF at_run_ev [OF at2 ev_record [OF at2]]]])
    then have "ev (r_org run) (fst d) (fst r)"
      unfolding r call_returned_def Let_def using ev_record [OF at2] ev_refl [OF ev_inv [OF e2]]
      by (simp split: option.split)
    then show ?thesis by (rule ev_trans [OF e2])
  qed
qed

lemma ev_dispatch:
  assumes at: "at_tok db (r_org run) (r_id run) (tk_id token)" and ok: "dispatch drive env node token run model db = Inr r"
  shows "ev (r_org run) db (fst r)"
proof -
  note ar = at_tok_run [OF at] and inv = at_run_inv [OF at_tok_run [OF at]]
  have task: "ev (r_org run) db (fst r)" if "dispatch_task drive env node token run model db = Inr r"
    using that ev_dispatch_call [OF ar] ev_park_wait [OF ar] ev_dispatch_agent [OF ar] ev_dispatch_decision [OF ar]
      ev_dispatch_script [OF ar] ev_dispatch_action [OF ar] ev_record [OF ar]
    by (auto simp: dispatch_task_def wait_completed_def Let_def split: if_splits)
  show ?thesis
    using ok task ev_dispatch_gateway [OF at] ev_dispatch_event [OF inv] ev_refl [OF inv]
    by (auto simp: dispatch_def split: if_splits)
qed

lemma ev_advance_one:
  assumes inv: "db_inv db0" and ok: "advance_one drive env org tok db0 = Inr r"
  shows "ev org db0 (fst r)"
proof -
  define db where "db = db0\<lparr>d_tick := Suc (d_tick db0)\<rparr>"
  have e0: "ev org db0 db"
    using ev_other_fields [OF inv order.refl, of org, where k = "Suc (d_tick db0)" and ns = "d_notifications db0"
        and ps = "d_approvals db0"] by (simp add: db_def)
  note inv1 = ev_inv [OF e0]
  have "ev org db (fst r)"
  proof (cases "get_token db org tok")
    case None
    then show ?thesis using ok ev_refl [OF inv1] by (auto simp: advance_one_def db_def [symmetric])
  next
    case (Some token)
    then have tk: "token \<in> set (d_tokens db)" "tk_id token = tok" "tk_org token = org"
      by (auto simp: get_token_def dest: find_SomeD)
    have uniq: "tk_org t = org" if "t \<in> set (d_tokens db)" "tk_id t = tok" for t
      using inv1 tk that by (auto simp: db_inv_def ids_ok_def distinct_map inj_on_def)
    have u: "ev org db (upd_token tok f db)" if "\<And>t. tok_key (f t) = tok_key t" for f
      unfolding upd_token_def by (rule ev_tokens [OF inv1]) (use uniq that in auto)
    show ?thesis
    proof (cases "get_run db org (tk_run token)")
      case None
      then show ?thesis using ok Some u by (auto simp: advance_one_def db_def [symmetric])
    next
      case run: (Some run)
      then have rr: "r_id run = tk_run token" "r_org run = org" using get_run_SomeD [OF run] by auto
      have at: "at_tok db org (r_id run) tok"
        using at_run_of_get [OF inv1 run] tk rr by (auto simp: at_tok_def)
      note ar = at_tok_run [OF at]
      have v: "ev org db (upd_token tok (\<lambda>t. t\<lparr>tk_status := Dead\<rparr>) (fail_run env org (r_id run) m db))" for m
        by (rule ev_trans [OF ev_fail_run [OF ar] ev_upd_token [OF at_tok_ev [OF at ev_fail_run [OF ar]]]]) simp
      have n: "ev org db (settle_run env org (r_id run) (upd_token tok (\<lambda>t. t\<lparr>tk_status := Dead\<rparr>) db))"
        by (rule ev_trans [OF u ev_settle_run [OF ev_inv [OF u]]]) simp_all
      have d: "ev org db (settle_run env org (r_id run) (fst (apply_outcome env (snd x) node token run (fst x))))"
        if "dispatch drive env node token run model db = Inr x" for node model x
      proof -
        have at': "at_tok db (r_org run) (r_id run) (tk_id token)" using at rr tk(2) by simp
        have e1: "ev org db (fst x)" using ev_dispatch [OF at' that] rr by simp
        have e2: "ev org db (fst (apply_outcome env (snd x) node token run (fst x)))"
          using ev_trans [OF e1 ev_apply_outcome [OF at_tok_ev [OF at' e1], unfolded rr(2)]] .
        show ?thesis by (rule ev_trans [OF e2 ev_settle_run [OF ev_inv [OF e2]]])
      qed
      from ok show ?thesis
        using Some run v n d
        by (auto simp: advance_one_def db_def [symmetric] Let_def result_simps split: option.splits)
    qed
  qed
  then show ?thesis by (rule ev_trans [OF e0])
qed

lemma ev_drive_pass:
  "\<forall>i \<in> set ids. own_tok db org i \<Longrightarrow> db_inv db \<Longrightarrow> drive_pass drive env org ids db tot = Inr r \<Longrightarrow> ev org db (fst r)"
proof (induction ids arbitrary: db tot)
  case Nil
  then show ?case by (auto intro: ev_refl)
next
  case (Cons i ids)
  let ?db1 = "upd_token i (\<lambda>t. t\<lparr>tk_status := Running\<rparr>) db"
  have e1: "ev org db ?db1" by (rule ev_upd_own) (use Cons.prems in simp_all)
  from Cons.prems(3) obtain x where x: "advance_one drive env org i ?db1 = Inr x"
    "drive_pass drive env org ids (fst x) (bump tot (snd x)) = Inr r"
    by (auto simp: result_simps)
  have e2: "ev org db (fst x)" by (rule ev_trans [OF e1 ev_advance_one [OF ev_inv [OF e1] x(1)]])
  have "\<forall>j \<in> set ids. own_tok (fst x) org j"
    using Cons.prems(1) own_tok_ev [OF _ e2] by auto
  then show ?case using ev_trans [OF e2 Cons.IH [OF _ ev_inv [OF e2] x(2)]] by blast
qed

lemma ev_drive_passes:
  "db_inv db \<Longrightarrow> drive_passes n drive env org rid db tot = Inr r \<Longrightarrow> ev org db (fst r)"
proof (induction n arbitrary: db tot)
  case 0
  then show ?case by (auto intro: ev_refl)
next
  case (Suc n)
  show ?case
  proof (cases "active_ids db org rid = []")
    case True
    then show ?thesis using Suc.prems by (auto intro: ev_refl)
  next
    case False
    with Suc.prems(2) obtain x where x: "drive_pass drive env org (active_ids db org rid) db tot = Inr x"
      "drive_passes n drive env org rid (fst x) (snd x) = Inr r"
      by (auto simp: result_simps)
    have e1: "ev org db (fst x)"
      by (rule ev_drive_pass [OF _ Suc.prems(1) x(1)]) (simp add: own_active_ids)
    show ?thesis by (rule ev_trans [OF e1 Suc.IH [OF ev_inv [OF e1] x(2)]])
  qed
qed

end

text \<open>The engine's own recursion keeps the contract at every depth.\<close>

lemma drive_run_d_ev: "db_inv db \<Longrightarrow> drive_run_d d env org rid db = Inr r \<Longrightarrow> ev org db (fst r)"
proof (induction d arbitrary: org rid db r)
  case (Suc d)
  have "child_driver (drive_run_d d env)" by unfold_locales (rule Suc.IH)
  then show ?case
    using Suc.prems child_driver.ev_drive_passes ev_refl [OF Suc.prems(1)]
    by (auto split: if_splits)
qed simp

interpretation nested: child_driver "drive_run_d d env" for d env
  by unfold_locales (rule drive_run_d_ev)

interpretation engine: child_driver "drive_run env" for env
  by unfold_locales (simp add: drive_run_def drive_run_d_ev)

subsection \<open>The nesting of calls never exhausts the fuel\<close>

lemma exn_no_fuel [simp]: "exn r \<noteq> Inl OutOfFuel"
  by (simp add: exn_def split: sum.splits)

lemma bind_no_fuel:
  "(\<And>a. r = Inr a \<Longrightarrow> g a \<noteq> Inl OutOfFuel) \<Longrightarrow> r \<noteq> Inl OutOfFuel \<Longrightarrow> bind_res r g \<noteq> Inl OutOfFuel"
  by (cases r) auto

lemma no_fuel_error:
  "dispatch_gateway env node tok run model db \<noteq> Inl OutOfFuel"
  "dispatch_event env node token run model db \<noteq> Inl OutOfFuel"
  "dispatch_decision env node tok run model db \<noteq> Inl OutOfFuel"
  "dispatch_script env node tok run model db \<noteq> Inl OutOfFuel"
  "dispatch_action env node token run model db \<noteq> Inl OutOfFuel"
  "dispatch_agent env node token run model db \<noteq> Inl OutOfFuel"
  "park_wait env node token run model db \<noteq> Inl OutOfFuel"
  by (auto simp: dispatch_gateway_def exclusive_route_def dispatch_event_def dispatch_decision_def dispatch_script_def
      dispatch_action_def action_failed_def dispatch_agent_def agent_completed_def agent_first_arrival_def
      maybe_sample_review_def park_wait_def Let_def result_simps
      split: if_splits option.splits json.splits)

text \<open>The driver with \<open>f\<close> levels left serves runs of depth at least \<open>33 - f\<close>.\<close>

locale fuelled_driver = child_driver +
  fixes f :: nat
  assumes enough: "db_inv db \<Longrightarrow> get_run db org rid = Some run \<Longrightarrow> 0 < f \<Longrightarrow> DRIVE_FUEL \<le> f + r_depth run \<Longrightarrow>
    drive org rid db \<noteq> Inl OutOfFuel"
begin

lemma call_no_fuel_error:
  assumes at: "at_run db (r_org run) (r_id run)" and f: "DRIVE_FUEL \<le> Suc f + r_depth run"
  shows "dispatch_call drive env node token run model db \<noteq> Inl OutOfFuel"
proof
  assume bad: "dispatch_call drive env node token run model db = Inl OutOfFuel"
  then have d: "r_depth run < MAX_TOKEN_DEPTH" by (auto simp: dispatch_call_def split: if_splits)
  from bad d obtain wv where wv: "call_target node run db = Inr wv"
    by (auto simp: dispatch_call_def split: sum.splits)
  from bad d wv obtain inputs where inputs: "exn (resolve_call_inputs env node run db) = Inr inputs"
    by (auto simp: dispatch_call_def exn_def result_simps split: sum.splits)
  define c where "c = create_run_if_absent (r_org run) (fst wv) (v_id (snd wv)) (d_next db) (now_of env db) (r_record run)
      (call_snapshot run inputs) (Suc (r_depth run)) (Some (r_id run)) (Some (tk_id token)) (db\<lparr>d_next := Suc (d_next db)\<rparr>)"
  obtain child where child: "snd c = Some child"
    using bad d wv inputs by (cases "snd c") (auto simp: dispatch_call_def c_def [symmetric] Let_def)
  have start: "start_run env child (v_definition (snd wv)) (fst c) \<noteq> Inl OutOfFuel"
    by (auto simp: start_run_def load_def_def result_simps Let_def split: sum.splits if_splits)
  with bad d wv inputs child obtain db1 where db1: "start_run env child (v_definition (snd wv)) (fst c) = Inr db1"
      and drv: "drive (r_org child) (r_id child) db1 = Inl OutOfFuel"
    by (auto simp: dispatch_call_def c_def [symmetric] Let_def result_simps)
  have cc: "c = (fst c, Some child)" using child by (cases c) simp
  have e: "ev (r_org run) db db1" and "\<exists>r. get_run db1 (r_org run) (r_id child) = Some r \<and> r_depth r = Suc (r_depth run)"
    using ev_child_started [OF at_run_inv [OF at] cc [unfolded c_def] db1 [unfolded c_def]] by auto
  moreover have "r_org child = r_org run" using create_run_SomeD [OF cc [unfolded c_def]] by simp
  ultimately show False
    using enough [OF ev_inv [OF e], of "r_org run" "r_id child"] drv f d
    by (auto simp: DRIVE_FUEL_def MAX_TOKEN_DEPTH_def)
qed

lemma dispatch_no_fuel_error:
  assumes at: "at_run db (r_org run) (r_id run)" and f: "DRIVE_FUEL \<le> Suc f + r_depth run"
  shows "dispatch drive env node token run model db \<noteq> Inl OutOfFuel"
proof -
  have "dispatch_task drive env node token run model db \<noteq> Inl OutOfFuel"
    using call_no_fuel_error [OF at f] unfolding dispatch_task_def Let_def
    by (simp add: no_fuel_error)
  then show ?thesis by (simp add: dispatch_def no_fuel_error)
qed

lemma advance_one_no_fuel_error:
  assumes inv: "db_inv db" and f: "DRIVE_FUEL \<le> Suc f + d"
    and depth: "\<And>t run. get_token db org tok = Some t \<Longrightarrow> get_run db org (tk_run t) = Some run \<Longrightarrow> r_depth run = d"
  shows "advance_one drive env org tok db \<noteq> Inl OutOfFuel"
proof
  assume bad: "advance_one drive env org tok db = Inl OutOfFuel"
  define db1 where "db1 = db\<lparr>d_tick := Suc (d_tick db)\<rparr>"
  have e: "ev org db db1"
    using ev_other_fields [OF inv order.refl, of org, where k = "Suc (d_tick db)" and ns = "d_notifications db"
        and ps = "d_approvals db"] by (simp add: db1_def)
  from bad obtain t run version model node where t: "get_token db1 org tok = Some t" "get_run db1 org (tk_run t) = Some run"
      and disp: "dispatch drive env node t run model db1 = Inl OutOfFuel"
    by (auto simp: advance_one_def db1_def [symmetric] load_def_def result_simps Let_def
        split: option.splits sum.splits)
  have "get_token db1 = get_token db" "get_run db1 = get_run db"
    by (auto simp: db1_def get_token_def get_run_def fun_eq_iff)
  then have d: "r_depth run = d" using depth t by simp
  have rr: "r_id run = tk_run t" "r_org run = org" using get_run_SomeD [OF t(2)] by auto
  have "at_run db1 (r_org run) (r_id run)" using at_run_of_get [OF ev_inv [OF e] t(2)] rr by simp
  then show False using dispatch_no_fuel_error disp f d by blast
qed

lemma pass_no_fuel_error:
  "\<forall>i \<in> set ids. at_tok db org rid i \<Longrightarrow> db_inv db \<Longrightarrow> get_run db org rid = Some run \<Longrightarrow>
   DRIVE_FUEL \<le> Suc f + r_depth run \<Longrightarrow> drive_pass drive env org ids db tot \<noteq> Inl OutOfFuel"
proof (induction ids arbitrary: db tot run)
  case (Cons i ids)
  let ?db1 = "upd_token i (\<lambda>t. t\<lparr>tk_status := Running\<rparr>) db"
  have at: "at_tok db org rid i" using Cons.prems(1) by simp
  have e1: "ev org db ?db1" by (rule ev_upd_token [OF at]) simp
  obtain run1 where run1: "get_run ?db1 org rid = Some run1" "run_key run1 = run_key run"
    using get_run_ev [OF Cons.prems(3) e1] by blast
  have adv: "advance_one drive env org i ?db1 \<noteq> Inl OutOfFuel"
  proof (rule advance_one_no_fuel_error [OF ev_inv [OF e1] Cons.prems(4)])
    fix t r assume t: "get_token ?db1 org i = Some t" "get_run ?db1 org (tk_run t) = Some r"
    have "tk_run t = rid"
      using at_tok_unique [OF at_tok_ev [OF at e1], of t] t(1) by (auto simp: get_token_def dest: find_SomeD)
    then show "r_depth r = r_depth run" using t(2) run1 by (simp add: run_key_def)
  qed
  show ?case
  proof
    assume "drive_pass drive env org (i # ids) db tot = Inl OutOfFuel"
    with adv obtain x where x: "advance_one drive env org i ?db1 = Inr x"
      "drive_pass drive env org ids (fst x) (bump tot (snd x)) = Inl OutOfFuel"
      by (auto simp: result_simps)
    have e2: "ev org db (fst x)" by (rule ev_trans [OF e1 ev_advance_one [OF ev_inv [OF e1] x(1)]])
    obtain run2 where run2: "get_run (fst x) org rid = Some run2" "run_key run2 = run_key run"
      using get_run_ev [OF Cons.prems(3) e2] by blast
    have "\<forall>j \<in> set ids. at_tok (fst x) org rid j" using Cons.prems(1) at_tok_ev [OF _ e2] by auto
    moreover have "DRIVE_FUEL \<le> Suc f + r_depth run2" using Cons.prems(4) run2(2) by (simp add: run_key_def)
    ultimately show False using Cons.IH [OF _ ev_inv [OF e2] run2(1)] x(2) by blast
  qed
qed simp

lemma passes_no_fuel_error:
  "db_inv db \<Longrightarrow> get_run db org rid = Some run \<Longrightarrow> DRIVE_FUEL \<le> Suc f + r_depth run \<Longrightarrow>
   drive_passes n drive env org rid db tot \<noteq> Inl OutOfFuel"
proof (induction n arbitrary: db tot run)
  case (Suc n)
  have at: "\<forall>i \<in> set (active_ids db org rid). at_tok db org rid i"
    using at_run_of_get [OF Suc.prems(1,2)] by (auto simp: active_ids_def list_for_run_def at_tok_def)
  show ?case
  proof
    assume "drive_passes (Suc n) drive env org rid db tot = Inl OutOfFuel"
    with pass_no_fuel_error [OF at Suc.prems] obtain x where
      x: "drive_pass drive env org (active_ids db org rid) db tot = Inr x"
        "drive_passes n drive env org rid (fst x) (snd x) = Inl OutOfFuel"
      by (auto simp: result_simps split: if_splits)
    have e: "ev org db (fst x)"
      by (rule ev_drive_pass [OF _ Suc.prems(1) x(1)]) (simp add: own_active_ids)
    obtain run2 where run2: "get_run (fst x) org rid = Some run2" "run_key run2 = run_key run"
      using get_run_ev [OF Suc.prems(2) e] by blast
    then show False
      using Suc.IH [OF ev_inv [OF e] run2(1)] x(2) Suc.prems(3) by (simp add: run_key_def)
  qed
qed simp

end

lemma drive_run_d_enough:
  "db_inv db \<Longrightarrow> get_run db org rid = Some run \<Longrightarrow> 0 < d \<Longrightarrow> DRIVE_FUEL \<le> d + r_depth run \<Longrightarrow>
   drive_run_d d env org rid db \<noteq> Inl OutOfFuel"
proof (induction d arbitrary: org rid db run)
  case (Suc d)
  have "fuelled_driver (drive_run_d d env) d" by unfold_locales (rule Suc.IH)
  then show ?case
    using Suc.prems fuelled_driver.passes_no_fuel_error [of "drive_run_d d env" d db org rid run] by simp
qed simp

interpretation nested_fuel: fuelled_driver "drive_run_d d env" d for d env
  by unfold_locales (rule drive_run_d_enough)

end
