(* ===== verification/Wf_Engine_Props.thy ===== *)
theory Wf_Engine_Props
  imports Wf_Engine_Inv
begin

section \<open>What the token engine guarantees\<close>

text \<open>
  The properties of the engine: the joins, the settlement of runs, signals, timers, the
  agent wire-back, retries, and, through the invariant, the step trace, tenant isolation,
  the token budget and the bounded nesting of calls. The last part shows, on small
  concrete runs, behaviour of the code that its documentation does not describe.
\<close>

subsection \<open>Joins\<close>

definition edge_served :: "db \<Rightarrow> nat \<Rightarrow> nat \<Rightarrow> string \<Rightarrow> nat \<Rightarrow> string \<times> string option \<Rightarrow> bool" where
  "edge_served db org rid node tok e \<longleftrightarrow> (\<exists>u \<in> set (d_tokens db).
     (tk_id u = tok \<or> is_buffered org rid node WJoin u) \<and> tk_from u = Some (fst e) \<and> tk_via u = snd e)"

definition as_buffered :: "nat \<Rightarrow> token \<Rightarrow> token" where
  "as_buffered tok u = (if tk_id u = tok then u\<lparr>tk_status := Waiting, tk_wait := Some WJoin, tk_finished_at := None\<rparr> else u)"

lemma tokens_buffered: "d_tokens (buffer_token tok db) = map (as_buffered tok) (d_tokens db)"
  by (simp add: buffer_token_def upd_token_def upd_where_def as_buffered_def)

lemma as_buffered_fields [simp]:
  "tk_from (as_buffered tok u) = tk_from u" "tk_via (as_buffered tok u) = tk_via u"
  "tk_node (as_buffered tok u) = tk_node u" "tk_id (as_buffered tok u) = tk_id u"
  "tk_run (as_buffered tok u) = tk_run u" "tk_org (as_buffered tok u) = tk_org u"
  by (simp_all add: as_buffered_def)

lemma is_buffered_as:
  assumes inv: "db_inv db" and t: "t \<in> set (d_tokens db)"
    and tk: "tk_org t = org" "tk_run t = rid" "tk_node t = node" and u: "u \<in> set (d_tokens db)"
  shows "is_buffered org rid node WJoin (as_buffered (tk_id t) u) \<longleftrightarrow> tk_id u = tk_id t \<or> is_buffered org rid node WJoin u"
proof -
  have "u = t" if "tk_id u = tk_id t"
    using inv t u that by (auto simp: db_inv_def ids_ok_def distinct_map inj_on_def)
  then show ?thesis using tk by (auto simp: as_buffered_def is_buffered_def)
qed

lemma served_iff:
  assumes "db_inv db" "t \<in> set (d_tokens db)" "tk_org t = org" "tk_run t = rid" "tk_node t = node"
  shows "(Some (fst e), snd e) \<in> set (map (\<lambda>t. (tk_from t, tk_via t)) (buffered_at (buffer_token (tk_id t) db) org rid node WJoin))
     \<longleftrightarrow> edge_served db org rid node (tk_id t) e"
  using is_buffered_as [OF assms]
  by (auto simp: buffered_at_def tokens_buffered edge_served_def filter_map image_iff)

lemma upd_where_none: "(\<And>x. p x \<Longrightarrow> \<not> p (f x)) \<Longrightarrow> y \<in> set (upd_where p f xs) \<Longrightarrow> \<not> p y"
  by (induction xs) (auto split: if_splits)

lemma consumed_none: "t' \<in> set (d_tokens (consume_buffer env org rid node db)) \<Longrightarrow> \<not> is_buffered org rid node WJoin t'"
  unfolding consume_buffer_def by (simp, rule upd_where_none [of "is_buffered org rid node WJoin"]) (auto simp: is_buffered_def)

text \<open>
  A parallel join fires exactly when every incoming edge has a token, the arriving one or one
  buffered before: it then emits on every outgoing edge and no token stays buffered at the
  join; otherwise nothing happens except that the arriving token is buffered.
\<close>

theorem parallel_join_spec:
  assumes "db_inv db" "t \<in> set (d_tokens db)"
    and "tk_org t = r_org run" "tk_run t = r_id run" "tk_node t = n_id node"
  shows "(if \<forall>e \<in> set (incoming_edges model (n_id node)). edge_served db (r_org run) (r_id run) (n_id node) (tk_id t) e
     then o_kind (snd (parallel_join env node (tk_id t) run model db)) = KEmit
        \<and> o_targets (snd (parallel_join env node (tk_id t) run model db)) = out_edges model (n_id node)
        \<and> (\<forall>u \<in> set (d_tokens (fst (parallel_join env node (tk_id t) run model db))).
             \<not> is_buffered (r_org run) (r_id run) (n_id node) WJoin u)
     else parallel_join env node (tk_id t) run model db = (buffer_token (tk_id t) db, outcome KNoop))"
proof -
  note s = served_iff [OF assms]
  show ?thesis
    using consumed_none unfolding parallel_join_def Let_def list_all_iff s by (simp add: outcome_def)
qed

text \<open>A run with a diamond: the token of the left branch arrives, that of the right one is buffered.\<close>

definition tok0 :: token where
  "tok0 = \<lparr>tk_id = 0, tk_created = 0, tk_org = 1, tk_run = 7, tk_node = [], tk_from = None, tk_via = None,
     tk_status = Active, tk_wait = None, tk_resume_at = None, tk_corr = None, tk_parent = None,
     tk_created_by = None, tk_depth = 0, tk_lease_owner = None, tk_leased_at = None, tk_data = [],
     tk_finished_at = None\<rparr>"

definition run0 :: wrun where
  "run0 = \<lparr>r_id = 7, r_created = 0, r_org = 1, r_workflow = 2, r_version = 3, r_outbox = 4, r_record = None,
     r_status = RRunning, r_matched = False, r_snapshot = [], r_error = None, r_finished_at = None, r_depth = 0,
     r_variables = [], r_step_seq = 0, r_parent_run = None, r_parent_token = None, r_dead_letter = False\<rparr>"

definition db_of :: "token list \<Rightarrow> wdef \<Rightarrow> db" where
  "db_of ts w = \<lparr>d_tokens = ts, d_runs = [run0], d_steps = [], d_agent_runs = [], d_approvals = [],
     d_notifications = [], d_versions = [\<lparr>v_id = 3, v_org = 1, v_status = ''published'', v_definition = w\<rparr>],
     d_workflows = [], d_agents = [], d_next = 100, d_tick = 0\<rparr>"

definition env0 :: env where
  "env0 = \<lparr>e_now = (\<lambda>_. 0), e_lock = (\<lambda>_ _. True),
     e_exec = (\<lambda>_ _. \<lparr>ar_ok = True, ar_output = JNull, ar_error = None\<rparr>), e_uniform = (\<lambda>_ c. c),
     e_max_run_steps = 200, e_worker = ''w''\<rparr>"

definition join_def :: "string \<Rightarrow> wdef" where
  "join_def gw = \<lparr>w_version = 2,
     w_nodes = [node_of ''a'' ''task'' [], node_of ''b'' ''task'' [], node_of ''j'' ''gateway'' [(''gateway_type'', JStr gw)]],
     w_edges = [edge ''a'' ''j'', edge ''b'' ''j'']\<rparr>"

lemmas example_defs = tok0_def run0_def db_of_def env0_def edge_def node_of_def join_def_def

lemma db_inv_example: "distinct (map tk_id ts) \<Longrightarrow> \<forall>t \<in> set ts. tk_id t < 100 \<Longrightarrow> db_inv (db_of ts w)"
  by (simp add: db_inv_def ids_ok_def steps_dense_def step_indexes_def db_of_def run0_def)

definition left_arrives :: token where
  "left_arrives = tok0\<lparr>tk_id := 10, tk_node := ''j'', tk_from := Some ''a''\<rparr>"
definition right_buffered :: token where
  "right_buffered = tok0\<lparr>tk_id := 11, tk_node := ''j'', tk_from := Some ''b'', tk_status := Waiting, tk_wait := Some WJoin\<rparr>"

theorem parallel_join_spec_witness:
  "o_kind (snd (parallel_join env0 (node_of ''j'' ''gateway'' []) 10 run0 (join_def ''parallel'')
     (db_of [left_arrives, right_buffered] (join_def ''parallel'')))) = KEmit"
proof -
  let ?db = "db_of [left_arrives, right_buffered] (join_def ''parallel'')"
  have inv: "db_inv ?db" by (rule db_inv_example) (simp_all add: left_arrives_def right_buffered_def tok0_def)
  have all: "\<forall>e \<in> set (incoming_edges (join_def ''parallel'') ''j''). edge_served ?db 1 7 ''j'' 10 e"
    by (simp add: incoming_edges_def edge_served_def is_buffered_def left_arrives_def right_buffered_def example_defs)
  show ?thesis
    using parallel_join_spec [OF inv, of left_arrives run0 "node_of ''j'' ''gateway'' []" "join_def ''parallel''" env0] all
    by (simp add: db_of_def left_arrives_def tok0_def run0_def node_of_def)
qed

definition may_arrive :: "db \<Rightarrow> nat \<Rightarrow> nat \<Rightarrow> wdef \<Rightarrow> string \<Rightarrow> nat \<Rightarrow> bool" where
  "may_arrive db org rid model node tok \<longleftrightarrow> (\<exists>u \<in> set (d_tokens db). tk_run u = rid \<and> tk_org u = org \<and> tk_id u \<noteq> tok
     \<and> is_live u \<and> \<not> (tk_node u = node \<and> tk_wait u = Some WJoin)
     \<and> (tk_node u, node) \<in> {(e_source e, e_target e) | e. e \<in> set (w_edges model)}\<^sup>*)"

lemma others_may_arrive:
  assumes "db_inv db" "t \<in> set (d_tokens db)" "tk_org t = org" "tk_run t = rid" "tk_node t = node"
  shows "node \<in> set (forward_reachable_nodes model (map tk_node (filter (other_live node)
      (list_for_run (buffer_token (tk_id t) db) org rid)))) \<longleftrightarrow> may_arrive db org rid model node (tk_id t)"
proof -
  have links: "set (edge_links model) = {(e_source e, e_target e) | e. e \<in> set (w_edges model)}"
    by (auto simp: edge_links_def)
  have same: "u = t" if "u \<in> set (d_tokens db)" "tk_id u = tk_id t" for u
    using assms(1,2) that by (auto simp: db_inv_def ids_ok_def distinct_map inj_on_def)
  have "other_live node (as_buffered (tk_id t) u) \<longleftrightarrow> tk_id u \<noteq> tk_id t \<and> other_live node u" if "u \<in> set (d_tokens db)" for u
    using same [OF that] assms(5) by (auto simp: as_buffered_def other_live_def)
  then have "set (map tk_node (filter (other_live node) (list_for_run (buffer_token (tk_id t) db) org rid)))
      = {tk_node u | u. u \<in> set (d_tokens db) \<and> tk_run u = rid \<and> tk_org u = org \<and> tk_id u \<noteq> tk_id t \<and> other_live node u}"
    by (force simp: list_for_run_def tokens_buffered filter_map comp_def image_iff)
  then show ?thesis
    unfolding forward_reachable_nodes_def walk.search_iff links may_arrive_def other_live_def by auto
qed

text \<open>
  C5. An inclusive join fires exactly when no other live token of the run can still reach it along the
  edges of the graph, counting as arrived the tokens buffered at it: it then emits on every outgoing
  edge and empties its buffer; otherwise the arriving token is only buffered. A boundary event is not
  joined to its task by an edge, so a token that would reach the join through the boundary of its task does
  not hold it back (\<open>inclusive_join_fires_before_boundary\<close> in \<open>Wf_Engine_Runs\<close>).
\<close>

theorem inclusive_join_spec:
  assumes "db_inv db" "t \<in> set (d_tokens db)"
    and "tk_org t = r_org run" "tk_run t = r_id run" "tk_node t = n_id node"
  shows "(if may_arrive db (r_org run) (r_id run) model (n_id node) (tk_id t)
     then inclusive_join env node (tk_id t) run model db = (buffer_token (tk_id t) db, outcome KNoop)
     else o_kind (snd (inclusive_join env node (tk_id t) run model db)) = KEmit
        \<and> o_targets (snd (inclusive_join env node (tk_id t) run model db)) = out_edges model (n_id node)
        \<and> (\<forall>u \<in> set (d_tokens (fst (inclusive_join env node (tk_id t) run model db))).
             \<not> is_buffered (r_org run) (r_id run) (n_id node) WJoin u))"
  using others_may_arrive [OF assms, of model] consumed_none
  unfolding inclusive_join_def Let_def by (simp add: outcome_def)

text \<open>The witness: the only other token of the run is past the join, so the join fires.\<close>

definition elsewhere :: token where
  "elsewhere = tok0\<lparr>tk_id := 11, tk_node := ''z''\<rparr>"

theorem inclusive_join_spec_witness:
  "o_kind (snd (inclusive_join env0 (node_of ''j'' ''gateway'' []) 10 run0 (join_def ''inclusive'')
     (db_of [left_arrives, elsewhere] (join_def ''inclusive'')))) = KEmit"
proof -
  let ?db = "db_of [left_arrives, elsewhere] (join_def ''inclusive'')"
  have inv: "db_inv ?db" by (rule db_inv_example) (simp_all add: left_arrives_def elsewhere_def tok0_def)
  let ?E = "{(e_source e, e_target e) | e. e \<in> set (w_edges (join_def ''inclusive''))}"
  have "(''z'', y) \<notin> ?E" for y by (auto simp: example_defs)
  then have "(''z'', ''j'') \<notin> ?E\<^sup>*" by (auto elim: converse_rtranclE)
  then have none: "\<not> may_arrive ?db 1 7 (join_def ''inclusive'') ''j'' 10"
    by (auto simp: may_arrive_def left_arrives_def elsewhere_def db_of_def tok0_def)
  show ?thesis
    using inclusive_join_spec [OF inv, of left_arrives run0 "node_of ''j'' ''gateway'' []" "join_def ''inclusive''" env0] none
    by (simp add: db_of_def left_arrives_def tok0_def run0_def node_of_def)
qed

subsection \<open>Settlement\<close>

lemma find_upd_where:
  "(\<And>x. q (f x) = q x) \<Longrightarrow> find q (upd_where p f xs) = map_option (\<lambda>x. if p x then f x else x) (find q xs)"
  by (induction xs) auto

lemma get_run_upd_run:
  "get_run db org rid = Some r \<Longrightarrow> (\<And>x. r_id (f x) = r_id x \<and> r_org (f x) = r_org x) \<Longrightarrow>
   get_run (upd_run rid f db) org rid = Some (f r)"
  by (auto simp: get_run_def upd_run_def find_upd_where dest: find_SomeD)

lemma get_run_signal_parent [simp]: "get_run (signal_parent org i db) o2 rid = get_run db o2 rid"
  by (simp add: signal_parent_def get_run_def Let_def split: option.splits prod.splits)

lemma list_for_run_upd_run [simp]: "list_for_run (upd_run i f db) org rid = list_for_run db org rid"
  by (simp add: list_for_run_def upd_run_def)

definition status_of_tokens :: "token list \<Rightarrow> run_status" where
  "status_of_tokens ts = (if \<exists>t \<in> set ts. tk_status t \<in> {Active, Running} then RRunning
     else if \<exists>t \<in> set ts. tk_status t = Waiting then RWaiting else RSucceeded)"

text \<open>
  C6. Settling derives the status of a run from its tokens: running while one is active or leased,
  waiting while the live ones are all parked, succeeded, with the finish recorded, when none is
  live; a run that is already terminal is left exactly as it is.
\<close>

theorem settle_run_status:
  assumes "get_run db org rid = Some run"
  shows "(if is_terminal (r_status run) then settle_run env org rid db = db
     else \<exists>run'. get_run (settle_run env org rid db) org rid = Some run'
        \<and> r_status run' = status_of_tokens (list_for_run db org rid)
        \<and> (r_status run' = RSucceeded \<longrightarrow> r_finished_at run' = Some (now_of env db) \<and> r_matched run'))"
  using assms
  by (auto simp: settle_run_def finish_run_def status_of_tokens_def list_ex_iff get_run_upd_run Let_def image_iff)

theorem settle_run_status_witness:
  "\<exists>run'. get_run (settle_run env0 1 7 (db_of [left_arrives\<lparr>tk_status := Dead\<rparr>] (join_def ''parallel''))) 1 7 = Some run'
     \<and> r_status run' = RSucceeded"
proof -
  let ?db = "db_of [left_arrives\<lparr>tk_status := Dead\<rparr>] (join_def ''parallel'')"
  have g: "get_run ?db 1 7 = Some run0" by (simp add: get_run_def db_of_def run0_def)
  show ?thesis
    using settle_run_status [OF g, of env0]
    by (auto simp: run0_def is_terminal_def status_of_tokens_def list_for_run_def db_of_def left_arrives_def tok0_def)
qed

subsection \<open>Signals, timers and the wire-back\<close>

text \<open>
  C7. A signal completes at most one token, and only one that waits on a human task, a message, a
  sub-process or an event gateway of that run (and at the named node or correlation key, when
  given): the token becomes active and carries the completion. Every other token of the
  database, an agent's, a timer's or a join's among them, is untouched, and when nothing
  matches nothing changes at all.
\<close>

theorem signal_token_spec:
  assumes inv: "db_inv db" and sig: "signal_token run node corr variables outp db = (db', hit)"
  shows "if hit then \<exists>t \<in> set (d_tokens db). signalable (r_org run) (r_id run) node corr t
        \<and> d_tokens db' = map (\<lambda>u. if tk_id u = tk_id t then completed_by outp t else u) (d_tokens db)
     else db' = db \<and> (\<forall>t \<in> set (d_tokens db). \<not> signalable (r_org run) (r_id run) node corr t)"
proof (cases "filter (signalable (r_org run) (r_id run) node corr) (d_tokens db)")
  case Nil
  then show ?thesis using sig by (auto simp: signal_token_def filter_empty_conv)
next
  case (Cons t ts)
  then have "t \<in> set (filter (signalable (r_org run) (r_id run) node corr) (d_tokens db))" by simp
  then have t: "t \<in> set (d_tokens db)" "signalable (r_org run) (r_id run) node corr t" by auto
  have same: "u = t" if "u \<in> set (d_tokens db)" "tk_id u = tk_id t" for u
    using inv t(1) that by (auto simp: db_inv_def ids_ok_def distinct_map inj_on_def)
  have "d_tokens db' = upd_where (\<lambda>u. tk_id u = tk_id t) (completed_by outp) (d_tokens db)" and "hit"
    using sig Cons by (auto simp: signal_token_def upd_token_def set_variables_def upd_run_def)
  then have "d_tokens db' = map (\<lambda>u. if tk_id u = tk_id t then completed_by outp t else u) (d_tokens db)"
    using same by (auto simp: upd_where_def)
  then show ?thesis using t \<open>hit\<close> by auto
qed

text \<open>The witness: an agent's parked token cannot be completed by a signal.\<close>

definition agent_parked :: token where
  "agent_parked = tok0\<lparr>tk_id := 10, tk_node := ''j'', tk_status := Waiting, tk_wait := Some WAgent\<rparr>"

theorem signal_token_spec_witness:
  "signal_token run0 (Some ''j'') None [] [] (db_of [agent_parked] (join_def ''parallel'')) =
     (db_of [agent_parked] (join_def ''parallel''), False)"
proof -
  let ?db = "db_of [agent_parked] (join_def ''parallel'')"
  have inv: "db_inv ?db" by (rule db_inv_example) (simp_all add: agent_parked_def tok0_def)
  obtain db' hit where s: "signal_token run0 (Some ''j'') None [] [] ?db = (db', hit)" by fastforce
  have "\<not> signalable o1 r1 n1 c1 agent_parked" for o1 r1 n1 c1
    by (simp add: signalable_def agent_parked_def SIGNALABLE_WAIT_KINDS_def)
  then show ?thesis using signal_token_spec [OF inv s] s by (auto simp: db_of_def split: if_splits)
qed

lemma mem_insert_due: "set (insert_due t us) = insert t (set us)"
  by (induction t us rule: insert_due.induct) auto

lemma length_insert_due: "length (insert_due t us) = Suc (length us)"
  by (induction t us rule: insert_due.induct) auto

lemma set_foldr_insert_due: "set (foldr insert_due ts []) = set ts"
  by (induction ts) (auto simp: mem_insert_due)

lemma length_foldr_insert_due: "length (foldr insert_due ts []) = length ts"
  by (induction ts) (auto simp: length_insert_due)

lemma due_ids_sub: "i \<in> set (due_ids limit now db) \<Longrightarrow> \<exists>t \<in> set (d_tokens db). tk_id t = i \<and> is_due now t"
  using set_foldr_insert_due [of "filter (is_due now) (d_tokens db)"]
  by (auto simp: due_ids_def dest!: in_set_takeD)

text \<open>
  The timer sweep reactivates only tokens that are due: parked on a timer, a boundary, a retry,
  or an armed task or agent deadline that has passed, or leased by a worker for longer than
  the lease. It changes nothing of a token but its status and lease, and when the batch limit
  allows it reactivates every due token.
\<close>

theorem resume_due_tokens_spec:
  assumes inv: "db_inv db"
  shows "d_tokens (fst (resume_due_tokens env limit db)) =
      map (\<lambda>t. if tk_id t \<in> set (due_ids limit (now_of env db) db)
             then t\<lparr>tk_status := Active, tk_lease_owner := None, tk_leased_at := None\<rparr> else t) (d_tokens db)
    \<and> (\<forall>t \<in> set (d_tokens db). tk_id t \<in> set (due_ids limit (now_of env db) db) \<longrightarrow> is_due (now_of env db) t)
    \<and> (length (filter (is_due (now_of env db)) (d_tokens db)) \<le> limit \<longrightarrow>
        (\<forall>t \<in> set (d_tokens db). is_due (now_of env db) t \<longrightarrow> tk_id t \<in> set (due_ids limit (now_of env db) db)))"
proof (intro conjI ballI impI)
  fix t assume "t \<in> set (d_tokens db)" "tk_id t \<in> set (due_ids limit (now_of env db) db)"
  then show "is_due (now_of env db) t"
    using due_ids_sub inv by (fastforce simp: db_inv_def ids_ok_def distinct_map inj_on_def)
next
  fix t assume "length (filter (is_due (now_of env db)) (d_tokens db)) \<le> limit"
    and t: "t \<in> set (d_tokens db)" "is_due (now_of env db) t"
  then have "due_ids limit (now_of env db) db = map tk_id (foldr insert_due (filter (is_due (now_of env db)) (d_tokens db)) [])"
    by (simp add: due_ids_def length_foldr_insert_due)
  then show "tk_id t \<in> set (due_ids limit (now_of env db) db)"
    using set_foldr_insert_due [of "filter (is_due (now_of env db)) (d_tokens db)"] t by simp
qed (simp add: resume_due_tokens_def Let_def upd_where_def)

theorem resume_due_tokens_spec_witness:
  "tk_status (hd (d_tokens (fst (resume_due_tokens env0 100
     (db_of [left_arrives\<lparr>tk_status := Waiting, tk_wait := Some WTimer, tk_resume_at := Some 0\<rparr>] (join_def ''parallel'')))))) = Active"
proof -
  let ?db = "db_of [left_arrives\<lparr>tk_status := Waiting, tk_wait := Some WTimer, tk_resume_at := Some 0\<rparr>] (join_def ''parallel'')"
  have inv: "db_inv ?db" by (rule db_inv_example) (simp_all add: left_arrives_def tok0_def)
  show ?thesis
    using resume_due_tokens_spec [OF inv, of env0 100]
    by (simp add: db_of_def env0_def now_of_def is_due_def RESUMABLE_WAIT_KINDS_def left_arrives_def)
qed

lemma wake_not_target: "\<not> resume_target org i c ck (wake patch t)"
  by (simp add: resume_target_def wake_def)

text \<open>
  The wire-back of an agent run wakes only tokens parked on exactly that run: ids are compared as
  text, and two runs never share it. The token carries the run's completion or failure, and
  a second wire-back of the same run, or a late one, changes nothing.
\<close>

theorem resume_token_for_run_exact:
  assumes "resume_token_for_run org run linkage db = (db', hit)"
  shows "resume_token_for_run org run linkage db' = (db', False)
    \<and> (\<exists>p. d_tokens db' = upd_where p (wake (run_patch run)) (d_tokens db)
        \<and> (\<forall>t. p t \<longrightarrow> tk_org t = org \<and> tk_status t = Waiting \<and> tk_wait t = Some WAgent
             \<and> (\<forall>n. n < 16 ^ 32 \<and> a_id run < 16 ^ 32 \<and> tk_corr t = Some (show_uuid n) \<longrightarrow> n = a_id run)))"
proof (cases "truthy (jget linkage ''token_id'') \<and> parse_token_created_at linkage \<noteq> None")
  case False
  then have "resume_token_for_run org run linkage d = (d, False)" for d
    by (auto simp: resume_token_for_run_def Let_def)
  then show ?thesis
    using assms by (intro conjI exI [of _ "\<lambda>_. False"]) (auto simp: upd_where_def)
next
  case True
  then obtain c where c: "parse_token_created_at linkage = Some c" by blast
  define p where "p = resume_target org (py_str (jget linkage ''token_id'')) c (a_id run)"
  have r: "resume_token_for_run org run linkage d = (d\<lparr>d_tokens := upd_where p (wake (run_patch run)) (d_tokens d)\<rparr>,
      list_ex p (d_tokens d))" for d
    using True c by (simp add: resume_token_for_run_def p_def Let_def)
  have db': "db' = db\<lparr>d_tokens := upd_where p (wake (run_patch run)) (d_tokens db)\<rparr>" using assms r by simp
  have gone: "\<not> p t" if "t \<in> set (d_tokens db')" for t
    using that upd_where_none [of p "wake (run_patch run)" t "d_tokens db"] wake_not_target by (simp add: db' p_def)
  have "resume_token_for_run org run linkage db' = (db', False)"
    using gone by (simp add: r upd_where_id list_ex_iff)
  moreover have "\<forall>t. p t \<longrightarrow> tk_org t = org \<and> tk_status t = Waiting \<and> tk_wait t = Some WAgent
             \<and> (\<forall>n. n < 16 ^ 32 \<and> a_id run < 16 ^ 32 \<and> tk_corr t = Some (show_uuid n) \<longrightarrow> n = a_id run)"
    using show_uuid_inj by (auto simp: p_def resume_target_def simp del: power_numeral)
  ultimately show ?thesis using db' by auto
qed

text \<open>The witness: the run wakes its token, and waking again does nothing.\<close>

definition agent_run0 :: agent_run where
  "agent_run0 = \<lparr>a_id = 20, a_org = 1, a_agent = None, a_status = ADone, a_trigger = ''workflow'', a_label = [],
     a_input = [], a_output = JObj [], a_error = None, a_prompt_tokens = 0, a_completion_tokens = 0,
     a_total_tokens = 0, a_cost = JNull, a_wf_run = None, a_wf_node = None, a_wf_token = None\<rparr>"

definition linkage0 :: jdict where
  "linkage0 = [(''token_id'', JStr (show_uuid 10)), (''token_created_at'', JStr (iso_format 0))]"

lemma uuid_example: "parse_uuid (show_uuid 10) = Some 10"
  by code_simp

lemma iso_example: "from_iso (iso_format 0) = Some 0"
  by code_simp

lemma texts_not_Nil [simp]: "show_uuid n \<noteq> []" "iso_format t \<noteq> []"
  by (simp_all add: show_uuid_def iso_format_def Let_def)

theorem resume_token_for_run_exact_witness:
  "let db = db_of [agent_parked\<lparr>tk_corr := Some (show_uuid 20)\<rparr>] (join_def ''parallel'');
       r = resume_token_for_run 1 agent_run0 linkage0 db in
   snd r \<and> resume_token_for_run 1 agent_run0 linkage0 (fst r) = (fst r, False)"
proof -
  let ?db = "db_of [agent_parked\<lparr>tk_corr := Some (show_uuid 20)\<rparr>] (join_def ''parallel'')"
  obtain db' hit where r: "resume_token_for_run 1 agent_run0 linkage0 ?db = (db', hit)" by fastforce
  have "snd (resume_token_for_run 1 agent_run0 linkage0 ?db)"
    by (simp add: resume_token_for_run_def linkage0_def jget_def parse_token_created_at_def py_str_def uuid_example
        iso_example resume_target_def agent_parked_def tok0_def db_of_def agent_run0_def Let_def)
  then show ?thesis using resume_token_for_run_exact [OF r] r by simp
qed

subsection \<open>Driving a run\<close>

text \<open>
  C1. Driving a run keeps the step trace of every run exact: whatever branches, retries and nested
  calls ran, the steps of a run are numbered one, two, three and so on without a gap or a
  repetition, in the order they were recorded, up to the run's counter; and no two tokens or
  runs share an id.
\<close>

theorem drive_run_step_trace:
  assumes "db_inv db" "drive_run env org rid db = Inr r" "run \<in> set (d_runs (fst r))"
  shows "map s_index (filter (\<lambda>s. s_run s = r_id run) (d_steps (fst r))) = [1..<Suc (r_step_seq run)]
    \<and> distinct (map tk_id (d_tokens (fst r))) \<and> distinct (map r_id (d_runs (fst r)))"
  using ev_inv [OF engine.drive_ev [OF assms(1,2)]] assms(3)
  unfolding db_inv_def ids_ok_def steps_dense_def step_indexes_def by blast

text \<open>The witness: a trigger and a task without a handler.\<close>

definition chain_def :: wdef where
  "chain_def = \<lparr>w_version = 2, w_nodes = [node_of ''t'' ''trigger'' [], node_of ''s'' ''task'' []], w_edges = [edge ''t'' ''s'']\<rparr>"

definition start_db :: "wdef \<Rightarrow> db" where
  "start_db w = db_of [tok0\<lparr>tk_id := 10, tk_node := ''t''\<rparr>] w"

definition digest :: "(engine_exc, db \<times> totals) result \<Rightarrow> (nat \<times> nat) list \<times> run_status list \<times> (string \<times> step_status) list" where
  "digest r = (case r of Inr (db, _) \<Rightarrow>
      (map (\<lambda>x. (r_id x, r_step_seq x)) (d_runs db), map r_status (d_runs db), map (\<lambda>s. (s_node s, s_status s)) (d_steps db))
    | Inl _ \<Rightarrow> ([], [], []))"

lemma start_db_inv: "db_inv (start_db w)"
  unfolding start_db_def by (rule db_inv_example) (simp_all add: tok0_def)

lemma chain_runs: "digest (drive_run env0 1 7 (start_db chain_def)) = ([(7, 1)], [RSucceeded], [(''s'', SSkipped)])"
  by code_simp

lemma chain_result: "\<exists>r. drive_run env0 1 7 (start_db chain_def) = Inr r
    \<and> map (\<lambda>x. (r_id x, r_step_seq x)) (d_runs (fst r)) = [(7, 1)]"
  using chain_runs by (auto simp: digest_def split: sum.splits prod.splits)

theorem drive_run_step_trace_witness:
  "\<exists>r. drive_run env0 1 7 (start_db chain_def) = Inr r \<and> map s_index (filter (\<lambda>s. s_run s = 7) (d_steps (fst r))) = [1]"
proof -
  obtain r where r: "drive_run env0 1 7 (start_db chain_def) = Inr r" "map (\<lambda>x. (r_id x, r_step_seq x)) (d_runs (fst r)) = [(7, 1)]"
    using chain_result by (elim exE conjE) (rule that)
  then obtain run where run: "run \<in> set (d_runs (fst r))" "r_id run = 7" "r_step_seq run = 1"
    by (cases "d_runs (fst r)") auto
  show ?thesis using drive_run_step_trace [OF start_db_inv r(1) run(1)] run r(1) by simp
qed

text \<open>
  C2. Driving a run on behalf of an organization, with everything its tasks, joins, failures and
  nested calls do, leaves every token, run, step and agent run of every other organization
  exactly as it was.
\<close>

theorem drive_run_tenant_isolation:
  assumes "db_inv db" "drive_run env org rid db = Inr r"
  shows "filter (\<lambda>t. tk_org t \<noteq> org) (d_tokens (fst r)) = filter (\<lambda>t. tk_org t \<noteq> org) (d_tokens db)
    \<and> filter (\<lambda>x. r_org x \<noteq> org) (d_runs (fst r)) = filter (\<lambda>x. r_org x \<noteq> org) (d_runs db)
    \<and> filter (\<lambda>s. s_org s \<noteq> org) (d_steps (fst r)) = filter (\<lambda>s. s_org s \<noteq> org) (d_steps db)
    \<and> filter (\<lambda>a. a_org a \<noteq> org) (d_agent_runs (fst r)) = filter (\<lambda>a. a_org a \<noteq> org) (d_agent_runs db)"
  using engine.drive_ev [OF assms] by (simp add: ev_def others_same_def)

theorem drive_run_tenant_isolation_witness:
  "\<exists>r. drive_run env0 1 7 (start_db chain_def) = Inr r \<and> filter (\<lambda>t. tk_org t \<noteq> 1) (d_tokens (fst r)) = []"
proof -
  obtain r where r: "drive_run env0 1 7 (start_db chain_def) = Inr r" using chain_result by (elim exE conjE)
  show ?thesis
    using drive_run_tenant_isolation [OF start_db_inv r] r by (simp add: start_db_def db_of_def tok0_def)
qed

text \<open>
  C3. Driving never pushes an existing run beyond the token budget: afterwards a run has at most
  \<open>MAX_TOKENS_PER_RUN\<close> tokens, or no more than it had before.
\<close>

theorem drive_run_token_budget:
  assumes "db_inv db" "drive_run env org rid db = Inr r" "run \<in> set (d_runs db)"
  shows "token_count (fst r) o2 (r_id run) \<le> max (token_count db o2 (r_id run)) MAX_TOKENS_PER_RUN"
  using engine.drive_ev [OF assms(1,2)] assms(3) by (simp add: ev_def within_budget_def)

theorem drive_run_token_budget_witness:
  "\<exists>r. drive_run env0 1 7 (start_db chain_def) = Inr r \<and> token_count (fst r) 1 7 \<le> 500"
proof -
  obtain r where r: "drive_run env0 1 7 (start_db chain_def) = Inr r" using chain_result by (elim exE conjE)
  have run: "run0 \<in> set (d_runs (start_db chain_def))" by (simp add: start_db_def db_of_def)
  have "token_count (start_db chain_def) 1 7 = 1"
    by (simp add: token_count_def list_for_run_def start_db_def db_of_def tok0_def)
  then show ?thesis
    using drive_run_token_budget [OF start_db_inv r run, of 1] r by (simp add: run0_def MAX_TOKENS_PER_RUN_def)
qed

text \<open>
  C4. Nested calls are bounded: driving an existing run always comes to an end, with a result or
  with an exception of the source, and never exhausts the nesting the model allows, because a
  run at the maximal depth refuses to call.
\<close>

theorem drive_run_never_out_of_fuel:
  assumes "db_inv db" "get_run db org rid = Some run"
  shows "drive_run env org rid db \<noteq> Inl OutOfFuel"
  unfolding drive_run_def by (rule drive_run_d_enough [OF assms]) (simp_all add: DRIVE_FUEL_def)

theorem drive_run_never_out_of_fuel_witness: "drive_run env0 1 7 (start_db chain_def) \<noteq> Inl OutOfFuel"
  by (rule drive_run_never_out_of_fuel [where run = run0, OF start_db_inv]) (simp add: get_run_def start_db_def db_of_def run0_def)

subsection \<open>Retries of a task\<close>

text \<open>
  A failing task is retried within its policy: when its failure parks the token, the token waits
  on a retry with a resume time, its counter went up by exactly one and is still below the
  policy's attempts, hence below twenty; so no token retries a node more than nineteen times
  in a row.
\<close>

theorem dispatch_action_retry_bounded:
  assumes "retries_ok (tk_data token)"
    and "dispatch_action env node token run model db = Inr r" "o_kind (snd r) = KPark"
  shows "o_wait (snd r) = Some WRetry \<and> o_resume_at (snd r) \<noteq> None
    \<and> (\<exists>data. o_token_data (snd r) = Some data
        \<and> attempts_so_far data (n_id node) = Suc (attempts_so_far (tk_data token) (n_id node))
        \<and> attempts_so_far data (n_id node) < 20)"
proof -
  let ?n = "attempts_so_far (tk_data token) (n_id node)"
  from assms(2,3) obtain policy data where
    p: "read_policy (n_data node) = Inr policy" "int ?n + 1 < rp_max_attempts policy"
      "record_attempt (tk_data token) (n_id node) (?n + 1) = Inr data"
      "o_token_data (snd r) = Some data" "o_wait (snd r) = Some WRetry" "o_resume_at (snd r) \<noteq> None"
    by (auto simp: dispatch_action_def action_succeeded_def action_failed_def advance_to_def to_boundary_def fail_with_def
        outcome_def exn_def result_simps Let_def split: if_splits option.splits sum.splits)
  have "rp_max_attempts policy \<le> 20" using read_policy_ok [OF p(1)] by (simp add: policy_ok_def MAX_ATTEMPTS_CAP_def)
  moreover have "attempts_so_far data (n_id node) = Suc ?n"
    using p(3) by (simp add: record_attempt_ok [OF assms(1)] attempts_so_far_def) (auto simp: jget_dset)
  ultimately show ?thesis using p by auto
qed

text \<open>The witness: a task with a retry block whose action fails.\<close>

definition failing_env :: "(nat \<Rightarrow> bool) \<Rightarrow> env" where
  "failing_env fails = env0\<lparr>e_exec := (\<lambda>tick _. \<lparr>ar_ok = \<not> fails tick, ar_output = JNull, ar_error = Some ''boom''\<rparr>)\<rparr>"

definition retried :: wnode where
  "retried = node_of ''s'' ''task'' [(''action_type'', JStr ''x''), (''retry'', JObj [(''max_attempts'', JInt 3), (''base_delay_seconds'', JInt 0)])]"

definition retry_def :: wdef where
  "retry_def = \<lparr>w_version = 2, w_nodes = [retried], w_edges = []\<rparr>"

lemma fl_zero: "fl 0 = Fin 0" "float_of_int 0 = Inr (Fin 0)" "float_of_int 1 = Inr (Fin 1)"
  using float_of_power [of 0] by (simp_all add: fl_def float_of_int_def)

lemma retried_policy: "read_policy (n_data retried) = Inr \<lparr>rp_max_attempts = 3, rp_base_delay = Fin 0, rp_max_delay = Fin 300\<rparr>"
  by (simp add: read_policy_def retried_def node_of_def jget_def clamp_int_def clamp_float_def is_number_def is_bool_def
        retry_constants py_float_def f_max_def f_min_def fl_zero)

lemma retried_backoff: "backoff u 0 \<lparr>rp_max_attempts = 3, rp_base_delay = Fin 0, rp_max_delay = Fin 300\<rparr> = Inr (Fin 0)"
  by (simp add: backoff_def fl_zero f_min_def)

lemma retried_parks:
  "\<exists>r. dispatch_action (failing_env (\<lambda>_. True)) retried (tok0\<lparr>tk_node := ''s''\<rparr>) run0 retry_def (db_of [] retry_def) = Inr r
     \<and> o_kind (snd r) = KPark"
  by (simp add: dispatch_action_def action_failed_def retried_policy retried_backoff failing_env_def attempts_so_far_def
      after_float_seconds_def add_us_def round_half_even_def record_attempt_ok retries_ok_def steps_exhausted_def
      env0_def tok0_def run0_def jget_def exn_def outcome_def Let_def now_of_def)
   (simp add: retried_def node_of_def jget_def MAX_DATETIME_def)

theorem dispatch_action_retry_bounded_witness:
  "\<exists>r. dispatch_action (failing_env (\<lambda>_. True)) retried (tok0\<lparr>tk_node := ''s''\<rparr>) run0 retry_def (db_of [] retry_def) = Inr r
     \<and> o_wait (snd r) = Some WRetry"
proof -
  obtain r where r: "dispatch_action (failing_env (\<lambda>_. True)) retried (tok0\<lparr>tk_node := ''s''\<rparr>) run0 retry_def (db_of [] retry_def)
      = Inr r" "o_kind (snd r) = KPark"
    using retried_parks by (elim exE conjE)
  have "retries_ok (tk_data (tok0\<lparr>tk_node := ''s''\<rparr>))" by (simp add: retries_ok_def tok0_def jget_def)
  then show ?thesis using dispatch_action_retry_bounded [OF _ r] r(1) by blast
qed

end
