(* ===== verification/Wf_Engine_Runs.thy ===== *)
theory Wf_Engine_Runs
  imports Wf_Engine_Props
begin

text \<open>
  Complete runs of the engine on small graphs, evaluated in the kernel. Each shows behaviour that a
  comment or a document of the repository describes differently: a terminating end event does
  not stop a branch of the same pass, retrying a failed run repeats a branch that had
  succeeded, and a buffered inclusive join is not looked at again.
\<close>

definition action_node :: "string \<Rightarrow> wnode" where
  "action_node i = node_of i ''task'' [(''action_type'', JStr ''x'')]"

definition gateway_node :: "string \<Rightarrow> string \<Rightarrow> wnode" where
  "gateway_node i g = node_of i ''gateway'' [(''gateway_type'', JStr g)]"

subsection \<open>Terminate\<close>

definition terminate_def :: wdef where
  "terminate_def = \<lparr>w_version = 2,
     w_nodes = [gateway_node ''f'' ''parallel'',
                node_of ''x'' ''event'' [(''position'', JStr ''end''), (''end_type'', JStr ''terminate'')], action_node ''b''],
     w_edges = [edge ''f'' ''x'', edge ''f'' ''b'']\<rparr>"

text \<open>
  A fork leads to a terminating end event and to an action. The end event kills the sibling and
  closes the run, but the pass has already picked the sibling up: it is set running again
  and its action is executed, in a run that has succeeded.
\<close>

theorem terminate_does_not_stop_sibling:
  "digest (drive_run env0 1 7 (db_of [tok0\<lparr>tk_id := 10, tk_node := ''f''\<rparr>] terminate_def)) =
     ([(7, 1)], [RSucceeded], [(''b'', SSucceeded)])"
  by code_simp

subsection \<open>Retrying a failed run\<close>

definition diamond_def :: wdef where
  "diamond_def = \<lparr>w_version = 2,
     w_nodes = [gateway_node ''f'' ''parallel'', gateway_node ''j'' ''parallel'', action_node ''z''],
     w_edges = [\<lparr>e_id = None, e_source = ''f'', e_target = ''j'', e_handle = Some ''p''\<rparr>,
                \<lparr>e_id = None, e_source = ''f'', e_target = ''j'', e_handle = Some ''q''\<rparr>, edge ''j'' ''z'']\<rparr>"

definition drive_then_retry :: "env \<Rightarrow> db \<Rightarrow> (engine_exc, db \<times> totals) result" where
  "drive_then_retry env db = bind_res (drive_run env 1 7 db) (\<lambda>x. retry_run env 1 7 (fst x))"

text \<open>
  Two branches of a fork meet at a join, and the action behind it fails once. The retry revives the
  failed token, and also the two tokens the join had consumed, which are dead as well: the
  join fires again and the action is executed twice.
\<close>

theorem retry_repeats_after_join:
  "digest (drive_then_retry (failing_env (\<lambda>tick. tick < 5)) (db_of [tok0\<lparr>tk_id := 10, tk_node := ''f''\<rparr>] diamond_def)) =
     ([(7, 3)], [RSucceeded], [(''z'', SFailed), (''z'', SSucceeded), (''z'', SSucceeded)])"
  by code_simp

subsection \<open>An inclusive join that nothing wakes\<close>

definition or_join_def :: wdef where
  "or_join_def = \<lparr>w_version = 2,
     w_nodes = [gateway_node ''f'' ''parallel'', gateway_node ''j'' ''inclusive'',
       node_of ''x'' ''gateway'' [(''gateway_type'', JStr ''exclusive''), (''expr'', JBool False)], action_node ''q''],
     w_edges = [edge ''f'' ''j'', edge ''f'' ''x'',
       \<lparr>e_id = None, e_source = ''x'', e_target = ''j'', e_handle = Some ''true''\<rparr>,
       \<lparr>e_id = None, e_source = ''x'', e_target = ''q'', e_handle = Some ''false''\<rparr>]\<rparr>"

definition token_digest :: "(engine_exc, db \<times> totals) result \<Rightarrow> (string \<times> token_status \<times> wait_kind option) list" where
  "token_digest r = (case r of Inr (db, _) \<Rightarrow> map (\<lambda>t. (tk_node t, tk_status t, tk_wait t)) (filter (\<lambda>t. is_live t) (d_tokens db)) | Inl _ \<Rightarrow> [])"

text \<open>
  One branch arrives at the inclusive join while the other could still come; the other then takes
  the branch that avoids the join. No token can reach the join any more, yet the buffered
  token stays: the run ends up waiting on a join, which neither the timer sweep nor a signal
  picks up.
\<close>

theorem inclusive_join_left_waiting:
  "token_digest (drive_run env0 1 7 (db_of [tok0\<lparr>tk_id := 10, tk_node := ''f''\<rparr>] or_join_def)) = [(''j'', Waiting, Some WJoin)]"
  by code_simp

theorem inclusive_join_run_waiting:
  "digest (drive_run env0 1 7 (db_of [tok0\<lparr>tk_id := 10, tk_node := ''f''\<rparr>] or_join_def)) =
     ([(7, 1)], [RWaiting], [(''q'', SSucceeded)])"
  by code_simp

subsection \<open>An inclusive join and the boundary of a task\<close>

definition risky_node :: wnode where
  "risky_node = node_of ''w'' ''task'' [(''action_type'', JStr ''risky'')]"

definition on_error :: "string \<Rightarrow> string \<Rightarrow> wnode" where
  "on_error i host = node_of i ''event'' [(''position'', JStr ''boundary''), (''event_type'', JStr ''error''), (''attached_to'', JStr host)]"

definition or_boundary_def :: wdef where
  "or_boundary_def = \<lparr>w_version = 2,
     w_nodes = [gateway_node ''f'' ''parallel'', gateway_node ''j'' ''inclusive'', risky_node, on_error ''b'' ''w'', action_node ''k''],
     w_edges = [edge ''f'' ''j'', edge ''f'' ''w'', edge ''b'' ''j'', edge ''j'' ''k'']\<rparr>"

definition risky_env :: env where
  "risky_env = env0\<lparr>e_exec := (\<lambda>_ request. \<lparr>ar_ok = aq_type request \<noteq> ''risky'', ar_output = JNull, ar_error = Some ''boom''\<rparr>)\<rparr>"

text \<open>
  The reach of the other tokens is computed along the edges. The branch that waits at the task has no edge to the join, but the
  task fails and its error boundary leads there: the join has fired already, and it fires a second time, so the action behind
  it is executed twice.
\<close>

theorem inclusive_join_fires_before_boundary:
  "digest (drive_run risky_env 1 7 (db_of [tok0\<lparr>tk_id := 10, tk_node := ''f''\<rparr>] or_boundary_def)) =
     ([(7, 3)], [RSucceeded], [(''w'', SFailed), (''k'', SSucceeded), (''k'', SSucceeded)])"
  by code_simp

end
