(* ===== verification/Wf_Scc.thy ===== *)
theory Wf_Scc
  imports Wf_Graph "HOL-Library.While_Combinator"
begin

section \<open>Strongly connected components of a workflow graph\<close>

text \<open>
  The iterative search of \<open>_strongly_connected\<close> in \<open>services/workflow/validation.py\<close>, with its two
  stacks: \<open>tj_work\<close> holds the nodes being visited with the index of the next edge, \<open>tj_stack\<close>
  the nodes not yet assigned to a component. The top of a stack is the head of its list.
  A loop that does not end is \<open>None\<close>, a lookup or a pop that raises is \<open>Inl\<close>; the result says that
  neither happens and that the components are the right ones.
\<close>

subsection \<open>The search\<close>

record tarjan =
  tj_index :: "string \<rightharpoonup> nat"
  tj_low :: "string \<rightharpoonup> nat"
  tj_on :: "string set"
  tj_stack :: "string list"
  tj_sccs :: "string set list"
  tj_counter :: nat
  tj_work :: "(string \<times> nat) list"

definition tj_start :: tarjan where
  "tj_start = \<lparr>tj_index = Map.empty, tj_low = Map.empty, tj_on = {}, tj_stack = [], tj_sccs = [], tj_counter = 0, tj_work = []\<rparr>"

definition dict_at :: "('k \<rightharpoonup> 'v) \<Rightarrow> 'k \<Rightarrow> (py_exc, 'v) result" where
  "dict_at m k = (case m k of None \<Rightarrow> Inl KeyError | Some v \<Rightarrow> Inr v)"

definition tj_visit :: "string \<Rightarrow> tarjan \<Rightarrow> tarjan" where
  "tj_visit v s = s\<lparr>tj_index := (tj_index s)(v \<mapsto> tj_counter s), tj_low := (tj_low s)(v \<mapsto> tj_counter s),
     tj_counter := Suc (tj_counter s), tj_stack := v # tj_stack s, tj_on := insert v (tj_on s)\<rparr>"

fun pop_until :: "string \<Rightarrow> string list \<Rightarrow> (py_exc, string list \<times> string list) result" where
  "pop_until v [] = Inl IndexError"
| "pop_until v (w # ws) = (if w = v then Inr ([w], ws) else bind_res (pop_until v ws) (\<lambda>r. Inr (w # fst r, snd r)))"

definition tj_close :: "string \<Rightarrow> tarjan \<Rightarrow> (py_exc, tarjan) result" where
  "tj_close v s = bind_res (dict_at (tj_low s) v) (\<lambda>l. bind_res (dict_at (tj_index s) v) (\<lambda>i.
     if l = i then bind_res (pop_until v (tj_stack s)) (\<lambda>r.
       Inr (s\<lparr>tj_stack := snd r, tj_on := tj_on s - set (fst r), tj_sccs := tj_sccs s @ [set (fst r)]\<rparr>))
     else Inr s))"

definition tj_return :: "string \<Rightarrow> (string \<times> nat) list \<Rightarrow> tarjan \<Rightarrow> (py_exc, tarjan) result" where
  "tj_return v rest s = (case rest of [] \<Rightarrow> Inr (s\<lparr>tj_work := rest\<rparr>)
     | (p, _) # _ \<Rightarrow> bind_res (dict_at (tj_low s) p) (\<lambda>a. bind_res (dict_at (tj_low s) v) (\<lambda>b.
         Inr (s\<lparr>tj_work := rest, tj_low := (tj_low s)(p \<mapsto> min a b)\<rparr>))))"

definition tj_examine :: "(string \<Rightarrow> string list) \<Rightarrow> string \<Rightarrow> nat \<Rightarrow> (string \<times> nat) list \<Rightarrow> tarjan \<Rightarrow> (py_exc, tarjan) result" where
  "tj_examine out v k rest s =
     (if k < length (out v) then
        (let nxt = out v ! k; s1 = s\<lparr>tj_work := (v, Suc k) # rest\<rparr> in
         if tj_index s nxt = None then Inr (s1\<lparr>tj_work := (nxt, 0) # (v, Suc k) # rest\<rparr>)
         else if nxt \<in> tj_on s then
           bind_res (dict_at (tj_low s) v) (\<lambda>l. bind_res (dict_at (tj_index s) nxt) (\<lambda>i.
             Inr (s1\<lparr>tj_low := (tj_low s)(v \<mapsto> min l i)\<rparr>)))
         else Inr s1)
      else bind_res (tj_close v s) (tj_return v rest))"

definition tj_step :: "(string \<Rightarrow> string list) \<Rightarrow> tarjan \<Rightarrow> (py_exc, tarjan) result" where
  "tj_step out s = (case tj_work s of [] \<Rightarrow> Inl IndexError
     | (v, k) # rest \<Rightarrow> tj_examine out v k rest (if k = 0 then tj_visit v s else s))"

definition tj_busy :: "(py_exc, tarjan) result \<Rightarrow> bool" where
  "tj_busy r = (case r of Inl _ \<Rightarrow> False | Inr s \<Rightarrow> tj_work s \<noteq> [])"

definition tj_loop :: "(string \<Rightarrow> string list) \<Rightarrow> tarjan \<Rightarrow> (py_exc, tarjan) result option" where
  "tj_loop out s = while_option tj_busy (\<lambda>r. bind_res r (tj_step out)) (Inr s)"

fun tj_roots :: "(string \<Rightarrow> string list) \<Rightarrow> string list \<Rightarrow> tarjan \<Rightarrow> (py_exc, tarjan) result option" where
  "tj_roots out [] s = Some (Inr s)"
| "tj_roots out (r # rs) s =
     (if tj_index s r \<noteq> None then tj_roots out rs s
      else (case tj_loop out (s\<lparr>tj_work := [(r, 0)]\<rparr>) of
              None \<Rightarrow> None | Some (Inl e) \<Rightarrow> Some (Inl e) | Some (Inr s') \<Rightarrow> tj_roots out rs s'))"

definition targets_of :: "wdef \<Rightarrow> string \<Rightarrow> string list" where
  "targets_of w v = map e_target (filter (\<lambda>e. e_source e = v) (w_edges w))"

definition strongly_connected :: "wdef \<Rightarrow> (py_exc, string set list) result option" where
  "strongly_connected w =
     (case tj_roots (targets_of w) (map n_id (w_nodes w)) tj_start of
        None \<Rightarrow> None | Some (Inl e) \<Rightarrow> Some (Inl e) | Some (Inr s) \<Rightarrow> Some (Inr (tj_sccs s)))"

subsection \<open>The invariant\<close>

text \<open>
  A frame is a node on the work stack, the index of its next edge, and its segment of the node
  stack: the nodes found from it that are not below a later frame, itself last. The nodes
  of a segment are mutually reachable; the low number of the frame bounds from below the index of every
  stack node that an examined edge of the segment leads to, and is the index of a stack node
  the frame reaches.
\<close>

type_synonym frame = "string \<times> nat \<times> string list"

definition fvert :: "frame \<Rightarrow> string" where "fvert f = fst f"
definition fpos :: "frame \<Rightarrow> nat" where "fpos f = fst (snd f)"
definition fseg :: "frame \<Rightarrow> string list" where "fseg f = snd (snd f)"

lemma frame_simps [simp]: "fvert (v, k, seg) = v" "fpos (v, k, seg) = k" "fseg (v, k, seg) = seg"
  by (simp_all add: fvert_def fpos_def fseg_def)

definition work_of :: "frame list \<Rightarrow> (string \<times> nat) list" where
  "work_of fs = map (\<lambda>f. (fvert f, fpos f)) fs"

lemma work_of_simps [simp]: "work_of [] = []" "work_of (f # fs) = (fvert f, fpos f) # work_of fs"
  by (simp_all add: work_of_def)

definition ix :: "tarjan \<Rightarrow> string \<Rightarrow> nat" where
  "ix s v = the (tj_index s v)"

lemma visit_simps [simp]:
  "tj_stack (tj_visit v s) = v # tj_stack s" "tj_on (tj_visit v s) = insert v (tj_on s)" "tj_sccs (tj_visit v s) = tj_sccs s"
  "tj_work (tj_visit v s) = tj_work s" "tj_counter (tj_visit v s) = Suc (tj_counter s)"
  "tj_index (tj_visit v s) = (tj_index s)(v \<mapsto> tj_counter s)" "tj_low (tj_visit v s) = (tj_low s)(v \<mapsto> tj_counter s)"
  by (simp_all add: tj_visit_def)

lemma ix_visit: "ix (tj_visit v s) w = (if w = v then tj_counter s else ix s w)"
  by (simp add: ix_def)

locale digraph =
  fixes out :: "string \<Rightarrow> string list" and U :: "string set"
  assumes finite_U: "finite U"
    and closed_U: "u \<in> U \<Longrightarrow> set (out u) \<subseteq> U"
begin

definition E :: "(string \<times> string) set" where
  "E = {(u, v). v \<in> set (out u)}"

definition component :: "string \<Rightarrow> string set" where
  "component x = {y. (x, y) \<in> E\<^sup>* \<and> (y, x) \<in> E\<^sup>*}"

definition closed_set :: "string set \<Rightarrow> bool" where
  "closed_set A \<longleftrightarrow> (\<forall>x \<in> A. set (out x) \<subseteq> A)"

lemma closed_reach: "(x, y) \<in> E\<^sup>* \<Longrightarrow> closed_set A \<Longrightarrow> x \<in> A \<Longrightarrow> y \<in> A"
  by (induction rule: rtrancl_induct) (auto simp: closed_set_def E_def)

lemma component_eq: "y \<in> component x \<Longrightarrow> component y = component x"
  by (auto simp: component_def)

definition examined :: "frame \<Rightarrow> string \<Rightarrow> string list" where
  "examined f u = (if u = fvert f then take (fpos f) (out u) else out u)"

definition frame_ok :: "tarjan \<Rightarrow> frame \<Rightarrow> bool" where
  "frame_ok s f \<longleftrightarrow> fseg f \<noteq> [] \<and> last (fseg f) = fvert f
     \<and> (\<forall>x \<in> set (fseg f). \<forall>y \<in> set (fseg f). (x, y) \<in> E\<^sup>*)
     \<and> (\<exists>l. tj_low s (fvert f) = Some l \<and> l \<le> ix s (fvert f)
          \<and> (\<exists>w \<in> set (tj_stack s). ix s w = l \<and> (fvert f, w) \<in> E\<^sup>*)
          \<and> (\<forall>u \<in> set (fseg f). \<forall>w \<in> set (examined f u).
               w \<in> dom (tj_index s) \<and> (w \<in> set (tj_stack s) \<longrightarrow> l \<le> ix s w)))"

definition assigned :: "tarjan \<Rightarrow> string set" where
  "assigned s = \<Union> (set (tj_sccs s))"

definition core :: "tarjan \<Rightarrow> bool" where
  "core s \<longleftrightarrow> distinct (tj_stack s) \<and> tj_on s = set (tj_stack s)
     \<and> dom (tj_index s) = set (tj_stack s) \<union> assigned s \<and> set (tj_stack s) \<inter> assigned s = {}
     \<and> sorted_wrt (\<lambda>x y. ix s y < ix s x) (tj_stack s) \<and> (\<forall>x \<in> dom (tj_index s). ix s x < tj_counter s)
     \<and> dom (tj_index s) \<subseteq> U \<and> closed_set (assigned s)
     \<and> (\<forall>c \<in> set (tj_sccs s). \<exists>x. c = component x) \<and> distinct (tj_sccs s)"

lemma core_facts:
  assumes "core s"
  shows "distinct (tj_stack s)" "tj_on s = set (tj_stack s)" "dom (tj_index s) = set (tj_stack s) \<union> assigned s"
    "set (tj_stack s) \<inter> assigned s = {}" "sorted_wrt (\<lambda>x y. ix s y < ix s x) (tj_stack s)"
    "x \<in> dom (tj_index s) \<Longrightarrow> ix s x < tj_counter s" "dom (tj_index s) \<subseteq> U" "closed_set (assigned s)"
    "c \<in> set (tj_sccs s) \<Longrightarrow> \<exists>x. c = component x" "distinct (tj_sccs s)" "set (tj_stack s) \<subseteq> dom (tj_index s)"
  using assms by (auto simp: core_def)

definition framed :: "tarjan \<Rightarrow> frame list \<Rightarrow> bool" where
  "framed s fs \<longleftrightarrow> core s \<and> tj_stack s = concat (map fseg fs) \<and> (\<forall>f \<in> set fs. frame_ok s f)
     \<and> sorted_wrt (\<lambda>f g. (fvert g, fvert f) \<in> E\<^sup>*) fs"

definition running :: "frame list \<Rightarrow> bool" where
  "running fs \<longleftrightarrow> (\<forall>f \<in> set fs. 0 < fpos f)"

text \<open>Between two steps the top of the work stack is either visited or about to be.\<close>

definition pending :: "tarjan \<Rightarrow> string \<Rightarrow> frame list \<Rightarrow> bool" where
  "pending s v fs \<longleftrightarrow> v \<in> U \<and> tj_index s v = None \<and> framed s fs \<and> (case fs of
       [] \<Rightarrow> tj_work s = [(v, 0)]
     | f # gs \<Rightarrow> fpos f < length (out (fvert f)) \<and> out (fvert f) ! fpos f = v
         \<and> tj_work s = (v, 0) # (fvert f, Suc (fpos f)) # work_of gs \<and> running gs)"

definition good :: "tarjan \<Rightarrow> bool" where
  "good s \<longleftrightarrow> (\<exists>fs. framed s fs \<and> tj_work s = work_of fs \<and> running fs) \<or> (\<exists>v fs. pending s v fs)"

subsubsection \<open>Visiting a node\<close>

lemma frame_ok_examined:
  assumes ok: "frame_ok s (v, k, seg)" and k: "k < length (out v)"
    and t: "out v ! k \<in> dom (tj_index s)" "out v ! k \<in> set (tj_stack s) \<Longrightarrow> the (tj_low s v) \<le> ix s (out v ! k)"
  shows "frame_ok s (v, Suc k, seg)"
proof -
  have "w \<in> set (examined (v, k, seg) u) \<or> u = v \<and> w = out v ! k" if "w \<in> set (examined (v, Suc k, seg) u)" for u w
    using that k by (auto simp: examined_def take_Suc_conv_app_nth split: if_splits)
  then show ?thesis using ok t unfolding frame_ok_def by fastforce
qed

lemma visit_frame_ok:
  assumes f: "frame_ok s f" and v: "tj_index s v = None" and "fvert f \<in> dom (tj_index s)" "set (tj_stack s) \<subseteq> dom (tj_index s)"
  shows "frame_ok (tj_visit v s) f"
proof -
  have ne: "fvert f \<noteq> v" using assms by auto
  have same: "ix (tj_visit v s) w = ix s w" if "w \<in> dom (tj_index s)" for w
    using that v by (auto simp: ix_def tj_visit_def)
  obtain l where l: "tj_low s (fvert f) = Some l" "l \<le> ix s (fvert f)"
      "\<exists>w \<in> set (tj_stack s). ix s w = l \<and> (fvert f, w) \<in> E\<^sup>*"
      "\<forall>u \<in> set (fseg f). \<forall>w \<in> set (examined f u). w \<in> dom (tj_index s) \<and> (w \<in> set (tj_stack s) \<longrightarrow> l \<le> ix s w)"
    using f by (auto simp: frame_ok_def)
  have "tj_low (tj_visit v s) (fvert f) = Some l" using ne l(1) by (simp add: tj_visit_def)
  moreover have "l \<le> ix (tj_visit v s) (fvert f)" using l(2) same assms(3) by simp
  moreover have "\<exists>w \<in> set (tj_stack (tj_visit v s)). ix (tj_visit v s) w = l \<and> (fvert f, w) \<in> E\<^sup>*"
    using l(3) same assms(4) by (metis list.set_intros(2) subsetD visit_simps(1))
  moreover have "w \<in> dom (tj_index (tj_visit v s)) \<and> (w \<in> set (tj_stack (tj_visit v s)) \<longrightarrow> l \<le> ix (tj_visit v s) w)"
    if "u \<in> set (fseg f)" "w \<in> set (examined f u)" for u w
    using l(4) that same [of w] v by auto
  ultimately show ?thesis using f unfolding frame_ok_def by blast
qed

lemma fvert_on_stack: "framed s fs \<Longrightarrow> f \<in> set fs \<Longrightarrow> fvert f \<in> set (fseg f) \<and> set (fseg f) \<subseteq> set (tj_stack s)"
  by (auto simp: framed_def frame_ok_def) (metis last_in_set)

lemma framed_dom: "framed s fs \<Longrightarrow> set (tj_stack s) \<subseteq> dom (tj_index s)"
  unfolding framed_def using core_facts(11) by blast

lemma visit_core:
  assumes c: "core s" and v: "tj_index s v = None" "v \<in> U"
  shows "core (tj_visit v s)"
proof -
  note c = core_facts [OF c]
  have new: "v \<notin> set (tj_stack s)" "v \<notin> assigned s" using c(3) v by (auto simp: set_eq_iff)
  have less: "ix (tj_visit v s) x < tj_counter s" if "x \<in> dom (tj_index s)" for x
    using that c(6) [OF that] v by (auto simp: ix_visit)
  show ?thesis
    unfolding core_def
  proof (intro conjI)
    show "sorted_wrt (\<lambda>x y. ix (tj_visit v s) y < ix (tj_visit v s) x) (tj_stack (tj_visit v s))"
      using c(5) c(6) c(11) new by (auto simp: subset_eq ix_visit intro!: sorted_wrt_mono_rel [of "tj_stack s" "\<lambda>x y. ix s y < ix s x"])
    show "\<forall>x \<in> dom (tj_index (tj_visit v s)). ix (tj_visit v s) x < tj_counter (tj_visit v s)"
      using less by (auto simp: ix_visit less_Suc_eq)
    show "dom (tj_index (tj_visit v s)) = set (tj_stack (tj_visit v s)) \<union> assigned (tj_visit v s)"
      using c(3) by (simp add: assigned_def)
  qed (use c new v in \<open>simp_all add: assigned_def\<close>)
qed

lemma visit_framed:
  assumes "framed s fs" "tj_index s v = None" "v \<in> U" "fs \<noteq> [] \<Longrightarrow> (fvert (hd fs), v) \<in> E\<^sup>*"
  shows "framed (tj_visit v s) ((v, 0, [v]) # fs)"
proof -
  have reach: "(fvert f, v) \<in> E\<^sup>*" if "f \<in> set fs" for f
    using that assms(1,4) by (cases fs) (auto simp: framed_def intro: rtrancl_trans)
  have "frame_ok (tj_visit v s) f" if "f \<in> set fs" for f
  proof (rule visit_frame_ok)
    show "frame_ok s f" using that assms(1) by (simp add: framed_def)
    show "fvert f \<in> dom (tj_index s)" using framed_dom [OF assms(1)] fvert_on_stack [OF assms(1) that] by blast
  qed (use assms(2) framed_dom [OF assms(1)] in auto)
  moreover have "frame_ok (tj_visit v s) (v, 0, [v])"
    by (auto simp: frame_ok_def ix_visit examined_def)
  moreover have "core (tj_visit v s)" using visit_core assms by (simp add: framed_def)
  ultimately show ?thesis using assms(1) reach by (auto simp: framed_def)
qed

lemma pending_work: "pending s v fs \<Longrightarrow> \<exists>rest. tj_work s = (v, 0) # rest"
  by (cases fs) (auto simp: pending_def)

lemma visit_phase:
  assumes "good s" "tj_work s = (v, k) # rest"
  defines "s1 \<equiv> if k = 0 then tj_visit v s else s"
  shows "\<exists>seg fs. framed s1 ((v, k, seg) # fs) \<and> rest = work_of fs \<and> running fs"
proof (cases "\<exists>fs. framed s fs \<and> tj_work s = work_of fs \<and> running fs")
  case True
  then obtain f gs where "framed s (f # gs)" "v = fvert f" "k = fpos f" "0 < k" "rest = work_of gs" "running gs"
    using assms(2) by (auto simp: running_def work_of_def Cons_eq_map_conv)
  then show ?thesis unfolding s1_def by (cases f) auto
next
  case False
  then obtain fs where p: "pending s v fs" and k: "k = 0"
    using assms(1,2) pending_work by (fastforce simp: good_def)
  then have v: "v \<in> U" "tj_index s v = None" "framed s fs" by (auto simp: pending_def)
  show ?thesis
  proof (cases fs)
    case Nil
    then have "framed s1 [(v, 0, [v])]" using visit_framed [OF v(3,2,1)] k by (simp add: s1_def)
    then show ?thesis using Nil p assms(2) k by (intro exI [of _ "[v]"] exI [of _ "[]"]) (auto simp: pending_def running_def)
  next
    case (Cons f gs)
    obtain q j seg where f: "f = (q, j, seg)" by (cases f) auto
    have e: "j < length (out q)" "out q ! j = v" "rest = (q, Suc j) # work_of gs" "running gs"
      using p Cons f assms(2) by (auto simp: pending_def)
    then have "(q, v) \<in> E\<^sup>*" by (auto simp: E_def)
    then have F: "framed s1 ((v, 0, [v]) # (q, j, seg) # gs)"
      using visit_framed [OF v(3,2,1)] Cons f k by (simp add: s1_def)
    have q: "q \<in> dom (tj_index s)" using framed_dom [OF v(3)] fvert_on_stack [OF v(3), of f] Cons f by auto
    have "frame_ok s1 (q, Suc j, seg)"
    proof (rule frame_ok_examined)
      show "frame_ok s1 (q, j, seg)" using F by (simp add: framed_def)
      then have "the (tj_low s1 q) \<le> ix s1 q" by (auto simp: frame_ok_def)
      also have "\<dots> \<le> ix s1 (out q ! j)"
        using core_facts(6) [of s q] q v k e(2) by (auto simp: s1_def ix_visit framed_def intro: less_imp_le)
      finally show "the (tj_low s1 q) \<le> ix s1 (out q ! j)" .
    qed (use e k in \<open>auto simp: s1_def tj_visit_def\<close>)
    then have "framed s1 ((v, 0, [v]) # (q, Suc j, seg) # gs)" using F by (auto simp: framed_def)
    then show ?thesis using e k by (intro exI [of _ "[v]"] exI [of _ "(q, Suc j, seg) # gs"]) (simp add: running_def)
  qed
qed

subsubsection \<open>Looking at the next edge\<close>

text \<open>Lowering the low number of a frame to the index of a stack node it reaches.\<close>

lemma frame_ok_low:
  assumes f: "frame_ok s f" and s': "tj_index s' = tj_index s" "tj_stack s' = tj_stack s"
    and t: "t \<in> set (tj_stack s)" "(fvert f, t) \<in> E\<^sup>*"
    and low: "tj_low s' (fvert f) = Some (min (the (tj_low s (fvert f))) (ix s t))"
  shows "frame_ok s' f"
proof -
  obtain l w where l: "tj_low s (fvert f) = Some l" "l \<le> ix s (fvert f)" "w \<in> set (tj_stack s)" "ix s w = l" "(fvert f, w) \<in> E\<^sup>*"
      "\<forall>u \<in> set (fseg f). \<forall>w \<in> set (examined f u). w \<in> dom (tj_index s) \<and> (w \<in> set (tj_stack s) \<longrightarrow> l \<le> ix s w)"
    using f by (auto simp: frame_ok_def)
  let ?m = "min l (ix s t)"
  have same: "ix s' = ix s" using s' by (simp add: ix_def fun_eq_iff)
  have "\<exists>x \<in> set (tj_stack s). ix s x = ?m \<and> (fvert f, x) \<in> E\<^sup>*" using l t by (cases "l \<le> ix s t") (auto simp: min_def)
  moreover have "?m \<le> ix s x" if "l \<le> ix s x" for x using that by simp
  moreover have "?m \<le> ix s (fvert f)" using l(2) by simp
  ultimately show ?thesis using f l low unfolding frame_ok_def same s' by (intro conjI exI [of _ ?m]) auto
qed

lemma core_same:
  assumes c: "core s"
    and e: "tj_index s' = tj_index s" "tj_stack s' = tj_stack s" "tj_on s' = tj_on s" "tj_sccs s' = tj_sccs s" "tj_counter s' = tj_counter s"
  shows "core s'"
  using c unfolding core_def assigned_def ix_def e .

lemma frame_ok_same:
  "frame_ok s f \<Longrightarrow> tj_index s' = tj_index s \<Longrightarrow> tj_stack s' = tj_stack s \<Longrightarrow> tj_low s' (fvert f) = tj_low s (fvert f) \<Longrightarrow> frame_ok s' f"
  by (simp add: frame_ok_def ix_def)

lemma examine_known:
  assumes F: "framed s ((v, k, seg) # fs)" and k: "k < length (out v)" and t: "tj_index s (out v ! k) \<noteq> None"
  defines "low \<equiv> (if out v ! k \<in> tj_on s then (tj_low s)(v \<mapsto> min (the (tj_low s v)) (ix s (out v ! k))) else tj_low s)"
  shows "framed (s\<lparr>tj_work := w, tj_low := low\<rparr>) ((v, Suc k, seg) # fs)"
proof -
  let ?t = "out v ! k" and ?s = "s\<lparr>tj_work := w, tj_low := low\<rparr>"
  have ok: "frame_ok s (v, k, seg)" and c: "core s" using F by (auto simp: framed_def)
  have same: "ix ?s = ix s" by (simp add: ix_def fun_eq_iff)
  have vt: "(v, ?t) \<in> E\<^sup>*" using k by (auto simp: E_def)
  have "frame_ok ?s (v, k, seg)"
  proof (cases "?t \<in> tj_on s")
    case True
    then show ?thesis
      using frame_ok_low [OF ok, of ?s ?t] core_facts(2) [OF c] vt by (simp add: low_def)
  next
    case False
    then show ?thesis using frame_ok_same [OF ok, of ?s] by (simp add: low_def)
  qed
  then have "frame_ok ?s (v, Suc k, seg)"
  proof (rule frame_ok_examined [OF _ k])
    show "?t \<in> dom (tj_index ?s)" using t by auto
    show "?t \<in> set (tj_stack ?s) \<Longrightarrow> the (tj_low ?s v) \<le> ix ?s ?t"
      unfolding same using core_facts(2) [OF c] by (simp add: low_def)
  qed
  moreover have "fvert f \<noteq> v" if "f \<in> set fs" for f
    using fvert_on_stack [OF F, of f] fvert_on_stack [OF F, of "(v, k, seg)"] that core_facts(1) [OF c] F
    by (auto simp: framed_def)
  then have "\<forall>f \<in> set fs. frame_ok ?s f"
    using F frame_ok_same [of s _ ?s] by (auto simp: framed_def low_def)
  moreover have "core ?s" by (rule core_same [OF c]) simp_all
  ultimately show ?thesis using F by (auto simp: framed_def)
qed

subsubsection \<open>Leaving a node\<close>

lemma pop_until_segment: "seg \<noteq> [] \<Longrightarrow> distinct seg \<Longrightarrow> pop_until (last seg) (seg @ ys) = Inr (seg, ys)"
  by (induction seg) auto

text \<open>The nodes of the top segment are the last ones found.\<close>

lemma segment_above:
  assumes F: "framed s ((v, k, seg) # fs)"
  shows "x \<in> set seg \<Longrightarrow> ix s v \<le> ix s x" "f \<in> set fs \<Longrightarrow> x \<in> set (fseg f) \<Longrightarrow> ix s x < ix s v"
proof -
  have so: "sorted_wrt (\<lambda>x y. ix s y < ix s x) (seg @ concat (map fseg fs))"
    and v: "seg \<noteq> []" "last seg = v"
    using F core_facts(5) [of s] by (auto simp: framed_def frame_ok_def)
  have "sorted_wrt (\<lambda>x y. ix s y < ix s x) seg" using so by (simp add: sorted_wrt_append)
  then have "sorted_wrt (\<lambda>x y. ix s y < ix s x) (butlast seg @ [v])" using v by (metis append_butlast_last_id)
  moreover have "x \<in> set seg \<Longrightarrow> x \<in> set (butlast seg) \<or> x = v" using v by (metis Un_iff append_butlast_last_id empty_iff insert_iff list.set(1) list.simps(15) set_append)
  ultimately show "x \<in> set seg \<Longrightarrow> ix s v \<le> ix s x" by (auto simp: sorted_wrt_append less_imp_le)
  show "f \<in> set fs \<Longrightarrow> x \<in> set (fseg f) \<Longrightarrow> ix s x < ix s v"
    using so v by (auto simp: sorted_wrt_append)
qed

text \<open>A frame whose low number is its own index: its segment is a component.\<close>

lemma all_examined:
  assumes F: "framed s ((v, k, seg) # fs)" and k: "length (out v) \<le> k" and l: "tj_low s v = Some l" and u: "u \<in> set seg" "w \<in> set (out u)"
  shows "w \<in> dom (tj_index s) \<and> (w \<in> set (tj_stack s) \<longrightarrow> l \<le> ix s w)"
proof -
  have "w \<in> set (examined (v, k, seg) u)" using u k by (auto simp: examined_def)
  then show ?thesis using F u l by (auto simp: framed_def frame_ok_def)
qed

lemma segment_component:
  assumes F: "framed s ((v, k, seg) # fs)" and k: "length (out v) \<le> k" and l: "tj_low s v = Some (ix s v)"
  shows "set seg = component v \<and> closed_set (assigned s \<union> set seg)"
proof -
  have c: "core s" and ok: "frame_ok s (v, k, seg)" and st: "tj_stack s = seg @ concat (map fseg fs)"
    using F by (auto simp: framed_def)
  note cf = core_facts [OF c]
  have v: "v \<in> set seg" using fvert_on_stack [OF F, of "(v, k, seg)"] by simp
  have step: "w \<in> assigned s \<union> set seg" if "u \<in> set seg" "w \<in> set (out u)" for u w
  proof -
    have w: "w \<in> set (tj_stack s) \<or> w \<in> assigned s" "w \<in> set (tj_stack s) \<longrightarrow> ix s v \<le> ix s w"
      using all_examined [OF F k l that] cf(3) by auto
    have "w \<notin> set (fseg f)" if "w \<in> set (tj_stack s)" "f \<in> set fs" for f
      using segment_above(2) [OF F that(2), of w] w(2) that(1) by auto
    then show ?thesis using w(1) st by auto
  qed
  then have closed: "closed_set (assigned s \<union> set seg)" using cf(8) by (auto simp: closed_set_def)
  have "y \<in> set seg" if y: "(v, y) \<in> E\<^sup>*" "(y, v) \<in> E\<^sup>*" for y
  proof (rule ccontr)
    assume "y \<notin> set seg"
    then have "y \<in> assigned s" using closed_reach [OF y(1) closed] v by auto
    then have "v \<in> assigned s" using closed_reach [OF y(2) cf(8)] by simp
    then show False using v st cf(4) by auto
  qed
  moreover have "(v, y) \<in> E\<^sup>* \<and> (y, v) \<in> E\<^sup>*" if "y \<in> set seg" for y using ok v that by (auto simp: frame_ok_def)
  ultimately show ?thesis using closed by (auto simp: component_def)
qed

lemma close_framed:
  assumes F: "framed s ((v, k, seg) # fs)" and k: "length (out v) \<le> k" and l: "tj_low s v = Some (ix s v)"
    and low: "\<And>f. f \<in> set fs \<Longrightarrow> low (fvert f) = tj_low s (fvert f)"
  shows "framed (s\<lparr>tj_stack := concat (map fseg fs), tj_on := tj_on s - set seg, tj_sccs := tj_sccs s @ [set seg],
      tj_work := w, tj_low := low\<rparr>) fs"
    (is "framed ?s fs")
proof -
  have c: "core s" and ok: "frame_ok s (v, k, seg)" and st: "tj_stack s = seg @ concat (map fseg fs)"
    using F by (auto simp: framed_def)
  note cf = core_facts [OF c]
  have same: "ix ?s = ix s" by (simp add: ix_def fun_eq_iff)
  have D: "assigned ?s = assigned s \<union> set seg" by (auto simp: assigned_def)
  have disj: "set seg \<inter> set (concat (map fseg fs)) = {}" "distinct (concat (map fseg fs))" using cf(1) st by auto
  have "set seg \<notin> set (tj_sccs s)"
    using cf(4) st fvert_on_stack [OF F, of "(v, k, seg)"] by (fastforce simp: assigned_def)
  then have core: "core ?s"
    unfolding core_def same D
    using cf st disj segment_component [OF F k l] by (auto simp: sorted_wrt_append)
  have "frame_ok ?s f" if f: "f \<in> set fs" for f
  proof -
    have okf: "frame_ok s f" using F f by (simp add: framed_def)
    then obtain m x where m: "tj_low s (fvert f) = Some m" "m \<le> ix s (fvert f)" "x \<in> set (tj_stack s)" "ix s x = m" "(fvert f, x) \<in> E\<^sup>*"
      "\<forall>u \<in> set (fseg f). \<forall>w \<in> set (examined f u). w \<in> dom (tj_index s) \<and> (w \<in> set (tj_stack s) \<longrightarrow> m \<le> ix s w)"
      by (auto simp: frame_ok_def)
    have "ix s (fvert f) < ix s v" using segment_above(2) [OF F f] fvert_on_stack [OF F, of f] f by simp
    then have "x \<notin> set seg" using segment_above(1) [OF F, of x] m(2,4) by auto
    then have "x \<in> set (concat (map fseg fs))" using m(3) st by simp
    then show ?thesis using okf m low [OF f] st unfolding frame_ok_def same by (intro conjI exI [of _ m]) auto
  qed
  then show ?thesis using core F by (auto simp: framed_def)
qed

text \<open>Any other frame is merged into its parent, which it reaches.\<close>

lemma not_root_parent:
  assumes F: "framed s ((v, k, seg) # fs)" and l: "tj_low s v = Some l" "l < ix s v"
  shows "\<exists>f \<in> set fs. \<exists>w \<in> set (fseg f). ix s w = l \<and> (v, w) \<in> E\<^sup>* \<and> (v, fvert (hd fs)) \<in> E\<^sup>*"
proof -
  obtain w where w: "w \<in> set (tj_stack s)" "ix s w = l" "(v, w) \<in> E\<^sup>*" using F l by (auto simp: framed_def frame_ok_def)
  then have "w \<notin> set seg" using segment_above(1) [OF F, of w] l(2) by auto
  then obtain f where f: "f \<in> set fs" "w \<in> set (fseg f)" using w(1) F by (auto simp: framed_def)
  have "(w, fvert f) \<in> E\<^sup>*"
    using F f fvert_on_stack [OF F, of f] by (auto simp: framed_def frame_ok_def)
  moreover have "(fvert f, fvert (hd fs)) \<in> E\<^sup>*" using F f(1) by (cases fs) (auto simp: framed_def)
  ultimately have "(v, fvert (hd fs)) \<in> E\<^sup>*" using w(3) by (meson rtrancl_trans)
  then show ?thesis using w f by blast
qed

lemma merge_framed:
  assumes F: "framed s ((v, k, seg) # (p, j, segp) # gs)" and k: "length (out v) \<le> k" and l: "tj_low s v = Some l" "l < ix s v"
  shows "framed (s\<lparr>tj_work := w, tj_low := (tj_low s)(p \<mapsto> min (the (tj_low s p)) l)\<rparr>) ((p, j, seg @ segp) # gs)"
    (is "framed ?s _")
proof -
  obtain f x where x: "f \<in> set ((p, j, segp) # gs)" "x \<in> set (fseg f)" "ix s x = l" "(v, x) \<in> E\<^sup>*" and vp: "(v, p) \<in> E\<^sup>*"
    using not_root_parent [OF F l] unfolding list.sel frame_simps by blast
  have pv: "(p, v) \<in> E\<^sup>*" and st: "tj_stack s = seg @ segp @ concat (map fseg gs)" and c: "core s"
    and okv: "frame_ok s (v, k, seg)" and okp: "frame_ok s (p, j, segp)"
    using F by (auto simp: framed_def)
  have x_st: "x \<in> set (tj_stack s)" using x F by (auto simp: framed_def)
  have in_seg: "v \<in> set seg" "p \<in> set segp" using fvert_on_stack [OF F, of "(v, k, seg)"] fvert_on_stack [OF F, of "(p, j, segp)"] by auto
  have conn: "(a, b) \<in> E\<^sup>*" if "a \<in> set (seg @ segp)" "b \<in> set (seg @ segp)" for a b
  proof -
    have to_p: "(a, p) \<in> E\<^sup>*" using that(1) okv okp in_seg vp by (auto simp: frame_ok_def intro: rtrancl_trans)
    have "(p, b) \<in> E\<^sup>*" using that(2) okv okp in_seg pv by (auto simp: frame_ok_def intro: rtrancl_trans)
    with to_p show ?thesis by (rule rtrancl_trans)
  qed
  have same: "ix ?s = ix s" by (simp add: ix_def fun_eq_iff)
  have "(p, x) \<in> E\<^sup>*" using pv x(4) by (rule rtrancl_trans)
  then have p1: "frame_ok ?s (p, j, segp)" using frame_ok_low [OF okp, of ?s x] x_st x(3) by simp
  then obtain m where m: "tj_low ?s p = Some m" "m \<le> l" by (auto simp: frame_ok_def)
  have "p \<notin> set seg" using in_seg(2) core_facts(1) [OF c] st by auto
  then have ex: "examined (p, j, seg @ segp) u = (if u \<in> set seg then out u else examined (p, j, segp) u)" for u
    by (auto simp: examined_def)
  have seg: "w \<in> dom (tj_index s) \<and> (w \<in> set (tj_stack s) \<longrightarrow> m \<le> ix s w)" if "u \<in> set seg" "w \<in> set (out u)" for u w
    using all_examined [OF F k l(1) that] m(2) by auto
  have "frame_ok ?s (p, j, seg @ segp)"
    using p1 conn m seg unfolding frame_ok_def frame_simps ex same by auto
  moreover have "fvert g \<noteq> p" if "g \<in> set gs" for g
    using fvert_on_stack [OF F, of g] in_seg that core_facts(1) [OF c] st by auto
  then have "\<forall>g \<in> set gs. frame_ok ?s g" using F frame_ok_same [of s _ ?s] by (auto simp: framed_def)
  moreover have "core ?s" by (rule core_same [OF c]) simp_all
  ultimately show ?thesis using F by (auto simp: framed_def)
qed

subsubsection \<open>A step of the search\<close>

lemma good_framed: "framed s fs \<Longrightarrow> tj_work s = work_of fs \<Longrightarrow> running fs \<Longrightarrow> good s"
  unfolding good_def by blast

lemma leave_component:
  assumes F: "framed s ((v, k, seg) # fs)" and run: "running fs" and k: "length (out v) \<le> k" and l: "tj_low s v = Some (ix s v)"
  shows "\<exists>s'. bind_res (tj_close v s) (tj_return v (work_of fs)) = Inr s' \<and> good s' \<and> tj_index s' = tj_index s \<and> tj_work s' = work_of fs"
proof -
  let ?c = "s\<lparr>tj_stack := concat (map fseg fs), tj_on := tj_on s - set seg, tj_sccs := tj_sccs s @ [set seg]\<rparr>"
  have seg: "tj_stack s = seg @ concat (map fseg fs)" "seg \<noteq> []" "last seg = v" "distinct seg"
    and i: "tj_index s v = Some (ix s v)"
    using F core_facts(1,11) [of s] fvert_on_stack [OF F, of "(v, k, seg)"] by (auto simp: framed_def frame_ok_def ix_def)
  have close: "tj_close v s = Inr ?c"
    using l i pop_until_segment [OF seg(2,4), of "concat (map fseg fs)"] seg by (simp add: tj_close_def dict_at_def)
  show ?thesis
  proof (cases fs)
    case Nil
    have "framed (?c\<lparr>tj_work := [], tj_low := tj_low s\<rparr>) fs" using close_framed [OF F k l, of "tj_low s" "[]"] by simp
    then have "good (?c\<lparr>tj_work := []\<rparr>)" using Nil by (intro good_framed [of _ fs]) (auto simp: running_def)
    then show ?thesis using Nil close by (simp add: tj_return_def)
  next
    case (Cons f gs)
    obtain a where a: "tj_low s (fvert f) = Some a" "a \<le> ix s (fvert f)" using F Cons by (auto simp: framed_def frame_ok_def)
    have "ix s (fvert f) < ix s v" using segment_above(2) [OF F, of f] fvert_on_stack [OF F, of f] Cons by simp
    then have min: "min a (ix s v) = a" using a(2) by simp
    let ?s = "?c\<lparr>tj_work := work_of fs, tj_low := (tj_low s)(fvert f \<mapsto> a)\<rparr>"
    have "framed ?s fs" using close_framed [OF F k l, of "(tj_low s)(fvert f \<mapsto> a)" "work_of fs"] a(1) by simp
    then have "good ?s" using run by (intro good_framed [of _ fs]) auto
    then show ?thesis using Cons close a(1) l min by (simp add: tj_return_def dict_at_def)
  qed
qed

lemma leave_inner:
  assumes F: "framed s ((v, k, seg) # fs)" and run: "running fs" and k: "length (out v) \<le> k" and l: "tj_low s v = Some l" "l < ix s v"
  shows "\<exists>s'. bind_res (tj_close v s) (tj_return v (work_of fs)) = Inr s' \<and> good s' \<and> tj_index s' = tj_index s \<and> tj_work s' = work_of fs"
proof -
  obtain p j segp gs where fs: "fs = (p, j, segp) # gs" using not_root_parent [OF F l] by (cases fs) auto
  have i: "tj_index s v = Some (ix s v)"
    using F core_facts(11) [of s] fvert_on_stack [OF F, of "(v, k, seg)"] by (auto simp: framed_def ix_def)
  have close: "tj_close v s = Inr s" using l i by (simp add: tj_close_def dict_at_def)
  obtain a where a: "tj_low s p = Some a" using F fs by (auto simp: framed_def frame_ok_def)
  let ?s = "s\<lparr>tj_work := work_of fs, tj_low := (tj_low s)(p \<mapsto> min a l)\<rparr>"
  have "framed ?s ((p, j, seg @ segp) # gs)" using merge_framed [OF F [unfolded fs] k l, of "work_of fs"] a by simp
  then have "good ?s" using run fs by (intro good_framed) (auto simp: running_def)
  then show ?thesis using close a l fs by (simp add: tj_return_def dict_at_def)
qed

lemma examine_phase:
  assumes F: "framed s ((v, k, seg) # fs)" and run: "running fs" and U: "v \<in> U"
  shows "\<exists>s'. tj_examine out v k (work_of fs) s = Inr s' \<and> good s' \<and> tj_index s' = tj_index s
    \<and> (if k < length (out v) then \<exists>pre. tj_work s' = pre @ (v, Suc k) # work_of fs \<and> (pre = [] \<or> (\<exists>t. pre = [(t, 0)]))
       else tj_work s' = work_of fs)"
proof (cases "k < length (out v)")
  case True
  show ?thesis
  proof (cases "tj_index s (out v ! k)")
    case None
    let ?s = "s\<lparr>tj_work := (out v ! k, 0) # (v, Suc k) # work_of fs\<rparr>"
    have "framed ?s ((v, k, seg) # fs)"
      using F frame_ok_same [of s _ ?s] core_same [of s ?s] by (auto simp: framed_def)
    then have "pending ?s (out v ! k) ((v, k, seg) # fs)"
      using None True run closed_U [OF U] by (auto simp: pending_def)
    then have "good ?s" unfolding good_def by blast
    then show ?thesis using None True by (auto simp: tj_examine_def)
  next
    case (Some i)
    let ?w = "(v, Suc k) # work_of fs"
    let ?s = "s\<lparr>tj_work := ?w, tj_low := (if out v ! k \<in> tj_on s then (tj_low s)(v \<mapsto> min (the (tj_low s v)) (ix s (out v ! k))) else tj_low s)\<rparr>"
    obtain l where low: "tj_low s v = Some l" using F by (auto simp: framed_def frame_ok_def)
    have "good ?s"
      by (rule good_framed [of _ "(v, Suc k, seg) # fs"])
        (use examine_known [OF F True, of ?w] Some run in \<open>auto simp: running_def\<close>)
    moreover have "tj_examine out v k (work_of fs) s = Inr ?s"
      using Some True low by (simp add: tj_examine_def dict_at_def ix_def Let_def)
    ultimately show ?thesis using True by auto
  qed
next
  case False
  then have k: "length (out v) \<le> k" by simp
  obtain l where l: "tj_low s v = Some l" "l \<le> ix s v" using F by (auto simp: framed_def frame_ok_def)
  then show ?thesis
    using leave_component [OF F run k] leave_inner [OF F run k, of l] False
    by (cases "l = ix s v") (auto simp: tj_examine_def)
qed

lemma zero_unvisited:
  assumes "good s" "tj_work s = (v, 0) # rest"
  shows "tj_index s v = None"
proof -
  have "\<not> (\<exists>fs. framed s fs \<and> tj_work s = work_of fs \<and> running fs)"
    using assms(2) by (auto simp: running_def work_of_def Cons_eq_map_conv)
  then obtain w fs where "pending s w fs" using assms(1) by (auto simp: good_def)
  then show ?thesis using pending_work [of s w fs] assms(2) by (auto simp: pending_def)
qed

text \<open>The measure: nodes not yet visited, then edges left on the frames that have been entered.\<close>

definition weight :: "string \<times> nat \<Rightarrow> nat" where
  "weight x = (if snd x = 0 then 0 else Suc (length (out (fst x)) - snd x))"

definition left :: "tarjan \<Rightarrow> nat \<times> nat" where
  "left s = (card (U - dom (tj_index s)), sum_list (map weight (tj_work s)))"

lemma step_good:
  assumes g: "good s" and w: "tj_work s = (v, k) # rest"
  shows "\<exists>s'. tj_step out s = Inr s' \<and> good s' \<and> dom (tj_index s) \<subseteq> dom (tj_index s') \<and> v \<in> dom (tj_index s')
    \<and> (left s', left s) \<in> less_than <*lex*> less_than"
proof -
  define s1 where "s1 = (if k = 0 then tj_visit v s else s)"
  obtain seg fs where F: "framed s1 ((v, k, seg) # fs)" and r: "rest = work_of fs" "running fs"
    using visit_phase [OF g w] by (auto simp: s1_def)
  have v: "v \<in> dom (tj_index s1)" using framed_dom [OF F] fvert_on_stack [OF F, of "(v, k, seg)"] by auto
  have sub: "dom (tj_index s1) \<subseteq> U" using F core_facts(7) by (auto simp: framed_def)
  have mono: "dom (tj_index s) \<subseteq> dom (tj_index s1)" by (auto simp: s1_def)
  obtain s' where s': "tj_examine out v k (work_of fs) s1 = Inr s'" "good s'" "tj_index s' = tj_index s1"
    and work: "if k < length (out v) then \<exists>pre. tj_work s' = pre @ (v, Suc k) # work_of fs \<and> (pre = [] \<or> (\<exists>t. pre = [(t, 0)]))
       else tj_work s' = work_of fs"
    using examine_phase [OF F r(2)] v sub by blast
  have "(left s', left s) \<in> less_than <*lex*> less_than"
  proof (cases "k = 0")
    case True
    then have "tj_index s v = None" using zero_unvisited [OF g] w by simp
    then have "v \<in> U - dom (tj_index s)" "v \<notin> U - dom (tj_index s')" using v sub unfolding s'(3) by blast+
    moreover have "U - dom (tj_index s') \<subseteq> U - dom (tj_index s)" using mono unfolding s'(3) by blast
    ultimately have "U - dom (tj_index s') \<subset> U - dom (tj_index s)" by blast
    then have "card (U - dom (tj_index s')) < card (U - dom (tj_index s))" using finite_U by (intro psubset_card_mono) auto
    then show ?thesis by (simp add: left_def)
  next
    case False
    then have "sum_list (map weight (tj_work s')) < sum_list (map weight (tj_work s))"
      using work w r by (auto simp: weight_def split: if_splits)
    then show ?thesis using False s'(3) by (simp add: left_def s1_def)
  qed
  then show ?thesis using s' w r v mono by (auto simp: tj_step_def s1_def)
qed

definition searching :: "string \<Rightarrow> tarjan \<Rightarrow> (py_exc, tarjan) result \<Rightarrow> bool" where
  "searching r s0 x \<longleftrightarrow> (\<exists>s. x = Inr s \<and> good s \<and> dom (tj_index s0) \<subseteq> dom (tj_index s)
     \<and> (r \<in> dom (tj_index s) \<or> tj_work s = [(r, 0)]))"

lemma searching_step:
  assumes "searching r s0 x" "tj_busy x"
  shows "searching r s0 (bind_res x (tj_step out))
    \<and> (bind_res x (tj_step out), x) \<in> inv_image (less_than <*lex*> less_than) (\<lambda>x. case x of Inl _ \<Rightarrow> (0, 0) | Inr s \<Rightarrow> left s)"
proof -
  obtain s where s: "x = Inr s" "good s" "dom (tj_index s0) \<subseteq> dom (tj_index s)" "r \<in> dom (tj_index s) \<or> tj_work s = [(r, 0)]"
    using assms(1) by (auto simp: searching_def)
  obtain v k rest where w: "tj_work s = (v, k) # rest" using assms(2) s(1) by (cases "tj_work s") (auto simp: tj_busy_def)
  obtain s' where "tj_step out s = Inr s'" "good s'" "dom (tj_index s) \<subseteq> dom (tj_index s')" "v \<in> dom (tj_index s')"
    "(left s', left s) \<in> less_than <*lex*> less_than"
    using step_good [OF s(2) w] by blast
  moreover from this have "r \<in> dom (tj_index s')" "dom (tj_index s0) \<subseteq> dom (tj_index s')" using s(3,4) w by auto
  ultimately show ?thesis unfolding searching_def s(1) bind_res_Inr in_inv_image old.sum.simps by (intro conjI exI [of _ s']) simp_all
qed

lemma loop_good:
  assumes "good (s\<lparr>tj_work := [(r, 0)]\<rparr>)"
  shows "\<exists>s'. tj_loop out (s\<lparr>tj_work := [(r, 0)]\<rparr>) = Some (Inr s') \<and> framed s' [] \<and> dom (tj_index s) \<subseteq> dom (tj_index s')
    \<and> r \<in> dom (tj_index s')"
proof -
  let ?x = "Inr (s\<lparr>tj_work := [(r, 0)]\<rparr>)"
  have init: "searching r s ?x" using assms by (simp add: searching_def)
  have "\<exists>y. while_option tj_busy (\<lambda>x. bind_res x (tj_step out)) ?x = Some y"
    by (rule wf_rel_while_option_Some [of "inv_image (less_than <*lex*> less_than) (\<lambda>x. case x of Inl _ \<Rightarrow> (0, 0) | Inr s \<Rightarrow> left s)"
          "searching r s"]) (use searching_step init in auto)
  then obtain y where y: "while_option tj_busy (\<lambda>x. bind_res x (tj_step out)) ?x = Some y" by blast
  have "searching r s y" using while_option_rule [OF _ y, of "searching r s"] searching_step init by blast
  moreover have "\<not> tj_busy y" by (rule while_option_stop [OF y])
  ultimately obtain s' where y': "y = Inr s'" and s': "good s'" "dom (tj_index s) \<subseteq> dom (tj_index s')"
      "r \<in> dom (tj_index s') \<or> tj_work s' = [(r, 0)]" "tj_work s' = []"
    unfolding searching_def tj_busy_def by fastforce
  have "r \<in> dom (tj_index s')" using s'(3,4) by simp
  moreover have "framed s' []" using s'(1,4) pending_work by (fastforce simp: good_def work_of_def)
  ultimately show ?thesis using y y' s'(2) by (simp add: tj_loop_def)
qed

lemma roots_good:
  assumes "framed s []" "set rs \<subseteq> U"
  shows "\<exists>s'. tj_roots out rs s = Some (Inr s') \<and> framed s' [] \<and> dom (tj_index s) \<union> set rs \<subseteq> dom (tj_index s')"
  using assms
proof (induction rs arbitrary: s)
  case (Cons r rs)
  show ?case
  proof (cases "tj_index s r")
    case None
    let ?s = "s\<lparr>tj_work := [(r, 0)]\<rparr>"
    have "framed ?s []" using Cons.prems(1) core_same [of s ?s] by (auto simp: framed_def)
    then have "good ?s" using None Cons.prems(2) unfolding good_def pending_def by (intro disjI2 exI [of _ r] exI [of _ "[]"]) auto
    then obtain s1 where s1: "tj_loop out ?s = Some (Inr s1)" "framed s1 []" "dom (tj_index s) \<subseteq> dom (tj_index s1)" "r \<in> dom (tj_index s1)"
      using loop_good by blast
    obtain s' where "tj_roots out rs s1 = Some (Inr s')" "framed s' []" "dom (tj_index s1) \<union> set rs \<subseteq> dom (tj_index s')"
      using Cons.IH [OF s1(2)] Cons.prems(2) by auto
    moreover from this have "dom (tj_index s) \<union> set (r # rs) \<subseteq> dom (tj_index s')" using s1(3,4) unfolding list.set by blast
    ultimately show ?thesis using None s1(1) by simp
  next
    case (Some i)
    obtain s' where "tj_roots out rs s = Some (Inr s')" "framed s' []" "dom (tj_index s) \<union> set rs \<subseteq> dom (tj_index s')"
      using Cons.IH [OF Cons.prems(1)] Cons.prems(2) by auto
    moreover have "r \<in> dom (tj_index s)" using Some by auto
    moreover from calculation have "dom (tj_index s) \<union> set (r # rs) \<subseteq> dom (tj_index s')" unfolding list.set by blast
    ultimately show ?thesis using Some by simp
  qed
qed simp

lemma start_framed: "framed tj_start []"
  by (simp add: framed_def core_def tj_start_def assigned_def closed_set_def)

lemma all_components:
  assumes "U = E\<^sup>* `` set rs"
  shows "\<exists>s. tj_roots out rs tj_start = Some (Inr s) \<and> distinct (tj_sccs s) \<and> set (tj_sccs s) = component ` U"
proof -
  have "set rs \<subseteq> U" using assms by blast
  then obtain s where s: "tj_roots out rs tj_start = Some (Inr s)" "framed s []" "set rs \<subseteq> dom (tj_index s)"
    using roots_good [OF start_framed] by blast
  have c: "core s" and "tj_stack s = []" using s(2) by (auto simp: framed_def)
  then have dom: "dom (tj_index s) = assigned s" using core_facts(3) [OF c] by simp
  have "U \<subseteq> assigned s"
    using closed_reach [OF _ core_facts(8) [OF c]] s(3) unfolding assms dom by blast
  then have A: "assigned s = U" using core_facts(7) [OF c] dom by blast
  have "set (tj_sccs s) = component ` U"
  proof
    show "set (tj_sccs s) \<subseteq> component ` U"
    proof
      fix c' assume c': "c' \<in> set (tj_sccs s)"
      then obtain x where x: "c' = component x" using core_facts(9) [OF c] by blast
      then have "x \<in> assigned s" using c' by (auto simp: assigned_def component_def)
      then show "c' \<in> component ` U" using x A by blast
    qed
    show "component ` U \<subseteq> set (tj_sccs s)"
    proof
      fix c' assume "c' \<in> component ` U"
      then obtain x d where x: "c' = component x" "d \<in> set (tj_sccs s)" "x \<in> d" unfolding A [symmetric] assigned_def by blast
      then show "c' \<in> set (tj_sccs s)" using core_facts(9) [OF c, of d] component_eq by metis
    qed
  qed
  then show ?thesis using s(1) core_facts(10) [OF c] by blast
qed

end

subsection \<open>The components of a definition\<close>

definition graph_edges :: "wdef \<Rightarrow> (string \<times> string) set" where
  "graph_edges w = {(e_source e, e_target e) | e. e \<in> set (w_edges w)}"

definition graph_nodes :: "wdef \<Rightarrow> string set" where
  "graph_nodes w = (graph_edges w)\<^sup>* `` set (map n_id (w_nodes w))"

lemma targets_edges: "{(u, v). v \<in> set (targets_of w u)} = graph_edges w"
  by (auto simp: targets_of_def graph_edges_def)

lemma finite_graph: "finite (graph_nodes w)"
proof -
  have "graph_nodes w \<subseteq> set (map n_id (w_nodes w)) \<union> e_target ` set (w_edges w)"
  proof
    fix x assume "x \<in> graph_nodes w"
    then obtain r where "r \<in> set (map n_id (w_nodes w))" "(r, x) \<in> (graph_edges w)\<^sup>*" by (auto simp: graph_nodes_def)
    from this(2,1) show "x \<in> set (map n_id (w_nodes w)) \<union> e_target ` set (w_edges w)"
      by (cases rule: rtranclE) (auto simp: graph_edges_def)
  qed
  then show ?thesis by (rule finite_subset) simp
qed

interpretation scc: digraph "targets_of w" "graph_nodes w" for w
proof
  show "finite (graph_nodes w)" by (rule finite_graph)
  show "u \<in> graph_nodes w \<Longrightarrow> set (targets_of w u) \<subseteq> graph_nodes w" for u
  proof
    fix x assume u: "u \<in> graph_nodes w" and "x \<in> set (targets_of w u)"
    then have "(u, x) \<in> graph_edges w" using targets_edges [of w] by blast
    then show "x \<in> graph_nodes w" using u unfolding graph_nodes_def by (auto intro: rtrancl_into_rtrancl)
  qed
qed

lemma scc_E: "scc.E w = graph_edges w"
  by (simp add: scc.E_def targets_edges)

lemma scc_spec:
  "\<exists>sccs. strongly_connected w = Some (Inr sccs) \<and> distinct sccs
    \<and> set sccs = (\<lambda>x. {y. (x, y) \<in> (graph_edges w)\<^sup>* \<and> (y, x) \<in> (graph_edges w)\<^sup>*}) ` graph_nodes w"
proof -
  obtain s where "tj_roots (targets_of w) (map n_id (w_nodes w)) tj_start = Some (Inr s)" "distinct (tj_sccs s)"
    "set (tj_sccs s) = scc.component w ` graph_nodes w"
    using scc.all_components [of w "map n_id (w_nodes w)"] by (auto simp: scc_E graph_nodes_def)
  then show ?thesis by (auto simp: strongly_connected_def scc.component_def scc_E)
qed

text \<open>
  C11. The search over any graph, cyclic or not, ends without an exception, and the components it
  returns are exactly the classes of mutually reachable nodes, each once.
\<close>

theorem strongly_connected_correct:
  "\<exists>sccs. strongly_connected w = Some (Inr sccs) \<and> distinct sccs
    \<and> set sccs = (\<lambda>x. {y. (x, y) \<in> (graph_edges w)\<^sup>* \<and> (y, x) \<in> (graph_edges w)\<^sup>*}) ` graph_nodes w"
  by (rule scc_spec)

end
