(* ===== verification/Wf_Validation.thy ===== *)
theory Wf_Validation
  imports Wf_Scc Wf_Engine "HOL-Library.List_Lexorder" "HOL-Library.Char_ord"
begin

section \<open>Validation of a definition before it is published\<close>

text \<open>
  The semantic rules of \<open>services/workflow/validation.py\<close>: each check looks at the normalized graph and
  returns the issues it finds, in the order of the source; an issue of severity \<open>error\<close> blocks publishing.
  Parameters are the error details of the schema library for a malformed definition, and the
  order in which a Python set is iterated. A value that cannot be hashed makes a lookup raise.
\<close>

subsection \<open>Issues\<close>

datatype severity = SevError | SevWarning

record issue =
  is_severity :: severity
  is_code :: string
  is_message :: string
  is_node :: "string option"
  is_edge :: "string option"

definition issue_of :: "severity \<Rightarrow> string \<Rightarrow> string \<Rightarrow> string option \<Rightarrow> string option \<Rightarrow> issue" where
  "issue_of s code message n e = \<lparr>is_severity = s, is_code = code, is_message = message, is_node = n, is_edge = e\<rparr>"

lemma issue_of_simps [simp]:
  "is_severity (issue_of s c m n e) = s" "is_code (issue_of s c m n e) = c" "is_node (issue_of s c m n e) = n"
  by (simp_all add: issue_of_def)

definition severity_str :: "severity \<Rightarrow> string" where
  "severity_str s = (case s of SevError \<Rightarrow> ''error'' | SevWarning \<Rightarrow> ''warning'')"

definition opt_str :: "string option \<Rightarrow> json" where
  "opt_str x = (case x of None \<Rightarrow> JNull | Some s \<Rightarrow> JStr s)"

definition as_dict :: "issue \<Rightarrow> jdict" where
  "as_dict i = [(''severity'', JStr (severity_str (is_severity i))), (''code'', JStr (is_code i)), (''message'', JStr (is_message i)),
     (''node_id'', opt_str (is_node i)), (''edge_id'', opt_str (is_edge i))]"

definition has_errors :: "issue list \<Rightarrow> bool" where
  "has_errors issues = list_ex (\<lambda>i. is_severity i = SevError) issues"

definition fmt_error :: "string list \<Rightarrow> string \<Rightarrow> string" where
  "fmt_error loc msg = (let l = join_with ''.'' loc in if l \<noteq> [] then l @ '': '' @ msg else msg)"

subsection \<open>Helpers\<close>

definition in_vocab :: "json \<Rightarrow> string list \<Rightarrow> (py_exc, bool) result" where
  "in_vocab v xs = (if hashable v then Inr (jstr_in v xs) else Inl TypeError)"

definition edges_from :: "wdef \<Rightarrow> string \<Rightarrow> wedge list" where
  "edges_from w i = filter (\<lambda>e. e_source e = i) (w_edges w)"

definition edges_into :: "wdef \<Rightarrow> string \<Rightarrow> nat" where
  "edges_into w i = length (filter (\<lambda>e. e_target e = i) (w_edges w))"

definition boundary_link :: "wnode \<Rightarrow> (py_exc, (string \<times> string) list) result" where
  "boundary_link n =
     (if \<not> is_boundary n then Inr []
      else let host = jget (n_data n) ''attached_to'' in
        if \<not> truthy host then Inr []
        else if \<not> hashable host then Inl TypeError
        else Inr (case host of JStr h \<Rightarrow> [(h, n_id n)] | _ \<Rightarrow> []))"

definition boundary_map :: "wdef \<Rightarrow> (py_exc, (string \<times> string) list) result" where
  "boundary_map w = bind_res (map_res boundary_link (w_nodes w)) (\<lambda>ls. Inr (concat ls))"

definition is_catch_target :: "wnode option \<Rightarrow> bool" where
  "is_catch_target x = (case x of None \<Rightarrow> False
     | Some n \<Rightarrow>
         if n_type n = ''event'' \<and> jget (n_data n) ''position'' = JStr ''intermediate'' then
           (case dget (n_data n) ''throw_catch'' of None \<Rightarrow> True | Some v \<Rightarrow> v = JStr ''catch'')
         else n_type n = ''task'' \<and> task_type n = JStr ''receive'')"

definition makes_progress :: "wnode \<Rightarrow> (py_exc, bool) result" where
  "makes_progress n =
     (if n_type n = ''task'' then Inr True
      else if n_type n = ''event'' then in_vocab (jget (n_data n) ''event_type'') WAIT_EVENT_TYPES
      else Inr False)"

subsection \<open>Checks\<close>

definition is_trigger :: "wnode \<Rightarrow> bool" where
  "is_trigger n \<longleftrightarrow> n_type n = ''trigger''"

definition check_triggers :: "wdef \<Rightarrow> issue list" where
  "check_triggers w =
     (let triggers = filter is_trigger (w_nodes w) in
      if triggers = [] then
        [issue_of SevError ''no-trigger'' ''The workflow has no trigger/start event, so it can never run.'' None None]
      else if length triggers > 1 then
        [issue_of SevWarning ''multiple-triggers''
           (show_nat (length triggers) @ '' start events '' @ EM_DASH @ '' a separate run starts from each.'') None None]
      else [])"

definition unreachable_issue :: "wnode \<Rightarrow> issue" where
  "unreachable_issue n = issue_of SevWarning ''unreachable''
     (''Node '' @ repr_str (n_id n) @ '' can'' @ [chr_of 39] @ ''t be reached from any start event and won'' @ [chr_of 39] @ ''t run.'')
     (Some (n_id n)) None"

definition reached :: "wdef \<Rightarrow> (string \<times> string) list \<Rightarrow> string list" where
  "reached w boundaries = bfs (edge_links w @ boundaries) (map n_id (filter is_trigger (w_nodes w))) []"

definition check_reachability :: "wdef \<Rightarrow> (py_exc, issue list) result" where
  "check_reachability w = bind_res (boundary_map w) (\<lambda>boundaries.
     let seen = reached w boundaries in
     Inr (map unreachable_issue (filter (\<lambda>n. \<not> (is_trigger n \<or> n_id n \<in> set seen)) (w_nodes w))))"

definition HANDLE_DEFAULT :: string where "HANDLE_DEFAULT = ''default''"

definition GE_SIGN :: string where "GE_SIGN = map chr_of [226, 137, 165]"

lemma GE_SIGN_code [code]: "GE_SIGN = [CHR 0xE2, CHR 0x89, CHR 0xA5]"
  by code_simp

definition degenerate_issue :: "json \<Rightarrow> string \<Rightarrow> issue" where
  "degenerate_issue kind i = issue_of SevWarning ''degenerate-gateway''
     (py_str kind @ '' gateway '' @ repr_str i @ '' neither forks (needs '' @ GE_SIGN @ ''2 outgoing) nor joins (needs '' @ GE_SIGN
        @ ''2 incoming).'') (Some i) None"

definition no_default_issue :: "string \<Rightarrow> issue" where
  "no_default_issue i = issue_of SevWarning ''exclusive-no-default''
     (''Exclusive gateway '' @ repr_str i @ '' has no default branch; a token matching no condition would stop here.'') (Some i) None"

definition gateway_issues :: "wdef \<Rightarrow> wnode \<Rightarrow> (py_exc, issue list) result" where
  "gateway_issues w n =
     (if n_type n \<noteq> ''gateway'' then Inr []
      else
        let kind = py_or (gateway_type n) (JStr ''exclusive''); out_count = length (edges_from w (n_id n)); in_count = edges_into w (n_id n) in
        bind_res (in_vocab kind FORKING_GATEWAY_TYPES) (\<lambda>forking. Inr (
          if forking then (if out_count < 2 \<and> in_count < 2 then [degenerate_issue kind (n_id n)] else [])
          else if kind = JStr ''exclusive'' \<and> out_count \<ge> 2 then
            (let handles = map e_handle (edges_from w (n_id n));
                 branches = jget (n_data n) ''expr'' \<noteq> JNull \<or> truthy (jget (n_data n) ''cases'') in
             if branches \<and> Some HANDLE_DEFAULT \<notin> set handles then [no_default_issue (n_id n)] else [])
          else [])))"

definition check_gateways :: "wdef \<Rightarrow> (py_exc, issue list) result" where
  "check_gateways w = bind_res (map_res (gateway_issues w) (w_nodes w)) (\<lambda>xs. Inr (concat xs))"

definition boundary_issues :: "wdef \<Rightarrow> wnode \<Rightarrow> (py_exc, issue list) result" where
  "boundary_issues w n =
     (if \<not> is_boundary n then Inr []
      else
        let host = jget (n_data n) ''attached_to''; me = ''Boundary event '' @ repr_str (n_id n) in
        if \<not> truthy host then Inr [issue_of SevError ''boundary-unattached'' (me @ '' is not attached to an activity.'') (Some (n_id n)) None]
        else if \<not> hashable host then Inl TypeError
        else Inr (case (case host of JStr h \<Rightarrow> node_by_id w h | _ \<Rightarrow> None) of
            None \<Rightarrow> [issue_of SevError ''boundary-bad-attach''
                       (me @ '' is attached to unknown node '' @ py_repr host @ ''.'') (Some (n_id n)) None]
          | Some h \<Rightarrow> if n_type h \<noteq> ''task'' then
                [issue_of SevWarning ''boundary-nonactivity''
                   (me @ '' should attach to a task, not a '' @ repr_str (n_type h) @ ''.'') (Some (n_id n)) None]
              else []))"

definition check_boundary_events :: "wdef \<Rightarrow> (py_exc, issue list) result" where
  "check_boundary_events w = bind_res (map_res (boundary_issues w) (w_nodes w)) (\<lambda>xs. Inr (concat xs))"

definition catch_issues :: "wdef \<Rightarrow> wnode \<Rightarrow> issue list" where
  "catch_issues w n =
     (if n_type n \<noteq> ''gateway'' \<or> gateway_type n \<noteq> JStr ''event_based'' then []
      else map (\<lambda>e. issue_of SevError ''event-gateway-target''
             (''Event-based gateway '' @ repr_str (n_id n) @ '' must lead only to catch events or receive tasks; '' @ repr_str (e_target e)
                @ '' is not one.'') (Some (n_id n)) (e_id e))
           (filter (\<lambda>e. \<not> is_catch_target (node_by_id w (e_target e))) (edges_from w (n_id n))))"

definition check_event_based_gateways :: "wdef \<Rightarrow> issue list" where
  "check_event_based_gateways w = concat (map (catch_issues w) (w_nodes w))"

definition has_error_boundary :: "wdef \<Rightarrow> string \<Rightarrow> bool" where
  "has_error_boundary w i = list_ex (boundary_of ''error'' i) (w_nodes w)"

definition agent_issues :: "wdef \<Rightarrow> bool \<Rightarrow> wnode \<Rightarrow> issue list" where
  "agent_issues w authored_v2 n =
     (if n_type n \<noteq> ''task'' \<or> task_type n \<noteq> JStr ''agent'' then []
      else
        let me = ''Agent task '' @ repr_str (n_id n);
            err = (\<lambda>code message. issue_of SevError code (me @ message) (Some (n_id n)) None) in
        (if \<not> authored_v2 then [err ''agent-task-v1'' '' requires a schema_version 2 graph (the token engine).''] else [])
        @ (if parse_uuid (py_str (jget (n_data n) ''agent_id'')) = None
           then [err ''agent-task-no-agent'' '' must reference an agent by id.''] else [])
        @ (if strip (py_str (py_or (jget (n_data n) ''task'') (JStr []))) = []
           then [err ''agent-task-no-task'' '' needs a task prompt for the agent.''] else [])
        @ (if \<not> has_error_boundary w (n_id n)
           then [err ''agent-task-no-escalation'' ('' must have an error boundary event attached '' @ EM_DASH
                   @ '' escalation/failure needs somewhere to go, or a misconfigured agent reads as success.'')] else []))"

definition check_agent_tasks :: "wdef \<Rightarrow> bool \<Rightarrow> issue list" where
  "check_agent_tasks w authored_v2 = concat (map (agent_issues w authored_v2) (w_nodes w))"

definition cyclic_component :: "wdef \<Rightarrow> string set \<Rightarrow> bool" where
  "cyclic_component w c = (case sorted_list_of_set c of
     [i] \<Rightarrow> list_ex (\<lambda>e. e_target e = i) (edges_from w i) | _ \<Rightarrow> True)"

definition component_nodes :: "(string set \<Rightarrow> string list) \<Rightarrow> wdef \<Rightarrow> string set \<Rightarrow> wnode list" where
  "component_nodes order w c = List.map_filter (node_by_id w) (order c)"

definition loop_issue :: "string set \<Rightarrow> issue" where
  "loop_issue c = issue_of SevWarning ''loop-no-progress''
     (''Loop through '' @ py_repr (JList (map JStr (sorted_list_of_set c)))
        @ '' contains no task or wait step and may spin without making progress.'')
     (Some (hd (sorted_list_of_set c))) None"

definition loop_issues :: "(string set \<Rightarrow> string list) \<Rightarrow> wdef \<Rightarrow> string set \<Rightarrow> (py_exc, issue list) result" where
  "loop_issues order w c =
     (if \<not> cyclic_component w c then Inr []
      else bind_res (any_res makes_progress (component_nodes order w c)) (\<lambda>progress.
        Inr (if progress then [] else [loop_issue c])))"

definition check_loops :: "(string set \<Rightarrow> string list) \<Rightarrow> wdef \<Rightarrow> (py_exc, issue list) result option" where
  "check_loops order w =
     (case strongly_connected w of
        None \<Rightarrow> None
      | Some r \<Rightarrow> Some (bind_res r (\<lambda>sccs. bind_res (map_res (loop_issues order w) sccs) (\<lambda>xs. Inr (concat xs)))))"

definition check_end_presence :: "wdef \<Rightarrow> issue list" where
  "check_end_presence w =
     (if list_ex (\<lambda>n. n_type n = ''event'' \<and> jget (n_data n) ''position'' = JStr ''end'') (w_nodes w) then []
      else [issue_of SevWarning ''no-end-event'' (''No explicit end event; add one so the flow'' @ [chr_of 39] @ ''s completion reads clearly.'') None None])"

subsection \<open>The whole validation\<close>

definition check_before_loops :: "wdef \<Rightarrow> (py_exc, issue list) result" where
  "check_before_loops w =
     bind_res (check_reachability w) (\<lambda>reach. bind_res (check_gateways w) (\<lambda>gates. bind_res (check_boundary_events w) (\<lambda>bounds.
       Inr (check_triggers w @ reach @ gates @ bounds @ check_event_based_gateways w))))"

definition check_model :: "(string set \<Rightarrow> string list) \<Rightarrow> bool \<Rightarrow> wdef \<Rightarrow> (py_exc, issue list) result option" where
  "check_model order authored_v2 w =
     (case check_before_loops w of
        Inl e \<Rightarrow> Some (Inl e)
      | Inr before \<Rightarrow>
          (case check_loops order w of
             None \<Rightarrow> None
           | Some r \<Rightarrow> Some (bind_res r (\<lambda>loops.
               Inr (before @ loops @ check_agent_tasks w authored_v2 @ (if authored_v2 then check_end_presence w else []))))))"

definition malformed_issues :: "(string list \<times> string) list \<Rightarrow> issue list" where
  "malformed_issues details =
     (if details = [] then [issue_of SevError ''malformed'' ''definition is not a valid workflow graph'' None None]
      else map (\<lambda>(loc, msg). issue_of SevError ''malformed'' (fmt_error loc msg) None None) details)"

definition validate_definition ::
  "(wdef \<Rightarrow> (string list \<times> string) list) \<Rightarrow> (string set \<Rightarrow> string list) \<Rightarrow> wdef \<Rightarrow> (py_exc, issue list) result option" where
  "validate_definition details order w =
     (case parse_def w of
        Inl _ \<Rightarrow> Some (Inr (malformed_issues (details w)))
      | Inr raw \<Rightarrow> check_model order (is_v2 raw) (normalize raw))"

end
