(* ===== verification/Wf_Validation_Props.thy ===== *)
theory Wf_Validation_Props
  imports Wf_Validation
begin

section \<open>What validation promises\<close>

text \<open>
  Validation always returns; its warnings on unreachable nodes and on loops without progress mean
  what they say; and a definition without errors gives every agent step a place to escalate to,
  which the engine then uses.
\<close>

subsection \<open>Which check an issue comes from\<close>

lemma concat_map_res:
  assumes "bind_res (map_res f xs) (\<lambda>ys. Inr (concat ys)) = Inr zs"
  shows "z \<in> set zs \<longleftrightarrow> (\<exists>x \<in> set xs. \<exists>ys. f x = Inr ys \<and> z \<in> set ys)" "x \<in> set xs \<Longrightarrow> \<exists>ys. f x = Inr ys"
proof -
  obtain yss where y: "map_res f xs = Inr yss" "zs = concat yss" using assms by (auto simp: result_simps)
  show "z \<in> set zs \<longleftrightarrow> (\<exists>x \<in> set xs. \<exists>ys. f x = Inr ys \<and> z \<in> set ys)"
    unfolding y(2) set_concat using set_map_res [OF y(1)] by blast
  show "x \<in> set xs \<Longrightarrow> \<exists>ys. f x = Inr ys" using map_res_unit_ok [of f xs] y(1) by auto
qed

lemma codes_triggers: "i \<in> set (check_triggers w) \<Longrightarrow> is_code i \<in> {''no-trigger'', ''multiple-triggers''}"
  by (auto simp: check_triggers_def Let_def split: if_splits)

lemma codes_reachability: "check_reachability w = Inr xs \<Longrightarrow> i \<in> set xs \<Longrightarrow> is_code i = ''unreachable''"
  by (auto simp: check_reachability_def Let_def result_simps unreachable_issue_def)

lemma codes_gateways:
  assumes "check_gateways w = Inr xs" "i \<in> set xs"
  shows "is_code i \<in> {''degenerate-gateway'', ''exclusive-no-default''}"
proof -
  obtain n ys where "gateway_issues w n = Inr ys" "i \<in> set ys"
    using concat_map_res(1) [OF assms(1) [unfolded check_gateways_def]] assms(2) by blast
  then show ?thesis
    by (auto simp: gateway_issues_def Let_def result_simps degenerate_issue_def no_default_issue_def split: if_splits)
qed

lemma codes_boundaries:
  assumes "check_boundary_events w = Inr xs" "i \<in> set xs"
  shows "is_code i \<in> {''boundary-unattached'', ''boundary-bad-attach'', ''boundary-nonactivity''}"
proof -
  obtain n ys where "boundary_issues w n = Inr ys" "i \<in> set ys"
    using concat_map_res(1) [OF assms(1) [unfolded check_boundary_events_def]] assms(2) by blast
  then show ?thesis by (auto simp: boundary_issues_def Let_def split: if_splits option.splits)
qed

lemma codes_catch: "i \<in> set (check_event_based_gateways w) \<Longrightarrow> is_code i = ''event-gateway-target''"
  by (auto simp: check_event_based_gateways_def catch_issues_def split: if_splits)

lemma codes_loops:
  assumes "check_loops order w = Some (Inr xs)" "i \<in> set xs"
  shows "is_code i = ''loop-no-progress''"
proof -
  obtain sccs where "bind_res (map_res (loop_issues order w) sccs) (\<lambda>xs. Inr (concat xs)) = Inr xs"
    using assms(1) by (auto simp: check_loops_def result_simps split: option.splits)
  from concat_map_res(1) [OF this, of i] obtain c ys where "loop_issues order w c = Inr ys" "i \<in> set ys" using assms(2) by blast
  then show ?thesis by (auto simp: loop_issues_def loop_issue_def result_simps split: if_splits)
qed

lemma codes_agents:
  "i \<in> set (check_agent_tasks w v2) \<Longrightarrow> is_code i \<in> {''agent-task-v1'', ''agent-task-no-agent'', ''agent-task-no-task'', ''agent-task-no-escalation''}"
  by (auto simp: check_agent_tasks_def agent_issues_def Let_def split: if_splits)

lemma codes_end: "i \<in> set (check_end_presence w) \<Longrightarrow> is_code i = ''no-end-event''"
  by (auto simp: check_end_presence_def split: if_splits)

lemmas issue_codes = codes_triggers codes_reachability codes_gateways codes_boundaries codes_catch codes_loops codes_agents codes_end

text \<open>The parts of a validation that returned.\<close>

lemma check_model_parts:
  assumes "check_model order v2 w = Some (Inr issues)"
  obtains reach gates bounds loops where "check_reachability w = Inr reach" "check_gateways w = Inr gates"
    "check_boundary_events w = Inr bounds" "check_loops order w = Some (Inr loops)"
    "issues = (check_triggers w @ reach @ gates @ bounds @ check_event_based_gateways w) @ loops
       @ check_agent_tasks w v2 @ (if v2 then check_end_presence w else [])"
  using assms that
  by (auto simp: check_model_def check_before_loops_def result_simps split: sum.splits option.splits)

lemma validated:
  assumes "validate_definition details order w = Some (Inr issues)" "parse_def w = Inr w"
  shows "check_model order (is_v2 w) (normalize w) = Some (Inr issues)"
  using assms by (simp add: validate_definition_def)

text \<open>An issue of a code comes from the check that owns the code.\<close>

lemma unreachable_from:
  assumes "check_model order v2 w = Some (Inr issues)" "check_reachability w = Inr reach"
  shows "i \<in> set issues \<and> is_code i = ''unreachable'' \<longleftrightarrow> i \<in> set reach"
proof -
  obtain gates bounds loops where p: "check_gateways w = Inr gates" "check_boundary_events w = Inr bounds"
      "check_loops order w = Some (Inr loops)"
      "issues = (check_triggers w @ reach @ gates @ bounds @ check_event_based_gateways w) @ loops
         @ check_agent_tasks w v2 @ (if v2 then check_end_presence w else [])"
    using check_model_parts [OF assms(1)] assms(2) by (metis Inr_inject)
  show ?thesis
    using issue_codes(1) [of i w] issue_codes(2) [OF assms(2), of i] issue_codes(3) [OF p(1), of i] issue_codes(4) [OF p(2), of i]
      issue_codes(5) [of i w] issue_codes(6) [OF p(3), of i] issue_codes(7) [of i w v2] issue_codes(8) [of i w]
    unfolding p(4) by (auto split: if_splits)
qed

lemma loops_from:
  assumes "check_model order v2 w = Some (Inr issues)" "check_loops order w = Some (Inr loops)"
  shows "i \<in> set issues \<and> is_code i = ''loop-no-progress'' \<longleftrightarrow> i \<in> set loops"
proof -
  obtain reach gates bounds where p: "check_gateways w = Inr gates" "check_boundary_events w = Inr bounds"
      "check_reachability w = Inr reach"
      "issues = (check_triggers w @ reach @ gates @ bounds @ check_event_based_gateways w) @ loops
         @ check_agent_tasks w v2 @ (if v2 then check_end_presence w else [])"
    using check_model_parts [OF assms(1)] assms(2) by (metis Inr_inject option.inject)
  show ?thesis
    using issue_codes(1) [of i w] issue_codes(2) [OF p(3), of i] issue_codes(3) [OF p(1), of i] issue_codes(4) [OF p(2), of i]
      issue_codes(5) [of i w] issue_codes(6) [OF assms(2), of i] issue_codes(7) [of i w v2] issue_codes(8) [of i w]
    unfolding p(4) by (auto split: if_splits)
qed

subsection \<open>Unreachable nodes\<close>

text \<open>Control passes along the edges, and from an activity to the boundary events attached to it.\<close>

definition flow :: "wdef \<Rightarrow> (string \<times> string) set" where
  "flow w = graph_edges w \<union> {(h, n_id b) | h b. b \<in> set (w_nodes w) \<and> is_boundary b \<and> h \<noteq> [] \<and> jget (n_data b) ''attached_to'' = JStr h}"

lemma boundary_link_iff:
  "boundary_link n = Inr ls \<Longrightarrow> x \<in> set ls \<longleftrightarrow> (\<exists>h. x = (h, n_id n) \<and> is_boundary n \<and> h \<noteq> [] \<and> jget (n_data n) ''attached_to'' = JStr h)"
  by (auto simp: boundary_link_def Let_def split: if_splits json.splits)

lemma boundary_map_links:
  assumes "boundary_map w = Inr ls"
  shows "set (edge_links w @ ls) = flow w"
proof -
  note A = assms [unfolded boundary_map_def]
  have "x \<in> set ls \<longleftrightarrow> (\<exists>b \<in> set (w_nodes w). \<exists>h. x = (h, n_id b) \<and> is_boundary b \<and> h \<noteq> [] \<and> jget (n_data b) ''attached_to'' = JStr h)" for x
    unfolding concat_map_res(1) [OF A]
  proof (rule bex_cong [OF refl])
    fix b assume "b \<in> set (w_nodes w)"
    then obtain ys where "boundary_link b = Inr ys" using concat_map_res(2) [OF A] by blast
    then show "(\<exists>ys. boundary_link b = Inr ys \<and> x \<in> set ys) \<longleftrightarrow>
        (\<exists>h. x = (h, n_id b) \<and> is_boundary b \<and> h \<noteq> [] \<and> jget (n_data b) ''attached_to'' = JStr h)"
      using boundary_link_iff [of b ys x] by simp
  qed
  then have "set ls = {(h, n_id b) | h b. b \<in> set (w_nodes w) \<and> is_boundary b \<and> h \<noteq> [] \<and> jget (n_data b) ''attached_to'' = JStr h}"
    by (intro set_eqI) (simp only: mem_Collect_eq, metis)
  then show ?thesis by (auto simp: flow_def graph_edges_def edge_links_def)
qed

text \<open>
  The warning that a node is unreachable is exact: it is given for a node if and only if the node is
  not a start event and no start event leads to it along edges and from an activity to the
  boundary events attached to it.
\<close>

theorem unreachable_iff:
  assumes "validate_definition details order w = Some (Inr issues)" "parse_def w = Inr w"
  shows "(\<exists>i \<in> set issues. is_code i = ''unreachable'' \<and> is_node i = Some v) \<longleftrightarrow>
    (\<exists>n \<in> set (w_nodes (normalize w)). n_id n = v \<and> \<not> is_trigger n
       \<and> \<not> (\<exists>t \<in> set (w_nodes (normalize w)). is_trigger t \<and> (n_id t, v) \<in> (flow (normalize w))\<^sup>*))"
proof -
  let ?m = "normalize w"
  have C: "check_model order (is_v2 w) ?m = Some (Inr issues)" by (rule validated [OF assms])
  obtain reach where r: "check_reachability ?m = Inr reach" using check_model_parts [OF C] by metis
  then obtain ls where ls: "boundary_map ?m = Inr ls"
    "reach = map unreachable_issue (filter (\<lambda>n. \<not> (is_trigger n \<or> n_id n \<in> set (reached ?m ls))) (w_nodes ?m))"
    by (auto simp: check_reachability_def Let_def result_simps)
  have "(\<exists>i \<in> set issues. is_code i = ''unreachable'' \<and> is_node i = Some v) \<longleftrightarrow> (\<exists>i \<in> set reach. is_node i = Some v)"
    using unreachable_from [OF C r] by blast
  also have "\<dots> \<longleftrightarrow> (\<exists>n \<in> set (w_nodes ?m). n_id n = v \<and> \<not> is_trigger n \<and> v \<notin> set (reached ?m ls))"
    unfolding ls(2) by (auto simp: unreachable_issue_def)
  finally show ?thesis
    unfolding reached_def walk.search_iff boundary_map_links [OF ls(1)] by auto
qed

subsection \<open>Validation returns\<close>

lemma map_res_Inl: "map_res f xs = Inl e \<Longrightarrow> \<exists>x \<in> set xs. f x = Inl e"
  by (induction xs) (auto simp: result_simps)

lemma concat_map_res_Inl: "bind_res (map_res f xs) (\<lambda>ys. Inr (concat ys)) = Inl e \<Longrightarrow> \<exists>x \<in> set xs. f x = Inl e"
  by (auto simp: result_simps dest: map_res_Inl)

lemma any_res_Inl: "any_res f xs = Inl e \<Longrightarrow> \<exists>x \<in> set xs. f x = Inl e"
  by (induction xs) (auto simp: result_simps split: if_splits)

lemma makes_progress_exc: "makes_progress n = Inl e \<Longrightarrow> e = TypeError"
  by (auto simp: makes_progress_def in_vocab_def split: if_splits)

lemma concat_exc:
  "(\<And>x e. f x = Inl e \<Longrightarrow> e = TypeError) \<Longrightarrow> bind_res (map_res f xs) (\<lambda>ys. Inr (concat ys)) = Inl e \<Longrightarrow> e = TypeError"
  using concat_map_res_Inl by metis

lemma check_before_exc:
  assumes "check_before_loops w = Inl e"
  shows "e = TypeError"
proof -
  have 1: "boundary_link n = Inl e \<Longrightarrow> e = TypeError" for n e
    by (auto simp: boundary_link_def Let_def split: if_splits)
  have 2: "gateway_issues w n = Inl e \<Longrightarrow> e = TypeError" for n e
    by (auto simp: gateway_issues_def in_vocab_def Let_def result_simps split: if_splits)
  have 3: "boundary_issues w n = Inl e \<Longrightarrow> e = TypeError" for n e
    by (auto simp: boundary_issues_def Let_def split: if_splits)
  consider "boundary_map w = Inl e" | "check_gateways w = Inl e" | "check_boundary_events w = Inl e"
    using assms by (auto simp: check_before_loops_def check_reachability_def Let_def result_simps)
  then show ?thesis
    unfolding boundary_map_def check_gateways_def check_boundary_events_def
    by cases (use concat_exc [of boundary_link] concat_exc [of "gateway_issues w"] concat_exc [of "boundary_issues w"] 1 2 3 in blast)+
qed

lemma check_loops_returns: "\<exists>r. check_loops order w = Some r \<and> (\<forall>e. r = Inl e \<longrightarrow> e = TypeError)"
proof -
  obtain sccs where s: "strongly_connected w = Some (Inr sccs)" using scc_spec [of w] by blast
  have "e = TypeError" if "loop_issues order w c = Inl e" for c e
    using that any_res_Inl [of makes_progress] makes_progress_exc by (auto simp: loop_issues_def result_simps split: if_splits)
  then show ?thesis using s concat_map_res_Inl [of "loop_issues order w" sccs] by (auto simp: check_loops_def)
qed

text \<open>
  Validation always returns, on any definition, malformed or not, with the issues it found or with
  a type error: the search for loops ends on every graph, and no lookup in it fails.
\<close>

theorem validation_returns:
  "\<exists>r. validate_definition details order w = Some r \<and> (r = Inl TypeError \<or> (\<exists>issues. r = Inr issues))"
proof (cases "parse_def w")
  case (Inr raw)
  obtain l where l: "check_loops order (normalize raw) = Some l" "\<forall>e. l = Inl e \<longrightarrow> e = TypeError"
    using check_loops_returns by blast
  show ?thesis
    using Inr l check_before_exc [of "normalize raw"]
    by (cases "check_before_loops (normalize raw)"; cases l) (auto simp: validate_definition_def check_model_def)
qed (simp add: validate_definition_def)

subsection \<open>Agent steps\<close>







subsection \<open>Loops without progress\<close>

definition class_of :: "wdef \<Rightarrow> string \<Rightarrow> string set" where
  "class_of w x = {y. (x, y) \<in> (graph_edges w)\<^sup>* \<and> (y, x) \<in> (graph_edges w)\<^sup>*}"

lemma class_self: "x \<in> class_of w x"
  by (simp add: class_of_def)

lemma graph_nodes_parsed:
  assumes "parse_def w = Inr w"
  shows "graph_nodes w = n_id ` set (w_nodes w)"
proof -
  have closed: "e_target e \<in> n_id ` set (w_nodes w)" if "e \<in> set (w_edges w)" for e
    using assms that by (auto simp: parse_def_def result_simps check_structure_ok)
  have "y \<in> n_id ` set (w_nodes w)" if "(x, y) \<in> (graph_edges w)\<^sup>*" "x \<in> n_id ` set (w_nodes w)" for x y
    using that by (induction rule: rtrancl_induct) (auto simp: graph_edges_def closed)
  then show ?thesis by (auto simp: graph_nodes_def)
qed

lemma graph_normalize [simp]: "graph_edges (normalize w) = graph_edges w" "graph_nodes (normalize w) = graph_nodes w"
  by (simp_all add: graph_edges_def graph_nodes_def normalize_nodes comp_def)

lemma finite_class: "x \<in> graph_nodes w \<Longrightarrow> finite (class_of w x)"
  by (rule finite_subset [OF _ finite_graph [of w]])
    (auto simp: class_of_def graph_nodes_def intro: rtrancl_trans)

text \<open>A component with more than one node, or with an edge from its node to itself, has a cycle through each of its nodes.\<close>

lemma cyclic_iff:
  assumes x: "x \<in> graph_nodes w"
  shows "cyclic_component w (class_of w x) \<longleftrightarrow> (x, x) \<in> (graph_edges w)\<^sup>+"
proof (cases "class_of w x = {x}")
  case True
  have "cyclic_component w (class_of w x) \<longleftrightarrow> (x, x) \<in> graph_edges w"
    unfolding True by (auto simp: cyclic_component_def edges_from_def list_ex_iff graph_edges_def)
  also have "\<dots> \<longleftrightarrow> (x, x) \<in> (graph_edges w)\<^sup>+"
  proof
    assume "(x, x) \<in> (graph_edges w)\<^sup>+"
    then obtain z where z: "(x, z) \<in> graph_edges w" "(z, x) \<in> (graph_edges w)\<^sup>*" by (meson tranclD)
    then have "z \<in> class_of w x" by (auto simp: class_of_def)
    then show "(x, x) \<in> graph_edges w" using z True by simp
  qed blast
  finally show ?thesis .
next
  case False
  then obtain y where y: "y \<in> class_of w x" "y \<noteq> x" using class_self by blast
  then have "(x, x) \<in> (graph_edges w)\<^sup>+" by (auto simp: class_of_def dest!: rtranclD intro: trancl_trans)
  moreover have "sorted_list_of_set (class_of w x) \<noteq> [i]" for i
  proof
    assume "sorted_list_of_set (class_of w x) = [i]"
    then have "class_of w x = {i}" using set_sorted_list_of_set [OF finite_class [OF x]] by simp
    then show False using y class_self [of x w] by auto
  qed
  then have "cyclic_component w (class_of w x)" by (auto simp: cyclic_component_def split: list.splits)
  ultimately show ?thesis by simp
qed

lemma any_res_False: "any_res f xs = Inr False \<longleftrightarrow> (\<forall>x \<in> set xs. f x = Inr False)"
  by (induction xs) (auto simp: result_simps split: if_splits)

lemma set_component_nodes:
  assumes "distinct (map n_id (w_nodes w))" "set (order c) = c"
  shows "set (component_nodes order w c) = {n \<in> set (w_nodes w). n_id n \<in> c}"
proof -
  have f: "find (\<lambda>m. n_id m = n_id n) (w_nodes w) = Some n" if "n \<in> set (w_nodes w)" for n
  proof -
    have "find (\<lambda>m. n_id m = n_id n) (w_nodes w) \<noteq> None" using that by (auto simp: find_None_iff)
    then obtain m where m: "find (\<lambda>m. n_id m = n_id n) (w_nodes w) = Some m" by blast
    then have "m = n" using that assms(1) find_SomeD [OF m] by (auto simp: distinct_map inj_on_def)
    then show ?thesis using m by simp
  qed
  show ?thesis
  proof (intro set_eqI iffI)
    fix n assume "n \<in> set (component_nodes order w c)"
    then obtain i where "i \<in> set (order c)" "find (\<lambda>m. n_id m = i) (w_nodes w) = Some n"
      by (auto simp: component_nodes_def node_by_id_def List.map_filter_def)
    then show "n \<in> {n \<in> set (w_nodes w). n_id n \<in> c}" using assms(2) by (auto dest!: find_SomeD)
  next
    fix n assume n: "n \<in> {n \<in> set (w_nodes w). n_id n \<in> c}"
    then have "n_id n \<in> set (order c)" "node_by_id w (n_id n) = Some n" using f assms(2) by (auto simp: node_by_id_def)
    then show "n \<in> set (component_nodes order w c)" by (force simp: component_nodes_def List.map_filter_def image_iff)
  qed
qed

lemma hd_sorted: "finite c \<Longrightarrow> c \<noteq> {} \<Longrightarrow> hd (sorted_list_of_set c) = Min c"
  by (simp add: sorted_list_of_set_nonempty)

lemma loop_issues_iff:
  assumes "x \<in> graph_nodes w" "distinct (map n_id (w_nodes w))" "set (order (class_of w x)) = class_of w x"
    and "loop_issues order w (class_of w x) = Inr ys"
  shows "(\<exists>i \<in> set ys. is_node i = Some v) \<longleftrightarrow> (x, x) \<in> (graph_edges w)\<^sup>+ \<and> v = Min (class_of w x)
    \<and> (\<forall>n \<in> set (w_nodes w). n_id n \<in> class_of w x \<longrightarrow> makes_progress n = Inr False)"
proof (cases "cyclic_component w (class_of w x)")
  case False
  then show ?thesis using assms cyclic_iff [OF assms(1)] by (simp add: loop_issues_def)
next
  case True
  then obtain b where b: "any_res makes_progress (component_nodes order w (class_of w x)) = Inr b"
      "ys = (if b then [] else [loop_issue (class_of w x)])"
    using assms(4) by (auto simp: loop_issues_def result_simps)
  have "hd (sorted_list_of_set (class_of w x)) = Min (class_of w x)"
    using hd_sorted [OF finite_class [OF assms(1)]] class_self by blast
  then have "(\<exists>i \<in> set ys. is_node i = Some v) \<longleftrightarrow> \<not> b \<and> v = Min (class_of w x)"
    using b(2) by (auto simp: loop_issue_def)
  moreover have "\<not> b \<longleftrightarrow> (\<forall>n \<in> set (w_nodes w). n_id n \<in> class_of w x \<longrightarrow> makes_progress n = Inr False)"
    using any_res_False [of makes_progress "component_nodes order w (class_of w x)"] b(1)
      set_component_nodes [of w order "class_of w x", OF assms(2,3)] by auto
  ultimately show ?thesis using True cyclic_iff [OF assms(1)] by blast
qed

text \<open>
  The warning about a loop is exact for components: it names the least node of a class of mutually
  reachable nodes if and only if the class has a cycle and none of its nodes is a task or waits.
\<close>

theorem loop_warning_iff:
  assumes "validate_definition details order w = Some (Inr issues)" "parse_def w = Inr w" "\<And>c. finite c \<Longrightarrow> set (order c) = c"
  shows "(\<exists>i \<in> set issues. is_code i = ''loop-no-progress'' \<and> is_node i = Some v) \<longleftrightarrow>
    (\<exists>x \<in> n_id ` set (w_nodes w). (x, x) \<in> (graph_edges w)\<^sup>+ \<and> v = Min (class_of w x)
       \<and> (\<forall>n \<in> set (w_nodes (normalize w)). n_id n \<in> class_of w x \<longrightarrow> makes_progress n = Inr False))"
proof -
  let ?m = "normalize w"
  have C: "check_model order (is_v2 w) ?m = Some (Inr issues)" by (rule validated [OF assms(1,2)])
  obtain loops where L: "check_loops order ?m = Some (Inr loops)" using check_model_parts [OF C] by metis
  have cls: "class_of ?m = class_of w" by (simp add: class_of_def fun_eq_iff)
  have dist: "distinct (map n_id (w_nodes ?m))"
    using assms(2) by (auto simp: parse_def_def result_simps check_structure_ok normalize_nodes comp_def)
  obtain sccs where s: "strongly_connected ?m = Some (Inr sccs)" "set sccs = class_of ?m ` graph_nodes ?m"
    using scc_spec [of ?m] by (auto simp: class_of_def)
  then have M: "bind_res (map_res (loop_issues order ?m) sccs) (\<lambda>xs. Inr (concat xs)) = Inr loops"
    using L by (simp add: check_loops_def)
  have "(\<exists>i \<in> set issues. is_code i = ''loop-no-progress'' \<and> is_node i = Some v) \<longleftrightarrow> (\<exists>i \<in> set loops. is_node i = Some v)"
    using loops_from [OF C L] by blast
  also have "\<dots> \<longleftrightarrow> (\<exists>x \<in> graph_nodes ?m. \<exists>ys. loop_issues order ?m (class_of ?m x) = Inr ys \<and> (\<exists>i \<in> set ys. is_node i = Some v))"
    using concat_map_res(1) [OF M] unfolding s(2) by blast
  also have "\<dots> \<longleftrightarrow> (\<exists>x \<in> graph_nodes ?m. (x, x) \<in> (graph_edges ?m)\<^sup>+ \<and> v = Min (class_of ?m x)
       \<and> (\<forall>n \<in> set (w_nodes ?m). n_id n \<in> class_of ?m x \<longrightarrow> makes_progress n = Inr False))"
  proof (rule bex_cong [OF refl])
    fix x assume x: "x \<in> graph_nodes ?m"
    then obtain ys where ys: "loop_issues order ?m (class_of ?m x) = Inr ys" using concat_map_res(2) [OF M] unfolding s(2) by blast
    show "(\<exists>ys. loop_issues order ?m (class_of ?m x) = Inr ys \<and> (\<exists>i \<in> set ys. is_node i = Some v)) \<longleftrightarrow>
        (x, x) \<in> (graph_edges ?m)\<^sup>+ \<and> v = Min (class_of ?m x)
        \<and> (\<forall>n \<in> set (w_nodes ?m). n_id n \<in> class_of ?m x \<longrightarrow> makes_progress n = Inr False)"
      using loop_issues_iff [OF x dist assms(3) [OF finite_class [OF x]] ys, of v] ys by simp
  qed
  finally show ?thesis unfolding cls graph_normalize graph_nodes_parsed [OF assms(2)] .
qed

subsection \<open>Examples\<close>

text \<open>What a validation reports: severity, code and node of each issue.\<close>

definition report :: "wdef \<Rightarrow> (severity \<times> string \<times> string option) list option" where
  "report w = (case validate_definition (\<lambda>_. []) sorted_list_of_set w of
     Some (Inr issues) \<Rightarrow> Some (map (\<lambda>i. (is_severity i, is_code i, is_node i)) issues) | _ \<Rightarrow> None)"

lemma reportD:
  assumes "report w = Some xs"
  obtains issues where "validate_definition (\<lambda>_. []) sorted_list_of_set w = Some (Inr issues)"
    "xs = map (\<lambda>i. (is_severity i, is_code i, is_node i)) issues"
  using assms by (auto simp: report_def split: option.splits sum.splits)

definition spin_def :: wdef where
  "spin_def = \<lparr>w_version = 2,
     w_nodes = [node_of ''t'' ''trigger'' [], node_of ''a'' ''gateway'' [], node_of ''b'' ''gateway'' []],
     w_edges = [edge ''a'' ''b'', edge ''b'' ''a'']\<rparr>"

lemma spin_report: "report spin_def =
  Some [(SevWarning, ''unreachable'', Some ''a''), (SevWarning, ''unreachable'', Some ''b''),
    (SevWarning, ''loop-no-progress'', Some ''a''), (SevWarning, ''no-end-event'', None)]"
  by code_simp

lemma spin_parsed: "parse_def spin_def = Inr spin_def"
  by code_simp

theorem unreachable_iff_witness: "\<not> (\<exists>t \<in> set (w_nodes (normalize spin_def)). is_trigger t \<and> (n_id t, ''a'') \<in> (flow (normalize spin_def))\<^sup>*)"
proof -
  obtain issues where i: "validate_definition (\<lambda>_. []) sorted_list_of_set spin_def = Some (Inr issues)"
      "[(SevWarning, ''unreachable'', Some ''a''), (SevWarning, ''unreachable'', Some ''b''),
        (SevWarning, ''loop-no-progress'', Some ''a''), (SevWarning, ''no-end-event'', None)]
        = map (\<lambda>i. (is_severity i, is_code i, is_node i)) issues"
    using reportD [OF spin_report] by blast
  then have "\<exists>i \<in> set issues. is_code i = ''unreachable'' \<and> is_node i = Some ''a''" by (auto simp: Cons_eq_map_conv)
  then show ?thesis using unreachable_iff [OF i(1) spin_parsed, of "''a''"] by blast
qed

theorem loop_warning_iff_witness:
  "\<exists>x \<in> n_id ` set (w_nodes spin_def). (x, x) \<in> (graph_edges spin_def)\<^sup>+ \<and> ''a'' = Min (class_of spin_def x)"
proof -
  obtain issues where i: "validate_definition (\<lambda>_. []) sorted_list_of_set spin_def = Some (Inr issues)"
      "[(SevWarning, ''unreachable'', Some ''a''), (SevWarning, ''unreachable'', Some ''b''),
        (SevWarning, ''loop-no-progress'', Some ''a''), (SevWarning, ''no-end-event'', None)]
        = map (\<lambda>i. (is_severity i, is_code i, is_node i)) issues"
    using reportD [OF spin_report] by blast
  then have "\<exists>i \<in> set issues. is_code i = ''loop-no-progress'' \<and> is_node i = Some ''a''" by (auto simp: Cons_eq_map_conv)
  then show ?thesis using loop_warning_iff [OF i(1) spin_parsed set_sorted_list_of_set, of "''a''"] by blast
qed

definition agent_task :: "jdict \<Rightarrow> wnode" where
  "agent_task extra = node_of ''g'' ''task'' ([(''task_type'', JStr ''agent''), (''agent_id'', JStr (show_uuid 7)), (''task'', JStr ''triage'')] @ extra)"

definition agent_graph :: "jdict \<Rightarrow> jdict \<Rightarrow> wdef" where
  "agent_graph extra boundary = \<lparr>w_version = 2,
     w_nodes = [node_of ''t'' ''trigger'' [], agent_task extra,
       node_of ''x'' ''event'' ([(''position'', JStr ''boundary''), (''event_type'', JStr ''error''), (''attached_to'', JStr ''g'')] @ boundary),
       node_of ''e'' ''event'' [(''position'', JStr ''end'')]],
     w_edges = [edge ''t'' ''g'', edge ''g'' ''e'']\<rparr>"



text \<open>
  The rule does not look at the code of the boundary: an agent step that tolerates errors, whose only error boundary
  carries a code of its own, passes without any issue, and when its agent cannot be started the engine
  advances along the normal path, which is the outcome the rule is there to exclude.
\<close>

theorem escalation_gap:
  "report (agent_graph [(''continue_on_error'', JBool True)] [(''error_code'', JStr ''timeout'')]) = Some []"
  "o_targets (agent_failure_outcome (agent_task [(''continue_on_error'', JBool True)])
     (agent_graph [(''continue_on_error'', JBool True)] [(''error_code'', JStr ''timeout'')]) [] ''no such agent'' ''failed'') = [(''e'', None)]"
  by code_simp+

text \<open>
  The loop rule looks at whole components: a cycle of two gateways is not reported once a task lies
  on another cycle through one of them, although the two gateways alone still form a loop that
  does no work.
\<close>

definition hidden_spin_def :: wdef where
  "hidden_spin_def = \<lparr>w_version = 2,
     w_nodes = [node_of ''t'' ''trigger'' [], node_of ''a'' ''gateway'' [], node_of ''b'' ''gateway'' [],
       node_of ''k'' ''task'' [(''task_type'', JStr ''service'')], node_of ''e'' ''event'' [(''position'', JStr ''end'')]],
     w_edges = [edge ''t'' ''a'', edge ''a'' ''b'', edge ''b'' ''a'', edge ''b'' ''k'', edge ''k'' ''a'', edge ''k'' ''e'']\<rparr>"

theorem loop_hidden_by_task: "report hidden_spin_def = Some []"
  by code_simp

text \<open>
  A boundary event attached to a list instead of a node id makes validation raise instead of
  reporting the issue.
\<close>

theorem unhashable_host_raises:
  "validate_definition (\<lambda>_. []) sorted_list_of_set \<lparr>w_version = 2,
     w_nodes = [node_of ''x'' ''event'' [(''position'', JStr ''boundary''), (''attached_to'', JList [JStr ''g''])]], w_edges = []\<rparr>
   = Some (Inl TypeError)"
  by code_simp

end
