(* ===== verification/Agent_Authority.thy ===== *)
theory Agent_Authority
  imports Py_Text
begin

section \<open>Agent authority: kind gate, grants and postures\<close>

text \<open>
  The policy that decides whether an agent may call a tool
  (\<open>services/agents/authority.py\<close>, \<open>services/agents/kind_gate.py\<close>, the tool description of
  \<open>services/agents/tools/spec.py\<close>). An agent's \<open>grants\<close> column is JSON of any shape, so reading
  it can raise; \<open>decide\<close> returns the exception or the verdict. The theorems show that the role
  restriction and the plan posture hold whatever the grants say, and that the postures are
  ordered by how much they let through.
\<close>

subsection \<open>Tools and agents\<close>

datatype category = READ | WRITE | EXECUTE | DELEGATE | ESCALATE | PLAN

definition category_str :: "category \<Rightarrow> string" where
  "category_str c = (case c of READ \<Rightarrow> ''read'' | WRITE \<Rightarrow> ''write'' | EXECUTE \<Rightarrow> ''execute'' | DELEGATE \<Rightarrow> ''delegate''
     | ESCALATE \<Rightarrow> ''escalate'' | PLAN \<Rightarrow> ''plan'')"

record tool_spec =
  ts_name :: string
  ts_category :: category
  ts_side_effecting :: bool
  ts_always_allowed :: bool
  ts_always_ask :: bool

record agent =
  agt_id :: nat
  agt_org :: nat
  agt_name :: string
  agt_kind :: string
  agt_supervisor :: "nat option"
  agt_enabled :: bool
  agt_grants :: json

subsection \<open>The kind gate\<close>

definition ALLOWED_CATEGORIES :: "(string, category list) dict" where
  "ALLOWED_CATEGORIES =
     [(''coordinator'', [READ, PLAN, DELEGATE, ESCALATE]), (''advisory'', [READ, PLAN, ESCALATE]),
      (''operator'', [READ, WRITE, EXECUTE, DELEGATE, ESCALATE, PLAN])]"

definition quoted :: "string \<Rightarrow> string" where
  "quoted s = [chr_of 39] @ s @ [chr_of 39]"

text \<open>A denial is never the empty text, so the caller's truth test is the test for \<open>None\<close>.\<close>

definition kind_gate :: "string \<Rightarrow> tool_spec \<Rightarrow> string option" where
  "kind_gate kind spec =
     (let allowed = (case dget ALLOWED_CATEGORIES kind of Some cs \<Rightarrow> cs
                     | None \<Rightarrow> the (dget ALLOWED_CATEGORIES ''operator'')) in
      if ts_category spec \<notin> set allowed
      then Some (''role '' @ quoted kind @ '' may not use '' @ category_str (ts_category spec) @ '' tools'')
      else None)"

subsection \<open>Grants\<close>

text \<open>\<open>s.rsplit(sep, 1)[0]\<close>: what precedes the last occurrence of the separator.\<close>

fun before_last :: "string \<Rightarrow> string \<Rightarrow> string option" where
  "before_last sep [] = None"
| "before_last sep (c # s) =
     (case before_last sep s of
        Some h \<Rightarrow> Some (c # h)
      | None \<Rightarrow> if take (length sep) (c # s) = sep then Some [] else None)"

definition rsplit_head :: "string \<Rightarrow> string \<Rightarrow> string" where
  "rsplit_head sep s = (case before_last sep s of Some h \<Rightarrow> h | None \<Rightarrow> s)"

definition granted :: "json set \<Rightarrow> string \<Rightarrow> bool" where
  "granted allowed name \<longleftrightarrow>
     JStr name \<in> allowed
     \<or> take 5 name = ''mcp__''
        \<and> (JStr (rsplit_head ''__'' name @ ''__*'') \<in> allowed \<or> JStr ''mcp__*'' \<in> allowed)"

definition ROLE_PROVIDED :: "category list" where
  "ROLE_PROVIDED = [DELEGATE, ESCALATE, PLAN]"

definition grants_field :: "agent \<Rightarrow> string \<Rightarrow> (py_exc, json) result" where
  "grants_field agent k = attr_get (py_or (agt_grants agent) (JObj [])) k"

definition grants_set :: "agent \<Rightarrow> string \<Rightarrow> (py_exc, json set) result" where
  "grants_set agent k = bind_res (grants_field agent k) (\<lambda>v. bind_res (py_set (py_or v (JList []))) (\<lambda>xs. Inr (set xs)))"

definition is_available :: "agent \<Rightarrow> tool_spec \<Rightarrow> (py_exc, bool) result" where
  "is_available agent spec =
     (if ts_always_allowed spec then Inr True
      else if ts_category spec \<in> set ROLE_PROVIDED then Inr True
      else bind_res (grants_set agent ''tools'') (\<lambda>allowed.
        if ts_category spec = WRITE then
          (if \<not> granted allowed (ts_name spec) then Inr False
           else bind_res (grants_field agent ''records_write'') (\<lambda>w. Inr (truthy w)))
        else Inr (granted allowed (ts_name spec))))"

subsection \<open>The decision\<close>

datatype decision = ALLOW | ASK | DENY

record verdict =
  vd_decision :: decision
  vd_reason :: string

definition verdict_of :: "decision \<Rightarrow> string \<Rightarrow> verdict" where
  "verdict_of d r = \<lparr>vd_decision = d, vd_reason = r\<rparr>"

definition PLAN_ONLY :: string where "PLAN_ONLY = ''plan''"
definition AUTOMATIC :: string where "AUTOMATIC = ''automatic''"

definition PLAN_ONLY_CATEGORIES :: "category list" where
  "PLAN_ONLY_CATEGORIES = [READ, PLAN, DELEGATE, ESCALATE]"

definition plan_mode_reason :: "string \<Rightarrow> string" where
  "plan_mode_reason name = quoted name @ '' is unavailable while this work order is in plan mode. Finish your research and call submit_plan ''
     @ EM_DASH @ '' the person approving that plan is what lets the work start.''"

definition decide :: "agent \<Rightarrow> tool_spec \<Rightarrow> string \<Rightarrow> (py_exc, verdict) result" where
  "decide agent spec autonomy =
     (case kind_gate (agt_kind agent) spec of
        Some denial \<Rightarrow> Inr (verdict_of DENY denial)
      | None \<Rightarrow>
          if autonomy = PLAN_ONLY \<and> (ts_category spec \<notin> set PLAN_ONLY_CATEGORIES \<or> ts_side_effecting spec) then
            Inr (verdict_of DENY (plan_mode_reason (ts_name spec)))
          else
            bind_res (is_available agent spec) (\<lambda>available.
              if \<not> available then
                Inr (verdict_of DENY (quoted (ts_name spec) @ '' is not granted to this agent''))
              else if ts_always_ask spec then Inr (verdict_of ASK ''a person decides this one'')
              else if autonomy = AUTOMATIC then Inr (verdict_of ALLOW [])
              else bind_res (grants_set agent ''approval_required'') (\<lambda>approval.
                if JStr (ts_name spec) \<in> approval then Inr (verdict_of ASK ''requires human approval'')
                else if autonomy = ''high_touch'' \<and> ts_side_effecting spec then
                  Inr (verdict_of ASK ''high-touch: external action requires human approval'')
                else Inr (verdict_of ALLOW []))))"

definition is_denied :: "agent \<Rightarrow> string \<Rightarrow> tool_spec \<Rightarrow> (py_exc, bool) result" where
  "is_denied agent autonomy spec = bind_res (decide agent spec autonomy) (\<lambda>v. Inr (vd_decision v = DENY))"

fun available_tools :: "agent \<Rightarrow> tool_spec list \<Rightarrow> string \<Rightarrow> (py_exc, tool_spec list) result" where
  "available_tools agent [] autonomy = Inr []"
| "available_tools agent (s # specs) autonomy =
     bind_res (is_denied agent autonomy s) (\<lambda>denied.
     bind_res (available_tools agent specs autonomy) (\<lambda>rest.
       Inr (if denied then rest else s # rest)))"

text \<open>The posture of a run; the argument is the mode of its work order, if it has one.\<close>

definition posture_for :: "string option \<Rightarrow> string \<Rightarrow> string" where
  "posture_for mode org_posture =
     (if mode = Some ''plan'' then PLAN_ONLY else if mode = Some ''automatic'' then AUTOMATIC else org_posture)"

subsection \<open>Safety of the decision\<close>

lemmas authority_defs = decide_def is_available_def verdict_of_def PLAN_ONLY_def AUTOMATIC_def

lemma kind_gate_None: "kind_gate kind spec = None \<Longrightarrow>
    (kind = ''coordinator'' \<or> kind = ''advisory'' \<longrightarrow> ts_category spec \<noteq> WRITE \<and> ts_category spec \<noteq> EXECUTE)
    \<and> (kind = ''advisory'' \<longrightarrow> ts_category spec \<noteq> DELEGATE)"
  by (auto simp: kind_gate_def ALLOWED_CATEGORIES_def Let_def split: if_splits)

text \<open>What availability rests on.\<close>

definition entitled :: "agent \<Rightarrow> tool_spec \<Rightarrow> bool" where
  "entitled agent spec \<longleftrightarrow> ts_always_allowed spec \<or> ts_category spec \<in> {DELEGATE, ESCALATE, PLAN}
     \<or> (\<exists>allowed. grants_set agent ''tools'' = Inr allowed \<and> granted allowed (ts_name spec))
        \<and> (ts_category spec = WRITE \<longrightarrow> (\<exists>w. grants_field agent ''records_write'' = Inr w \<and> truthy w))"

lemma is_available_entitled: "is_available agent spec = Inr True \<Longrightarrow> entitled agent spec"
  by (auto simp: is_available_def entitled_def ROLE_PROVIDED_def result_simps split: if_splits)

text \<open>A verdict other than a denial went through the gate, the plan posture and availability.\<close>

lemma decide_not_denied:
  assumes "decide agent spec autonomy = Inr v" "vd_decision v \<noteq> DENY"
  shows "kind_gate (agt_kind agent) spec = None
    \<and> \<not> (autonomy = PLAN_ONLY \<and> (ts_category spec \<notin> set PLAN_ONLY_CATEGORIES \<or> ts_side_effecting spec))
    \<and> is_available agent spec = Inr True \<and> (ts_always_ask spec \<longrightarrow> vd_decision v = ASK)"
  using assms by (auto simp: decide_def verdict_of_def result_simps split: option.splits if_splits)

text \<open>
  C36. Default deny and its exceptions. Whatever the grants and the posture, a tool that is
  not denied passes the role restriction (a coordinator or an adviser never writes or
  executes, an adviser never delegates), in plan mode it neither acts nor has a side effect,
  the agent is entitled to it by role, by the tool's own flag or by an explicit grant (with
  the write flag for a write tool), and a tool meant to put a question to a person is
  always asked about.
\<close>

theorem decide_default_deny:
  assumes "decide agent spec autonomy = Inr v" "vd_decision v \<noteq> DENY"
  shows "(agt_kind agent = ''coordinator'' \<or> agt_kind agent = ''advisory'' \<longrightarrow>
            ts_category spec \<noteq> WRITE \<and> ts_category spec \<noteq> EXECUTE)
    \<and> (agt_kind agent = ''advisory'' \<longrightarrow> ts_category spec \<noteq> DELEGATE)
    \<and> (autonomy = PLAN_ONLY \<longrightarrow> ts_category spec \<in> {READ, PLAN, DELEGATE, ESCALATE} \<and> \<not> ts_side_effecting spec)
    \<and> entitled agent spec
    \<and> (ts_always_ask spec \<longrightarrow> vd_decision v = ASK)"
  using decide_not_denied [OF assms] kind_gate_None is_available_entitled
  unfolding PLAN_ONLY_CATEGORIES_def by auto

definition operator0 :: agent where
  "operator0 = \<lparr>agt_id = 1, agt_org = 1, agt_name = ''op'', agt_kind = ''operator'', agt_supervisor = None, agt_enabled = True,
     agt_grants = JObj [(''tools'', JList [JStr ''send_email'']), (''records_write'', JBool False)]\<rparr>"

definition email0 :: tool_spec where
  "email0 = \<lparr>ts_name = ''send_email'', ts_category = EXECUTE, ts_side_effecting = True, ts_always_allowed = False, ts_always_ask = False\<rparr>"

lemma decide_email: "decide operator0 email0 ''high_touch'' = Inr (verdict_of ASK ''high-touch: external action requires human approval'')"
  "decide operator0 email0 AUTOMATIC = Inr (verdict_of ALLOW [])" "decide operator0 email0 ''balanced'' = Inr (verdict_of ALLOW [])"
  "decide operator0 email0 PLAN_ONLY = Inr (verdict_of DENY (plan_mode_reason ''send_email''))"
  by (simp_all add: decide_def kind_gate_def ALLOWED_CATEGORIES_def PLAN_ONLY_def AUTOMATIC_def PLAN_ONLY_CATEGORIES_def is_available_def
      ROLE_PROVIDED_def grants_set_def grants_field_def attr_get_def py_or_def jget_def py_set_def py_iter_def hashable_def
      granted_def operator0_def email0_def)

theorem decide_default_deny_witness: "entitled operator0 email0"
  using decide_default_deny [OF decide_email(1)] by (simp add: verdict_of_def)

subsection \<open>The order of the postures\<close>

definition strictness :: "decision \<Rightarrow> nat" where
  "strictness d = (case d of ALLOW \<Rightarrow> 0 | ASK \<Rightarrow> 1 | DENY \<Rightarrow> 2)"

lemma strictness_inj: "strictness c = strictness d \<longleftrightarrow> c = d"
  by (cases c; cases d) (simp_all add: strictness_def)

text \<open>Decisions are ordered by how much they leave the agent to do, the strictest last.\<close>

instantiation decision :: linorder
begin

definition less_eq_decision :: "decision \<Rightarrow> decision \<Rightarrow> bool" where
  "less_eq_decision c d \<longleftrightarrow> strictness c \<le> strictness d"

definition less_decision :: "decision \<Rightarrow> decision \<Rightarrow> bool" where
  "less_decision c d \<longleftrightarrow> strictness c < strictness d"

instance
  by standard (auto simp: less_eq_decision_def less_decision_def strictness_inj)

end

text \<open>
  The postures are ordered: for the same agent and tool the automatic posture is at most as
  strict as any other, high touch is the strictest of those that let an agent act, and plan
  mode is stricter still. Outside plan mode the posture only moves a verdict between
  allowing and asking: what is denied under one is denied under all.
\<close>

theorem decide_posture_order:
  assumes "decide agent spec AUTOMATIC = Inr va" "decide agent spec p = Inr vp"
    and "decide agent spec ''high_touch'' = Inr vh" "decide agent spec PLAN_ONLY = Inr vo" "p \<noteq> PLAN_ONLY"
  shows "vd_decision va \<le> vd_decision vp \<and> vd_decision vp \<le> vd_decision vh \<and> vd_decision vh \<le> vd_decision vo
    \<and> (vd_decision va = DENY \<longleftrightarrow> vd_decision vp = DENY)"
proof -
  note order_simps = decide_def verdict_of_def less_eq_decision_def strictness_def PLAN_ONLY_def AUTOMATIC_def
  show ?thesis
  proof (cases "kind_gate (agt_kind agent) spec")
    case (Some why)
    then show ?thesis using assms by (auto simp: order_simps)
  next
    case kind: None
    then obtain available where available: "is_available agent spec = Inr available"
      using assms(1) by (cases "is_available agent spec") (auto simp: order_simps result_simps)
    show ?thesis
    proof (cases "\<not> available \<or> ts_always_ask spec")
      case True
      then show ?thesis using assms kind available by (auto simp: order_simps result_simps split: if_splits)
    next
      case False
      then obtain approval where "grants_set agent ''approval_required'' = Inr approval"
        using assms(3) kind available by (cases "grants_set agent ''approval_required''") (auto simp: order_simps result_simps)
      then show ?thesis using assms kind available False by (auto simp: order_simps result_simps split: if_splits)
    qed
  qed
qed

theorem decide_posture_order_witness:
  "vd_decision (verdict_of ALLOW []) \<le> vd_decision (verdict_of ASK ''high-touch: external action requires human approval'')"
  using decide_posture_order [OF decide_email(2,3,1,4)] by (simp add: PLAN_ONLY_def)

subsection \<open>Server wildcards\<close>

text \<open>
  A wildcard for a server covers its tools only up to the last double underscore of the
  name: a tool whose own name has one is not covered.
\<close>

theorem wildcard_misses_double_underscore:
  "granted {JStr ''mcp__drive__*''} ''mcp__drive__search'' \<and> \<not> granted {JStr ''mcp__drive__*''} ''mcp__drive__list__files''"
  by (simp add: granted_def rsplit_head_def)

end
