(* ===== verification/Agent_Capability.thy ===== *)
theory Agent_Capability
  imports Agent_Authority "HOL-Library.List_Lexorder" "HOL-Library.Char_ord"
begin

section \<open>Capability check: who can be reached, and what they can do\<close>

text \<open>
  The advisory check made when a work order starts (\<open>services/agents/capability.py\<close>, with the two
  queries of \<open>repositories/agent.py\<close> it uses). The roster is the table of agents in the order
  the database sorts names, so a query ordered by name is a filter. The patterns over the
  brief are searches: \<open>search_at\<close> tries every position, with the character before it for the
  word boundary. The tools of the deployment and the provider keys are parameters.
  The theorem shows that the worker list is exactly the closure of delegation and that the
  walk ends on every roster, cyclic supervision included.
\<close>

subsection \<open>Text patterns\<close>

text \<open>\<open>\w\<close> on Latin-1 text.\<close>

definition re_word :: "char \<Rightarrow> bool" where
  "re_word c \<longleftrightarrow> (let n = char_code c in
     is_digit c \<or> (65 \<le> n \<and> n \<le> 90) \<or> n = 95 \<or> (97 \<le> n \<and> n \<le> 122)
     \<or> n \<in> {170, 178, 179, 181, 185, 186, 188, 189, 190} \<or> (192 \<le> n \<and> n \<noteq> 215 \<and> n \<noteq> 247))"

definition no_word_before :: "char option \<Rightarrow> bool" where
  "no_word_before prev = (case prev of None \<Rightarrow> True | Some c \<Rightarrow> \<not> re_word c)"

definition no_word_after :: "string \<Rightarrow> bool" where
  "no_word_after s = (case s of [] \<Rightarrow> True | c # _ \<Rightarrow> \<not> re_word c)"

fun search_at :: "(char option \<Rightarrow> string \<Rightarrow> bool) \<Rightarrow> char option \<Rightarrow> string \<Rightarrow> bool" where
  "search_at p prev [] = p prev []"
| "search_at p prev (c # s) = (p prev (c # s) \<or> search_at p (Some c) s)"

definition starts_ci :: "string \<Rightarrow> string \<Rightarrow> bool" where
  "starts_ci w s \<longleftrightarrow> lower (take (length w) s) = w"

text \<open>\<open>\b(w1|w2|...)\b\<close>, ignoring case; every alternative begins and ends with a word character.\<close>

definition word_at :: "string list \<Rightarrow> char option \<Rightarrow> string \<Rightarrow> bool" where
  "word_at ws prev s \<longleftrightarrow> no_word_before prev
     \<and> list_ex (\<lambda>w. starts_ci w s \<and> no_word_after (drop (length w) s)) ws"

definition search_words :: "string list \<Rightarrow> string \<Rightarrow> bool" where
  "search_words ws s = search_at (word_at ws) None s"

definition then_non_space :: "string \<Rightarrow> string \<Rightarrow> bool" where
  "then_non_space w s \<longleftrightarrow> starts_ci w s \<and> (case drop (length w) s of [] \<Rightarrow> False | c # _ \<Rightarrow> \<not> is_space c)"

definition host_char :: "char \<Rightarrow> bool" where
  "host_char c \<longleftrightarrow> (let n = char_code c in is_digit c \<or> (65 \<le> n \<and> n \<le> 90) \<or> (97 \<le> n \<and> n \<le> 122))"

definition TLDS :: "string list" where
  "TLDS = [''com'', ''org'', ''net'', ''io'', ''dev'', ''ai'', ''co'', ''app'']"

definition domain_at :: "char option \<Rightarrow> string \<Rightarrow> bool" where
  "domain_at prev s \<longleftrightarrow> no_word_before prev
     \<and> (case s of [] \<Rightarrow> False
        | c # t \<Rightarrow> host_char c
            \<and> (case dropWhile (\<lambda>d. host_char d \<or> d = CHR ''-'') t of
                 [] \<Rightarrow> False
               | d # u \<Rightarrow> d = CHR ''.'' \<and> list_ex (\<lambda>w. starts_ci w u \<and> no_word_after (drop (length w) u)) TLDS))"

definition url_at :: "char option \<Rightarrow> string \<Rightarrow> bool" where
  "url_at prev s \<longleftrightarrow> then_non_space ''http://'' s \<or> then_non_space ''https://'' s
     \<or> (no_word_before prev \<and> then_non_space ''www.'' s) \<or> domain_at prev s"

definition WEB_WORDS :: "string list" where
  "WEB_WORDS = [''seo'', ''crawl'', ''crawling'', ''crawled'', ''backlink'', ''backlinks'', ''serp'', ''search result'', ''search results'',
     ''competitor'', ''competitors'', ''website'', ''web site'', ''webpage'', ''web page'', ''landing page'', ''google ranking'',
     ''pagespeed'', ''page speed'']"

definition ACTION_WORDS :: "string list" where
  "ACTION_WORDS = [''create'', ''add'', ''update'', ''change'', ''edit'', ''fix'', ''build'', ''implement'', ''deploy'', ''publish'',
     ''send'', ''email'', ''file'', ''record'', ''schedule'', ''book'', ''order'', ''migrate'', ''rename'', ''delete'', ''remove'',
     ''refactor'', ''merge'']"

definition wants_web :: "string \<Rightarrow> bool" where
  "wants_web text \<longleftrightarrow> search_at url_at None text \<or> search_words WEB_WORDS text"

definition wants_action :: "string \<Rightarrow> bool" where
  "wants_action text = search_words ACTION_WORDS text"

subsection \<open>Who can be reached\<close>

definition CAN_DELEGATE :: "string list" where
  "CAN_DELEGATE = [''coordinator'', ''operator'']"

definition list_direct_reports :: "agent list \<Rightarrow> nat \<Rightarrow> nat \<Rightarrow> agent list" where
  "list_direct_reports roster org boss = filter (\<lambda>a. agt_org a = org \<and> agt_supervisor a = Some boss) roster"

definition list_consultable :: "agent list \<Rightarrow> nat \<Rightarrow> nat \<Rightarrow> agent list" where
  "list_consultable roster org exclude =
     filter (\<lambda>a. agt_org a = org \<and> agt_kind a = ''advisory'' \<and> agt_enabled a \<and> agt_id a \<noteq> exclude) roster"

type_synonym walk_state = "nat list \<times> agent list \<times> agent list"

text \<open>The state of the walk is \<open>(seen, workers, following)\<close>.\<close>

definition visit_report :: "agent \<Rightarrow> walk_state \<Rightarrow> walk_state" where
  "visit_report report st =
     (case st of (seen, workers, following) \<Rightarrow>
        if agt_id report \<in> set seen \<or> \<not> agt_enabled report then st
        else (agt_id report # seen, workers @ [report], following @ [report]))"

definition visit_agent :: "agent list \<Rightarrow> nat \<Rightarrow> agent \<Rightarrow> walk_state \<Rightarrow> walk_state" where
  "visit_agent roster org agent st =
     (if agt_kind agent \<notin> set CAN_DELEGATE then st
      else fold visit_report (list_direct_reports roster org (agt_id agent)) st)"

text \<open>What one level of the walk adds: agents of the roster that were not seen before.\<close>

definition unseen :: "agent list \<Rightarrow> nat list \<Rightarrow> nat set" where
  "unseen roster seen = agt_id ` set roster - set seen"

definition grows :: "agent set \<Rightarrow> walk_state \<Rightarrow> walk_state \<Rightarrow> bool" where
  "grows S st st' \<longleftrightarrow> (\<exists>new. fst st' = rev (map agt_id new) @ fst st \<and> fst (snd st') = fst (snd st) @ new
     \<and> snd (snd st') = snd (snd st) @ new \<and> set new \<subseteq> S \<and> distinct (map agt_id new)
     \<and> set (map agt_id new) \<inter> set (fst st) = {})"

lemma grows_refl: "grows S st st"
  unfolding grows_def by (rule exI [of _ "[]"]) simp

lemma grows_trans: "grows S a b \<Longrightarrow> grows S b c \<Longrightarrow> grows S a c"
  unfolding grows_def by (elim exE, rule_tac x = "new @ newa" in exI) (auto simp: disjoint_iff)

lemma grows_fold: "(\<And>x s. x \<in> set xs \<Longrightarrow> grows S s (f x s)) \<Longrightarrow> grows S st (fold f xs st)"
proof (induction xs arbitrary: st)
  case (Cons x xs)
  have "grows S st (f x st)" "grows S (f x st) (fold f xs (f x st))" using Cons by simp_all
  then show ?case using grows_trans by simp
qed (simp add: grows_refl)

lemma grows_visit_report: "(agt_enabled r \<Longrightarrow> r \<in> S) \<Longrightarrow> grows S st (visit_report r st)"
  by (cases st) (auto simp: visit_report_def grows_def intro: exI [of _ "[]"] exI [of _ "[r]"])

definition delegates :: "agent list \<Rightarrow> nat \<Rightarrow> (agent \<times> agent) set" where
  "delegates roster org = {(a, b). agt_kind a \<in> set CAN_DELEGATE \<and> b \<in> set roster \<and> agt_org b = org
     \<and> agt_supervisor b = Some (agt_id a) \<and> agt_enabled b}"

lemma grows_visit_agent: "delegates roster org `` {a} \<subseteq> S \<Longrightarrow> grows S st (visit_agent roster org a st)"
  unfolding visit_agent_def
  by (auto simp: list_direct_reports_def delegates_def intro!: grows_refl grows_fold grows_visit_report)

lemma grows_level:
  "delegates roster org `` set frontier \<subseteq> S \<Longrightarrow>
    grows S (seen, workers, []) (fold (visit_agent roster org) frontier (seen, workers, []))"
  by (rule grows_fold) (auto intro: grows_visit_agent)

lemma grows_roster: "grows (set roster) (seen, workers, []) (fold (visit_agent roster org) frontier (seen, workers, []))"
  by (rule grows_level) (auto simp: delegates_def)

function reach_loop :: "agent list \<Rightarrow> nat \<Rightarrow> agent list \<Rightarrow> nat list \<Rightarrow> agent list \<Rightarrow> nat list \<times> agent list" where
  "reach_loop roster org frontier seen workers =
     (if frontier = [] then (seen, workers)
      else case fold (visit_agent roster org) frontier (seen, workers, []) of
        (seen', workers', following) \<Rightarrow> reach_loop roster org following seen' workers')"
  by pat_completeness auto
termination
proof (relation "measure (\<lambda>(roster, org, frontier, seen, workers). 2 * card (unseen roster seen) + length (take 1 frontier))",
    goal_cases)
  case (2 roster org frontier seen workers seen' rest workers' following)
  then have "fold (visit_agent roster org) frontier (seen, workers, []) = (seen', workers', following)" by simp
  then obtain new where new: "set seen' = agt_id ` set new \<union> set seen" "following = new" "set new \<subseteq> set roster"
      "agt_id ` set new \<inter> set seen = {}"
    using grows_roster [of roster seen workers org frontier] by (auto simp: grows_def)
  show ?case
  proof (cases new)
    case Nil
    then show ?thesis using new 2(1) by (cases frontier) (auto simp: unseen_def)
  next
    case (Cons a as)
    have "unseen roster seen' \<subset> unseen roster seen" using new Cons by (auto simp: unseen_def)
    then have "card (unseen roster seen') < card (unseen roster seen)" by (simp add: psubset_card_mono unseen_def)
    then show ?thesis using new Cons by simp
  qed
qed simp

declare reach_loop.simps [simp del]

definition reachable_agents :: "agent list \<Rightarrow> nat \<Rightarrow> agent \<Rightarrow> agent list \<times> agent list" where
  "reachable_agents roster org start =
     (let r = reach_loop roster org [start] [agt_id start] [start] in
      (snd r, filter (\<lambda>a. agt_id a \<notin> set (fst r)) (list_consultable roster org (agt_id start))))"

subsection \<open>What they can do\<close>

definition WEB_TOOL :: string where "WEB_TOOL = ''web_research''"
definition WEB_CLI_TOOL :: string where "WEB_CLI_TOOL = ''run_claude_code''"

definition may_use :: "string \<Rightarrow> agent \<Rightarrow> tool_spec \<Rightarrow> (py_exc, bool) result" where
  "may_use autonomy agent spec = bind_res (decide agent spec autonomy) (\<lambda>v. Inr (vd_decision v \<noteq> DENY))"

definition offers :: "agent list \<Rightarrow> tool_spec \<Rightarrow> string \<Rightarrow> (py_exc, bool) result" where
  "offers agents spec autonomy = any_res (\<lambda>a. may_use autonomy a spec) agents"

definition cli_web_route :: "(string, tool_spec) dict \<Rightarrow> agent list \<Rightarrow> string \<Rightarrow> (py_exc, string list) result" where
  "cli_web_route specs workers autonomy =
     (case dget specs WEB_CLI_TOOL of None \<Rightarrow> Inr []
      | Some spec \<Rightarrow> bind_res (filter_res (\<lambda>w. may_use autonomy w spec) workers) (\<lambda>ws. Inr (map agt_name ws)))"

definition cli_hint :: "string list \<Rightarrow> string" where
  "cli_hint names =
     (if names = [] then []
      else '' No key is needed if the work goes through '' @ quoted WEB_CLI_TOOL @ '' instead, which reaches the web on the owner'' @ [chr_of 39]
        @ ''s Claude subscription '' @ EM_DASH @ '' '' @ join_with '', '' (sort names) @ '' can run it.'')"

definition acts_with :: "agent list \<Rightarrow> tool_spec list \<Rightarrow> (agent \<times> tool_spec) list" where
  "acts_with workers specs =
     concat (map (\<lambda>w. map (Pair w) (filter (\<lambda>s. ts_category s = WRITE \<or> ts_category s = EXECUTE) specs)) workers)"

definition can_act :: "string \<Rightarrow> agent list \<Rightarrow> tool_spec list \<Rightarrow> (py_exc, bool) result" where
  "can_act autonomy workers specs = any_res (\<lambda>ws. may_use autonomy (fst ws) (snd ws)) (acts_with workers specs)"

definition no_reports_warning :: "agent \<Rightarrow> string" where
  "no_reports_warning agent = quoted (agt_name agent) @ '' is a coordinator with no reports, so it can only plan and delegate '' @ EM_DASH
     @ '' and there is nobody to delegate to. Give it reports, or assign this to an agent that can do the work.''"

definition cannot_act_warning :: "agent list \<Rightarrow> string" where
  "cannot_act_warning workers = ''This order asks for something to be changed, but nothing in this chain can act: ''
     @ join_with '', '' (map agt_name workers)
     @ '' have only read/plan tools between them. Assign it to an agent whose reports include an operator.''"

definition no_web_warning :: "string list \<Rightarrow> string" where
  "no_web_warning cli = ''This order is about the live web, but no agent it can reach has the '' @ quoted WEB_TOOL @ '' tool '' @ EM_DASH
     @ '' none of them can open a page. Grant '' @ quoted WEB_TOOL @ '' to an agent in this chain before expecting an answer.'' @ cli_hint cli"

definition no_key_warning :: "string list \<Rightarrow> string" where
  "no_key_warning cli = quoted WEB_TOOL
     @ '' is granted here but neither of its backends has a key for this org, so every web lookup will fail.''
     @ (if cli \<noteq> []
        then '' Send this work to '' @ join_with '', '' (sort cli) @ '' instead '' @ EM_DASH @ '' they reach the web through ''
          @ quoted WEB_CLI_TOOL @ '' on the owner'' @ [chr_of 39] @ ''s Claude subscription, no key needed. To make it work for everyone, ''
          @ ''GEMINI_API_KEY is free (Google AI Studio, 1,500 searches a day); ANTHROPIC_API_KEY additionally opens a named URL.''
        else '' GEMINI_API_KEY is free (Google AI Studio, 1,500 searches a day) and enough for search; ANTHROPIC_API_KEY additionally opens a named URL.'')"

definition web_key_configured :: "(string \<Rightarrow> bool) \<Rightarrow> bool" where
  "web_key_configured has_key = list_ex has_key [''anthropic'', ''gemini'']"

text \<open>
  \<open>base\<close> are the tools of the deployment; \<open>keys\<close> is \<open>None\<close> when the caller has no settings,
  otherwise which provider has a key for the organization.
\<close>

definition action_warnings ::
  "string \<Rightarrow> agent \<Rightarrow> string \<Rightarrow> agent list \<Rightarrow> tool_spec list \<Rightarrow> (py_exc, string list) result" where
  "action_warnings autonomy agent brief workers specs =
     (if length workers = 1 \<and> agt_kind agent = ''coordinator'' then Inr [no_reports_warning agent]
      else if wants_action brief then
        bind_res (can_act autonomy workers specs) (\<lambda>act. Inr (if act then [] else [cannot_act_warning workers]))
      else Inr [])"

definition web_warnings ::
  "string \<Rightarrow> (string \<Rightarrow> bool) option \<Rightarrow> string \<Rightarrow> agent list \<Rightarrow> agent list \<Rightarrow> (string, tool_spec) dict \<Rightarrow> (py_exc, string list) result" where
  "web_warnings autonomy keys brief workers advisors specs =
     (case dget specs WEB_TOOL of None \<Rightarrow> Inr []
      | Some web \<Rightarrow>
          if \<not> wants_web brief then Inr []
          else bind_res (cli_web_route specs workers autonomy) (\<lambda>cli.
            bind_res (offers (workers @ advisors) web autonomy) (\<lambda>offered.
              if \<not> offered then Inr [no_web_warning cli]
              else case keys of
                  Some has_key \<Rightarrow> Inr (if web_key_configured has_key then [] else [no_key_warning cli])
                | None \<Rightarrow> Inr [])))"

definition capability_warnings ::
  "agent list \<Rightarrow> nat \<Rightarrow> tool_spec list \<Rightarrow> (string \<Rightarrow> bool) option \<Rightarrow> string \<Rightarrow> agent \<Rightarrow> string \<Rightarrow> (py_exc, string list) result" where
  "capability_warnings roster org base keys autonomy agent brief =
     (let specs = dmerge [] (map (\<lambda>s. (ts_name s, s)) base);
          reach = reachable_agents roster org agent in
      bind_res (action_warnings autonomy agent brief (fst reach) (map snd specs)) (\<lambda>acting.
      bind_res (web_warnings autonomy keys brief (fst reach) (snd reach) specs) (\<lambda>web.
        Inr (acting @ web))))"

subsection \<open>The closure of delegation\<close>

definition walk_inv :: "agent list \<Rightarrow> nat \<Rightarrow> agent \<Rightarrow> agent list \<Rightarrow> nat list \<Rightarrow> agent list \<Rightarrow> bool" where
  "walk_inv roster org start frontier seen workers \<longleftrightarrow>
     set seen = agt_id ` set workers \<and> distinct (map agt_id workers) \<and> set frontier \<subseteq> set workers \<and> set workers \<subseteq> set roster
     \<and> set workers \<subseteq> (delegates roster org)\<^sup>* `` {start} \<and> start \<in> set workers
     \<and> (\<forall>a \<in> set workers - set frontier. delegates roster org `` {a} \<subseteq> set workers)"

lemma seen_grows: "grows S st st' \<Longrightarrow> set (fst st) \<subseteq> set (fst st')"
  by (auto simp: grows_def)

lemma visit_reports_covers:
  "r \<in> set rs \<Longrightarrow> agt_enabled r \<Longrightarrow> agt_id r \<in> set (fst (fold visit_report rs st))"
proof (induction rs arbitrary: st)
  case (Cons q rs)
  have later: "set (fst (visit_report q st)) \<subseteq> set (fst (fold visit_report rs (visit_report q st)))"
    by (rule seen_grows [OF grows_fold [where S = UNIV]]) (rule grows_visit_report, simp)
  show ?case
  proof (cases "r = q")
    case True
    then have "agt_id r \<in> set (fst (visit_report q st))"
      using Cons.prems by (cases st) (auto simp: visit_report_def)
    then show ?thesis using later by auto
  qed (use Cons in auto)
qed simp

lemma visit_agents_cover:
  "a \<in> set frontier \<Longrightarrow> (a, b) \<in> delegates roster org \<Longrightarrow> agt_id b \<in> set (fst (fold (visit_agent roster org) frontier st))"
proof (induction frontier arbitrary: st)
  case (Cons q qs)
  have later: "set (fst (visit_agent roster org q st)) \<subseteq> set (fst (fold (visit_agent roster org) qs (visit_agent roster org q st)))"
    by (rule seen_grows [OF grows_fold [where S = UNIV]]) (rule grows_visit_agent, simp)
  show ?case
  proof (cases "a = q")
    case True
    then have "agt_id b \<in> set (fst (visit_agent roster org q st))"
      using Cons.prems(2) by (auto simp: visit_agent_def delegates_def list_direct_reports_def intro!: visit_reports_covers)
    then show ?thesis using later by auto
  qed (use Cons in auto)
qed simp

lemma walk_inv_level:
  assumes I: "walk_inv roster org start frontier seen workers" and ids: "inj_on agt_id (set roster)"
    and step: "fold (visit_agent roster org) frontier (seen, workers, []) = (seen', workers', following)"
  shows "walk_inv roster org start following seen' workers'"
proof -
  let ?D = "delegates roster org"
  obtain new where new: "seen' = rev (map agt_id new) @ seen" "workers' = workers @ new" "following = new"
      "set new \<subseteq> ?D `` set frontier" "distinct (map agt_id new)" "agt_id ` set new \<inter> set seen = {}"
    using grows_level [of roster org frontier "?D `` set frontier" seen workers] step by (auto simp: grows_def)
  have seen': "set seen' = agt_id ` set workers'" using new(1,2) I by (auto simp: walk_inv_def)
  have "distinct (map agt_id workers')" using new(2,5,6) I by (auto simp: walk_inv_def)
  moreover have roster: "set workers' \<subseteq> set roster" using new(2,4) I by (auto simp: walk_inv_def delegates_def)
  moreover have "set workers' \<subseteq> ?D\<^sup>* `` {start}"
  proof
    fix x assume x: "x \<in> set workers'"
    have "(start, a) \<in> ?D\<^sup>*" if "a \<in> set workers" for a using I that by (auto simp: walk_inv_def)
    moreover have "set frontier \<subseteq> set workers" using I by (simp add: walk_inv_def)
    ultimately show "x \<in> ?D\<^sup>* `` {start}"
      using x unfolding new(2) set_append using new(4) by (blast intro: rtrancl_into_rtrancl elim!: ImageE dest: subsetD)
  qed
  moreover have "b \<in> set workers'" if "a \<in> set frontier" "(a, b) \<in> ?D" for a b
  proof -
    have "agt_id b \<in> agt_id ` set workers'"
      using visit_agents_cover [OF that, of "(seen, workers, [])"] step seen' by simp
    then obtain c where c: "c \<in> set workers'" "agt_id c = agt_id b" by auto
    have "b \<in> set roster" using that(2) by (simp add: delegates_def)
    then show ?thesis using c roster ids by (auto dest: inj_onD)
  qed
  then have "\<forall>a \<in> set workers' - set following. ?D `` {a} \<subseteq> set workers'"
    using I unfolding new(2,3) walk_inv_def set_append by blast
  ultimately show ?thesis using seen' new(2,3) I unfolding walk_inv_def by auto
qed

lemma reach_loop_closed:
  "walk_inv roster org start frontier seen workers \<Longrightarrow> inj_on agt_id (set roster) \<Longrightarrow>
    \<exists>seen' workers'. reach_loop roster org frontier seen workers = (seen', workers') \<and> walk_inv roster org start [] seen' workers'"
proof (induction roster org frontier seen workers rule: reach_loop.induct)
  case (1 roster org frontier seen workers)
  show ?case
  proof (cases "frontier = []")
    case True
    then show ?thesis using 1(2) by (subst reach_loop.simps) simp
  next
    case False
    obtain seen1 workers1 following where
      step: "fold (visit_agent roster org) frontier (seen, workers, []) = (seen1, workers1, following)"
      by (metis prod.collapse)
    have "\<exists>seen' workers'. reach_loop roster org following seen1 workers1 = (seen', workers') \<and> walk_inv roster org start [] seen' workers'"
      by (rule 1(1) [OF False step [symmetric] refl walk_inv_level [OF 1(2,3) step] 1(3)])
    then show ?thesis using False step by (subst reach_loop.simps) simp
  qed
qed

lemma walk_inv_final:
  assumes "walk_inv roster org start [] seen workers"
  shows "set workers = (delegates roster org)\<^sup>* `` {start} \<and> distinct (map agt_id workers) \<and> set seen = agt_id ` set workers"
proof -
  have "a \<in> set workers" if "(start, a) \<in> (delegates roster org)\<^sup>*" for a
    using that assms by (induction rule: rtrancl_induct) (auto simp: walk_inv_def)
  then show ?thesis using assms by (auto simp: walk_inv_def)
qed

text \<open>
  On every roster, even with a cycle of supervisors, the walk ends; the workers
  it returns are exactly the agents the work can be handed to, each once: the assignee and
  whoever is reached from it through enabled direct reports of agents whose kind may delegate.
  The advisers are the other enabled advisory agents of the organization.
\<close>

theorem reachable_agents_closure:
  assumes "start \<in> set roster" "distinct (map agt_id roster)" "reachable_agents roster org start = (workers, advisors)"
  shows "set workers = (delegates roster org)\<^sup>* `` {start} \<and> distinct (map agt_id workers)
    \<and> set advisors = {a \<in> set roster. agt_org a = org \<and> agt_kind a = ''advisory'' \<and> agt_enabled a \<and> a \<notin> set workers}"
proof -
  have inj: "inj_on agt_id (set roster)" using assms(2) by (simp add: distinct_map)
  have "walk_inv roster org start [start] [agt_id start] [start]" using assms(1) by (auto simp: walk_inv_def)
  from reach_loop_closed [OF this inj] obtain seen' workers' where
    w: "reach_loop roster org [start] [agt_id start] [start] = (seen', workers')" and
    I: "walk_inv roster org start [] seen' workers'" by blast
  note f = walk_inv_final [OF I]
  have "agt_id a \<in> set seen' \<longleftrightarrow> a \<in> set workers'" if "a \<in> set roster" for a
    using f inj that I by (auto simp: walk_inv_def inj_on_def)
  then have others: "agt_id a \<noteq> agt_id start \<and> agt_id a \<notin> set seen' \<longleftrightarrow> a \<notin> set workers'" if "a \<in> set roster" for a
    using that I inj assms(1) by (auto simp: walk_inv_def dest: inj_onD)
  have "advisors = filter (\<lambda>a. agt_id a \<notin> set seen') (list_consultable roster org (agt_id start))"
    using assms(3) w by (simp add: reachable_agents_def Let_def)
  then have "a \<in> set advisors \<longleftrightarrow> a \<in> set roster \<and> agt_org a = org \<and> agt_kind a = ''advisory'' \<and> agt_enabled a \<and> a \<notin> set workers'" for a
    using others [of a] by (auto simp: list_consultable_def)
  then have "set advisors = {a \<in> set roster. agt_org a = org \<and> agt_kind a = ''advisory'' \<and> agt_enabled a \<and> a \<notin> set workers'}"
    by blast
  then show ?thesis using assms(3) f w by (simp add: reachable_agents_def Let_def)
qed

text \<open>The witness: a coordinator, its operator, and a disabled agent below.\<close>

definition agent_of :: "nat \<Rightarrow> string \<Rightarrow> nat option \<Rightarrow> bool \<Rightarrow> agent" where
  "agent_of i kind boss enabled = \<lparr>agt_id = i, agt_org = 1, agt_name = show_nat i, agt_kind = kind, agt_supervisor = boss,
     agt_enabled = enabled, agt_grants = JNull\<rparr>"

definition roster0 :: "agent list" where
  "roster0 = [agent_of 1 ''coordinator'' (Some 2) True, agent_of 2 ''operator'' (Some 1) True, agent_of 3 ''operator'' (Some 2) False]"

theorem reachable_agents_closure_witness:
  "set (fst (reachable_agents roster0 1 (hd roster0))) = (delegates roster0 1)\<^sup>* `` {hd roster0}"
  using reachable_agents_closure [of "hd roster0" roster0 1 "fst (reachable_agents roster0 1 (hd roster0))"
      "snd (reachable_agents roster0 1 (hd roster0))"]
  by (simp add: roster0_def agent_of_def)

end
