(* ===== verification/Work_Orders.thy ===== *)
theory Work_Orders
  imports Agent_Capability "HOL-Library.Product_Lexorder"
begin

section \<open>Work orders: lifecycle, dispatch, tasks and diary\<close>

text \<open>
  The work-order service (\<open>services/agents/work_order_service.py\<close>) with the repositories it uses
  (\<open>repositories/work_order.py\<close>, \<open>repositories/work_order_artifacts.py\<close>, the two methods of
  \<open>repositories/agent_run.py\<close> it calls) and the acceptance auditor
  (\<open>services/agents/acceptance.py\<close>). The state is the record \<open>wdb\<close> of tables; an operation
  takes a state and returns the next one with an exception or a value, because a Python
  method that raises keeps what it wrote before (the caller decides on the rollback).
  Parameters, in the record \<open>wenv\<close>: the generated identifiers and timestamps, the settings (none
  when the service is built without them), the tools of the deployment, the autonomy of the
  organization and the language model behind the auditor. Keys of tasks sort by code point.
  Delivery of a notification outside the application is not modelled.
\<close>

subsection \<open>Rows\<close>

record work_order =
  wo_id :: nat
  wo_org :: nat
  wo_title :: string
  wo_body :: "string option"
  wo_status :: string
  wo_mode :: string
  wo_review :: string
  wo_priority :: string
  wo_agent :: "nat option"
  wo_creator :: "nat option"
  wo_via_api :: bool
  wo_api_key :: "nat option"

record wo_task =
  tsk_wo :: nat
  tsk_org :: nat
  tsk_key :: string
  tsk_title :: string
  tsk_status :: string
  tsk_sort :: int
  tsk_agent :: "nat option"

record wo_entry =
  ent_id :: nat
  ent_created :: int
  ent_wo :: nat
  ent_org :: nat
  ent_agent :: "nat option"
  ent_run :: "nat option"
  ent_role :: "string option"
  ent_text :: string

record wo_run =
  wr_id :: nat
  wr_org :: nat
  wr_wo :: "nat option"
  wr_agent :: nat
  wr_status :: string
  wr_trigger :: string
  wr_task :: string
  wr_attachments :: "nat list"
  wr_progress :: "nat option"
  wr_actor :: "nat option"
  wr_via_api :: bool
  wr_api_key :: "nat option"
  wr_label :: string

record wo_notice =
  no_org :: nat
  no_wo :: "nat option"
  no_run :: "nat option"
  no_kind :: string
  no_title :: string
  no_body :: string
  no_role :: string
  no_status :: string

record wo_artifact =
  art_id :: nat
  art_org :: nat
  art_wo :: nat
  art_kind :: string
  art_document :: "nat option"
  art_filename :: "string option"
  art_mime :: "string option"
  art_size :: "nat option"

record document_row =
  doc_id :: nat
  doc_org :: nat
  doc_title :: string
  doc_url :: "string option"
  doc_size :: "nat option"

record wdb =
  w_orders :: "work_order list"
  w_tasks :: "wo_task list"
  w_entries :: "wo_entry list"
  w_runs :: "wo_run list"
  w_notices :: "wo_notice list"
  w_artifacts :: "wo_artifact list"
  w_documents :: "document_row list"
  w_agents :: "agent list"
  w_tick :: nat

record wo_settings =
  st_keys :: "string \<Rightarrow> bool"
  st_acceptance_provider :: string
  st_acceptance_enforce :: bool

record wenv =
  we_uuid :: "nat \<Rightarrow> nat"
  we_clock :: "nat \<Rightarrow> int"
  we_settings :: "wo_settings option"
  we_tools :: "tool_spec list"
  we_autonomy :: "nat \<Rightarrow> string option"
  we_complete :: "string \<Rightarrow> string option"

datatype wo_error = WorkOrderNotFoundError string | WorkOrderValidationError string

type_synonym 'a wop = "wdb \<Rightarrow> wdb \<times> (wo_error, 'a) result"

definition wbind :: "'a wop \<Rightarrow> ('a \<Rightarrow> 'b wop) \<Rightarrow> 'b wop" where
  "wbind m f db = (case m db of (db', Inl e) \<Rightarrow> (db', Inl e) | (db', Inr a) \<Rightarrow> f a db')"

definition wret :: "'a \<Rightarrow> 'a wop" where "wret a db = (db, Inr a)"
definition wraise :: "wo_error \<Rightarrow> 'a wop" where "wraise e db = (db, Inl e)"
definition wdo :: "(wdb \<Rightarrow> wdb) \<Rightarrow> unit wop" where "wdo f db = (f db, Inr ())"

subsection \<open>Repositories\<close>

definition wo_row :: "nat \<Rightarrow> nat \<Rightarrow> wdb \<Rightarrow> work_order option" where
  "wo_row org i db = find (\<lambda>w. wo_id w = i \<and> wo_org w = org) (w_orders db)"

definition get_work_order :: "nat \<Rightarrow> nat \<Rightarrow> work_order wop" where
  "get_work_order org i db =
     (case wo_row org i db of Some w \<Rightarrow> (db, Inr w)
      | None \<Rightarrow> (db, Inl (WorkOrderNotFoundError (''Work order '' @ show_nat i @ '' not found''))))"

text \<open>A write to an order goes to the row that \<open>get_work_order\<close> returns.\<close>

fun upd_found :: "('a \<Rightarrow> bool) \<Rightarrow> ('a \<Rightarrow> 'a) \<Rightarrow> 'a list \<Rightarrow> 'a list" where
  "upd_found p f [] = []"
| "upd_found p f (x # xs) = (if p x then f x # xs else x # upd_found p f xs)"

definition upd_order :: "nat \<Rightarrow> nat \<Rightarrow> (work_order \<Rightarrow> work_order) \<Rightarrow> wdb \<Rightarrow> wdb" where
  "upd_order org i f db = db\<lparr>w_orders := upd_found (\<lambda>w. wo_id w = i \<and> wo_org w = org) f (w_orders db)\<rparr>"

definition order_tasks :: "nat \<Rightarrow> nat \<Rightarrow> wdb \<Rightarrow> wo_task list" where
  "order_tasks org i db = sort_key (\<lambda>t. (tsk_sort t, tsk_key t)) (filter (\<lambda>t. tsk_wo t = i \<and> tsk_org t = org) (w_tasks db))"

definition replace_tasks :: "nat \<Rightarrow> nat \<Rightarrow> wo_task list \<Rightarrow> wdb \<Rightarrow> wdb" where
  "replace_tasks org i ts db = db\<lparr>w_tasks := filter (\<lambda>t. \<not> (tsk_wo t = i \<and> tsk_org t = org)) (w_tasks db) @ ts\<rparr>"

definition new_entry :: "wenv \<Rightarrow> nat \<Rightarrow> nat \<Rightarrow> nat option \<Rightarrow> nat option \<Rightarrow> string option \<Rightarrow> string \<Rightarrow> wdb \<Rightarrow> wo_entry" where
  "new_entry env org i agent run role text db =
     \<lparr>ent_id = we_uuid env (w_tick db), ent_created = we_clock env (w_tick db), ent_wo = i, ent_org = org, ent_agent = agent,
      ent_run = run, ent_role = role, ent_text = text\<rparr>"

definition add_wo_entry :: "wenv \<Rightarrow> nat \<Rightarrow> nat \<Rightarrow> nat option \<Rightarrow> nat option \<Rightarrow> string option \<Rightarrow> string \<Rightarrow> wdb \<Rightarrow> wdb" where
  "add_wo_entry env org i agent run role text db =
     db\<lparr>w_entries := w_entries db @ [new_entry env org i agent run role text db], w_tick := Suc (w_tick db)\<rparr>"

text \<open>Newest first, by \<open>(created_at, id)\<close>.\<close>

definition entry_key :: "wo_entry \<Rightarrow> int \<times> nat" where
  "entry_key e = (ent_created e, ent_id e)"

definition entries_before :: "nat \<Rightarrow> nat \<Rightarrow> nat \<Rightarrow> (int \<times> nat) option \<Rightarrow> wdb \<Rightarrow> wo_entry list" where
  "entries_before org i limit before db =
     take limit (rev (sort_key entry_key (filter (\<lambda>e. ent_wo e = i \<and> ent_org e = org
       \<and> (case before of None \<Rightarrow> True | Some k \<Rightarrow> entry_key e < k)) (w_entries db))))"

definition get_entry :: "nat \<Rightarrow> nat \<Rightarrow> nat \<Rightarrow> wdb \<Rightarrow> wo_entry option" where
  "get_entry org i eid db = find (\<lambda>e. ent_id e = eid \<and> ent_wo e = i \<and> ent_org e = org) (w_entries db)"

definition LIVE_RUN_STATUSES :: "string list" where
  "LIVE_RUN_STATUSES = [''queued'', ''running'', ''waiting'']"

definition is_live_run :: "nat \<Rightarrow> nat \<Rightarrow> wo_run \<Rightarrow> bool" where
  "is_live_run org i r \<longleftrightarrow> wr_wo r = Some i \<and> wr_org r = org \<and> wr_status r \<in> set LIVE_RUN_STATUSES"

definition has_live_run :: "nat \<Rightarrow> nat \<Rightarrow> nat option \<Rightarrow> wdb \<Rightarrow> bool" where
  "has_live_run org i ignore db = list_ex (\<lambda>r. is_live_run org i r \<and> (case ignore of None \<Rightarrow> True | Some j \<Rightarrow> wr_id r \<noteq> j)) (w_runs db)"

definition add_run :: "wenv \<Rightarrow> (nat \<Rightarrow> wo_run) \<Rightarrow> wdb \<Rightarrow> wdb \<times> nat" where
  "add_run env f db = (let i = we_uuid env (w_tick db) in (db\<lparr>w_runs := w_runs db @ [f i], w_tick := Suc (w_tick db)\<rparr>, i))"

definition create_notice :: "nat \<Rightarrow> nat \<Rightarrow> nat option \<Rightarrow> string \<Rightarrow> string \<Rightarrow> wdb \<Rightarrow> wdb" where
  "create_notice org i run title body db =
     db\<lparr>w_notices := w_notices db @ [\<lparr>no_org = org, no_wo = Some i, no_run = run, no_kind = ''escalation'', no_title = title,
        no_body = body, no_role = ''org_admin'', no_status = ''unread''\<rparr>]\<rparr>"

subsection \<open>Constants and texts\<close>

definition TRANSITIONS :: "(string, string list) dict" where
  "TRANSITIONS =
     [(''draft'', [''awaiting_approval'', ''approved'', ''in_progress'', ''cancelled'']),
      (''awaiting_approval'', [''approved'', ''draft'', ''cancelled'']),
      (''approved'', [''in_progress'', ''cancelled'']),
      (''in_progress'', [''done'', ''cancelled'']),
      (''done'', []), (''cancelled'', [])]"

definition DISPATCH_STATUS :: string where "DISPATCH_STATUS = ''in_progress''"
definition WORK_ORDER_MODES :: "string list" where "WORK_ORDER_MODES = [''plan'', ''manual'', ''automatic'']"
definition REVIEW_LEVELS :: "string list" where "REVIEW_LEVELS = [''none'', ''light'', ''standard'', ''full'']"
definition TASK_STATUSES :: "string list" where
  "TASK_STATUSES = [''pending'', ''in_progress'', ''blocked'', ''done'', ''carried'']"
definition HUMAN_LANE :: string where "HUMAN_LANE = ''human''"
definition SYSTEM_LANE :: string where "SYSTEM_LANE = ''system''"

definition CAPABILITY_MARKER :: string where "CAPABILITY_MARKER = map chr_of [226, 154, 160, 239, 184, 143] @ '' Capability gap:''"
definition BLOCKED_MARKER :: string where "BLOCKED_MARKER = map chr_of [226, 155, 148] @ '' Blocked:''"
definition DONE_MARKER :: string where "DONE_MARKER = map chr_of [226, 156, 133] @ '' Done:''"
definition ACCEPTANCE_MARKER :: string where
  "ACCEPTANCE_MARKER = map chr_of [240, 159, 142, 175] @ '' Did not answer the request:''"
definition CONTINUE_MARKER :: string where "CONTINUE_MARKER = map chr_of [226, 150, 182, 239, 184, 143] @ '' Continuing:''"
definition PAPERCLIP :: string where "PAPERCLIP = map chr_of [240, 159, 147, 142]"
definition LINE :: string where "LINE = [chr_of 10]"

text \<open>A title between typographic quotes.\<close>

definition curly :: "string \<Rightarrow> string" where
  "curly s = map chr_of [226, 128, 156] @ s @ map chr_of [226, 128, 157]"

definition MIN_EVIDENCE_CHARS :: nat where "MIN_EVIDENCE_CHARS = 25"
definition REPLY_CONTEXT_ENTRIES :: nat where "REPLY_CONTEXT_ENTRIES = 12"

definition DELIVERY_TASK_TITLE :: string where
  "DELIVERY_TASK_TITLE = ''Attach the deliverable to this work order (document, CSV, or file) and say what it contains''"

definition DELIVERABLE_WORDS :: "string list" where
  "DELIVERABLE_WORDS = [''report'', ''audit'', ''analysis'', ''analyse'', ''analyze'', ''summary'', ''summarise'', ''summarize'',
     ''writeup'', ''write up'', ''write-up'', ''deck'', ''spreadsheet'', ''csv'', ''export'', ''document'', ''doc'', ''spec'', ''design'',
     ''plan'', ''proposal'', ''draft'', ''inventory'', ''list of'', ''screenshot'', ''screenshots'', ''deliverable'']"

definition DELIVERY_WORDS :: "string list" where
  "DELIVERY_WORDS = [''attach'', ''upload'', ''deliver'', ''hand over'', ''publish'', ''submit'']"

definition wants_deliverable :: "string \<Rightarrow> bool" where
  "wants_deliverable text = search_words DELIVERABLE_WORDS text"

definition has_delivery_step :: "string list \<Rightarrow> bool" where
  "has_delivery_step titles = list_ex (search_words DELIVERY_WORDS) titles"

definition brief :: "work_order \<Rightarrow> string" where
  "brief wo = (let body = strip (case wo_body wo of None \<Rightarrow> [] | Some b \<Rightarrow> b) in
     if body \<noteq> [] then wo_title wo @ LINE @ LINE @ body else wo_title wo)"

text \<open>The last entries as a transcript; a missing role prints as Python prints \<open>None\<close>.\<close>

definition last_n :: "nat \<Rightarrow> 'a list \<Rightarrow> 'a list" where
  "last_n n xs = drop (length xs - n) xs"

definition role_text :: "string option \<Rightarrow> string" where
  "role_text r = (case r of None \<Rightarrow> ''None'' | Some s \<Rightarrow> s)"

definition diary_lines :: "wo_entry list \<Rightarrow> string list" where
  "diary_lines history = map (\<lambda>e. role_text (ent_role e) @ '': '' @ strip (ent_text e)) (filter (\<lambda>e. strip (ent_text e) \<noteq> []) history)"

definition transcript :: "wo_entry list \<Rightarrow> string" where
  "transcript history = join_with (LINE @ LINE) (last_n REPLY_CONTEXT_ENTRIES (diary_lines history))"

definition reply_brief :: "work_order \<Rightarrow> wo_entry list \<Rightarrow> string \<Rightarrow> string" where
  "reply_brief wo history reply =
     brief wo @ LINE @ LINE @ ''--- What has happened on this work order so far ---'' @ LINE @ transcript history @ LINE @ LINE
     @ ''--- The person who filed it has just replied ---'' @ LINE @ reply @ LINE @ LINE
     @ ''Continue the work order from here, taking their reply as the instruction.''"

definition is_settled :: "wo_task \<Rightarrow> bool" where
  "is_settled t \<longleftrightarrow> tsk_status t = ''done'' \<or> tsk_status t = ''carried''"

definition task_line :: "wo_task \<Rightarrow> string" where
  "task_line t = ''  '' @ tsk_key t @ '' ['' @ tsk_status t @ ''] '' @ tsk_title t"

definition or_text :: "string \<Rightarrow> string \<Rightarrow> string" where
  "or_text s dflt = (if s = [] then dflt else s)"

definition continuation_brief :: "work_order \<Rightarrow> wo_task list \<Rightarrow> wo_entry list \<Rightarrow> string" where
  "continuation_brief wo tasks history =
     brief wo @ LINE @ LINE
     @ ''--- This work order is already under way. You are continuing it, not starting it. ---'' @ LINE
     @ ''ALREADY DONE (do not repeat, do not re-plan):'' @ LINE
     @ or_text (join_with LINE (map task_line (filter is_settled tasks))) ''  (nothing yet)''
     @ LINE @ LINE @ ''STILL OPEN '' @ EM_DASH @ '' this is your work:'' @ LINE
     @ join_with LINE (map task_line (filter (\<lambda>t. \<not> is_settled t) tasks))
     @ LINE @ LINE @ ''--- What has happened so far ---'' @ LINE @ transcript history
     @ LINE @ LINE @ ''Keep the existing task list '' @ EM_DASH @ '' do not call set_work_order_tasks unless the plan is ''
     @ ''genuinely wrong. Work the open steps and mark each one as you finish it. Do not stop to ''
     @ ''report progress: a summary is not a step, and the order continues only while there is work ''
     @ ''you can still do. If you truly cannot proceed, block the specific step and say what would unblock it, or escalate.''"

subsection \<open>Reading the diary\<close>

record entry_page =
  pg_entries :: "wo_entry list"
  pg_has_more :: bool

definition page_of :: "nat \<Rightarrow> wo_entry list \<Rightarrow> entry_page" where
  "page_of limit rows = \<lparr>pg_entries = rev (take limit rows), pg_has_more = limit < length rows\<rparr>"

definition list_entries_page :: "nat \<Rightarrow> nat \<Rightarrow> nat \<Rightarrow> nat option \<Rightarrow> entry_page wop" where
  "list_entries_page org i limit before =
     wbind (get_work_order org i) (\<lambda>_ db.
       case before of
         None \<Rightarrow> (db, Inr (page_of limit (entries_before org i (limit + 1) None db)))
       | Some eid \<Rightarrow>
           (case get_entry org i eid db of
              None \<Rightarrow> (db, Inl (WorkOrderNotFoundError (''Diary entry '' @ show_nat eid @ '' not found'')))
            | Some anchor \<Rightarrow> (db, Inr (page_of limit (entries_before org i (limit + 1) (Some (entry_key anchor)) db)))))"

definition already_said :: "nat \<Rightarrow> nat \<Rightarrow> string \<Rightarrow> wdb \<Rightarrow> bool" where
  "already_said org i marker db =
     list_ex (\<lambda>e. ent_wo e = i \<and> ent_org e = org \<and> take (length marker) (ent_text e) = marker) (w_entries db)"

subsection \<open>Acceptance\<close>

record acceptance =
  ac_ok :: bool
  ac_gap :: string
  ac_checked :: bool

definition MACHINE_PREFIXES :: "string list" where
  "MACHINE_PREFIXES = map (map chr_of) [[226, 154, 160, 239, 184, 143], [226, 155, 148], [226, 156, 133],
     [240, 159, 143, 155, 239, 184, 143], [240, 159, 147, 142]]"

definition or_name :: "string option \<Rightarrow> string \<Rightarrow> string" where
  "or_name s dflt = (case s of None \<Rightarrow> dflt | Some t \<Rightarrow> or_text t dflt)"

definition opt_id :: "nat option \<Rightarrow> string" where
  "opt_id i = (case i of None \<Rightarrow> ''None'' | Some n \<Rightarrow> show_nat n)"

definition artifact_lines :: "nat \<Rightarrow> nat \<Rightarrow> wdb \<Rightarrow> string list" where
  "artifact_lines org i db =
     map (\<lambda>a. ''- '' @ or_name (art_filename a) (opt_id (art_document a)) @ '' ('' @ or_name (art_mime a) ''document'' @ '')'')
       (filter (\<lambda>a. art_org a = org \<and> art_wo a = i \<and> art_kind a = ''output'') (w_artifacts db))"

definition is_machine :: "string \<Rightarrow> bool" where
  "is_machine text \<longleftrightarrow> (let t = dropWhile is_space text in list_ex (\<lambda>p. take (length p) t = p) MACHINE_PREFIXES)"

definition closing_report :: "nat \<Rightarrow> nat \<Rightarrow> wdb \<Rightarrow> string" where
  "closing_report org i db =
     (let said = map (\<lambda>e. role_text (ent_role e) @ '': '' @ strip (ent_text e))
            (filter (\<lambda>e. strip (ent_text e) \<noteq> [] \<and> \<not> is_machine (ent_text e)) (entries_before org i 18 None db)) in
      take 4000 (join_with (LINE @ LINE) (rev (take 6 said))))"

text \<open>
  The first \<open>PASS\<close> or \<open>FAIL\<close> standing as a word, with the text after it: \<open>Some (True, _)\<close> for a pass.
\<close>

definition token_at :: "string \<Rightarrow> char option \<Rightarrow> string \<Rightarrow> bool" where
  "token_at w prev s \<longleftrightarrow> no_word_before prev \<and> take (length w) s = w \<and> no_word_after (drop (length w) s)"

fun first_verdict :: "char option \<Rightarrow> string \<Rightarrow> (bool \<times> string) option" where
  "first_verdict prev [] = None"
| "first_verdict prev (c # s) =
     (if token_at ''PASS'' prev (c # s) then Some (True, drop 4 (c # s))
      else if token_at ''FAIL'' prev (c # s) then Some (False, drop 4 (c # s))
      else first_verdict (Some c) s)"

definition gap_trim :: "string \<Rightarrow> string" where
  "gap_trim s = (let out = (\<lambda>c. c \<in> {CHR '' '', CHR ''-'', CHR '':'', chr_of 10}) in rev (dropWhile out (rev (dropWhile out s))))"

definition line_break :: "char \<Rightarrow> bool" where
  "line_break c \<longleftrightarrow> (let n = char_code c in (10 \<le> n \<and> n \<le> 13) \<or> (28 \<le> n \<and> n \<le> 30) \<or> n = 133)"

definition parse_verdict :: "string \<Rightarrow> acceptance" where
  "parse_verdict reply =
     (case first_verdict None reply of
        None \<Rightarrow> \<lparr>ac_ok = True, ac_gap = [], ac_checked = False\<rparr>
      | Some (True, _) \<Rightarrow> \<lparr>ac_ok = True, ac_gap = [], ac_checked = True\<rparr>
      | Some (False, rest) \<Rightarrow>
          \<lparr>ac_ok = False,
           ac_gap = take 500 (takeWhile (\<lambda>c. \<not> line_break c)
             (or_text (gap_trim rest) ''the delivered work does not answer the request'')),
           ac_checked = True\<rparr>)"

definition acceptance_request :: "nat \<Rightarrow> work_order \<Rightarrow> wdb \<Rightarrow> string" where
  "acceptance_request org wo db =
     (let artifacts = artifact_lines org (wo_id wo) db;
          delivered = join_with LINE [''ATTACHED FILES:'', if artifacts = [] then ''- (nothing attached)'' else join_with LINE artifacts, [],
            ''WHAT THE AGENTS REPORTED DELIVERING:'', or_text (closing_report org (wo_id wo) db) ''(nothing reported)''] in
      ''THE REQUEST, exactly as the person wrote it:'' @ LINE @ wo_title wo @ LINE
        @ strip (case wo_body wo of None \<Rightarrow> [] | Some b \<Rightarrow> b) @ LINE @ LINE @ ''----'' @ LINE @ LINE @ ''WHAT WAS DELIVERED:'' @ LINE @ delivered)"

definition check_acceptance :: "wenv \<Rightarrow> nat \<Rightarrow> work_order \<Rightarrow> wo_settings \<Rightarrow> wdb \<Rightarrow> acceptance" where
  "check_acceptance env org wo settings db =
     (if \<not> st_keys settings (st_acceptance_provider settings) then \<lparr>ac_ok = True, ac_gap = [], ac_checked = False\<rparr>
      else case we_complete env (acceptance_request org wo db) of
          None \<Rightarrow> \<lparr>ac_ok = True, ac_gap = [], ac_checked = False\<rparr>
        | Some reply \<Rightarrow> parse_verdict reply)"

subsection \<open>Starting work\<close>

definition org_autonomy :: "wenv \<Rightarrow> nat \<Rightarrow> work_order \<Rightarrow> string" where
  "org_autonomy env org wo = posture_for (Some (wo_mode wo)) (or_name (we_autonomy env org) ''high_touch'')"

definition warn_on_capability_gap :: "wenv \<Rightarrow> nat \<Rightarrow> work_order \<Rightarrow> agent \<Rightarrow> nat \<Rightarrow> wdb \<Rightarrow> wdb" where
  "warn_on_capability_gap env org wo agent run db =
     (case capability_warnings (w_agents db) org (we_tools env) (map_option st_keys (we_settings env)) (org_autonomy env org wo)
             agent (brief wo) of
        Inl _ \<Rightarrow> db
      | Inr warnings \<Rightarrow>
          if warnings = [] \<or> already_said org (wo_id wo) CAPABILITY_MARKER db then db
          else create_notice org (wo_id wo) (Some run) (curly (wo_title wo) @ '' was started by an agent that may not be able to do it'')
                 (join_with '' '' warnings)
                 (add_wo_entry env org (wo_id wo) None None (Some SYSTEM_LANE) (CAPABILITY_MARKER @ '' '' @ join_with '' '' warnings) db))"

definition order_agent :: "nat \<Rightarrow> work_order \<Rightarrow> wdb \<Rightarrow> agent option" where
  "order_agent org wo db =
     (case wo_agent wo of None \<Rightarrow> None | Some a \<Rightarrow> find (\<lambda>x. agt_id x = a \<and> agt_org x = org) (w_agents db))"

definition queued_run :: "nat \<Rightarrow> work_order \<Rightarrow> agent \<Rightarrow> string \<Rightarrow> string \<Rightarrow> nat list \<Rightarrow> nat option \<Rightarrow> nat option \<Rightarrow> string \<Rightarrow> nat \<Rightarrow> wo_run" where
  "queued_run org wo agent trigger task attachments progress actor label i =
     \<lparr>wr_id = i, wr_org = org, wr_wo = Some (wo_id wo), wr_agent = agt_id agent, wr_status = ''queued'', wr_trigger = trigger,
      wr_task = task, wr_attachments = attachments, wr_progress = progress, wr_actor = actor, wr_via_api = wo_via_api wo,
      wr_api_key = wo_api_key wo, wr_label = label\<rparr>"

definition NO_AGENT_TEXT :: string where
  "NO_AGENT_TEXT = ''Started with no agent assigned, so no run was queued. Assign an agent to have it worked.''"

definition start_agent :: "wenv \<Rightarrow> nat \<Rightarrow> work_order \<Rightarrow> agent \<Rightarrow> nat option \<Rightarrow> string option \<Rightarrow> nat list \<Rightarrow> wdb \<Rightarrow> wdb" where
  "start_agent env org wo agent actor task attachments db =
     (let r = add_run env (queued_run org wo agent ''work_order'' (or_name task (brief wo)) attachments None actor
                (''Work order: '' @ take 80 (wo_title wo))) db;
          db2 = add_wo_entry env org (wo_id wo) (Some (agt_id agent)) (Some (snd r)) (Some (agt_name agent))
                  (''Started: queued a run for '' @ agt_name agent @ ''.'') (fst r) in
      warn_on_capability_gap env org wo agent (snd r) db2)"

definition dispatch_order ::
  "wenv \<Rightarrow> nat \<Rightarrow> work_order \<Rightarrow> nat option \<Rightarrow> string option \<Rightarrow> nat option \<Rightarrow> nat list \<Rightarrow> unit wop" where
  "dispatch_order env org wo actor task ignore attachments db =
     (if wo_agent wo = None then
        (add_wo_entry env org (wo_id wo) None None (Some HUMAN_LANE) NO_AGENT_TEXT db, Inr ())
      else case order_agent org wo db of
          Some agent \<Rightarrow>
            if agt_enabled agent then
              (if has_live_run org (wo_id wo) ignore db then (db, Inr ())
               else (start_agent env org wo agent actor task attachments db, Inr ()))
            else (db, Inl (WorkOrderValidationError (''Work order '' @ quoted (wo_title wo)
              @ '' is assigned to an agent that cannot run (missing or disabled). Reassign it or enable the agent.'')))
        | None \<Rightarrow> (db, Inl (WorkOrderValidationError (''Work order '' @ quoted (wo_title wo)
              @ '' is assigned to an agent that cannot run (missing or disabled). Reassign it or enable the agent.''))))"

subsection \<open>Operations on an order\<close>

definition create_work_order ::
  "wenv \<Rightarrow> nat \<Rightarrow> string \<Rightarrow> string option \<Rightarrow> string \<Rightarrow> string \<Rightarrow> string \<Rightarrow> nat option \<Rightarrow> nat option \<Rightarrow> bool \<Rightarrow> nat option \<Rightarrow> work_order wop" where
  "create_work_order env org title body priority mode review agent creator via_api api_key db =
     (let wo = \<lparr>wo_id = we_uuid env (w_tick db), wo_org = org, wo_title = title, wo_body = body, wo_status = ''draft'', wo_mode = mode,
            wo_review = review, wo_priority = priority, wo_agent = agent, wo_creator = creator, wo_via_api = via_api,
            wo_api_key = api_key\<rparr> in
      (db\<lparr>w_orders := w_orders db @ [wo], w_tick := Suc (w_tick db)\<rparr>, Inr wo))"

definition allowed_of :: "string \<Rightarrow> string list" where
  "allowed_of status = (case dget TRANSITIONS status of None \<Rightarrow> [] | Some xs \<Rightarrow> xs)"

definition allowed_transitions :: "string \<Rightarrow> string list" where
  "allowed_transitions status = sort (allowed_of status)"

definition wo_set_status :: "wenv \<Rightarrow> nat \<Rightarrow> nat \<Rightarrow> string \<Rightarrow> nat option \<Rightarrow> work_order wop" where
  "wo_set_status env org i new_status actor =
     wbind (get_work_order org i) (\<lambda>wo.
       if new_status = wo_status wo then wret wo
       else if new_status \<notin> set (allowed_of (wo_status wo)) then
         wraise (WorkOrderValidationError (''Cannot move work order from '' @ quoted (wo_status wo) @ '' to '' @ quoted new_status))
       else
         wbind (if new_status = DISPATCH_STATUS then dispatch_order env org wo actor None None [] else wret ()) (\<lambda>_.
         wbind (wdo (upd_order org i (\<lambda>w. w\<lparr>wo_status := new_status\<rparr>))) (\<lambda>_.
           wret (wo\<lparr>wo_status := new_status\<rparr>))))"

definition assign_order :: "wenv \<Rightarrow> nat \<Rightarrow> nat \<Rightarrow> nat option \<Rightarrow> nat option \<Rightarrow> work_order wop" where
  "assign_order env org i agent actor =
     wbind (get_work_order org i) (\<lambda>wo0.
       let wo = wo0\<lparr>wo_agent := agent\<rparr> in
       wbind (wdo (upd_order org i (\<lambda>w. w\<lparr>wo_agent := agent\<rparr>))) (\<lambda>_.
       wbind (if agent \<noteq> None \<and> wo_status wo = DISPATCH_STATUS then dispatch_order env org wo actor None None [] else wret ()) (\<lambda>_.
         wret wo)))"

definition set_mode :: "wenv \<Rightarrow> nat \<Rightarrow> nat \<Rightarrow> string \<Rightarrow> work_order wop" where
  "set_mode env org i mode =
     (if mode \<notin> set WORK_ORDER_MODES then
        wraise (WorkOrderValidationError (''mode must be one of: '' @ join_with '', '' WORK_ORDER_MODES))
      else wbind (get_work_order org i) (\<lambda>wo.
        if wo_mode wo = mode then wret wo
        else
          wbind (wdo (upd_order org i (\<lambda>w. w\<lparr>wo_mode := mode\<rparr>))) (\<lambda>_.
          wbind (wdo (add_wo_entry env org i None None (Some HUMAN_LANE)
                   (''Mode changed from '' @ wo_mode wo @ '' to '' @ mode @ ''.''))) (\<lambda>_.
            wret (wo\<lparr>wo_mode := mode\<rparr>)))))"

definition set_review_level :: "wenv \<Rightarrow> nat \<Rightarrow> nat \<Rightarrow> string \<Rightarrow> work_order wop" where
  "set_review_level env org i level =
     (if level \<notin> set REVIEW_LEVELS then
        wraise (WorkOrderValidationError (''review_level must be one of: '' @ join_with '', '' REVIEW_LEVELS))
      else wbind (get_work_order org i) (\<lambda>wo.
        if wo_review wo = level then wret wo
        else
          wbind (wdo (upd_order org i (\<lambda>w. w\<lparr>wo_review := level\<rparr>))) (\<lambda>_.
          wbind (wdo (add_wo_entry env org i None None (Some HUMAN_LANE)
                   (''Review level changed from '' @ wo_review wo @ '' to '' @ level @ ''.''))) (\<lambda>_.
            wret (wo\<lparr>wo_review := level\<rparr>)))))"

definition approved_plan_task :: "work_order \<Rightarrow> string \<Rightarrow> string" where
  "approved_plan_task wo plan = brief wo @ LINE @ LINE @ ''--- Your plan, which has been approved ---'' @ LINE @ plan @ LINE @ LINE
     @ ''Carry it out. The task list on this work order is that plan '' @ EM_DASH @ '' work through it and mark each step as you go.''"

definition start_approved_plan :: "wenv \<Rightarrow> nat \<Rightarrow> nat \<Rightarrow> string \<Rightarrow> nat option \<Rightarrow> nat option \<Rightarrow> unit wop" where
  "start_approved_plan env org i plan actor ignore =
     wbind (get_work_order org i) (\<lambda>wo. dispatch_order env org wo actor (Some (approved_plan_task wo plan)) ignore [])"

definition queue_continuation :: "wenv \<Rightarrow> nat \<Rightarrow> work_order \<Rightarrow> agent \<Rightarrow> wo_task list \<Rightarrow> wo_entry list \<Rightarrow> (wo_run option) wop" where
  "queue_continuation env org wo agent tasks history db =
     (let settled = length (filter is_settled tasks);
          mk = queued_run org wo agent ''continuation'' (continuation_brief wo tasks history) [] (Some settled)
                 (wo_creator wo) (''Continuing: '' @ take 70 (wo_title wo));
          r = add_run env mk db in
      (add_wo_entry env org (wo_id wo) (Some (agt_id agent)) (Some (snd r)) (Some SYSTEM_LANE)
         (CONTINUE_MARKER @ '' picked the order back up ('' @ show_nat settled @ '' of '' @ show_nat (length tasks) @ '' steps settled).'')
         (fst r), Inr (Some (mk (snd r)))))"

definition continue_order :: "wenv \<Rightarrow> nat \<Rightarrow> work_order \<Rightarrow> wo_task list \<Rightarrow> (wo_run option) wop" where
  "continue_order env org wo tasks db =
     (case order_agent org wo db of
        None \<Rightarrow> (db, Inr None)
      | Some agent \<Rightarrow>
          if \<not> agt_enabled agent then (db, Inr None)
          else wbind (list_entries_page org (wo_id wo) REPLY_CONTEXT_ENTRIES None)
                 (\<lambda>page. queue_continuation env org wo agent tasks (pg_entries page)) db)"

subsection \<open>Attachments and replies\<close>

definition after_last :: "char \<Rightarrow> string \<Rightarrow> string" where
  "after_last c s = last (split_on c s)"

definition ends_with :: "string \<Rightarrow> string \<Rightarrow> bool" where
  "ends_with x s \<longleftrightarrow> length x \<le> length s \<and> drop (length s - length x) s = x"

definition IMAGE_EXTENSIONS :: "(string, string) dict" where
  "IMAGE_EXTENSIONS = [(''.png'', ''image/png''), (''.jpg'', ''image/jpeg''), (''.jpeg'', ''image/jpeg''), (''.gif'', ''image/gif''),
     (''.webp'', ''image/webp'')]"

definition mime_for :: "string \<Rightarrow> string option" where
  "mime_for filename = map_option snd (find (\<lambda>xm. ends_with (fst xm) (lower filename)) IMAGE_EXTENSIONS)"

definition attach_artifact :: "wenv \<Rightarrow> nat \<Rightarrow> nat \<Rightarrow> document_row \<Rightarrow> string \<Rightarrow> string \<Rightarrow> wdb \<Rightarrow> wdb \<times> wo_artifact" where
  "attach_artifact env org i doc kind name db =
     (let a = \<lparr>art_id = we_uuid env (w_tick db), art_org = org, art_wo = i,
            art_kind = (if kind = ''input'' \<or> kind = ''output'' then kind else ''output''), art_document = Some (doc_id doc),
            art_filename = Some name, art_mime = mime_for name, art_size = doc_size doc\<rparr> in
      (db\<lparr>w_artifacts := w_artifacts db @ [a], w_tick := Suc (w_tick db)\<rparr>, a))"

definition document_name :: "document_row \<Rightarrow> string" where
  "document_name doc = (let key = (case doc_url doc of None \<Rightarrow> [] | Some u \<Rightarrow> u) in
     if key \<noteq> [] then after_last (CHR ''/'') key else doc_title doc)"

fun attach_documents :: "wenv \<Rightarrow> nat \<Rightarrow> nat \<Rightarrow> nat list \<Rightarrow> string \<Rightarrow> wdb \<Rightarrow> wdb \<times> wo_artifact list" where
  "attach_documents env org i [] kind db = (db, [])"
| "attach_documents env org i (d # ds) kind db =
     (case find (\<lambda>x. doc_id x = d \<and> doc_org x = org) (w_documents db) of
        None \<Rightarrow> attach_documents env org i ds kind db
      | Some doc \<Rightarrow>
          let r = attach_artifact env org i doc kind (document_name doc) db; rest = attach_documents env org i ds kind (fst r) in
          (fst rest, snd r # snd rest))"

definition detach_artifact :: "nat \<Rightarrow> nat \<Rightarrow> nat \<Rightarrow> unit wop" where
  "detach_artifact org i artifact =
     wbind (get_work_order org i) (\<lambda>_ db.
       if list_ex (\<lambda>a. art_id a = artifact \<and> art_org a = org) (w_artifacts db)
       then (db\<lparr>w_artifacts := filter (\<lambda>a. \<not> (art_id a = artifact \<and> art_org a = org)) (w_artifacts db)\<rparr>, Inr ())
       else (db, Inl (WorkOrderNotFoundError (''Artifact '' @ show_nat artifact @ '' not found''))))"

definition attachment_lines :: "wo_artifact list \<Rightarrow> string" where
  "attachment_lines xs = join_with LINE (map (\<lambda>a. PAPERCLIP @ '' '' @ or_name (art_filename a) (opt_id (art_document a))) xs)"

definition NOT_DELIVERED_TEXT :: string where
  "NOT_DELIVERED_TEXT = ''Noted while the agent was still working, so it was not delivered to the run in progress. ''
     @ ''Reply again once that run finishes.''"

definition record_reply :: "wenv \<Rightarrow> nat \<Rightarrow> nat \<Rightarrow> string \<Rightarrow> nat list \<Rightarrow> wdb \<Rightarrow> wdb \<times> wo_artifact list \<times> string" where
  "record_reply env org i message documents db =
     (let r = attach_documents env org i documents ''input'' db;
          body = join_with LINE (filter (\<lambda>s. s \<noteq> []) [message, attachment_lines (snd r)]) in
      (add_wo_entry env org i None None (Some HUMAN_LANE) body (fst r), snd r, body))"

definition deliver_reply :: "wenv \<Rightarrow> nat \<Rightarrow> work_order \<Rightarrow> wo_entry list \<Rightarrow> nat option \<Rightarrow> wo_artifact list \<Rightarrow> string \<Rightarrow> work_order wop" where
  "deliver_reply env org wo history actor attached body db =
     (if wo_agent wo = None \<or> wo_status wo \<noteq> DISPATCH_STATUS then (db, Inr wo)
      else if has_live_run org (wo_id wo) None db then
        (add_wo_entry env org (wo_id wo) None None (Some HUMAN_LANE) NOT_DELIVERED_TEXT db, Inr wo)
      else wbind (dispatch_order env org wo actor (Some (reply_brief wo history body)) None
                    (List.map_filter art_document attached)) (\<lambda>_. wret wo) db)"

definition reply_order :: "wenv \<Rightarrow> nat \<Rightarrow> nat \<Rightarrow> string \<Rightarrow> nat option \<Rightarrow> nat list \<Rightarrow> work_order wop" where
  "reply_order env org i text actor documents =
     (let message = strip text in
      if message = [] \<and> documents = [] then wraise (WorkOrderValidationError ''A reply cannot be empty'')
      else wbind (get_work_order org i) (\<lambda>wo.
        wbind (list_entries_page org i REPLY_CONTEXT_ENTRIES None) (\<lambda>page db.
          let r = record_reply env org i message documents db in
          deliver_reply env org wo (pg_entries page) actor (fst (snd r)) (snd (snd r)) (fst r))))"

subsection \<open>Blocked alerts\<close>

definition blocked_title :: "work_order \<Rightarrow> string" where
  "blocked_title wo = curly (wo_title wo) @ '' is blocked''"

definition is_open_alert :: "nat \<Rightarrow> nat \<Rightarrow> string \<Rightarrow> wo_notice \<Rightarrow> bool" where
  "is_open_alert org i title n \<longleftrightarrow> no_org n = org \<and> no_wo n = Some i \<and> no_title n = title \<and> no_status n \<noteq> ''resolved''"

definition clear_blocked_alert :: "nat \<Rightarrow> nat \<Rightarrow> wo_task list \<Rightarrow> unit wop" where
  "clear_blocked_alert org i remaining =
     (if list_ex (\<lambda>t. tsk_status t = ''blocked'') remaining then wret ()
      else wbind (get_work_order org i) (\<lambda>wo.
        wdo (\<lambda>db. db\<lparr>w_notices := upd_where (is_open_alert org i (blocked_title wo)) (\<lambda>n. n\<lparr>no_status := ''resolved''\<rparr>) (w_notices db)\<rparr>)))"

definition blocked_body :: "agent option \<Rightarrow> wo_task \<Rightarrow> wo_task list \<Rightarrow> string" where
  "blocked_body agent task tasks =
     (let blocked = length (filter (\<lambda>t. tsk_status t = ''blocked'') tasks) in
      (case agent of None \<Rightarrow> ''An agent'' | Some a \<Rightarrow> agt_name a) @ '' marked '' @ tsk_key task @ '' '' @ EM_DASH @ '' '' @ tsk_title task
      @ '' '' @ EM_DASH @ '' as blocked''
      @ (if blocked > 1 then '' ('' @ show_nat blocked @ '' of '' @ show_nat (length tasks) @ '' steps blocked)'' else [])
      @ ''. The work order has the reason; it needs a person before it can continue.'')"

definition report_blocked :: "wenv \<Rightarrow> nat \<Rightarrow> nat \<Rightarrow> wo_task \<Rightarrow> agent option \<Rightarrow> nat option \<Rightarrow> unit wop" where
  "report_blocked env org i task agent run =
     wbind (get_work_order org i) (\<lambda>wo db.
       let title = blocked_title wo; outstanding = list_ex (is_open_alert org i title) (w_notices db);
           db1 = add_wo_entry env org i (map_option agt_id agent) run (Some SYSTEM_LANE)
                   (BLOCKED_MARKER @ '' '' @ tsk_key task @ '' '' @ EM_DASH @ '' '' @ tsk_title task) db in
       if outstanding then (db1, Inr ())
       else (create_notice org i run title (blocked_body agent task (order_tasks org i db1)) db1, Inr ()))"

subsection \<open>Tasks\<close>

record task_input =
  ti_key :: "string option"
  ti_title :: string
  ti_status :: "string option"
  ti_sort :: "int option"
  ti_agent :: "nat option"

definition delivery_input :: "nat \<Rightarrow> task_input" where
  "delivery_input n = \<lparr>ti_key = None, ti_title = DELIVERY_TASK_TITLE, ti_status = None, ti_sort = Some (int n), ti_agent = None\<rparr>"

definition with_delivery :: "bool \<Rightarrow> task_input list \<Rightarrow> task_input list" where
  "with_delivery add tasks =
     (if add \<and> \<not> has_delivery_step (map ti_title tasks) then tasks @ [delivery_input (length tasks)] else tasks)"

definition task_of :: "nat \<Rightarrow> nat \<Rightarrow> nat \<Rightarrow> task_input \<Rightarrow> wo_task" where
  "task_of org i n t =
     \<lparr>tsk_wo = i, tsk_org = org, tsk_key = or_name (ti_key t) (''T'' @ show_nat (n + 1)), tsk_title = ti_title t,
      tsk_status = (case ti_status t of None \<Rightarrow> ''pending'' | Some s \<Rightarrow> s),
      tsk_sort = (case ti_sort t of None \<Rightarrow> int n | Some k \<Rightarrow> k), tsk_agent = ti_agent t\<rparr>"

fun report_all :: "wenv \<Rightarrow> nat \<Rightarrow> nat \<Rightarrow> wo_task list \<Rightarrow> unit wop" where
  "report_all env org i [] db = (db, Inr ())"
| "report_all env org i (t # ts) db =
     (if tsk_status t = ''blocked'' then wbind (report_blocked env org i t None None) (\<lambda>_. report_all env org i ts) db
      else report_all env org i ts db)"

definition set_tasks :: "wenv \<Rightarrow> nat \<Rightarrow> nat \<Rightarrow> task_input list \<Rightarrow> bool \<Rightarrow> (wo_task list) wop" where
  "set_tasks env org i tasks add_delivery_step =
     wbind (get_work_order org i) (\<lambda>_.
       let inputs = with_delivery add_delivery_step tasks;
           models = map (\<lambda>(n, t). task_of org i n t) (zip [0..<length inputs] inputs) in
       wbind (wdo (replace_tasks org i models)) (\<lambda>_.
       wbind (report_all env org i models) (\<lambda>_.
       wbind (clear_blocked_alert org i models) (\<lambda>_. wret models))))"

definition has_deliverable :: "nat \<Rightarrow> nat \<Rightarrow> wdb \<Rightarrow> bool" where
  "has_deliverable org i db = list_ex (\<lambda>a. art_org a = org \<and> art_wo a = i \<and> art_kind a = ''output'') (w_artifacts db)"

definition others_settled :: "wo_task \<Rightarrow> wo_task list \<Rightarrow> bool" where
  "others_settled target tasks \<longleftrightarrow> list_all (\<lambda>t. tsk_key t \<noteq> tsk_key target \<longrightarrow> is_settled t) tasks"

definition need_evidence_text :: "string \<Rightarrow> string" where
  "need_evidence_text key = ''Marking '' @ key @ '' done needs '' @ quoted ''evidence'' @ '': one concrete sentence saying what you produced and where it is ''
     @ EM_DASH @ '' '' @ quoted ''fetched robots.txt and 42 pages, CSV attached as crawl.csv'' @ '', not '' @ quoted ''completed the task''
     @ ''. If the step produced nothing to point at, it is not done: mark it blocked or carried, and say why.''"

definition need_artifact_text :: "string \<Rightarrow> string" where
  "need_artifact_text key = key @ '' is the last open step, but this work order has nothing attached '' @ EM_DASH
     @ '' no document, no file, no artifact. A finished order whose only evidence is its own checklist is the failure this check exists to ''
     @ ''catch. Attach the deliverable with attach_document (create it first if you must), or leave this step open and escalate saying ''
     @ ''what stopped you producing one.''"

definition owes_file :: "work_order \<Rightarrow> wo_task list \<Rightarrow> bool" where
  "owes_file wo tasks \<longleftrightarrow> wants_deliverable (brief wo) \<or> has_delivery_step (map tsk_title tasks)"

definition require_evidence :: "nat \<Rightarrow> nat \<Rightarrow> wo_task \<Rightarrow> wo_task list \<Rightarrow> string option \<Rightarrow> unit wop" where
  "require_evidence org i target tasks evidence db =
     (let said = strip (case evidence of None \<Rightarrow> [] | Some s \<Rightarrow> s) in
      if length said < MIN_EVIDENCE_CHARS then (db, Inl (WorkOrderValidationError (need_evidence_text (tsk_key target))))
      else if \<not> others_settled target tasks then (db, Inr ())
      else if has_deliverable org i db then (db, Inr ())
      else wbind (get_work_order org i) (\<lambda>wo.
        if owes_file wo tasks then wraise (WorkOrderValidationError (need_artifact_text (tsk_key target))) else wret ()) db)"

definition rejected_title :: "work_order \<Rightarrow> string" where
  "rejected_title wo = curly (wo_title wo) @ '' finished without answering the request''"

definition rejected_body :: "string \<Rightarrow> string" where
  "rejected_body gap = gap @ LINE @ LINE @ ''Every step is complete, but the delivered work does not answer what was asked. Nothing has been lost ''
     @ EM_DASH @ '' the order is still open. Reply on it to redirect the agents, or close it yourself if the auditor is wrong.''"

definition rejected_text :: "string \<Rightarrow> string" where
  "rejected_text gap = ''This step closes the order, but the delivered work does not answer the request: '' @ gap
     @ '' Re-read the work order'' @ [chr_of 39] @ ''s own description '' @ EM_DASH @ '' not the task list, which may have drifted from it ''
     @ EM_DASH @ '' and either deliver what was asked, or leave this step open and escalate saying why it cannot be delivered. ''
     @ ''A person has been told either way.''"

definition gate_acceptance :: "wenv \<Rightarrow> nat \<Rightarrow> nat \<Rightarrow> wo_task \<Rightarrow> wo_task list \<Rightarrow> unit wop" where
  "gate_acceptance env org i target tasks =
     (case we_settings env of None \<Rightarrow> wret ()
      | Some settings \<Rightarrow>
          if \<not> others_settled target tasks then wret ()
          else wbind (get_work_order org i) (\<lambda>wo db.
            let verdict = check_acceptance env org wo settings db in
            if ac_ok verdict then (db, Inr ())
            else
              let db1 = add_wo_entry env org i None None (Some SYSTEM_LANE) (ACCEPTANCE_MARKER @ '' '' @ ac_gap verdict) db;
                  db2 = create_notice org i None (rejected_title wo) (rejected_body (ac_gap verdict)) db1 in
              if \<not> st_acceptance_enforce settings then (db2, Inr ())
              else (db2, Inl (WorkOrderValidationError (rejected_text (ac_gap verdict))))))"

text \<open>The row is found by its contents; two rows with the same contents are interchangeable.\<close>

fun upd_first :: "'a \<Rightarrow> 'a \<Rightarrow> 'a list \<Rightarrow> 'a list" where
  "upd_first old new [] = []"
| "upd_first old new (x # xs) = (if x = old then new # xs else x # upd_first old new xs)"

definition set_task_status :: "wo_task \<Rightarrow> string \<Rightarrow> wdb \<Rightarrow> wdb" where
  "set_task_status target status db = db\<lparr>w_tasks := upd_first target (target\<lparr>tsk_status := status\<rparr>) (w_tasks db)\<rparr>"

definition unknown_key_text :: "string \<Rightarrow> wo_task list \<Rightarrow> string" where
  "unknown_key_text key tasks = ''No task with key '' @ quoted key @ ''. Keys on this work order: ''
     @ or_text (join_with '', '' (map tsk_key tasks)) ''none'' @ ''.''"

definition unchanged_text :: "string \<Rightarrow> string \<Rightarrow> string" where
  "unchanged_text key status = key @ '' is already '' @ quoted status @ '', so that changed nothing. Repeating a status is not progress. ''
     @ ''Either do the step and mark it done with evidence, or '' @ EM_DASH @ '' if you cannot advance it '' @ EM_DASH
     @ '' mark it blocked saying specifically what stopped you, mark it carried if it should not be done at all, or re-plan with ''
     @ ''set_work_order_tasks. Do not end your turn having only restated where things stand.''"

definition after_task_move ::
  "wenv \<Rightarrow> nat \<Rightarrow> nat \<Rightarrow> wo_task \<Rightarrow> string \<Rightarrow> agent option \<Rightarrow> nat option \<Rightarrow> string option \<Rightarrow> unit wop" where
  "after_task_move env org i target status agent run evidence =
     wbind (wdo (\<lambda>db. case evidence of
         Some said \<Rightarrow>
           if status = ''done'' \<and> said \<noteq> [] then
             add_wo_entry env org i (map_option agt_id agent) run
               (Some (case agent of None \<Rightarrow> SYSTEM_LANE | Some a \<Rightarrow> agt_name a))
               (DONE_MARKER @ '' '' @ tsk_key target @ '' '' @ EM_DASH @ '' '' @ said) db
           else db
       | None \<Rightarrow> db)) (\<lambda>_ db.
       if status = ''blocked'' \<and> tsk_status target \<noteq> ''blocked'' then
         report_blocked env org i (target\<lparr>tsk_status := status\<rparr>) agent run db
       else if tsk_status target = ''blocked'' \<and> status \<noteq> ''blocked'' then clear_blocked_alert org i (order_tasks org i db) db
       else (db, Inr ()))"

definition update_task_status ::
  "wenv \<Rightarrow> nat \<Rightarrow> nat \<Rightarrow> string \<Rightarrow> string \<Rightarrow> agent option \<Rightarrow> nat option \<Rightarrow> string option \<Rightarrow> wo_task wop" where
  "update_task_status env org i key status agent run evidence =
     (if status \<notin> set TASK_STATUSES then
        wraise (WorkOrderValidationError (''status must be one of: '' @ join_with '', '' TASK_STATUSES))
      else wbind (get_work_order org i) (\<lambda>_ db0.
        let tasks = order_tasks org i db0 in
        case find (\<lambda>t. lower (tsk_key t) = lower (strip key)) tasks of
          None \<Rightarrow> (db0, Inl (WorkOrderValidationError (unknown_key_text key tasks)))
        | Some target \<Rightarrow>
            if agent \<noteq> None \<and> tsk_status target = status then
              (db0, Inl (WorkOrderValidationError (unchanged_text (tsk_key target) status)))
            else
              wbind (if status = ''done''
                     then wbind (require_evidence org i target tasks evidence) (\<lambda>_. gate_acceptance env org i target tasks)
                     else wret ()) (\<lambda>_.
              wbind (wdo (set_task_status target status)) (\<lambda>_.
              wbind (after_task_move env org i target status agent run evidence) (\<lambda>_.
                wret (target\<lparr>tsk_status := status\<rparr>)))) db0))"

definition list_tasks :: "nat \<Rightarrow> nat \<Rightarrow> (wo_task list) wop" where
  "list_tasks org i = wbind (get_work_order org i) (\<lambda>_ db. (db, Inr (order_tasks org i db)))"

definition add_entry :: "wenv \<Rightarrow> nat \<Rightarrow> nat \<Rightarrow> string \<Rightarrow> nat option \<Rightarrow> nat option \<Rightarrow> string option \<Rightarrow> unit wop" where
  "add_entry env org i text agent run role = wbind (get_work_order org i) (\<lambda>_. wdo (add_wo_entry env org i agent run role text))"

subsection \<open>Reading an order\<close>

definition STATUS_RANK :: "string list" where
  "STATUS_RANK = [''error'', ''waiting'', ''running'', ''queued'', ''done'', ''cancelled'']"

definition roll_up :: "nat \<Rightarrow> wo_run list \<Rightarrow> string option" where
  "roll_up lane runs =
     (let statuses = map wr_status (filter (\<lambda>r. wr_agent r = lane) runs) in
      case find (\<lambda>c. c \<in> set statuses) STATUS_RANK of
        Some c \<Rightarrow> Some c
      | None \<Rightarrow> (case statuses of [] \<Rightarrow> None | s # _ \<Rightarrow> Some s))"

definition round3 :: "pyfloat \<Rightarrow> pyfloat" where
  "round3 f = (case f of Fin q \<Rightarrow> fl (of_int (round_half_even (q * 1000)) / 1000) | _ \<Rightarrow> f)"

definition progress :: "wo_task list \<Rightarrow> pyfloat" where
  "progress tasks =
     (let counted = filter (\<lambda>t. tsk_status t \<noteq> ''carried'') tasks in
      if counted = [] then Fin 0
      else round3 (fl (of_nat (length (filter (\<lambda>t. tsk_status t = ''done'') counted)) / of_nat (length counted))))"

subsection \<open>The service as a machine\<close>

text \<open>One call of the service; the sweeper's continuation reads the order and its tasks first.\<close>

datatype wo_op =
    CreateOrder string "string option" string string string "nat option" "nat option" bool "nat option"
  | SetStatus nat string "nat option"
  | Assign nat "nat option" "nat option"
  | SetMode nat string
  | SetReviewLevel nat string
  | StartApprovedPlan nat string "nat option" "nat option"
  | Continue nat
  | AttachDocuments nat "nat list" string
  | DetachArtifact nat nat
  | Reply nat string "nat option" "nat list"
  | SetTasks nat "task_input list" bool
  | UpdateTask nat string string "agent option" "nat option" "string option"
  | AddEntry nat string "nat option" "nat option" "string option"

definition unit_of :: "'a wop \<Rightarrow> unit wop" where
  "unit_of m = wbind m (\<lambda>_. wret ())"

fun wo_step :: "wenv \<Rightarrow> nat \<Rightarrow> wo_op \<Rightarrow> unit wop" where
  "wo_step env org (CreateOrder title body priority mode review agent creator via_api api_key) =
     unit_of (create_work_order env org title body priority mode review agent creator via_api api_key)"
| "wo_step env org (SetStatus i new_status actor) = unit_of (wo_set_status env org i new_status actor)"
| "wo_step env org (Assign i agent actor) = unit_of (assign_order env org i agent actor)"
| "wo_step env org (SetMode i mode) = unit_of (set_mode env org i mode)"
| "wo_step env org (SetReviewLevel i level) = unit_of (set_review_level env org i level)"
| "wo_step env org (StartApprovedPlan i plan actor ignore) = start_approved_plan env org i plan actor ignore"
| "wo_step env org (Continue i) =
     unit_of (wbind (get_work_order org i) (\<lambda>wo db. continue_order env org wo (order_tasks org i db) db))"
| "wo_step env org (AttachDocuments i documents kind) =
     wdo (\<lambda>db. fst (attach_documents env org i documents kind db))"
| "wo_step env org (DetachArtifact i artifact) = detach_artifact org i artifact"
| "wo_step env org (Reply i text actor documents) = unit_of (reply_order env org i text actor documents)"
| "wo_step env org (SetTasks i tasks add) = unit_of (set_tasks env org i tasks add)"
| "wo_step env org (UpdateTask i key status agent run evidence) =
     unit_of (update_task_status env org i key status agent run evidence)"
| "wo_step env org (AddEntry i text agent run role) = add_entry env org i text agent run role"

fun wo_run_ops :: "wenv \<Rightarrow> nat \<Rightarrow> wo_op list \<Rightarrow> wdb \<Rightarrow> wdb" where
  "wo_run_ops env org [] db = db"
| "wo_run_ops env org (x # xs) db = wo_run_ops env org xs (fst (wo_step env org x db))"

end
