(* ===== verification/Work_Order_Props.thy ===== *)
theory Work_Order_Props
  imports Work_Orders
begin

section \<open>What the work-order service promises\<close>

text \<open>
  The abstract lifecycle of an order as a step relation, and the service as its refinement; at most
  one live run per order; the alert for blocked steps; evidence for a finished step; the
  pages of the diary. The locale \<open>service_relation\<close> collects what the proofs share: a relation
  between the state before and after that is reflexive and transitive is kept by a sequence
  of calls once each write keeps it.
\<close>

subsection \<open>Relations kept by operations\<close>

definition keeps :: "(wdb \<Rightarrow> wdb \<Rightarrow> bool) \<Rightarrow> 'a wop \<Rightarrow> bool" where
  "keeps R m \<longleftrightarrow> (\<forall>db. R db (fst (m db)))"

locale service_relation =
  fixes R :: "wdb \<Rightarrow> wdb \<Rightarrow> bool"
  assumes reflexive: "R db db"
    and transitive: "R a b \<Longrightarrow> R b c \<Longrightarrow> R a c"
begin

lemma keeps_ret [simp, intro]: "keeps R (wret a)"
  by (simp add: keeps_def wret_def reflexive)

lemma keeps_raise [simp, intro]: "keeps R (wraise e)"
  by (simp add: keeps_def wraise_def reflexive)

lemma keeps_do: "(\<And>db. R db (f db)) \<Longrightarrow> keeps R (wdo f)"
  by (simp add: keeps_def wdo_def)

lemma keeps_get [simp, intro]: "keeps R (get_work_order org i)"
  by (simp add: keeps_def get_work_order_def reflexive split: option.splits)

lemma keeps_bind: "keeps R m \<Longrightarrow> (\<And>a. keeps R (f a)) \<Longrightarrow> keeps R (wbind m f)"
  unfolding keeps_def wbind_def by (auto split: prod.splits sum.splits) (metis fst_conv transitive)+

lemma keeps_unit_of: "keeps R m \<Longrightarrow> keeps R (unit_of m)"
  unfolding unit_of_def by (rule keeps_bind) auto

lemma keeps_page [simp, intro]: "keeps R (list_entries_page org i limit before)"
  unfolding list_entries_page_def
  by (rule keeps_bind, rule keeps_get) (auto simp: keeps_def reflexive split: option.splits)

end

text \<open>The titles of the other notices are never that of a blocked alert: their last letters differ.\<close>

lemma started_title: "curly t @ '' was started by an agent that may not be able to do it'' \<noteq> blocked_title w"
  by (auto simp: blocked_title_def dest: arg_cong [of _ _ last])

lemma rejected_not_blocked: "rejected_title v \<noteq> blocked_title w"
  by (auto simp: blocked_title_def rejected_title_def dest: arg_cong [of _ _ last])

text \<open>
  The writes an operation is made of. A run is queued by a dispatch that found no live run; the
  status moves along the table of transitions.
\<close>

locale service_writes = service_relation R for R +
  fixes env :: wenv and org :: nat
  assumes entry: "R db (add_wo_entry env org i agent run role text db)"
    and other_notice: "(\<And>w. title \<noteq> blocked_title w) \<Longrightarrow> R db (create_notice org i run title body db)"
    and queue: "\<not> has_live_run org (wo_id wo) None db \<Longrightarrow>
      R db (fst (add_run env (queued_run org wo agent' trigger task attachments prog actor label) db))"
    and order_row: "\<lbrakk>\<And>w. wo_id (f w) = wo_id w; \<And>w. wo_org (f w) = wo_org w; \<And>w. wo_title (f w) = wo_title w;
      \<And>w. wo_status (f w) = wo_status w\<rbrakk> \<Longrightarrow> R db (upd_order org i f db)"
    and status: "wo_row org i db = Some wo' \<Longrightarrow> s \<in> set (allowed_of (wo_status wo')) \<Longrightarrow>
      R db (upd_order org i (\<lambda>w. w\<lparr>wo_status := s\<rparr>) db)"
    and create: "wo_org wo' = org \<Longrightarrow> wo_status wo' = ''draft'' \<Longrightarrow>
      R db (db\<lparr>w_orders := w_orders db @ [wo'], w_tick := Suc (w_tick db)\<rparr>)"
    and artifact: "R db (fst (attach_artifact env org i doc kind nm db))"
    and unlink: "R db (db\<lparr>w_artifacts := filter (\<lambda>a. \<not> (art_id a = x \<and> art_org a = org)) (w_artifacts db)\<rparr>)"
begin

lemma keeps_warn: "R db (warn_on_capability_gap env org wo agent run db)"
  unfolding warn_on_capability_gap_def
  by (auto split: sum.splits intro: reflexive transitive [OF entry other_notice [OF started_title]])

lemma keeps_start:
  "\<not> has_live_run org (wo_id wo) None db \<Longrightarrow> R db (start_agent env org wo agent actor task attachments db)"
  unfolding start_agent_def Let_def by (rule transitive [OF transitive [OF queue entry] keeps_warn])

lemma keeps_dispatch: "keeps R (dispatch_order env org wo actor task None attachments)"
  by (auto simp: keeps_def dispatch_order_def split: option.splits intro: reflexive entry keeps_start)

lemma keeps_attach: "R db (fst (attach_documents env org i ds kind db))"
proof (induction ds arbitrary: db)
  case (Cons d ds)
  then show ?case
    by (auto simp: Let_def split: option.splits intro: transitive [OF artifact])
qed (simp add: reflexive)

lemma keeps_create: "keeps R (create_work_order env org title body priority mode review agent creator via key)"
  by (simp add: keeps_def create_work_order_def Let_def create)

end

text \<open>A dispatch writes entries, runs and notices only.\<close>

lemma orders_warn [simp]: "w_orders (warn_on_capability_gap env org wo agent run db) = w_orders db"
  by (simp add: warn_on_capability_gap_def create_notice_def add_wo_entry_def split: sum.splits)

lemma orders_dispatch [simp]: "w_orders (fst (dispatch_order env org wo actor task ignore attachments db)) = w_orders db"
  by (simp add: dispatch_order_def start_agent_def add_run_def add_wo_entry_def Let_def split: option.splits)

lemma wo_row_cong: "w_orders a = w_orders b \<Longrightarrow> wo_row org i a = wo_row org i b"
  by (simp add: wo_row_def)

text \<open>The operations that neither touch the tasks nor start a second run.\<close>

definition plain_op :: "wo_op \<Rightarrow> bool" where
  "plain_op x = (case x of SetTasks _ _ _ \<Rightarrow> False | UpdateTask _ _ _ _ _ _ \<Rightarrow> False | Continue _ \<Rightarrow> False
     | StartApprovedPlan _ _ _ ignore \<Rightarrow> ignore = None | _ \<Rightarrow> True)"

definition task_op :: "wo_op \<Rightarrow> bool" where
  "task_op x = (case x of SetTasks _ _ _ \<Rightarrow> True | UpdateTask _ _ _ _ _ _ \<Rightarrow> True | _ \<Rightarrow> False)"

context service_writes
begin

lemma keeps_set_status: "keeps R (wo_set_status env org i s actor)"
proof -
  have "R db (fst (wo_set_status env org i s actor db))" for db
  proof (cases "wo_row org i db")
    case None
    then show ?thesis by (simp add: wo_set_status_def wbind_def get_work_order_def reflexive)
  next
    case (Some wo)
    let ?d = "(if s = DISPATCH_STATUS then dispatch_order env org wo actor None None [] else wret ()) db"
    have d: "R db (fst ?d)" "wo_row org i (fst ?d) = Some wo"
      using keeps_dispatch Some by (auto simp: keeps_def wret_def reflexive wo_row_def)
    show ?thesis
    proof (cases "s \<noteq> wo_status wo \<and> s \<in> set (allowed_of (wo_status wo))")
      case True
      then show ?thesis
        using d transitive [OF d(1) status [OF d(2)]] Some
        by (auto simp: wo_set_status_def wbind_def get_work_order_def wdo_def wret_def split: prod.splits sum.splits)
    next
      case False
      then show ?thesis using Some by (auto simp: wo_set_status_def wbind_def get_work_order_def wret_def wraise_def reflexive)
    qed
  qed
  then show ?thesis by (simp add: keeps_def)
qed

lemma keeps_assign: "keeps R (assign_order env org i agent actor)"
  unfolding assign_order_def Let_def
  by (intro keeps_bind keeps_get keeps_do keeps_ret) (auto intro: order_row keeps_dispatch)

lemma keeps_set_mode: "keeps R (set_mode env org i mode)"
  unfolding set_mode_def by (auto intro!: keeps_bind keeps_do order_row entry)

lemma keeps_set_review_level: "keeps R (set_review_level env org i level)"
  unfolding set_review_level_def by (auto intro!: keeps_bind keeps_do order_row entry)

lemma keeps_start_plan: "keeps R (start_approved_plan env org i plan actor None)"
  unfolding start_approved_plan_def by (auto intro!: keeps_bind keeps_dispatch)

lemma keeps_detach: "keeps R (detach_artifact org i x)"
  unfolding detach_artifact_def by (rule keeps_bind, rule keeps_get) (use unlink in \<open>auto simp: keeps_def reflexive\<close>)

lemma keeps_reply: "keeps R (reply_order env org i text actor documents)"
proof -
  have "R db (fst (record_reply env org i message documents db))" for message db
    unfolding record_reply_def Let_def by (simp add: transitive [OF keeps_attach entry])
  moreover have "R db (fst (deliver_reply env org wo history actor attached body db))" for wo history attached body db
    using keeps_bind [OF keeps_dispatch keeps_ret, of wo actor "Some (reply_brief wo history body)" _ "\<lambda>_. wo"]
    by (auto simp: deliver_reply_def reflexive keeps_def intro: entry)
  ultimately have "keeps R (\<lambda>db. let r = record_reply env org i message documents db in
      deliver_reply env org wo (pg_entries page) actor (fst (snd r)) (snd (snd r)) (fst r))" for message wo page
    unfolding keeps_def Let_def by (blast intro: transitive)
  then show ?thesis
    unfolding reply_order_def Let_def by (auto intro!: keeps_bind)
qed

lemma keeps_add_entry: "keeps R (add_entry env org i text agent run role)"
  unfolding add_entry_def by (auto intro!: keeps_bind keeps_do entry)

lemma keeps_require: "keeps R (require_evidence org i target ts evidence)"
proof -
  have "keeps R (wbind (get_work_order org i) (\<lambda>wo. if owes_file wo ts
      then wraise (WorkOrderValidationError (need_artifact_text (tsk_key target))) else wret ()))"
    by (auto intro!: keeps_bind)
  then show ?thesis by (simp add: require_evidence_def keeps_def Let_def reflexive)
qed

lemma keeps_gate: "keeps R (gate_acceptance env org i target ts)"
proof -
  have "keeps R (\<lambda>db. let verdict = check_acceptance env org wo settings db in
            if ac_ok verdict then (db, Inr ())
            else
              let db1 = add_wo_entry env org i None None (Some SYSTEM_LANE) (ACCEPTANCE_MARKER @ '' '' @ ac_gap verdict) db;
                  db2 = create_notice org i None (rejected_title wo) (rejected_body (ac_gap verdict)) db1 in
              if \<not> st_acceptance_enforce settings then (db2, Inr ())
              else (db2, Inl (WorkOrderValidationError (rejected_text (ac_gap verdict)))))" for wo settings
    unfolding keeps_def Let_def by (auto intro: reflexive transitive [OF entry other_notice [OF rejected_not_blocked]])
  then show ?thesis unfolding gate_acceptance_def by (auto split: option.splits intro!: keeps_bind)
qed

lemma keeps_plain_op: "plain_op x \<Longrightarrow> keeps R (wo_step env org x)"
  by (cases x) (auto simp: plain_op_def intro!: keeps_unit_of keeps_create keeps_set_status keeps_assign keeps_set_mode
      keeps_set_review_level keeps_start_plan keeps_detach keeps_reply keeps_add_entry keeps_bind keeps_do keeps_attach)

end

text \<open>A run queued without looking for a live one.\<close>

locale service_runs = service_writes R env org for R env org +
  assumes any_run: "R db (fst (add_run env (queued_run org wo agent' trigger task attachments prog actor label) db))"
begin

lemma keeps_any_start: "R db (start_agent env org wo agent actor task' attachments db)"
  unfolding start_agent_def Let_def by (rule transitive [OF transitive [OF any_run entry] keeps_warn])

lemma keeps_any_plan: "keeps R (start_approved_plan env org i plan actor ignore)"
  unfolding start_approved_plan_def
  by (rule keeps_bind, rule keeps_get)
    (auto simp: keeps_def dispatch_order_def split: option.splits intro: reflexive entry keeps_any_start)

lemma keeps_queue_continuation: "keeps R (queue_continuation env org wo agent ts history)"
  unfolding keeps_def queue_continuation_def Let_def fst_conv by (blast intro: transitive [OF any_run entry])

lemma keeps_continue: "R db (fst (continue_order env org wo ts db))"
  using keeps_bind [OF keeps_page keeps_queue_continuation]
  by (simp add: continue_order_def reflexive keeps_def split: option.splits)

lemma keeps_no_task_op: "\<not> task_op x \<Longrightarrow> keeps R (wo_step env org x)"
proof (cases "plain_op x")
  case False
  have "keeps R (wbind (get_work_order org i) (\<lambda>wo db. continue_order env org wo (order_tasks org i db) db))" for i
    by (rule keeps_bind, rule keeps_get) (simp add: keeps_def keeps_continue)
  then show "\<not> task_op x \<Longrightarrow> ?thesis"
    using False by (cases x) (auto simp: plain_op_def task_op_def intro!: keeps_unit_of keeps_any_plan)
qed (rule keeps_plain_op)

end

text \<open>The writes of the task operations.\<close>

locale service_tasks = service_writes R env org for R env org +
  assumes any_notice: "R db (create_notice org i run title body db)"
    and tasks: "\<forall>t \<in> set ts. tsk_org t = org \<Longrightarrow> R db (replace_tasks org i ts db)"
    and task: "tsk_org target = org \<Longrightarrow> R db (set_task_status target s db)"
    and resolve: "R db (db\<lparr>w_notices := upd_where (is_open_alert org i title) (\<lambda>n. n\<lparr>no_status := ''resolved''\<rparr>) (w_notices db)\<rparr>)"
begin

lemma keeps_report_blocked: "keeps R (report_blocked env org i t agent run)"
  unfolding report_blocked_def
  by (rule keeps_bind, rule keeps_get) (auto simp: keeps_def Let_def intro: entry transitive [OF entry any_notice])

lemma keeps_report_all: "keeps R (report_all env org i ts)"
proof (induction ts)
  case (Cons t ts)
  then show ?case
    using keeps_bind [OF keeps_report_blocked, of "\<lambda>_. report_all env org i ts"] by (simp add: keeps_def)
qed (simp add: keeps_def reflexive)

lemma keeps_clear: "keeps R (clear_blocked_alert org i ts)"
  unfolding clear_blocked_alert_def by (auto intro!: keeps_bind keeps_do resolve)

lemma keeps_set_tasks: "keeps R (set_tasks env org i ts add)"
  unfolding set_tasks_def Let_def
  by (intro keeps_bind keeps_get keeps_do tasks keeps_report_all keeps_clear keeps_ret)
    (auto simp: task_of_def)

lemma keeps_after: "keeps R (after_task_move env org i target s agent run evidence)"
  unfolding after_task_move_def
  by (rule keeps_bind, rule keeps_do)
    (use keeps_report_blocked keeps_clear in \<open>auto simp: keeps_def reflexive split: option.splits intro: entry\<close>)

lemma found_org: "find p (order_tasks org i db) = Some t \<Longrightarrow> tsk_org t = org"
  by (auto simp: order_tasks_def dest!: find_SomeD)

lemma keeps_task_move:
  assumes "tsk_org target = org"
  shows "keeps R (wbind (if s = ''done'' then wbind (require_evidence org i target ts evidence) (\<lambda>_. gate_acceptance env org i target ts)
           else wret ()) (\<lambda>_. wbind (wdo (set_task_status target s)) (\<lambda>_.
         wbind (after_task_move env org i target s agent run evidence) (\<lambda>_. wret (target\<lparr>tsk_status := s\<rparr>)))))"
proof -
  have "keeps R (if s = ''done'' then wbind (require_evidence org i target ts evidence) (\<lambda>_. gate_acceptance env org i target ts)
           else wret ())" by (auto intro: keeps_bind keeps_require keeps_gate)
  then show ?thesis by (intro keeps_bind keeps_do keeps_after keeps_ret task assms)
qed

lemma keeps_update_task: "keeps R (update_task_status env org i key s agent run evidence)"
proof (cases "s \<in> set TASK_STATUSES")
  case True
  show ?thesis
    unfolding update_task_status_def if_not_P [of "s \<notin> set TASK_STATUSES", unfolded not_not, OF True]
  proof (rule keeps_bind [OF keeps_get])
    show "keeps R (\<lambda>db0. let tasks = order_tasks org i db0 in
        case find (\<lambda>t. lower (tsk_key t) = lower (strip key)) tasks of
          None \<Rightarrow> (db0, Inl (WorkOrderValidationError (unknown_key_text key tasks)))
        | Some target \<Rightarrow>
            if agent \<noteq> None \<and> tsk_status target = s then
              (db0, Inl (WorkOrderValidationError (unchanged_text (tsk_key target) s)))
            else
              wbind (if s = ''done''
                     then wbind (require_evidence org i target tasks evidence) (\<lambda>_. gate_acceptance env org i target tasks)
                     else wret ()) (\<lambda>_.
              wbind (wdo (set_task_status target s)) (\<lambda>_.
              wbind (after_task_move env org i target s agent run evidence) (\<lambda>_.
                wret (target\<lparr>tsk_status := s\<rparr>)))) db0)" for a
      unfolding keeps_def [of R "\<lambda>db0. Let _ _"] Let_def
      using keeps_task_move found_org by (auto simp: reflexive keeps_def split: option.splits)
  qed
qed (simp add: update_task_status_def)

lemma keeps_looking_op: "plain_op x \<or> task_op x \<Longrightarrow> keeps R (wo_step env org x)"
  using keeps_plain_op [of x]
  by (cases x) (auto simp: task_op_def intro!: keeps_unit_of keeps_set_tasks keeps_update_task)

end

text \<open>All the writes of the service.\<close>

locale service_calls = service_runs R env org + service_tasks R env org for R env org
begin

lemma keeps_step: "keeps R (wo_step env org x)"
  using keeps_no_task_op [of x] keeps_looking_op [of x] by blast

lemma keeps_run_ops: "R db (wo_run_ops env org xs db)"
proof (induction xs arbitrary: db)
  case (Cons x xs)
  have "R db (fst (wo_step env org x db))" using keeps_step by (simp add: keeps_def)
  then show ?case using Cons transitive by simp
qed (simp add: reflexive)

end

subsection \<open>The lifecycle\<close>

text \<open>The abstract lifecycle of an order, and the statuses that name its states.\<close>

datatype lifecycle = LDraft | LAwaitingApproval | LApproved | LInProgress | LDone | LCancelled

inductive lc_move :: "lifecycle \<Rightarrow> lifecycle \<Rightarrow> bool" where
  submit: "lc_move LDraft LAwaitingApproval"
| send_back: "lc_move LAwaitingApproval LDraft"
| approve: "a = LDraft \<or> a = LAwaitingApproval \<Longrightarrow> lc_move a LApproved"
| start: "a = LDraft \<or> a = LApproved \<Longrightarrow> lc_move a LInProgress"
| finish: "lc_move LInProgress LDone"
| cancel: "a \<noteq> LDone \<Longrightarrow> a \<noteq> LCancelled \<Longrightarrow> lc_move a LCancelled"


definition lc_of :: "string \<Rightarrow> lifecycle option" where
  "lc_of s = dget [(''draft'', LDraft), (''awaiting_approval'', LAwaitingApproval), (''approved'', LApproved),
     (''in_progress'', LInProgress), (''done'', LDone), (''cancelled'', LCancelled)] s"

definition lc_name :: "lifecycle \<Rightarrow> string" where
  "lc_name a = (case a of LDraft \<Rightarrow> ''draft'' | LAwaitingApproval \<Rightarrow> ''awaiting_approval'' | LApproved \<Rightarrow> ''approved''
     | LInProgress \<Rightarrow> ''in_progress'' | LDone \<Rightarrow> ''done'' | LCancelled \<Rightarrow> ''cancelled'')"

definition lc_next :: "lifecycle \<Rightarrow> lifecycle list" where
  "lc_next a = (case a of LDraft \<Rightarrow> [LAwaitingApproval, LApproved, LInProgress, LCancelled]
     | LAwaitingApproval \<Rightarrow> [LApproved, LDraft, LCancelled] | LApproved \<Rightarrow> [LInProgress, LCancelled]
     | LInProgress \<Rightarrow> [LDone, LCancelled] | LDone \<Rightarrow> [] | LCancelled \<Rightarrow> [])"

lemma lc_next_iff: "b \<in> set (lc_next a) \<longleftrightarrow> lc_move a b"
  by (cases a; cases b) (auto simp: lc_next_def intro: lc_move.intros elim: lc_move.cases)

lemma lc_of_iff: "lc_of s = Some a \<longleftrightarrow> s = lc_name a"
  by (cases a) (auto simp: lc_of_def lc_name_def)

lemma lc_of_name [simp]: "lc_of (lc_name a) = Some a"
  by (simp add: lc_of_iff)

lemma allowed_of_name: "allowed_of (lc_name a) = map lc_name (lc_next a)"
  by (cases a) (simp_all add: allowed_of_def TRANSITIONS_def lc_name_def lc_next_def)

lemma allowed_of_other: "lc_of s = None \<Longrightarrow> allowed_of s = []"
  by (simp add: lc_of_def allowed_of_def TRANSITIONS_def split: if_splits)

lemma allowed_of_moves:
  assumes "s' \<in> set (allowed_of s)"
  shows "\<exists>a b. lc_of s = Some a \<and> lc_of s' = Some b \<and> lc_move a b"
proof (cases "lc_of s")
  case None
  then show ?thesis using assms allowed_of_other by simp
next
  case (Some a)
  then obtain b where "s' = lc_name b" "lc_move a b" using assms by (auto simp: lc_of_iff allowed_of_name lc_next_iff)
  then show ?thesis using Some unfolding lc_of_iff by blast
qed

lemma moves_allowed: "lc_move a b \<Longrightarrow> lc_name b \<in> set (allowed_of (lc_name a))"
  by (simp add: allowed_of_name lc_next_iff)


definition moves_to :: "work_order \<Rightarrow> work_order \<Rightarrow> bool" where
  "moves_to w w' \<longleftrightarrow> wo_id w' = wo_id w \<and> wo_org w' = wo_org w \<and> wo_title w' = wo_title w
     \<and> (\<forall>a. lc_of (wo_status w) = Some a \<longrightarrow> (\<exists>b. lc_of (wo_status w') = Some b \<and> lc_move\<^sup>*\<^sup>* a b))"

definition born_draft :: "work_order \<Rightarrow> bool" where
  "born_draft w \<longleftrightarrow> (\<exists>b. lc_of (wo_status w) = Some b \<and> lc_move\<^sup>*\<^sup>* LDraft b)"

definition orders_follow :: "wdb \<Rightarrow> wdb \<Rightarrow> bool" where
  "orders_follow db db' \<longleftrightarrow> (\<exists>old new. w_orders db' = old @ new \<and> list_all2 moves_to (w_orders db) old \<and> list_all born_draft new)"

lemma moves_to_refl [simp]: "moves_to w w"
  by (auto simp: moves_to_def)

lemma moves_to_trans: "moves_to a b \<Longrightarrow> moves_to b c \<Longrightarrow> moves_to a c"
  unfolding moves_to_def by (metis rtranclp_trans)

lemma born_draft_moves: "born_draft w \<Longrightarrow> moves_to w w' \<Longrightarrow> born_draft w'"
  unfolding born_draft_def moves_to_def by (metis rtranclp_trans)

lemma born_draft_all: "list_all2 moves_to xs ys \<Longrightarrow> list_all born_draft xs \<Longrightarrow> list_all born_draft ys"
  by (induction rule: list_all2_induct) (auto intro: born_draft_moves)

lemma orders_follow_same: "w_orders db' = w_orders db \<Longrightarrow> orders_follow db db'"
  unfolding orders_follow_def
  by (rule exI [of _ "w_orders db"], rule exI [of _ "[]"]) (simp add: list_all2_refl)

lemma orders_follow_trans: "orders_follow a b \<Longrightarrow> orders_follow b c \<Longrightarrow> orders_follow a c"
proof -
  assume "orders_follow a b" "orders_follow b c"
  then obtain o1 n1 o2 n2 where
    1: "w_orders b = o1 @ n1" "list_all2 moves_to (w_orders a) o1" "list_all born_draft n1" and
    2: "w_orders c = o2 @ n2" "list_all2 moves_to (o1 @ n1) o2" "list_all born_draft n2"
    unfolding orders_follow_def by metis
  obtain p q where pq: "o2 = p @ q" "list_all2 moves_to o1 p" "list_all2 moves_to n1 q"
    using 2(2) by (auto simp: list_all2_append1)
  have "list_all2 moves_to (w_orders a) p" 
    by (rule list_all2_trans [of moves_to moves_to moves_to, OF moves_to_trans 1(2) pq(2)])
  moreover have "list_all born_draft q"
    by (rule born_draft_all [OF pq(3) 1(3)])
  ultimately show ?thesis
    using 2(1,3) pq(1) unfolding orders_follow_def by (intro exI [of _ p] exI [of _ "q @ n2"]) simp
qed

lemma moves_upd_found:
  "(\<And>x. find p xs = Some x \<Longrightarrow> moves_to x (f x)) \<Longrightarrow> list_all2 moves_to xs (upd_found p f xs)"
  by (induction xs) (auto simp: list_all2_refl)

lemma orders_follow_upd:
  "(\<And>w. wo_row org i db = Some w \<Longrightarrow> moves_to w (f w)) \<Longrightarrow> orders_follow db (upd_order org i f db)"
  unfolding orders_follow_def upd_order_def wo_row_def
  by (rule exI, rule exI [of _ "[]"]) (auto intro: moves_upd_found)

interpretation lifecycle: service_calls orders_follow env org for env org
proof (unfold_locales, goal_cases)
  case (2 a b c)
  then show ?case by (rule orders_follow_trans)
next
  case (6 f db i)
  then show ?case by (intro orders_follow_upd) (auto simp: moves_to_def)
next
  case (7 i db wo s)
  then show ?case using allowed_of_moves [of s "wo_status wo"] by (intro orders_follow_upd) (auto simp: moves_to_def)
next
  case (8 wo db)
  then show ?case
    unfolding orders_follow_def
    by (intro exI [of _ "w_orders db"] exI [of _ "[wo]"]) (auto simp: list_all2_refl born_draft_def lc_of_def)
qed (auto intro!: orders_follow_same simp: add_wo_entry_def create_notice_def add_run_def attach_artifact_def replace_tasks_def
    set_task_status_def Let_def)






text \<open>The witness: an order that is done cannot be cancelled.\<close>

definition wenv0 :: wenv where
  "wenv0 = \<lparr>we_uuid = (\<lambda>n. n + 100), we_clock = int, we_settings = None, we_tools = [], we_autonomy = (\<lambda>_. None),
     we_complete = (\<lambda>_. None)\<rparr>"

definition order0 :: work_order where
  "order0 = \<lparr>wo_id = 5, wo_org = 1, wo_title = ''Audit'', wo_body = None, wo_status = ''draft'', wo_mode = ''manual'', wo_review = ''none'',
     wo_priority = ''normal'', wo_agent = None, wo_creator = None, wo_via_api = False, wo_api_key = None\<rparr>"

definition wdb_of :: "work_order \<Rightarrow> wo_task list \<Rightarrow> wdb" where
  "wdb_of wo ts = \<lparr>w_orders = [wo], w_tasks = ts, w_entries = [], w_runs = [], w_notices = [], w_artifacts = [], w_documents = [],
     w_agents = [operator0], w_tick = 0\<rparr>"



subsection \<open>Tenants\<close>

definition others_kept :: "nat \<Rightarrow> wdb \<Rightarrow> wdb \<Rightarrow> bool" where
  "others_kept org db db' \<longleftrightarrow>
     filter (\<lambda>w. wo_org w \<noteq> org) (w_orders db') = filter (\<lambda>w. wo_org w \<noteq> org) (w_orders db)
     \<and> filter (\<lambda>t. tsk_org t \<noteq> org) (w_tasks db') = filter (\<lambda>t. tsk_org t \<noteq> org) (w_tasks db)
     \<and> filter (\<lambda>e. ent_org e \<noteq> org) (w_entries db') = filter (\<lambda>e. ent_org e \<noteq> org) (w_entries db)
     \<and> filter (\<lambda>r. wr_org r \<noteq> org) (w_runs db') = filter (\<lambda>r. wr_org r \<noteq> org) (w_runs db)
     \<and> filter (\<lambda>n. no_org n \<noteq> org) (w_notices db') = filter (\<lambda>n. no_org n \<noteq> org) (w_notices db)
     \<and> filter (\<lambda>a. art_org a \<noteq> org) (w_artifacts db') = filter (\<lambda>a. art_org a \<noteq> org) (w_artifacts db)
     \<and> w_documents db' = w_documents db \<and> w_agents db' = w_agents db"

lemma filter_upd_found:
  "(\<And>x. p x \<Longrightarrow> \<not> q x) \<Longrightarrow> (\<And>x. p x \<Longrightarrow> \<not> q (f x)) \<Longrightarrow> filter q (upd_found p f xs) = filter q xs"
  by (induction xs) auto

lemma filter_upd_first: "\<not> q old \<Longrightarrow> \<not> q new \<Longrightarrow> filter q (upd_first old new xs) = filter q xs"
  by (induction xs) auto

lemma filter_upd_where_other:
  "(\<And>x. p x \<Longrightarrow> \<not> q x) \<Longrightarrow> (\<And>x. p x \<Longrightarrow> \<not> q (f x)) \<Longrightarrow> filter q (upd_where p f xs) = filter q xs"
  by (induction xs) auto

interpretation tenant: service_calls "others_kept org" env org for env org
proof (unfold_locales, goal_cases)
  case (6 f db i)
  show ?case by (simp add: others_kept_def upd_order_def, rule filter_upd_found) (use 6(2) in auto)
next
  case (7 i db wo s)
  show ?case by (simp add: others_kept_def upd_order_def, rule filter_upd_found) auto
next
  case (13 ts db i)
  then have "filter (\<lambda>t. tsk_org t \<noteq> org) ts = []" by (simp add: filter_empty_conv)
  then show ?case by (simp add: others_kept_def replace_tasks_def) (metis (mono_tags, lifting) filter_cong)
next
  case (15 db i title)
  show ?case by (simp add: others_kept_def, rule filter_upd_where_other) (auto simp: is_open_alert_def)
qed (auto simp: others_kept_def add_wo_entry_def new_entry_def create_notice_def add_run_def queued_run_def attach_artifact_def
    set_task_status_def filter_upd_first Let_def intro: filter_cong)

text \<open>
  A service opened for one organization never touches another: whatever calls it makes,
  whichever ids they name, every order, task, diary entry, run, notice and artifact of the
  other organizations is left as it was, and so are the documents and the agents.
\<close>

theorem service_tenant_isolation: "others_kept org db (wo_run_ops env org ops db)"
  by (rule tenant.keeps_run_ops)

subsection \<open>One live run per order\<close>

definition live_runs :: "nat \<Rightarrow> nat \<Rightarrow> wdb \<Rightarrow> nat" where
  "live_runs org i db = length (filter (is_live_run org i) (w_runs db))"

definition one_run :: "wdb \<Rightarrow> wdb \<Rightarrow> bool" where
  "one_run db db' \<longleftrightarrow> (\<forall>org i. live_runs org i db' \<le> max 1 (live_runs org i db))"

lemma live_runs_zero: "live_runs org i db = 0 \<longleftrightarrow> \<not> has_live_run org i None db"
  by (simp add: live_runs_def has_live_run_def list_ex_iff filter_empty_conv)

lemma one_run_same: "w_runs db' = w_runs db \<Longrightarrow> one_run db db'"
  by (simp add: one_run_def live_runs_def)

interpretation single_run: service_tasks one_run env org for env org
proof (unfold_locales, goal_cases)
  case (2 a b c)
  then show ?case unfolding one_run_def by (meson le_max_iff_disj le_trans max.cobounded1 max.boundedI)
next
  case (5 wo db agent trigger task attachments prog actor label)
  then have "live_runs org (wo_id wo) db = 0" by (simp add: live_runs_zero)
  then show ?case
    by (auto simp: one_run_def live_runs_def add_run_def is_live_run_def queued_run_def Let_def)
qed (auto intro!: one_run_same simp: add_wo_entry_def create_notice_def upd_order_def attach_artifact_def replace_tasks_def
    set_task_status_def Let_def)

text \<open>
  Two calls do not look for a live run of the order, or look away from one: the continuation the sweeper queues, and the start of
  an approved plan that ignores the run it is made from. Each of them adds at most one run, and to the order it names only.
\<close>

definition unlooked :: "nat \<Rightarrow> wo_op \<Rightarrow> bool" where
  "unlooked i x = (case x of Continue j \<Rightarrow> j = i | StartApprovedPlan j _ _ ignore \<Rightarrow> j = i \<and> ignore \<noteq> None | _ \<Rightarrow> False)"

definition adds_one :: "nat \<Rightarrow> nat \<Rightarrow> wdb \<Rightarrow> wdb \<Rightarrow> bool" where
  "adds_one j i db db' \<longleftrightarrow> (\<forall>org. live_runs org i db' \<le> live_runs org i db + (if j = i then 1 else 0))"

lemma adds_one_runs: "w_runs db' = w_runs (fst (add_run env (queued_run org wo agent trigger task attachments prog actor label) db))
    \<Longrightarrow> adds_one (wo_id wo) i db db'"
  by (auto simp: adds_one_def live_runs_def add_run_def queued_run_def is_live_run_def Let_def)

lemma adds_one_same: "w_runs db' = w_runs db \<Longrightarrow> adds_one j i db db'"
  by (auto simp: adds_one_def live_runs_def)

lemma runs_warn [simp]: "w_runs (warn_on_capability_gap env org wo agent run db) = w_runs db"
  by (simp add: warn_on_capability_gap_def create_notice_def add_wo_entry_def split: sum.splits)

lemma dispatch_adds_one: "adds_one (wo_id wo) i db (fst (dispatch_order env org wo actor task ignore attachments db))"
  by (auto simp: dispatch_order_def start_agent_def add_wo_entry_def Let_def split: option.splits intro: adds_one_same adds_one_runs)

lemma fst_unit_of: "fst (unit_of m db) = fst (m db)"
  by (simp add: unit_of_def wbind_def wret_def split: prod.splits sum.splits)

lemma fst_get_bind: "fst (wbind (get_work_order org j) f db) = (case wo_row org j db of None \<Rightarrow> db | Some wo \<Rightarrow> fst (f wo db))"
  by (simp add: wbind_def get_work_order_def split: option.splits)

lemma fst_wbind_kept: "fst (m db) = db \<Longrightarrow> fst (wbind m f db) = (case snd (m db) of Inl _ \<Rightarrow> db | Inr a \<Rightarrow> fst (f a db))"
  by (cases "m db") (simp add: wbind_def split: sum.splits)

lemma continue_adds_one: "adds_one (wo_id wo) i db (fst (continue_order env org wo ts db))"
proof -
  have "adds_one (wo_id wo) i db (fst (queue_continuation env org wo agent ts history db))" for agent history
    unfolding queue_continuation_def Let_def fst_conv by (rule adds_one_runs) (simp add: add_wo_entry_def)
  moreover have "fst (list_entries_page org (wo_id wo) m before db) = db" for m before
    by (simp add: list_entries_page_def wbind_def get_work_order_def split: option.splits)
  ultimately show ?thesis
    by (simp add: continue_order_def adds_one_same fst_wbind_kept split: option.splits sum.splits)
qed

lemma get_adds_one:
  assumes "\<And>wo. wo_id wo = j \<Longrightarrow> adds_one j i db (fst (f wo db))"
  shows "adds_one j i db (fst (wbind (get_work_order org j) f db))"
proof (cases "wo_row org j db")
  case (Some wo)
  then have "wo_id wo = j" by (auto simp: wo_row_def dest: find_SomeD)
  then show ?thesis using assms Some by (simp add: fst_get_bind)
qed (simp add: fst_get_bind adds_one_same)

lemma unlooked_step:
  assumes "\<not> (plain_op x \<or> task_op x)"
  shows "live_runs org' i (fst (wo_step env org x db)) \<le> live_runs org' i db + (if unlooked i x then 1 else 0)"
proof (cases x)
  case (Continue j)
  have "adds_one j i db (fst (wo_step env org x db))"
    unfolding Continue wo_step.simps fst_unit_of by (rule get_adds_one) (metis continue_adds_one)
  then show ?thesis using Continue by (simp add: unlooked_def adds_one_def)
next
  case (StartApprovedPlan j plan actor ignore)
  have "adds_one j i db (fst (wo_step env org x db))"
    unfolding StartApprovedPlan wo_step.simps start_approved_plan_def by (rule get_adds_one) (metis dispatch_adds_one)
  then show ?thesis using assms StartApprovedPlan by (simp add: unlooked_def plain_op_def adds_one_def)
qed (use assms in \<open>simp_all add: plain_op_def task_op_def\<close>)

text \<open>
  C10. No sequence of calls puts a second live run on an order, except for the two calls that are made to: whatever the sequence,
  an order has afterwards at most one live run, or as many as it had, plus one for each continuation of the sweeper and each
  approved plan started for this very order with a run to ignore.
\<close>

theorem service_single_run:
  "live_runs org' i (wo_run_ops env org ops db) \<le> max 1 (live_runs org' i db) + length (filter (unlooked i) ops)"
proof (induction ops arbitrary: db)
  case (Cons x xs)
  let ?d = "fst (wo_step env org x db)"
  have "max 1 (live_runs org' i ?d) \<le> max 1 (live_runs org' i db) + (if unlooked i x then 1 else 0)"
  proof (cases "plain_op x \<or> task_op x")
    case True
    then have "one_run db ?d" using single_run.keeps_looking_op by (simp add: keeps_def)
    then have "live_runs org' i ?d \<le> max 1 (live_runs org' i db)" by (simp add: one_run_def)
    then show ?thesis by simp
  qed (use unlooked_step [of x org' i env org db] in \<open>auto split: if_splits\<close>)
  then show ?case using Cons [of ?d] by (auto split: if_splits simp del: max.bounded_iff)
qed simp

theorem service_single_run_witness:
  "live_runs 1 5 (wo_run_ops wenv0 1 [SetStatus 5 ''in_progress'' None, UpdateTask 5 ''T1'' ''done'' None None None, Reply 5 ''go on'' None [],
      Continue 6] (wdb_of (order0\<lparr>wo_agent := Some 1\<rparr>) [])) \<le> 1"
  using service_single_run [of 1 5 wenv0 1 "[SetStatus 5 ''in_progress'' None, UpdateTask 5 ''T1'' ''done'' None None None,
      Reply 5 ''go on'' None [], Continue 6]" "wdb_of (order0\<lparr>wo_agent := Some 1\<rparr>) []"]
  by (simp add: unlooked_def live_runs_def wdb_of_def del: wo_run_ops.simps)

lemma live_after_start: "has_live_run org (wo_id wo) None (start_agent env org wo agent actor task attachments db)"
  by (simp add: start_agent_def warn_on_capability_gap_def add_run_def add_wo_entry_def create_notice_def queued_run_def Let_def
      has_live_run_def is_live_run_def LIVE_RUN_STATUSES_def split: sum.splits)

text \<open>
  C37. Starting an order is not an empty promise: a call that moves an order to in progress
  and succeeds leaves it with a live run when it is assigned; when it is not assigned the
  diary says that nothing was queued.
\<close>

theorem start_leaves_live_run:
  assumes "wo_row org i db = Some wo" "wo_status wo \<noteq> ''in_progress''"
    and "wo_set_status env org i ''in_progress'' actor db = (db', Inr w)"
  shows "wo_status w = ''in_progress''
    \<and> (if wo_agent wo = None then \<exists>e \<in> set (w_entries db'). ent_wo e = i \<and> ent_text e = NO_AGENT_TEXT
       else has_live_run org i None db')"
proof -
  have i: "wo_id wo = i" using assms(1) by (auto simp: wo_row_def dest: find_SomeD)
  obtain db1 where d: "dispatch_order env org wo actor None None [] db = (db1, Inr ())"
    and db': "db' = upd_order org i (\<lambda>w. w\<lparr>wo_status := ''in_progress''\<rparr>) db1" "w = wo\<lparr>wo_status := ''in_progress''\<rparr>"
    using assms
    by (auto simp: wo_set_status_def wbind_def get_work_order_def wret_def wraise_def wdo_def DISPATCH_STATUS_def
        split: if_splits prod.splits sum.splits)
  have "if wo_agent wo = None then \<exists>e \<in> set (w_entries db1). ent_wo e = i \<and> ent_text e = NO_AGENT_TEXT
        else has_live_run org i None db1"
    using d i live_after_start [of org wo env]
    by (auto simp: dispatch_order_def add_wo_entry_def new_entry_def split: if_splits option.splits)
  then show ?thesis using db' by (auto simp: upd_order_def has_live_run_def split: if_splits)
qed

lemma start0: "snd (wo_set_status wenv0 1 5 ''in_progress'' None (wdb_of order0 [])) = Inr (order0\<lparr>wo_status := ''in_progress''\<rparr>)"
  by (simp add: wo_set_status_def wbind_def get_work_order_def wo_row_def wdb_of_def order0_def allowed_of_def TRANSITIONS_def
      DISPATCH_STATUS_def dispatch_order_def wdo_def wret_def)

theorem start_leaves_live_run_witness:
  "\<exists>e \<in> set (w_entries (fst (wo_set_status wenv0 1 5 ''in_progress'' None (wdb_of order0 [])))). ent_text e = NO_AGENT_TEXT"
proof -
  have w: "wo_row 1 5 (wdb_of order0 []) = Some order0" "wo_status order0 \<noteq> ''in_progress''"
    by (simp_all add: wo_row_def wdb_of_def order0_def)
  obtain db' where r: "wo_set_status wenv0 1 5 ''in_progress'' None (wdb_of order0 []) = (db', Inr (order0\<lparr>wo_status := ''in_progress''\<rparr>))"
    using start0 by (metis prod.collapse)
  have "wo_agent order0 = None" by (simp add: order0_def)
  then have "\<exists>e \<in> set (w_entries db'). ent_text e = NO_AGENT_TEXT" using start_leaves_live_run [OF w r] by auto
  then show ?thesis unfolding r by simp
qed

subsection \<open>Evidence\<close>

text \<open>The gates of a finished step, read off the code.\<close>

lemma require_evidence_ok:
  assumes "require_evidence org i target tasks evidence db = (db', Inr u)" "wo_row org i db = Some wo"
  shows "db' = db \<and> (\<exists>said. evidence = Some said \<and> MIN_EVIDENCE_CHARS \<le> length (strip said))
    \<and> (others_settled target tasks \<and> owes_file wo tasks \<longrightarrow> has_deliverable org i db)"
  using assms
  by (cases evidence)
    (auto simp: require_evidence_def Let_def wbind_def get_work_order_def wret_def wraise_def MIN_EVIDENCE_CHARS_def strip_def
      split: if_splits)

lemma gate_acceptance_ok:
  assumes "gate_acceptance env org i target tasks db = (db', Inr u)" "wo_row org i db = Some wo"
  shows "others_settled target tasks \<and> we_settings env = Some st \<and> st_acceptance_enforce st \<longrightarrow> ac_ok (check_acceptance env org wo st db)"
  using assms
  by (auto simp: gate_acceptance_def Let_def wbind_def get_work_order_def wret_def split: if_splits option.splits)

lemma after_move_done_entries:
  assumes "after_task_move env org i target ''done'' agent run (Some said) db = (db', r)" "said \<noteq> []"
  shows "\<exists>e \<in> set (w_entries db'). ent_wo e = i \<and> ent_text e = DONE_MARKER @ '' '' @ tsk_key target @ '' '' @ EM_DASH @ '' '' @ said"
  using assms
  by (auto simp: after_task_move_def wbind_def wdo_def add_wo_entry_def new_entry_def clear_blocked_alert_def get_work_order_def wret_def
      split: if_splits option.splits)

interpretation tasks_kept: service_runs "\<lambda>a b. w_tasks b = w_tasks a" env org for env org
  by unfold_locales
    (auto simp: add_wo_entry_def create_notice_def add_run_def attach_artifact_def upd_order_def Let_def)

lemma fst_wbind: "m db = (d, r) \<Longrightarrow> fst (wbind m f db) = (case r of Inl _ \<Rightarrow> d | Inr a \<Rightarrow> fst (f a d))"
  by (simp add: wbind_def split: sum.splits)

lemma fst_wbind_do: "fst (wbind (wdo g) f db) = fst (f () (g db))"
  by (simp add: wbind_def wdo_def)

lemma fst_wbind_ret: "fst (wbind m (\<lambda>a. wret (g a)) db) = fst (m db)"
  by (simp add: wbind_def wret_def split: prod.splits sum.splits)

lemma gates_keep_tasks:
  assumes "(if s = ''done'' then wbind (require_evidence org j target ts evidence) (\<lambda>_. gate_acceptance env org j target ts) else wret ()) db = (d, r)"
  shows "w_tasks d = w_tasks db"
proof -
  have "keeps (\<lambda>a b. w_tasks b = w_tasks a)
      (if s = ''done'' then wbind (require_evidence org j target ts evidence) (\<lambda>_. gate_acceptance env org j target ts) else wret ())"
    by (auto intro: tasks_kept.keeps_bind tasks_kept.keeps_require tasks_kept.keeps_gate tasks_kept.keeps_ret)
  then show ?thesis using assms by (auto simp: keeps_def dest!: spec [of _ db])
qed

lemma set_upd_first_subset: "set (upd_first old new xs) \<subseteq> insert new (set xs)"
  by (induction xs) auto

lemma after_move_keeps_tasks: "w_tasks (fst (after_task_move env org i target s agent run evidence db)) = w_tasks db"
  by (auto simp: after_task_move_def wbind_def wdo_def add_wo_entry_def report_blocked_def clear_blocked_alert_def get_work_order_def wret_def
      create_notice_def Let_def split: option.splits)

text \<open>A step moves by \<open>update_task_status\<close> to the status of the call and after the gates let it.\<close>

lemma update_task_moves:
  assumes "t \<in> set (w_tasks (fst (update_task_status env org i key s agent run evidence db)))" "t \<notin> set (w_tasks db)"
  shows "tsk_status t = s \<and> (\<exists>target d. find (\<lambda>t. lower (tsk_key t) = lower (strip key)) (order_tasks org i db) = Some target
    \<and> t = target\<lparr>tsk_status := s\<rparr>
    \<and> (if s = ''done'' then wbind (require_evidence org i target (order_tasks org i db) evidence)
         (\<lambda>_. gate_acceptance env org i target (order_tasks org i db)) else wret ()) db = (d, Inr ())
    \<and> fst (update_task_status env org i key s agent run evidence db)
        = fst (after_task_move env org i target s agent run evidence (set_task_status target s d)))"
proof -
  let ?ts = "order_tasks org i db"
  let ?gates = "\<lambda>target. if s = ''done'' then wbind (require_evidence org i target ?ts evidence)
    (\<lambda>_. gate_acceptance env org i target ?ts) else wret ()"
  have s: "s \<in> set TASK_STATUSES" using assms by (auto simp: update_task_status_def wraise_def split: if_splits)
  have "wo_row org i db \<noteq> None" using assms s by (cases "wo_row org i db") (simp_all add: update_task_status_def fst_get_bind)
  note s = s this
  obtain target where f: "find (\<lambda>t. lower (tsk_key t) = lower (strip key)) ?ts = Some target"
    using assms s by (auto simp: update_task_status_def fst_get_bind Let_def split: option.splits)
  obtain d r where g: "?gates target db = (d, r)" by fastforce
  have "fst (update_task_status env org i key s agent run evidence db)
      = (if agent \<noteq> None \<and> tsk_status target = s then db else fst (wbind (?gates target) (\<lambda>_.
          wbind (wdo (set_task_status target s)) (\<lambda>_. wbind (after_task_move env org i target s agent run evidence)
            (\<lambda>_. wret (target\<lparr>tsk_status := s\<rparr>)))) db))"
    using s f by (auto simp: update_task_status_def wbind_def [of "get_work_order _ _"] get_work_order_def Let_def)
  also have "\<dots> = (if agent \<noteq> None \<and> tsk_status target = s then db else if isl r then d
      else fst (after_task_move env org i target s agent run evidence (set_task_status target s d)))"
    unfolding fst_wbind [of "?gates target", OF g] by (auto simp: fst_wbind_ret fst_wbind_do split: sum.splits)
  finally have e: "fst (update_task_status env org i key s agent run evidence db) = \<dots>" .
  have "w_tasks d = w_tasks db" by (rule gates_keep_tasks [OF g])
  then have "\<not> isl r" "\<not> (agent \<noteq> None \<and> tsk_status target = s)" "t \<in> set (upd_first target (target\<lparr>tsk_status := s\<rparr>) (w_tasks db))"
    using assms unfolding e by (auto simp: after_move_keeps_tasks set_task_status_def split: if_splits)
  with e have "fst (update_task_status env org i key s agent run evidence db)
      = fst (after_task_move env org i target s agent run evidence (set_task_status target s d))" by argo
  moreover have "r = Inr ()" "t = target\<lparr>tsk_status := s\<rparr>" 
    using \<open>\<not> isl r\<close> \<open>t \<in> set (upd_first _ _ _)\<close> assms(2) set_upd_first_subset by (cases r; fastforce)+
  ultimately show ?thesis using f g by auto
qed

lemma other_calls_keep_tasks:
  assumes "\<not> task_op x"
  shows "w_tasks (fst (wo_step env org x db)) = w_tasks db"
  using tasks_kept.keeps_no_task_op [OF assms] by (simp add: keeps_def)

lemma done_move:
  assumes "t \<in> set (w_tasks (fst (update_task_status env org i key ''done'' agent run evidence db)))" "t \<notin> set (w_tasks db)"
  shows "\<exists>wo target said. wo_row org i db = Some wo \<and> target \<in> set (order_tasks org i db) \<and> t = target\<lparr>tsk_status := ''done''\<rparr>
    \<and> evidence = Some said \<and> 25 \<le> length (strip said)
    \<and> (\<exists>e \<in> set (w_entries (fst (update_task_status env org i key ''done'' agent run evidence db))). ent_wo e = i
         \<and> ent_text e = DONE_MARKER @ '' '' @ tsk_key target @ '' '' @ EM_DASH @ '' '' @ said)
    \<and> (others_settled target (order_tasks org i db) \<longrightarrow>
         (owes_file wo (order_tasks org i db) \<longrightarrow> has_deliverable org i db)
         \<and> (\<forall>st. we_settings env = Some st \<and> st_acceptance_enforce st \<longrightarrow> ac_ok (check_acceptance env org wo st db)))"
proof -
  let ?ts = "order_tasks org i db"
  obtain wo where wo: "wo_row org i db = Some wo"
    using assms by (auto simp: update_task_status_def TASK_STATUSES_def wbind_def get_work_order_def split: option.splits)
  obtain target d where t: "find (\<lambda>t. lower (tsk_key t) = lower (strip key)) ?ts = Some target" "t = target\<lparr>tsk_status := ''done''\<rparr>"
    and gates: "wbind (require_evidence org i target ?ts evidence) (\<lambda>_. gate_acceptance env org i target ?ts) db = (d, Inr ())"
    and moved: "fst (update_task_status env org i key ''done'' agent run evidence db)
      = fst (after_task_move env org i target ''done'' agent run evidence (set_task_status target ''done'' d))"
    using update_task_moves [OF assms] by auto
  obtain d1 where r: "require_evidence org i target ?ts evidence db = (d1, Inr ())" and g: "gate_acceptance env org i target ?ts d1 = (d, Inr ())"
    using gates by (auto simp: wbind_def split: prod.splits sum.splits)
  note re = require_evidence_ok [OF r wo]
  then obtain said where s: "evidence = Some said" "25 \<le> length (strip said)" by (auto simp: MIN_EVIDENCE_CHARS_def)
  then have "said \<noteq> []" by (auto simp: strip_def)
  then have "\<exists>e \<in> set (w_entries (fst (update_task_status env org i key ''done'' agent run evidence db))). ent_wo e = i
      \<and> ent_text e = DONE_MARKER @ '' '' @ tsk_key target @ '' '' @ EM_DASH @ '' '' @ said"
    unfolding moved unfolding s(1) by (rule after_move_done_entries [OF prod.collapse [symmetric]])
  then show ?thesis
    using wo t s re g gate_acceptance_ok [of env org i target ?ts db d "()" wo] find_SomeD [OF t(1)] by auto
qed

lemma tasks_wbind: "(\<And>a d. w_tasks (fst (f a d)) = w_tasks d) \<Longrightarrow> w_tasks (fst (wbind m f db)) = w_tasks (fst (m db))"
  by (simp add: wbind_def split: prod.splits sum.splits)

lemma report_all_keeps_tasks: "w_tasks (fst (report_all env org i ts db)) = w_tasks db"
  by (induction ts arbitrary: db)
    (auto simp: wbind_def report_blocked_def get_work_order_def add_wo_entry_def create_notice_def Let_def split: option.splits)

lemma set_tasks_adds:
  assumes "t \<in> set (w_tasks (fst (set_tasks env org i ts add db)))" "t \<notin> set (w_tasks db)" "tsk_status t = ''done''"
  shows "tsk_wo t = i \<and> (\<exists>u \<in> set ts. ti_status u = Some ''done'' \<and> tsk_title t = ti_title u)"
proof -
  define ms where "ms = map (\<lambda>(n, t). task_of org i n t) (zip [0..<length (with_delivery add ts)] (with_delivery add ts))"
  have "w_tasks (fst (clear_blocked_alert org i ms d)) = w_tasks d" for d
    by (auto simp: clear_blocked_alert_def fst_get_bind wdo_def wret_def split: option.splits)
  moreover have "w_tasks (fst (wret x d)) = w_tasks d" for x :: "wo_task list" and d by (simp add: wret_def)
  ultimately have "w_tasks (fst (set_tasks env org i ts add db)) \<in> {w_tasks db, w_tasks (replace_tasks org i ms db)}"
    by (simp add: set_tasks_def Let_def fst_get_bind fst_wbind_do tasks_wbind report_all_keeps_tasks ms_def [symmetric] split: option.splits)
  then have "t \<in> set ms" using assms(1,2) by (auto simp: replace_tasks_def)
  then obtain n u where "u \<in> set (with_delivery add ts)" "t = task_of org i n u" by (auto simp: ms_def dest: set_zip_rightD)
  then show ?thesis using assms(3)
    by (auto simp: task_of_def with_delivery_def delivery_input_def split: if_splits option.splits)
qed

text \<open>
  C9. A step does not become done on an agent's word alone. Whatever the call, a step that is in the table as done afterwards and was
  not before comes from one of two calls: from replacing the whole list of steps, which stores every step with the status it is
  given, or from moving a single step to done. The second has evidence of at least twenty-five characters, which goes into the diary
  under the step's key; when the step was the last open one and the order owes a file, an output is attached; and when an auditor is
  configured to enforce, it has accepted the delivery.
\<close>

theorem done_needs_evidence:
  assumes "t \<in> set (w_tasks (fst (wo_step env org x db)))" "tsk_status t = ''done''" "t \<notin> set (w_tasks db)"
  shows "(\<exists>i ts add. x = SetTasks i ts add \<and> tsk_wo t = i \<and> (\<exists>u \<in> set ts. ti_status u = Some ''done'' \<and> tsk_title t = ti_title u))
    \<or> (\<exists>i key agent run said wo target. x = UpdateTask i key ''done'' agent run (Some said) \<and> 25 \<le> length (strip said)
        \<and> wo_row org i db = Some wo \<and> target \<in> set (order_tasks org i db) \<and> t = target\<lparr>tsk_status := ''done''\<rparr>
        \<and> (\<exists>e \<in> set (w_entries (fst (wo_step env org x db))). ent_wo e = i
             \<and> ent_text e = DONE_MARKER @ '' '' @ tsk_key target @ '' '' @ EM_DASH @ '' '' @ said)
        \<and> (others_settled target (order_tasks org i db) \<longrightarrow>
             (owes_file wo (order_tasks org i db) \<longrightarrow> has_deliverable org i db)
             \<and> (\<forall>st. we_settings env = Some st \<and> st_acceptance_enforce st \<longrightarrow> ac_ok (check_acceptance env org wo st db))))"
proof (cases "\<exists>i ts add. x = SetTasks i ts add")
  case True
  then obtain i ts add where x: "x = SetTasks i ts add" by auto
  then show ?thesis using assms set_tasks_adds [of t env org i ts add db] by (auto simp: fst_unit_of)
next
  case False
  then obtain i key s agent run evidence where x: "x = UpdateTask i key s agent run evidence"
    using assms other_calls_keep_tasks [of x env org db] by (cases x) (auto simp: task_op_def)
  note m = update_task_moves [of t env org i key s agent run evidence db]
  have "s = ''done''" using m assms by (simp add: x fst_unit_of)
  then show ?thesis using m assms done_move [of t env org i key agent run evidence db] by (auto simp: x fst_unit_of)
qed

text \<open>The witness: the first of two steps is finished with a sentence of evidence, which is in the diary then.\<close>

definition task0 :: "string \<Rightarrow> string \<Rightarrow> wo_task" where
  "task0 key status = \<lparr>tsk_wo = 5, tsk_org = 1, tsk_key = key, tsk_title = ''step'', tsk_status = status, tsk_sort = 0, tsk_agent = None\<rparr>"

definition steps0 :: wdb where
  "steps0 = wdb_of order0 [task0 ''T1'' ''pending'', task0 ''T2'' ''pending'']"

definition evidence0 :: string where
  "evidence0 = ''crawled 42 pages, see crawl.csv''"

definition done_call :: wo_op where
  "done_call = UpdateTask 5 ''t1'' ''done'' None None (Some evidence0)"

lemma steps0_done: "map (\<lambda>t. (tsk_key t, tsk_status t)) (w_tasks (fst (wo_step wenv0 1 done_call steps0))) = [(''T1'', ''done''), (''T2'', ''pending'')]"
  by code_simp

theorem done_needs_evidence_witness:
  "\<exists>e \<in> set (w_entries (fst (wo_step wenv0 1 done_call steps0))). ent_wo e = 5
     \<and> ent_text e = DONE_MARKER @ '' '' @ ''T1'' @ '' '' @ EM_DASH @ '' '' @ evidence0"
proof -
  obtain t where t: "t \<in> set (w_tasks (fst (wo_step wenv0 1 done_call steps0)))" "tsk_status t = ''done''" "tsk_key t = ''T1''"
    using steps0_done by (cases "w_tasks (fst (wo_step wenv0 1 done_call steps0))") auto
  moreover have "t \<notin> set (w_tasks steps0)" using t(2) by (auto simp: steps0_def wdb_of_def task0_def)
  ultimately show ?thesis using done_needs_evidence [of t wenv0 1 done_call steps0]
    by (auto simp: done_call_def simp del: wo_step.simps)
qed

text \<open>Replacing the list stores a step as done with nothing to show for it.\<close>

theorem steps_replaced_as_done:
  "map tsk_status (w_tasks (fst (wo_step wenv0 1 (SetTasks 5 [\<lparr>ti_key = None, ti_title = ''audit'', ti_status = Some ''done'',
      ti_sort = None, ti_agent = None\<rparr>] False) steps0))) = [''done'']
   \<and> w_entries (fst (wo_step wenv0 1 (SetTasks 5 [\<lparr>ti_key = None, ti_title = ''audit'', ti_status = Some ''done'',
      ti_sort = None, ti_agent = None\<rparr>] False) steps0)) = []"
  by code_simp

end
