(* ===== verification/Work_Order_Alerts.thy ===== *)
theory Work_Order_Alerts
  imports Work_Order_Props
begin

section \<open>The alert for blocked steps, and the pages of the diary\<close>

text \<open>
  An order with blocked steps raises one alert, not one per step, and the alert is retracted with the
  last of them. The relation \<open>alert_rel\<close> says this of one order before and after a call; the
  operations that do not touch tasks keep it by the locale of the service, the two task
  operations by their own lemmas. The second part shows that paging back through the diary
  from the newest entry visits every entry once, in order.
\<close>

subsection \<open>Alerts\<close>

definition open_alerts :: "nat \<Rightarrow> nat \<Rightarrow> string \<Rightarrow> wdb \<Rightarrow> nat" where
  "open_alerts org i title db = length (filter (is_open_alert org i title) (w_notices db))"

definition any_blocked :: "nat \<Rightarrow> nat \<Rightarrow> wdb \<Rightarrow> bool" where
  "any_blocked org i db \<longleftrightarrow> (\<exists>t \<in> set (w_tasks db). tsk_wo t = i \<and> tsk_org t = org \<and> tsk_status t = ''blocked'')"

definition alert_ok :: "nat \<Rightarrow> nat \<Rightarrow> string \<Rightarrow> wdb \<Rightarrow> bool" where
  "alert_ok org i title db \<longleftrightarrow> open_alerts org i title db \<le> 1 \<and> (open_alerts org i title db = 1 \<longrightarrow> any_blocked org i db)"

definition order_title :: "nat \<Rightarrow> nat \<Rightarrow> wdb \<Rightarrow> string option" where
  "order_title org i db = map_option blocked_title (wo_row org i db)"

definition alert_rel :: "nat \<Rightarrow> nat \<Rightarrow> wdb \<Rightarrow> wdb \<Rightarrow> bool" where
  "alert_rel org i db db' \<longleftrightarrow> (\<forall>title. order_title org i db = Some title \<longrightarrow>
     order_title org i db' = Some title \<and> (alert_ok org i title db \<longrightarrow> alert_ok org i title db'))"

lemma alert_rel_same:
  "w_orders db' = w_orders db \<Longrightarrow> w_tasks db' = w_tasks db \<Longrightarrow> w_notices db' = w_notices db \<Longrightarrow> alert_rel org i db db'"
  by (simp add: alert_rel_def alert_ok_def open_alerts_def any_blocked_def order_title_def wo_row_def)

lemma find_upd_found:
  "(\<And>x. p x \<Longrightarrow> p (f x) \<and> g (f x) = g x) \<Longrightarrow> (\<And>x. p x \<Longrightarrow> q (f x) = q x) \<Longrightarrow>
    map_option g (find q (upd_found p f xs)) = map_option g (find q xs)"
  by (induction xs) auto

lemma alert_rel_order:
  assumes "\<And>w. wo_id (f w) = wo_id w" "\<And>w. wo_org (f w) = wo_org w" "\<And>w. wo_title (f w) = wo_title w"
  shows "alert_rel org i db (upd_order org' j f db)"
proof -
  have "order_title org i (upd_order org' j f db) = order_title org i db"
    unfolding order_title_def wo_row_def upd_order_def
    using find_upd_found [of "\<lambda>w. wo_id w = j \<and> wo_org w = org'" f blocked_title "\<lambda>w. wo_id w = i \<and> wo_org w = org" "w_orders db"] assms
    by (simp add: blocked_title_def)
  then show ?thesis by (simp add: alert_rel_def alert_ok_def open_alerts_def any_blocked_def upd_order_def)
qed

lemma find_append_Some: "find p xs = Some x \<Longrightarrow> find p (xs @ ys) = Some x"
  by (induction xs) auto

lemma alert_rel_notice: "(\<And>w. title \<noteq> blocked_title w) \<Longrightarrow> alert_rel org i db (create_notice org' j run title body db)"
  by (auto simp: alert_rel_def alert_ok_def open_alerts_def any_blocked_def order_title_def wo_row_def create_notice_def is_open_alert_def)

interpretation alerts: service_runs "alert_rel org i" env org for i env org
proof (unfold_locales, goal_cases)
  case (2 a b c)
  then show ?case by (auto simp: alert_rel_def)
next
  case (4 title db i run body)
  then show ?case by (rule alert_rel_notice)
next
  case (6 f db j)
  then show ?case by (intro alert_rel_order) auto
next
  case (7 j db wo s)
  then show ?case by (intro alert_rel_order) auto
next
  case (8 wo db)
  then show ?case
    by (auto simp: alert_rel_def alert_ok_def open_alerts_def any_blocked_def order_title_def wo_row_def dest: find_append_Some)
qed (auto intro!: alert_rel_same simp: add_wo_entry_def add_run_def attach_artifact_def Let_def)

text \<open>What the two alert operations do to an order that exists.\<close>

lemma report_blocked_effect:
  assumes "order_title org i db = Some title"
  shows "\<exists>db'. report_blocked env org i t agent run db = (db', Inr ()) \<and> w_orders db' = w_orders db \<and> w_tasks db' = w_tasks db
    \<and> open_alerts org i title db' = max 1 (open_alerts org i title db)
    \<and> (\<forall>j u. j \<noteq> i \<longrightarrow> open_alerts org j u db' = open_alerts org j u db)"
proof -
  obtain wo where wo: "wo_row org i db = Some wo" "title = blocked_title wo" using assms by (auto simp: order_title_def)
  have none: "list_ex (is_open_alert org i title) (w_notices db) \<longleftrightarrow> 0 < open_alerts org i title db"
    by (simp add: open_alerts_def list_ex_iff filter_empty_conv)
  show ?thesis
    using wo none
    by (auto simp: report_blocked_def wbind_def get_work_order_def Let_def add_wo_entry_def create_notice_def open_alerts_def is_open_alert_def
        max_def Suc_le_eq)
qed

lemma upd_where_resolved:
  "filter (is_open_alert org i title) (upd_where (is_open_alert org i title) (\<lambda>n. n\<lparr>no_status := ''resolved''\<rparr>) ns) = []"
  by (induction ns) (auto simp: is_open_alert_def)

lemma upd_where_resolved_other:
  "j \<noteq> i \<Longrightarrow> length (filter (is_open_alert org j u) (upd_where (is_open_alert org i title) (\<lambda>n. n\<lparr>no_status := ''resolved''\<rparr>) ns))
     = length (filter (is_open_alert org j u) ns)"
  by (induction ns) (auto simp: is_open_alert_def)

lemma clear_effect:
  assumes "order_title org i db = Some title"
  shows "\<exists>db'. clear_blocked_alert org i ts db = (db', Inr ()) \<and> w_orders db' = w_orders db \<and> w_tasks db' = w_tasks db
    \<and> open_alerts org i title db' = (if list_ex (\<lambda>t. tsk_status t = ''blocked'') ts then open_alerts org i title db else 0)
    \<and> (\<forall>j u. j \<noteq> i \<longrightarrow> open_alerts org j u db' = open_alerts org j u db)"
  using assms
  by (auto simp: clear_blocked_alert_def order_title_def wbind_def get_work_order_def wdo_def wret_def open_alerts_def
      upd_where_resolved upd_where_resolved_other)

lemma report_all_effect:
  assumes "order_title org i db = Some title"
  shows "\<exists>db'. report_all env org i ts db = (db', Inr ()) \<and> w_orders db' = w_orders db \<and> w_tasks db' = w_tasks db
    \<and> open_alerts org i title db' = (if list_ex (\<lambda>t. tsk_status t = ''blocked'') ts then max 1 (open_alerts org i title db)
         else open_alerts org i title db)
    \<and> (\<forall>j u. j \<noteq> i \<longrightarrow> open_alerts org j u db' = open_alerts org j u db)"
  using assms
proof (induction ts arbitrary: db)
  case (Cons t ts)
  show ?case
  proof (cases "tsk_status t = ''blocked''")
    case True
    obtain d where d: "report_blocked env org i t None None db = (d, Inr ())" "w_orders d = w_orders db" "w_tasks d = w_tasks db"
        "open_alerts org i title d = max 1 (open_alerts org i title db)" "\<forall>j u. j \<noteq> i \<longrightarrow> open_alerts org j u d = open_alerts org j u db"
      using report_blocked_effect [OF Cons.prems] by metis
    have "order_title org i d = Some title" using Cons.prems d(2) by (simp add: order_title_def wo_row_def)
    from Cons.IH [OF this] show ?thesis using True d by (auto simp: wbind_def)
  qed (use Cons in simp)
qed simp

subsection \<open>The task operations\<close>

lemma set_tasks_alerts: "alert_rel org i db (fst (set_tasks env org j ts add db))"
proof (cases "wo_row org j db")
  case None
  then show ?thesis by (simp add: set_tasks_def wbind_def get_work_order_def alerts.reflexive)
next
  case (Some wo)
  define ms where "ms = map (\<lambda>(n, t). task_of org j n t) (zip [0..<length (with_delivery add ts)] (with_delivery add ts))"
  let ?d = "replace_tasks org j ms db"
  have ms: "tsk_wo t = j \<and> tsk_org t = org" if "t \<in> set ms" for t using that by (auto simp: ms_def task_of_def)
  have t: "order_title org j ?d = Some (blocked_title wo)" using Some by (simp add: order_title_def wo_row_def replace_tasks_def)
  obtain d1 where d1: "report_all env org j ms ?d = (d1, Inr ())" "w_orders d1 = w_orders ?d" "w_tasks d1 = w_tasks ?d"
      "open_alerts org j (blocked_title wo) d1 = (if list_ex (\<lambda>t. tsk_status t = ''blocked'') ms
         then max 1 (open_alerts org j (blocked_title wo) ?d) else open_alerts org j (blocked_title wo) ?d)"
      "\<forall>k u. k \<noteq> j \<longrightarrow> open_alerts org k u d1 = open_alerts org k u ?d"
    using report_all_effect [OF t] by metis
  have t1: "order_title org j d1 = Some (blocked_title wo)" using t d1(2) by (simp add: order_title_def wo_row_def)
  obtain d2 where d2: "clear_blocked_alert org j ms d1 = (d2, Inr ())" "w_orders d2 = w_orders d1" "w_tasks d2 = w_tasks d1"
      "open_alerts org j (blocked_title wo) d2 = (if list_ex (\<lambda>t. tsk_status t = ''blocked'') ms then open_alerts org j (blocked_title wo) d1 else 0)"
      "\<forall>k u. k \<noteq> j \<longrightarrow> open_alerts org k u d2 = open_alerts org k u d1"
    using clear_effect [OF t1] by metis
  have "fst (set_tasks env org j ts add db) = d2"
    using Some d1(1) d2(1) by (simp add: set_tasks_def wbind_def get_work_order_def wdo_def wret_def Let_def ms_def)
  moreover have "open_alerts org k u ?d = open_alerts org k u db" for k u by (simp add: open_alerts_def replace_tasks_def)
  moreover have "any_blocked org k d2 \<longleftrightarrow> (if k = j then list_ex (\<lambda>t. tsk_status t = ''blocked'') ms else any_blocked org k db)" for k
    using ms d1(3) d2(3) by (auto simp: any_blocked_def replace_tasks_def list_ex_iff)
  moreover have "order_title org i d2 = order_title org i db"
    using d1(2) d2(2) by (simp add: order_title_def wo_row_def replace_tasks_def)
  moreover have "order_title org j db = Some (blocked_title wo)" using Some by (simp add: order_title_def)
  ultimately show ?thesis
    using d1(4,5) d2(4,5) by (cases "i = j") (auto simp: alert_rel_def alert_ok_def)
qed

lemma set_upd_first: "old \<in> set xs \<Longrightarrow> \<exists>ys zs. xs = ys @ old # zs \<and> upd_first old new xs = ys @ new # zs"
proof (induction xs)
  case (Cons x xs)
  show ?case
  proof (cases "x = old")
    case True
    then show ?thesis by (intro exI [of _ "[]"] exI [of _ xs]) simp
  next
    case False
    then obtain ys zs where "xs = ys @ old # zs" "upd_first old new xs = ys @ new # zs" using Cons by auto
    then show ?thesis using False by (intro exI [of _ "x # ys"] exI [of _ zs]) simp
  qed
qed simp

text \<open>Moving a step keeps a blocked step of the order in place, unless it is the one that moved.\<close>

lemma any_blocked_move:
  assumes "target \<in> set (w_tasks db)" "tsk_wo target = j" "tsk_org target = org"
  shows "(s = ''blocked'' \<longrightarrow> any_blocked org j (set_task_status target s db))
    \<and> (tsk_status target \<noteq> ''blocked'' \<and> any_blocked org j db \<longrightarrow> any_blocked org j (set_task_status target s db))
    \<and> (k \<noteq> j \<longrightarrow> any_blocked org k (set_task_status target s db) = any_blocked org k db)"
proof -
  obtain ys zs where u: "w_tasks db = ys @ target # zs"
      "upd_first target (target\<lparr>tsk_status := s\<rparr>) (w_tasks db) = ys @ target\<lparr>tsk_status := s\<rparr> # zs"
    using set_upd_first [OF assms(1)] by metis
  show ?thesis using assms u by (auto simp: any_blocked_def set_task_status_def)
qed

lemma order_tasks_blocked: "list_ex (\<lambda>t. tsk_status t = ''blocked'') (order_tasks org j db) \<longleftrightarrow> any_blocked org j db"
  by (auto simp: order_tasks_def any_blocked_def list_ex_iff)

definition moved :: "wenv \<Rightarrow> nat \<Rightarrow> nat \<Rightarrow> wo_task \<Rightarrow> string \<Rightarrow> agent option \<Rightarrow> nat option \<Rightarrow> string option \<Rightarrow> wdb \<Rightarrow> wdb" where
  "moved env org j target s agent run evidence db = fst (after_task_move env org j target s agent run evidence (set_task_status target s db))"

lemma moved_alerts:
  assumes t: "target \<in> set (w_tasks db)" "tsk_wo target = j" "tsk_org target = org" and row: "wo_row org j db \<noteq> None"
  shows "alert_rel org i db (moved env org j target s agent run evidence db)"
proof -
  let ?d = "set_task_status target s db"
  obtain wo where wo: "wo_row org j db = Some wo" using row by auto
  define e where "e = (case evidence of Some said \<Rightarrow> if s = ''done'' \<and> said \<noteq> [] then
        add_wo_entry env org j (map_option agt_id agent) run (Some (case agent of None \<Rightarrow> SYSTEM_LANE | Some a \<Rightarrow> agt_name a))
          (DONE_MARKER @ '' '' @ tsk_key target @ '' '' @ EM_DASH @ '' '' @ said) ?d else ?d | None \<Rightarrow> ?d)"
  have e: "w_orders e = w_orders db" "w_tasks e = w_tasks ?d" "w_notices e = w_notices db"
    by (auto simp: e_def add_wo_entry_def set_task_status_def split: option.splits)
  have same: "open_alerts org k u e = open_alerts org k u db" "any_blocked org k e = any_blocked org k ?d"
      "order_title org k e = order_title org k db" for k u
    using e by (simp_all add: open_alerts_def any_blocked_def order_title_def wo_row_def)
  note b = any_blocked_move [OF t, of s]
  have te: "order_title org j e = Some (blocked_title wo)" using wo same by (simp add: order_title_def)
  have m: "moved env org j target s agent run evidence db =
      (if s = ''blocked'' \<and> tsk_status target \<noteq> ''blocked'' then fst (report_blocked env org j (target\<lparr>tsk_status := s\<rparr>) agent run e)
       else if tsk_status target = ''blocked'' \<and> s \<noteq> ''blocked'' then fst (clear_blocked_alert org j (order_tasks org j e) e) else e)"
    by (auto simp: moved_def after_task_move_def wbind_def wdo_def e_def split: option.splits)
  consider (block) "s = ''blocked''" "tsk_status target \<noteq> ''blocked''" | (unblock) "s \<noteq> ''blocked''" "tsk_status target = ''blocked''"
    | (other) "s = ''blocked'' \<longleftrightarrow> tsk_status target = ''blocked''" by blast
  then show ?thesis
  proof cases
    case block
    then obtain d where "moved env org j target s agent run evidence db = d" "w_orders d = w_orders e" "w_tasks d = w_tasks e"
        "open_alerts org j (blocked_title wo) d = max 1 (open_alerts org j (blocked_title wo) e)"
        "\<forall>k u. k \<noteq> j \<longrightarrow> open_alerts org k u d = open_alerts org k u e"
      using report_blocked_effect [OF te, of env "target\<lparr>tsk_status := s\<rparr>" agent run] m by auto
    then show ?thesis
      using b block same wo e by (cases "i = j") (auto simp: alert_rel_def alert_ok_def order_title_def wo_row_def any_blocked_def)
  next
    case unblock
    then obtain d where "moved env org j target s agent run evidence db = d" "w_orders d = w_orders e" "w_tasks d = w_tasks e"
        "open_alerts org j (blocked_title wo) d = (if any_blocked org j e then open_alerts org j (blocked_title wo) e else 0)"
        "\<forall>k u. k \<noteq> j \<longrightarrow> open_alerts org k u d = open_alerts org k u e"
      using clear_effect [OF te, of "order_tasks org j e"] m by (auto simp: order_tasks_blocked)
    then show ?thesis
      using b unblock same wo e by (cases "i = j") (auto simp: alert_rel_def alert_ok_def order_title_def wo_row_def any_blocked_def)
  next
    case other
    then have "moved env org j target s agent run evidence db = e" using m by auto
    then show ?thesis using b other same by (cases "i = j") (auto simp: alert_rel_def alert_ok_def)
  qed
qed

lemma gates_keep:
  assumes "(if s = ''done'' then wbind (require_evidence org j target ts evidence) (\<lambda>_. gate_acceptance env org j target ts) else wret ()) db = (d, r)"
  shows "alert_rel org i db d \<and> w_tasks d = w_tasks db"
proof -
  let ?m = "if s = ''done'' then wbind (require_evidence org j target ts evidence) (\<lambda>_. gate_acceptance env org j target ts) else wret ()"
  have "keeps (alert_rel org i) ?m" "keeps (\<lambda>a b. w_tasks b = w_tasks a) ?m"
    by (auto intro: alerts.keeps_bind alerts.keeps_require alerts.keeps_gate alerts.keeps_ret
        tasks_kept.keeps_bind tasks_kept.keeps_require tasks_kept.keeps_gate tasks_kept.keeps_ret)
  then show ?thesis using assms by (auto simp: keeps_def dest!: spec [of _ db])
qed

lemma update_task_alerts: "alert_rel org i db (fst (update_task_status env org j key s agent run evidence db))"
proof (cases "s \<in> set TASK_STATUSES \<and> wo_row org j db \<noteq> None")
  case False
  then show ?thesis
    by (auto simp: update_task_status_def wraise_def wbind_def get_work_order_def alerts.reflexive)
next
  case True
  let ?ts = "order_tasks org j db"
  let ?gates = "\<lambda>target. if s = ''done'' then wbind (require_evidence org j target ?ts evidence)
    (\<lambda>_. gate_acceptance env org j target ?ts) else wret ()"
  show ?thesis
  proof (cases "find (\<lambda>t. lower (tsk_key t) = lower (strip key)) ?ts")
    case None
    then show ?thesis using True
      by (auto simp: update_task_status_def wbind_def [of "get_work_order _ _"] get_work_order_def alerts.reflexive Let_def)
  next
    case (Some target)
    then have t: "target \<in> set (w_tasks db)" "tsk_wo target = j" "tsk_org target = org"
      by (auto simp: order_tasks_def dest!: find_SomeD)
    obtain d r where g: "?gates target db = (d, r)" by fastforce
    note k = gates_keep [OF g, of i] and kj = gates_keep [OF g, of j]
    have row: "wo_row org j d \<noteq> None" using True kj by (auto simp: alert_rel_def order_title_def)
    have "fst (update_task_status env org j key s agent run evidence db)
        = (if agent \<noteq> None \<and> tsk_status target = s then db else fst (wbind (?gates target) (\<lambda>_.
            wbind (wdo (set_task_status target s)) (\<lambda>_. wbind (after_task_move env org j target s agent run evidence)
              (\<lambda>_. wret (target\<lparr>tsk_status := s\<rparr>)))) db))"
      using True Some by (auto simp: update_task_status_def wbind_def [of "get_work_order _ _"] get_work_order_def Let_def)
    also have "\<dots> = (if agent \<noteq> None \<and> tsk_status target = s then db
        else if isl r then d else moved env org j target s agent run evidence d)"
      unfolding fst_wbind [of "?gates target", OF g] by (auto simp: fst_wbind_ret moved_def fst_wbind_do split: sum.splits)
    finally have "fst (update_task_status env org j key s agent run evidence db) = \<dots>" .
    moreover have "alert_rel org i d (moved env org j target s agent run evidence d)"
      by (rule moved_alerts) (use t k row in auto)
    ultimately show ?thesis using k alerts.transitive alerts.reflexive by auto
  qed
qed

lemma step_alerts: "alert_rel org i db (fst (wo_step env org x db))"
proof (cases "task_op x")
  case False
  then show ?thesis using alerts.keeps_no_task_op [of x] by (simp add: keeps_def)
next
  case True
  then show ?thesis
    using set_tasks_alerts update_task_alerts
    by (cases x) (auto simp: task_op_def unit_of_def wbind_def wret_def split: prod.splits sum.splits; metis fst_conv)+
qed

lemma run_ops_alerts: "alert_rel org i db (wo_run_ops env org ops db)"
proof (induction ops arbitrary: db)
  case (Cons x xs)
  show ?case using alerts.transitive [OF step_alerts Cons] by simp
qed (simp add: alerts.reflexive)

text \<open>
  C13. A person is told about blocked steps once, and not any more when nothing is blocked:
  whatever calls follow, an order keeps its title, never has more than one open blocked
  alert, and one only while one of its steps is blocked.
\<close>

theorem blocked_alert_invariant:
  assumes "wo_row org i db = Some wo" and "alert_ok org i (blocked_title wo) db"
  shows "\<exists>wo'. wo_row org i (wo_run_ops env org ops db) = Some wo' \<and> blocked_title wo' = blocked_title wo
    \<and> open_alerts org i (blocked_title wo) (wo_run_ops env org ops db) \<le> 1
    \<and> (open_alerts org i (blocked_title wo) (wo_run_ops env org ops db) = 1 \<longrightarrow> any_blocked org i (wo_run_ops env org ops db))"
  using run_ops_alerts [of org i db env ops] assms
  by (auto simp: alert_rel_def order_title_def alert_ok_def)

theorem blocked_alert_invariant_witness:
  "open_alerts 1 5 (blocked_title order0)
     (wo_run_ops wenv0 1 [UpdateTask 5 ''T1'' ''blocked'' None None None, UpdateTask 5 ''T2'' ''blocked'' None None None] steps0) \<le> 1"
proof -
  have "wo_row 1 5 steps0 = Some order0" "alert_ok 1 5 (blocked_title order0) steps0"
    by (simp_all add: steps0_def wdb_of_def wo_row_def order0_def alert_ok_def open_alerts_def)
  from blocked_alert_invariant [OF this] show ?thesis by blast
qed

subsection \<open>The pages of the diary\<close>

text \<open>
  A client that starts at the newest page and asks for the page before its oldest entry, until
  no page is left. The fuel bounds the number of pages.
\<close>

fun walk_back :: "nat \<Rightarrow> nat \<Rightarrow> nat \<Rightarrow> nat \<Rightarrow> nat option \<Rightarrow> wdb \<Rightarrow> wo_entry list option" where
  "walk_back 0 org i limit before db = None"
| "walk_back (Suc fuel) org i limit before db =
     (case snd (list_entries_page org i limit before db) of
        Inl _ \<Rightarrow> None
      | Inr page \<Rightarrow>
          if pg_has_more page
          then map_option (\<lambda>older. older @ pg_entries page) (walk_back fuel org i limit (Some (ent_id (hd (pg_entries page)))) db)
          else Some (pg_entries page))"

definition diary :: "nat \<Rightarrow> nat \<Rightarrow> wdb \<Rightarrow> wo_entry list" where
  "diary org i db = sort_key entry_key (filter (\<lambda>e. ent_wo e = i \<and> ent_org e = org) (w_entries db))"

lemma filter_less_take:
  fixes f :: "'a \<Rightarrow> 'b::linorder"
  assumes "sorted_wrt (\<lambda>x y. f x < f y) xs" "n < length xs"
  shows "filter (\<lambda>x. f x < f (xs ! n)) xs = take n xs"
proof -
  have "f x < f (xs ! n)" if x: "x \<in> set (take n xs)" for x
  proof -
    obtain m where "m < n" "x = xs ! m" using x assms(2) by (auto simp: in_set_conv_nth)
    then show ?thesis using assms by (simp add: sorted_wrt_iff_nth_less)
  qed
  moreover have "\<not> f x < f (xs ! n)" if x: "x \<in> set (drop n xs)" for x
  proof -
    obtain m where m: "n + m < length xs" "x = xs ! (n + m)" using x unfolding in_set_conv_nth by (metis add.commute length_drop less_diff_conv nth_drop order_less_imp_le assms(2))
    have "f (xs ! n) \<le> f x" using assms(1) m by (cases m) (simp_all add: sorted_wrt_iff_nth_less less_imp_le)
    then show ?thesis by simp
  qed
  ultimately have "filter (\<lambda>x. f x < f (xs ! n)) (take n xs @ drop n xs) = take n xs"
    unfolding filter_append by (simp add: filter_empty_conv)
  then show ?thesis by simp
qed

lemma diary_strict:
  assumes "distinct (map ent_id (filter (\<lambda>e. ent_wo e = i \<and> ent_org e = org) (w_entries db)))"
  shows "sorted_wrt (\<lambda>x y. entry_key x < entry_key y) (diary org i db)"
proof -
  let ?xs = "filter (\<lambda>e. ent_wo e = i \<and> ent_org e = org) (w_entries db)"
  have "distinct (map entry_key ?xs)" using assms by (auto simp: distinct_map inj_on_def entry_key_def)
  then have "distinct (map entry_key (diary org i db))"
    unfolding distinct_map diary_def by simp
  moreover have "sorted (map entry_key (diary org i db))" by (simp add: diary_def)
  ultimately have "sorted_wrt (<) (map entry_key (diary org i db))" by (simp add: strict_sorted_iff)
  then show ?thesis by (simp add: sorted_wrt_map)
qed

lemma entries_before_all: "entries_before org i m None db = take m (rev (diary org i db))"
  by (simp add: entries_before_def diary_def)

lemma entries_before_nth:
  assumes "distinct (map ent_id (filter (\<lambda>e. ent_wo e = i \<and> ent_org e = org) (w_entries db)))" "n < length (diary org i db)"
  shows "entries_before org i m (Some (entry_key (diary org i db ! n))) db = take m (rev (take n (diary org i db)))"
proof -
  let ?k = "entry_key (diary org i db ! n)"
  have "filter (\<lambda>e. ent_wo e = i \<and> ent_org e = org \<and> entry_key e < ?k) (w_entries db)
      = filter (\<lambda>e. entry_key e < ?k) (filter (\<lambda>e. ent_wo e = i \<and> ent_org e = org) (w_entries db))"
    unfolding filter_filter by (rule filter_cong) auto
  then have "entries_before org i m (Some ?k) db = take m (rev (filter (\<lambda>e. entry_key e < ?k) (diary org i db)))"
    by (simp add: entries_before_def diary_def filter_sort)
  then show ?thesis using filter_less_take [OF diary_strict [OF assms(1)] assms(2)] by simp
qed

lemma get_entry_nth:
  assumes "distinct (map ent_id (filter (\<lambda>e. ent_wo e = i \<and> ent_org e = org) (w_entries db)))" "n < length (diary org i db)"
  shows "get_entry org i (ent_id (diary org i db ! n)) db = Some (diary org i db ! n)"
proof -
  let ?e = "diary org i db ! n" and ?xs = "filter (\<lambda>e. ent_wo e = i \<and> ent_org e = org) (w_entries db)"
  have e: "?e \<in> set ?xs" using nth_mem [OF assms(2)] by (simp add: diary_def)
  have "get_entry org i (ent_id ?e) db \<noteq> None" using e by (auto simp: get_entry_def find_None_iff)
  then obtain a where a: "get_entry org i (ent_id ?e) db = Some a" by auto
  then have "a \<in> set ?xs" "ent_id a = ent_id ?e" by (auto simp: get_entry_def dest!: find_SomeD)
  then have "a = ?e" using e assms(1) unfolding distinct_map inj_on_def by blast
  then show ?thesis using a by simp
qed

lemma page_of_prefix: "page_of m (take (m + 1) (rev xs)) = \<lparr>pg_entries = drop (length xs - m) xs, pg_has_more = m < length xs\<rparr>"
proof -
  have "take m (take (m + 1) (rev xs)) = take m (rev xs)" by (simp add: min_def)
  then show ?thesis by (simp add: page_of_def rev_take)
qed

lemma walk_prefix:
  assumes ids: "distinct (map ent_id (filter (\<lambda>e. ent_wo e = i \<and> ent_org e = org) (w_entries db)))"
    and row: "wo_row org i db \<noteq> None" and "0 < limit" "n < fuel" "n \<le> length (diary org i db)"
    and before: "if n = length (diary org i db) then before = None else before = Some (ent_id (diary org i db ! n))"
  shows "walk_back fuel org i limit before db = Some (take n (diary org i db))"
  using assms(4-6)
proof (induction n arbitrary: fuel before rule: less_induct)
  case (less n)
  let ?d = "diary org i db"
  obtain fuel' where f: "fuel = Suc fuel'" using less.prems(1) by (cases fuel) auto
  obtain wo where wo: "wo_row org i db = Some wo" using row by auto
  have "snd (list_entries_page org i limit before db) = Inr (page_of limit (take (limit + 1) (rev (take n ?d))))"
    using less.prems wo get_entry_nth [OF ids, of n] entries_before_nth [OF ids, of n "limit + 1"] entries_before_all [of org i "limit + 1" db]
    by (cases "n = length ?d") (simp_all add: list_entries_page_def wbind_def get_work_order_def)
  then have page: "snd (list_entries_page org i limit before db)
      = Inr \<lparr>pg_entries = drop (n - limit) (take n ?d), pg_has_more = limit < n\<rparr>"
    unfolding page_of_prefix using less.prems(2) by simp
  show ?case
  proof (cases "limit < n")
    case True
    have "walk_back fuel' org i limit (Some (ent_id (hd (drop (n - limit) (take n ?d))))) db = Some (take (n - limit) ?d)"
      by (rule less.IH) (use True less.prems f \<open>0 < limit\<close> in \<open>auto simp: hd_drop_conv_nth\<close>)
    moreover have "take (n - limit) ?d @ drop (n - limit) (take n ?d) = take n ?d"
      using append_take_drop_id [of "n - limit" "take n ?d"] by (simp add: min_def)
    ultimately show ?thesis using page f True by simp
  next
    case False
    then show ?thesis using page f by simp
  qed
qed

text \<open>
  Paging back through the diary from the newest entry gives every entry of the order
  exactly once, in the order of time and id: no entry is skipped or repeated at the edge of
  a page, also among entries with the same time, whatever the page size.
\<close>

theorem diary_pages:
  assumes "wo_row org i db \<noteq> None" "0 < limit"
    and "distinct (map ent_id (filter (\<lambda>e. ent_wo e = i \<and> ent_org e = org) (w_entries db)))"
  shows "walk_back (Suc (length (w_entries db))) org i limit None db = Some (diary org i db)"
proof -
  have "length (diary org i db) \<le> length (w_entries db)" by (simp add: diary_def)
  then show ?thesis using walk_prefix [OF assms(3,1,2), of "length (diary org i db)"] by (simp del: walk_back.simps)
qed

text \<open>The witness: three entries of the same instant, two to a page.\<close>

definition entry0 :: "nat \<Rightarrow> wo_entry" where
  "entry0 n = \<lparr>ent_id = n, ent_created = 7, ent_wo = 5, ent_org = 1, ent_agent = None, ent_run = None, ent_role = None, ent_text = ''note''\<rparr>"

definition diary0 :: wdb where
  "diary0 = (wdb_of order0 [])\<lparr>w_entries := [entry0 2, entry0 3, entry0 1]\<rparr>"

theorem diary_pages_witness: "walk_back 4 1 5 2 None diary0 = Some [entry0 1, entry0 2, entry0 3]"
proof -
  have "wo_row 1 5 diary0 \<noteq> None" "(0::nat) < 2"
    "distinct (map ent_id (filter (\<lambda>e. ent_wo e = 5 \<and> ent_org e = 1) (w_entries diary0)))"
    by (simp_all add: diary0_def wdb_of_def order0_def wo_row_def entry0_def)
  from diary_pages [OF this] show ?thesis
    by (simp add: diary0_def wdb_of_def entry0_def diary_def entry_key_def eval_nat_numeral)
qed

subsection \<open>Detaching an artifact\<close>

text \<open>
  The order in the call is only looked up: the artifact is found by its own id in the organization,
  so a call on one order unlinks an artifact of another.
\<close>

definition artifact0 :: "nat \<Rightarrow> wo_artifact" where
  "artifact0 i = \<lparr>art_id = 9, art_org = 1, art_wo = i, art_kind = ''output'', art_document = None, art_filename = None, art_mime = None,
     art_size = None\<rparr>"

theorem detach_ignores_order:
  "detach_artifact 1 5 9 ((wdb_of order0 [])\<lparr>w_artifacts := [artifact0 6]\<rparr>) = (wdb_of order0 [], Inr ())"
  by (simp add: detach_artifact_def wbind_def get_work_order_def wo_row_def wdb_of_def order0_def artifact0_def)

end
