(* ===== verification/Permission_Config.thy ===== *)
theory Permission_Config
  imports Access_Mask
begin

section \<open>Permission dimensions, configurations and the masks of a member\<close>

text \<open>
  The permission dimensions of an organization (\<open>repositories/dimension.py\<close>, with the number an
  organization gets in \<open>repositories/org.py\<close>) and the translation of permission configurations and
  of memberships into access masks (\<open>services/permission_config.py\<close>). Tables are lists of rows;
  a primary key is looked up with \<open>find\<close>, and a query by name raises when it finds two rows. A UUID is
  its canonical text. The theorems show that the numbers stay distinct and below the wildcard, and that a
  configuration admits exactly the members who hold every dimension one of its entries names.
\<close>

type_synonym uuid = string
type_synonym perm_entry = "(string, string) dict"
type_synonym perm_config = "perm_entry list"

subsection \<open>Rows\<close>

datatype dim_kind = Region | Department | Role | Group

record dimension =
  dim_id :: uuid
  dim_org :: uuid
  dim_name :: string
  dim_description :: "string option"
  dim_number :: int

record org_row =
  og_id :: uuid
  og_name :: string
  og_number :: int

record dims =
  d_orgs :: "org_row list"
  d_regions :: "dimension list"
  d_departments :: "dimension list"
  d_roles :: "dimension list"
  d_groups :: "dimension list"

datatype access_error =
    MaskError mask_error
  | MultipleResultsFound
  | TooManyAccessMasks nat
  | DimensionLimitReached dim_kind int

definition lift_mask :: "(mask_error, 'a) result \<Rightarrow> (access_error, 'a) result" where
  "lift_mask r = (case r of Inl e \<Rightarrow> Inl (MaskError e) | Inr x \<Rightarrow> Inr x)"

lemma lift_mask_eq_Inr [simp]: "lift_mask r = Inr x \<longleftrightarrow> r = Inr x"
  by (simp add: lift_mask_def split: sum.splits)

fun scalar_one_or_none :: "'a list \<Rightarrow> (access_error, 'a option) result" where
  "scalar_one_or_none [] = Inr None"
| "scalar_one_or_none [x] = Inr (Some x)"
| "scalar_one_or_none _ = Inl MultipleResultsFound"

lemma scalar_one_or_none_Some [simp]: "scalar_one_or_none xs = Inr (Some x) \<longleftrightarrow> xs = [x]"
  by (cases xs rule: scalar_one_or_none.cases) auto

lemma scalar_one_or_none_None [simp]: "scalar_one_or_none xs = Inr None \<longleftrightarrow> xs = []"
  by (cases xs rule: scalar_one_or_none.cases) auto

fun dim_table :: "dim_kind \<Rightarrow> dims \<Rightarrow> dimension list" where
  "dim_table Region db = d_regions db"
| "dim_table Department db = d_departments db"
| "dim_table Role db = d_roles db"
| "dim_table Group db = d_groups db"

fun set_dim_table :: "dim_kind \<Rightarrow> dimension list \<Rightarrow> dims \<Rightarrow> dims" where
  "set_dim_table Region ds db = db\<lparr>d_regions := ds\<rparr>"
| "set_dim_table Department ds db = db\<lparr>d_departments := ds\<rparr>"
| "set_dim_table Role ds db = db\<lparr>d_roles := ds\<rparr>"
| "set_dim_table Group ds db = db\<lparr>d_groups := ds\<rparr>"

lemma dim_table_set [simp]: "dim_table k (set_dim_table k' ds db) = (if k = k' then ds else dim_table k db)"
  by (cases k; cases k') auto

lemma d_orgs_set_dim_table [simp]: "d_orgs (set_dim_table k ds db) = d_orgs db"
  by (cases k) auto

fun wildcard_of :: "dim_kind \<Rightarrow> int" where
  "wildcard_of Region = MAX_REGION"
| "wildcard_of Role = MAX_ROLE"
| "wildcard_of Group = MAX_GROUP"
| "wildcard_of Department = MAX_DEPT"

subsection \<open>Dimensions of an organization\<close>

text \<open>The first row of a descending sort is the greatest number; no row and the number 0 both give 0.\<close>

definition last_number :: "dim_kind \<Rightarrow> uuid \<Rightarrow> dims \<Rightarrow> int" where
  "last_number k org db = (let ns = map dim_number (filter (\<lambda>d. dim_org d = org) (dim_table k db)) in
     if ns = [] then 0 else Max (set ns))"

definition dimension_create ::
  "uuid \<Rightarrow> dim_kind \<Rightarrow> uuid \<Rightarrow> string \<Rightarrow> string option \<Rightarrow> dims \<Rightarrow> (access_error, dims \<times> dimension) result" where
  "dimension_create new_id k org name description db =
     (let n = last_number k org db; highest = wildcard_of k - 1 in
      if n + 1 > highest then Inl (DimensionLimitReached k highest)
      else let d = \<lparr>dim_id = new_id, dim_org = org, dim_name = name, dim_description = description, dim_number = n + 1\<rparr>
        in Inr (set_dim_table k (dim_table k db @ [d]) db, d))"

definition dimension_get :: "dim_kind \<Rightarrow> uuid \<Rightarrow> uuid \<Rightarrow> dims \<Rightarrow> dimension option" where
  "dimension_get k org i db = find (\<lambda>d. dim_id d = i \<and> dim_org d = org) (dim_table k db)"

definition dimension_update ::
  "dim_kind \<Rightarrow> uuid \<Rightarrow> uuid \<Rightarrow> string option \<Rightarrow> string option \<Rightarrow> dims \<Rightarrow> dims \<times> dimension option" where
  "dimension_update k org i name description db =
     (case dimension_get k org i db of None \<Rightarrow> (db, None)
      | Some d \<Rightarrow> let d' = d\<lparr>dim_name := (case name of None \<Rightarrow> dim_name d | Some s \<Rightarrow> s),
            dim_description := (case description of None \<Rightarrow> dim_description d | Some s \<Rightarrow> Some s)\<rparr>
        in (set_dim_table k (upd_where (\<lambda>r. dim_id r = i \<and> dim_org r = org) (\<lambda>_. d') (dim_table k db)) db, Some d'))"

definition dimension_delete :: "dim_kind \<Rightarrow> uuid \<Rightarrow> uuid \<Rightarrow> dims \<Rightarrow> dims \<times> bool" where
  "dimension_delete k org i db =
     (case dimension_get k org i db of None \<Rightarrow> (db, False)
      | Some d \<Rightarrow> (set_dim_table k (filter (\<lambda>r. \<not> (dim_id r = i \<and> dim_org r = org)) (dim_table k db)) db, True))"

definition org_create :: "uuid \<Rightarrow> string \<Rightarrow> dims \<Rightarrow> dims \<times> org_row" where
  "org_create new_id name db =
     (let n = (if d_orgs db = [] then 0 else Max (og_number ` set (d_orgs db)));
          o' = \<lparr>og_id = new_id, og_name = name, og_number = n + 1\<rparr>
      in (db\<lparr>d_orgs := d_orgs db @ [o']\<rparr>, o'))"

text \<open>Deleting an organization deletes its dimensions with it (\<open>ON DELETE CASCADE\<close>).\<close>

definition org_delete :: "uuid \<Rightarrow> dims \<Rightarrow> dims \<times> bool" where
  "org_delete org db = (case find (\<lambda>r. og_id r = org) (d_orgs db) of None \<Rightarrow> (db, False)
     | Some _ \<Rightarrow> (\<lparr>d_orgs = filter (\<lambda>r. og_id r \<noteq> org) (d_orgs db),
         d_regions = filter (\<lambda>d. dim_org d \<noteq> org) (d_regions db),
         d_departments = filter (\<lambda>d. dim_org d \<noteq> org) (d_departments db),
         d_roles = filter (\<lambda>d. dim_org d \<noteq> org) (d_roles db),
         d_groups = filter (\<lambda>d. dim_org d \<noteq> org) (d_groups db)\<rparr>, True))"

subsection \<open>From a configuration to masks\<close>

definition org_number :: "uuid \<Rightarrow> dims \<Rightarrow> int option" where
  "org_number org db = map_option og_number (find (\<lambda>r. og_id r = org) (d_orgs db))"

definition resolve_dimension_number :: "dims \<Rightarrow> dim_kind \<Rightarrow> uuid \<Rightarrow> string \<Rightarrow> (access_error, int option) result" where
  "resolve_dimension_number db k org name =
     scalar_one_or_none (map dim_number (filter (\<lambda>d. dim_org d = org \<and> dim_name d = name) (dim_table k db)))"

fun dim_key :: "dim_kind \<Rightarrow> string" where
  "dim_key Region = ''region''"
| "dim_key Department = ''department''"
| "dim_key Role = ''role''"
| "dim_key Group = ''group''"

definition entry_number :: "dims \<Rightarrow> uuid \<Rightarrow> perm_entry \<Rightarrow> dim_kind \<Rightarrow> (access_error, int option) result" where
  "entry_number db org entry k = (case dget entry (dim_key k) of
       None \<Rightarrow> Inr (Some (wildcard_of k))
     | Some name \<Rightarrow> resolve_dimension_number db k org name)"

definition entry_mask :: "dims \<Rightarrow> uuid \<Rightarrow> int \<Rightarrow> perm_entry \<Rightarrow> (access_error, int option) result" where
  "entry_mask db org n entry =
     bind_res (entry_number db org entry Region) (\<lambda>region.
     bind_res (entry_number db org entry Department) (\<lambda>dept.
     bind_res (entry_number db org entry Role) (\<lambda>role.
     bind_res (entry_number db org entry Group) (\<lambda>group.
       case (region, dept, role, group) of
         (Some rg, Some dp, Some ro, Some gr) \<Rightarrow> bind_res (lift_mask (encode n rg ro gr dp)) (\<lambda>m. Inr (Some m))
       | _ \<Rightarrow> Inr None))))"

definition permission_config_to_masks :: "dims \<Rightarrow> uuid \<Rightarrow> perm_config option \<Rightarrow> (access_error, int list) result" where
  "permission_config_to_masks db org config =
     (case config of None \<Rightarrow> Inr [] | Some [] \<Rightarrow> Inr []
      | Some es \<Rightarrow> (case org_number org db of None \<Rightarrow> Inr []
          | Some n \<Rightarrow> bind_res (map_res (entry_mask db org n) es) (\<lambda>ms. Inr (List.map_filter (\<lambda>m. m) ms))))"

subsection \<open>The masks of a member\<close>

record membership =
  ms_profile :: uuid
  ms_org :: uuid
  ms_is_org_admin :: bool
  ms_regions :: "dimension list"
  ms_departments :: "dimension list"
  ms_roles :: "dimension list"
  ms_groups :: "dimension list"

definition numbers_or_zero :: "dimension list \<Rightarrow> int list" where
  "numbers_or_zero ds = (if ds = [] then [0] else map dim_number ds)"

definition member_base_masks :: "membership \<Rightarrow> int \<Rightarrow> (access_error, int list) result" where
  "member_base_masks m n = lift_mask (map_res (\<lambda>(rg, dp, ro, gr). encode n rg ro gr dp)
     (List.product (numbers_or_zero (ms_regions m)) (List.product (numbers_or_zero (ms_departments m))
       (List.product (numbers_or_zero (ms_roles m)) (numbers_or_zero (ms_groups m))))))"

definition or_zero :: "int list \<Rightarrow> int list" where
  "or_zero xs = (if xs = [] then [0] else xs)"

definition calculate_masks_from_assignments ::
  "int \<Rightarrow> int list \<Rightarrow> int list \<Rightarrow> int list \<Rightarrow> int list \<Rightarrow> (access_error, int list) result" where
  "calculate_masks_from_assignments n regions departments roles groups =
     bind_res (lift_mask (member_masks n (or_zero regions) (or_zero roles) (or_zero groups) (or_zero departments)))
       (\<lambda>masks. if length masks > MAX_ACCESS_KEYS then Inl (TooManyAccessMasks (length masks)) else Inr masks)"

definition calculate_user_masks_from_membership :: "membership \<Rightarrow> int \<Rightarrow> (access_error, int list) result" where
  "calculate_user_masks_from_membership m n = calculate_masks_from_assignments n
     (map dim_number (ms_regions m)) (map dim_number (ms_departments m))
     (map dim_number (ms_roles m)) (map dim_number (ms_groups m))"

subsection \<open>The numbers of the dimensions\<close>

text \<open>
  What the translation relies on: in one table and one organization a number identifies a dimension, and no
  number is 0 (the value of a member without assignment) or the wildcard.
\<close>

definition numbers_ok :: "dim_kind \<Rightarrow> dimension list \<Rightarrow> bool" where
  "numbers_ok k ds \<longleftrightarrow> (\<forall>d \<in> set ds. 1 \<le> dim_number d \<and> dim_number d < wildcard_of k)
     \<and> distinct (map dim_id ds) \<and> distinct (map (\<lambda>d. (dim_org d, dim_number d)) ds)"

definition dims_inv :: "dims \<Rightarrow> bool" where
  "dims_inv db \<longleftrightarrow> (\<forall>k. numbers_ok k (dim_table k db))"

inductive dims_reachable :: "dims \<Rightarrow> bool" where
  empty: "dims_reachable \<lparr>d_orgs = [], d_regions = [], d_departments = [], d_roles = [], d_groups = []\<rparr>"
| create: "dims_reachable db \<Longrightarrow> new_id \<notin> dim_id ` set (dim_table k db) \<Longrightarrow>
    dimension_create new_id k org name description db = Inr (db', d) \<Longrightarrow> dims_reachable db'"
| update: "dims_reachable db \<Longrightarrow> dims_reachable (fst (dimension_update k org i name description db))"
| delete: "dims_reachable db \<Longrightarrow> dims_reachable (fst (dimension_delete k org i db))"
| new_org: "dims_reachable db \<Longrightarrow> dims_reachable (fst (org_create new_id name db))"
| drop_org: "dims_reachable db \<Longrightarrow> dims_reachable (fst (org_delete org db))"

lemma numbers_ok_filter [simp]: "numbers_ok k ds \<Longrightarrow> numbers_ok k (filter p ds)"
  by (auto simp: numbers_ok_def distinct_map_filter)

lemma last_number_ge: "d \<in> set (dim_table k db) \<Longrightarrow> dim_org d = org \<Longrightarrow> dim_number d \<le> last_number k org db"
  unfolding last_number_def Let_def by (auto simp: filter_empty_conv intro!: Max_ge)

lemma last_number_nonneg:
  assumes "numbers_ok k (dim_table k db)"
  shows "0 \<le> last_number k org db"
proof (cases "filter (\<lambda>d. dim_org d = org) (dim_table k db)")
  case (Cons d ds)
  then have "d \<in> set (filter (\<lambda>d. dim_org d = org) (dim_table k db))" by simp
  then have d: "d \<in> set (dim_table k db)" "dim_org d = org" by simp_all
  with assms have "0 \<le> dim_number d" by (auto simp: numbers_ok_def)
  then show ?thesis using last_number_ge [OF d] by linarith
qed (simp add: last_number_def)

lemma numbers_ok_cong:
  assumes "map dim_id ds = map dim_id ds'" and "map (\<lambda>d. (dim_org d, dim_number d)) ds = map (\<lambda>d. (dim_org d, dim_number d)) ds'"
  shows "numbers_ok k ds = numbers_ok k ds'"
proof -
  have "dim_number ` set ds = dim_number ` set ds'"
    using arg_cong [OF assms(2), of "\<lambda>xs. snd ` set xs"] by (simp add: image_image)
  then have "(\<forall>d \<in> set ds. P (dim_number d)) = (\<forall>d \<in> set ds'. P (dim_number d))" for P
    by (metis (no_types, lifting) image_iff)
  from this [of "\<lambda>n. 1 \<le> n \<and> n < wildcard_of k"] show ?thesis using assms by (simp add: numbers_ok_def)
qed

lemma dims_inv_create:
  assumes "dims_inv db" and "new_id \<notin> dim_id ` set (dim_table k db)"
    and "dimension_create new_id k org name description db = Inr (db', d)"
  shows "dims_inv db'"
proof -
  from assms(1) have ok: "numbers_ok k' (dim_table k' db)" for k' by (simp add: dims_inv_def)
  from assms(3) have d: "d = \<lparr>dim_id = new_id, dim_org = org, dim_name = name, dim_description = description,
        dim_number = last_number k org db + 1\<rparr>" and db': "db' = set_dim_table k (dim_table k db @ [d]) db"
    and le: "last_number k org db + 1 < wildcard_of k"
    by (auto simp: dimension_create_def Let_def split: if_splits)
  have "dim_number r < dim_number d" if "r \<in> set (dim_table k db)" "dim_org r = org" for r
    using last_number_ge [OF that] by (simp add: d)
  then have "numbers_ok k (dim_table k db @ [d])"
    using ok [of k] last_number_nonneg [OF ok, of k org] le assms(2)
    by (fastforce simp: numbers_ok_def d)
  then show ?thesis using ok by (simp add: dims_inv_def db')
qed

lemma dims_inv_update: "dims_inv db \<Longrightarrow> dims_inv (fst (dimension_update k org i name description db))"
proof (cases "dimension_get k org i db")
  case (Some d)
  assume inv: "dims_inv db"
  let ?p = "\<lambda>r. dim_id r = i \<and> dim_org r = org"
  from Some have d: "d \<in> set (dim_table k db)" "dim_id d = i" "dim_org d = org"
    by (auto simp: dimension_get_def dest: find_SomeD)
  have only: "r = d" if "r \<in> set (dim_table k db)" "?p r" for r
    using inv d that by (auto simp: dims_inv_def numbers_ok_def distinct_map dest: inj_onD)
  have eq: "map g (upd_where ?p (\<lambda>_. d\<lparr>dim_name := a, dim_description := b\<rparr>) (dim_table k db)) = map g (dim_table k db)"
    if "g (d\<lparr>dim_name := a, dim_description := b\<rparr>) = g d" for g :: "dimension \<Rightarrow> 'g" and a b
    using that only by (auto simp: upd_where_def)
  have "numbers_ok k (upd_where ?p (\<lambda>_. d\<lparr>dim_name := a, dim_description := b\<rparr>) (dim_table k db))" for a b
    using inv unfolding dims_inv_def by (subst numbers_ok_cong [where ds' = "dim_table k db"]) (auto intro!: eq)
  then show ?thesis using inv Some by (simp add: dims_inv_def dimension_update_def Let_def)
qed (simp add: dimension_update_def)

lemma dims_inv_reachable: "dims_reachable db \<Longrightarrow> dims_inv db"
proof (induction rule: dims_reachable.induct)
  case empty
  have "numbers_ok k []" for k by (simp add: numbers_ok_def)
  moreover have "dim_table k \<lparr>d_orgs = [], d_regions = [], d_departments = [], d_roles = [], d_groups = []\<rparr> = []" for k
    by (cases k) auto
  ultimately show ?case by (simp add: dims_inv_def)
next
  case (create db new_id k org name description db' d)
  then show ?case using dims_inv_create by blast
next
  case (update db k org i name description)
  then show ?case using dims_inv_update by blast
next
  case (delete db k org i)
  then show ?case by (auto simp: dims_inv_def dimension_delete_def split: option.splits)
next
  case (new_org db new_id name)
  have "dim_table k (fst (org_create new_id name db)) = dim_table k db" for k
    by (cases k) (auto simp: org_create_def Let_def)
  with new_org show ?case by (simp add: dims_inv_def)
next
  case (drop_org db org)
  have "\<exists>p. dim_table k (fst (org_delete org db)) = filter p (dim_table k db)" for k
    by (cases "find (\<lambda>r. og_id r = org) (d_orgs db)"; cases k)
      (auto simp: org_delete_def intro: exI [of _ "\<lambda>_. True"])
  then show ?case using drop_org.IH by (metis dims_inv_def numbers_ok_filter)
qed

subsection \<open>Who a configuration admits\<close>

fun held :: "dim_kind \<Rightarrow> membership \<Rightarrow> dimension list" where
  "held Region m = ms_regions m"
| "held Department m = ms_departments m"
| "held Role m = ms_roles m"
| "held Group m = ms_groups m"

definition member_ok :: "dims \<Rightarrow> uuid \<Rightarrow> membership \<Rightarrow> bool" where
  "member_ok db org m \<longleftrightarrow> (\<forall>k. \<forall>d \<in> set (held k m). d \<in> set (dim_table k db) \<and> dim_org d = org)"

definition satisfies :: "membership \<Rightarrow> perm_entry \<Rightarrow> bool" where
  "satisfies m entry \<longleftrightarrow> (\<forall>k name. dget entry (dim_key k) = Some name \<longrightarrow> name \<in> dim_name ` set (held k m))"

lemma all_dim_kind: "(\<forall>k. P k) \<longleftrightarrow> P Region \<and> P Department \<and> P Role \<and> P Group"
  by (metis dim_kind.exhaust)

lemma encode_Inr:
  "encode og rg ro gr dp = Inr m \<Longrightarrow>
     decode m = \<lparr>dm_org = og, dm_region = rg, dm_role = ro, dm_group = gr, dm_dept = dp\<rparr> \<and> is_mask32 m"
  using encode_rec_Inr_iff [of "\<lparr>dm_org = og, dm_region = rg, dm_role = ro, dm_group = gr, dm_dept = dp\<rparr>" m]
  by (auto simp: encode_rec_def decode_radix radix_bounds)

text \<open>A number an entry resolves to is held exactly when the named dimension is.\<close>

lemma entry_number_held:
  assumes inv: "dims_inv db" and mem: "member_ok db org m" and x: "entry_number db org entry k = Inr (Some x)"
  shows "x \<in> set (or_zero (map dim_number (held k m))) \<or> x = wildcard_of k \<longleftrightarrow>
    (\<forall>name. dget entry (dim_key k) = Some name \<longrightarrow> name \<in> dim_name ` set (held k m))"
proof (cases "dget entry (dim_key k)")
  case None
  with x show ?thesis by (simp add: entry_number_def)
next
  case (Some name)
  let ?hit = "\<lambda>d. dim_org d = org \<and> dim_name d = name"
  from x Some have "map dim_number (filter ?hit (dim_table k db)) = [x]"
    by (simp add: entry_number_def resolve_dimension_number_def)
  then obtain d where f: "filter ?hit (dim_table k db) = [d]" and xd: "x = dim_number d" by auto
  then have "d \<in> set (filter ?hit (dim_table k db))" by simp
  then have d: "d \<in> set (dim_table k db)" "dim_org d = org" "dim_name d = name" by simp_all
  from inv have ok: "numbers_ok k (dim_table k db)" by (simp add: dims_inv_def)
  with d xd have range: "1 \<le> x" "x < wildcard_of k" by (auto simp: numbers_ok_def)
  from ok have inj: "inj_on (\<lambda>d. (dim_org d, dim_number d)) (set (dim_table k db))"
    by (simp add: numbers_ok_def distinct_map)
  from mem have sub: "h \<in> set (dim_table k db)" "dim_org h = org" if "h \<in> set (held k m)" for h
    using that by (auto simp: member_ok_def)
  have num: "x = dim_number h \<longleftrightarrow> h = d" if "h \<in> set (held k m)" for h
  proof
    assume "x = dim_number h"
    then have "(dim_org h, dim_number h) = (dim_org d, dim_number d)" using sub [OF that] d xd by simp
    from inj_onD [OF inj this] show "h = d" using sub(1) [OF that] d(1) by blast
  qed (simp add: xd)
  have nam: "dim_name h = name \<longleftrightarrow> h = d" if "h \<in> set (held k m)" for h
  proof
    assume "dim_name h = name"
    then have "h \<in> set (filter ?hit (dim_table k db))" using sub [OF that] by simp
    then show "h = d" by (simp add: f)
  qed (use d in simp)
  have "x \<in> set (or_zero (map dim_number (held k m))) \<longleftrightarrow> x \<in> dim_number ` set (held k m)"
    using range by (auto simp: or_zero_def)
  also have "\<dots> \<longleftrightarrow> d \<in> set (held k m)" using num by (auto simp: image_iff)
  also have "\<dots> \<longleftrightarrow> name \<in> dim_name ` set (held k m)" unfolding image_iff using nam d(3) by metis
  finally show ?thesis using range Some by simp
qed

text \<open>An entry with a dimension that is not in the organization has no mask and no member satisfies it.\<close>

lemma entry_number_None:
  assumes "member_ok db org m" and "entry_number db org entry k = Inr None"
  shows "\<not> satisfies m entry"
proof -
  from assms(2) obtain name where name: "dget entry (dim_key k) = Some name"
    and no: "filter (\<lambda>d. dim_org d = org \<and> dim_name d = name) (dim_table k db) = []"
    by (auto simp: entry_number_def resolve_dimension_number_def split: option.splits)
  from assms(1) have "name \<notin> dim_name ` set (held k m)"
    using no by (auto simp: member_ok_def filter_empty_conv)
  with name show ?thesis by (auto simp: satisfies_def)
qed

lemma masks_of_member:
  assumes "calculate_user_masks_from_membership m n = Inr us" and "is_mask32 d"
  shows "d \<in> set us \<longleftrightarrow> dm_org (decode d) = n
    \<and> (dm_region (decode d) \<in> set (or_zero (map dim_number (held Region m))) \<or> dm_region (decode d) = MAX_REGION)
    \<and> (dm_role (decode d) \<in> set (or_zero (map dim_number (held Role m))) \<or> dm_role (decode d) = MAX_ROLE)
    \<and> (dm_group (decode d) \<in> set (or_zero (map dim_number (held Group m))) \<or> dm_group (decode d) = MAX_GROUP)
    \<and> (dm_dept (decode d) \<in> set (or_zero (map dim_number (held Department m))) \<or> dm_dept (decode d) = MAX_DEPT)"
proof -
  let ?z = "\<lambda>k. or_zero (map dim_number (held k m))"
  from assms(1) have us: "member_masks n (?z Region) (?z Role) (?z Group) (?z Department) = Inr us"
    by (auto simp: calculate_user_masks_from_membership_def calculate_masks_from_assignments_def result_simps
        split: if_splits)
  then have "dims_ok n (?z Region) (?z Role) (?z Group) (?z Department)"
    using member_masks_Inr [OF us] by (auto simp: dims_ok_def with_wildcard_def)
  from mem_member_masks [OF this assms(2) us] show ?thesis .
qed

lemma entry_mask_admits:
  assumes inv: "dims_inv db" and mem: "member_ok db org m"
    and us: "calculate_user_masks_from_membership m n = Inr us" and e: "entry_mask db org n entry = Inr r"
  shows "(\<exists>x. r = Some x \<and> x \<in> set us) \<longleftrightarrow> satisfies m entry"
proof -
  from e obtain rg' dp' ro' gr' where nums': "entry_number db org entry Region = Inr rg'"
      "entry_number db org entry Department = Inr dp'" "entry_number db org entry Role = Inr ro'"
      "entry_number db org entry Group = Inr gr'" and r: "(case (rg', dp', ro', gr') of
         (Some rg, Some dp, Some ro, Some gr) \<Rightarrow> bind_res (lift_mask (encode n rg ro gr dp)) (\<lambda>m. Inr (Some m))
       | _ \<Rightarrow> Inr None) = Inr r"
    unfolding entry_mask_def bind_res_eq_Inr by blast
  show ?thesis
proof (cases r)
  case None
  with r have "rg' = None \<or> dp' = None \<or> ro' = None \<or> gr' = None"
    by (auto simp: result_simps split: option.splits)
  with nums' have "\<exists>k. entry_number db org entry k = Inr None" by blast
  then show ?thesis using entry_number_None [OF mem] None by blast
next
  case (Some x)
  with r obtain rg dp ro gr where some: "rg' = Some rg" "dp' = Some dp" "ro' = Some ro" "gr' = Some gr"
    and enc: "encode n rg ro gr dp = Inr x"
    by (auto simp: result_simps split: option.splits)
  note nums = nums' [unfolded some]
  from encode_Inr [OF enc] have dec: "decode x = \<lparr>dm_org = n, dm_region = rg, dm_role = ro, dm_group = gr, dm_dept = dp\<rparr>"
    and "is_mask32 x" by auto
  from masks_of_member [OF us this(2)] have "x \<in> set us \<longleftrightarrow>
      (rg \<in> set (or_zero (map dim_number (held Region m))) \<or> rg = wildcard_of Region)
    \<and> (ro \<in> set (or_zero (map dim_number (held Role m))) \<or> ro = wildcard_of Role)
    \<and> (gr \<in> set (or_zero (map dim_number (held Group m))) \<or> gr = wildcard_of Group)
    \<and> (dp \<in> set (or_zero (map dim_number (held Department m))) \<or> dp = wildcard_of Department)"
    by (simp only: dec decoded_mask.simps wildcard_of.simps simp_thms)
  also have "\<dots> \<longleftrightarrow> satisfies m entry"
    unfolding satisfies_def all_dim_kind using nums [THEN entry_number_held [OF inv mem]] by blast
  finally show ?thesis using Some by simp
qed
qed

lemma config_admits:
  assumes "dims_inv db" and "member_ok db org m" and "es \<noteq> []" and n: "org_number org db = Some n"
    and us: "calculate_user_masks_from_membership m n = Inr us"
    and ms: "permission_config_to_masks db org (Some es) = Inr ms"
  shows "set ms \<inter> set us \<noteq> {} \<longleftrightarrow> (\<exists>entry \<in> set es. satisfies m entry)"
proof -
  from ms n assms(3) obtain rs where rs: "map_res (entry_mask db org n) es = Inr rs" and ms_eq: "ms = List.map_filter (\<lambda>m. m) rs"
    by (cases es) (auto simp: permission_config_to_masks_def result_simps)
  have "x \<in> set ms \<longleftrightarrow> Some x \<in> set rs" for x
    by (auto simp: ms_eq List.map_filter_def intro: rev_image_eqI)
  then have "set ms \<inter> set us \<noteq> {} \<longleftrightarrow> (\<exists>entry \<in> set es. \<exists>r x. entry_mask db org n entry = Inr r \<and> r = Some x \<and> x \<in> set us)"
    using set_map_res [OF rs] by blast
  also have "\<dots> \<longleftrightarrow> (\<exists>entry \<in> set es. satisfies m entry)"
    using entry_mask_admits [OF assms(1,2) us] map_res_Inr_mem [OF rs] by (metis (no_types, lifting))
  finally show ?thesis .
qed

subsection \<open>An organization with two regions\<close>

definition new_region :: "string \<Rightarrow> dims \<Rightarrow> dims" where
  "new_region s db = (case dimension_create s Region ''o1'' s None db of Inl _ \<Rightarrow> db | Inr (db', _) \<Rightarrow> db')"

definition two_regions :: dims where
  "two_regions = new_region ''South'' (new_region ''North''
     (fst (org_create ''o1'' ''Org''
       \<lparr>d_orgs = [], d_regions = [], d_departments = [], d_roles = [], d_groups = []\<rparr>)))"

definition region_row :: "string \<Rightarrow> int \<Rightarrow> dimension" where
  "region_row s n = \<lparr>dim_id = s, dim_org = ''o1'', dim_name = s, dim_description = None, dim_number = n\<rparr>"

definition in_region :: "dimension \<Rightarrow> membership" where
  "in_region d = \<lparr>ms_profile = ''p'', ms_org = ''o1'', ms_is_org_admin = False, ms_regions = [d],
     ms_departments = [], ms_roles = [], ms_groups = []\<rparr>"

lemma two_regions_eq: "two_regions = \<lparr>d_orgs = [\<lparr>og_id = ''o1'', og_name = ''Org'', og_number = 1\<rparr>],
    d_regions = [region_row ''North'' 1, region_row ''South'' 2], d_departments = [], d_roles = [], d_groups = []\<rparr>"
  by (simp add: two_regions_def new_region_def org_create_def Let_def dimension_create_def last_number_def region_row_def)

lemma reachable_new_region:
  assumes "dims_reachable db" and "s \<notin> dim_id ` set (d_regions db)"
  shows "dims_reachable (new_region s db)"
  using assms dims_reachable.create [OF assms(1), of s Region "''o1''" s None]
  by (auto simp: new_region_def split: sum.splits prod.splits)

lemma two_regions_reachable: "dims_reachable two_regions"
  unfolding two_regions_def
  by (intro reachable_new_region dims_reachable.new_org dims_reachable.empty)
    (simp_all add: new_region_def org_create_def Let_def dimension_create_def last_number_def)

subsection \<open>Properties\<close>

text \<open>
  The permission numbers stay usable whatever is created, renamed and deleted: in each table every number lies
  between 1 and the last value below the wildcard, and no two dimensions of an organization share one. A
  number never becomes the wildcard or the value of a member without assignment.
\<close>

theorem dimension_numbers_invariant:
  assumes "dims_reachable db" and "d \<in> set (dim_table k db)"
  shows "1 \<le> dim_number d \<and> dim_number d < wildcard_of k
    \<and> (\<forall>d' \<in> set (dim_table k db). dim_org d' = dim_org d \<and> dim_number d' = dim_number d \<longrightarrow> d' = d)"
  using dims_inv_reachable [OF assms(1)] assms(2)
  by (auto simp: dims_inv_def numbers_ok_def distinct_map dest: inj_onD)

theorem dimension_numbers_invariant_witness:
  "1 \<le> dim_number (region_row ''South'' 2) \<and> dim_number (region_row ''South'' 2) < wildcard_of Region"
  using dimension_numbers_invariant [OF two_regions_reachable, of "region_row ''South'' 2" Region]
  by (simp add: two_regions_eq)

text \<open>
  A permission configuration admits exactly who it names: the masks stored for a configuration and the
  masks of a member of the organization have one in common if and only if, for some entry of the
  configuration, the member holds every dimension that entry names. Entries with a name the organization
  does not have admit nobody.
\<close>

theorem config_admits_exactly:
  assumes "dims_reachable db" and "member_ok db org m" and "es \<noteq> []" and "org_number org db = Some n"
    and "calculate_user_masks_from_membership m n = Inr us"
    and "permission_config_to_masks db org (Some es) = Inr ms"
  shows "set ms \<inter> set us \<noteq> {} \<longleftrightarrow> (\<exists>entry \<in> set es. satisfies m entry)"
  by (rule config_admits [OF dims_inv_reachable [OF assms(1)] assms(2-6)])

theorem config_admits_exactly_witness:
  "\<exists>us ms. calculate_user_masks_from_membership (in_region (region_row ''South'' 2)) 1 = Inr us
    \<and> permission_config_to_masks two_regions ''o1'' (Some [[(''region'', ''South'')]]) = Inr ms
    \<and> set ms \<inter> set us \<noteq> {} \<and> satisfies (in_region (region_row ''South'' 2)) [(''region'', ''South'')]"
proof -
  let ?m = "in_region (region_row ''South'' 2)" and ?es = "[[(''region'', ''South'')]]"
  have mem: "member_ok two_regions ''o1'' ?m"
    by (simp add: member_ok_def all_dim_kind in_region_def two_regions_eq region_row_def)
  have n: "org_number ''o1'' two_regions = Some 1" by (simp add: two_regions_eq org_number_def)
  have sat: "satisfies ?m (hd ?es)" by (simp add: satisfies_def all_dim_kind in_region_def region_row_def)
  have "\<not> isl (calculate_user_masks_from_membership ?m 1)" by code_simp
  then obtain us where us: "calculate_user_masks_from_membership ?m 1 = Inr us" by (metis sum.collapse(2))
  have "\<not> isl (permission_config_to_masks two_regions ''o1'' (Some ?es))" by code_simp
  then obtain ms where ms: "permission_config_to_masks two_regions ''o1'' (Some ?es) = Inr ms" by (metis sum.collapse(2))
  have "set ms \<inter> set us \<noteq> {}"
    using config_admits_exactly [OF two_regions_reachable mem _ n us ms] sat by simp
  with us ms sat show ?thesis by auto
qed

text \<open>
  A number is free again when the last dimension of its table is deleted, but the masks of folders keep it: the
  masks stored for a configuration that names South admit the members of the region created after South was deleted.
\<close>

theorem number_reused_after_delete:
  "map_sum id (\<lambda>ms. ms) (permission_config_to_masks two_regions ''o1'' (Some [[(''region'', ''South'')]])) = Inr [2293759]
   \<and> d_regions (new_region ''East'' (fst (dimension_delete Region ''o1'' ''South'' two_regions)))
      = [region_row ''North'' 1, region_row ''East'' 2]
   \<and> map_sum id (\<lambda>us. 2293759 \<in> set us) (calculate_user_masks_from_membership (in_region (region_row ''East'' 2)) 1) = Inr True"
  by code_simp

text \<open>A configuration whose every entry is unknown to the organization has no masks, like no configuration at all.\<close>

theorem unresolved_config_no_masks:
  "permission_config_to_masks two_regions ''o1'' (Some [[(''region'', ''Suoth'')]]) = Inr []
   \<and> permission_config_to_masks two_regions ''o1'' None = Inr []"
  by code_simp

end
