(* ===== verification/Folder_Tree.thy ===== *)
theory Folder_Tree
  imports Permission_Config Py_Text "HOL-Library.List_Lexorder" "HOL-Library.Char_ord" "HOL-Library.Product_Lexorder"
begin

section \<open>The folder tree: visibility, paths and the propagation of permissions\<close>

text \<open>
  Folders (\<open>repositories/folder.py\<close>, \<open>services/folder_service.py\<close>), the visibility of folders and
  documents (\<open>services/knowledge_visibility.py\<close>), the tags of the index (\<open>services/index_tags.py\<close>) and the
  creation and update routes of \<open>routers/folders.py\<close> with the payloads they send to the index. The table of
  folders is a list of rows of all organizations. A recursive query is \<open>cte\<close>, which collects rows round by
  round as the database does. Texts are ordered by code point. Timestamps are left out.
\<close>

subsection \<open>Rows\<close>

record folder =
  fo_id :: uuid
  fo_org :: uuid
  fo_parent :: "uuid option"
  fo_name :: string
  fo_description :: "string option"
  fo_order :: int
  fo_path :: string
  fo_viewer :: "perm_config option"
  fo_contributor :: "perm_config option"
  fo_view_masks :: "int list"
  fo_contributor_masks :: "int list"

record document =
  do_id :: uuid
  do_org :: uuid
  do_folder :: "uuid option"
  do_key :: string
  do_title :: string
  do_tags :: "string list"
  do_viewer :: "perm_config option"
  do_view_masks :: "int list"

type_synonym lookup = "uuid \<Rightarrow> folder option"

subsection \<open>Effective masks over a table in memory\<close>

definition by_id :: "folder list \<Rightarrow> lookup" where
  "by_id fs i = find (\<lambda>f. fo_id f = i) (rev fs)"

definition parent_in :: "lookup \<Rightarrow> folder \<Rightarrow> folder option" where
  "parent_in lk f = (case fo_parent f of None \<Rightarrow> None | Some p \<Rightarrow> lk p)"

fun effective_walk :: "lookup \<Rightarrow> nat \<Rightarrow> folder option \<Rightarrow> int list" where
  "effective_walk lk 0 node = []"
| "effective_walk lk (Suc n) None = []"
| "effective_walk lk (Suc n) (Some f) =
     (if fo_viewer f \<noteq> None then fo_view_masks f else effective_walk lk n (parent_in lk f))"

definition size_of :: "folder list \<Rightarrow> nat" where
  "size_of fs = length (fromkeys (map fo_id fs))"

definition effective_masks_by_parent :: "folder \<Rightarrow> folder list \<Rightarrow> int list" where
  "effective_masks_by_parent f fs = effective_walk (by_id fs) (size_of fs + 1) (Some f)"

definition is_visible :: "folder \<Rightarrow> folder list \<Rightarrow> int list \<Rightarrow> bool" where
  "is_visible f fs user_masks = (let effective = effective_masks_by_parent f fs in
     effective = [] \<or> list_ex (\<lambda>m. m \<in> set effective) user_masks)"

subsection \<open>Queries\<close>

definition folder_get :: "uuid \<Rightarrow> uuid \<Rightarrow> folder list \<Rightarrow> folder option" where
  "folder_get org i tab = find (\<lambda>f. fo_id f = i \<and> fo_org f = org) tab"

definition in_org :: "uuid \<Rightarrow> folder list \<Rightarrow> folder list" where
  "in_org org tab = filter (\<lambda>f. fo_org f = org) tab"

definition page :: "nat option \<Rightarrow> nat option \<Rightarrow> 'a list \<Rightarrow> 'a list" where
  "page offset maxn xs = (let ys = (case offset of None \<Rightarrow> xs | Some n \<Rightarrow> drop n xs) in
     case maxn of None \<Rightarrow> ys | Some n \<Rightarrow> take n ys)"

definition list_visible_to_masks ::
  "uuid \<Rightarrow> int list option \<Rightarrow> nat option \<Rightarrow> nat option \<Rightarrow> folder list \<Rightarrow> folder list \<times> nat" where
  "list_visible_to_masks org user_masks offset maxn tab =
     (let fs = sort_key fo_path (in_org org tab);
          visible = (case user_masks of None \<Rightarrow> fs | Some ms \<Rightarrow> filter (\<lambda>f. is_visible f fs ms) fs)
      in (page offset maxn visible, length visible))"

definition get_many :: "uuid \<Rightarrow> uuid list \<Rightarrow> folder list \<Rightarrow> folder list" where
  "get_many org ids tab = (if ids = [] then []
     else sort_key (\<lambda>f. (fo_path f, fo_id f)) (filter (\<lambda>f. fo_id f \<in> set ids) (in_org org tab)))"

definition list_children :: "uuid \<Rightarrow> uuid option \<Rightarrow> folder list \<Rightarrow> folder list" where
  "list_children org parent tab = sort_key (\<lambda>f. (fo_order f, fo_name f)) (filter (\<lambda>f. fo_parent f = parent) (in_org org tab))"

text \<open>
  \<open>WITH RECURSIVE \<dots> UNION\<close>: a round joins the rows of the last round with the table and keeps the new
  ones; the query ends with a round that finds none.
\<close>

function cte :: "('r \<Rightarrow> 'r \<Rightarrow> bool) \<Rightarrow> 'r list \<Rightarrow> 'r list \<Rightarrow> 'r list \<Rightarrow> 'r list" where
  "cte link tab work acc =
     (let new = filter (\<lambda>r. r \<notin> set acc \<and> list_ex (\<lambda>w. link w r) work) tab in
      if new = [] then acc else cte link tab new (acc @ new))"
  by pat_completeness auto
termination
proof (relation "measure (\<lambda>(_, tab, _, acc). length (filter (\<lambda>r. r \<notin> set acc) tab))")
  fix link :: "'r \<Rightarrow> 'r \<Rightarrow> bool" and tab work acc new :: "'r list"
  let ?hit = "\<lambda>r. r \<notin> set acc \<and> list_ex (\<lambda>w. link w r) work"
  assume new: "new = filter ?hit tab" and "new \<noteq> []"
  then obtain r where r: "r \<in> set tab" "?hit r" by (auto simp: filter_empty_conv)
  have "filter (\<lambda>r. r \<notin> set (acc @ new)) tab = filter (\<lambda>r. \<not> list_ex (\<lambda>w. link w r) work) (filter (\<lambda>r. r \<notin> set acc) tab)"
    by (auto simp: new intro: filter_cong)
  also have "length \<dots> < length (filter (\<lambda>r. r \<notin> set acc) tab)"
    using r by (intro length_filter_less [of r]) auto
  finally show "((link, tab, new, acc @ new), link, tab, work, acc)
      \<in> measure (\<lambda>(_, tab, _, acc). length (filter (\<lambda>r. r \<notin> set acc) tab))" by simp
qed simp

declare cte.simps [simp del]

definition subtree_rows :: "uuid \<Rightarrow> uuid list \<Rightarrow> folder list \<Rightarrow> folder list" where
  "subtree_rows org ids tab = (let start = filter (\<lambda>f. fo_id f \<in> set ids) (in_org org tab) in
     cte (\<lambda>up f. fo_parent f = Some (fo_id up)) (in_org org tab) start start)"

definition subtree_ids :: "uuid \<Rightarrow> uuid list \<Rightarrow> folder list \<Rightarrow> uuid list" where
  "subtree_ids org ids tab = map fo_id (subtree_rows org ids tab)"

definition ancestor_rows :: "uuid \<Rightarrow> uuid list \<Rightarrow> folder list \<Rightarrow> folder list" where
  "ancestor_rows org ids tab = (let start = filter (\<lambda>f. fo_id f \<in> set ids) (in_org org tab) in
     cte (\<lambda>f up. fo_parent f = Some (fo_id up)) (in_org org tab) start start)"

definition ancestor_ids :: "uuid \<Rightarrow> uuid list \<Rightarrow> folder list \<Rightarrow> uuid list" where
  "ancestor_ids org ids tab = map fo_id (ancestor_rows org ids tab)"

definition visible_subtrees :: "uuid \<Rightarrow> uuid list \<Rightarrow> int list \<Rightarrow> folder list \<Rightarrow> (uuid, bool) dict" where
  "visible_subtrees org ids user_masks tab = (let roots = fromkeys ids in
     if roots = [] then []
     else let down = subtree_ids org roots tab; up = ancestor_ids org roots tab;
              rows = filter (\<lambda>f. fo_id f \<in> set down \<or> fo_id f \<in> set up) (in_org org tab)
          in map (\<lambda>f. (fo_id f, is_visible f rows user_masks)) (filter (\<lambda>f. fo_id f \<in> set down) rows))"

text \<open>The loop of \<open>ancestors\<close> runs while the chain is no longer than the number of rows it has loaded.\<close>

fun chain :: "lookup \<Rightarrow> nat \<Rightarrow> folder option \<Rightarrow> folder list" where
  "chain lk 0 node = []"
| "chain lk (Suc n) None = []"
| "chain lk (Suc n) (Some f) = f # chain lk n (parent_in lk f)"

definition ancestors :: "uuid \<Rightarrow> folder \<Rightarrow> folder list \<Rightarrow> folder list" where
  "ancestors org f tab = (case fo_parent f of None \<Rightarrow> []
     | Some p \<Rightarrow> let rows = filter (\<lambda>g. fo_id g \<in> set (ancestor_ids org [p] tab)) (in_org org tab)
         in chain (by_id rows) (size_of rows + 1) (by_id rows p))"

definition nearest_configured_ancestor :: "uuid \<Rightarrow> folder \<Rightarrow> folder list \<Rightarrow> folder option" where
  "nearest_configured_ancestor org f tab = find (\<lambda>a. fo_viewer a \<noteq> None) (ancestors org f tab)"

definition effective_view_masks :: "uuid \<Rightarrow> folder option \<Rightarrow> folder list \<Rightarrow> int list" where
  "effective_view_masks org x tab = (case x of None \<Rightarrow> []
     | Some f \<Rightarrow> if fo_viewer f \<noteq> None then fo_view_masks f
         else (case nearest_configured_ancestor org f tab of None \<Rightarrow> [] | Some a \<Rightarrow> fo_view_masks a))"

definition nearest_contributor_configured_ancestor :: "uuid \<Rightarrow> folder \<Rightarrow> folder list \<Rightarrow> folder option" where
  "nearest_contributor_configured_ancestor org f tab = find (\<lambda>a. fo_contributor a \<noteq> None) (ancestors org f tab)"

definition effective_contributor_masks :: "uuid \<Rightarrow> folder \<Rightarrow> folder list \<Rightarrow> int list" where
  "effective_contributor_masks org f tab = (if fo_contributor f \<noteq> None then fo_contributor_masks f
     else (case nearest_contributor_configured_ancestor org f tab of None \<Rightarrow> [] | Some a \<Rightarrow> fo_contributor_masks a))"

definition descendants :: "uuid \<Rightarrow> folder \<Rightarrow> folder list \<Rightarrow> folder list" where
  "descendants org f tab = filter (\<lambda>g. fo_id g \<in> set (subtree_ids org [fo_id f] tab)) (in_org org tab)"

subsection \<open>Paths\<close>

text \<open>The rows of the recursive query of a rewrite: folder and path, level by level, to the depth bound.\<close>

definition MAX_DEPTH :: nat where "MAX_DEPTH = 1000"

definition next_level :: "uuid \<Rightarrow> folder list \<Rightarrow> (uuid \<times> string) list \<Rightarrow> (uuid \<times> string) list" where
  "next_level org tab level = concat (map (\<lambda>(i, path). map (\<lambda>f. (fo_id f, path @ ''.'' @ fo_name f))
     (filter (\<lambda>f. fo_parent f = Some i) (in_org org tab))) level)"

fun path_rows :: "uuid \<Rightarrow> folder list \<Rightarrow> nat \<Rightarrow> (uuid \<times> string) list \<Rightarrow> (uuid \<times> string) list" where
  "path_rows org tab n level = (if level = [] then []
     else level @ (if n = 0 then [] else path_rows org tab (n - 1) (next_level org tab level)))"

declare path_rows.simps [simp del]

definition rewrite_subtree_paths :: "uuid \<Rightarrow> string \<Rightarrow> uuid \<Rightarrow> folder list \<Rightarrow> folder list" where
  "rewrite_subtree_paths org new_prefix i tab =
     (let rows = path_rows org tab MAX_DEPTH
            (map (\<lambda>f. (fo_id f, new_prefix)) (filter (\<lambda>f. fo_id f = i) (in_org org tab)))
      in map (\<lambda>f. if fo_org f = org
                  then (case dget rows (fo_id f) of None \<Rightarrow> f | Some path \<Rightarrow> f\<lparr>fo_path := path\<rparr>) else f) tab)"

definition under :: "folder option \<Rightarrow> string \<Rightarrow> string" where
  "under parent name = (case parent of None \<Rightarrow> name | Some p \<Rightarrow> fo_path p @ ''.'' @ name)"

definition get_parent :: "uuid \<Rightarrow> uuid option \<Rightarrow> folder list \<Rightarrow> folder option" where
  "get_parent org parent tab = (case parent of None \<Rightarrow> None | Some p \<Rightarrow> folder_get org p tab)"

definition build_dot_path :: "uuid \<Rightarrow> string \<Rightarrow> uuid option \<Rightarrow> folder list \<Rightarrow> string" where
  "build_dot_path org name parent tab = under (get_parent org parent tab) name"

definition upd_folder :: "uuid \<Rightarrow> (folder \<Rightarrow> folder) \<Rightarrow> folder list \<Rightarrow> folder list" where
  "upd_folder i g tab = upd_where (\<lambda>f. fo_id f = i) g tab"

definition folder_rename :: "uuid \<Rightarrow> folder \<Rightarrow> string \<Rightarrow> folder list \<Rightarrow> folder list" where
  "folder_rename org f new_name tab = rewrite_subtree_paths org (under (get_parent org (fo_parent f) tab) new_name) (fo_id f)
     (upd_folder (fo_id f) (\<lambda>r. r\<lparr>fo_name := new_name\<rparr>) tab)"

definition folder_move :: "uuid \<Rightarrow> folder \<Rightarrow> folder option \<Rightarrow> folder list \<Rightarrow> folder list" where
  "folder_move org f new_parent tab = rewrite_subtree_paths org (under new_parent (fo_name f)) (fo_id f)
     (upd_folder (fo_id f) (\<lambda>r. r\<lparr>fo_parent := map_option fo_id new_parent\<rparr>) tab)"

definition would_create_cycle :: "folder \<Rightarrow> folder option \<Rightarrow> folder list \<Rightarrow> bool" where
  "would_create_cycle f new_parent new_parent_ancestors = (case new_parent of None \<Rightarrow> False
     | Some p \<Rightarrow> fo_id p = fo_id f \<or> list_ex (\<lambda>a. fo_id a = fo_id f) new_parent_ancestors)"

datatype folder_error = FolderNotFound | ParentNotFound uuid | FolderCycleError | AccessError access_error

definition move_folder :: "uuid \<Rightarrow> folder \<Rightarrow> uuid option \<Rightarrow> folder list \<Rightarrow> (folder_error, folder list) result" where
  "move_folder org f new_parent_id tab =
     (case new_parent_id of
        None \<Rightarrow> Inr (folder_move org f None tab)
      | Some p \<Rightarrow> (case folder_get org p tab of
          None \<Rightarrow> Inl (ParentNotFound p)
        | Some np \<Rightarrow> if would_create_cycle f (Some np) (ancestors org np tab) then Inl FolderCycleError
            else Inr (folder_move org f (Some np) tab)))"

subsection \<open>Visibility\<close>

definition overlaps :: "int list \<Rightarrow> int list \<Rightarrow> bool" where
  "overlaps resource_masks masks \<longleftrightarrow> resource_masks = [] \<or> list_ex (\<lambda>m. m \<in> set masks) resource_masks"

definition visible_folder_ids :: "uuid \<Rightarrow> int list option \<Rightarrow> folder list \<Rightarrow> uuid list" where
  "visible_folder_ids org masks tab = map fo_id (fst (list_visible_to_masks org masks None None tab))"

definition folder_visible :: "uuid \<Rightarrow> folder \<Rightarrow> int list option \<Rightarrow> folder list \<Rightarrow> bool" where
  "folder_visible org f masks tab = (case masks of None \<Rightarrow> True
     | Some ms \<Rightarrow> overlaps (effective_view_masks org (Some f) tab) ms)"

definition document_visible :: "uuid \<Rightarrow> document \<Rightarrow> int list option \<Rightarrow> folder list \<Rightarrow> bool" where
  "document_visible org doc masks tab = (case masks of None \<Rightarrow> True
     | Some ms \<Rightarrow> (case do_folder doc of None \<Rightarrow> False
         | Some i \<Rightarrow> (case folder_get org i tab of None \<Rightarrow> False
             | Some f \<Rightarrow> folder_visible org f masks tab \<and> (do_viewer doc = None \<or> overlaps (do_view_masks doc) ms))))"

definition can_add_to_folder :: "uuid \<Rightarrow> folder \<Rightarrow> int list option \<Rightarrow> folder list \<Rightarrow> bool" where
  "can_add_to_folder org f masks tab = (case masks of None \<Rightarrow> True
     | Some ms \<Rightarrow> folder_visible org f masks tab \<and> overlaps (effective_contributor_masks org f tab) ms)"

subsection \<open>Tags of the index\<close>

definition FOLDER_TAG_PREFIX :: string where "FOLDER_TAG_PREFIX = ''folder:''"

text \<open>\<open>casefold\<close> lowers every letter that the prefix holds.\<close>

definition is_reserved_tag_name :: "string \<Rightarrow> bool" where
  "is_reserved_tag_name name = (take (length FOLDER_TAG_PREFIX) (lower (strip name)) = FOLDER_TAG_PREFIX)"

definition validate_tag_name :: "string \<Rightarrow> (unit, string) result" where
  "validate_tag_name name = (if is_reserved_tag_name name then Inl () else Inr name)"

definition folder_tag :: "uuid \<Rightarrow> string" where
  "folder_tag i = FOLDER_TAG_PREFIX @ i"

definition index_tags :: "string list \<Rightarrow> uuid option \<Rightarrow> string list" where
  "index_tags user_tags folder_id = filter (\<lambda>t. \<not> is_reserved_tag_name t) user_tags
     @ (case folder_id of None \<Rightarrow> [] | Some i \<Rightarrow> [folder_tag i])"

subsection \<open>Propagation\<close>

record payload =
  pl_tenant :: uuid
  pl_key :: string
  pl_tags :: "string list"
  pl_access_keys :: "int list"
  pl_title :: string

definition perm_propagation_payloads :: "uuid \<Rightarrow> folder \<Rightarrow> document list \<Rightarrow> int list \<Rightarrow> payload list" where
  "perm_propagation_payloads org f docs access_keys =
     map (\<lambda>d. \<lparr>pl_tenant = org, pl_key = do_key d, pl_tags = index_tags (do_tags d) (Some (fo_id f)),
            pl_access_keys = access_keys, pl_title = do_title d\<rparr>) docs"

fun boundary_walk :: "lookup \<Rightarrow> uuid \<Rightarrow> nat \<Rightarrow> folder option \<Rightarrow> bool" where
  "boundary_walk lk changed 0 node = False"
| "boundary_walk lk changed (Suc n) None = False"
| "boundary_walk lk changed (Suc n) (Some f) = (if fo_id f = changed then False
     else if fo_viewer f \<noteq> None then True else boundary_walk lk changed n (parent_in lk f))"

definition is_under_boundary :: "folder \<Rightarrow> uuid \<Rightarrow> folder list \<Rightarrow> bool" where
  "is_under_boundary f changed subtree = boundary_walk (by_id subtree) changed (size_of subtree + 1) (Some f)"

definition list_inheriting_in_folder :: "uuid \<Rightarrow> uuid \<Rightarrow> document list \<Rightarrow> document list" where
  "list_inheriting_in_folder org i docs =
     filter (\<lambda>d. do_org d = org \<and> do_folder d = Some i \<and> do_viewer d = None) docs"

definition collect_subtree_propagation :: "uuid \<Rightarrow> folder \<Rightarrow> folder list \<Rightarrow> document list \<Rightarrow> payload list" where
  "collect_subtree_propagation org changed tab docs =
     (let subtree = descendants org changed tab;
          new_masks = effective_view_masks org (Some changed) tab
      in concat (map (\<lambda>f. perm_propagation_payloads org f (list_inheriting_in_folder org (fo_id f) docs) new_masks)
           (filter (\<lambda>f. \<not> is_under_boundary f (fo_id changed) subtree) subtree)))"

subsection \<open>The create and update routes\<close>

definition compute_folder_masks ::
  "dims \<Rightarrow> uuid \<Rightarrow> perm_config option \<Rightarrow> perm_config option \<Rightarrow> (folder_error, int list \<times> int list) result" where
  "compute_folder_masks db org viewer contributor =
     (case bind_res (permission_config_to_masks db org viewer) (\<lambda>v.
             bind_res (permission_config_to_masks db org contributor) (\<lambda>c. Inr (v, c))) of
        Inl e \<Rightarrow> Inl (AccessError e) | Inr r \<Rightarrow> Inr r)"

definition create_folder ::
  "dims \<Rightarrow> uuid \<Rightarrow> uuid \<Rightarrow> string \<Rightarrow> string option \<Rightarrow> uuid option \<Rightarrow> perm_config option \<Rightarrow> perm_config option
    \<Rightarrow> folder list \<Rightarrow> (folder_error, folder list) result" where
  "create_folder db org new_id name description parent viewer contributor tab =
     bind_res (compute_folder_masks db org viewer contributor) (\<lambda>(v, c).
       Inr (tab @ [\<lparr>fo_id = new_id, fo_org = org, fo_parent = parent, fo_name = name, fo_description = description,
         fo_order = 0, fo_path = build_dot_path org name parent tab, fo_viewer = viewer, fo_contributor = contributor,
         fo_view_masks = v, fo_contributor_masks = c\<rparr>]))"

text \<open>A field that the request leaves out is \<open>None\<close>; \<open>Some None\<close> sets it to null.\<close>

record folder_update =
  up_name :: "string option"
  up_description :: "string option"
  up_parent :: "uuid option option"
  up_viewer :: "perm_config option option"
  up_contributor :: "perm_config option option"

definition set_configs :: "dims \<Rightarrow> uuid \<Rightarrow> uuid \<Rightarrow> folder_update \<Rightarrow> folder list \<Rightarrow> (folder_error, folder list) result" where
  "set_configs db org i body tab =
     (case folder_get org i tab of None \<Rightarrow> Inl FolderNotFound
      | Some f \<Rightarrow> let v = (case up_viewer body of None \<Rightarrow> fo_viewer f | Some c \<Rightarrow> c);
            c = (case up_contributor body of None \<Rightarrow> fo_contributor f | Some c \<Rightarrow> c)
        in bind_res (compute_folder_masks db org v c) (\<lambda>(vm, cm).
             Inr (upd_folder i (\<lambda>r. r\<lparr>fo_viewer := v, fo_contributor := c, fo_view_masks := vm, fo_contributor_masks := cm\<rparr>) tab)))"

definition update_folder ::
  "dims \<Rightarrow> uuid \<Rightarrow> uuid \<Rightarrow> folder_update \<Rightarrow> document list \<Rightarrow> folder list
    \<Rightarrow> (folder_error, folder list \<times> payload list) result" where
  "update_folder db org i body docs tab =
     (case folder_get org i tab of None \<Rightarrow> Inl FolderNotFound
      | Some f0 \<Rightarrow>
        let tab1 = (case up_name body of None \<Rightarrow> tab
              | Some n \<Rightarrow> if n = fo_name f0 then tab else folder_rename org f0 n tab);
            tab2 = (case up_description body of None \<Rightarrow> tab1 | Some d \<Rightarrow> upd_folder i (\<lambda>r. r\<lparr>fo_description := Some d\<rparr>) tab1)
        in bind_res (if up_viewer body = None \<and> up_contributor body = None then Inr tab2 else set_configs db org i body tab2) (\<lambda>tab3.
           case folder_get org i tab3 of None \<Rightarrow> Inl FolderNotFound
           | Some f3 \<Rightarrow>
             let payloads = (if up_viewer body = None then [] else collect_subtree_propagation org f3 tab3 docs)
             in case up_parent body of None \<Rightarrow> Inr (tab3, payloads)
                | Some parent \<Rightarrow> bind_res (move_folder org f3 parent tab3) (\<lambda>tab4. Inr (tab4, payloads))))"

end
