(* ===== verification/Folder_Tree_Props.thy ===== *)
theory Folder_Tree_Props
  imports Folder_Tree
begin

section \<open>Properties of the folder tree\<close>

text \<open>
  The walks up the tree are chains of a lookup: \<open>chain\<close> with enough steps visits everything that can be reached,
  also on a corrupt cycle, so the walks of the source agree whatever table they start from. The second part
  is about the paths, which create, rename and move keep in step with the names, and the third
  about the propagation of a changed configuration to the index.
\<close>

subsection \<open>Recursive queries\<close>

lemma cte_sub: "set acc \<subseteq> set (cte link tab work acc)"
  by (induction link tab work acc rule: cte.induct) (subst cte.simps, auto simp: Let_def)

lemma cte_closed:
  assumes "set work \<subseteq> set acc"
    and "\<And>a b. a \<in> set acc \<Longrightarrow> a \<notin> set work \<Longrightarrow> b \<in> set tab \<Longrightarrow> link a b \<Longrightarrow> b \<in> set acc"
    and "a \<in> set (cte link tab work acc)" and "b \<in> set tab" and "link a b"
  shows "b \<in> set (cte link tab work acc)"
  using assms
proof (induction link tab work acc rule: cte.induct)
  case (1 link tab work acc)
  let ?new = "filter (\<lambda>r. r \<notin> set acc \<and> list_ex (\<lambda>w. link w r) work) tab"
  show ?case
  proof (cases "?new = []")
    case True
    then have step: "cte link tab work acc = acc" by (subst cte.simps) (simp add: Let_def)
    from True have "b \<in> set acc" if "a \<in> set work"
      using that "1.prems"(4,5) by (auto simp: filter_empty_conv list_ex_iff)
    with "1.prems" step show ?thesis by auto
  next
    case False
    then have step: "cte link tab work acc = cte link tab ?new (acc @ ?new)" by (subst cte.simps) (simp add: Let_def)
    show ?thesis unfolding step
    proof (rule "1.IH" [OF refl False])
      show "y \<in> set (acc @ ?new)"
        if "x \<in> set (acc @ ?new)" "x \<notin> set ?new" "y \<in> set tab" "link x y" for x y
        using that "1.prems"(2) by (auto simp: list_ex_iff)
    qed (use "1.prems" step in auto)
  qed
qed

lemma cte_reach:
  assumes "a \<in> set (cte link tab work acc)" and "set work \<subseteq> set acc"
  shows "\<exists>s \<in> set acc. (s, a) \<in> {(x, y). link x y \<and> y \<in> set tab}\<^sup>*"
  using assms
proof (induction link tab work acc rule: cte.induct)
  case (1 link tab work acc)
  let ?new = "filter (\<lambda>r. r \<notin> set acc \<and> list_ex (\<lambda>w. link w r) work) tab"
  show ?case
  proof (cases "?new = []")
    case True
    with "1.prems" show ?thesis by (subst (asm) cte.simps) (auto simp: Let_def)
  next
    case False
    with "1.prems"(1) have "a \<in> set (cte link tab ?new (acc @ ?new))" by (subst (asm) cte.simps) (simp add: Let_def)
    from "1.IH" [OF refl False this] obtain s where s: "s \<in> set (acc @ ?new)"
      and r: "(s, a) \<in> {(x, y). link x y \<and> y \<in> set tab}\<^sup>*" by auto
    show ?thesis
    proof (cases "s \<in> set acc")
      case False
      with s "1.prems"(2) obtain w where "w \<in> set acc" "(w, s) \<in> {(x, y). link x y \<and> y \<in> set tab}"
        by (auto simp: list_ex_iff)
      with r show ?thesis by (meson converse_rtrancl_into_rtrancl)
    qed (use r in blast)
  qed
qed

lemma set_cte:
  "set (cte link tab start start) = {r. \<exists>s \<in> set start. (s, r) \<in> {(x, y). link x y \<and> y \<in> set tab}\<^sup>*}"
proof (intro set_eqI iffI)
  fix r
  assume "r \<in> {r. \<exists>s \<in> set start. (s, r) \<in> {(x, y). link x y \<and> y \<in> set tab}\<^sup>*}"
  then obtain s where s: "s \<in> set start" and "(s, r) \<in> {(x, y). link x y \<and> y \<in> set tab}\<^sup>*" by blast
  from this(2) show "r \<in> set (cte link tab start start)"
  proof (induction rule: rtrancl_induct)
    case base
    show ?case using s cte_sub [of start link tab start] by blast
  next
    case (step y z)
    then show ?case using cte_closed [of start start tab link y z] by blast
  qed
qed (use cte_reach [of _ link tab start start] in auto)

subsection \<open>Chains\<close>

primrec iter :: "lookup \<Rightarrow> nat \<Rightarrow> folder option \<Rightarrow> folder option" where
  "iter lk 0 x = x"
| "iter lk (Suc n) x = Option.bind (iter lk n x) (parent_in lk)"

definition orbit :: "lookup \<Rightarrow> folder option \<Rightarrow> folder set" where
  "orbit lk x = {f. \<exists>n. iter lk n x = Some f}"

lemma iter_shift: "iter lk (Suc n) (Some f) = iter lk n (parent_in lk f)"
  by (induction n) auto

lemma iter_None [simp]: "iter lk n None = None"
  by (induction n) auto

lemma chain_snoc: "chain lk (Suc n) x = chain lk n x @ (case iter lk n x of None \<Rightarrow> [] | Some f \<Rightarrow> [f])"
proof (induction n arbitrary: x)
  case 0
  show ?case by (cases x) auto
next
  case (Suc n)
  show ?case
  proof (cases x)
    case (Some f)
    have "chain lk (Suc (Suc n)) x = f # chain lk (Suc n) (parent_in lk f)" using Some by simp
    also have "\<dots> = chain lk (Suc n) x @ (case iter lk n (parent_in lk f) of None \<Rightarrow> [] | Some f \<Rightarrow> [f])"
      using Suc.IH [of "parent_in lk f"] Some by simp
    finally show ?thesis using Some iter_shift [of lk n f] by simp
  qed simp
qed

lemma set_chain: "set (chain lk n x) = {f. \<exists>i < n. iter lk i x = Some f}"
proof (induction n)
  case (Suc n)
  have "i < Suc n \<longleftrightarrow> i < n \<or> i = n" for i by auto
  with Suc show ?case unfolding chain_snoc by (auto split: option.splits)
qed simp

lemma chain_prefix: "n \<le> m \<Longrightarrow> \<exists>rest. chain lk m x = chain lk n x @ rest"
proof (induction rule: dec_induct)
  case (step k)
  then show ?case unfolding chain_snoc [of lk k] by auto
qed simp

lemma iter_closed:
  assumes "iter lk n x = None \<or> iter lk n x \<in> Some ` set (chain lk n x)"
  shows "set (chain lk n x) = orbit lk x"
proof -
  have "f \<in> set (chain lk n x)" if "iter lk i x = Some f" for i f
    using that
  proof (induction i arbitrary: f)
    case 0
    then show ?case using assms by (cases n) (auto simp: set_chain)
  next
    case (Suc i)
    then obtain g where g: "iter lk i x = Some g" "parent_in lk g = Some f" by (auto simp: bind_eq_Some_conv)
    from Suc.IH [OF g(1)] obtain j where j: "j < n" "iter lk j x = Some g" by (auto simp: set_chain)
    then have "iter lk (Suc j) x = Some f" using g(2) by simp
    moreover have "Suc j < n \<or> Suc j = n" using j by auto
    ultimately show ?case using assms by (force simp: set_chain)
  qed
  then show ?thesis by (auto simp: orbit_def set_chain)
qed

lemma chain_full:
  "set (chain lk n x) = orbit lk x \<or> (distinct (chain lk n x) \<and> length (chain lk n x) = n)"
proof (induction n)
  case (Suc n)
  show ?case
  proof (cases "iter lk n x = None \<or> iter lk n x \<in> Some ` set (chain lk n x)")
    case True
    from iter_closed [OF this] have "set (chain lk n x) = orbit lk x" .
    moreover have "set (chain lk n x) \<subseteq> set (chain lk (Suc n) x)" unfolding set_chain by (blast intro: less_SucI)
    moreover have "set (chain lk (Suc n) x) \<subseteq> orbit lk x" by (auto simp: set_chain orbit_def)
    ultimately show ?thesis by blast
  next
    case False
    then obtain f where f: "iter lk n x = Some f" "f \<notin> set (chain lk n x)" by auto
    then have "f \<in> orbit lk x" by (auto simp: orbit_def)
    with f(2) Suc.IH have "distinct (chain lk n x)" "length (chain lk n x) = n" by auto
    then show ?thesis using f by (simp add: chain_snoc)
  qed
qed simp

lemma chain_covers:
  assumes "finite S" and "orbit lk x \<subseteq> S" and "card S \<le> n"
  shows "set (chain lk n x) = orbit lk x"
proof (rule disjE [OF chain_full [of lk n x]])
  assume full: "distinct (chain lk n x) \<and> length (chain lk n x) = n"
  have sub: "set (chain lk n x) \<subseteq> orbit lk x" by (auto simp: set_chain orbit_def)
  from full have "card (set (chain lk n x)) = n" by (simp add: distinct_card)
  with assms sub have "set (chain lk n x) = S" by (intro card_seteq) auto
  with assms(2) sub show ?thesis by blast
qed

lemma find_append: "find p (xs @ ys) = (case find p xs of None \<Rightarrow> find p ys | Some x \<Rightarrow> Some x)"
  by (induction xs) auto

text \<open>Two chains that visit the same folders find the same first one.\<close>

lemma find_chain_eq:
  assumes "set (chain lk n x) = set (chain lk m x)"
  shows "find p (chain lk n x) = find p (chain lk m x)"
proof -
  have "find p (chain lk i x) = find p (chain lk j x)" if le: "i \<le> j" and eq: "set (chain lk i x) = set (chain lk j x)" for i j
  proof -
    obtain rest where "chain lk j x = chain lk i x @ rest" using chain_prefix [of i j lk x] le by blast
    then have some: "find p (chain lk j x) = Some y" if "find p (chain lk i x) = Some y" for y
      using that by (simp add: find_append)
    have none: "find p (chain lk j x) = None" if "find p (chain lk i x) = None"
      using that eq by (metis find_None_iff)
    show ?thesis using some none by (cases "find p (chain lk i x)") auto
  qed
  then show ?thesis using assms by (metis nat_le_linear)
qed

lemma iter_cong:
  assumes "\<And>f. f \<in> orbit lk x \<Longrightarrow> parent_in lk' f = parent_in lk f"
  shows "iter lk' n x = iter lk n x"
proof (induction n)
  case (Suc n)
  have "f \<in> orbit lk x" if "iter lk n x = Some f" for f using that by (auto simp: orbit_def)
  with Suc assms show ?case by (cases "iter lk n x") auto
qed simp

lemma chain_cong:
  assumes "\<And>f. f \<in> orbit lk x \<Longrightarrow> parent_in lk' f = parent_in lk f"
  shows "chain lk' n x = chain lk n x"
  by (induction n) (simp_all add: chain_snoc iter_cong [of lk x lk', OF assms] del: chain.simps(2,3))

subsection \<open>Lookups\<close>

definition folder_ids_ok :: "folder list \<Rightarrow> bool" where
  "folder_ids_ok fs \<longleftrightarrow> distinct (map fo_id fs)"

lemma folder_ids_ok_filter [simp]: "folder_ids_ok fs \<Longrightarrow> folder_ids_ok (filter p fs)"
  by (simp add: folder_ids_ok_def distinct_map_filter)

lemma folder_ids_ok_in_org [simp]: "folder_ids_ok tab \<Longrightarrow> folder_ids_ok (in_org org tab)"
  by (simp add: in_org_def)

lemma set_in_org [simp]: "f \<in> set (in_org org tab) \<longleftrightarrow> f \<in> set tab \<and> fo_org f = org"
  by (simp add: in_org_def)

lemma ids_eqD: "folder_ids_ok fs \<Longrightarrow> f \<in> set fs \<Longrightarrow> g \<in> set fs \<Longrightarrow> fo_id f = fo_id g \<Longrightarrow> f = g"
  by (auto simp: folder_ids_ok_def distinct_map dest: inj_onD)

lemma by_id_Some: "folder_ids_ok fs \<Longrightarrow> by_id fs i = Some f \<longleftrightarrow> f \<in> set fs \<and> fo_id f = i"
proof
  assume ok: "folder_ids_ok fs" and f: "f \<in> set fs \<and> fo_id f = i"
  then obtain g where g: "by_id fs i = Some g"
    by (cases "by_id fs i") (auto simp: by_id_def find_None_iff)
  then have "g \<in> set fs \<and> fo_id g = i" by (auto simp: by_id_def dest: find_SomeD)
  with ids_eqD [OF ok, of f g] f g show "by_id fs i = Some f" by auto
qed (auto simp: by_id_def dest: find_SomeD)

lemma by_id_None: "by_id fs i = None \<longleftrightarrow> (\<forall>f \<in> set fs. fo_id f \<noteq> i)"
  by (auto simp: by_id_def find_None_iff)

lemma folder_get_Some: "folder_ids_ok tab \<Longrightarrow> folder_get org i tab = Some f \<longleftrightarrow> f \<in> set tab \<and> fo_org f = org \<and> fo_id f = i"
proof
  assume ok: "folder_ids_ok tab" and f: "f \<in> set tab \<and> fo_org f = org \<and> fo_id f = i"
  then obtain g where g: "folder_get org i tab = Some g"
    by (cases "folder_get org i tab") (auto simp: folder_get_def find_None_iff)
  then have "g \<in> set tab \<and> fo_id g = i" by (auto simp: folder_get_def dest: find_SomeD)
  with ids_eqD [OF ok, of f g] f g show "folder_get org i tab = Some f" by auto
qed (auto simp: folder_get_def dest: find_SomeD)

lemma size_of_ids_ok: "folder_ids_ok fs \<Longrightarrow> size_of fs = card (set fs)"
  by (simp add: size_of_def folder_ids_ok_def fromkeys_distinct distinct_card [symmetric] distinct_map card_image)

lemma parent_in_Some:
  "folder_ids_ok fs \<Longrightarrow> parent_in (by_id fs) f = Some g \<longleftrightarrow> g \<in> set fs \<and> fo_parent f = Some (fo_id g)"
  by (auto simp: parent_in_def by_id_Some split: option.splits)

lemma orbit_self [simp]: "f \<in> orbit lk (Some f)"
  unfolding orbit_def by (metis (mono_tags, lifting) iter.simps(1) mem_Collect_eq)

lemma orbit_step: "g \<in> orbit lk x \<Longrightarrow> parent_in lk g = Some h \<Longrightarrow> h \<in> orbit lk x"
proof -
  assume "g \<in> orbit lk x" and p: "parent_in lk g = Some h"
  then obtain n where "iter lk n x = Some g" by (auto simp: orbit_def)
  with p have "iter lk (Suc n) x = Some h" by simp
  then show ?thesis unfolding orbit_def by blast
qed

lemma orbit_parent: "parent_in lk f = Some g \<Longrightarrow> orbit lk (Some g) \<subseteq> orbit lk (Some f)"
proof
  fix h
  assume p: "parent_in lk f = Some g" and "h \<in> orbit lk (Some g)"
  then obtain n where "iter lk n (Some g) = Some h" by (auto simp: orbit_def)
  then have "iter lk (Suc n) (Some f) = Some h" unfolding iter_shift p .
  then show "h \<in> orbit lk (Some f)" unfolding orbit_def by blast
qed

lemma orbit_sub:
  assumes "x \<in> Some ` S" and "\<And>f g. f \<in> S \<Longrightarrow> parent_in lk f = Some g \<Longrightarrow> g \<in> S"
  shows "orbit lk x \<subseteq> S"
proof -
  have "f \<in> S" if "iter lk n x = Some f" for n f
    using that by (induction n arbitrary: f) (use assms in \<open>auto simp: bind_eq_Some_conv\<close>)
  then show ?thesis by (auto simp: orbit_def)
qed

text \<open>A part of the organization's table that holds the parents of its folders gives the same walks as the whole.\<close>

definition closed_part :: "uuid \<Rightarrow> folder list \<Rightarrow> folder list \<Rightarrow> bool" where
  "closed_part org tab rows \<longleftrightarrow> folder_ids_ok rows \<and> set rows \<subseteq> set (in_org org tab)
     \<and> (\<forall>f \<in> set rows. \<forall>g \<in> set (in_org org tab). fo_parent f = Some (fo_id g) \<longrightarrow> g \<in> set rows)"

lemma closed_part_self [simp]: "folder_ids_ok tab \<Longrightarrow> closed_part org tab (in_org org tab)"
  by (simp add: closed_part_def)

lemma closed_part_filter:
  assumes "folder_ids_ok tab"
    and "\<And>f g. f \<in> set (filter q (in_org org tab)) \<Longrightarrow> g \<in> set (in_org org tab) \<Longrightarrow> fo_parent f = Some (fo_id g) \<Longrightarrow>
      g \<in> set (filter q (in_org org tab))"
  shows "closed_part org tab (filter q (in_org org tab))"
  using assms by (auto simp: closed_part_def)

lemma closed_part_parent:
  assumes "folder_ids_ok tab" and "closed_part org tab rows" and "f \<in> set rows"
  shows "parent_in (by_id rows) f = parent_in (by_id (in_org org tab)) f"
proof -
  from assms have ok: "folder_ids_ok rows" "folder_ids_ok (in_org org tab)" by (simp_all add: closed_part_def)
  have "parent_in (by_id rows) f = Some g \<longleftrightarrow> parent_in (by_id (in_org org tab)) f = Some g" for g
    unfolding parent_in_Some [OF ok(1)] parent_in_Some [OF ok(2)] using assms(2,3)
    by (auto simp: closed_part_def)
  then show ?thesis by (metis not_Some_eq)
qed

lemma closed_part_walk:
  assumes ok: "folder_ids_ok tab" and cl: "closed_part org tab rows" and f: "f \<in> set rows"
    and n: "size_of rows \<le> n" and m: "size_of (in_org org tab) \<le> m"
  shows "find p (chain (by_id rows) n (Some f)) = find p (chain (by_id (in_org org tab)) m (Some f))"
proof -
  let ?lk = "by_id (in_org org tab)"
  from cl have okr: "folder_ids_ok rows" and sub: "set rows \<subseteq> set (in_org org tab)" by (simp_all add: closed_part_def)
  have step: "h \<in> set rows" if "g \<in> set rows" "parent_in ?lk g = Some h" for g h
    using that(2) unfolding closed_part_parent [OF ok cl that(1), symmetric] parent_in_Some [OF okr] by blast
  have sub_orbit: "orbit ?lk (Some f) \<subseteq> set rows"
    using f step by (intro orbit_sub) auto
  have eq: "chain (by_id rows) k (Some f) = chain ?lk k (Some f)" for k
    using sub_orbit by (intro chain_cong closed_part_parent [OF ok cl]) auto
  have "set (chain ?lk n (Some f)) = orbit ?lk (Some f)"
    by (rule chain_covers [OF _ sub_orbit]) (use n size_of_ids_ok [OF okr] in auto)
  moreover have "set (chain ?lk m (Some f)) = orbit ?lk (Some f)"
    by (rule chain_covers [OF _ subset_trans [OF sub_orbit sub]]) (use m size_of_ids_ok [OF folder_ids_ok_in_org [OF ok]] in auto)
  ultimately show ?thesis unfolding eq by (intro find_chain_eq) simp
qed

subsection \<open>Effective masks\<close>

text \<open>The first folder with a configuration of its own, from the folder itself upwards.\<close>

definition governing :: "uuid \<Rightarrow> folder list \<Rightarrow> folder \<Rightarrow> folder option" where
  "governing org tab f = find (\<lambda>g. fo_viewer g \<noteq> None)
     (chain (by_id (in_org org tab)) (size_of (in_org org tab) + 1) (Some f))"

definition masks_of :: "folder option \<Rightarrow> int list" where
  "masks_of x = (case x of None \<Rightarrow> [] | Some g \<Rightarrow> fo_view_masks g)"

lemma effective_walk_find:
  "effective_walk lk n x = masks_of (find (\<lambda>g. fo_viewer g \<noteq> None) (chain lk n x))"
  by (induction lk n x rule: effective_walk.induct) (auto simp: masks_of_def)

lemma effective_masks_governing:
  assumes "folder_ids_ok tab" and "closed_part org tab rows" and "f \<in> set rows"
  shows "effective_masks_by_parent f rows = masks_of (governing org tab f)"
  unfolding effective_masks_by_parent_def effective_walk_find governing_def
  by (rule arg_cong [of _ _ masks_of], rule closed_part_walk [OF assms]) auto

lemma set_ancestor_rows:
  "set (ancestor_rows org ids tab) = {r. \<exists>s \<in> set (in_org org tab). fo_id s \<in> set ids \<and>
     (s, r) \<in> {(f, up). fo_parent f = Some (fo_id up) \<and> up \<in> set (in_org org tab)}\<^sup>*}"
  unfolding ancestor_rows_def Let_def set_cte by auto

lemma set_subtree_rows:
  "set (subtree_rows org ids tab) = {r. \<exists>s \<in> set (in_org org tab). fo_id s \<in> set ids \<and>
     (s, r) \<in> {(up, f). fo_parent f = Some (fo_id up) \<and> f \<in> set (in_org org tab)}\<^sup>*}"
  unfolding subtree_rows_def Let_def set_cte by auto

lemma rtrancl_keeps:
  assumes "(s, r) \<in> R\<^sup>*" and "s \<in> S" and "\<And>x y. (x, y) \<in> R \<Longrightarrow> x \<in> S \<Longrightarrow> y \<in> S"
  shows "r \<in> S"
  using assms(1) by (induction rule: rtrancl_induct) (use assms(2,3) in blast)+

lemma ancestor_rows_in_org: "set (ancestor_rows org ids tab) \<subseteq> set (in_org org tab)"
  unfolding set_ancestor_rows by (auto dest: rtrancl_keeps [where S = "set (in_org org tab)"] simp del: set_in_org)

lemma subtree_rows_in_org: "set (subtree_rows org ids tab) \<subseteq> set (in_org org tab)"
  unfolding set_subtree_rows by (auto dest: rtrancl_keeps [where S = "set (in_org org tab)"] simp del: set_in_org)

lemma mem_by_ids:
  assumes "folder_ids_ok tab" and "set rows \<subseteq> set (in_org org tab)" and "f \<in> set (in_org org tab)"
  shows "fo_id f \<in> set (map fo_id rows) \<longleftrightarrow> f \<in> set rows"
  using assms ids_eqD [OF folder_ids_ok_in_org [OF assms(1)]] by (auto simp del: set_in_org)

lemma mem_ancestor_ids:
  "folder_ids_ok tab \<Longrightarrow> f \<in> set (in_org org tab) \<Longrightarrow> fo_id f \<in> set (ancestor_ids org ids tab) \<longleftrightarrow> f \<in> set (ancestor_rows org ids tab)"
  unfolding ancestor_ids_def by (rule mem_by_ids [OF _ ancestor_rows_in_org])

lemma mem_subtree_ids:
  "folder_ids_ok tab \<Longrightarrow> f \<in> set (in_org org tab) \<Longrightarrow> fo_id f \<in> set (subtree_ids org ids tab) \<longleftrightarrow> f \<in> set (subtree_rows org ids tab)"
  unfolding subtree_ids_def by (rule mem_by_ids [OF _ subtree_rows_in_org])

lemma ancestor_rows_step:
  "f \<in> set (ancestor_rows org ids tab) \<Longrightarrow> g \<in> set (in_org org tab) \<Longrightarrow> fo_parent f = Some (fo_id g)
    \<Longrightarrow> g \<in> set (ancestor_rows org ids tab)"
  unfolding set_ancestor_rows by (auto simp del: set_in_org intro!: bexI intro: rtrancl_into_rtrancl)

lemma subtree_rows_step:
  "f \<in> set (subtree_rows org ids tab) \<Longrightarrow> g \<in> set (in_org org tab) \<Longrightarrow> fo_parent g = Some (fo_id f)
    \<Longrightarrow> g \<in> set (subtree_rows org ids tab)"
  unfolding set_subtree_rows by (auto simp del: set_in_org intro!: bexI intro: rtrancl_into_rtrancl)

lemma ancestors_closed_part:
  assumes "folder_ids_ok tab"
  shows "closed_part org tab (filter (\<lambda>g. fo_id g \<in> set (ancestor_ids org ids tab)) (in_org org tab))" (is "closed_part _ _ ?rows")
proof -
  have "g \<in> set ?rows \<longleftrightarrow> g \<in> set (ancestor_rows org ids tab)" for g
    using mem_ancestor_ids [OF assms] ancestor_rows_in_org [of org ids tab] by (auto simp del: set_in_org)
  then show ?thesis using ancestor_rows_step [of _ org ids tab]
    by (intro closed_part_filter [OF assms]) blast
qed

lemma effective_nearest:
  assumes ok: "folder_ids_ok tab" and f: "f \<in> set (in_org org tab)" and True: "fo_viewer f = None"
  shows "nearest_configured_ancestor org f tab = governing org tab f"
proof -
  let ?lk = "by_id (in_org org tab)" and ?c = "\<lambda>g. fo_viewer g \<noteq> None"
  have gov: "governing org tab f = find ?c (chain ?lk (size_of (in_org org tab)) (parent_in ?lk f))"
    using True by (simp add: governing_def)
  show ?thesis
  proof (cases "fo_parent f")
    case None
    then have "governing org tab f = None"
      unfolding gov by (cases "size_of (in_org org tab)") (simp_all add: parent_in_def)
    with None show ?thesis by (simp add: nearest_configured_ancestor_def ancestors_def)
  next
    case (Some p)
    let ?rows = "filter (\<lambda>g. fo_id g \<in> set (ancestor_ids org [p] tab)) (in_org org tab)"
    have cl: "closed_part org tab ?rows" by (rule ancestors_closed_part [OF ok])
    have "by_id ?rows p = ?lk p"
    proof (cases "?lk p")
      case None
      then have "by_id ?rows p = None" by (simp add: by_id_None)
      with None show ?thesis by simp
    next
      case (Some g)
      then have g: "g \<in> set (in_org org tab)" "fo_id g = p" by (simp_all add: by_id_Some ok)
      then have "g \<in> set (ancestor_rows org [p] tab)" unfolding set_ancestor_rows by auto
      then have "g \<in> set ?rows" using mem_ancestor_ids [OF ok g(1), of "[p]"] g(1) by simp
      then have "by_id ?rows p = Some g" using ok g(2) by (subst by_id_Some) auto
      with Some show ?thesis by simp
    qed
    moreover have "find ?c (chain (by_id ?rows) (size_of ?rows + 1) (by_id ?rows p))
      = find ?c (chain ?lk (size_of (in_org org tab)) (?lk p))"
    proof (cases "by_id ?rows p")
      case None
      with calculation show ?thesis by (cases "size_of (in_org org tab)") simp_all
    next
      case (Some g)
      then have "g \<in> set ?rows" using ok by (auto simp: by_id_Some)
      from closed_part_walk [OF ok cl this, of "size_of ?rows + 1" "size_of (in_org org tab)" ?c]
      show ?thesis using Some calculation by simp
    qed
    ultimately show ?thesis
      unfolding gov nearest_configured_ancestor_def ancestors_def parent_in_def using Some by (simp add: Let_def)
  qed
qed

lemma effective_view_masks_governing:
  assumes "folder_ids_ok tab" and "f \<in> set (in_org org tab)"
  shows "effective_view_masks org (Some f) tab = masks_of (governing org tab f)"
  using effective_nearest [OF assms] by (auto simp: effective_view_masks_def governing_def masks_of_def)

lemma is_visible_folder_visible:
  assumes "folder_ids_ok tab" and "closed_part org tab rows" and "f \<in> set rows"
  shows "is_visible f rows ms \<longleftrightarrow> folder_visible org f (Some ms) tab"
proof -
  have f: "f \<in> set (in_org org tab)" using assms by (auto simp: closed_part_def simp del: set_in_org)
  show ?thesis
    unfolding is_visible_def folder_visible_def Let_def effective_masks_governing [OF assms] option.case overlaps_def
      effective_view_masks_governing [OF assms(1) f] by (auto simp: list_ex_iff)
qed

lemma visible_subtrees_closed_part:
  assumes "folder_ids_ok tab"
  shows "closed_part org tab (filter (\<lambda>f. fo_id f \<in> set (subtree_ids org ids tab)
    \<or> fo_id f \<in> set (ancestor_ids org ids tab)) (in_org org tab))" (is "closed_part _ _ ?rows")
proof -
  let ?down = "set (subtree_rows org ids tab)" and ?up = "set (ancestor_rows org ids tab)"
  have mem: "g \<in> set ?rows \<longleftrightarrow> g \<in> ?down \<or> g \<in> ?up" for g
    using mem_ancestor_ids [OF assms, of g] mem_subtree_ids [OF assms, of g]
      ancestor_rows_in_org [of org ids tab] subtree_rows_in_org [of org ids tab]
    by (auto simp del: set_in_org)
  have "g \<in> ?down \<or> g \<in> ?up" if fd: "f \<in> ?down" and g: "g \<in> set (in_org org tab)" "fo_parent f = Some (fo_id g)" for f g
  proof -
    from fd obtain s where s: "s \<in> set (in_org org tab)" "fo_id s \<in> set ids"
      and path: "(s, f) \<in> {(up, f). fo_parent f = Some (fo_id up) \<and> f \<in> set (in_org org tab)}\<^sup>*"
      by (auto simp: set_subtree_rows)
    from path show ?thesis
    proof (cases rule: rtranclE)
      case base
      have "s \<in> ?up" using s by (auto simp: set_ancestor_rows)
      then show ?thesis using base g ancestor_rows_step by blast
    next
      case (step y)
      have "y \<in> ?down" using s step(1) by (auto simp: set_subtree_rows)
      moreover have "y = g"
        using step(2) g subtree_rows_in_org [of org ids tab] calculation ids_eqD [OF folder_ids_ok_in_org [OF assms]] by auto
      ultimately show ?thesis by simp
    qed
  qed
  then show ?thesis using ancestor_rows_step [of _ org ids tab] mem
    by (intro closed_part_filter [OF assms]) blast
qed

lemma list_visible_iff:
  assumes "folder_ids_ok tab"
  shows "f \<in> set (fst (list_visible_to_masks org masks None None tab)) \<longleftrightarrow>
    f \<in> set tab \<and> fo_org f = org \<and> folder_visible org f masks tab"
proof (cases masks)
  case None
  then show ?thesis by (simp add: list_visible_to_masks_def page_def folder_visible_def)
next
  case (Some ms)
  have part: "closed_part org tab (sort_key fo_path (in_org org tab))"
  proof -
    have "folder_ids_ok (sort_key fo_path (in_org org tab))"
      using folder_ids_ok_in_org [OF assms, of org] by (simp add: folder_ids_ok_def distinct_map)
    then show ?thesis by (simp add: closed_part_def)
  qed
  then show ?thesis
    using Some is_visible_folder_visible [OF assms part] by (auto simp: list_visible_to_masks_def page_def Let_def)
qed

lemma visible_subtrees_iff:
  assumes "folder_ids_ok tab"
  shows "(i, b) \<in> set (visible_subtrees org ids masks tab) \<longleftrightarrow>
    (\<exists>f \<in> set (subtree_rows org ids tab). fo_id f = i \<and> b = folder_visible org f (Some masks) tab)"
proof -
  have ids: "subtree_rows org (fromkeys ids) tab = subtree_rows org ids tab" by (simp add: subtree_rows_def)
  let ?rows = "filter (\<lambda>f. fo_id f \<in> set (subtree_ids org (fromkeys ids) tab)
      \<or> fo_id f \<in> set (ancestor_ids org (fromkeys ids) tab)) (in_org org tab)"
  have part: "closed_part org tab ?rows" by (rule visible_subtrees_closed_part [OF assms])
  have mem: "f \<in> set ?rows \<and> fo_id f \<in> set (subtree_ids org (fromkeys ids) tab) \<longleftrightarrow> f \<in> set (subtree_rows org ids tab)" for f
    using mem_subtree_ids [OF assms, of f org "fromkeys ids"] subtree_rows_in_org [of org ids tab] ids
    by (auto simp del: set_in_org)
  show ?thesis
  proof (cases "ids = []")
    case True
    then show ?thesis by (simp add: visible_subtrees_def set_subtree_rows)
  next
    case False
    then have vs: "visible_subtrees org ids masks tab = map (\<lambda>f. (fo_id f, is_visible f ?rows masks))
        (filter (\<lambda>f. fo_id f \<in> set (subtree_ids org (fromkeys ids) tab)) ?rows)"
      by (simp add: visible_subtrees_def Let_def)
    have "is_visible f ?rows masks = folder_visible org f (Some masks) tab" if "f \<in> set (subtree_rows org ids tab)" for f
      using that mem [of f] is_visible_folder_visible [OF assms part] by blast
    then show ?thesis unfolding vs using mem by (auto simp del: set_in_org filter_filter simp: image_iff)
  qed
qed

subsection \<open>The tree as a relation\<close>

definition irel :: "uuid \<Rightarrow> folder list \<Rightarrow> (uuid \<times> uuid) set" where
  "irel org tab = {(fo_id f, fo_id p) | f p. f \<in> set (in_org org tab) \<and> p \<in> set (in_org org tab) \<and> fo_parent f = Some (fo_id p)}"

lemma irelI: "f \<in> set (in_org org tab) \<Longrightarrow> p \<in> set (in_org org tab) \<Longrightarrow> fo_parent f = Some (fo_id p) \<Longrightarrow>
    (fo_id f, fo_id p) \<in> irel org tab"
  unfolding irel_def by blast

lemma irelE:
  assumes "(i, j) \<in> irel org tab"
  obtains f p where "f \<in> set (in_org org tab)" "p \<in> set (in_org org tab)" "fo_parent f = Some (fo_id p)" "i = fo_id f" "j = fo_id p"
  using assms unfolding irel_def by blast

lemma irel_from:
  assumes "folder_ids_ok tab" and "f \<in> set (in_org org tab)" and "(fo_id f, j) \<in> irel org tab"
  obtains p where "p \<in> set (in_org org tab)" "fo_parent f = Some (fo_id p)" "j = fo_id p"
proof -
  from assms(3) obtain f' p where f': "f' \<in> set (in_org org tab)" and p: "p \<in> set (in_org org tab)"
    "fo_parent f' = Some (fo_id p)" "j = fo_id p" and id: "fo_id f = fo_id f'" by (elim irelE)
  have "f' = f" using ids_eqD [OF folder_ids_ok_in_org [OF assms(1)] f' assms(2)] id by simp
  with p that show ?thesis by simp
qed

lemma irel_single_valued: "folder_ids_ok tab \<Longrightarrow> (i, j) \<in> irel org tab \<Longrightarrow> (i, k) \<in> irel org tab \<Longrightarrow> j = k"
  by (metis irelE irel_from option.inject)

lemma irel_sub: "irel org tab \<subseteq> fo_id ` set (in_org org tab) \<times> fo_id ` set (in_org org tab)"
  by (auto simp: irel_def simp del: set_in_org)

lemma above_sub: "{j. (i, j) \<in> (irel org tab)\<^sup>+} \<subseteq> fo_id ` set (in_org org tab)"
  using trancl_subset_Sigma [OF irel_sub, of org tab] by blast

lemma finite_above [simp]: "finite {j. (i, j) \<in> (irel org tab)\<^sup>+}"
  using above_sub by (rule finite_subset) simp

lemma orbit_irel:
  assumes ok: "folder_ids_ok tab" and f: "f \<in> set (in_org org tab)"
  shows "g \<in> orbit (by_id (in_org org tab)) (Some f) \<longleftrightarrow> g \<in> set (in_org org tab) \<and> (fo_id f, fo_id g) \<in> (irel org tab)\<^sup>*"
proof
  let ?lk = "by_id (in_org org tab)"
  assume "g \<in> orbit ?lk (Some f)"
  moreover have "orbit ?lk (Some f) \<subseteq> {g \<in> set (in_org org tab). (fo_id f, fo_id g) \<in> (irel org tab)\<^sup>*}"
  proof (rule orbit_sub)
    fix x y
    assume x: "x \<in> {g \<in> set (in_org org tab). (fo_id f, fo_id g) \<in> (irel org tab)\<^sup>*}" and "parent_in ?lk x = Some y"
    then have "y \<in> set (in_org org tab)" "fo_parent x = Some (fo_id y)"
      unfolding parent_in_Some [OF folder_ids_ok_in_org [OF ok]] by auto
    with x show "y \<in> {g \<in> set (in_org org tab). (fo_id f, fo_id g) \<in> (irel org tab)\<^sup>*}"
      using irelI [of x org tab y] by (auto simp del: set_in_org intro: rtrancl_into_rtrancl)
  qed (use f in auto)
  ultimately show "g \<in> set (in_org org tab) \<and> (fo_id f, fo_id g) \<in> (irel org tab)\<^sup>*" by blast
next
  let ?lk = "by_id (in_org org tab)"
  assume g: "g \<in> set (in_org org tab) \<and> (fo_id f, fo_id g) \<in> (irel org tab)\<^sup>*"
  have "\<exists>h \<in> orbit ?lk (Some f). h \<in> set (in_org org tab) \<and> fo_id h = i" if "(fo_id f, i) \<in> (irel org tab)\<^sup>*" for i
    using that
  proof (induction rule: rtrancl_induct)
    case base
    then show ?case using f orbit_self by blast
  next
    case (step j k)
    then obtain h where h: "h \<in> orbit ?lk (Some f)" "h \<in> set (in_org org tab)" "fo_id h = j" by blast
    with step(2) obtain p where p: "p \<in> set (in_org org tab)" "fo_parent h = Some (fo_id p)" "k = fo_id p"
      using irel_from [OF ok h(2)] by metis
    then have "parent_in ?lk h = Some p" using parent_in_Some [OF folder_ids_ok_in_org [OF ok]] by blast
    with orbit_step [OF h(1) this] p show ?case by blast
  qed
  with g obtain h where "h \<in> orbit ?lk (Some f)" "h \<in> set (in_org org tab)" "fo_id h = fo_id g" by blast
  with g ids_eqD [OF folder_ids_ok_in_org [OF ok], where f = h and g = g] show "g \<in> orbit ?lk (Some f)" by blast
qed

lemma set_ancestors:
  assumes ok: "folder_ids_ok tab" and f: "f \<in> set (in_org org tab)"
  shows "g \<in> set (ancestors org f tab) \<longleftrightarrow> g \<in> set (in_org org tab) \<and> (fo_id f, fo_id g) \<in> (irel org tab)\<^sup>+"
proof (cases "\<exists>p \<in> set (in_org org tab). fo_parent f = Some (fo_id p)")
  case True
  let ?lk = "by_id (in_org org tab)"
  from True obtain p where p: "p \<in> set (in_org org tab)" "fo_parent f = Some (fo_id p)" by blast
  let ?rows = "filter (\<lambda>g. fo_id g \<in> set (ancestor_ids org [fo_id p] tab)) (in_org org tab)"
  have cl: "closed_part org tab ?rows" by (rule ancestors_closed_part [OF ok])
  have "p \<in> set (ancestor_rows org [fo_id p] tab)" using p by (auto simp: set_ancestor_rows)
  then have pr: "p \<in> set ?rows" using mem_ancestor_ids [OF ok p(1), of "[fo_id p]"] p(1) by simp
  have okr: "folder_ids_ok ?rows" using ok by simp
  have step: "h \<in> set ?rows" if "g \<in> set ?rows" "parent_in ?lk g = Some h" for g h
    using that(2) unfolding closed_part_parent [OF ok cl that(1), symmetric] parent_in_Some [OF okr] by blast
  have sub: "orbit ?lk (Some p) \<subseteq> set ?rows"
    by (rule orbit_sub [OF imageI [OF pr] step])
  have "by_id ?rows (fo_id p) = Some p" using pr okr by (subst by_id_Some) auto
  then have "ancestors org f tab = chain (by_id ?rows) (size_of ?rows + 1) (Some p)"
    unfolding ancestors_def p(2) option.case Let_def by (rule arg_cong)
  also have "\<dots> = chain ?lk (size_of ?rows + 1) (Some p)"
    using sub by (intro chain_cong closed_part_parent [OF ok cl]) auto
  finally have anc: "ancestors org f tab = chain ?lk (size_of ?rows + 1) (Some p)" .
  have "card (set ?rows) \<le> size_of ?rows + 1" unfolding size_of_ids_ok [OF okr] by (rule le_add1)
  then have "set (ancestors org f tab) = orbit ?lk (Some p)"
    unfolding anc by (rule chain_covers [OF finite_set sub])
  then have "g \<in> set (ancestors org f tab) \<longleftrightarrow> g \<in> set (in_org org tab) \<and> (fo_id p, fo_id g) \<in> (irel org tab)\<^sup>*"
    using orbit_irel [OF ok p(1)] by blast
  also have "\<dots> \<longleftrightarrow> g \<in> set (in_org org tab) \<and> (fo_id f, fo_id g) \<in> (irel org tab)\<^sup>+"
  proof -
    have fp: "(fo_id f, fo_id p) \<in> irel org tab" by (rule irelI [OF f p])
    have "(fo_id p, fo_id g) \<in> (irel org tab)\<^sup>*" if "(fo_id f, fo_id g) \<in> (irel org tab)\<^sup>+"
      using tranclD [OF that] irel_single_valued [OF ok fp] by blast
    then show ?thesis using fp rtrancl_into_trancl2 by metis
  qed
  finally show ?thesis .
next
  case False
  have none: "(fo_id f, j) \<notin> (irel org tab)\<^sup>+" for j
  proof
    assume "(fo_id f, j) \<in> (irel org tab)\<^sup>+"
    then obtain k where "(fo_id f, k) \<in> irel org tab" by (auto dest: tranclD)
    then obtain p where "p \<in> set (in_org org tab)" "fo_parent f = Some (fo_id p)" by (rule irel_from [OF ok f])
    with False show False by blast
  qed
  have "ancestors org f tab = []"
  proof (cases "fo_parent f")
    case (Some i)
    with False have "by_id (filter (\<lambda>g. fo_id g \<in> set (ancestor_ids org [i] tab)) (in_org org tab)) i = None"
      by (auto simp: by_id_None)
    then show ?thesis using Some by (simp add: ancestors_def Let_def)
  qed (simp add: ancestors_def)
  with none show ?thesis by simp
qed

end
