(* ===== verification/Folder_Paths.thy ===== *)
theory Folder_Paths
  imports Folder_Tree_Props
begin

section \<open>The paths of the folders\<close>

text \<open>
  The stored path of a folder is the path of its parent, a dot and its name. A rewrite collects the subtree
  level by level; in a tree without cycles no deeper than the bound it reaches every descendant exactly once, so
  after it all paths are right again. From this: creating, renaming and moving folders keeps a tree a
  tree and its paths in step with the names.
\<close>

subsection \<open>Levels\<close>

definition level :: "uuid \<Rightarrow> folder list \<Rightarrow> nat \<Rightarrow> (uuid \<times> string) list \<Rightarrow> (uuid \<times> string) list" where
  "level org tab k start = (next_level org tab ^^ k) start"

lemma mem_next_level:
  "(j, q) \<in> set (next_level org tab lv) \<longleftrightarrow>
    (\<exists>i path f. (i, path) \<in> set lv \<and> f \<in> set (in_org org tab) \<and> fo_parent f = Some i \<and> j = fo_id f
       \<and> q = path @ ''.'' @ fo_name f)"
  by (fastforce simp: next_level_def simp del: set_in_org)

lemma set_path_rows: "set (path_rows org tab n lv) = (\<Union>k \<le> n. set (level org tab k lv))"
proof (induction n arbitrary: lv)
  case 0
  show ?case by (subst path_rows.simps) (simp add: level_def)
next
  case (Suc n)
  show ?case
  proof (cases "lv = []")
    case True
    have "level org tab k [] = []" for k
      by (induction k) (simp_all add: level_def next_level_def)
    then show ?thesis using True by (subst path_rows.simps) simp
  next
    case False
    have "set (path_rows org tab (Suc n) lv) = set lv \<union> (\<Union>k \<le> n. set (level org tab (Suc k) lv))"
      using False Suc.IH [of "next_level org tab lv"]
      by (subst path_rows.simps) (simp add: level_def funpow_swap1)
    also have "\<dots> = (\<Union>k \<le> Suc n. set (level org tab k lv))"
      unfolding atMost_Suc_eq_insert_0 by (simp add: level_def)
    finally show ?thesis .
  qed
qed

lemma level_relpow:
  assumes ok: "folder_ids_ok tab" and i: "i \<in> fo_id ` set (in_org org tab)" and "(j, q) \<in> set (level org tab k [(i, prefix)])"
  shows "(j, i) \<in> irel org tab ^^ k \<and> j \<in> fo_id ` set (in_org org tab)"
  using assms(3)
proof (induction k arbitrary: j q)
  case (Suc k)
  then obtain i' path f where prev: "(i', path) \<in> set (level org tab k [(i, prefix)])"
    and f: "f \<in> set (in_org org tab)" "fo_parent f = Some i'" "j = fo_id f"
    by (auto simp: level_def mem_next_level simp del: set_in_org)
  from Suc.IH [OF prev] obtain p where p: "p \<in> set (in_org org tab)" "i' = fo_id p"
    and rel: "(i', i) \<in> irel org tab ^^ k" by blast
  have "(j, i') \<in> irel org tab" using irelI [of f org tab p] f p by simp
  with rel f show ?case by (metis image_eqI relpow_Suc_I2)
qed (use i in \<open>simp add: level_def\<close>)

lemma level_step:
  assumes "(i, path) \<in> set (level org tab k start)" and "f \<in> set (in_org org tab)" and "fo_parent f = Some i"
  shows "(fo_id f, path @ ''.'' @ fo_name f) \<in> set (level org tab (Suc k) start)"
  using assms unfolding level_def by (auto simp: mem_next_level simp del: set_in_org)

lemma relpow_level:
  assumes ok: "folder_ids_ok tab"
  shows "(j, i) \<in> irel org tab ^^ k \<Longrightarrow> \<exists>q. (j, q) \<in> set (level org tab k [(i, prefix)])"
proof (induction k arbitrary: j)
  case (Suc k)
  then obtain m where m: "(j, m) \<in> irel org tab" "(m, i) \<in> irel org tab ^^ k" by (meson relpow_Suc_D2)
  from Suc.IH [OF m(2)] obtain q where "(m, q) \<in> set (level org tab k [(i, prefix)])" by blast
  moreover from m(1) obtain f where "f \<in> set (in_org org tab)" "fo_parent f = Some m" "j = fo_id f" by (metis irelE)
  ultimately show ?case using level_step by blast
qed (simp add: level_def)

lemma level_unique:
  assumes ok: "folder_ids_ok tab"
  shows "(j, q) \<in> set (level org tab k [(i, prefix)]) \<Longrightarrow> (j, q') \<in> set (level org tab k [(i, prefix)]) \<Longrightarrow> q = q'"
proof (induction k arbitrary: j q q')
  case (Suc k)
  from Suc.prems obtain a b f g where
      a: "(a, b) \<in> set (level org tab k [(i, prefix)])" "f \<in> set (in_org org tab)" "fo_parent f = Some a" "j = fo_id f"
        "q = b @ ''.'' @ fo_name f"
    and g: "\<exists>c d. (c, d) \<in> set (level org tab k [(i, prefix)]) \<and> fo_parent g = Some c \<and> q' = d @ ''.'' @ fo_name g"
      "g \<in> set (in_org org tab)" "j = fo_id g"
    by (auto simp: level_def mem_next_level simp del: set_in_org)
  have "g = f" using ids_eqD [OF folder_ids_ok_in_org [OF ok] g(2) a(2)] g(3) a(4) by simp
  with g(1) a Suc.IH show ?case by auto
qed (simp add: level_def)

text \<open>In a relation without cycles a path of \<open>n\<close> steps passes \<open>n\<close> elements.\<close>

lemma relpow_le_above:
  assumes "acyclic R" and "\<And>i. finite {j. (i, j) \<in> R\<^sup>+}"
  shows "(i, j) \<in> R ^^ n \<Longrightarrow> n \<le> card {k. (i, k) \<in> R\<^sup>+}"
proof (induction n arbitrary: i)
  case (Suc n)
  then obtain m where m: "(i, m) \<in> R" "(m, j) \<in> R ^^ n" by (meson relpow_Suc_D2)
  have "{k. (m, k) \<in> R\<^sup>+} \<subset> {k. (i, k) \<in> R\<^sup>+}"
  proof
    show "{k. (m, k) \<in> R\<^sup>+} \<subseteq> {k. (i, k) \<in> R\<^sup>+}" using m(1) by (auto intro: trancl_into_trancl2)
    show "{k. (m, k) \<in> R\<^sup>+} \<noteq> {k. (i, k) \<in> R\<^sup>+}" using m(1) assms(1) unfolding acyclic_def by blast
  qed
  then have "card {k. (m, k) \<in> R\<^sup>+} < card {k. (i, k) \<in> R\<^sup>+}" using assms(2) by (rule psubset_card_mono [rotated])
  with Suc.IH [OF m(2)] show ?case by simp
qed simp

lemma relpow_unique:
  assumes "acyclic R" and "\<And>a b c. (a, b) \<in> R \<Longrightarrow> (a, c) \<in> R \<Longrightarrow> b = c"
  shows "(j, i) \<in> R ^^ n \<Longrightarrow> (j, i) \<in> R ^^ m \<Longrightarrow> n = m"
proof (induction n arbitrary: j m)
  case 0
  then show ?case using assms(1) by (cases m) (auto simp: acyclic_def dest: relpow_Suc_I relpow_imp_rtrancl
        intro: rtrancl_into_trancl1)
next
  case (Suc n)
  then obtain a where a: "(j, a) \<in> R" "(a, i) \<in> R ^^ n" by (meson relpow_Suc_D2)
  show ?case
  proof (cases m)
    case 0
    with Suc.prems a have "(i, a) \<in> R" "(a, i) \<in> R\<^sup>*" by (auto dest: relpow_imp_rtrancl)
    with assms(1) show ?thesis unfolding acyclic_def by (meson rtrancl_into_trancl2)
  next
    case (Suc m')
    with Suc.prems obtain b where "(j, b) \<in> R" "(b, i) \<in> R ^^ m'" by (meson relpow_Suc_D2)
    with a assms(2) have "(a, i) \<in> R ^^ m'" by metis
    with Suc.IH a(2) show ?thesis using \<open>m = Suc m'\<close> by simp
  qed
qed

subsection \<open>A rewrite\<close>

definition shallow :: "uuid \<Rightarrow> folder list \<Rightarrow> bool" where
  "shallow org tab \<longleftrightarrow> (\<forall>i. card {j. (i, j) \<in> (irel org tab)\<^sup>+} \<le> MAX_DEPTH)"

definition path_of :: "uuid \<Rightarrow> folder list \<Rightarrow> folder \<Rightarrow> string" where
  "path_of org tab f = build_dot_path org (fo_name f) (fo_parent f) tab"

definition paths_ok :: "uuid \<Rightarrow> folder list \<Rightarrow> bool" where
  "paths_ok org tab \<longleftrightarrow> (\<forall>f \<in> set (in_org org tab). fo_path f = path_of org tab f)"

lemma map_of_functional:
  "(\<And>j q q'. (j, q) \<in> set xs \<Longrightarrow> (j, q') \<in> set xs \<Longrightarrow> q = q') \<Longrightarrow> map_of xs j = Some q \<longleftrightarrow> (j, q) \<in> set xs"
proof -
  assume f: "\<And>j q q'. (j, q) \<in> set xs \<Longrightarrow> (j, q') \<in> set xs \<Longrightarrow> q = q'"
  show ?thesis
  proof
    assume q: "(j, q) \<in> set xs"
    then obtain q' where "map_of xs j = Some q'" by (metis weak_map_of_SomeI)
    then show "map_of xs j = Some q" using f [OF q map_of_SomeD] by simp
  qed (rule map_of_SomeD)
qed

lemma filter_one:
  assumes "folder_ids_ok tab" and "f \<in> set (in_org org tab)"
  shows "filter (\<lambda>g. fo_id g = fo_id f) (in_org org tab) = [f]"
proof -
  have "distinct (filter (\<lambda>g. fo_id g = fo_id f) (in_org org tab))"
    using folder_ids_ok_in_org [OF assms(1), of org] by (simp add: folder_ids_ok_def distinct_map)
  moreover have "set (filter (\<lambda>g. fo_id g = fo_id f) (in_org org tab)) = {f}"
    using ids_eqD [OF folder_ids_ok_in_org [OF assms(1)], where g = f] assms(2) by (auto simp del: set_in_org)
  ultimately show ?thesis by (metis distinct_length_2_or_more list.set_intros(1) list.exhaust set_empty2
        insert_not_empty list.set_intros(2) singletonD set_ConsD)
qed

text \<open>A table in which only the path of \<open>apex\<close> is out of date, and the path it should have.\<close>

definition rewritable :: "uuid \<Rightarrow> folder list \<Rightarrow> folder \<Rightarrow> bool" where
  "rewritable org tab apex \<longleftrightarrow> folder_ids_ok tab \<and> acyclic (irel org tab) \<and> shallow org tab \<and> apex \<in> set (in_org org tab)
     \<and> (\<forall>f \<in> set (in_org org tab). f \<noteq> apex \<longrightarrow> fo_path f = path_of org tab f)"

lemma rewritableD:
  assumes "rewritable org tab apex"
  shows "folder_ids_ok tab" "acyclic (irel org tab)" "shallow org tab" "apex \<in> set (in_org org tab)"
    "f \<in> set (in_org org tab) \<Longrightarrow> f \<noteq> apex \<Longrightarrow> fo_path f = path_of org tab f"
  using assms by (simp_all add: rewritable_def del: set_in_org)

abbreviation lvl :: "uuid \<Rightarrow> folder list \<Rightarrow> folder \<Rightarrow> nat \<Rightarrow> (uuid \<times> string) list" where
  "lvl org tab apex k \<equiv> level org tab k [(fo_id apex, path_of org tab apex)]"

definition rw_rows :: "uuid \<Rightarrow> folder list \<Rightarrow> folder \<Rightarrow> (uuid \<times> string) list" where
  "rw_rows org tab apex = path_rows org tab MAX_DEPTH [(fo_id apex, path_of org tab apex)]"

definition renewed :: "uuid \<Rightarrow> folder list \<Rightarrow> folder \<Rightarrow> folder \<Rightarrow> folder" where
  "renewed org tab apex f = (if fo_org f = org
     then (case dget (rw_rows org tab apex) (fo_id f) of None \<Rightarrow> f | Some path \<Rightarrow> f\<lparr>fo_path := path\<rparr>) else f)"

lemma renewed_fields [simp]: "fo_id (renewed org tab apex f) = fo_id f" "fo_org (renewed org tab apex f) = fo_org f"
  "fo_parent (renewed org tab apex f) = fo_parent f" "fo_name (renewed org tab apex f) = fo_name f"
  by (simp_all add: renewed_def split: option.splits)

lemma rewrite_eq:
  assumes "rewritable org tab apex"
  shows "rewrite_subtree_paths org (path_of org tab apex) (fo_id apex) tab = map (renewed org tab apex) tab"
  unfolding rewrite_subtree_paths_def filter_one [OF rewritableD(1,4) [OF assms]]
  by (simp add: Let_def rw_rows_def [symmetric] renewed_def)

lemma lvl_rel: "rewritable org tab apex \<Longrightarrow> (j, q) \<in> set (lvl org tab apex k) \<Longrightarrow> (j, fo_id apex) \<in> irel org tab ^^ k"
  using level_relpow rewritableD(1,4) by blast

lemma rw_rows_iff:
  assumes rw: "rewritable org tab apex"
  shows "dget (rw_rows org tab apex) j = Some q \<longleftrightarrow> (\<exists>k. (j, q) \<in> set (lvl org tab apex k))"
proof -
  note ok = rewritableD(1) [OF rw] and acy = rewritableD(2) [OF rw]
  have bound: "k \<le> MAX_DEPTH" if "(j, q) \<in> set (lvl org tab apex k)" for j q k
    using relpow_le_above [OF acy finite_above lvl_rel [OF rw that]] rewritableD(3) [OF rw, unfolded shallow_def]
      le_trans by blast
  have "q = q'" if "(j, q) \<in> set (lvl org tab apex k)" "(j, q') \<in> set (lvl org tab apex k')" for j q q' k k'
  proof -
    have "k = k'"
      by (rule relpow_unique [OF acy _ lvl_rel [OF rw that(1)] lvl_rel [OF rw that(2)]]) (rule irel_single_valued [OF ok])
    with that show ?thesis using level_unique [OF ok] by blast
  qed
  then have "map_of (rw_rows org tab apex) j = Some q \<longleftrightarrow> (j, q) \<in> set (rw_rows org tab apex)"
    by (intro map_of_functional) (auto simp: rw_rows_def set_path_rows)
  then show ?thesis using bound by (auto simp: dget_def rw_rows_def set_path_rows)
qed

lemma renewed_unreached:
  assumes rw: "rewritable org tab apex" and "(fo_id f, fo_id apex) \<notin> (irel org tab)\<^sup>*"
  shows "renewed org tab apex f = f"
proof -
  have "dget (rw_rows org tab apex) (fo_id f) \<noteq> Some q" for q
    unfolding rw_rows_iff [OF rw] using lvl_rel [OF rw] assms(2) by (meson rtrancl_power)
  then show ?thesis by (cases "dget (rw_rows org tab apex) (fo_id f)") (auto simp: renewed_def)
qed

lemma get_parent_map:
  assumes "\<And>f. fo_id (g f) = fo_id f \<and> fo_org (g f) = fo_org f"
  shows "get_parent org p (map g tab) = map_option g (get_parent org p tab)"
proof -
  have "find P (map g xs) = map_option g (find (\<lambda>f. P (g f)) xs)" for P xs by (induction xs) auto
  with assms show ?thesis by (simp add: get_parent_def folder_get_def split: option.splits)
qed

lemma get_parent_rel:
  assumes "folder_ids_ok tab" and "f \<in> set (in_org org tab)" and "get_parent org (fo_parent f) tab = Some p"
  shows "p \<in> set (in_org org tab) \<and> fo_parent f = Some (fo_id p) \<and> (fo_id f, fo_id p) \<in> irel org tab"
  using assms irelI [OF assms(2), of p] by (auto simp: get_parent_def folder_get_Some split: option.splits)

text \<open>After the rewrite the path of a folder is made of the renewed path of its parent.\<close>

lemma renewed_top:
  assumes rw: "rewritable org tab apex"
  shows "fo_path (renewed org tab apex apex) = under (map_option (renewed org tab apex) (get_parent org (fo_parent apex) tab)) (fo_name apex)"
proof -
  note apex = rewritableD(4) [OF rw]
  have "(fo_id apex, path_of org tab apex) \<in> set (lvl org tab apex 0)" by (simp add: level_def)
  then have "dget (rw_rows org tab apex) (fo_id apex) = Some (path_of org tab apex)" using rw_rows_iff [OF rw] by blast
  then have "fo_path (renewed org tab apex apex) = path_of org tab apex" using apex by (simp add: renewed_def)
  moreover have "renewed org tab apex p = p" if "get_parent org (fo_parent apex) tab = Some p" for p
  proof (rule renewed_unreached [OF rw], rule notI)
    assume "(fo_id p, fo_id apex) \<in> (irel org tab)\<^sup>*"
    moreover have "(fo_id apex, fo_id p) \<in> irel org tab" using get_parent_rel [OF rewritableD(1) [OF rw] apex that] by blast
    ultimately show False using rewritableD(2) [OF rw] unfolding acyclic_def by (meson rtrancl_into_trancl2)
  qed
  then have "map_option (renewed org tab apex) (get_parent org (fo_parent apex) tab) = get_parent org (fo_parent apex) tab"
    by (cases "get_parent org (fo_parent apex) tab") auto
  ultimately show ?thesis by (simp only: path_of_def build_dot_path_def)
qed

lemma renewed_below:
  assumes rw: "rewritable org tab apex" and f: "f \<in> set (in_org org tab)" and "f \<noteq> apex"
    and "(fo_id f, fo_id apex) \<in> (irel org tab)\<^sup>*"
  shows "fo_path (renewed org tab apex f) = under (map_option (renewed org tab apex) (get_parent org (fo_parent f) tab)) (fo_name f)"
proof -
  note ok = rewritableD(1) [OF rw]
  obtain m where m: "(fo_id f, m) \<in> irel org tab" "(m, fo_id apex) \<in> (irel org tab)\<^sup>*"
    using assms(3,4) ids_eqD [OF folder_ids_ok_in_org [OF ok] f rewritableD(4) [OF rw]] by (meson converse_rtranclE)
  from irel_from [OF ok f m(1)] obtain p where p: "p \<in> set (in_org org tab)" "fo_parent f = Some (fo_id p)" "m = fo_id p" .
  from m(2) p(3) obtain k where "(fo_id p, fo_id apex) \<in> irel org tab ^^ k" by (metis rtrancl_power)
  from relpow_level [OF ok this] obtain q where q: "(fo_id p, q) \<in> set (lvl org tab apex k)" by blast
  from level_step [OF q f p(2)] have "dget (rw_rows org tab apex) (fo_id f) = Some (q @ ''.'' @ fo_name f)"
    using rw_rows_iff [OF rw] by blast
  moreover have "dget (rw_rows org tab apex) (fo_id p) = Some q" using q rw_rows_iff [OF rw] by blast
  moreover have "get_parent org (fo_parent f) tab = Some p" using p by (simp add: get_parent_def folder_get_Some [OF ok])
  ultimately show ?thesis using f p(1) by (simp add: renewed_def under_def)
qed

lemma renewed_beside:
  assumes rw: "rewritable org tab apex" and f: "f \<in> set (in_org org tab)"
    and un: "(fo_id f, fo_id apex) \<notin> (irel org tab)\<^sup>*"
  shows "fo_path (renewed org tab apex f) = under (map_option (renewed org tab apex) (get_parent org (fo_parent f) tab)) (fo_name f)"
proof -
  have "f \<noteq> apex" using un by auto
  have "renewed org tab apex p = p" if "get_parent org (fo_parent f) tab = Some p" for p
    using get_parent_rel [OF rewritableD(1) [OF rw] f that] un
    by (intro renewed_unreached [OF rw]) (meson converse_rtrancl_into_rtrancl)
  then have "map_option (renewed org tab apex) (get_parent org (fo_parent f) tab) = get_parent org (fo_parent f) tab"
    by (cases "get_parent org (fo_parent f) tab") auto
  then show ?thesis using renewed_unreached [OF rw un] rewritableD(5) [OF rw f \<open>f \<noteq> apex\<close>]
    by (simp only: path_of_def build_dot_path_def)
qed

lemma rewrite_paths_ok:
  assumes rw: "rewritable org tab apex"
  shows "paths_ok org (rewrite_subtree_paths org (path_of org tab apex) (fo_id apex) tab)"
proof -
  have "fo_path (renewed org tab apex f) = path_of org (map (renewed org tab apex) tab) (renewed org tab apex f)"
    if "f \<in> set (in_org org tab)" for f
    using renewed_top [OF rw] renewed_below [OF rw that] renewed_beside [OF rw that]
    unfolding path_of_def build_dot_path_def renewed_fields
    by (subst get_parent_map) (simp, blast)
  moreover have "in_org org (map (renewed org tab apex) tab) = map (renewed org tab apex) (in_org org tab)"
    by (simp add: in_org_def filter_map comp_def)
  ultimately show ?thesis unfolding rewrite_eq [OF rw] paths_ok_def by (auto simp del: set_in_org)
qed

subsection \<open>The tree is kept\<close>

definition tree_ok :: "uuid \<Rightarrow> folder list \<Rightarrow> bool" where
  "tree_ok org tab \<longleftrightarrow> folder_ids_ok tab \<and> acyclic (irel org tab) \<and> paths_ok org tab"

lemma folder_get_in_org: "folder_get org i tab = find (\<lambda>f. fo_id f = i) (in_org org tab)"
  unfolding folder_get_def in_org_def by (induction tab) auto

lemma paths_ok_in_org: "in_org org tab' = in_org org tab \<Longrightarrow> paths_ok org tab' = paths_ok org tab"
proof -
  assume eq: "in_org org tab' = in_org org tab"
  have "get_parent org p tab' = get_parent org p tab" for p
    by (cases p) (simp_all add: get_parent_def folder_get_in_org eq)
  then show ?thesis unfolding paths_ok_def path_of_def build_dot_path_def eq by simp
qed

lemma irel_in_org: "in_org org tab' = in_org org tab \<Longrightarrow> irel org tab' = irel org tab"
  unfolding irel_def by simp

text \<open>A change of one row that keeps identity and organization, and the rows of other organizations.\<close>

lemma in_org_map:
  assumes "\<And>f. fo_org (g f) = fo_org f"
  shows "in_org org (map g tab) = map g (in_org org tab)"
  using assms by (simp add: in_org_def filter_map comp_def)

lemma irel_map:
  assumes "\<And>f. fo_id (g f) = fo_id f \<and> fo_org (g f) = fo_org f \<and> fo_parent (g f) = fo_parent f"
  shows "irel org (map g tab) = irel org tab"
proof -
  have "in_org org (map g tab) = map g (in_org org tab)" using assms by (intro in_org_map) simp
  then show ?thesis using assms unfolding irel_def by (auto simp del: set_in_org simp: image_iff) (metis | blast)+
qed

lemma folder_ids_ok_map:
  assumes "\<And>f. fo_id (g f) = fo_id f"
  shows "folder_ids_ok (map g tab) = folder_ids_ok tab"
  using assms by (simp add: folder_ids_ok_def comp_def)

lemma under_map:
  assumes "\<And>f. fo_id (g f) = fo_id f \<and> fo_org (g f) = fo_org f \<and> fo_path (g f) = fo_path f"
  shows "under (get_parent org p (map g tab)) name = under (get_parent org p tab) name"
  using assms by (subst get_parent_map) (auto simp: under_def split: option.splits)

lemma paths_ok_map:
  assumes "\<And>f. fo_id (g f) = fo_id f \<and> fo_org (g f) = fo_org f \<and> fo_path (g f) = fo_path f
      \<and> fo_name (g f) = fo_name f \<and> fo_parent (g f) = fo_parent f"
  shows "paths_ok org (map g tab) = paths_ok org tab"
proof -
  have "in_org org (map g tab) = map g (in_org org tab)" using assms by (intro in_org_map) simp
  then show ?thesis
    using assms under_map [of g] by (simp add: paths_ok_def path_of_def build_dot_path_def del: set_in_org)
qed

lemma tree_ok_map:
  assumes "\<And>f. fo_id (g f) = fo_id f \<and> fo_org (g f) = fo_org f \<and> fo_path (g f) = fo_path f
      \<and> fo_name (g f) = fo_name f \<and> fo_parent (g f) = fo_parent f"
  shows "tree_ok org (map g tab) = tree_ok org tab" and "shallow org (map g tab) = shallow org tab"
proof -
  have "irel org (map g tab) = irel org tab" using assms by (intro irel_map) simp
  moreover have "folder_ids_ok (map g tab) = folder_ids_ok tab" using assms by (intro folder_ids_ok_map) simp
  ultimately show "tree_ok org (map g tab) = tree_ok org tab" "shallow org (map g tab) = shallow org tab"
    using paths_ok_map [OF assms] by (simp_all add: tree_ok_def shallow_def)
qed

lemma upd_folder_map: "upd_folder i g tab = map (\<lambda>f. if fo_id f = i then g f else f) tab"
  by (simp add: upd_folder_def upd_where_def)

text \<open>Renaming or moving a row leaves the paths of all other rows right, so the table is ready for a rewrite.\<close>

lemma rewritable_upd:
  assumes tree: "tree_ok org tab" and f: "f \<in> set (in_org org tab)"
    and g: "\<And>r. fo_id (g r) = fo_id r \<and> fo_org (g r) = fo_org r \<and> fo_path (g r) = fo_path r"
    and acy: "acyclic (irel org (upd_folder (fo_id f) g tab))" and deep: "shallow org (upd_folder (fo_id f) g tab)"
  shows "rewritable org (upd_folder (fo_id f) g tab) (g f)"
    and "under (get_parent org p (upd_folder (fo_id f) g tab)) name = under (get_parent org p tab) name"
proof -
  let ?h = "\<lambda>r. if fo_id r = fo_id f then g r else r"
  from tree have ok: "folder_ids_ok tab" and paths: "paths_ok org tab" by (simp_all add: tree_ok_def)
  have eq: "upd_folder (fo_id f) g tab = map ?h tab" by (rule upd_folder_map)
  have un: "under (get_parent org p (map ?h tab)) name = under (get_parent org p tab) name" for p name
    using g by (intro under_map) simp
  then show "under (get_parent org p (upd_folder (fo_id f) g tab)) name = under (get_parent org p tab) name"
    by (simp add: eq)
  have io: "in_org org (map ?h tab) = map ?h (in_org org tab)" using g by (intro in_org_map) simp
  have "fo_path r = path_of org (map ?h tab) r" if r: "r \<in> set (map ?h (in_org org tab))" "r \<noteq> g f" for r
  proof -
    from r(1) obtain r0 where r0: "r0 \<in> set (in_org org tab)" "r = ?h r0" unfolding set_map by blast
    have "fo_id r0 \<noteq> fo_id f"
    proof
      assume "fo_id r0 = fo_id f"
      with ids_eqD [OF folder_ids_ok_in_org [OF ok] r0(1) f] r0(2) r(2) show False by simp
    qed
    with r0 paths show ?thesis by (simp add: paths_ok_def path_of_def build_dot_path_def un del: set_in_org)
  qed
  moreover have "g f \<in> set (map ?h (in_org org tab))" using f by force
  moreover have "folder_ids_ok (map ?h tab)" using ok g folder_ids_ok_map [of ?h tab] by simp
  ultimately show "rewritable org (upd_folder (fo_id f) g tab) (g f)"
    using acy deep unfolding rewritable_def eq io by blast
qed

lemma tree_ok_rewrite:
  assumes rw: "rewritable org tab apex"
  shows "tree_ok org (rewrite_subtree_paths org (path_of org tab apex) (fo_id apex) tab)"
    and "irel org (rewrite_subtree_paths org (path_of org tab apex) (fo_id apex) tab) = irel org tab"
proof -
  show i: "irel org (rewrite_subtree_paths org (path_of org tab apex) (fo_id apex) tab) = irel org tab"
    unfolding rewrite_eq [OF rw] by (intro irel_map) simp
  have "folder_ids_ok (map (renewed org tab apex) tab)" using rewritableD(1) [OF rw] by (simp add: folder_ids_ok_map)
  then show "tree_ok org (rewrite_subtree_paths org (path_of org tab apex) (fo_id apex) tab)"
    using i rewrite_paths_ok [OF rw] rewritableD(2) [OF rw] by (simp add: tree_ok_def rewrite_eq [OF rw])
qed

subsection \<open>The operations\<close>

text \<open>Every operation is a change of rows of its organization, by a map that keeps identities.\<close>

definition same_elsewhere :: "uuid \<Rightarrow> folder list \<Rightarrow> folder list \<Rightarrow> bool" where
  "same_elsewhere org tab tab' \<longleftrightarrow> map fo_id tab' = map fo_id tab \<and> (\<forall>org'. org' \<noteq> org \<longrightarrow> in_org org' tab' = in_org org' tab)"

lemma same_elsewhere_refl [simp]: "same_elsewhere org tab tab"
  by (simp add: same_elsewhere_def)

lemma same_elsewhere_trans:
  "same_elsewhere org a b \<Longrightarrow> same_elsewhere org b c \<Longrightarrow> same_elsewhere org a c"
  by (simp add: same_elsewhere_def)

lemma same_elsewhere_map:
  assumes "\<And>f. f \<in> set tab \<Longrightarrow> fo_id (g f) = fo_id f \<and> fo_org (g f) = fo_org f"
    and "\<And>f. f \<in> set tab \<Longrightarrow> fo_org f \<noteq> org \<Longrightarrow> g f = f"
  shows "same_elsewhere org tab (map g tab)"
proof -
  have "filter (\<lambda>f. fo_org f = org') (map g xs) = filter (\<lambda>f. fo_org f = org') xs"
    if "org' \<noteq> org" "set xs \<subseteq> set tab" for org' xs
    using that(2) by (induction xs) (use assms that(1) in \<open>auto\<close>)
  then show ?thesis using assms(1) by (auto simp: same_elsewhere_def in_org_def)
qed

lemma same_elsewhere_upd:
  assumes "folder_ids_ok tab" and "f \<in> set (in_org org tab)" and "\<And>r. fo_id (g r) = fo_id r \<and> fo_org (g r) = fo_org r"
  shows "same_elsewhere org tab (upd_folder (fo_id f) g tab)"
  unfolding upd_folder_map
proof (rule same_elsewhere_map)
  fix r
  assume r: "r \<in> set tab" "fo_org r \<noteq> org"
  then have "fo_id r \<noteq> fo_id f" using ids_eqD [OF assms(1) r(1), of f] assms(2) by auto
  then show "(if fo_id r = fo_id f then g r else r) = r" by simp
qed (use assms(3) in auto)

lemma same_elsewhere_rewrite: "same_elsewhere org tab (rewrite_subtree_paths org prefix i tab)"
  unfolding rewrite_subtree_paths_def Let_def by (rule same_elsewhere_map) (auto split: option.splits)

lemma same_elsewhere_tree:
  assumes "same_elsewhere org tab tab'" and "tree_ok org' tab" and "org' \<noteq> org"
  shows "tree_ok org' tab'"
proof -
  from assms have eq: "in_org org' tab' = in_org org' tab" by (simp add: same_elsewhere_def)
  have "folder_ids_ok tab'" using assms by (simp add: same_elsewhere_def tree_ok_def folder_ids_ok_def)
  with assms(2) show ?thesis unfolding tree_ok_def irel_in_org [OF eq] paths_ok_in_org [OF eq] by blast
qed

lemma rename_ok:
  assumes tree: "tree_ok org tab" and deep: "shallow org tab" and f: "f \<in> set (in_org org tab)"
  shows "tree_ok org (folder_rename org f n tab)" and "shallow org (folder_rename org f n tab)"
    and "same_elsewhere org tab (folder_rename org f n tab)"
proof -
  let ?g = "\<lambda>r. r\<lparr>fo_name := n\<rparr>"
  let ?tab = "upd_folder (fo_id f) ?g tab"
  have rel: "irel org ?tab = irel org tab" unfolding upd_folder_map by (intro irel_map) simp
  have rw: "rewritable org ?tab (?g f)"
    by (rule rewritable_upd(1) [OF tree f]) (use tree deep in \<open>simp_all add: rel tree_ok_def shallow_def\<close>)
  have pre: "path_of org ?tab (?g f) = under (get_parent org (fo_parent f) tab) n"
    unfolding path_of_def build_dot_path_def
    by (subst rewritable_upd(2) [OF tree f]) (use tree deep in \<open>simp_all add: rel tree_ok_def shallow_def\<close>)
  have eq: "folder_rename org f n tab = rewrite_subtree_paths org (path_of org ?tab (?g f)) (fo_id (?g f)) ?tab"
    by (simp add: folder_rename_def pre)
  show "tree_ok org (folder_rename org f n tab)" unfolding eq by (rule tree_ok_rewrite(1) [OF rw])
  show "shallow org (folder_rename org f n tab)" unfolding eq shallow_def tree_ok_rewrite(2) [OF rw] rel
    using deep by (simp add: shallow_def)
  show "same_elsewhere org tab (folder_rename org f n tab)" unfolding eq
    by (rule same_elsewhere_trans [OF same_elsewhere_upd same_elsewhere_rewrite]) (use tree f in \<open>simp_all add: tree_ok_def\<close>)
qed

text \<open>The relation after a move: the edge of the folder is replaced.\<close>

lemma irel_iff: "(i, j) \<in> irel org tab \<longleftrightarrow>
    (\<exists>r \<in> set (in_org org tab). fo_id r = i \<and> fo_parent r = Some j) \<and> j \<in> fo_id ` set (in_org org tab)"
  unfolding irel_def by (auto simp del: set_in_org)

lemma irel_moved:
  assumes ok: "folder_ids_ok tab" and f: "f \<in> set (in_org org tab)"
  shows "irel org (upd_folder (fo_id f) (\<lambda>r. r\<lparr>fo_parent := p\<rparr>) tab) =
    {(i, j) \<in> irel org tab. i \<noteq> fo_id f}
    \<union> {(fo_id f, j) | j. p = Some j \<and> j \<in> fo_id ` set (in_org org tab)}"
proof -
  define h :: "folder \<Rightarrow> folder" where "h r = (if fo_id r = fo_id f then r\<lparr>fo_parent := p\<rparr> else r)" for r
  have tab': "upd_folder (fo_id f) (\<lambda>r. r\<lparr>fo_parent := p\<rparr>) tab = map h tab"
    unfolding upd_folder_map h_def ..
  have id: "fo_id (h r) = fo_id r" "fo_org (h r) = fo_org r" for r by (simp_all add: h_def)
  have io: "in_org org (map h tab) = map h (in_org org tab)" by (rule in_org_map) (simp add: id)
  have "(i, j) \<in> irel org (map h tab) \<longleftrightarrow> (\<exists>r \<in> set (in_org org tab). fo_id r = i \<and> fo_parent (h r) = Some j)
      \<and> j \<in> fo_id ` set (in_org org tab)" for i j
    unfolding irel_iff io set_map image_image id by (simp add: id del: set_in_org)
  moreover have "fo_parent (h r) = (if r = f then p else fo_parent r)" if "r \<in> set (in_org org tab)" for r
    using ids_eqD [OF folder_ids_ok_in_org [OF ok] that f] by (auto simp: h_def)
  moreover have "r = f \<longleftrightarrow> fo_id r = fo_id f" if "r \<in> set (in_org org tab)" for r
    using ids_eqD [OF folder_ids_ok_in_org [OF ok] that f] by auto
  ultimately show ?thesis unfolding tab' using f by (auto simp: irel_iff simp del: set_in_org) metis+
qed

lemma acyclic_moved:
  assumes ok: "folder_ids_ok tab" and acy: "acyclic (irel org tab)" and f: "f \<in> set (in_org org tab)"
    and np: "\<And>p. np = Some p \<Longrightarrow> p \<in> set (in_org org tab)"
  shows "acyclic (irel org (upd_folder (fo_id f) (\<lambda>r. r\<lparr>fo_parent := map_option fo_id np\<rparr>) tab))
    \<longleftrightarrow> \<not> would_create_cycle f np (case np of None \<Rightarrow> [] | Some p \<Rightarrow> ancestors org p tab)"
proof (cases np)
  case None
  have "{(i, j) \<in> irel org tab. i \<noteq> fo_id f} \<subseteq> irel org tab" by blast
  with None acy show ?thesis
    unfolding irel_moved [OF ok f] by (auto simp: would_create_cycle_def intro: acyclic_subset)
next
  case (Some p)
  let ?S = "{(i, j) \<in> irel org tab. i \<noteq> fo_id f}"
  have p: "p \<in> set (in_org org tab)" using np Some by blast
  have "irel org (upd_folder (fo_id f) (\<lambda>r. r\<lparr>fo_parent := map_option fo_id np\<rparr>) tab) = insert (fo_id f, fo_id p) ?S"
    unfolding irel_moved [OF ok f] using Some p by auto
  moreover have "acyclic ?S" using acy by (rule acyclic_subset) blast
  moreover have "(fo_id p, fo_id f) \<in> ?S\<^sup>* \<longleftrightarrow> (fo_id p, fo_id f) \<in> (irel org tab)\<^sup>*"
  proof
    assume "(fo_id p, fo_id f) \<in> (irel org tab)\<^sup>*"
    then show "(fo_id p, fo_id f) \<in> ?S\<^sup>*"
    proof (induction rule: converse_rtrancl_induct)
      case (step y z)
      then show ?case by (cases "y = fo_id f") (auto intro: converse_rtrancl_into_rtrancl)
    qed simp
  qed (rule rtrancl_mono [THEN subsetD], auto)
  moreover have "(fo_id p, fo_id f) \<in> (irel org tab)\<^sup>* \<longleftrightarrow> would_create_cycle f (Some p) (ancestors org p tab)"
  proof -
    have "(\<exists>a \<in> set (ancestors org p tab). fo_id a = fo_id f) \<longleftrightarrow> (fo_id p, fo_id f) \<in> (irel org tab)\<^sup>+"
      using set_ancestors [OF ok p] f ids_eqD [OF folder_ids_ok_in_org [OF ok] _ f] by (metis (no_types, lifting))
    then show ?thesis by (simp add: would_create_cycle_def list_ex_iff rtrancl_eq_or_trancl) (metis ids_eqD folder_ids_ok_in_org ok p f)
  qed
  ultimately show ?thesis using Some by (simp add: acyclic_insert)
qed


lemma irel_rewrite [simp]: "irel org' (rewrite_subtree_paths org prefix i tab) = irel org' tab"
  unfolding rewrite_subtree_paths_def Let_def by (rule irel_map) (simp split: option.splits)

lemma move_ok:
  assumes tree: "tree_ok org tab" and f: "f \<in> set (in_org org tab)"
    and np: "\<And>p. np = Some p \<Longrightarrow> p \<in> set (in_org org tab)"
    and safe: "\<not> would_create_cycle f np (case np of None \<Rightarrow> [] | Some p \<Rightarrow> ancestors org p tab)"
    and deep: "shallow org (folder_move org f np tab)"
  shows "tree_ok org (folder_move org f np tab)" and "same_elsewhere org tab (folder_move org f np tab)"
proof -
  let ?g = "\<lambda>r. r\<lparr>fo_parent := map_option fo_id np\<rparr>"
  let ?tab = "upd_folder (fo_id f) ?g tab"
  have ok: "folder_ids_ok tab" and acy: "acyclic (irel org tab)" using tree by (simp_all add: tree_ok_def)
  have acy': "acyclic (irel org ?tab)" using acyclic_moved [OF ok acy f np] safe by blast
  have deep': "shallow org ?tab" using deep by (simp add: folder_move_def shallow_def)
  have g: "fo_id (?g r) = fo_id r \<and> fo_org (?g r) = fo_org r \<and> fo_path (?g r) = fo_path r" for r by simp
  have rw: "rewritable org ?tab (?g f)" by (rule rewritable_upd(1) [OF tree f g acy' deep'])
  have "get_parent org (map_option fo_id np) tab = np"
    using np by (cases np) (auto simp: get_parent_def folder_get_Some [OF ok])
  then have pre: "path_of org ?tab (?g f) = under np (fo_name f)"
    unfolding path_of_def build_dot_path_def using rewritable_upd(2) [OF tree f g acy' deep'] by simp
  have eq: "folder_move org f np tab = rewrite_subtree_paths org (path_of org ?tab (?g f)) (fo_id (?g f)) ?tab"
    by (simp add: folder_move_def pre)
  show "tree_ok org (folder_move org f np tab)" unfolding eq by (rule tree_ok_rewrite(1) [OF rw])
  show "same_elsewhere org tab (folder_move org f np tab)" unfolding eq
    by (rule same_elsewhere_trans [OF same_elsewhere_upd same_elsewhere_rewrite]) (use ok f in simp_all)
qed

lemma move_folder_ok:
  assumes "tree_ok org tab" and "f \<in> set (in_org org tab)" and "move_folder org f parent tab = Inr tab'"
    and "shallow org tab'"
  shows "tree_ok org tab'" and "same_elsewhere org tab tab'"
proof -
  have ok: "folder_ids_ok tab" using assms(1) by (simp add: tree_ok_def)
  define np where "np = get_parent org parent tab"
  have np: "\<And>p. np = Some p \<Longrightarrow> p \<in> set (in_org org tab)"
    by (auto simp: np_def get_parent_def folder_get_Some [OF ok] split: option.splits)
  have safe: "\<not> would_create_cycle f np (case np of None \<Rightarrow> [] | Some p \<Rightarrow> ancestors org p tab)"
    and tab': "tab' = folder_move org f np tab"
    using assms(3) by (auto simp: np_def get_parent_def move_folder_def would_create_cycle_def split: option.splits if_splits)
  from move_ok [OF assms(1,2) np safe] assms(4) show "tree_ok org tab'" "same_elsewhere org tab tab'"
    unfolding tab' by blast+
qed

lemma upd_folder_keeps:
  assumes "tree_ok org tab" and "shallow org tab" and "f \<in> set (in_org org tab)"
    and "\<And>r. fo_id (g r) = fo_id r \<and> fo_org (g r) = fo_org r \<and> fo_path (g r) = fo_path r
      \<and> fo_name (g r) = fo_name r \<and> fo_parent (g r) = fo_parent r"
  shows "tree_ok org (upd_folder (fo_id f) g tab)" and "shallow org (upd_folder (fo_id f) g tab)"
    and "same_elsewhere org tab (upd_folder (fo_id f) g tab)"
proof -
  have "fo_id (h r) = fo_id r \<and> fo_org (h r) = fo_org r \<and> fo_path (h r) = fo_path r
      \<and> fo_name (h r) = fo_name r \<and> fo_parent (h r) = fo_parent r"
    if "h = (\<lambda>r. if fo_id r = fo_id f then g r else r)" for h r using assms(4) that by simp
  from tree_ok_map [OF this, OF refl] show "tree_ok org (upd_folder (fo_id f) g tab)" "shallow org (upd_folder (fo_id f) g tab)"
    using assms(1,2) unfolding upd_folder_map by blast+
  show "same_elsewhere org tab (upd_folder (fo_id f) g tab)"
    using assms by (intro same_elsewhere_upd) (simp_all add: tree_ok_def)
qed

text \<open>The three facts an operation keeps, and the chain of them through the update route.\<close>

definition kept :: "uuid \<Rightarrow> folder list \<Rightarrow> folder list \<Rightarrow> bool" where
  "kept org tab tab' \<longleftrightarrow> (tree_ok org tab \<and> shallow org tab \<longrightarrow> tree_ok org tab' \<and> shallow org tab' \<and> same_elsewhere org tab tab')"

lemma kept_refl [simp]: "kept org tab tab"
  by (simp add: kept_def)

lemma kept_trans: "kept org a b \<Longrightarrow> kept org b c \<Longrightarrow> kept org a c"
  unfolding kept_def using same_elsewhere_trans by blast

lemma same_elsewhere_present:
  assumes "same_elsewhere org tab tab'" and "folder_ids_ok tab" and "folder_get org i tab = Some f"
  shows "\<exists>f'. folder_get org i tab' = Some f'"
proof -
  from assms(3) have f: "f \<in> set (in_org org tab)" "fo_id f = i" by (simp_all add: folder_get_Some [OF assms(2)])
  have ids: "map fo_id tab' = map fo_id tab" and other: "\<And>org'. org' \<noteq> org \<Longrightarrow> in_org org' tab' = in_org org' tab"
    using assms(1) by (simp_all add: same_elsewhere_def)
  have ok': "folder_ids_ok tab'" using assms(2) by (simp add: folder_ids_ok_def ids)
  from f have "i \<in> set (map fo_id tab')" unfolding ids by auto
  then obtain r where r: "r \<in> set tab'" "fo_id r = i" by auto
  have "fo_org r = org"
  proof (rule ccontr)
    assume "fo_org r \<noteq> org"
    with r other [of "fo_org r"] have "r \<in> set (in_org (fo_org r) tab)" by (metis set_in_org)
    then have "r = f" using ids_eqD [OF assms(2), of r f] f r by simp
    with f \<open>fo_org r \<noteq> org\<close> show False by simp
  qed
  with r have "folder_get org i tab' = Some r" by (simp add: folder_get_Some [OF ok'])
  then show ?thesis ..
qed

lemma kept_set_configs:
  assumes "set_configs db org i body tab = Inr tab'"
  shows "kept org tab tab'"
proof -
  from assms obtain f v c vm cm where f: "folder_get org i tab = Some f"
    and tab': "tab' = upd_folder i (\<lambda>r. r\<lparr>fo_viewer := v, fo_contributor := c, fo_view_masks := vm, fo_contributor_masks := cm\<rparr>) tab"
    by (auto simp: set_configs_def Let_def result_simps split: option.splits)
  show ?thesis unfolding kept_def
  proof (rule impI)
    assume k: "tree_ok org tab \<and> shallow org tab"
    then have mem: "f \<in> set (in_org org tab)" and i: "fo_id f = i"
      using f by (simp_all add: tree_ok_def folder_get_Some)
    from upd_folder_keeps [of org tab f "\<lambda>r. r\<lparr>fo_viewer := v, fo_contributor := c, fo_view_masks := vm, fo_contributor_masks := cm\<rparr>"] k mem
    show "tree_ok org tab' \<and> shallow org tab' \<and> same_elsewhere org tab tab'" unfolding tab' i by simp
  qed
qed

lemma kept_rename: "folder_get org i tab = Some f \<Longrightarrow> kept org tab (folder_rename org f n tab)"
  unfolding kept_def using rename_ok [of org tab f n] by (auto simp: tree_ok_def folder_get_Some)

lemma kept_description:
  "folder_get org i tab = Some f \<Longrightarrow> kept org tab (upd_folder i (\<lambda>r. r\<lparr>fo_description := d\<rparr>) tab)"
  unfolding kept_def using upd_folder_keeps [of org tab f "\<lambda>r. r\<lparr>fo_description := d\<rparr>"]
  by (auto simp: tree_ok_def folder_get_Some)

lemma update_folder_ok:
  assumes upd: "update_folder db org i body docs tab = Inr (tab', payloads)"
    and tree: "tree_ok org tab" and deep: "shallow org tab" "shallow org tab'"
  shows "tree_ok org tab' \<and> same_elsewhere org tab tab'"
proof -
  from upd obtain f0 where f0: "folder_get org i tab = Some f0" by (auto simp: update_folder_def split: option.splits)
  define tab1 where "tab1 = (case up_name body of None \<Rightarrow> tab
    | Some n \<Rightarrow> if n = fo_name f0 then tab else folder_rename org f0 n tab)"
  define tab2 where "tab2 = (case up_description body of None \<Rightarrow> tab1
    | Some d \<Rightarrow> upd_folder i (\<lambda>r. r\<lparr>fo_description := Some d\<rparr>) tab1)"
  from upd have "bind_res (if up_viewer body = None \<and> up_contributor body = None then Inr tab2 else set_configs db org i body tab2)
      (\<lambda>tab3. (case folder_get org i tab3 of None \<Rightarrow> Inl FolderNotFound
           | Some f3 \<Rightarrow> (case up_parent body of
                 None \<Rightarrow> Inr (tab3, if up_viewer body = None then [] else collect_subtree_propagation org f3 tab3 docs)
               | Some parent \<Rightarrow> bind_res (move_folder org f3 parent tab3) (\<lambda>tab4. Inr (tab4,
                   if up_viewer body = None then [] else collect_subtree_propagation org f3 tab3 docs))))) = Inr (tab', payloads)"
    by (simp only: update_folder_def f0 option.case Let_def tab1_def tab2_def)
  then obtain tab3 where
      t3: "(if up_viewer body = None \<and> up_contributor body = None then Inr tab2 else set_configs db org i body tab2) = Inr tab3"
    and rest: "(case folder_get org i tab3 of None \<Rightarrow> Inl FolderNotFound
           | Some f3 \<Rightarrow> (case up_parent body of
                 None \<Rightarrow> Inr (tab3, if up_viewer body = None then [] else collect_subtree_propagation org f3 tab3 docs)
               | Some parent \<Rightarrow> bind_res (move_folder org f3 parent tab3) (\<lambda>tab4. Inr (tab4,
                   if up_viewer body = None then [] else collect_subtree_propagation org f3 tab3 docs)))) = Inr (tab', payloads)"
    unfolding bind_res_eq_Inr by blast
  have k1: "kept org tab tab1" using kept_rename [OF f0] by (auto simp: tab1_def split: option.splits)
  have ok: "folder_ids_ok tab" using tree by (simp add: tree_ok_def)
  have s1: "same_elsewhere org tab tab1" using k1 tree deep by (simp add: kept_def)
  obtain f1 where f1: "folder_get org i tab1 = Some f1" using same_elsewhere_present [OF s1 ok f0] by blast
  have k2: "kept org tab1 tab2" using kept_description [OF f1] by (auto simp: tab2_def split: option.splits)
  have k3: "kept org tab2 tab3" using t3 kept_set_configs by (auto split: if_splits)
  have k: "tree_ok org tab3" "shallow org tab3" "same_elsewhere org tab tab3"
    using kept_trans [OF kept_trans [OF k1 k2] k3] tree deep by (simp_all add: kept_def)
  from rest obtain f3 where f3: "folder_get org i tab3 = Some f3" by (auto split: option.splits)
  then have mem: "f3 \<in> set (in_org org tab3)" using k(1) by (simp add: tree_ok_def folder_get_Some)
  show ?thesis
  proof (cases "up_parent body")
    case None
    with rest f3 k show ?thesis by simp
  next
    case (Some parent)
    with rest f3 have "move_folder org f3 parent tab3 = Inr tab'" by (auto simp: bind_res_eq_Inr)
    from move_folder_ok [OF k(1) mem this deep(2)] same_elsewhere_trans [OF k(3)] show ?thesis by blast
  qed
qed

text \<open>A new folder: its identifier is fresh, so nothing points to it yet.\<close>

lemma folder_get_append:
  assumes "fo_id n \<noteq> i"
  shows "folder_get org i (tab @ [n]) = folder_get org i tab"
  unfolding folder_get_def using assms by (induction tab) auto

lemma get_parent_append:
  assumes "p \<noteq> Some (fo_id n)"
  shows "get_parent org p (tab @ [n]) = get_parent org p tab"
  using assms by (cases p) (auto simp: get_parent_def folder_get_append)

lemma append_ok:
  assumes tree: "tree_ok org tab" and n: "fo_org n = org" "fo_id n \<notin> fo_id ` set tab" "fo_parent n \<noteq> Some (fo_id n)"
    and fresh: "Some (fo_id n) \<notin> fo_parent ` set tab" and path: "fo_path n = build_dot_path org (fo_name n) (fo_parent n) tab"
  shows "tree_ok org (tab @ [n])"
proof -
  have io: "in_org org (tab @ [n]) = in_org org tab @ [n]" using n(1) by (simp add: in_org_def)
  have new: "fo_id n \<noteq> j" if "(i, j) \<in> irel org tab" for i j
    using that n(2) by (auto elim!: irelE)
  have rel: "irel org (tab @ [n]) \<subseteq> irel org tab \<union> {(fo_id n, j) | j. fo_parent n = Some j \<and> j \<noteq> fo_id n}"
    unfolding irel_def io using n(2,3) fresh by (auto simp del: set_in_org simp: image_iff) (auto simp: image_iff)
  have "acyclic (irel org tab \<union> {(fo_id n, j) | j. fo_parent n = Some j \<and> j \<noteq> fo_id n})"
  proof (cases "fo_parent n")
    case (Some j)
    have "(j, fo_id n) \<notin> (irel org tab)\<^sup>*" if "j \<noteq> fo_id n"
      using that new by (metis rtranclE)
    moreover have "{(fo_id n, k) | k. fo_parent n = Some k \<and> k \<noteq> fo_id n} = {(fo_id n, j)}" using Some n(3) by auto
    ultimately show ?thesis using tree Some n(3) by (simp add: tree_ok_def acyclic_insert)
  qed (use tree in \<open>simp add: tree_ok_def\<close>)
  then have "acyclic (irel org (tab @ [n]))" using rel by (rule acyclic_subset)
  moreover have "folder_ids_ok (tab @ [n])" using tree n(2) by (simp add: tree_ok_def folder_ids_ok_def)
  moreover have "paths_ok org (tab @ [n])"
  proof -
    have "get_parent org (fo_parent f) (tab @ [n]) = get_parent org (fo_parent f) tab" if "f = n \<or> f \<in> set tab" for f
      using that n(3) fresh by (intro get_parent_append) (auto simp: image_iff)
    then show ?thesis using tree path
      by (auto simp: paths_ok_def path_of_def build_dot_path_def tree_ok_def)
  qed
  ultimately show ?thesis by (simp add: tree_ok_def)
qed

lemma create_ok:
  assumes "create_folder db org new_id name description parent viewer contributor tab = Inr tab'"
    and "\<And>org. tree_ok org tab" and "new_id \<notin> fo_id ` set tab" "parent \<noteq> Some new_id" "Some new_id \<notin> fo_parent ` set tab"
  shows "tree_ok org' tab'"
proof -
  from assms(1) obtain n where tab': "tab' = tab @ [n]" and n: "fo_id n = new_id" "fo_org n = org" "fo_parent n = parent"
      "fo_path n = build_dot_path org (fo_name n) parent tab"
    by (auto simp: create_folder_def result_simps)
  show ?thesis
  proof (cases "org' = org")
    case True
    then show ?thesis unfolding tab' using n assms by (intro append_ok) auto
  next
    case False
    then have eq: "in_org org' tab' = in_org org' tab" using n by (simp add: tab' in_org_def)
    have "folder_ids_ok tab'" using assms(2) [of org] assms(3) n by (simp add: tab' tree_ok_def folder_ids_ok_def)
    with assms(2) [of org'] show ?thesis unfolding tree_ok_def irel_in_org [OF eq] paths_ok_in_org [OF eq] by blast
  qed
qed

subsection \<open>Properties\<close>

text \<open>
  The tables of folders that creating and updating can reach, as long as no tree becomes deeper than the bound
  of the rewrite. A new identifier is fresh.
\<close>

inductive folders_reachable :: "folder list \<Rightarrow> bool" where
  empty: "folders_reachable []"
| create: "folders_reachable tab \<Longrightarrow>
    create_folder db org new_id name description parent viewer contributor tab = Inr tab' \<Longrightarrow>
    new_id \<notin> fo_id ` set tab \<Longrightarrow> parent \<noteq> Some new_id \<Longrightarrow> Some new_id \<notin> fo_parent ` set tab \<Longrightarrow>
    (\<And>org. shallow org tab') \<Longrightarrow> folders_reachable tab'"
| update: "folders_reachable tab \<Longrightarrow> update_folder db org i body docs tab = Inr (tab', payloads) \<Longrightarrow>
    (\<And>org. shallow org tab') \<Longrightarrow> folders_reachable tab'"

lemma folders_reachable_tree: "folders_reachable tab \<Longrightarrow> (\<forall>org. tree_ok org tab) \<and> (\<forall>org. shallow org tab)"
proof (induction rule: folders_reachable.induct)
  case empty
  have "irel org [] = {}" for org by (simp add: irel_def in_org_def)
  then show ?case by (simp add: tree_ok_def paths_ok_def folder_ids_ok_def in_org_def shallow_def acyclic_def)
next
  case (create tab db org new_id name description parent viewer contributor tab')
  then show ?case using create_ok [OF create(2)] by blast
next
  case (update tab db org i body docs tab' payloads)
  then have "tree_ok org tab' \<and> same_elsewhere org tab tab'" using update_folder_ok [OF update(2)] by blast
  then show ?case using update same_elsewhere_tree by metis
qed

text \<open>
  C30. The folders of an organization always form a tree, and the stored path of each is the path of its parent, a dot
  and its name: creating folders and updating them, where an update can rename, move and reconfigure in
  one request, never makes a folder its own ancestor and never leaves a path behind.
\<close>

theorem folder_tree_invariant:
  assumes "folders_reachable tab" and "f \<in> set tab"
  shows "fo_path f = build_dot_path (fo_org f) (fo_name f) (fo_parent f) tab \<and> f \<notin> set (ancestors (fo_org f) f tab)"
proof -
  from folders_reachable_tree [OF assms(1)] have tree: "tree_ok (fo_org f) tab" by blast
  then have "f \<notin> set (ancestors (fo_org f) f tab)"
    using set_ancestors [of tab f "fo_org f" f] assms(2) by (auto simp: tree_ok_def acyclic_def)
  with tree assms(2) show ?thesis by (simp add: tree_ok_def paths_ok_def path_of_def)
qed


subsection \<open>A tree of three folders\<close>

definition new_folder :: "uuid \<Rightarrow> uuid option \<Rightarrow> string \<Rightarrow> folder list \<Rightarrow> folder list" where
  "new_folder i parent name tab =
     (case create_folder two_regions ''o1'' i name None parent None None tab of Inl _ \<Rightarrow> tab | Inr tab' \<Rightarrow> tab')"

definition abc :: "folder list" where
  "abc = new_folder ''c'' (Some ''b'') ''C'' (new_folder ''b'' (Some ''a'') ''B'' (new_folder ''a'' None ''A'' []))"

definition abc_folder :: "uuid \<Rightarrow> uuid option \<Rightarrow> string \<Rightarrow> string \<Rightarrow> folder" where
  "abc_folder i parent name path = \<lparr>fo_id = i, fo_org = ''o1'', fo_parent = parent, fo_name = name, fo_description = None,
     fo_order = 0, fo_path = path, fo_viewer = None, fo_contributor = None, fo_view_masks = [], fo_contributor_masks = []\<rparr>"

lemma abc_eq: "abc = [abc_folder ''a'' None ''A'' ''A'', abc_folder ''b'' (Some ''a'') ''B'' ''A.B'',
    abc_folder ''c'' (Some ''b'') ''C'' ''A.B.C'']"
  by code_simp

lemma shallow_small: "length tab \<le> MAX_DEPTH \<Longrightarrow> shallow org tab"
proof -
  assume le: "length tab \<le> MAX_DEPTH"
  have "card {j. (i, j) \<in> (irel org tab)\<^sup>+} \<le> length tab" for i
  proof -
    have "card {j. (i, j) \<in> (irel org tab)\<^sup>+} \<le> card (fo_id ` set (in_org org tab))"
      by (rule card_mono [OF _ above_sub]) simp
    also have "\<dots> \<le> length (in_org org tab)" by (metis card_length list.set_map length_map)
    also have "\<dots> \<le> length tab" by (simp add: in_org_def)
    finally show ?thesis .
  qed
  then show ?thesis using le le_trans unfolding shallow_def by blast
qed

lemma length_new_folder: "length (new_folder i parent name tab) \<le> Suc (length tab)"
  by (auto simp: new_folder_def create_folder_def result_simps split: sum.splits)

lemma reachable_new_folder:
  assumes "folders_reachable tab" and "i \<notin> fo_id ` set tab" "parent \<noteq> Some i" "Some i \<notin> fo_parent ` set tab"
    and "length tab < MAX_DEPTH"
  shows "folders_reachable (new_folder i parent name tab)"
proof (cases "create_folder two_regions ''o1'' i name None parent None None tab")
  case (Inl e)
  then show ?thesis using assms(1) by (simp add: new_folder_def)
next
  case (Inr tab')
  then have "length tab' \<le> MAX_DEPTH" using length_new_folder [of i parent name tab] assms(5) by (simp add: new_folder_def)
  then show ?thesis
    using folders_reachable.create [OF assms(1) Inr assms(2,3,4) shallow_small] Inr by (simp add: new_folder_def)
qed

lemma abc_reachable: "folders_reachable abc"
  unfolding abc_def
  by (intro reachable_new_folder folders_reachable.empty) (code_simp | simp)+

theorem folder_tree_invariant_witness:
  "fo_path (abc_folder ''c'' (Some ''b'') ''C'' ''A.B.C'') = build_dot_path ''o1'' ''C'' (Some ''b'') abc"
  using folder_tree_invariant [OF abc_reachable, of "abc_folder ''c'' (Some ''b'') ''C'' ''A.B.C''"]
  by (simp add: abc_eq) (simp add: abc_folder_def)

text \<open>Renaming the root and moving a leaf in two requests, evaluated.\<close>

lemma abc_paths:
  "map_sum id (\<lambda>r. map fo_path (fst r)) (update_folder two_regions ''o1'' ''a''
      \<lparr>up_name = Some ''Z'', up_description = None, up_parent = None, up_viewer = None, up_contributor = None\<rparr> [] abc)
    = Inr [''Z'', ''Z.B'', ''Z.B.C'']"
  "map_sum id (\<lambda>r. map fo_path (fst r)) (update_folder two_regions ''o1'' ''b''
      \<lparr>up_name = None, up_description = None, up_parent = Some None, up_viewer = None, up_contributor = None\<rparr> [] abc)
    = Inr [''A'', ''B'', ''B.C'']"
  by code_simp+



end
