(* ===== verification/Folder_Access.thy ===== *)
theory Folder_Access
  imports Folder_Paths
begin

section \<open>Who sees a folder, and what a change of its permissions reaches\<close>

text \<open>
  The walks that decide visibility agree with each other and with the configurations: the listing, the
  expansion of a key's folders and the check of one folder give the same answer, and that answer is whether the
  nearest configuration upwards names the reader. The second part is about the propagation of a
  changed configuration: the payloads cover every document whose masks changed, with the new masks.
\<close>

subsection \<open>Descendants are those with the folder above them\<close>

lemma set_subtree_irel:
  assumes ok: "folder_ids_ok tab"
  shows "set (subtree_rows org ids tab) =
    {f \<in> set (in_org org tab). \<exists>r \<in> set (in_org org tab). fo_id r \<in> set ids \<and> (fo_id f, fo_id r) \<in> (irel org tab)\<^sup>*}" (is "?D = ?E")
proof
  show "?D \<subseteq> ?E"
  proof
    fix f
    assume "f \<in> ?D"
    then obtain s where s: "s \<in> set (in_org org tab)" "fo_id s \<in> set ids"
      and path: "(s, f) \<in> {(up, f). fo_parent f = Some (fo_id up) \<and> f \<in> set (in_org org tab)}\<^sup>*"
      by (auto simp: set_subtree_rows)
    from path have "f \<in> set (in_org org tab) \<and> (fo_id f, fo_id s) \<in> (irel org tab)\<^sup>*"
    proof (induction rule: rtrancl_induct)
      case (step y z)
      then have "(fo_id z, fo_id y) \<in> irel org tab" by (intro irelI) auto
      with step show ?case by (auto intro: converse_rtrancl_into_rtrancl)
    qed (use s in simp)
    with s show "f \<in> ?E" by blast
  qed
  show "?E \<subseteq> ?D"
  proof
    fix f
    assume "f \<in> ?E"
    then obtain r where r: "r \<in> set (in_org org tab)" "fo_id r \<in> set ids"
      and f: "f \<in> set (in_org org tab)" and path: "(fo_id f, fo_id r) \<in> (irel org tab)\<^sup>*" by blast
    have rD: "r \<in> ?D" using r by (auto simp: set_subtree_rows)
    have "g \<in> ?D" if "(i, fo_id r) \<in> (irel org tab)\<^sup>*" "g \<in> set (in_org org tab)" "fo_id g = i" for g i
      using that
    proof (induction arbitrary: g rule: converse_rtrancl_induct)
      case base
      with rD r(1) ids_eqD [OF folder_ids_ok_in_org [OF ok]] show ?case by metis
    next
      case (step y z)
      from irel_from [OF ok step.prems(1)] step(1) step.prems(2) obtain p
        where p: "p \<in> set (in_org org tab)" "fo_parent g = Some (fo_id p)" "z = fo_id p" by metis
      from step.IH [OF p(1)] p have "p \<in> ?D" by simp
      then show ?case using subtree_rows_step step.prems(1) p(2) by blast
    qed
    with path f show "f \<in> ?D" by blast
  qed
qed

lemma subtree_ancestors:
  assumes ok: "folder_ids_ok tab"
  shows "f \<in> set (subtree_rows org ids tab) \<longleftrightarrow> f \<in> set (in_org org tab)
    \<and> (fo_id f \<in> set ids \<or> (\<exists>a \<in> set (ancestors org f tab). fo_id a \<in> set ids))"
proof -
  have "(\<exists>r \<in> set (in_org org tab). fo_id r \<in> set ids \<and> (fo_id f, fo_id r) \<in> (irel org tab)\<^sup>*) \<longleftrightarrow>
      fo_id f \<in> set ids \<or> (\<exists>a \<in> set (ancestors org f tab). fo_id a \<in> set ids)" if f: "f \<in> set (in_org org tab)"
    using set_ancestors [OF ok f] f unfolding rtrancl_eq_or_trancl by (metis (no_types, lifting))
  then show ?thesis unfolding set_subtree_irel [OF ok] by blast
qed

subsection \<open>Who sees a folder\<close>

lemma folder_visible_governing:
  assumes "folder_ids_ok tab" and "f \<in> set (in_org org tab)"
  shows "folder_visible org f (Some ms) tab \<longleftrightarrow> masks_of (governing org tab f) = []
    \<or> set (masks_of (governing org tab f)) \<inter> set ms \<noteq> {}"
  by (auto simp: folder_visible_def overlaps_def effective_view_masks_governing [OF assms] list_ex_iff)

lemma governing_configured: "governing org tab f = Some g \<Longrightarrow> fo_viewer g \<noteq> None"
  unfolding governing_def by (drule find_SomeD) simp

lemma governing_in_org:
  assumes "folder_ids_ok tab" and "f \<in> set (in_org org tab)" and "governing org tab f = Some g"
  shows "g \<in> set (in_org org tab)"
proof -
  have "g \<in> set (chain (by_id (in_org org tab)) (size_of (in_org org tab) + 1) (Some f))"
    using find_SomeD [OF assms(3) [unfolded governing_def]] by blast
  then have "g \<in> orbit (by_id (in_org org tab)) (Some f)" unfolding set_chain orbit_def by blast
  then show ?thesis using orbit_irel [OF assms(1,2)] by blast
qed

text \<open>Masks stored with a configuration are those it resolved to.\<close>

definition masks_stored :: "dims \<Rightarrow> folder \<Rightarrow> bool" where
  "masks_stored db f \<longleftrightarrow> permission_config_to_masks db (fo_org f) (fo_viewer f) = Inr (fo_view_masks f)"

definition admits :: "membership \<Rightarrow> perm_config \<Rightarrow> bool" where
  "admits m config \<longleftrightarrow> list_ex (satisfies m) config"

lemma member_sees:
  assumes ok: "folder_ids_ok tab" and f: "f \<in> set (in_org org tab)" and inv: "dims_inv db" and mem: "member_ok db org m"
    and n: "org_number org db = Some n" and us: "calculate_user_masks_from_membership m n = Inr us"
    and stored: "\<And>g. g \<in> set (in_org org tab) \<Longrightarrow> masks_stored db g"
  shows "folder_visible org f (Some us) tab \<longleftrightarrow> (case governing org tab f of None \<Rightarrow> True
    | Some g \<Rightarrow> fo_view_masks g = [] \<or> admits m (the (fo_viewer g)))"
proof (cases "governing org tab f")
  case None
  then show ?thesis by (simp add: folder_visible_governing [OF ok f] masks_of_def)
next
  case (Some g)
  then obtain es where es: "fo_viewer g = Some es" using governing_configured by fastforce
  have g: "g \<in> set (in_org org tab)" by (rule governing_in_org [OF ok f Some])
  with es have ms: "permission_config_to_masks db org (Some es) = Inr (fo_view_masks g)"
    using stored [OF g] g unfolding masks_stored_def by simp
  have "set (fo_view_masks g) \<inter> set us \<noteq> {} \<longleftrightarrow> admits m es" if "fo_view_masks g \<noteq> []"
  proof -
    have "es \<noteq> []" using ms that by (cases es) (auto simp: permission_config_to_masks_def)
    then show ?thesis using config_admits [OF inv mem _ n us ms] by (auto simp: admits_def list_ex_iff)
  qed
  then show ?thesis using Some es by (auto simp: folder_visible_governing [OF ok f] masks_of_def)
qed

subsection \<open>Chains up to a folder\<close>

text \<open>The first visit of a folder splits a chain, and the part before it has no repetition.\<close>

lemma chain_at:
  assumes "iter lk k x = Some c" and "k < n"
  shows "chain lk n x = chain lk k x @ c # chain lk (n - k - 1) (parent_in lk c)"
  using assms(2)
proof (induction "n - k - 1" arbitrary: n)
  case 0
  then have "n = Suc k" by simp
  then show ?case using assms(1) by (simp add: chain_snoc)
next
  case (Suc j)
  then obtain n' where n': "n = Suc n'" "k < n'" "j = n' - k - 1" by (cases n) auto
  have "iter lk n' x = iter lk (n' - k - 1) (parent_in lk c)"
  proof -
    have "iter lk (k + Suc i) x = iter lk i (parent_in lk c)" for i
      by (induction i) (simp_all add: assms(1))
    from this [of "n' - k - 1"] n'(2) show ?thesis by simp
  qed
  moreover have "n - k - 1 = Suc (n' - k - 1)" using n' by simp
  ultimately show ?case using Suc.hyps(1) [OF n'(3,2)] unfolding n'(1) by (simp add: chain_snoc)
qed

lemma first_visit_bound:
  assumes "iter lk k x = Some c" and "\<And>i. i < k \<Longrightarrow> iter lk i x \<noteq> Some c" and "finite S"
    and "\<And>i g. i \<le> k \<Longrightarrow> iter lk i x = Some g \<Longrightarrow> g \<in> S"
  shows "k < card S"
proof -
  have "c \<notin> set (chain lk k x)" using assms(2) by (auto simp: set_chain)
  moreover have "c \<in> orbit lk x" using assms(1) by (auto simp: orbit_def)
  ultimately have "distinct (chain lk k x)" "length (chain lk k x) = k" using chain_full [of lk k x] by auto
  then have size: "card (insert c (set (chain lk k x))) = Suc k"
    using \<open>c \<notin> set (chain lk k x)\<close> by (simp add: distinct_card)
  have "insert c (set (chain lk k x)) \<subseteq> S"
  proof
    fix g
    assume "g \<in> insert c (set (chain lk k x))"
    then have "\<exists>i \<le> k. iter lk i x = Some g"
    proof
      assume "g = c"
      then show ?thesis using assms(1) by blast
    next
      assume "g \<in> set (chain lk k x)"
      then obtain i where "i < k" "iter lk i x = Some g" unfolding set_chain by blast
      then show ?thesis using less_imp_le by blast
    qed
    then obtain i where "i \<le> k" "iter lk i x = Some g" by blast
    then show "g \<in> S" by (rule assms(4))
  qed
  from card_mono [OF assms(3) this] show ?thesis unfolding size by (rule Suc_le_lessD)
qed
lemma iter_add: "iter lk (i + j) x = iter lk j (iter lk i x)"
  by (induction j) simp_all

lemma find_at:
  assumes "iter lk k x = Some c" and "k < n" and "P c"
  shows "find P (chain lk n x) = find P (chain lk k x @ [c])"
  unfolding chain_at [OF assms(1,2)] using assms(3) by (simp add: find_append split: option.splits)

subsection \<open>Boundaries of inheritance\<close>

lemma set_descendants:
  assumes ok: "folder_ids_ok tab" and c: "c \<in> set (in_org org tab)"
  shows "set (descendants org c tab) = {f \<in> set (in_org org tab). (fo_id f, fo_id c) \<in> (irel org tab)\<^sup>*}"
proof -
  have "f \<in> set (descendants org c tab) \<longleftrightarrow> f \<in> set (subtree_rows org [fo_id c] tab)" for f
    using mem_subtree_ids [OF ok, of f org "[fo_id c]"] subtree_rows_in_org [of org "[fo_id c]" tab]
    by (auto simp: descendants_def simp del: set_in_org)
  moreover have "fo_id r \<in> set [fo_id c] \<longleftrightarrow> r = c" if "r \<in> set (in_org org tab)" for r
    using ids_eqD [OF folder_ids_ok_in_org [OF ok] that c] by auto
  ultimately show ?thesis unfolding set_subtree_irel [OF ok] using c by blast
qed

lemma boundary_walk_find:
  "boundary_walk lk c n x = (case find (\<lambda>g. fo_id g = c \<or> fo_viewer g \<noteq> None) (chain lk n x) of
     None \<Rightarrow> False | Some g \<Rightarrow> fo_id g \<noteq> c)"
  by (induction lk c n x rule: boundary_walk.induct) auto

text \<open>From a folder of the subtree the walk reaches the changed folder without leaving the subtree.\<close>

lemma walk_in_subtree:
  assumes ok: "folder_ids_ok tab" and c: "c \<in> set (in_org org tab)" and f: "f \<in> set (descendants org c tab)"
  defines "lk \<equiv> by_id (in_org org tab)" and "D \<equiv> descendants org c tab"
  obtains k where "iter lk k (Some f) = Some c" "k < size_of D" "k < size_of (in_org org tab)"
    "\<And>i. i \<le> k \<Longrightarrow> iter (by_id D) i (Some f) = iter lk i (Some f)"
    "\<And>g. g \<in> set (chain lk k (Some f)) \<Longrightarrow> fo_id g \<noteq> fo_id c"
proof -
  have D: "set D = {f \<in> set (in_org org tab). (fo_id f, fo_id c) \<in> (irel org tab)\<^sup>*}"
    unfolding D_def by (rule set_descendants [OF ok c])
  have okD: "folder_ids_ok D" using ok by (simp add: D_def descendants_def)
  from f have fin: "f \<in> set (in_org org tab)" using D unfolding D_def by blast
  have "c \<in> orbit lk (Some f)" using orbit_irel [OF ok fin] f c D unfolding D_def lk_def by blast
  then obtain k0 where "iter lk k0 (Some f) = Some c" unfolding orbit_def by blast
  define k where "k = (LEAST k. iter lk k (Some f) = Some c)"
  have k: "iter lk k (Some f) = Some c" unfolding k_def by (rule LeastI) fact
  have least: "iter lk i (Some f) \<noteq> Some c" if "i < k" for i using not_less_Least that unfolding k_def by blast
  have inD: "g \<in> set D" if "i \<le> k" "iter lk i (Some f) = Some g" for i g
  proof -
    have g: "g \<in> set (in_org org tab)"
      using orbit_irel [OF ok fin, of g] that(2) unfolding orbit_def lk_def by blast
    have "iter lk (k - i) (Some g) = Some c" using iter_add [of lk i "k - i" "Some f"] that k by simp
    then have "(fo_id g, fo_id c) \<in> (irel org tab)\<^sup>*"
      using orbit_irel [OF ok g, of c] unfolding orbit_def lk_def by blast
    with g show ?thesis unfolding D by blast
  qed
  have agree: "iter (by_id D) i (Some f) = iter lk i (Some f)" if "i \<le> k" for i
    using that
  proof (induction i)
    case (Suc i)
    then have eq: "iter (by_id D) i (Some f) = iter lk i (Some f)" by simp
    have "iter lk i (Some f) \<noteq> None"
    proof
      assume "iter lk i (Some f) = None"
      then have "iter lk k (Some f) = None" using iter_add [of lk i "k - i" "Some f"] Suc.prems by simp
      with k show False by simp
    qed
    then obtain g where g: "iter lk i (Some f) = Some g" by blast
    have "iter lk (Suc i) (Some f) \<noteq> None"
    proof
      assume "iter lk (Suc i) (Some f) = None"
      then have "iter lk k (Some f) = None" using iter_add [of lk "Suc i" "k - Suc i" "Some f"] Suc.prems by simp
      with k show False by simp
    qed
    then obtain h where h: "iter lk (Suc i) (Some f) = Some h" by blast
    with g have p: "parent_in lk g = Some h" by simp
    have "h \<in> set D" using inD [OF Suc.prems h] .
    then have "parent_in (by_id D) g = Some h"
      using p unfolding lk_def parent_in_Some [OF okD] parent_in_Some [OF folder_ids_ok_in_org [OF ok]] by blast
    with eq g h show ?case by simp
  qed simp
  have "k < card (set D)" by (rule first_visit_bound [OF k least]) (use inD in auto)
  moreover have "card (set D) \<le> card (set (in_org org tab))" unfolding D by (rule card_mono) auto
  moreover have "fo_id g \<noteq> fo_id c" if "g \<in> set (chain lk k (Some f))" for g
  proof -
    from that obtain i where i: "i < k" "iter lk i (Some f) = Some g" unfolding set_chain by blast
    then have "g \<in> set (in_org org tab)" using inD [of i g] D by simp
    moreover have "g \<noteq> c" using least [OF i(1)] i(2) by blast
    ultimately show ?thesis using ids_eqD [OF folder_ids_ok_in_org [OF ok] _ c] by blast
  qed
  ultimately show thesis
    using that [OF k _ _ agree] by (simp add: size_of_ids_ok [OF okD] size_of_ids_ok [OF folder_ids_ok_in_org [OF ok]])
qed

lemma chain_agree:
  assumes "\<And>i. i \<le> k \<Longrightarrow> iter lk' i x = iter lk i x"
  shows "chain lk' k x = chain lk k x"
  using assms by (induction k) (simp_all add: chain_snoc del: chain.simps(2,3))

text \<open>Whether a folder of the subtree is behind a boundary, read off the chain of the whole organization.\<close>

lemma under_boundary_find:
  assumes ok: "folder_ids_ok tab" and c: "c \<in> set (in_org org tab)" and f: "f \<in> set (descendants org c tab)"
    and n: "size_of (in_org org tab) \<le> n"
  shows "is_under_boundary f (fo_id c) (descendants org c tab) \<longleftrightarrow>
    (\<exists>g. find (\<lambda>g. fo_id g = fo_id c \<or> fo_viewer g \<noteq> None) (chain (by_id (in_org org tab)) n (Some f)) = Some g
      \<and> fo_id g \<noteq> fo_id c)"
proof -
  let ?P = "\<lambda>g. fo_id g = fo_id c \<or> fo_viewer g \<noteq> None" and ?D = "descendants org c tab"
  obtain k where k: "iter (by_id (in_org org tab)) k (Some f) = Some c" "k < size_of (descendants org c tab)" "k < size_of (in_org org tab)"
    and agree: "\<And>i. i \<le> k \<Longrightarrow> iter (by_id (descendants org c tab)) i (Some f) = iter (by_id (in_org org tab)) i (Some f)"
    and before: "\<And>g. g \<in> set (chain (by_id (in_org org tab)) k (Some f)) \<Longrightarrow> fo_id g \<noteq> fo_id c"
    using walk_in_subtree [OF ok c f] by metis
  have kD: "iter (by_id ?D) k (Some f) = Some c" using agree [of k] k(1) by simp
  have "find ?P (chain (by_id ?D) (size_of ?D + 1) (Some f)) = find ?P (chain (by_id ?D) k (Some f) @ [c])"
    by (rule find_at [OF kD]) (use k in auto)
  also have "chain (by_id ?D) k (Some f) = chain (by_id (in_org org tab)) k (Some f)"
    using agree by (rule chain_agree)
  also have "find ?P (chain (by_id (in_org org tab)) k (Some f) @ [c]) = find ?P (chain (by_id (in_org org tab)) n (Some f))"
    by (rule find_at [symmetric, OF k(1)]) (use k n in auto)
  finally show ?thesis unfolding is_under_boundary_def boundary_walk_find by (auto split: option.splits)
qed

lemma governing_any:
  assumes ok: "folder_ids_ok tab" and f: "f \<in> set (in_org org tab)" and "size_of (in_org org tab) \<le> n"
  shows "governing org tab f = find (\<lambda>g. fo_viewer g \<noteq> None) (chain (by_id (in_org org tab)) n (Some f))"
  unfolding governing_def by (rule closed_part_walk [OF ok closed_part_self [OF ok] f]) (use assms(3) in auto)

text \<open>A folder that is not behind a boundary inherits from the changed folder.\<close>

lemma governing_inherited:
  assumes ok: "folder_ids_ok tab" and c: "c \<in> set (in_org org tab)" and f: "f \<in> set (descendants org c tab)"
    and open': "\<not> is_under_boundary f (fo_id c) (descendants org c tab)"
  shows "governing org tab f = governing org tab c"
proof -
  let ?lk = "by_id (in_org org tab)" and ?N = "size_of (in_org org tab)"
  have fin: "f \<in> set (in_org org tab)" using f set_descendants [OF ok c] by blast
  obtain k where k: "iter (by_id (in_org org tab)) k (Some f) = Some c" "k < size_of (descendants org c tab)" "k < size_of (in_org org tab)"
    and agree: "\<And>i. i \<le> k \<Longrightarrow> iter (by_id (descendants org c tab)) i (Some f) = iter (by_id (in_org org tab)) i (Some f)"
    and before: "\<And>g. g \<in> set (chain (by_id (in_org org tab)) k (Some f)) \<Longrightarrow> fo_id g \<noteq> fo_id c"
    using walk_in_subtree [OF ok c f] by metis
  let ?P = "\<lambda>g. fo_id g = fo_id c \<or> fo_viewer g \<noteq> None" and ?v = "\<lambda>g. fo_viewer g \<noteq> None"
  have clear: "find ?v (chain ?lk k (Some f)) = None"
  proof (rule ccontr)
    assume "find ?v (chain ?lk k (Some f)) \<noteq> None"
    then have "find ?P (chain ?lk k (Some f)) \<noteq> None" unfolding find_None_iff by blast
    then obtain h where h: "find ?P (chain ?lk k (Some f)) = Some h" by blast
    have "h \<in> set (chain ?lk k (Some f))" using find_SomeD [OF h] by simp
    then have "fo_id h \<noteq> fo_id c" by (rule before)
    moreover have "find ?P (chain ?lk ?N (Some f)) = Some h"
      using find_at [where P = ?P, OF k(1,3)] h by (simp only: find_append option.case simp_thms)
    ultimately show False using open' under_boundary_find [OF ok c f order_refl] by blast
  qed
  have len: "k < k + Suc (Suc ?N)" by simp
  have "governing org tab f = find ?v (chain ?lk (k + Suc (Suc ?N)) (Some f))" by (rule governing_any [OF ok fin]) simp
  also have "\<dots> = find ?v (c # chain ?lk (Suc ?N) (parent_in ?lk c))"
    unfolding chain_at [OF k(1) len] find_append clear by simp
  also have "\<dots> = find ?v (chain ?lk (Suc (Suc ?N)) (Some c))" by simp
  also have "\<dots> = governing org tab c" by (rule governing_any [OF ok c, symmetric]) simp
  finally show ?thesis .
qed

subsection \<open>A change of one folder's configuration\<close>

lemma find_map: "find P (map h xs) = map_option h (find (\<lambda>x. P (h x)) xs)"
  by (induction xs) auto

lemma find_weaken: "find (\<lambda>x. P x \<or> Q x) xs = Some x \<Longrightarrow> \<not> P x \<Longrightarrow> find Q xs = Some x"
  by (induction xs) (auto split: if_splits)

lemma by_id_map:
  assumes "\<And>r. fo_id (h r) = fo_id r"
  shows "by_id (map h fs) i = map_option h (by_id fs i)"
  unfolding by_id_def rev_map find_map assms ..

lemma chain_map:
  assumes "\<And>r. fo_id (h r) = fo_id r \<and> fo_parent (h r) = fo_parent r"
  shows "chain (by_id (map h fs)) n (map_option h x) = map h (chain (by_id fs) n x)"
proof (induction n arbitrary: x)
  case (Suc n)
  have "parent_in (by_id (map h fs)) (h f) = map_option h (parent_in (by_id fs) f)" for f
    using assms by_id_map [of h] by (simp add: parent_in_def split: option.splits)
  with Suc show ?case by (cases x) simp_all
qed simp

lemma governing_unaffected:
  assumes ok: "folder_ids_ok tab" and c: "c \<in> set (in_org org tab)" and f: "f \<in> set (in_org org tab)"
    and h: "\<And>r. fo_id (h r) = fo_id r \<and> fo_org (h r) = fo_org r \<and> fo_parent (h r) = fo_parent r"
    and only: "\<And>r. fo_id r \<noteq> fo_id c \<Longrightarrow> h r = r"
    and apart: "h f \<notin> set (descendants org (h c) (map h tab))
      \<or> is_under_boundary (h f) (fo_id c) (descendants org (h c) (map h tab))"
  shows "governing org (map h tab) (h f) = governing org tab f"
proof -
  let ?lk = "by_id (in_org org tab)" and ?N = "size_of (in_org org tab)"
  let ?v = "\<lambda>g. fo_viewer g \<noteq> None" and ?P = "\<lambda>g. fo_id g = fo_id c \<or> fo_viewer g \<noteq> None"
  define ch where "ch = chain ?lk ?N (Some f)"
  have io: "in_org org (map h tab) = map h (in_org org tab)" using h by (intro in_org_map) simp
  have ok3: "folder_ids_ok (map h tab)" using ok h by (simp add: folder_ids_ok_map)
  have N3: "size_of (in_org org (map h tab)) = ?N" using h by (simp add: io size_of_def comp_def)
  have f3: "h f \<in> set (in_org org (map h tab))" and c3: "h c \<in> set (in_org org (map h tab))" using f c h by auto
  have ch3: "chain (by_id (in_org org (map h tab))) ?N (Some (h f)) = map h ch"
    using chain_map [of h "in_org org tab" ?N "Some f"] h by (simp add: io ch_def)
  have gov: "governing org tab f = find ?v ch" unfolding ch_def by (rule governing_any [OF ok f order_refl])
  have gov3: "governing org (map h tab) (h f) = find ?v (map h ch)"
    using governing_any [OF ok3 f3, of ?N] by (simp add: N3 ch3)
  show ?thesis
  proof (cases "h f \<in> set (descendants org (h c) (map h tab))")
    case False
    have "fo_id r \<noteq> fo_id c" if "r \<in> set ch" for r
    proof
      assume r: "fo_id r = fo_id c"
      have "r \<in> orbit ?lk (Some f)" using that unfolding ch_def set_chain orbit_def by blast
      then have "(fo_id f, fo_id c) \<in> (irel org tab)\<^sup>*" using orbit_irel [OF ok f] r by metis
      then have "(fo_id (h f), fo_id (h c)) \<in> (irel org (map h tab))\<^sup>*" using h irel_map [of h org tab] by simp
      with False f3 show False unfolding set_descendants [OF ok3 c3] by blast
    qed
    then have "map h ch = ch" using only by (intro map_idI) blast
    then show ?thesis unfolding gov gov3 by simp
  next
    case True
    have hc: "fo_id (h c) = fo_id c" using h by simp
    from True apart have "is_under_boundary (h f) (fo_id (h c)) (descendants org (h c) (map h tab))" by (simp add: hc)
    then obtain g3 where g3: "find ?P (map h ch) = Some g3" "fo_id g3 \<noteq> fo_id c"
      using under_boundary_find [OF ok3 c3 True, of ?N] by (auto simp: N3 ch3 hc)
    have P: "?P (h r) = ?P r" for r using h only [of r] by (cases "fo_id r = fo_id c") simp_all
    from g3(1) obtain g where g: "find ?P ch = Some g" "h g = g3" unfolding find_map P by blast
    with g3(2) h have idg: "fo_id g \<noteq> fo_id c" by metis
    then have "g = g3" using only g(2) by simp
    then show ?thesis
      using find_weaken [OF g(1) idg] find_weaken [OF g3(1) g3(2)] unfolding gov gov3 by simp
  qed
qed

subsection \<open>Propagation\<close>

lemma mem_propagation:
  "pl \<in> set (collect_subtree_propagation org c tab docs) \<longleftrightarrow>
    (\<exists>f \<in> set (descendants org c tab). \<not> is_under_boundary f (fo_id c) (descendants org c tab)
      \<and> (\<exists>d \<in> set docs. do_org d = org \<and> do_folder d = Some (fo_id f) \<and> do_viewer d = None
          \<and> pl = \<lparr>pl_tenant = org, pl_key = do_key d, pl_tags = index_tags (do_tags d) (Some (fo_id f)),
               pl_access_keys = effective_view_masks org (Some c) tab, pl_title = do_title d\<rparr>))"
  unfolding collect_subtree_propagation_def Let_def perm_propagation_payloads_def list_inheriting_in_folder_def
  by auto

lemma propagated_masks:
  assumes ok: "folder_ids_ok tab" and c: "c \<in> set (in_org org tab)" and f: "f \<in> set (descendants org c tab)"
    and "\<not> is_under_boundary f (fo_id c) (descendants org c tab)"
  shows "effective_view_masks org (Some f) tab = effective_view_masks org (Some c) tab"
proof -
  have "f \<in> set (in_org org tab)" using f set_descendants [OF ok c] by blast
  from effective_view_masks_governing [OF ok this] effective_view_masks_governing [OF ok c]
    governing_inherited [OF ok c f assms(4)] show ?thesis by simp
qed

lemma set_configs_map:
  assumes ok: "folder_ids_ok tab" and "set_configs db org i body tab = Inr tab'"
  shows "\<exists>c h. c \<in> set (in_org org tab) \<and> fo_id c = i \<and> tab' = map h tab
    \<and> (\<forall>r. fo_id (h r) = fo_id r \<and> fo_org (h r) = fo_org r \<and> fo_parent (h r) = fo_parent r)
    \<and> (\<forall>r. fo_id r \<noteq> i \<longrightarrow> h r = r)"
proof -
  from assms(2) obtain c v co vm cm where c: "folder_get org i tab = Some c"
    and tab': "tab' = upd_folder i (\<lambda>r. r\<lparr>fo_viewer := v, fo_contributor := co, fo_view_masks := vm, fo_contributor_masks := cm\<rparr>) tab"
    by (auto simp: set_configs_def Let_def result_simps split: option.splits)
  have mem: "c \<in> set (in_org org tab)" "fo_id c = i" using c by (simp_all add: folder_get_Some [OF ok])
  let ?h = "\<lambda>r. if fo_id r = i then r\<lparr>fo_viewer := v, fo_contributor := co, fo_view_masks := vm, fo_contributor_masks := cm\<rparr> else r"
  have "tab' = map ?h tab" by (simp only: tab' upd_folder_map)
  then show ?thesis by (intro exI [of _ c] exI [of _ ?h]) (use mem in auto)
qed

subsection \<open>Tags\<close>

lemma strip_prefix:
  assumes "s \<noteq> []" and "\<not> is_space (hd s)" and "\<not> is_space (last s)"
  shows "\<exists>t'. strip (s @ t) = s @ t'"
proof -
  have "dropWhile is_space (s @ t) = s @ t" using assms(1,2) by (cases s) auto
  moreover have "dropWhile is_space (xs @ rev s) = dropWhile is_space xs @ rev s" for xs
    using assms(1,3) by (induction xs) (cases s rule: rev_cases; simp)+
  ultimately have "strip (s @ t) = s @ rev (dropWhile is_space (rev t))" by (simp add: strip_def)
  then show ?thesis by blast
qed

lemma folder_tag_reserved: "is_reserved_tag_name (folder_tag i)"
proof -
  obtain t where "strip (FOLDER_TAG_PREFIX @ i) = FOLDER_TAG_PREFIX @ t"
  proof -
    have "FOLDER_TAG_PREFIX \<noteq> []" "\<not> is_space (hd FOLDER_TAG_PREFIX)" "\<not> is_space (last FOLDER_TAG_PREFIX)" by code_simp+
    from strip_prefix [OF this, of i] show thesis using that by blast
  qed
  moreover have "lower FOLDER_TAG_PREFIX = FOLDER_TAG_PREFIX" by code_simp
  ultimately show ?thesis by (simp add: is_reserved_tag_name_def folder_tag_def lower_def)
qed

subsection \<open>The nearest configured folder\<close>

lemma governing_ancestors:
  assumes ok: "folder_ids_ok tab" and f: "f \<in> set (in_org org tab)"
  shows "governing org tab f = find (\<lambda>g. fo_viewer g \<noteq> None) (f # ancestors org f tab)"
proof (cases "fo_viewer f = None")
  case True
  with effective_nearest [OF ok f] show ?thesis by (simp add: nearest_configured_ancestor_def)
qed (simp add: governing_def)

subsection \<open>Properties\<close>

text \<open>
  The routines that decide visibility agree, on any table with distinct identifiers, corrupt cycles included: a
  folder is in the listing for some masks exactly when the check of that one folder passes, and the expansion
  of a key's folders returns exactly the listed folders and those that have one of them among their
  ancestors, each with the answer of the same check.
\<close>

theorem visibility_agrees:
  assumes "folder_ids_ok tab"
  shows "(f \<in> set (fst (list_visible_to_masks org masks None None tab)) \<longleftrightarrow>
      f \<in> set tab \<and> fo_org f = org \<and> folder_visible org f masks tab)
    \<and> ((i, b) \<in> set (visible_subtrees org ids ms tab) \<longleftrightarrow>
      (\<exists>g \<in> set tab. fo_org g = org \<and> fo_id g = i \<and> (i \<in> set ids \<or> (\<exists>a \<in> set (ancestors org g tab). fo_id a \<in> set ids))
        \<and> b = folder_visible org g (Some ms) tab))"
  unfolding list_visible_iff [OF assms] visible_subtrees_iff [OF assms] subtree_ancestors [OF assms] Bex_def by auto

theorem visibility_agrees_witness:
  "abc_folder ''b'' (Some ''a'') ''B'' ''A.B'' \<in> set (fst (list_visible_to_masks ''o1'' (Some [7]) None None abc))
   \<and> folder_visible ''o1'' (abc_folder ''b'' (Some ''a'') ''B'' ''A.B'') (Some [7]) abc
   \<and> (''c'', True) \<in> set (visible_subtrees ''o1'' [''b''] [7] abc)"
proof -
  let ?b = "abc_folder ''b'' (Some ''a'') ''B'' ''A.B''" and ?c = "abc_folder ''c'' (Some ''b'') ''C'' ''A.B.C''"
  have ok: "folder_ids_ok abc" using folders_reachable_tree [OF abc_reachable] by (simp add: tree_ok_def)
  have mem: "?b \<in> set abc" "?c \<in> set abc" by (simp_all add: abc_eq)
  have org: "fo_org ?b = ''o1''" "fo_org ?c = ''o1''" "fo_id ?c = ''c''" by (simp_all add: abc_folder_def)
  have vis: "folder_visible ''o1'' ?b (Some [7]) abc" "folder_visible ''o1'' ?c (Some [7]) abc" by code_simp+
  have anc: "list_ex (\<lambda>a. fo_id a \<in> set [''b'']) (ancestors ''o1'' ?c abc)" by code_simp
  have "?b \<in> set (fst (list_visible_to_masks ''o1'' (Some [7]) None None abc))"
    using visibility_agrees [OF ok] mem org vis by blast
  moreover have "(''c'', True) \<in> set (visible_subtrees ''o1'' [''b''] [7] abc)"
    using visibility_agrees [OF ok] mem(2) org vis anc unfolding list_ex_iff by blast
  ultimately show ?thesis using vis by blast
qed

text \<open>
  End to end from the configurations: a member reads a folder if and only if no folder from it upwards is
  configured, or the nearest configured one admits the member by one of its entries, or its stored masks are empty
  (which for a stored configuration means that it is empty or that the organization knows none of its entries).
\<close>

theorem member_sees_folder:
  assumes "folder_ids_ok tab" and "f \<in> set tab" and "fo_org f = org" and "dims_reachable db" and "member_ok db org m"
    and "org_number org db = Some n" and "calculate_user_masks_from_membership m n = Inr us"
    and "\<forall>g \<in> set tab. masks_stored db g"
  shows "folder_visible org f (Some us) tab \<longleftrightarrow>
    (case find (\<lambda>g. fo_viewer g \<noteq> None) (f # ancestors org f tab) of None \<Rightarrow> True
     | Some g \<Rightarrow> fo_view_masks g = [] \<or> admits m (the (fo_viewer g)))"
proof -
  have f: "f \<in> set (in_org org tab)" using assms(2,3) by simp
  have "folder_visible org f (Some us) tab \<longleftrightarrow> (case governing org tab f of None \<Rightarrow> True
    | Some g \<Rightarrow> fo_view_masks g = [] \<or> admits m (the (fo_viewer g)))"
    by (rule member_sees [OF assms(1) f dims_inv_reachable [OF assms(4)] assms(5-7)]) (use assms(8) in simp)
  moreover have "governing org tab f = find (\<lambda>g. fo_viewer g \<noteq> None) (f # ancestors org f tab)"
    using governing_ancestors [OF assms(1) f] .
  ultimately show ?thesis by simp
qed

definition south_config :: perm_config where
  "south_config = [[(''region'', ''South'')]]"

definition restrict_a :: folder_update where
  "restrict_a = \<lparr>up_name = None, up_description = None, up_parent = None, up_viewer = Some (Some south_config), up_contributor = None\<rparr>"

definition leaf_doc :: document where
  "leaf_doc = \<lparr>do_id = ''d'', do_org = ''o1'', do_folder = Some ''c'', do_key = ''k'', do_title = ''T'', do_tags = [''x'', ''Folder:z''],
     do_viewer = None, do_view_masks = []\<rparr>"

definition restricted :: "folder list" where
  "restricted = (case update_folder two_regions ''o1'' ''a'' restrict_a [] abc of Inl _ \<Rightarrow> [] | Inr (tab, _) \<Rightarrow> tab)"

definition abc_a :: folder where
  "abc_a = (abc_folder ''a'' None ''A'' ''A'')\<lparr>fo_viewer := Some south_config, fo_view_masks := [2293759]\<rparr>"

lemma restricted_eq: "restricted = [abc_a, abc_folder ''b'' (Some ''a'') ''B'' ''A.B'', abc_folder ''c'' (Some ''b'') ''C'' ''A.B.C'']"
  by code_simp

theorem member_sees_folder_witness:
  "\<exists>us vs. calculate_user_masks_from_membership (in_region (region_row ''South'' 2)) 1 = Inr us
    \<and> calculate_user_masks_from_membership (in_region (region_row ''North'' 1)) 1 = Inr vs
    \<and> folder_visible ''o1'' (abc_folder ''c'' (Some ''b'') ''C'' ''A.B.C'') (Some us) restricted
    \<and> \<not> folder_visible ''o1'' (abc_folder ''c'' (Some ''b'') ''C'' ''A.B.C'') (Some vs) restricted"
proof -
  let ?c = "abc_folder ''c'' (Some ''b'') ''C'' ''A.B.C''"
  let ?s = "in_region (region_row ''South'' 2)" and ?n = "in_region (region_row ''North'' 1)"
  have ok: "folder_ids_ok restricted" unfolding restricted_eq by (simp add: folder_ids_ok_def abc_folder_def abc_a_def)
  have c: "?c \<in> set restricted" "fo_org ?c = ''o1''" by (simp_all add: restricted_eq) (simp add: abc_folder_def)
  have mem: "member_ok two_regions ''o1'' ?s" "member_ok two_regions ''o1'' ?n"
    by (simp_all add: member_ok_def all_dim_kind in_region_def two_regions_eq region_row_def)
  have n: "org_number ''o1'' two_regions = Some 1" by (simp add: two_regions_eq org_number_def)
  have "list_all (masks_stored two_regions) restricted" by code_simp
  then have stored: "\<forall>g \<in> set restricted. masks_stored two_regions g" by (simp add: list_all_iff)
  have gov: "find (\<lambda>g. fo_viewer g \<noteq> None) (?c # ancestors ''o1'' ?c restricted) = Some abc_a" by code_simp
  have a: "fo_view_masks abc_a \<noteq> []" "fo_viewer abc_a = Some south_config" by (simp_all add: abc_a_def)
  have adm: "admits ?s south_config" "\<not> admits ?n south_config"
    by (auto simp: admits_def south_config_def satisfies_def all_dim_kind in_region_def region_row_def)
  have "\<not> isl (calculate_user_masks_from_membership ?s 1)" by code_simp
  then obtain us where us: "calculate_user_masks_from_membership ?s 1 = Inr us" by (metis sum.collapse(2))
  have "\<not> isl (calculate_user_masks_from_membership ?n 1)" by code_simp
  then obtain vs where vs: "calculate_user_masks_from_membership ?n 1 = Inr vs" by (metis sum.collapse(2))
  show ?thesis
    using us vs a adm
      member_sees_folder [OF ok c two_regions_reachable mem(1) n us stored]
      member_sees_folder [OF ok c two_regions_reachable mem(2) n vs stored]
    unfolding gov by auto
qed

text \<open>
  C31. A changed configuration reaches the index completely: after \<open>set_configs\<close> the payloads collected for the
  changed folder hold, for every document that inherits and whose folder's effective masks changed, the new effective
  masks; and every payload of the collection carries the effective masks of its document's own folder.
\<close>

theorem propagation_complete:
  assumes "folder_ids_ok tab" and "set_configs db org i body tab = Inr tab'" and "folder_get org i tab' = Some c"
  shows "(\<forall>d \<in> set docs. \<forall>f f'. do_org d = org \<and> do_viewer d = None \<and> do_folder d = Some j
        \<and> folder_get org j tab = Some f \<and> folder_get org j tab' = Some f'
        \<and> effective_view_masks org (Some f) tab \<noteq> effective_view_masks org (Some f') tab' \<longrightarrow>
        (\<exists>pl \<in> set (collect_subtree_propagation org c tab' docs).
           pl_key pl = do_key d \<and> pl_access_keys pl = effective_view_masks org (Some f') tab'))
    \<and> (\<forall>pl \<in> set (collect_subtree_propagation org c tab' docs). \<exists>d \<in> set docs. \<exists>f'.
        do_org d = org \<and> do_viewer d = None \<and> do_folder d = Some (fo_id f') \<and> folder_get org (fo_id f') tab' = Some f'
        \<and> pl_key pl = do_key d \<and> pl_access_keys pl = effective_view_masks org (Some f') tab')"
proof -
  obtain c0 h where c0: "c0 \<in> set (in_org org tab)" "fo_id c0 = i" and tab': "tab' = map h tab"
    and hr: "\<forall>r. fo_id (h r) = fo_id r \<and> fo_org (h r) = fo_org r \<and> fo_parent (h r) = fo_parent r"
    and onlyr: "\<forall>r. fo_id r \<noteq> i \<longrightarrow> h r = r"
    using set_configs_map [OF assms(1,2)] by blast
  have h: "fo_id (h r) = fo_id r \<and> fo_org (h r) = fo_org r \<and> fo_parent (h r) = fo_parent r" for r using hr by blast
  have only: "h r = r" if "fo_id r \<noteq> fo_id c0" for r using onlyr that c0(2) by blast
  have ok': "folder_ids_ok tab'" using assms(1) h by (simp add: tab' folder_ids_ok_map)
  have c: "c \<in> set (in_org org tab')" "fo_id c = i" using assms(3) by (simp_all add: folder_get_Some [OF ok'])
  have hmem: "h r \<in> set (in_org org tab')" if "r \<in> set (in_org org tab)" for r using that h by (simp add: tab')
  have hc: "h c0 = c"
    by (rule ids_eqD [OF folder_ids_ok_in_org [OF ok'] hmem [OF c0(1)] c(1)]) (simp add: h c0 c)
  let ?D = "descendants org c tab'"
  have covered: "\<exists>pl \<in> set (collect_subtree_propagation org c tab' docs).
      pl_key pl = do_key d \<and> pl_access_keys pl = effective_view_masks org (Some f') tab'"
    if d: "d \<in> set docs" "do_org d = org" "do_viewer d = None" "do_folder d = Some j"
      and f: "folder_get org j tab = Some f" and f': "folder_get org j tab' = Some f'"
      and ne: "effective_view_masks org (Some f) tab \<noteq> effective_view_masks org (Some f') tab'" for d f f'
  proof -
    have fm: "f \<in> set (in_org org tab)" "fo_id f = j" using f by (simp_all add: folder_get_Some [OF assms(1)])
    have fm': "f' \<in> set (in_org org tab')" "fo_id f' = j" using f' by (simp_all add: folder_get_Some [OF ok'])
    have hf: "h f = f'"
      by (rule ids_eqD [OF folder_ids_ok_in_org [OF ok'] hmem [OF fm(1)] fm'(1)]) (simp add: h fm fm')
    have "governing org tab' f' \<noteq> governing org tab f"
      using ne effective_view_masks_governing [OF assms(1) fm(1)] effective_view_masks_governing [OF ok' fm'(1)] by auto
    then have inside: "f' \<in> set ?D" "\<not> is_under_boundary f' (fo_id c) ?D"
      using governing_unaffected [OF assms(1) c0(1) fm(1) h only] unfolding hf hc tab' [symmetric] c0(2) c(2) by blast+
    let ?pl = "\<lparr>pl_tenant = org, pl_key = do_key d, pl_tags = index_tags (do_tags d) (Some (fo_id f')),
        pl_access_keys = effective_view_masks org (Some c) tab', pl_title = do_title d\<rparr>"
    have "?pl \<in> set (collect_subtree_propagation org c tab' docs)"
      unfolding mem_propagation using inside d fm'(2) by blast
    moreover have "pl_key ?pl = do_key d" "pl_access_keys ?pl = effective_view_masks org (Some f') tab'"
      using propagated_masks [OF ok' c(1) inside] by simp_all
    ultimately show ?thesis by blast
  qed
  moreover have "\<exists>d \<in> set docs. \<exists>f'. do_org d = org \<and> do_viewer d = None \<and> do_folder d = Some (fo_id f')
      \<and> folder_get org (fo_id f') tab' = Some f' \<and> pl_key pl = do_key d
      \<and> pl_access_keys pl = effective_view_masks org (Some f') tab'"
    if "pl \<in> set (collect_subtree_propagation org c tab' docs)" for pl
  proof -
    from that obtain f' d where f': "f' \<in> set ?D" "\<not> is_under_boundary f' (fo_id c) ?D"
      and d: "d \<in> set docs" "do_org d = org" "do_folder d = Some (fo_id f')" "do_viewer d = None"
      and pl: "pl_key pl = do_key d" "pl_access_keys pl = effective_view_masks org (Some c) tab'"
      unfolding mem_propagation by auto
    have "f' \<in> set (in_org org tab')" using f'(1) set_descendants [OF ok' c(1)] by blast
    then have "folder_get org (fo_id f') tab' = Some f'" by (simp add: folder_get_Some [OF ok'])
    with d pl propagated_masks [OF ok' c(1) f'] show ?thesis by metis
  qed
  ultimately show ?thesis by blast
qed

theorem propagation_complete_witness:
  "\<exists>pl \<in> set (collect_subtree_propagation ''o1'' abc_a restricted [leaf_doc]).
     pl_key pl = ''k'' \<and> pl_access_keys pl = [2293759]"
proof -
  let ?c = "abc_folder ''c'' (Some ''b'') ''C'' ''A.B.C''"
  have ok: "folder_ids_ok abc" using folders_reachable_tree [OF abc_reachable] by (simp add: tree_ok_def)
  have set: "set_configs two_regions ''o1'' ''a'' restrict_a abc = Inr restricted" by code_simp
  have a: "folder_get ''o1'' ''a'' restricted = Some abc_a" by code_simp
  have c: "folder_get ''o1'' ''c'' abc = Some ?c" "folder_get ''o1'' ''c'' restricted = Some ?c" by code_simp+
  have eff: "effective_view_masks ''o1'' (Some ?c) abc = []"
    "effective_view_masks ''o1'' (Some ?c) restricted = [2293759]" by code_simp+
  have d: "do_org leaf_doc = ''o1''" "do_viewer leaf_doc = None" "do_folder leaf_doc = Some ''c''" "do_key leaf_doc = ''k''"
    by (simp_all add: leaf_doc_def)
  from propagation_complete [OF ok set a, of "[leaf_doc]" "''c''", THEN conjunct1] show ?thesis
    using c d eff by auto
qed

text \<open>
  A user's tag can never forge the membership of a folder in the index: whatever tags a document has, a folder
  tag is among the tags it is indexed with exactly when it is the tag of the folder the document is in.
\<close>

theorem index_tags_membership:
  "folder_tag g \<in> set (index_tags user_tags folder_id) \<longleftrightarrow> folder_id = Some g"
  using folder_tag_reserved [of g] by (auto simp: index_tags_def folder_tag_def split: option.splits)

subsection \<open>What a move leaves behind\<close>

text \<open>
  A folder without a configuration of its own is moved under a restricted one, by the route of an update. Its
  effective masks change from none to those of the new parent, but no payload is sent, so the index keeps the
  document readable by everyone in the organization.
\<close>

definition open_root :: folder where
  "open_root = abc_folder ''u'' None ''U'' ''U''"

theorem move_leaves_index_stale:
  "map_sum id (\<lambda>(tab, payloads). (payloads = [], effective_view_masks ''o1'' (folder_get ''o1'' ''u'' tab) tab))
      (update_folder two_regions ''o1'' ''u''
        \<lparr>up_name = None, up_description = None, up_parent = Some (Some ''a''), up_viewer = None, up_contributor = None\<rparr>
        [leaf_doc\<lparr>do_folder := Some ''u''\<rparr>] (restricted @ [open_root])) = Inr (True, [2293759])
   \<and> effective_view_masks ''o1'' (Some open_root) (restricted @ [open_root]) = []"
  by code_simp

text \<open>
  In one request the payloads are collected before the move: a configuration that is cleared while the folder
  moves under a restricted one is propagated with the masks of the old place.
\<close>

theorem clear_and_move_propagates_old:
  "map_sum id (\<lambda>(tab, payloads). (map pl_access_keys payloads, effective_view_masks ''o1'' (folder_get ''o1'' ''u'' tab) tab))
      (update_folder two_regions ''o1'' ''u''
        \<lparr>up_name = None, up_description = None, up_parent = Some (Some ''a''), up_viewer = Some None, up_contributor = None\<rparr>
        [leaf_doc\<lparr>do_folder := Some ''u''\<rparr>] (restricted @ [open_root])) = Inr ([[]], [2293759])"
  by code_simp

text \<open>
  A configuration that names a region the organization does not have stores no masks, so the folder and all
  below it are visible to a member with no assignment at all.
\<close>

theorem unresolved_config_is_public:
  "map_sum id (\<lambda>(tab, _). folder_visible ''o1'' (abc_folder ''c'' (Some ''b'') ''C'' ''A.B.C'') (Some [7]) tab)
      (update_folder two_regions ''o1'' ''a''
        (restrict_a\<lparr>up_viewer := Some (Some [[(''region'', ''Suoth'')]])\<rparr>) [] abc) = Inr True"
  by code_simp

end
