(* ===== verification/Api_Keys.thy ===== *)
theory Api_Keys
  imports Folder_Access
begin

section \<open>API keys: scopes, assignments, and what a key may read\<close>

text \<open>
  API keys of an organization: the scope catalog (\<open>services/api_key_scopes.py\<close>), minting and revoking
  (\<open>services/api_key_service.py\<close>), the assignments of a scoped key (\<open>services/api_key_assignments.py\<close>),
  the masks and folders it reads with (\<open>services/api_key_scope.py\<close>, \<open>services/search_access.py\<close>), the
  authentication of a request (\<open>auth/api_key.py\<close>), what a run started by a key may do
  (\<open>services/agents/tools/key_scope.py\<close>), the rate limiter, and the two deletions that respect the keys
  holding an item (\<open>routers/dimensions.py\<close>, \<open>routers/folders.py\<close>). The state is the record \<open>kdb\<close>.
  Parameters are the hash function, the random token, new identifiers and the clock; a time is
  an instant, and a naive one counts as UTC.
\<close>

subsection \<open>Scopes\<close>

text \<open>The catalog in its order, by name; the descriptions are text for the user interface.\<close>

definition API_SCOPES :: "string list" where
  "API_SCOPES = [''entities:read'', ''records:read'', ''records:write'', ''reports:read'', ''reports:run'',
     ''workflows:read'', ''workflows:run'', ''search:read'', ''knowledge:read'', ''knowledge:write'', ''agents:read'',
     ''agents:run'', ''work_orders:read'', ''work_orders:write'', ''config:read'', ''config:write'']"

definition SENSITIVE_SCOPES :: "string list" where
  "SENSITIVE_SCOPES = [''config:write'', ''knowledge:write'']"

definition SCOPED_KEY_SCOPES :: "string list" where
  "SCOPED_KEY_SCOPES = [''search:read'', ''knowledge:read'', ''knowledge:write'', ''agents:read'', ''agents:run'',
     ''work_orders:read'', ''work_orders:write'']"

definition domain_of :: "string \<Rightarrow> string" where
  "domain_of scope = takeWhile (\<lambda>c. c \<noteq> CHR '':'') scope"

definition domain_wildcard :: "string \<Rightarrow> string" where
  "domain_wildcard scope = domain_of scope @ '':*''"

definition allowed_wildcards :: "string list" where
  "allowed_wildcards = ''*'' # map domain_wildcard API_SCOPES"

definition validate_scoped_key_scopes :: "string list \<Rightarrow> (string list, unit) result" where
  "validate_scoped_key_scopes scopes = (let bad = sort (filter (\<lambda>s. s \<notin> set SCOPED_KEY_SCOPES) scopes) in
     if bad \<noteq> [] then Inl bad else Inr ())"

definition normalize_scopes :: "string list \<Rightarrow> (string list, string list) result" where
  "normalize_scopes scopes = (let requested = fromkeys scopes;
       unknown = filter (\<lambda>s. s \<notin> set API_SCOPES \<and> s \<notin> set allowed_wildcards) requested
     in if unknown \<noteq> [] then Inl (sort unknown)
        else Inr (filter (\<lambda>s. s \<in> set requested) API_SCOPES @ sort (filter (\<lambda>s. s \<notin> set API_SCOPES) requested)))"

definition has_scope :: "string list \<Rightarrow> string \<Rightarrow> bool" where
  "has_scope granted required = (if required \<in> set granted then True
     else if required \<in> set SENSITIVE_SCOPES then False
     else if ''*'' \<in> set granted then True
     else domain_wildcard required \<in> set granted)"

subsection \<open>State\<close>

record api_key =
  ak_id :: uuid
  ak_org :: uuid
  ak_name :: string
  ak_prefix :: string
  ak_hash :: string
  ak_scopes :: "string list"
  ak_created_by :: "uuid option"
  ak_mode :: string
  ak_last_used :: "int option"
  ak_expires :: "int option"
  ak_revoked :: "int option"

datatype item_kind = Dim dim_kind | Folders

record kdb =
  k_dims :: dims
  k_folders :: "folder list"
  k_docs :: "document list"
  k_members :: "membership list"
  k_site_admins :: "uuid list"
  k_keys :: "api_key list"
  k_held :: "(item_kind \<times> uuid \<times> uuid) list"

text \<open>
  \<open>k_held\<close> is the five join tables in one list: a row \<open>(kind, key, item)\<close> of the table of that kind.
  \<open>k_site_admins\<close> holds the profiles that are site admins.
\<close>

definition ACCESS_MODE_ORG :: string where "ACCESS_MODE_ORG = ''org''"
definition ACCESS_MODE_SCOPED :: string where "ACCESS_MODE_SCOPED = ''scoped''"

datatype key_error =
    Unauthorized
  | ScopeInvalid
  | KeyScopeError
  | HttpError nat
  | AccessFailed access_error
  | NameRequired
  | UnknownScopes "string list"
  | NoScope
  | ExpiryNotInFuture
  | KeyLimit
  | NotScopeAware "string list"
  | UnknownItems item_kind "uuid list"
  | OrganizationNotFound
  | HiddenFolders "string list"
  | FolderReach nat
  | KeyConflict
  | KeyNotFound

definition lift_access :: "(access_error, 'a) result \<Rightarrow> (key_error, 'a) result" where
  "lift_access r = (case r of Inl e \<Rightarrow> Inl (AccessFailed e) | Inr x \<Rightarrow> Inr x)"

lemma lift_access_eq_Inr [simp]: "lift_access r = Inr x \<longleftrightarrow> r = Inr x"
  by (simp add: lift_access_def split: sum.splits)

definition is_expired :: "int \<Rightarrow> api_key \<Rightarrow> bool" where
  "is_expired now k = (case ak_expires k of None \<Rightarrow> False | Some e \<Rightarrow> now \<ge> e)"

definition is_scoped :: "api_key \<Rightarrow> bool" where
  "is_scoped k \<longleftrightarrow> ak_mode k = ACCESS_MODE_SCOPED"

subsection \<open>Masks of a requester\<close>

definition UNRESTRICTED_MASK :: int where "UNRESTRICTED_MASK = 0"

definition with_unrestricted :: "int list \<Rightarrow> int list" where
  "with_unrestricted masks = UNRESTRICTED_MASK # filter (\<lambda>m. m \<noteq> UNRESTRICTED_MASK) masks"

text \<open>A context of a user's request: the flag of \<open>OrgContext\<close> and its membership.\<close>

definition resolve_user_access_keys :: "kdb \<Rightarrow> bool \<Rightarrow> uuid \<Rightarrow> membership \<Rightarrow> (key_error, int list option) result" where
  "resolve_user_access_keys db is_org_admin org m =
     (if is_org_admin then Inr None
      else case org_number org (k_dims db) of None \<Rightarrow> Inl (HttpError 404)
        | Some n \<Rightarrow> bind_res (lift_access (calculate_user_masks_from_membership m n))
            (\<lambda>ms. Inr (Some (with_unrestricted ms))))"

definition resolve_profile_access_keys :: "kdb \<Rightarrow> uuid \<Rightarrow> uuid \<Rightarrow> (key_error, int list option) result" where
  "resolve_profile_access_keys db org profile =
     bind_res (lift_access (scalar_one_or_none (filter (\<lambda>m. ms_profile m = profile \<and> ms_org m = org) (k_members db)))) (\<lambda>found.
       if profile \<in> set (k_site_admins db) then Inr None
       else case found of None \<Rightarrow> Inr (Some [])
         | Some m \<Rightarrow> if ms_is_org_admin m then Inr None
             else (case org_number org (k_dims db) of None \<Rightarrow> Inr (Some [])
               | Some n \<Rightarrow> bind_res (lift_access (calculate_user_masks_from_membership m n))
                   (\<lambda>ms. Inr (Some (with_unrestricted ms)))))"

subsection \<open>The scope of a scoped key\<close>

record key_scope =
  ks_masks :: "int list"
  ks_folders :: "uuid list option"

text \<open>A row of the assignments query: the kind and the item, with the number and the organization of the
  item when it exists.\<close>

record assignment_row =
  ar_kind :: item_kind
  ar_item :: uuid
  ar_number :: "int option"
  ar_org :: "uuid option"

definition held_items :: "kdb \<Rightarrow> item_kind \<Rightarrow> uuid \<Rightarrow> uuid list" where
  "held_items db kind key = map (\<lambda>(_, _, i). i) (filter (\<lambda>(k, a, _). k = kind \<and> a = key) (k_held db))"

definition dim_by_id :: "kdb \<Rightarrow> dim_kind \<Rightarrow> uuid \<Rightarrow> dimension option" where
  "dim_by_id db k i = find (\<lambda>d. dim_id d = i) (dim_table k (k_dims db))"

definition folder_by_id :: "kdb \<Rightarrow> uuid \<Rightarrow> folder option" where
  "folder_by_id db i = find (\<lambda>f. fo_id f = i) (k_folders db)"

definition dim_rows :: "kdb \<Rightarrow> uuid \<Rightarrow> dim_kind \<Rightarrow> assignment_row list" where
  "dim_rows db key k = map (\<lambda>i. let d = dim_by_id db k i in
       \<lparr>ar_kind = Dim k, ar_item = i, ar_number = map_option dim_number d, ar_org = map_option dim_org d\<rparr>)
     (held_items db (Dim k) key)"

definition folder_rows :: "kdb \<Rightarrow> uuid \<Rightarrow> assignment_row list" where
  "folder_rows db key = map (\<lambda>i. \<lparr>ar_kind = Folders, ar_item = i, ar_number = None,
       ar_org = map_option fo_org (folder_by_id db i)\<rparr>) (held_items db Folders key)"

definition assignments_query :: "kdb \<Rightarrow> uuid \<Rightarrow> assignment_row list" where
  "assignments_query db key = dim_rows db key Region @ dim_rows db key Role @ dim_rows db key Group
     @ dim_rows db key Department @ folder_rows db key"

definition numbers_of :: "assignment_row list \<Rightarrow> dim_kind \<Rightarrow> int list" where
  "numbers_of rows k = List.map_filter ar_number (filter (\<lambda>r. ar_kind r = Dim k) rows)"

definition resolve_key_scope :: "kdb \<Rightarrow> api_key \<Rightarrow> (key_error, key_scope) result" where
  "resolve_key_scope db k =
     (if \<not> is_scoped k then Inl KeyScopeError
      else let rows = assignments_query db (ak_id k) in
        if rows = [] then Inl KeyScopeError
        else if list_ex (\<lambda>r. ar_org r \<noteq> Some (ak_org k)) rows then Inl KeyScopeError
        else case org_number (ak_org k) (k_dims db) of None \<Rightarrow> Inl KeyScopeError
          | Some n \<Rightarrow>
            let listed = map ar_item (filter (\<lambda>r. ar_kind r = Folders) rows) in
            bind_res (lift_access (calculate_masks_from_assignments n (numbers_of rows Region) (numbers_of rows Department)
                (numbers_of rows Role) (numbers_of rows Group))) (\<lambda>ms.
              let masks = with_unrestricted ms in
              if masks = [] then Inl KeyScopeError
              else Inr \<lparr>ks_masks = masks,
                ks_folders = (if listed = [] then None
                  else Some (map fst (filter snd (visible_subtrees (ak_org k) listed masks (k_folders db)))))\<rparr>))"

subsection \<open>Authentication\<close>

record principal =
  pr_key :: uuid
  pr_org :: uuid
  pr_scopes :: "string list"
  pr_name :: string
  pr_mode :: string
  pr_masks :: "int list option"
  pr_folders :: "uuid list option"

definition pr_is_scoped :: "principal \<Rightarrow> bool" where
  "pr_is_scoped p \<longleftrightarrow> pr_mode p = ACCESS_MODE_SCOPED"

definition KEY_PREFIX :: string where "KEY_PREFIX = ''km2_''"

definition has_key_prefix :: "string \<Rightarrow> bool" where
  "has_key_prefix s \<longleftrightarrow> take (length KEY_PREFIX) s = KEY_PREFIX"

definition presented_key :: "string option \<Rightarrow> string option \<Rightarrow> string option" where
  "presented_key credentials x_api_key =
     (case credentials of Some c \<Rightarrow> if has_key_prefix c then Some c
          else (case x_api_key of Some x \<Rightarrow> if has_key_prefix x then Some x else None | None \<Rightarrow> None)
      | None \<Rightarrow> (case x_api_key of Some x \<Rightarrow> if has_key_prefix x then Some x else None | None \<Rightarrow> None))"

definition lookup_by_key_hash :: "kdb \<Rightarrow> string \<Rightarrow> (key_error, api_key option) result" where
  "lookup_by_key_hash db h = lift_access (scalar_one_or_none (filter (\<lambda>k. ak_hash k = h) (k_keys db)))"

definition LAST_USED_DEBOUNCE_SECONDS :: int where "LAST_USED_DEBOUNCE_SECONDS = 60"

definition touch_last_used :: "int \<Rightarrow> api_key \<Rightarrow> kdb \<Rightarrow> kdb" where
  "touch_last_used now k db = db\<lparr>k_keys := upd_where
     (\<lambda>r. ak_id r = ak_id k \<and> (case ak_last_used r of None \<Rightarrow> True | Some t \<Rightarrow> t < now - LAST_USED_DEBOUNCE_SECONDS))
     (\<lambda>r. r\<lparr>ak_last_used := Some now\<rparr>) (k_keys db)\<rparr>"

definition principal_of :: "kdb \<Rightarrow> api_key \<Rightarrow> (key_error, principal) result" where
  "principal_of db k =
     (let pr = \<lambda>masks folders. \<lparr>pr_key = ak_id k, pr_org = ak_org k, pr_scopes = ak_scopes k, pr_name = ak_name k,
          pr_mode = ak_mode k, pr_masks = masks, pr_folders = folders\<rparr>
      in if is_scoped k then (case resolve_key_scope db k of
             Inl KeyScopeError \<Rightarrow> Inl ScopeInvalid
           | Inl e \<Rightarrow> Inl e
           | Inr s \<Rightarrow> Inr (pr (Some (ks_masks s)) (ks_folders s)))
         else if ak_mode k \<noteq> ACCESS_MODE_ORG then Inl ScopeInvalid
         else Inr (pr None None))"

definition require_api_key ::
  "(string \<Rightarrow> string) \<Rightarrow> int \<Rightarrow> string option \<Rightarrow> string option \<Rightarrow> kdb \<Rightarrow> (key_error, kdb \<times> principal) result" where
  "require_api_key hash now credentials x_api_key db =
     (case presented_key credentials x_api_key of None \<Rightarrow> Inl Unauthorized
      | Some s \<Rightarrow> bind_res (lookup_by_key_hash db (hash s)) (\<lambda>found. case found of None \<Rightarrow> Inl Unauthorized
          | Some k \<Rightarrow> if ak_revoked k \<noteq> None \<or> is_expired now k then Inl Unauthorized
              else bind_res (principal_of db k) (\<lambda>p. Inr (touch_last_used now k db, p))))"

definition require_scope :: "string \<Rightarrow> principal \<Rightarrow> (key_error, principal) result" where
  "require_scope scope p =
     (if \<not> has_scope (pr_scopes p) scope then Inl (HttpError 403)
      else if pr_is_scoped p \<and> scope \<notin> set SCOPED_KEY_SCOPES then Inl (HttpError 403)
      else Inr p)"

subsection \<open>What a request with a key may search\<close>

definition api_key_access_keys :: "principal \<Rightarrow> (key_error, int list option) result" where
  "api_key_access_keys p =
     (if \<not> pr_is_scoped p then Inr None
      else case pr_masks p of None \<Rightarrow> Inl (HttpError 403) | Some [] \<Rightarrow> Inl (HttpError 403) | Some ms \<Rightarrow> Inr (Some ms))"

definition MAX_FOLDER_TAGS :: nat where "MAX_FOLDER_TAGS = 1024"

definition api_key_folder_scope :: "principal \<Rightarrow> uuid list option \<Rightarrow> (key_error, uuid list option) result" where
  "api_key_folder_scope p requested_folder_ids =
     (let requested = fromkeys (case requested_folder_ids of None \<Rightarrow> [] | Some ids \<Rightarrow> ids)
      in bind_res (case pr_folders p of
             None \<Rightarrow> Inr (if requested = [] then None else Some requested)
           | Some allowed \<Rightarrow> if requested \<noteq> []
               then (if \<not> set requested \<subseteq> set allowed then Inl (HttpError 404) else Inr (Some requested))
               else Inr (Some (sort allowed))) (\<lambda>scoped.
         case scoped of None \<Rightarrow> Inr None
         | Some ids \<Rightarrow> if length ids > MAX_FOLDER_TAGS then Inl (HttpError 422) else Inr (Some ids)))"

definition folder_tags :: "uuid list option \<Rightarrow> string list option" where
  "folder_tags folder_ids = (case folder_ids of None \<Rightarrow> None | Some [] \<Rightarrow> None | Some ids \<Rightarrow> Some (map folder_tag ids))"

subsection \<open>Minting and revoking\<close>

record key_assignments =
  ka_regions :: "uuid list"
  ka_roles :: "uuid list"
  ka_groups :: "uuid list"
  ka_departments :: "uuid list"
  ka_folders :: "uuid list"

definition assignments_of :: "uuid list \<Rightarrow> uuid list \<Rightarrow> uuid list \<Rightarrow> uuid list \<Rightarrow> uuid list \<Rightarrow> key_assignments" where
  "assignments_of regions roles groups departments folders = \<lparr>ka_regions = fromkeys regions, ka_roles = fromkeys roles,
     ka_groups = fromkeys groups, ka_departments = fromkeys departments, ka_folders = fromkeys folders\<rparr>"

fun ka_dim :: "dim_kind \<Rightarrow> key_assignments \<Rightarrow> uuid list" where
  "ka_dim Region a = ka_regions a"
| "ka_dim Role a = ka_roles a"
| "ka_dim Group a = ka_groups a"
| "ka_dim Department a = ka_departments a"

fun ka_kind :: "item_kind \<Rightarrow> key_assignments \<Rightarrow> uuid list" where
  "ka_kind (Dim k) a = ka_dim k a"
| "ka_kind Folders a = ka_folders a"

definition ASSIGNMENT_KINDS :: "item_kind list" where
  "ASSIGNMENT_KINDS = [Dim Region, Dim Role, Dim Group, Dim Department, Folders]"

definition ka_is_empty :: "key_assignments \<Rightarrow> bool" where
  "ka_is_empty a \<longleftrightarrow> list_all (\<lambda>k. ka_kind k a = []) ASSIGNMENT_KINDS"

definition refuse_unknown :: "item_kind \<Rightarrow> uuid list \<Rightarrow> uuid list \<Rightarrow> (key_error, unit) result" where
  "refuse_unknown kind wanted found = (let missing = filter (\<lambda>i. i \<notin> set found) wanted in
     if missing \<noteq> [] then Inl (UnknownItems kind missing) else Inr ())"

text \<open>The numbers of the wanted items of one dimension, in their order.\<close>

definition assigned_numbers :: "kdb \<Rightarrow> uuid \<Rightarrow> key_assignments \<Rightarrow> dim_kind \<Rightarrow> (key_error, int list) result" where
  "assigned_numbers db org a k =
     (let ids = ka_dim k a;
          found = filter (\<lambda>d. dim_org d = org \<and> dim_id d \<in> set ids) (dim_table k (k_dims db))
      in bind_res (refuse_unknown (Dim k) ids (map dim_id found)) (\<lambda>_.
           Inr (List.map_filter (\<lambda>i. map_option dim_number (find (\<lambda>d. dim_id d = i) found)) ids)))"

definition validate_folders :: "kdb \<Rightarrow> uuid \<Rightarrow> uuid list \<Rightarrow> int list \<Rightarrow> (key_error, unit) result" where
  "validate_folders db org ids masks =
     (let found = filter (\<lambda>f. fo_id f \<in> set ids) (in_org org (k_folders db))
      in bind_res (refuse_unknown Folders ids (map fo_id found)) (\<lambda>_.
         let expanded = visible_subtrees org ids masks (k_folders db);
             hidden = sort (List.map_filter (\<lambda>i. map_option fo_path (find (\<lambda>f. fo_id f = i) found))
               (filter (\<lambda>i. dget expanded i \<noteq> Some True) ids));
             reach = length (filter snd expanded)
         in if hidden \<noteq> [] then Inl (HiddenFolders hidden)
            else if reach > MAX_FOLDER_TAGS then Inl (FolderReach reach) else Inr ()))"

definition validate_assignments :: "kdb \<Rightarrow> uuid \<Rightarrow> key_assignments \<Rightarrow> (key_error, unit) result" where
  "validate_assignments db org a =
     bind_res (assigned_numbers db org a Region) (\<lambda>rgs.
     bind_res (assigned_numbers db org a Role) (\<lambda>ros.
     bind_res (assigned_numbers db org a Group) (\<lambda>grs.
     bind_res (assigned_numbers db org a Department) (\<lambda>dps.
     case org_number org (k_dims db) of None \<Rightarrow> Inl OrganizationNotFound
     | Some n \<Rightarrow> bind_res (lift_access (calculate_masks_from_assignments n rgs dps ros grs)) (\<lambda>ms.
         if ka_folders a = [] then Inr () else validate_folders db org (ka_folders a) (with_unrestricted ms))))))"

definition save_assignments :: "uuid \<Rightarrow> key_assignments \<Rightarrow> kdb \<Rightarrow> kdb" where
  "save_assignments key a db = db\<lparr>k_held := k_held db
     @ concat (map (\<lambda>k. map (\<lambda>i. (k, key, i)) (ka_kind k a)) ASSIGNMENT_KINDS)\<rparr>"

text \<open>The deferred foreign keys of the join tables: every held item exists.\<close>

fun item_exists :: "kdb \<Rightarrow> item_kind \<Rightarrow> uuid \<Rightarrow> bool" where
  "item_exists db (Dim k) i = (dim_by_id db k i \<noteq> None)"
| "item_exists db Folders i = (folder_by_id db i \<noteq> None)"

definition check_constraints_now :: "kdb \<Rightarrow> bool" where
  "check_constraints_now db \<longleftrightarrow> list_all (\<lambda>(kind, _, i). item_exists db kind i) (k_held db)"

definition MAX_KEYS_PER_ORG :: nat where "MAX_KEYS_PER_ORG = 100"

definition generate_key :: "(string \<Rightarrow> string) \<Rightarrow> string \<Rightarrow> string \<times> string \<times> string" where
  "generate_key hash token = (let plaintext = KEY_PREFIX @ token in (plaintext, take 12 plaintext, hash plaintext))"

definition create_key ::
  "(string \<Rightarrow> string) \<Rightarrow> uuid \<Rightarrow> string \<Rightarrow> int \<Rightarrow> uuid \<Rightarrow> string \<Rightarrow> string list \<Rightarrow> int option \<Rightarrow> uuid option
    \<Rightarrow> key_assignments option \<Rightarrow> kdb \<Rightarrow> (key_error, kdb \<times> api_key \<times> string) result" where
  "create_key hash new_id token now org name scopes expires created_by assignments db =
     (let clean_name = strip name in
      if clean_name = [] then Inl NameRequired
      else case normalize_scopes scopes of Inl bad \<Rightarrow> Inl (UnknownScopes bad)
      | Inr clean_scopes \<Rightarrow>
        if clean_scopes = [] then Inl NoScope
        else if (case expires of None \<Rightarrow> False | Some e \<Rightarrow> e \<le> now) then Inl ExpiryNotInFuture
        else if length (filter (\<lambda>k. ak_org k = org) (k_keys db)) \<ge> MAX_KEYS_PER_ORG then Inl KeyLimit
        else
          let scoped = (case assignments of None \<Rightarrow> False | Some a \<Rightarrow> \<not> ka_is_empty a);
              (plaintext, prefix, h) = generate_key hash token;
              k = \<lparr>ak_id = new_id, ak_org = org, ak_name = clean_name, ak_prefix = prefix, ak_hash = h,
                ak_scopes = clean_scopes, ak_created_by = created_by,
                ak_mode = (if scoped then ACCESS_MODE_SCOPED else ACCESS_MODE_ORG),
                ak_last_used = None, ak_expires = expires, ak_revoked = None\<rparr>;
              db' = db\<lparr>k_keys := k_keys db @ [k]\<rparr>
          in case assignments of None \<Rightarrow> Inr (db', k, plaintext)
             | Some a \<Rightarrow> if \<not> scoped then Inr (db', k, plaintext)
               else case validate_scoped_key_scopes clean_scopes of Inl bad \<Rightarrow> Inl (NotScopeAware bad)
               | Inr _ \<Rightarrow> bind_res (validate_assignments db org a) (\<lambda>_.
                   let db'' = save_assignments new_id a db' in
                   if check_constraints_now db'' then Inr (db'', k, plaintext) else Inl KeyConflict))"

definition key_get :: "uuid \<Rightarrow> uuid \<Rightarrow> kdb \<Rightarrow> api_key option" where
  "key_get org i db = find (\<lambda>k. ak_id k = i \<and> ak_org k = org) (k_keys db)"

definition revoke_key :: "int \<Rightarrow> uuid \<Rightarrow> uuid \<Rightarrow> kdb \<Rightarrow> (key_error, kdb) result" where
  "revoke_key now org i db =
     (case key_get org i db of None \<Rightarrow> Inl KeyNotFound
      | Some k \<Rightarrow> Inr (if ak_revoked k = None
          then db\<lparr>k_keys := upd_where (\<lambda>r. ak_id r = i) (\<lambda>r. r\<lparr>ak_revoked := Some now\<rparr>) (k_keys db)\<rparr> else db))"

subsection \<open>Deleting what a key may hold\<close>

definition inactive :: "int \<Rightarrow> api_key \<Rightarrow> bool" where
  "inactive now k \<longleftrightarrow> ak_revoked k \<noteq> None \<or> (case ak_expires k of None \<Rightarrow> False | Some e \<Rightarrow> e \<le> now)"

definition purge_inactive_holders :: "int \<Rightarrow> uuid \<Rightarrow> item_kind \<Rightarrow> uuid \<Rightarrow> kdb \<Rightarrow> kdb" where
  "purge_inactive_holders now org kind item db = db\<lparr>k_held := filter (\<lambda>(k, key, i). \<not> (k = kind \<and> i = item
     \<and> list_ex (\<lambda>r. ak_id r = key \<and> ak_org r = org \<and> inactive now r) (k_keys db))) (k_held db)\<rparr>"

definition active_keys_holding :: "int \<Rightarrow> uuid \<Rightarrow> item_kind \<Rightarrow> uuid \<Rightarrow> kdb \<Rightarrow> string list" where
  "active_keys_holding now org kind item db = sort (concat (map (\<lambda>(k, key, i).
       map ak_name (filter (\<lambda>r. k = kind \<and> i = item \<and> ak_id r = key \<and> ak_org r = org \<and> \<not> inactive now r) (k_keys db)))
     (k_held db)))"

definition drop_dim :: "uuid \<Rightarrow> dimension list \<Rightarrow> dimension list" where
  "drop_dim i ds = filter (\<lambda>d. dim_id d \<noteq> i) ds"

definition delete_dimension :: "int \<Rightarrow> uuid \<Rightarrow> dim_kind \<Rightarrow> uuid \<Rightarrow> kdb \<Rightarrow> (key_error, kdb) result" where
  "delete_dimension now org k i db =
     (case dimension_get k org i (k_dims db) of None \<Rightarrow> Inl (HttpError 404)
      | Some _ \<Rightarrow> let db1 = purge_inactive_holders now org (Dim k) i db in
        if active_keys_holding now org (Dim k) i db1 \<noteq> [] then Inl (HttpError 409)
        else let (dims', deleted) = dimension_delete k org i (k_dims db1) in
          if \<not> deleted then Inl (HttpError 404)
          else let db2 = db1\<lparr>k_dims := dims', k_members := map (\<lambda>m. case k of
                   Region \<Rightarrow> m\<lparr>ms_regions := drop_dim i (ms_regions m)\<rparr>
                 | Department \<Rightarrow> m\<lparr>ms_departments := drop_dim i (ms_departments m)\<rparr>
                 | Role \<Rightarrow> m\<lparr>ms_roles := drop_dim i (ms_roles m)\<rparr>
                 | Group \<Rightarrow> m\<lparr>ms_groups := drop_dim i (ms_groups m)\<rparr>) (k_members db1)\<rparr>
            in if check_constraints_now db2 then Inr db2 else Inl (HttpError 409))"

definition delete_folder :: "int \<Rightarrow> uuid \<Rightarrow> uuid \<Rightarrow> kdb \<Rightarrow> (key_error, kdb) result" where
  "delete_folder now org i db =
     (case folder_get org i (k_folders db) of None \<Rightarrow> Inl (HttpError 404)
      | Some f \<Rightarrow> if list_children org (Some i) (k_folders db) \<noteq> [] then Inl (HttpError 409)
        else let db1 = purge_inactive_holders now org Folders i db in
          if active_keys_holding now org Folders i db1 \<noteq> [] then Inl (HttpError 409)
          else let db2 = db1\<lparr>k_folders := filter (\<lambda>g. fo_id g \<noteq> i) (k_folders db1),
                 k_docs := upd_where (\<lambda>d. do_folder d = Some i) (\<lambda>d. d\<lparr>do_folder := None\<rparr>) (k_docs db1)\<rparr>
            in if check_constraints_now db2 then Inr db2 else Inl (HttpError 409))"

subsection \<open>Runs started by a key\<close>

definition SCOPED_KEY_RUN_TOOLS :: "string list" where
  "SCOPED_KEY_RUN_TOOLS = [''search_knowledge'', ''grep_documents'', ''read_document'', ''create_document'',
     ''set_work_order_tasks'', ''update_work_order_task'', ''list_work_order_tasks'', ''submit_plan'', ''complete_task'',
     ''escalate_task'', ''delegate_task'', ''escalate'', ''consult_peer'', ''reply_to_peer'', ''ask_human'',
     ''request_review'', ''web_research'', ''fetch_web_page'']"

datatype key_state = Gone | OrgKey | ScopedKey

record run_ctx =
  rc_via_key :: bool
  rc_key :: "uuid option"
  rc_org :: uuid

record key_status =
  rs_state :: key_state
  rs_scopes :: "string list"

definition run_key_status :: "int \<Rightarrow> run_ctx \<Rightarrow> kdb \<Rightarrow> key_status option" where
  "run_key_status now ctx db =
     (let gone = \<lparr>rs_state = Gone, rs_scopes = []\<rparr> in
      if \<not> rc_via_key ctx then None
      else case rc_key ctx of None \<Rightarrow> Some gone
      | Some i \<Rightarrow> (case find (\<lambda>k. ak_id k = i) (k_keys db) of None \<Rightarrow> Some gone
          | Some k \<Rightarrow> if ak_org k \<noteq> rc_org ctx \<or> ak_revoked k \<noteq> None \<or> is_expired now k then Some gone
              else if ak_mode k = ACCESS_MODE_SCOPED then Some \<lparr>rs_state = ScopedKey, rs_scopes = ak_scopes k\<rparr>
              else if ak_mode k = ACCESS_MODE_ORG then Some \<lparr>rs_state = OrgKey, rs_scopes = ak_scopes k\<rparr>
              else Some gone))"

datatype run_refusal = KeyGone | KeyUnresolved | NotForScopedRun

record run_key_scope =
  rk_scoped :: bool
  rk_scopes :: "string list"
  rk_masks :: "int list option"
  rk_folders :: "uuid list option"

definition run_scope :: "int \<Rightarrow> run_ctx \<Rightarrow> kdb \<Rightarrow> (run_refusal + key_error, run_key_scope option) result" where
  "run_scope now ctx db =
     (case run_key_status now ctx db of None \<Rightarrow> Inr None
      | Some s \<Rightarrow> (case rs_state s of Gone \<Rightarrow> Inl (Inl KeyGone)
          | OrgKey \<Rightarrow> Inr (Some \<lparr>rk_scoped = False, rk_scopes = rs_scopes s, rk_masks = None, rk_folders = None\<rparr>)
          | ScopedKey \<Rightarrow> (case find (\<lambda>k. Some (ak_id k) = rc_key ctx) (k_keys db) of None \<Rightarrow> Inl (Inl KeyGone)
              | Some k \<Rightarrow> (case resolve_key_scope db k of
                  Inr sc \<Rightarrow> Inr (Some \<lparr>rk_scoped = True, rk_scopes = rs_scopes s, rk_masks = Some (ks_masks sc), rk_folders = ks_folders sc\<rparr>)
                | Inl KeyScopeError \<Rightarrow> Inl (Inl KeyUnresolved)
                | Inl (AccessFailed (TooManyAccessMasks n)) \<Rightarrow> Inl (Inl KeyUnresolved)
                | Inl e \<Rightarrow> Inl (Inr e)))))"

definition is_scoped_key_run :: "int \<Rightarrow> run_ctx \<Rightarrow> kdb \<Rightarrow> bool" where
  "is_scoped_key_run now ctx db = (case run_key_status now ctx db of None \<Rightarrow> False | Some s \<Rightarrow> rs_state s \<noteq> OrgKey)"

definition ends_run :: "run_refusal option \<Rightarrow> bool" where
  "ends_run r \<longleftrightarrow> r = Some KeyGone"

definition scoped_key_refusal :: "int \<Rightarrow> run_ctx \<Rightarrow> string \<Rightarrow> kdb \<Rightarrow> run_refusal option" where
  "scoped_key_refusal now ctx tool db =
     (case run_key_status now ctx db of None \<Rightarrow> None
      | Some s \<Rightarrow> if rs_state s = Gone then Some KeyGone
          else if rs_state s = OrgKey \<or> tool \<in> set SCOPED_KEY_RUN_TOOLS then None else Some NotForScopedRun)"

definition offered_to_run :: "int \<Rightarrow> run_ctx \<Rightarrow> string list \<Rightarrow> kdb \<Rightarrow> string list" where
  "offered_to_run now ctx names db =
     (if \<not> is_scoped_key_run now ctx db then names else filter (\<lambda>n. n \<in> set SCOPED_KEY_RUN_TOOLS) names)"

subsection \<open>The rate limit\<close>

text \<open>The counters of the cache, \<open>None\<close> while it is unavailable; times are in whole seconds.\<close>

record rate_result =
  rr_allowed :: bool
  rr_limit :: int
  rr_remaining :: int
  rr_retry :: int

type_synonym counters = "(string \<times> int, int) dict"

definition check_rate_limit :: "string \<Rightarrow> int \<Rightarrow> int \<Rightarrow> int \<Rightarrow> counters option \<Rightarrow> counters option \<times> rate_result" where
  "check_rate_limit key limit window now redis =
     (let bucket = now div window; retry = window - now mod window in
      case redis of None \<Rightarrow> (None, \<lparr>rr_allowed = True, rr_limit = limit, rr_remaining = limit, rr_retry = 0\<rparr>)
      | Some cs \<Rightarrow> let count = (case dget cs (key, bucket) of None \<Rightarrow> 0 | Some n \<Rightarrow> n) + 1; remaining = max 0 (limit - count)
        in (Some (dset cs (key, bucket) count), \<lparr>rr_allowed = count \<le> limit, rr_limit = limit, rr_remaining = remaining,
             rr_retry = (if remaining = 0 then retry else 0)\<rparr>))"

definition peek_rate_limit :: "string \<Rightarrow> int \<Rightarrow> int \<Rightarrow> int \<Rightarrow> counters option \<Rightarrow> rate_result" where
  "peek_rate_limit key limit window now redis =
     (let bucket = now div window; retry = window - now mod window in
      case redis of None \<Rightarrow> \<lparr>rr_allowed = True, rr_limit = limit, rr_remaining = limit, rr_retry = 0\<rparr>
      | Some cs \<Rightarrow> let count = (case dget cs (key, bucket) of None \<Rightarrow> 0 | Some n \<Rightarrow> n); remaining = max 0 (limit - count)
        in \<lparr>rr_allowed = count < limit, rr_limit = limit, rr_remaining = remaining,
             rr_retry = (if remaining = 0 then retry else 0)\<rparr>)"

end
