(* ===== verification/Knowledge_Docs.thy ===== *)
theory Knowledge_Docs
  imports Api_Keys
begin

section \<open>Documents: the repository, the read gates and the status callback\<close>

text \<open>
  The rows of documents and the queries on them (\<open>repositories/document.py\<close>), the routes that read them for a
  member (\<open>routers/documents.py\<close>) and for an API key (\<open>routers/v1/knowledge.py\<close>), the metadata keys the index
  owns (\<open>schemas/reserved_metadata.py\<close>) and the callback of the worker that sets the status of an ingest
  (\<open>routers/internal.py\<close>). A row extends the columns the folder tree uses.
\<close>

subsection \<open>Rows\<close>

definition PENDING :: string where "PENDING = ''PENDING''"
definition PROCESSING :: string where "PROCESSING = ''PROCESSING''"
definition SUCCESS :: string where "SUCCESS = ''SUCCESS''"
definition FAILED :: string where "FAILED = ''FAILED''"
definition CANCELLED :: string where "CANCELLED = ''CANCELLED''"

lemmas status_defs = PENDING_def PROCESSING_def SUCCESS_def FAILED_def CANCELLED_def

definition terminal_statuses :: "string list" where
  "terminal_statuses = [SUCCESS, FAILED, CANCELLED]"

record kdoc = document +
  kd_text :: "string option"
  kd_url :: "string option"
  kd_size :: "nat option"
  kd_status :: string
  kd_details :: "jdict option"
  kd_task :: "string option"
  kd_metadata :: "jdict option"
  kd_kg :: "bool option"
  kd_ref :: "string option"
  kd_hash :: "string option"
  kd_contributor :: "perm_config option"
  kd_contrib_masks :: "int list"
  kd_uploader :: "uuid option"
  kd_created :: int
  kd_updated :: "int option"

text \<open>The part of a row the visibility checks look at.\<close>

abbreviation base_doc :: "kdoc \<Rightarrow> document" where
  "base_doc d \<equiv> document.truncate d"

definition kdoc_visible :: "uuid \<Rightarrow> kdoc \<Rightarrow> int list option \<Rightarrow> folder list \<Rightarrow> bool" where
  "kdoc_visible org d masks tab = document_visible org (base_doc d) masks tab"

text \<open>An update of a row touches its time only when a column changes.\<close>

definition put_doc :: "int \<Rightarrow> kdoc \<Rightarrow> kdoc list \<Rightarrow> kdoc list" where
  "put_doc now d docs = map (\<lambda>r. if do_id r = do_id d then (if r = d then r else d\<lparr>kd_updated := Some now\<rparr>) else r) docs"

subsection \<open>Queries\<close>

definition doc_get :: "uuid \<Rightarrow> uuid \<Rightarrow> kdoc list \<Rightarrow> (access_error, kdoc option) result" where
  "doc_get org i docs = scalar_one_or_none (filter (\<lambda>d. do_id d = i \<and> do_org d = org) docs)"

definition get_by_key :: "uuid \<Rightarrow> string \<Rightarrow> kdoc list \<Rightarrow> (access_error, kdoc option) result" where
  "get_by_key org key docs = scalar_one_or_none (filter (\<lambda>d. do_key d = key \<and> do_org d = org) docs)"

definition get_by_external_ref :: "uuid \<Rightarrow> uuid \<Rightarrow> string \<Rightarrow> kdoc list \<Rightarrow> (access_error, kdoc option) result" where
  "get_by_external_ref org folder ref docs =
     scalar_one_or_none (filter (\<lambda>d. do_org d = org \<and> do_folder d = Some folder \<and> kd_ref d = Some ref) docs)"

definition doc_masks_pass :: "int list option \<Rightarrow> kdoc \<Rightarrow> bool" where
  "doc_masks_pass viewer_masks d = (case viewer_masks of None \<Rightarrow> True
     | Some ms \<Rightarrow> do_viewer d = None \<or> do_view_masks d = [] \<or> list_ex (\<lambda>m. m \<in> set ms) (do_view_masks d))"

definition in_folders :: "uuid list option \<Rightarrow> bool \<Rightarrow> kdoc \<Rightarrow> bool" where
  "in_folders folder_ids include_unfiled d = (case folder_ids of None \<Rightarrow> True
     | Some ids \<Rightarrow> (case do_folder d of None \<Rightarrow> include_unfiled | Some i \<Rightarrow> i \<in> set ids))"

definition list_for_folders ::
  "uuid \<Rightarrow> uuid list option \<Rightarrow> bool \<Rightarrow> nat \<Rightarrow> nat \<Rightarrow> int list option \<Rightarrow> kdoc list \<Rightarrow> kdoc list \<times> nat" where
  "list_for_folders org folder_ids include_unfiled offset maxn viewer_masks docs =
     (let found = filter (\<lambda>d. do_org d = org \<and> in_folders folder_ids include_unfiled d \<and> doc_masks_pass viewer_masks d) docs
      in (take maxn (drop offset (sort_key (\<lambda>d. - kd_created d) found)), length found))"

definition doc_delete :: "uuid \<Rightarrow> uuid \<Rightarrow> kdoc list \<Rightarrow> (access_error, kdoc list \<times> bool) result" where
  "doc_delete org i docs = bind_res (doc_get org i docs) (\<lambda>found. case found of None \<Rightarrow> Inr (docs, False)
     | Some d \<Rightarrow> Inr (filter (\<lambda>r. do_id r \<noteq> do_id d) docs, True))"

subsection \<open>The status callback of the worker\<close>

definition update_status ::
  "int \<Rightarrow> uuid \<Rightarrow> uuid \<Rightarrow> string \<Rightarrow> jdict option \<Rightarrow> kdoc list \<Rightarrow> (access_error, kdoc list \<times> kdoc option) result" where
  "update_status now org i status details docs = bind_res (doc_get org i docs) (\<lambda>found. case found of
       None \<Rightarrow> Inr (docs, None)
     | Some d \<Rightarrow> if kd_status d \<in> set terminal_statuses then Inr (docs, Some d)
         else let d' = d\<lparr>kd_status := status, kd_details := (case details of None \<Rightarrow> kd_details d | Some x \<Rightarrow> Some x)\<rparr>
           in Inr (put_doc now d' docs, Some d'))"

datatype doc_error = DocHttp nat | DocAccess access_error | DocKey key_error

definition lift_doc :: "(access_error, 'a) result \<Rightarrow> (doc_error, 'a) result" where
  "lift_doc r = (case r of Inl e \<Rightarrow> Inl (DocAccess e) | Inr x \<Rightarrow> Inr x)"

lemma lift_doc_eq_Inr [simp]: "lift_doc r = Inr x \<longleftrightarrow> r = Inr x"
  by (simp add: lift_doc_def split: sum.splits)

lemma lift_doc_Inr [simp]: "lift_doc (Inr x) = Inr x"
  by simp

definition lift_key :: "(key_error, 'a) result \<Rightarrow> (doc_error, 'a) result" where
  "lift_key r = (case r of Inl e \<Rightarrow> Inl (DocKey e) | Inr x \<Rightarrow> Inr x)"

lemma lift_key_eq_Inr [simp]: "lift_key r = Inr x \<longleftrightarrow> r = Inr x"
  by (simp add: lift_key_def split: sum.splits)

lemma lift_key_Inr [simp]: "lift_key (Inr x) = Inr x"
  by simp

definition update_document_status ::
  "int \<Rightarrow> uuid \<Rightarrow> uuid \<Rightarrow> string \<Rightarrow> jdict option \<Rightarrow> kdoc list \<Rightarrow> (doc_error, kdoc list) result" where
  "update_document_status now org i status details docs =
     bind_res (lift_doc (update_status now org i status details docs)) (\<lambda>(docs', d).
       case d of None \<Rightarrow> Inl (DocHttp 404) | Some _ \<Rightarrow> Inr docs')"

subsection \<open>Reading as a member\<close>

text \<open>A request of a member: the flag of the organization context, the profile and the membership.\<close>

record member_ctx =
  mc_org :: uuid
  mc_admin :: bool
  mc_profile :: uuid
  mc_member :: membership

definition with_public :: "int list option \<Rightarrow> int list" where
  "with_public masks = UNRESTRICTED_MASK # (case masks of None \<Rightarrow> [] | Some ms \<Rightarrow> ms)"

definition visible_document :: "kdb \<Rightarrow> member_ctx \<Rightarrow> uuid \<Rightarrow> kdoc list \<Rightarrow> (doc_error, kdoc) result" where
  "visible_document db ctx i docs =
     bind_res (lift_doc (doc_get (mc_org ctx) i docs)) (\<lambda>found. case found of None \<Rightarrow> Inl (DocHttp 404)
       | Some d \<Rightarrow> if mc_admin ctx then Inr d
           else if do_folder d = None \<and> kd_uploader d = Some (mc_profile ctx) then Inr d
           else bind_res (lift_key (resolve_user_access_keys db (mc_admin ctx) (mc_org ctx) (mc_member ctx))) (\<lambda>masks.
             if kdoc_visible (mc_org ctx) d masks (k_folders db) then Inr d else Inl (DocHttp 404)))"

definition list_documents ::
  "kdb \<Rightarrow> member_ctx \<Rightarrow> nat \<Rightarrow> nat \<Rightarrow> uuid option \<Rightarrow> kdoc list \<Rightarrow> (doc_error, kdoc list \<times> nat) result" where
  "list_documents db ctx offset page_size folder_id docs =
     (let org = mc_org ctx in
      bind_res (if mc_admin ctx then Inr None
          else case org_number org (k_dims db) of None \<Rightarrow> Inl (DocHttp 404)
            | Some n \<Rightarrow> bind_res (lift_doc (calculate_user_masks_from_membership (mc_member ctx) n)) (\<lambda>ms. Inr (Some ms)))
        (\<lambda>user_masks.
          let visible_ids = map fo_id (fst (list_visible_to_masks org user_masks None None (k_folders db)));
              list_masks = (case user_masks of None \<Rightarrow> None | Some _ \<Rightarrow> Some (with_public user_masks))
          in case folder_id of
              Some i \<Rightarrow> if i \<notin> set visible_ids then Inl (DocHttp 404)
                else Inr (list_for_folders org (Some [i]) False offset page_size list_masks docs)
            | None \<Rightarrow> Inr (list_for_folders org (Some visible_ids) (mc_admin ctx) offset page_size list_masks docs)))"

subsection \<open>Reading with an API key\<close>

definition v1_list_folders :: "kdb \<Rightarrow> principal \<Rightarrow> (doc_error, folder list) result" where
  "v1_list_folders db p = bind_res (lift_key (api_key_access_keys p)) (\<lambda>masks.
     Inr (case pr_folders p of Some ids \<Rightarrow> get_many (pr_org p) ids (k_folders db)
       | None \<Rightarrow> fst (list_visible_to_masks (pr_org p) masks None None (k_folders db))))"

definition v1_list_documents ::
  "kdb \<Rightarrow> principal \<Rightarrow> nat \<Rightarrow> nat \<Rightarrow> uuid option \<Rightarrow> kdoc list \<Rightarrow> (doc_error, kdoc list \<times> nat) result" where
  "v1_list_documents db p offset page_size folder_id docs =
     bind_res (lift_key (api_key_access_keys p)) (\<lambda>masks. case masks of
         None \<Rightarrow> Inr (list_for_folders (pr_org p) (map_option (\<lambda>i. [i]) folder_id) (folder_id = None) offset page_size None docs)
       | Some ms \<Rightarrow>
           let visible = (case pr_folders p of Some ids \<Rightarrow> sort ids
                 | None \<Rightarrow> visible_folder_ids (pr_org p) (Some ms) (k_folders db))
           in case folder_id of
                Some i \<Rightarrow> if i \<notin> set visible then Inl (DocHttp 404)
                  else Inr (list_for_folders (pr_org p) (Some [i]) False offset page_size (Some ms) docs)
              | None \<Rightarrow> if visible = [] then Inr ([], 0)
                  else Inr (list_for_folders (pr_org p) (Some visible) False offset page_size (Some ms) docs))"

definition outside_folders :: "uuid list option \<Rightarrow> uuid option \<Rightarrow> bool" where
  "outside_folders allowed folder_id = (case allowed of None \<Rightarrow> False
     | Some ids \<Rightarrow> (case folder_id of None \<Rightarrow> True | Some i \<Rightarrow> i \<notin> set ids))"

definition load_document :: "kdb \<Rightarrow> principal \<Rightarrow> uuid \<Rightarrow> kdoc list \<Rightarrow> (doc_error, kdoc) result" where
  "load_document db p i docs =
     bind_res (lift_doc (doc_get (pr_org p) i docs)) (\<lambda>found.
     bind_res (lift_key (api_key_access_keys p)) (\<lambda>masks. case found of None \<Rightarrow> Inl (DocHttp 404)
       | Some d \<Rightarrow> if outside_folders (pr_folders p) (do_folder d) \<or> \<not> kdoc_visible (pr_org p) d masks (k_folders db)
           then Inl (DocHttp 404) else Inr d))"

subsection \<open>Metadata keys the index owns\<close>

definition RESERVED_METADATA_KEYS :: "string list" where
  "RESERVED_METADATA_KEYS = [''access_keys'', ''tenant_id'', ''tags'', ''document_key'', ''document_id'', ''document_title'',
     ''type'', ''text'', ''summary'', ''summary_tree'', ''section'', ''chunk_order'']"

definition reserved_metadata_keys :: "jdict option \<Rightarrow> string list" where
  "reserved_metadata_keys value = sort (filter (\<lambda>k. k \<in> set RESERVED_METADATA_KEYS)
     (fromkeys (dkeys (case value of None \<Rightarrow> [] | Some d \<Rightarrow> d))))"

definition reject_reserved_metadata_keys :: "jdict \<Rightarrow> (string list, jdict) result" where
  "reject_reserved_metadata_keys value = (let reserved = reserved_metadata_keys (Some value) in
     if reserved \<noteq> [] then Inl reserved else Inr value)"

definition changed_reserved_metadata_keys :: "jdict option \<Rightarrow> jdict option \<Rightarrow> string list" where
  "changed_reserved_metadata_keys sent stored =
     (let old = (case stored of None \<Rightarrow> [] | Some d \<Rightarrow> d); new = (case sent of None \<Rightarrow> [] | Some d \<Rightarrow> d)
      in filter (\<lambda>k. case dget old k of None \<Rightarrow> True
           | Some v \<Rightarrow> (case dget new k of None \<Rightarrow> False | Some w \<Rightarrow> \<not> py_eq v w)) (reserved_metadata_keys sent))"

definition strip_reserved_metadata_keys :: "jdict option \<Rightarrow> jdict \<times> string list" where
  "strip_reserved_metadata_keys value = (filter (\<lambda>(k, _). k \<notin> set RESERVED_METADATA_KEYS)
     (case value of None \<Rightarrow> [] | Some d \<Rightarrow> d), reserved_metadata_keys value)"

end
