(* ===== verification/Knowledge_Write.thy ===== *)
theory Knowledge_Write
  imports Knowledge_Docs
begin

section \<open>Writing documents through the public API\<close>

text \<open>
  The write service of the public API (\<open>services/knowledge_write.py\<close>): a document is created in a folder, or the
  one with the same \<open>external_ref\<close> in that folder is replaced. The state holds the tables, the objects in
  storage with their content types, the keys of the documents in the index, and the two queues of the worker. What the services outside answer is the
  record \<open>wenv\<close> of a request: whether the purge of the index, the storage and the broker succeed, the identifier of
  the task, whether the status write after a failed enqueue and the write of the task succeed, the rows other
  writers committed meanwhile, the new identifier and key, the clock, and the hash. The result is the new
  state with the outcome or the refusal, since a refused write may have changed the state. Content is bytes, and a text is its bytes.
\<close>

subsection \<open>State and inputs\<close>

record ingest_task =
  it_doc :: uuid
  it_tenant :: uuid
  it_key :: string
  it_title :: string
  it_tags :: "string list"
  it_access_keys :: "int list"
  it_kg :: bool
  it_metadata :: jdict
  it_source :: "string + string option"
  it_task :: string

text \<open>The source of a task is \<open>Inl\<close> the key of the stored original, or \<open>Inr\<close> the text.\<close>

record kstate =
  ks_tab :: "folder list"
  ks_docs :: "kdoc list"
  ks_objects :: "(string, string \<times> string) dict"
  ks_index :: "string list"
  ks_tasks :: "ingest_task list"
  ks_updates :: "payload list"

record doc_input =
  di_folder :: uuid
  di_title :: string
  di_content :: string
  di_filename :: "string option"
  di_content_type :: "string option"
  di_ref :: "string option"
  di_metadata :: "jdict option"

record wenv =
  we_id :: uuid
  we_key :: string
  we_now :: int
  we_hash :: "string \<Rightarrow> string"
  we_purge :: bool
  we_put :: bool
  we_drop :: bool
  we_task :: "string option"
  we_mark :: bool
  we_persist :: bool
  we_update :: bool
  we_others :: "kdoc list"

datatype write_error = WriteError nat string | IntegrityError | WriteAccess access_error | WriteKey key_error

datatype write_outcome = Created | Updated | Reprocessed | MetadataUpdated | Unchanged

type_synonym write_result = "kstate \<times> (write_error, write_outcome \<times> kdoc) result"

definition REF_CONFLICT_DETAIL :: string where
  "REF_CONFLICT_DETAIL = ''external_ref is already in use in this folder''"
definition IN_FLIGHT_DETAIL :: string where
  "IN_FLIGHT_DETAIL = ''The previous version is still being processed; retry when its status is SUCCESS or FAILED''"
definition FOLDER_NOT_FOUND :: string where "FOLDER_NOT_FOUND = ''folder not found''"

definition RETRYABLE :: "string list" where "RETRYABLE = [FAILED, CANCELLED]"
definition PENDING_NO_TASK_GRACE :: int where "PENDING_NO_TASK_GRACE = 60"
definition PENDING_STALE_AFTER :: int where "PENDING_STALE_AFTER = 600"

subsection \<open>Guards\<close>

definition may_contribute_to_document :: "kdoc \<Rightarrow> int list option \<Rightarrow> bool" where
  "may_contribute_to_document d masks = (case masks of None \<Rightarrow> True
     | Some ms \<Rightarrow> kd_contributor d = None \<or> kd_contrib_masks d = [] \<or> list_ex (\<lambda>m. m \<in> set ms) (kd_contrib_masks d))"

definition is_stuck_pending :: "kdoc \<Rightarrow> int \<Rightarrow> bool" where
  "is_stuck_pending d now = (if kd_status d \<noteq> PENDING then False
     else case kd_updated d of None \<Rightarrow> kd_task d = None
       | Some u \<Rightarrow> now - u > PENDING_STALE_AFTER \<or> (kd_task d = None \<and> now - u > PENDING_NO_TASK_GRACE))"

definition authorised_folder :: "principal \<Rightarrow> int list option \<Rightarrow> uuid \<Rightarrow> folder list \<Rightarrow> (write_error, folder) result" where
  "authorised_folder p masks i tab =
     (if outside_folders (pr_folders p) (Some i) then Inl (WriteError 404 FOLDER_NOT_FOUND)
      else case folder_get (pr_org p) i tab of None \<Rightarrow> Inl (WriteError 404 FOLDER_NOT_FOUND)
      | Some f \<Rightarrow> if \<not> folder_visible (pr_org p) f masks tab then Inl (WriteError 404 FOLDER_NOT_FOUND)
          else if \<not> can_add_to_folder (pr_org p) f masks tab
          then Inl (WriteError 403 ''This key's assignments may not add documents to this folder'')
          else Inr f)"

subsection \<open>Storage\<close>

definition EXTENSION_CONTENT_TYPES :: "(string \<times> string) list" where
  "EXTENSION_CONTENT_TYPES = [(''.pdf'', ''application/pdf''), (''.png'', ''image/png''), (''.jpg'', ''image/jpeg''),
     (''.jpeg'', ''image/jpeg''), (''.tif'', ''image/tiff''), (''.tiff'', ''image/tiff''), (''.bmp'', ''image/bmp''),
     (''.gif'', ''image/gif''), (''.webp'', ''image/webp''), (''.txt'', ''text/plain''), (''.md'', ''text/markdown''),
     (''.docx'', ''application/vnd.openxmlformats-officedocument.wordprocessingml.document''),
     (''.doc'', ''application/msword'')]"

definition object_key :: "uuid \<Rightarrow> string \<Rightarrow> doc_input \<Rightarrow> string \<Rightarrow> bool \<Rightarrow> string" where
  "object_key org key data h versioned = org @ ''/'' @ key @ (if versioned then ''/'' @ take 16 h else [])
     @ ''/'' @ (case di_filename data of None \<Rightarrow> [] | Some n \<Rightarrow> n)"

definition extension_of :: "string \<Rightarrow> string" where
  "extension_of filename = (if CHR ''.'' \<in> set filename
     then ''.'' @ lower (rev (takeWhile (\<lambda>c. c \<noteq> CHR ''.'') (rev filename))) else [])"

definition content_type_of :: "doc_input \<Rightarrow> string" where
  "content_type_of data = (case dget EXTENSION_CONTENT_TYPES (case di_filename data of None \<Rightarrow> [] | Some n \<Rightarrow> extension_of n) of
       Some t \<Rightarrow> t
     | None \<Rightarrow> (case di_content_type data of None \<Rightarrow> ''application/octet-stream''
         | Some t \<Rightarrow> if t = [] then ''application/octet-stream'' else t))"

definition store_object :: "wenv \<Rightarrow> string \<Rightarrow> doc_input \<Rightarrow> kstate \<Rightarrow> (write_error, kstate) result" where
  "store_object e key data s = (if we_put e then Inr (s\<lparr>ks_objects := dset (ks_objects s) key (di_content data, content_type_of data)\<rparr>)
     else Inl (WriteError 502 ''Failed to store the uploaded file''))"

definition discard :: "wenv \<Rightarrow> string option \<Rightarrow> kstate \<Rightarrow> kstate" where
  "discard e key s = (case key of None \<Rightarrow> s | Some k \<Rightarrow>
     if k = [] then s else if we_drop e then s\<lparr>ks_objects := dremove (ks_objects s) k\<rparr> else s)"

subsection \<open>Dispatch\<close>

text \<open>The enqueued task, the failure of the broker, and the two writes that follow in transactions of their own.\<close>

definition mark_enqueue_failed :: "wenv \<Rightarrow> kdoc \<Rightarrow> kstate \<Rightarrow> kstate" where
  "mark_enqueue_failed e d s = (if we_mark e then s\<lparr>ks_docs := upd_where (\<lambda>r. do_id r = do_id d)
       (\<lambda>r. r\<lparr>kd_status := FAILED, kd_details := Some [(''stage'', JStr ''enqueue_failed'')], kd_updated := Some (we_now e)\<rparr>)
       (ks_docs s)\<rparr> else s)"

definition persist_task_id :: "wenv \<Rightarrow> kdoc \<Rightarrow> string \<Rightarrow> kstate \<Rightarrow> kstate \<times> kdoc" where
  "persist_task_id e d task s = (if we_persist e
     then (s\<lparr>ks_docs := upd_where (\<lambda>r. do_id r = do_id d) (\<lambda>r. r\<lparr>kd_task := Some task, kd_updated := Some (we_now e)\<rparr>) (ks_docs s)\<rparr>,
       d\<lparr>kd_task := Some task\<rparr>)
     else (s, d))"

definition task_for :: "uuid \<Rightarrow> kdoc \<Rightarrow> string list \<Rightarrow> int list \<Rightarrow> string \<Rightarrow> ingest_task" where
  "task_for org d tags access_keys task = \<lparr>it_doc = do_id d, it_tenant = org, it_key = do_key d, it_title = do_title d,
     it_tags = tags, it_access_keys = access_keys, it_kg = (case kd_kg d of None \<Rightarrow> True | Some b \<Rightarrow> b),
     it_metadata = (case kd_metadata d of None \<Rightarrow> [] | Some m \<Rightarrow> m),
     it_source = (case kd_url d of None \<Rightarrow> Inr (kd_text d) | Some u \<Rightarrow> if u = [] then Inr (kd_text d) else Inl u),
     it_task = task\<rparr>"

definition dispatch_doc :: "wenv \<Rightarrow> uuid \<Rightarrow> kdoc \<Rightarrow> string list \<Rightarrow> int list \<Rightarrow> kstate \<Rightarrow> kstate \<times> (write_error, kdoc) result" where
  "dispatch_doc e org d tags access_keys s = (case we_task e of
       None \<Rightarrow> (mark_enqueue_failed e d s, Inl (WriteError 503 ''The ingest queue is unavailable; resend this document to retry''))
     | Some task \<Rightarrow> (let s1 = s\<lparr>ks_tasks := ks_tasks s @ [task_for org d tags access_keys task]\<rparr>;
           (s2, d2) = persist_task_id e d task s1 in (s2, Inr d2)))"

subsection \<open>Creating\<close>

text \<open>The two unique constraints, against the rows that are committed when the write commits.\<close>

definition ref_taken :: "kdoc \<Rightarrow> kdoc list \<Rightarrow> bool" where
  "ref_taken d docs \<longleftrightarrow> kd_ref d \<noteq> None \<and> do_folder d \<noteq> None
     \<and> list_ex (\<lambda>r. do_org r = do_org d \<and> do_folder r = do_folder d \<and> kd_ref r = kd_ref d) docs"

definition key_taken :: "kdoc \<Rightarrow> kdoc list \<Rightarrow> bool" where
  "key_taken d docs \<longleftrightarrow> list_ex (\<lambda>r. do_org r = do_org d \<and> do_key r = do_key d) docs"

definition new_doc :: "wenv \<Rightarrow> uuid \<Rightarrow> folder \<Rightarrow> doc_input \<Rightarrow> kdoc" where
  "new_doc e org f data = \<lparr>do_id = we_id e, do_org = org, do_folder = Some (fo_id f), do_key = we_key e, do_title = di_title data,
     do_tags = [], do_viewer = None, do_view_masks = [],
     kd_text = (if di_filename data = None then Some (di_content data) else None), kd_url = None,
     kd_size = Some (length (di_content data)), kd_status = PENDING, kd_details = Some [], kd_task = None,
     kd_metadata = Some (case di_metadata data of None \<Rightarrow> [] | Some m \<Rightarrow> m), kd_kg = None, kd_ref = di_ref data,
     kd_hash = Some (we_hash e (di_content data)), kd_contributor = None, kd_contrib_masks = [], kd_uploader = None,
     kd_created = we_now e, kd_updated = Some (we_now e)\<rparr>"

definition create_doc :: "wenv \<Rightarrow> principal \<Rightarrow> folder \<Rightarrow> doc_input \<Rightarrow> kstate \<Rightarrow> write_result" where
  "create_doc e p f data s =
     (let org = pr_org p; access_keys = effective_view_masks org (Some f) (ks_tab s);
          d0 = new_doc e org f data; key = object_key org (do_key d0) data (we_hash e (di_content data)) False;
          stored = (if di_filename data = None then None else Some key);
          d = d0\<lparr>kd_url := stored\<rparr>
      in case (if stored = None then Inr s else store_object e key data s) of
          Inl er \<Rightarrow> (s, Inl er)
        | Inr s1 \<Rightarrow>
          let docs = ks_docs s1 @ we_others e; s2 = s1\<lparr>ks_docs := docs\<rparr>
          in if key_taken d docs then (discard e stored s2, Inl IntegrityError)
             else if ref_taken d docs then (discard e stored s2, Inl (WriteError 409 REF_CONFLICT_DETAIL))
             else let (s3, r) = dispatch_doc e org d (index_tags [] (Some (fo_id f))) access_keys (s2\<lparr>ks_docs := docs @ [d]\<rparr>)
               in (s3, bind_res r (\<lambda>d'. Inr (Created, d'))))"

subsection \<open>Replacing\<close>

definition scoping :: "uuid \<Rightarrow> kdoc \<Rightarrow> folder list \<Rightarrow> string list \<times> int list" where
  "scoping org d tab = (let f = (case do_folder d of None \<Rightarrow> None | Some i \<Rightarrow> folder_get org i tab);
       tags = index_tags [] (map_option fo_id f)
     in if do_viewer d \<noteq> None then (tags, do_view_masks d) else (tags, effective_view_masks org f tab))"

definition metadata_changed :: "kdoc \<Rightarrow> doc_input \<Rightarrow> bool" where
  "metadata_changed d data \<longleftrightarrow> do_title d \<noteq> di_title data
     \<or> (case di_metadata data of None \<Rightarrow> False
        | Some m \<Rightarrow> \<not> py_eq (JObj m) (JObj (case kd_metadata d of None \<Rightarrow> [] | Some x \<Rightarrow> x)))"

definition with_fields :: "kdoc \<Rightarrow> doc_input \<Rightarrow> kdoc" where
  "with_fields d data = d\<lparr>do_title := di_title data,
     kd_metadata := (case di_metadata data of None \<Rightarrow> kd_metadata d | Some m \<Rightarrow> Some m)\<rparr>"

definition update_metadata_only :: "wenv \<Rightarrow> uuid \<Rightarrow> kdoc \<Rightarrow> doc_input \<Rightarrow> kstate \<Rightarrow> kstate \<times> kdoc" where
  "update_metadata_only e org d data s =
     (let (tags, access_keys) = scoping org d (ks_tab s); d' = with_fields d data;
          s1 = s\<lparr>ks_docs := put_doc (we_now e) d' (ks_docs s)\<rparr>
      in (if we_update e then s1\<lparr>ks_updates := ks_updates s1 @
            [\<lparr>pl_tenant = org, pl_key = do_key d', pl_tags = tags, pl_access_keys = access_keys, pl_title = do_title d'\<rparr>]\<rparr>
          else s1, d'))"

definition requeued :: "wenv \<Rightarrow> kdoc \<Rightarrow> doc_input \<Rightarrow> bool \<Rightarrow> string option \<Rightarrow> kdoc" where
  "requeued e d data new_content stored =
     (let d1 = with_fields d data;
          d2 = (if new_content then d1\<lparr>kd_url := stored, kd_text := (if di_filename data \<noteq> None then None else Some (di_content data)),
                  kd_hash := Some (we_hash e (di_content data)), kd_size := Some (length (di_content data))\<rparr> else d1)
      in d2\<lparr>kd_status := PENDING, kd_details := Some [(''stage'', JStr ''queued'')], kd_task := None\<rparr>)"

definition requeue :: "wenv \<Rightarrow> uuid \<Rightarrow> kdoc \<Rightarrow> doc_input \<Rightarrow> bool \<Rightarrow> kstate \<Rightarrow> kstate \<times> (write_error, kdoc) result" where
  "requeue e org d data new_content s =
     (let (tags, access_keys) = scoping org d (ks_tab s) in
      if \<not> we_purge e then (s, Inl (WriteError 503 ''The knowledge index is unavailable; nothing was changed. Retry later.''))
      else
        let s0 = s\<lparr>ks_index := filter (\<lambda>k. k \<noteq> do_key d) (ks_index s)\<rparr>;
            key = object_key org (do_key d) data (we_hash e (di_content data)) True;
            stored = (if new_content \<and> di_filename data \<noteq> None then Some key else None)
        in case (if stored = None then Inr s0 else store_object e key data s0) of
            Inl er \<Rightarrow> (s0, Inl er)
          | Inr s1 \<Rightarrow>
            let d' = requeued e d data new_content stored;
                s2 = s1\<lparr>ks_docs := put_doc (we_now e) d' (ks_docs s1)\<rparr>;
                s3 = (if new_content \<and> kd_url d \<noteq> None \<and> kd_url d \<noteq> kd_url d' then discard e (kd_url d) s2 else s2)
            in dispatch_doc e org d' tags access_keys s3)"

definition replace_doc :: "wenv \<Rightarrow> principal \<Rightarrow> int list option \<Rightarrow> kdoc \<Rightarrow> doc_input \<Rightarrow> kstate \<Rightarrow> write_result" where
  "replace_doc e p masks d data s =
     (let org = pr_org p in
      if outside_folders (pr_folders p) (do_folder d) \<or> \<not> kdoc_visible org d masks (ks_tab s)
      then (s, Inl (WriteError 409 REF_CONFLICT_DETAIL))
      else if \<not> may_contribute_to_document d masks
      then (s, Inl (WriteError 403 ''This key's assignments may not change this document''))
      else
        let retryable = (kd_status d \<in> set RETRYABLE \<or> is_stuck_pending d (we_now e)) in
        if kd_hash d = Some (we_hash e (di_content data)) then
          if retryable then let (s', r) = requeue e org d data False s in (s', bind_res r (\<lambda>d'. Inr (Reprocessed, d')))
          else if metadata_changed d data then let (s', d') = update_metadata_only e org d data s in (s', Inr (MetadataUpdated, d'))
          else (s, Inr (Unchanged, d))
        else if \<not> retryable \<and> kd_status d \<in> {PENDING, PROCESSING} then (s, Inl (WriteError 409 IN_FLIGHT_DETAIL))
        else let (s', r) = requeue e org d data True s in (s', bind_res r (\<lambda>d'. Inr (Updated, d'))))"

definition upsert :: "wenv \<Rightarrow> principal \<Rightarrow> doc_input \<Rightarrow> kstate \<Rightarrow> write_result" where
  "upsert e p data s =
     (case api_key_access_keys p of Inl er \<Rightarrow> (s, Inl (WriteKey er))
      | Inr masks \<Rightarrow> (case authorised_folder p masks (di_folder data) (ks_tab s) of Inl er \<Rightarrow> (s, Inl er)
          | Inr f \<Rightarrow>
            (case di_ref data of None \<Rightarrow> create_doc e p f data s
             | Some ref \<Rightarrow> if ref = [] then create_doc e p f data s
                 else (case get_by_external_ref (pr_org p) (fo_id f) ref (ks_docs s) of
                     Inl er \<Rightarrow> (s, Inl (WriteAccess er))
                   | Inr None \<Rightarrow> create_doc e p f data s
                   | Inr (Some d) \<Rightarrow> replace_doc e p masks d data s))))"

end
