(* ===== verification/Ingest_Job.thy ===== *)
theory Ingest_Job
  imports Knowledge_Write
begin

section \<open>The ingest job of the worker\<close>

text \<open>
  The worker's side of an ingest (\<open>src/services/worker\<close>: \<open>tasks/_ingest_common.py\<close>, \<open>tasks/_job.py\<close>,
  \<open>tasks/ingest.py\<close>, \<open>tasks/extract.py\<close>). A run of a task is a function of what it observes: the answers to
  its cancellation checks, the replies to the submissions, the polls with the clock at each, and the outcome of
  download and extraction. It yields the events it causes, in order, and its outcome: \<open>Running\<close> when the
  observations end first, \<open>Raised\<close> when an exception leaves the task. A status callback that is lost is a report that is not
  delivered. Log lines are left out; the clock is in whole units.
\<close>

subsection \<open>Events and outcomes\<close>

record wreport =
  wr_status :: string
  wr_details :: jdict

datatype job_event = Report wreport | Post ingest_task | PutObject string string

datatype job_result = JobSuccess int int | JobFailed json | JobCancelled

datatype 'a progress = Finished 'a | Raised | Running

definition reports :: "job_event list \<Rightarrow> wreport list" where
  "reports evs = List.map_filter (\<lambda>e. case e of Report r \<Rightarrow> Some r | _ \<Rightarrow> None) evs"

definition posts :: "job_event list \<Rightarrow> ingest_task list" where
  "posts evs = List.map_filter (\<lambda>e. case e of Post t \<Rightarrow> Some t | _ \<Rightarrow> None) evs"

definition report_status :: "string \<Rightarrow> jdict \<Rightarrow> job_event" where
  "report_status status details = Report \<lparr>wr_status = status, wr_details = details\<rparr>"

definition STAGE_PERCENT :: "(string \<times> int) list" where
  "STAGE_PERCENT = [(''queued'', 5), (''downloading'', 15), (''extracting'', 35), (''ingesting'', 60), (''done'', 100)]"

definition report_progress :: "string \<Rightarrow> job_event" where
  "report_progress stage = report_status PROCESSING [(''stage'', JStr stage),
     (''percent'', JInt (case dget STAGE_PERCENT stage of None \<Rightarrow> 0 | Some n \<Rightarrow> n))]"

definition cancelled_report :: job_event where
  "cancelled_report = report_status CANCELLED [(''stage'', JStr ''cancelled'')]"

subsection \<open>Submitting\<close>

datatype submit_reply =
    Accepted
  | HttpFailure nat string string
  | ConnectFailure string
  | SubmitTimeout string
  | OtherTransport

record submit_try =
  sb_cancelled :: bool
  sb_reply :: submit_reply

definition is_retryable_http_error :: "nat \<Rightarrow> bool" where
  "is_retryable_http_error status \<longleftrightarrow> status \<ge> 500 \<or> status = 429"

fun submit_ingest :: "ingest_task \<Rightarrow> nat \<Rightarrow> nat \<Rightarrow> submit_try list \<Rightarrow> job_event list \<times> job_result option progress" where
  "submit_ingest data max_retries attempt [] = ([], Running)"
| "submit_ingest data max_retries attempt (t # ts) =
     (if sb_cancelled t then ([cancelled_report], Finished (Some JobCancelled))
      else let post = Post data; again = (let (evs, r) = submit_ingest data max_retries (attempt + 1) ts in (post # evs, r));
               fail = (\<lambda>details message. ([post, report_status FAILED details], Finished (Some (JobFailed (JStr message)))))
        in case sb_reply t of
            Accepted \<Rightarrow> ([post], Finished None)
          | HttpFailure status body message \<Rightarrow>
              if is_retryable_http_error status \<and> attempt < max_retries then again
              else fail (if is_retryable_http_error status
                  then [(''error'', JStr (''HTTP '' @ show_nat status)), (''retries_exhausted'', JBool True)]
                  else [(''error'', JStr (''HTTP '' @ show_nat status)), (''body'', JStr (take 500 body))]) message
          | ConnectFailure message \<Rightarrow> if attempt < max_retries then again
              else fail [(''error'', JStr ''network''), (''message'', JStr message)] message
          | SubmitTimeout message \<Rightarrow> fail [(''error'', JStr ''submit_timeout''), (''message'', JStr message)] message
          | OtherTransport \<Rightarrow> ([post], Raised))"

subsection \<open>Polling\<close>

definition INGEST_BAND_START :: int where "INGEST_BAND_START = 60"
definition INGEST_BAND_END :: int where "INGEST_BAND_END = 97"
definition MAX_STATUS_ERRORS :: nat where "MAX_STATUS_ERRORS = 5"
definition MAX_UNKNOWN_POLLS :: nat where "MAX_UNKNOWN_POLLS = 3"

text \<open>\<open>max(0.0, min(1.0, x))\<close> as the two functions compare, and the rounded part of the band.\<close>

definition clamp_fraction :: "pyfloat \<Rightarrow> pyfloat" where
  "clamp_fraction x = (let y = (if f_lt x (Fin 1) then x else Fin 1) in if f_lt (Fin 0) y then y else Fin 0)"

definition band_part :: "pyfloat \<Rightarrow> int" where
  "band_part x = (case f_mul x (Fin (of_int (INGEST_BAND_END - INGEST_BAND_START))) of Fin q \<Rightarrow> round_half_even q | _ \<Rightarrow> 0)"

definition raw_fraction :: "json \<Rightarrow> (py_exc, pyfloat) result" where
  "raw_fraction raw = (case raw of JBool _ \<Rightarrow> py_float raw | JInt _ \<Rightarrow> py_float raw | JFloat _ \<Rightarrow> py_float raw | _ \<Rightarrow> Inr (Fin 0))"

definition relay_progress :: "jdict \<Rightarrow> int \<Rightarrow> json \<Rightarrow> (py_exc, job_event list \<times> int \<times> json) result" where
  "relay_progress body last_percent last_phase =
     bind_res (raw_fraction (jget body ''progress'')) (\<lambda>x.
       let phase = py_or (jget body ''phase'') (JStr ''ingesting'');
           percent = max last_percent (min INGEST_BAND_END (INGEST_BAND_START + band_part (clamp_fraction x)))
       in if percent = last_percent \<and> py_eq phase last_phase then Inr ([], last_percent, last_phase)
          else Inr ([report_status PROCESSING [(''stage'', phase), (''percent'', JInt percent)]], percent, phase))"

datatype poll_reply = PollFailure string | Reply jdict

record poll_event =
  pv_cancelled :: bool
  pv_time :: int
  pv_reply :: poll_reply

definition body_int :: "jdict \<Rightarrow> string \<Rightarrow> (py_exc, int) result" where
  "body_int body k = py_int (case dget body k of None \<Rightarrow> JInt 0 | Some v \<Rightarrow> v)"

record poll_state =
  ps_errors :: nat
  ps_unknown :: nat
  ps_percent :: int
  ps_phase :: json

fun poll_until_complete :: "int \<Rightarrow> poll_state \<Rightarrow> poll_event list \<Rightarrow> job_event list \<times> job_result progress" where
  "poll_until_complete deadline ps [] = ([], Running)"
| "poll_until_complete deadline ps (ev # evs) =
     (let fail = (\<lambda>details error. ([report_status FAILED details], Finished (JobFailed error))) in
      if pv_cancelled ev then ([cancelled_report], Finished JobCancelled)
      else if pv_time ev > deadline then fail [(''error'', JStr ''max_wait_exceeded'')] (JStr ''max_wait_exceeded'')
      else case pv_reply ev of
        PollFailure message \<Rightarrow>
          if ps_errors ps + 1 > MAX_STATUS_ERRORS
          then fail [(''error'', JStr ''poll_failed''), (''message'', JStr message)] (JStr message)
          else poll_until_complete deadline (ps\<lparr>ps_errors := ps_errors ps + 1\<rparr>) evs
      | Reply body \<Rightarrow>
          let ps1 = ps\<lparr>ps_errors := 0\<rparr>; state = jget body ''state''
          in if py_eq state (JStr ''done'') then
               (case body_int body ''chunks'' of Inl _ \<Rightarrow> ([], Raised)
                | Inr chunks \<Rightarrow> (case body_int body ''triplets'' of Inl _ \<Rightarrow> ([], Raised)
                    | Inr triplets \<Rightarrow> ([report_status SUCCESS [(''chunks'', JInt chunks), (''triplets'', JInt triplets)]],
                        Finished (JobSuccess chunks triplets))))
             else if py_eq state (JStr ''failed'') then
               (let error = py_or (jget body ''error'') (JStr ''ingestion failed'')
                in fail [(''error'', JStr ''ingest_failed''), (''message'', error)] error)
             else if py_eq state (JStr ''unknown'') then
               (if ps_unknown ps + 1 > MAX_UNKNOWN_POLLS then fail [(''error'', JStr ''job_lost'')] (JStr ''job_lost'')
                else poll_until_complete deadline (ps1\<lparr>ps_unknown := ps_unknown ps + 1\<rparr>) evs)
             else (case relay_progress body (ps_percent ps) (ps_phase ps) of Inl _ \<Rightarrow> ([], Raised)
               | Inr (out, percent, phase) \<Rightarrow>
                   let (rest, r) = poll_until_complete deadline (ps1\<lparr>ps_unknown := 0, ps_percent := percent, ps_phase := phase\<rparr>) evs
                   in (out @ rest, r)))"

definition poll_start :: poll_state where
  "poll_start = \<lparr>ps_errors = 0, ps_unknown = 0, ps_percent = 60, ps_phase = JStr ''''\<rparr>"

subsection \<open>The two tasks\<close>

record job_view =
  jv_checks :: "bool list"
  jv_original :: "string + string"
  jv_text :: "string + string"
  jv_sidecar :: bool
  jv_submits :: "submit_try list"
  jv_start :: int
  jv_polls :: "poll_event list"

text \<open>The answers to the checks before the submission; a check the view does not answer is one that is not flagged.\<close>

definition cancel_check :: "job_view \<Rightarrow> nat \<Rightarrow> bool" where
  "cancel_check v n = (n < length (jv_checks v) \<and> jv_checks v ! n)"

definition MAX_RETRIES :: nat where "MAX_RETRIES = 3"

definition post_to_brain_and_report :: "int \<Rightarrow> ingest_task \<Rightarrow> job_view \<Rightarrow> job_event list \<times> job_result progress" where
  "post_to_brain_and_report max_wait data v =
     (case submit_ingest data MAX_RETRIES 0 (jv_submits v) of
        (evs, Finished None) \<Rightarrow> let (more, r) = poll_until_complete (jv_start v + max_wait) poll_start (jv_polls v) in (evs @ more, r)
      | (evs, Finished (Some r)) \<Rightarrow> (evs, Finished r)
      | (evs, Raised) \<Rightarrow> (evs, Raised)
      | (evs, Running) \<Rightarrow> (evs, Running))"

definition task_ingest_document :: "int \<Rightarrow> ingest_task \<Rightarrow> job_view \<Rightarrow> job_event list \<times> job_result progress" where
  "task_ingest_document max_wait data v =
     (let queued = report_progress ''queued'' in
      if cancel_check v 0 then ([queued, cancelled_report], Finished JobCancelled)
      else let (evs, r) = post_to_brain_and_report max_wait data v in ([queued, report_progress ''ingesting''] @ evs, r))"

definition ends_with_doc :: "string \<Rightarrow> bool" where
  "ends_with_doc filename \<longleftrightarrow> length filename \<ge> 4 \<and> lower (drop (length filename - 4) filename) = ''.doc''"

definition task_extract_and_ingest ::
  "int \<Rightarrow> string \<Rightarrow> string \<Rightarrow> ingest_task \<Rightarrow> job_view \<Rightarrow> job_event list \<times> job_result progress" where
  "task_extract_and_ingest max_wait filename translation data v =
     (let queued = report_progress ''queued''; downloading = report_progress ''downloading''; extracting = report_progress ''extracting'';
          key = (case it_source data of Inl k \<Rightarrow> k | Inr _ \<Rightarrow> []);
          cancelled = (\<lambda>evs. (evs @ [cancelled_report], Finished JobCancelled));
          failed = (\<lambda>evs k message error. (evs @ [report_status FAILED [(''stage'', JStr ''extraction''), (''method'', JStr translation),
              (k, JStr message)]], Finished (JobFailed (JStr error))))
      in if cancel_check v 0 then cancelled [queued]
         else case jv_original v of Inl message \<Rightarrow> failed [queued, downloading] ''error'' message message
         | Inr _ \<Rightarrow>
           if cancel_check v 1 then cancelled [queued, downloading]
           else case jv_text v of Inl message \<Rightarrow> failed [queued, downloading, extracting] ''error'' message message
           | Inr text \<Rightarrow>
             if strip text = [] then failed [queued, downloading, extracting] ''reason'' ''empty_text'' ''empty extraction''
             else
               let before = [queued, downloading, extracting]
                     @ (if ends_with_doc filename \<and> jv_sidecar v then [PutObject (key @ ''.extracted.txt'') text] else [])
               in if cancel_check v 2 then cancelled before
                  else let (evs, r) = post_to_brain_and_report max_wait (data\<lparr>it_source := Inr (Some text)\<rparr>) v
                    in (before @ [report_progress ''ingesting''] @ evs, r))"

end
