(* ===== verification/Api_Key_Props.thy ===== *)
theory Api_Key_Props
  imports Api_Keys
begin

section \<open>Properties of API keys\<close>

text \<open>
  A scoped key reads with the masks of its own assignments and never with more: its masks are those of
  a member with the same assignments, its folders are listed folders or lie below them and are visible to the
  masks. Keys are reachable by minting, revoking and deleting; along the way every live scoped key
  keeps the items it was minted with, so it always resolves. Revoking stops requests and runs at once.
\<close>

subsection \<open>Scopes\<close>

lemma has_scope_sensitive: "has_scope granted s \<Longrightarrow> s \<in> set SENSITIVE_SCOPES \<Longrightarrow> s \<in> set granted"
  by (simp add: has_scope_def split: if_splits)

lemma normalize_scopes_set: "normalize_scopes scopes = Inr ss \<Longrightarrow> set ss = set scopes"
  unfolding normalize_scopes_def Let_def by (auto split: if_splits)

lemma has_scope_cong: "set xs = set ys \<Longrightarrow> has_scope xs s = has_scope ys s"
  by (simp add: has_scope_def)

lemma scoped_scopes_concrete:
  "''*'' \<notin> set SCOPED_KEY_SCOPES \<and> domain_wildcard s \<notin> set SCOPED_KEY_SCOPES"
proof -
  have no_star: "CHR ''*'' \<notin> set t" if "t \<in> set SCOPED_KEY_SCOPES" for t
    using that by (auto simp: SCOPED_KEY_SCOPES_def)
  show ?thesis using no_star [of "''*''"] no_star [of "domain_wildcard s"] by (auto simp: domain_wildcard_def)
qed

lemma has_scope_scoped: "set granted \<subseteq> set SCOPED_KEY_SCOPES \<Longrightarrow> has_scope granted s \<Longrightarrow> s \<in> set granted"
  using scoped_scopes_concrete [of s] by (auto simp: has_scope_def split: if_splits)

subsection \<open>The masks of a scoped key\<close>

lemma set_with_unrestricted [simp]: "set (with_unrestricted ms) = insert 0 (set ms)"
  by (auto simp: with_unrestricted_def UNRESTRICTED_MASK_def)

lemma with_unrestricted_not_Nil [simp]: "with_unrestricted ms \<noteq> []"
  by (simp add: with_unrestricted_def)

lemma calculate_masks_org:
  assumes "calculate_masks_from_assignments n rgs dps ros grs = Inr ms" and "m \<in> set ms"
  shows "dm_org (decode m) = n"
proof -
  let ?mm = "member_masks n (or_zero rgs) (or_zero ros) (or_zero grs) (or_zero dps)"
  have mm: "?mm = Inr ms"
    using assms(1) by (auto simp: calculate_masks_from_assignments_def result_simps split: if_splits)
  note ok = member_masks_Inr [OF mm]
  have "is_mask32 m" by (rule mask_product_is_mask32 [OF ok mm [unfolded member_masks_def] assms(2)])
  then show ?thesis using mem_mask_product [OF ok _ mm [unfolded member_masks_def]] assms(2) by blast
qed

lemma resolve_key_scope_Inr:
  assumes "resolve_key_scope db k = Inr s"
  shows "is_scoped k" and "assignments_query db (ak_id k) \<noteq> []"
    and "\<forall>r \<in> set (assignments_query db (ak_id k)). ar_org r = Some (ak_org k)"
    and "\<exists>n ms. org_number (ak_org k) (k_dims db) = Some n \<and> ks_masks s = with_unrestricted ms
      \<and> calculate_masks_from_assignments n (numbers_of (assignments_query db (ak_id k)) Region)
          (numbers_of (assignments_query db (ak_id k)) Department) (numbers_of (assignments_query db (ak_id k)) Role)
          (numbers_of (assignments_query db (ak_id k)) Group) = Inr ms"
    and "ks_folders s = (let listed = map ar_item (filter (\<lambda>r. ar_kind r = Folders) (assignments_query db (ak_id k)))
      in if listed = [] then None
         else Some (map fst (filter snd (visible_subtrees (ak_org k) listed (ks_masks s) (k_folders db)))))"
  using assms unfolding resolve_key_scope_def
  by (auto simp: Let_def result_simps list_ex_iff split: if_splits option.splits)

lemma folder_rows_filter:
  "map ar_item (filter (\<lambda>r. ar_kind r = Folders) (assignments_query db key)) = held_items db Folders key"
proof -
  have dims: "filter (\<lambda>r. ar_kind r = Folders) (dim_rows db key k) = []" for k
    by (auto simp: dim_rows_def filter_empty_conv Let_def)
  have "filter (\<lambda>r. ar_kind r = Folders) (folder_rows db key) = folder_rows db key"
    by (auto simp: folder_rows_def filter_id_conv)
  then show ?thesis by (simp add: assignments_query_def dims) (simp add: folder_rows_def comp_def)
qed

lemma numbers_of_query:
  "numbers_of (assignments_query db key) k =
     List.map_filter (\<lambda>i. map_option dim_number (dim_by_id db k i)) (held_items db (Dim k) key)"
proof -
  have same: "filter (\<lambda>r. ar_kind r = Dim k) (dim_rows db key k) = dim_rows db key k"
    by (auto simp: dim_rows_def filter_id_conv Let_def)
  have other: "k' \<noteq> k \<Longrightarrow> filter (\<lambda>r. ar_kind r = Dim k) (dim_rows db key k') = []" for k'
    by (auto simp: dim_rows_def filter_empty_conv Let_def)
  have "filter (\<lambda>r. ar_kind r = Dim k) (folder_rows db key) = []"
    by (auto simp: folder_rows_def filter_empty_conv)
  then have "filter (\<lambda>r. ar_kind r = Dim k) (assignments_query db key) = dim_rows db key k"
    using same other [of Region] other [of Role] other [of Group] other [of Department]
    by (cases k) (simp_all add: assignments_query_def)
  moreover have "List.map_filter ar_number (dim_rows db key k) =
      List.map_filter (\<lambda>i. map_option dim_number (dim_by_id db k i)) (held_items db (Dim k) key)"
    by (simp add: dim_rows_def List.map_filter_def filter_map comp_def Let_def)
  ultimately show ?thesis by (simp add: numbers_of_def)
qed

lemma visible_subtrees_members:
  assumes "folder_ids_ok tab"
  shows "i \<in> set (map fst (filter snd (visible_subtrees org ids ms tab))) \<longleftrightarrow>
    (\<exists>f \<in> set tab. fo_org f = org \<and> fo_id f = i \<and> (i \<in> set ids \<or> (\<exists>a \<in> set (ancestors org f tab). fo_id a \<in> set ids))
    \<and> folder_visible org f (Some ms) tab)"
proof -
  have pair: "i \<in> set (map fst (filter snd (visible_subtrees org ids ms tab))) \<longleftrightarrow> (i, True) \<in> set (visible_subtrees org ids ms tab)"
    by force
  show ?thesis unfolding pair visible_subtrees_iff [OF assms] Bex_def subtree_ancestors [OF assms] by auto
qed

lemma resolved_scope_confined:
  assumes "resolve_key_scope db k = Inr s" and "folder_ids_ok (k_folders db)"
  shows "ks_masks s \<noteq> []"
    and "m \<in> set (ks_masks s) \<Longrightarrow> m = 0 \<or> Some (dm_org (decode m)) = org_number (ak_org k) (k_dims db)"
    and "ks_folders s = Some ids \<Longrightarrow> i \<in> set ids \<longleftrightarrow> (\<exists>f \<in> set (k_folders db). fo_org f = ak_org k \<and> fo_id f = i
      \<and> (i \<in> set (held_items db Folders (ak_id k)) \<or>
         (\<exists>a \<in> set (ancestors (ak_org k) f (k_folders db)). fo_id a \<in> set (held_items db Folders (ak_id k))))
      \<and> folder_visible (ak_org k) f (Some (ks_masks s)) (k_folders db))"
proof -
  from resolve_key_scope_Inr(4) [OF assms(1)] obtain n ms where n: "org_number (ak_org k) (k_dims db) = Some n"
    and ms: "ks_masks s = with_unrestricted ms"
    and calc: "calculate_masks_from_assignments n (numbers_of (assignments_query db (ak_id k)) Region)
          (numbers_of (assignments_query db (ak_id k)) Department) (numbers_of (assignments_query db (ak_id k)) Role)
          (numbers_of (assignments_query db (ak_id k)) Group) = Inr ms" by blast
  show "ks_masks s \<noteq> []" by (simp add: ms)
  show "m = 0 \<or> Some (dm_org (decode m)) = org_number (ak_org k) (k_dims db)" if "m \<in> set (ks_masks s)"
    using that calculate_masks_org [OF calc] by (auto simp: ms n)
  show "i \<in> set ids \<longleftrightarrow> (\<exists>f \<in> set (k_folders db). fo_org f = ak_org k \<and> fo_id f = i
      \<and> (i \<in> set (held_items db Folders (ak_id k)) \<or>
         (\<exists>a \<in> set (ancestors (ak_org k) f (k_folders db)). fo_id a \<in> set (held_items db Folders (ak_id k))))
      \<and> folder_visible (ak_org k) f (Some (ks_masks s)) (k_folders db))"
    if "ks_folders s = Some ids"
  proof -
    have ids: "ids = map fst (filter snd (visible_subtrees (ak_org k) (held_items db Folders (ak_id k)) (ks_masks s) (k_folders db)))"
      using that resolve_key_scope_Inr(5) [OF assms(1)] unfolding folder_rows_filter Let_def by (auto split: if_splits)
    show ?thesis unfolding ids by (rule visible_subtrees_members [OF assms(2)])
  qed
qed

lemma lift_access_Inr [simp]: "lift_access (Inr x) = Inr x"
  by simp

lemma map_filter_number:
  "List.map_filter (\<lambda>i. map_option dim_number (g i)) is = map dim_number (List.map_filter g is)"
  by (simp add: List.map_filter_def comp_def option.map_sel cong: map_cong)

lemma lookup_Some: "lookup_by_key_hash db h = Inr (Some k) \<Longrightarrow> k \<in> set (k_keys db) \<and> ak_hash k = h"
  unfolding lookup_by_key_hash_def lift_access_eq_Inr scalar_one_or_none_Some filter_eq_Cons_iff by auto

lemma require_api_key_Inr:
  assumes "require_api_key hash now credentials x_api_key db = Inr (db', p)"
  obtains k s where "presented_key credentials x_api_key = Some s" and "k \<in> set (k_keys db)" and "ak_hash k = hash s"
    and "ak_revoked k = None" and "\<not> is_expired now k" and "principal_of db k = Inr p" and "db' = touch_last_used now k db"
proof -
  obtain s where s: "presented_key credentials x_api_key = Some s"
    using assms by (auto simp: require_api_key_def split: option.splits)
  obtain k where k: "lookup_by_key_hash db (hash s) = Inr (Some k)"
    using assms by (auto simp: require_api_key_def s result_simps split: option.splits)
  from assms have "ak_revoked k = None \<and> \<not> is_expired now k \<and> principal_of db k = Inr p \<and> db' = touch_last_used now k db"
    by (auto simp: require_api_key_def s k result_simps split: if_splits)
  then show ?thesis using that s lookup_Some [OF k] by blast
qed

lemma principal_of_Inr:
  assumes "principal_of db k = Inr p"
  shows "pr_key p = ak_id k" and "pr_org p = ak_org k" and "pr_scopes p = ak_scopes k" and "pr_is_scoped p = is_scoped k"
    and "is_scoped k \<Longrightarrow> \<exists>s. resolve_key_scope db k = Inr s \<and> pr_masks p = Some (ks_masks s) \<and> pr_folders p = ks_folders s"
    and "\<not> is_scoped k \<Longrightarrow> pr_masks p = None \<and> pr_folders p = None \<and> ak_mode k = ACCESS_MODE_ORG"
  using assms unfolding principal_of_def Let_def pr_is_scoped_def is_scoped_def
  by (auto split: if_splits sum.splits key_error.splits)

text \<open>A folder a scoped key may read: it is held by the key or lies below a held one, and the masks see it.\<close>

definition key_reads_folder :: "kdb \<Rightarrow> api_key \<Rightarrow> int list \<Rightarrow> uuid \<Rightarrow> bool" where
  "key_reads_folder db k masks i \<longleftrightarrow> (\<exists>f \<in> set (k_folders db). fo_org f = ak_org k \<and> fo_id f = i
     \<and> (i \<in> set (held_items db Folders (ak_id k)) \<or>
        (\<exists>a \<in> set (ancestors (ak_org k) f (k_folders db)). fo_id a \<in> set (held_items db Folders (ak_id k))))
     \<and> folder_visible (ak_org k) f (Some masks) (k_folders db))"

text \<open>The masks of a key: those of the dimensions assigned to it, with the mask of unrestricted content in front.\<close>

definition key_masks :: "kdb \<Rightarrow> api_key \<Rightarrow> int list \<Rightarrow> bool" where
  "key_masks db k ms \<longleftrightarrow> (let numbers = \<lambda>kd. map dim_number (List.map_filter (dim_by_id db kd) (held_items db (Dim kd) (ak_id k))) in
     \<exists>n xs. org_number (ak_org k) (k_dims db) = Some n \<and> ms = with_unrestricted xs
       \<and> calculate_masks_from_assignments n (numbers Region) (numbers Department) (numbers Role) (numbers Group) = Inr xs)"

lemma resolved_key_masks: "resolve_key_scope db k = Inr s \<Longrightarrow> key_masks db k (ks_masks s)"
  using resolve_key_scope_Inr(4) [of db k s] unfolding key_masks_def numbers_of_query map_filter_number Let_def by blast

text \<open>
  C21. A request that authenticates with a key names the key whose hash is that of the presented secret, and that key is neither
  revoked nor expired. When it is scoped, the request reads with exactly the masks computed from the dimensions assigned to this
  key, with the mask of unrestricted content, each of them 0 or of the key's organization; when the key holds folders, the request
  is limited to the folders that are held or lie below a held one and that the masks see, and to all of these. Only an
  organization key reads without masks.
\<close>

theorem scoped_key_confined:
  assumes "require_api_key hash now credentials x_api_key db = Inr (db', p)" and "folder_ids_ok (k_folders db)"
  shows "\<exists>k \<in> set (k_keys db). (\<exists>secret. presented_key credentials x_api_key = Some secret \<and> ak_hash k = hash secret)
    \<and> ak_id k = pr_key p \<and> ak_org k = pr_org p \<and> ak_revoked k = None \<and> \<not> is_expired now k
    \<and> (if is_scoped k
       then \<exists>ms. api_key_access_keys p = Inr (Some ms) \<and> ms \<noteq> [] \<and> key_masks db k ms
         \<and> (\<forall>m \<in> set ms. m = 0 \<or> Some (dm_org (decode m)) = org_number (ak_org k) (k_dims db))
         \<and> (pr_folders p = None \<longleftrightarrow> held_items db Folders (ak_id k) = [])
         \<and> (\<forall>ids. pr_folders p = Some ids \<longrightarrow> (\<forall>i. i \<in> set ids \<longleftrightarrow> key_reads_folder db k ms i))
       else ak_mode k = ACCESS_MODE_ORG \<and> api_key_access_keys p = Inr None \<and> pr_folders p = None)"
proof -
  obtain k s where k: "k \<in> set (k_keys db)" "\<exists>secret. presented_key credentials x_api_key = Some secret \<and> ak_hash k = hash secret"
      "ak_revoked k = None" "\<not> is_expired now k" and p: "principal_of db k = Inr p"
    by (metis require_api_key_Inr [OF assms(1)])
  note pr = principal_of_Inr [OF p]
  show ?thesis
  proof (cases "is_scoped k")
    case True
    then obtain sc where sc: "resolve_key_scope db k = Inr sc" "pr_masks p = Some (ks_masks sc)" "pr_folders p = ks_folders sc"
      using pr(5) by blast
    note conf = resolved_scope_confined [OF sc(1) assms(2)]
    have "api_key_access_keys p = Inr (Some (ks_masks sc))"
      using True conf(1) sc(2) pr(4) by (simp add: api_key_access_keys_def split: list.split)
    moreover have "pr_folders p = None \<longleftrightarrow> held_items db Folders (ak_id k) = []"
      using resolve_key_scope_Inr(5) [OF sc(1)] unfolding folder_rows_filter Let_def sc(3) by simp
    ultimately show ?thesis using True k pr(1,2) conf resolved_key_masks [OF sc(1)] sc(3)
      by (auto simp: key_reads_folder_def intro!: bexI [of _ k])
  next
    case False
    then show ?thesis using k pr by (intro bexI [of _ k]) (auto simp: api_key_access_keys_def)
  qed
qed

text \<open>
  A scoped key reads exactly like a member of its organization who holds the dimensions assigned to the key:
  the masks are the ones such a member's own requests search with.
\<close>

theorem scoped_key_reads_as_member:
  assumes "resolve_key_scope db k = Inr s"
    and "\<And>kd. held kd m = List.map_filter (dim_by_id db kd) (held_items db (Dim kd) (ak_id k))"
  shows "resolve_user_access_keys db False (ak_org k) m = Inr (Some (ks_masks s))"
proof -
  have num: "map dim_number (held kd m) = numbers_of (assignments_query db (ak_id k)) kd" for kd
    unfolding numbers_of_query assms(2) map_filter_number ..
  from resolve_key_scope_Inr(4) [OF assms(1)] show ?thesis
    using num [of Region] num [of Department] num [of Role] num [of Group]
    by (auto simp: resolve_user_access_keys_def calculate_user_masks_from_membership_def)
qed

subsection \<open>What a key may do\<close>

text \<open>
  Minting keeps what a scope list grants, a sensitive scope is granted only by its exact name, and a scoped key
  passes a guard only for a scope that is safe for scoped keys and that its own list grants.
\<close>

theorem scope_guards:
  "(normalize_scopes scopes = Inr clean \<longrightarrow> has_scope clean s = has_scope scopes s)
   \<and> (has_scope granted s \<and> s \<in> set SENSITIVE_SCOPES \<longrightarrow> s \<in> set granted)
   \<and> (require_scope s p = Inr q \<longleftrightarrow> q = p \<and> has_scope (pr_scopes p) s \<and> (pr_is_scoped p \<longrightarrow> s \<in> set SCOPED_KEY_SCOPES))"
  using has_scope_sensitive has_scope_cong [OF normalize_scopes_set] by (auto simp: require_scope_def)

theorem scope_guards_witness:
  "has_scope [''*''] ''records:write'' \<and> \<not> has_scope [''*''] ''config:write'' \<and> \<not> has_scope [''config:*''] ''config:write''
   \<and> normalize_scopes [''search:read'', ''records:*'', ''search:read''] = Inr [''search:read'', ''records:*'']"
proof -
  have "normalize_scopes [''search:read'', ''records:*'', ''search:read''] = Inr [''search:read'', ''records:*'']"
    by code_simp
  moreover have "has_scope [''*''] ''records:write'' \<and> \<not> has_scope [''config:*''] ''config:write''" by code_simp
  moreover have "\<not> has_scope [''*''] ''config:write''"
    using scope_guards [where granted = "[''*'']" and s = "''config:write''"] by (auto simp: SENSITIVE_SCOPES_def)
  ultimately show ?thesis by blast
qed

text \<open>
  The folders of a search with a key never exceed what the key may read: they are among the requested ones and
  among the folders of the key, at most 1024, and a search is unlimited only when the key has no folder limit
  and none was requested.
\<close>

theorem search_folders_within_key:
  assumes "api_key_folder_scope p requested = Inr scope"
  shows "(scope = None \<longrightarrow> pr_folders p = None \<and> (requested = None \<or> requested = Some []))
    \<and> (\<forall>ids. scope = Some ids \<longrightarrow> length ids \<le> MAX_FOLDER_TAGS
       \<and> (\<forall>allowed. pr_folders p = Some allowed \<longrightarrow> set ids \<subseteq> set allowed)
       \<and> (\<forall>r. requested = Some r \<and> r \<noteq> [] \<longrightarrow> set ids = set r))"
proof -
  let ?r = "fromkeys (case requested of None \<Rightarrow> [] | Some ids \<Rightarrow> ids)"
  from assms show ?thesis unfolding api_key_folder_scope_def Let_def
    by (cases "pr_folders p"; cases requested) (auto simp: result_simps split: if_splits option.splits)
qed

theorem search_folders_within_key_witness:
  "\<exists>p ids. api_key_folder_scope p (Some [''f'', ''f'']) = Inr (Some ids) \<and> pr_folders p = Some [''f'', ''g'']
     \<and> set ids \<subseteq> {''f'', ''g''} \<and> length ids \<le> 1024"
proof -
  let ?p = "\<lparr>pr_key = ''k'', pr_org = ''o'', pr_scopes = [''search:read''], pr_name = ''n'', pr_mode = ACCESS_MODE_SCOPED,
    pr_masks = Some [0], pr_folders = Some [''f'', ''g'']\<rparr>"
  have ok: "api_key_folder_scope ?p (Some [''f'', ''f'']) = Inr (Some [''f''])" by code_simp
  show ?thesis using search_folders_within_key [OF ok] ok
    by (intro exI [of _ ?p] exI [of _ "[''f'']"]) (simp add: MAX_FOLDER_TAGS_def)
qed

subsection \<open>Revoking\<close>

lemma find_only: "x \<in> set xs \<Longrightarrow> P x \<Longrightarrow> (\<And>y. y \<in> set xs \<Longrightarrow> P y \<Longrightarrow> y = x) \<Longrightarrow> find P xs = Some x"
proof (induction xs)
  case (Cons y ys)
  show ?case
  proof (cases "P y")
    case True
    with Cons.prems(3) [of y] show ?thesis by simp
  next
    case False
    with Cons.prems(1,2) have "x \<in> set ys" by auto
    then have "find P ys = Some x" using Cons.IH Cons.prems(2,3) by (metis list.set_intros(2))
    then show ?thesis using False by simp
  qed
qed simp

lemma distinct_map_eq: "distinct (map f xs) \<Longrightarrow> x \<in> set xs \<Longrightarrow> y \<in> set xs \<Longrightarrow> f y = f x \<Longrightarrow> y = x"
  by (auto simp: distinct_map dest: inj_onD)

lemma filter_distinct_map: "distinct (map f xs) \<Longrightarrow> x \<in> set xs \<Longrightarrow> filter (\<lambda>r. f r = f x) xs = [x]"
proof (induction xs)
  case (Cons y ys)
  show ?case
  proof (cases "y = x")
    case True
    then have "f r \<noteq> f x" if "r \<in> set ys" for r using Cons.prems(1) that by (metis distinct.simps(2) image_eqI list.simps(9) set_map)
    then show ?thesis using True by (simp add: filter_empty_conv)
  next
    case False
    with Cons.prems have "x \<in> set ys" "f y \<noteq> f x" by auto
    then show ?thesis using Cons by simp
  qed
qed simp

lemma revoked_refused:
  assumes "k \<in> set (k_keys db)" and "ak_revoked k \<noteq> None"
    and "distinct (map ak_id (k_keys db))" and "distinct (map ak_hash (k_keys db))"
  shows "presented_key credentials x_api_key = Some s \<Longrightarrow> hash s = ak_hash k \<Longrightarrow>
      require_api_key hash now credentials x_api_key db = Inl Unauthorized"
    and "rc_via_key ctx \<Longrightarrow> rc_key ctx = Some (ak_id k) \<Longrightarrow> scoped_key_refusal now ctx tool db = Some KeyGone"
proof -
  have "lookup_by_key_hash db (ak_hash k) = Inr (Some k)"
    unfolding lookup_by_key_hash_def by (simp add: filter_distinct_map [OF assms(4,1)])
  then show "presented_key credentials x_api_key = Some s \<Longrightarrow> hash s = ak_hash k \<Longrightarrow>
      require_api_key hash now credentials x_api_key db = Inl Unauthorized"
    using assms(2) by (simp add: require_api_key_def)
  have "find (\<lambda>r. ak_id r = ak_id k) (k_keys db) = Some k"
    by (rule find_only) (use assms(1) distinct_map_eq [OF assms(3,1)] in auto)
  then show "rc_via_key ctx \<Longrightarrow> rc_key ctx = Some (ak_id k) \<Longrightarrow> scoped_key_refusal now ctx tool db = Some KeyGone"
    using assms(2) by (simp add: scoped_key_refusal_def run_key_status_def)
qed

text \<open>
  Revoking a key stops it at once: a request that presents it is unauthorized, whatever the time, and a run it
  started may call no tool, since the refusal ends the run.
\<close>

theorem revoked_key_stops:
  assumes "revoke_key now org (ak_id k) db = Inr db'" and "k \<in> set (k_keys db)" and "ak_org k = org"
    and "distinct (map ak_id (k_keys db))" and "distinct (map ak_hash (k_keys db))"
    and "presented_key credentials x_api_key = Some s" and "hash s = ak_hash k"
    and "rc_via_key ctx" and "rc_key ctx = Some (ak_id k)"
  shows "require_api_key hash later credentials x_api_key db' = Inl Unauthorized
    \<and> ends_run (scoped_key_refusal later ctx tool db')"
proof -
  have get: "key_get org (ak_id k) db = Some k"
    unfolding key_get_def by (rule find_only) (use assms(2,3) distinct_map_eq [OF assms(4,2)] in auto)
  let ?keys = "if ak_revoked k = None
    then upd_where (\<lambda>r. ak_id r = ak_id k) (\<lambda>r. r\<lparr>ak_revoked := Some now\<rparr>) (k_keys db) else k_keys db"
  let ?k' = "if ak_revoked k = None then k\<lparr>ak_revoked := Some now\<rparr> else k"
  have keys: "k_keys db' = ?keys" using assms(1) by (auto simp: revoke_key_def get)
  have "?k' \<in> set (k_keys db')" using assms(2) by (auto simp: keys set_upd_where image_iff)
  moreover have "ak_revoked ?k' \<noteq> None" by simp
  moreover have "distinct (map ak_id (k_keys db'))" using assms(4) by (simp add: keys map_upd_where)
  moreover have "distinct (map ak_hash (k_keys db'))" using assms(5) by (simp add: keys map_upd_where)
  ultimately have "presented_key credentials x_api_key = Some s \<Longrightarrow> hash s = ak_hash ?k' \<Longrightarrow>
      require_api_key hash later credentials x_api_key db' = Inl Unauthorized"
    and "rc_via_key ctx \<Longrightarrow> rc_key ctx = Some (ak_id ?k') \<Longrightarrow> scoped_key_refusal later ctx tool db' = Some KeyGone"
    using revoked_refused [of ?k' db'] by blast+
  then show ?thesis using assms(6-9) by (simp add: ends_run_def split: if_splits)
qed

text \<open>
  A run started by a key calls a tool only while a key of its organization with its id is live; when that key is
  scoped, the tool is one of the tools for scoped runs, and it is then also offered to the run.
\<close>

theorem key_run_tools:
  assumes "rc_via_key ctx" and "scoped_key_refusal now ctx tool db = None"
  shows "\<exists>k \<in> set (k_keys db). rc_key ctx = Some (ak_id k) \<and> ak_org k = rc_org ctx \<and> ak_revoked k = None
    \<and> \<not> is_expired now k \<and> (is_scoped k \<longrightarrow> tool \<in> set SCOPED_KEY_RUN_TOOLS)
    \<and> (tool \<in> set names \<longrightarrow> tool \<in> set (offered_to_run now ctx names db))"
proof -
  obtain i where i: "rc_key ctx = Some i"
    using assms by (cases "rc_key ctx") (simp_all add: scoped_key_refusal_def run_key_status_def Let_def)
  obtain k where k: "find (\<lambda>k. ak_id k = i) (k_keys db) = Some k"
    using assms i by (cases "find (\<lambda>k. ak_id k = i) (k_keys db)") (simp_all add: scoped_key_refusal_def run_key_status_def Let_def)
  have mem: "k \<in> set (k_keys db)" "ak_id k = i" using find_SomeD [OF k] by simp_all
  have live: "ak_org k = rc_org ctx \<and> ak_revoked k = None \<and> \<not> is_expired now k"
    and tool: "ak_mode k = ACCESS_MODE_SCOPED \<longrightarrow> tool \<in> set SCOPED_KEY_RUN_TOOLS"
    and mode: "ak_mode k = ACCESS_MODE_SCOPED \<or> ak_mode k = ACCESS_MODE_ORG"
    using assms i k by (auto simp: scoped_key_refusal_def run_key_status_def Let_def split: if_splits)
  have "tool \<in> set (offered_to_run now ctx names db)" if "tool \<in> set names"
    using that assms i k live tool mode
    by (auto simp: offered_to_run_def is_scoped_key_run_def run_key_status_def Let_def ACCESS_MODE_ORG_def ACCESS_MODE_SCOPED_def)
  then show ?thesis using mem i live tool by (auto simp: is_scoped_def intro!: bexI [of _ k])
qed

subsection \<open>The rate limit\<close>

text \<open>A sequence of requests, each with its rate key and its time, against the counters of one limit.\<close>

fun run_hits :: "int \<Rightarrow> int \<Rightarrow> (string \<times> int) list \<Rightarrow> counters option \<Rightarrow> bool list" where
  "run_hits limit window [] cs = []"
| "run_hits limit window ((key, now) # hits) cs =
     (let (cs', r) = check_rate_limit key limit window now cs in rr_allowed r # run_hits limit window hits cs')"

definition of_window :: "string \<Rightarrow> int \<Rightarrow> int \<Rightarrow> string \<times> int \<Rightarrow> bool" where
  "of_window key window bucket = (\<lambda>(k, now). k = key \<and> now div window = bucket)"

definition hit_count :: "counters \<Rightarrow> string \<Rightarrow> int \<Rightarrow> int" where
  "hit_count cs key bucket = (case dget cs (key, bucket) of None \<Rightarrow> 0 | Some n \<Rightarrow> n)"

lemma run_hits_count:
  assumes "0 \<le> hit_count cs key bucket"
  shows "int (length (filter (\<lambda>(h, ok). of_window key window bucket h \<and> ok) (zip hits (run_hits limit window hits (Some cs)))))
    = min (int (length (filter (of_window key window bucket) hits))) (max 0 (limit - hit_count cs key bucket))"
  using assms
proof (induction hits arbitrary: cs)
  case (Cons h hits)
  obtain k now where h: "h = (k, now)" by (cases h)
  let ?cs = "dset cs (k, now div window) ((case dget cs (k, now div window) of None \<Rightarrow> 0 | Some n \<Rightarrow> n) + 1)"
  have count: "hit_count ?cs key bucket = hit_count cs key bucket + (if of_window key window bucket h then 1 else 0)"
    by (auto simp: hit_count_def of_window_def h)
  have step: "run_hits limit window (h # hits) (Some cs) =
      (hit_count cs k (now div window) + 1 \<le> limit) # run_hits limit window hits (Some ?cs)"
    by (simp add: h check_rate_limit_def Let_def hit_count_def)
  show ?case
  proof (cases "of_window key window bucket h")
    case True
    then have "k = key" "now div window = bucket" by (simp_all add: of_window_def h)
    then show ?thesis using Cons.IH [of ?cs] Cons.prems count True unfolding step by auto
  next
    case False
    then show ?thesis using Cons.IH [of ?cs] Cons.prems count unfolding step by auto
  qed
qed simp

text \<open>
  Of the requests with one rate key that fall into one window, in any order and mixed with others, exactly the
  first ones up to the limit are allowed: their number is the smaller one of the limit and the number of requests.
\<close>

theorem rate_limit_exact:
  assumes "dget cs (key, bucket) = None" and "0 \<le> limit"
  shows "int (length (filter (\<lambda>(h, ok). of_window key window bucket h \<and> ok) (zip hits (run_hits limit window hits (Some cs)))))
    = min (int (length (filter (of_window key window bucket) hits))) limit"
  using run_hits_count [of cs key bucket window hits limit] assms by (simp add: hit_count_def)

theorem rate_limit_exact_witness:
  "run_hits 2 60 [(''a'', 0), (''b'', 1), (''a'', 30), (''a'', 59), (''a'', 60)] (Some []) = [True, True, True, False, True]
   \<and> int (length (filter (\<lambda>(h, ok). of_window ''a'' 60 0 h \<and> ok) (zip [(''a'', 0), (''b'', 1), (''a'', 30), (''a'', 59), (''a'', 60)]
       (run_hits 2 60 [(''a'', 0), (''b'', 1), (''a'', 30), (''a'', 59), (''a'', 60)] (Some []))))) = 2"
proof -
  have "run_hits 2 60 [(''a'', 0), (''b'', 1), (''a'', 30), (''a'', 59), (''a'', 60)] (Some []) = [True, True, True, False, True]"
    by code_simp
  moreover have "int (length (filter (of_window ''a'' 60 0) [(''a'', 0), (''b'', 1), (''a'', 30), (''a'', 59), (''a'', 60)])) = 3"
    by code_simp
  ultimately show ?thesis
    using rate_limit_exact [of "[]" "''a''" 0 2 60 "[(''a'', 0), (''b'', 1), (''a'', 30), (''a'', 59), (''a'', 60)]"] by simp
qed

subsection \<open>Live scoped keys always resolve\<close>

text \<open>What a key sees of an item it holds: the organization and, for a dimension, the number.\<close>

fun item_view :: "kdb \<Rightarrow> item_kind \<Rightarrow> uuid \<Rightarrow> (uuid \<times> int) option" where
  "item_view db (Dim k) i = map_option (\<lambda>d. (dim_org d, dim_number d)) (dim_by_id db k i)"
| "item_view db Folders i = map_option (\<lambda>f. (fo_org f, 0)) (folder_by_id db i)"

definition held_numbers :: "kdb \<Rightarrow> uuid \<Rightarrow> dim_kind \<Rightarrow> int list" where
  "held_numbers db key k = List.map_filter (\<lambda>i. map_option snd (item_view db (Dim k) i)) (held_items db (Dim k) key)"

definition scope_ok :: "kdb \<Rightarrow> api_key \<Rightarrow> bool" where
  "scope_ok db k \<longleftrightarrow> (\<exists>kind. held_items db kind (ak_id k) \<noteq> [])
     \<and> (\<forall>kind. \<forall>i \<in> set (held_items db kind (ak_id k)). map_option fst (item_view db kind i) = Some (ak_org k))
     \<and> (\<exists>n ms. org_number (ak_org k) (k_dims db) = Some n
        \<and> calculate_masks_from_assignments n (held_numbers db (ak_id k) Region) (held_numbers db (ak_id k) Department)
            (held_numbers db (ak_id k) Role) (held_numbers db (ak_id k) Group) = Inr ms)"

lemma all_item_kind: "(\<forall>kind. P kind) \<longleftrightarrow> P (Dim Region) \<and> P (Dim Role) \<and> P (Dim Group) \<and> P (Dim Department) \<and> P Folders"
  by (metis dim_kind.exhaust item_kind.exhaust)

lemma numbers_of_held: "numbers_of (assignments_query db key) k = held_numbers db key k"
  unfolding numbers_of_query held_numbers_def by (simp add: option.map_comp comp_def)

lemma assignments_query_Nil: "assignments_query db key = [] \<longleftrightarrow> (\<forall>kind. held_items db kind key = [])"
  by (auto simp: all_item_kind assignments_query_def dim_rows_def folder_rows_def)

lemma assignments_query_orgs:
  "(\<forall>r \<in> set (assignments_query db key). ar_org r = Some org) \<longleftrightarrow>
   (\<forall>kind. \<forall>i \<in> set (held_items db kind key). map_option fst (item_view db kind i) = Some org)"
  unfolding all_item_kind
  by (simp add: assignments_query_def dim_rows_def folder_rows_def Let_def ball_Un option.map_comp comp_def)

lemma scope_ok_resolves:
  assumes "is_scoped k" and "scope_ok db k"
  shows "\<exists>s. resolve_key_scope db k = Inr s"
proof -
  from assms(2) have "assignments_query db (ak_id k) \<noteq> []"
    and "\<not> list_ex (\<lambda>r. ar_org r \<noteq> Some (ak_org k)) (assignments_query db (ak_id k))"
    unfolding scope_ok_def list_ex_iff assignments_query_Nil
    using assignments_query_orgs [of db "ak_id k" "ak_org k"] by blast+
  then show ?thesis using assms unfolding scope_ok_def resolve_key_scope_def numbers_of_held Let_def by auto
qed

lemma scope_ok_frame:
  assumes "scope_ok db k" and held: "\<And>kind. held_items db' kind (ak_id k) = held_items db kind (ak_id k)"
    and view: "\<And>kind i. i \<in> set (held_items db kind (ak_id k)) \<Longrightarrow> item_view db' kind i = item_view db kind i"
    and "d_orgs (k_dims db') = d_orgs (k_dims db)"
  shows "scope_ok db' k"
proof -
  have "held_numbers db' (ak_id k) kd = held_numbers db (ak_id k) kd" for kd
    unfolding held_numbers_def held List.map_filter_def using view [of _ "Dim kd"]
    by (auto intro!: arg_cong2 [where f = map] filter_cong map_cong simp del: item_view.simps)
  moreover have "org_number (ak_org k) (k_dims db') = org_number (ak_org k) (k_dims db)"
    using assms(4) by (simp add: org_number_def)
  ultimately show ?thesis using assms(1) view unfolding scope_ok_def held by (simp del: item_view.simps)
qed

inductive keys_reachable :: "int \<Rightarrow> kdb \<Rightarrow> bool" where
  start: "k_keys db = [] \<Longrightarrow> k_held db = [] \<Longrightarrow> dims_inv (k_dims db) \<Longrightarrow> folder_ids_ok (k_folders db) \<Longrightarrow> keys_reachable t db"
| tick: "keys_reachable t db \<Longrightarrow> t \<le> t' \<Longrightarrow> keys_reachable t' db"
| mint: "keys_reachable t db \<Longrightarrow> new_id \<notin> ak_id ` set (k_keys db) \<Longrightarrow>
    create_key hash new_id token t org name scopes expires created_by assignments db = Inr (db', k, plaintext) \<Longrightarrow>
    keys_reachable t db'"
| used: "keys_reachable t db \<Longrightarrow> require_api_key hash t credentials x_api_key db = Inr (db', p) \<Longrightarrow> keys_reachable t db'"
| revoke: "keys_reachable t db \<Longrightarrow> revoke_key t org i db = Inr db' \<Longrightarrow> keys_reachable t db'"
| new_dimension: "keys_reachable t db \<Longrightarrow> new_id \<notin> dim_id ` set (dim_table k (k_dims db)) \<Longrightarrow>
    dimension_create new_id k org name description (k_dims db) = Inr (ds, d) \<Longrightarrow> keys_reachable t (db\<lparr>k_dims := ds\<rparr>)"
| rename_dimension: "keys_reachable t db \<Longrightarrow> dimension_update k org i name description (k_dims db) = (ds, d) \<Longrightarrow>
    keys_reachable t (db\<lparr>k_dims := ds\<rparr>)"
| drop_dimension: "keys_reachable t db \<Longrightarrow> delete_dimension t org k i db = Inr db' \<Longrightarrow> keys_reachable t db'"
| drop_folder: "keys_reachable t db \<Longrightarrow> delete_folder t org i db = Inr db' \<Longrightarrow> keys_reachable t db'"

definition keys_inv :: "int \<Rightarrow> kdb \<Rightarrow> bool" where
  "keys_inv t db \<longleftrightarrow> dims_inv (k_dims db) \<and> folder_ids_ok (k_folders db) \<and> distinct (map ak_id (k_keys db))
     \<and> (\<forall>(kind, key, i) \<in> set (k_held db). key \<in> ak_id ` set (k_keys db))
     \<and> (\<forall>k \<in> set (k_keys db). is_scoped k \<and> \<not> inactive t k \<longrightarrow> scope_ok db k)"

lemma held_items_keys [simp]: "held_items (db\<lparr>k_keys := ks\<rparr>) kind key = held_items db kind key"
  by (simp add: held_items_def)

lemma held_items_dims [simp]: "held_items (db\<lparr>k_dims := ds\<rparr>) kind key = held_items db kind key"
  by (simp add: held_items_def)

lemma item_view_keys [simp]: "item_view (db\<lparr>k_keys := ks\<rparr>) kind i = item_view db kind i"
  by (cases kind) (simp_all add: dim_by_id_def folder_by_id_def)

lemma scope_ok_cong: "scope_ok db k \<Longrightarrow> ak_id k' = ak_id k \<Longrightarrow> ak_org k' = ak_org k \<Longrightarrow> scope_ok db k'"
  by (simp add: scope_ok_def)

lemma scope_ok_keys: "scope_ok db k \<Longrightarrow> scope_ok (db\<lparr>k_keys := ks\<rparr>) k"
  by (erule scope_ok_frame) (simp_all del: item_view.simps)

lemma scope_ok_view: "scope_ok db k \<Longrightarrow> i \<in> set (held_items db kind (ak_id k)) \<Longrightarrow> item_view db kind i \<noteq> None"
  unfolding scope_ok_def by (metis option.map_disc_iff option.simps(3))

lemma keys_inv_upd:
  assumes "keys_inv t db" and same: "\<And>r. ak_id (f r) = ak_id r \<and> ak_org (f r) = ak_org r \<and> ak_mode (f r) = ak_mode r
      \<and> (inactive t r \<longrightarrow> inactive t (f r))"
  shows "keys_inv t (db\<lparr>k_keys := upd_where p f (k_keys db)\<rparr>)"
proof -
  have "map ak_id (upd_where p f (k_keys db)) = map ak_id (k_keys db)" using same by (simp add: map_upd_where)
  moreover from this have "ak_id ` set (upd_where p f (k_keys db)) = ak_id ` set (k_keys db)" by (metis set_map)
  moreover have "scope_ok (db\<lparr>k_keys := upd_where p f (k_keys db)\<rparr>) k'"
    if "k' \<in> set (upd_where p f (k_keys db))" "is_scoped k'" "\<not> inactive t k'" for k'
  proof -
    from that(1) obtain k where k: "k \<in> set (k_keys db)" "k' = (if p k then f k else k)" by (auto simp: set_upd_where)
    have "is_scoped k" "\<not> inactive t k" using k(2) that(2,3) same [of k] by (auto simp: is_scoped_def split: if_splits)
    then have "scope_ok db k" using assms(1) k(1) by (simp add: keys_inv_def)
    then have "scope_ok db k'" by (rule scope_ok_cong) (use k(2) same [of k] in auto)
    then show ?thesis by (rule scope_ok_keys)
  qed
  ultimately show ?thesis using assms(1) unfolding keys_inv_def by simp
qed

lemma keys_inv_tick: "keys_inv t db \<Longrightarrow> t \<le> t' \<Longrightarrow> keys_inv t' db"
  unfolding keys_inv_def inactive_def by (fastforce split: option.splits)

lemma keys_inv_dims:
  assumes "keys_inv t db" and "dims_inv ds" and "d_orgs ds = d_orgs (k_dims db)"
    and "\<And>k i. dim_by_id db k i \<noteq> None \<Longrightarrow> item_view (db\<lparr>k_dims := ds\<rparr>) (Dim k) i = item_view db (Dim k) i"
  shows "keys_inv t (db\<lparr>k_dims := ds\<rparr>)"
proof -
  have "scope_ok (db\<lparr>k_dims := ds\<rparr>) k" if ok: "scope_ok db k" for k
  proof (rule scope_ok_frame [OF ok])
    show "item_view (db\<lparr>k_dims := ds\<rparr>) kind i = item_view db kind i" if "i \<in> set (held_items db kind (ak_id k))" for kind i
      using assms(4) scope_ok_view [OF ok that] by (cases kind) (auto simp: folder_by_id_def)
  qed (simp_all add: assms(3))
  then show ?thesis using assms(1,2) by (simp add: keys_inv_def)
qed

lemma find_append_found: "find P xs \<noteq> None \<Longrightarrow> find P (xs @ ys) = find P xs"
  by (induction xs) auto

lemma find_upd_where_proj:
  assumes "\<And>r. q r \<Longrightarrow> P (f r) = P r" and "\<And>r. q r \<Longrightarrow> g (f r) = g r"
  shows "map_option g (find P (upd_where q f rs)) = map_option g (find P rs)"
  using assms by (induction rs) auto

lemma keys_inv_new_dimension:
  assumes "keys_inv t db" and "new_id \<notin> dim_id ` set (dim_table k (k_dims db))"
    and "dimension_create new_id k org name description (k_dims db) = Inr (ds, d)"
  shows "keys_inv t (db\<lparr>k_dims := ds\<rparr>)"
proof (rule keys_inv_dims [OF assms(1)])
  show "dims_inv ds" using assms by (auto simp: keys_inv_def intro: dims_inv_create)
  have ds: "ds = set_dim_table k (dim_table k (k_dims db) @ [d]) (k_dims db)"
    using assms(3) by (auto simp: dimension_create_def Let_def split: if_splits)
  then show "d_orgs ds = d_orgs (k_dims db)" by simp
  show "item_view (db\<lparr>k_dims := ds\<rparr>) (Dim k') i = item_view db (Dim k') i" if "dim_by_id db k' i \<noteq> None" for k' i
    using that find_append_found [of "\<lambda>d. dim_id d = i" "dim_table k' (k_dims db)" "[d]"]
    by (auto simp: ds dim_by_id_def)
qed

lemma keys_inv_rename_dimension:
  assumes "keys_inv t db" and "dimension_update k org i name description (k_dims db) = (ds, d)"
  shows "keys_inv t (db\<lparr>k_dims := ds\<rparr>)"
proof (rule keys_inv_dims [OF assms(1)])
  have ds: "ds = fst (dimension_update k org i name description (k_dims db))" using assms(2) by simp
  have inv: "dims_inv (k_dims db)" using assms(1) by (simp add: keys_inv_def)
  then show "dims_inv ds" unfolding ds by (rule dims_inv_update)
  show "d_orgs ds = d_orgs (k_dims db)" by (simp add: ds dimension_update_def Let_def split: option.splits)
  show "item_view (db\<lparr>k_dims := ds\<rparr>) (Dim k') j = item_view db (Dim k') j" for k' j
  proof (cases "dimension_get k org i (k_dims db)")
    case (Some d0)
    then have d0: "d0 \<in> set (dim_table k (k_dims db))" "dim_id d0 = i" "dim_org d0 = org"
      by (auto simp: dimension_get_def dest: find_SomeD)
    have only: "r = d0" if "r \<in> set (dim_table k (k_dims db))" "dim_id r = i" for r
      using inv d0 that by (auto simp: dims_inv_def numbers_ok_def distinct_map dest: inj_onD)
    let ?f = "\<lambda>r. r\<lparr>dim_name := (case name of None \<Rightarrow> dim_name d0 | Some s \<Rightarrow> s),
      dim_description := (case description of None \<Rightarrow> dim_description d0 | Some s \<Rightarrow> Some s)\<rparr>"
    have upd: "upd_where (\<lambda>r. dim_id r = i \<and> dim_org r = org) (\<lambda>_. ?f d0) (dim_table k (k_dims db)) =
        upd_where (\<lambda>r. dim_id r = i \<and> dim_org r = org) ?f (dim_table k (k_dims db))"
      unfolding upd_where_def by (rule map_cong [OF refl]) (use only in auto)
    show ?thesis
      using find_upd_where_proj [where f = ?f and g = "\<lambda>d. (dim_org d, dim_number d)" and P = "\<lambda>d. dim_id d = j"
          and q = "\<lambda>r. dim_id r = i \<and> dim_org r = org" and rs = "dim_table k (k_dims db)"]
      by (simp add: ds dimension_update_def Some Let_def dim_by_id_def upd)
  qed (simp add: ds dimension_update_def)
qed

text \<open>The two deletions: rows of inactive keys go, and the deferred foreign keys stop the deletion of a held item.\<close>

lemma held_items_purge:
  assumes "\<And>r. r \<in> set (k_keys db) \<Longrightarrow> ak_id r = key \<Longrightarrow> \<not> inactive t r"
  shows "held_items (purge_inactive_holders t org kind i db) kind' key = held_items db kind' key"
  using assms by (auto simp: held_items_def purge_inactive_holders_def list_ex_iff intro!: arg_cong [where f = "map _"] filter_cong)

lemma find_filter_unique:
  assumes "distinct (map f xs)" and "find (\<lambda>x. f x = i) (filter p xs) \<noteq> None"
  shows "find (\<lambda>x. f x = i) (filter p xs) = find (\<lambda>x. f x = i) xs"
proof -
  from assms(2) obtain y where y: "find (\<lambda>x. f x = i) (filter p xs) = Some y" by blast
  then have "y \<in> set xs" "f y = i" using find_SomeD [OF y] by simp_all
  moreover from this have "find (\<lambda>x. f x = i) xs = Some y" 
    by (intro find_only) (use distinct_map_eq [OF assms(1)] in metis)+
  ultimately show ?thesis using y by simp
qed

lemma keys_inv_drop:
  assumes inv: "keys_inv t db" and keys: "k_keys db' = k_keys db"
    and held: "k_held db' = k_held (purge_inactive_holders t org kind i db)"
    and "dims_inv (k_dims db')" and "folder_ids_ok (k_folders db')" and orgs: "d_orgs (k_dims db') = d_orgs (k_dims db)"
    and check: "check_constraints_now db'"
    and view: "\<And>kind i. item_exists db' kind i \<Longrightarrow> item_view db' kind i = item_view db kind i"
  shows "keys_inv t db'"
proof -
  have heldi: "held_items db' kind' key = held_items (purge_inactive_holders t org kind i db) kind' key" for kind' key
    by (simp add: held_items_def held)
  have exists': "item_exists db' kind' j" if "j \<in> set (held_items db' kind' key)" for kind' key j
    using check that by (auto simp: check_constraints_now_def list_all_iff held_items_def simp del: item_exists.simps)
  have "scope_ok db' k" if "k \<in> set (k_keys db)" "is_scoped k" "\<not> inactive t k" for k
  proof (rule scope_ok_frame)
    show "scope_ok db k" using inv that by (simp add: keys_inv_def)
    have same: "held_items db' kind' (ak_id k) = held_items db kind' (ak_id k)" for kind'
      unfolding heldi by (rule held_items_purge) (use inv that(1,3) in \<open>auto simp: keys_inv_def dest: distinct_map_eq\<close>)
    then show "held_items db' kind' (ak_id k) = held_items db kind' (ak_id k)" for kind' .
    show "item_view db' kind' j = item_view db kind' j" if "j \<in> set (held_items db kind' (ak_id k))" for kind' j
      by (rule view, rule exists' [where key = "ak_id k"]) (use that same in simp)
  qed (rule orgs)
  moreover have "set (k_held db') \<subseteq> set (k_held db)" by (auto simp: held purge_inactive_holders_def)
  ultimately show ?thesis using assms(1,4,5) unfolding keys_inv_def keys by blast
qed

lemma keys_inv_drop_dimension:
  assumes inv: "keys_inv t db" and del: "delete_dimension t org k i db = Inr db'"
  shows "keys_inv t db'"
proof -
  let ?p = "purge_inactive_holders t org (Dim k) i db"
  have pd: "k_dims ?p = k_dims db" "k_keys ?p = k_keys db" "k_folders ?p = k_folders db"
    by (simp_all add: purge_inactive_holders_def)
  obtain d where get: "dimension_get k org i (k_dims db) = Some d"
    using del by (auto simp: delete_dimension_def split: option.splits)
  let ?ds = "set_dim_table k (filter (\<lambda>r. \<not> (dim_id r = i \<and> dim_org r = org)) (dim_table k (k_dims db))) (k_dims db)"
  from del have check: "check_constraints_now db'"
    and eqs: "k_dims db' = ?ds" "k_keys db' = k_keys db" "k_folders db' = k_folders db" "k_held db' = k_held ?p"
    by (auto simp: delete_dimension_def get dimension_delete_def pd Let_def split: if_splits)
  have ok: "dims_inv (k_dims db)" using inv by (simp add: keys_inv_def)
  show ?thesis
  proof (rule keys_inv_drop [OF inv eqs(2,4) _ _ _ check])
    show "dims_inv (k_dims db')" using ok by (simp add: dims_inv_def eqs)
    show "folder_ids_ok (k_folders db')" using inv by (simp add: keys_inv_def eqs)
    show "d_orgs (k_dims db') = d_orgs (k_dims db)" by (simp add: eqs)
    have dist: "distinct (map dim_id (dim_table k (k_dims db)))" using ok by (simp add: dims_inv_def numbers_ok_def)
    show "item_view db' kind j = item_view db kind j" if "item_exists db' kind j" for kind j
      using that find_filter_unique [OF dist, of j "\<lambda>r. \<not> (dim_id r = i \<and> dim_org r = org)"]
      by (cases kind) (auto simp: dim_by_id_def folder_by_id_def eqs)
  qed
qed

lemma keys_inv_drop_folder:
  assumes inv: "keys_inv t db" and del: "delete_folder t org i db = Inr db'"
  shows "keys_inv t db'"
proof -
  let ?p = "purge_inactive_holders t org Folders i db"
  have pd: "k_dims ?p = k_dims db" "k_keys ?p = k_keys db" "k_folders ?p = k_folders db"
    by (simp_all add: purge_inactive_holders_def)
  from del have check: "check_constraints_now db'"
    and eqs: "k_dims db' = k_dims db" "k_keys db' = k_keys db" "k_folders db' = filter (\<lambda>g. fo_id g \<noteq> i) (k_folders db)"
      "k_held db' = k_held ?p"
    by (auto simp: delete_folder_def pd Let_def split: if_splits option.splits)
  show ?thesis
  proof (rule keys_inv_drop [OF inv eqs(2,4) _ _ _ check])
    show "dims_inv (k_dims db')" "folder_ids_ok (k_folders db')" using inv by (simp_all add: keys_inv_def eqs)
    show "d_orgs (k_dims db') = d_orgs (k_dims db)" by (simp add: eqs)
    have dist: "distinct (map fo_id (k_folders db))" using inv by (simp add: keys_inv_def folder_ids_ok_def)
    show "item_view db' kind j = item_view db kind j" if "item_exists db' kind j" for kind j
      using that find_filter_unique [OF dist, of j "\<lambda>g. fo_id g \<noteq> i"]
      by (cases kind) (auto simp: dim_by_id_def folder_by_id_def eqs)
  qed
qed

lemma find_unique: "distinct (map f xs) \<Longrightarrow> x \<in> set xs \<Longrightarrow> f x = i \<Longrightarrow> find (\<lambda>y. f y = i) xs = Some x"
  by (rule find_only) (auto dest: distinct_map_eq)

lemma map_filter_cong: "(\<And>x. x \<in> set xs \<Longrightarrow> f x = g x) \<Longrightarrow> List.map_filter f xs = List.map_filter g xs"
  by (induction xs) (simp_all add: List.map_filter_simps split: option.split)

lemma assigned_numbers_Inr:
  assumes "assigned_numbers db org a k = Inr ns" and "distinct (map dim_id (dim_table k (k_dims db)))"
  shows "i \<in> set (ka_dim k a) \<Longrightarrow> \<exists>n. item_view db (Dim k) i = Some (org, n)"
    and "ns = List.map_filter (\<lambda>i. map_option snd (item_view db (Dim k) i)) (ka_dim k a)"
proof -
  let ?found = "filter (\<lambda>d. dim_org d = org \<and> dim_id d \<in> set (ka_dim k a)) (dim_table k (k_dims db))"
  have known: "set (ka_dim k a) \<subseteq> dim_id ` set ?found"
    and ns: "ns = List.map_filter (\<lambda>i. map_option dim_number (find (\<lambda>d. dim_id d = i) ?found)) (ka_dim k a)"
    using assms(1) by (auto simp: assigned_numbers_def refuse_unknown_def Let_def result_simps filter_empty_conv image_iff split: if_splits)
  have found: "\<exists>d. find (\<lambda>d. dim_id d = i) ?found = Some d \<and> dim_org d = org \<and> dim_by_id db k i = Some d" if "i \<in> set (ka_dim k a)" for i
  proof -
    from that known obtain d where d: "d \<in> set ?found" "dim_id d = i" by blast
    then have "d \<in> set (dim_table k (k_dims db))" by simp
    then have "find (\<lambda>d. dim_id d = i) (dim_table k (k_dims db)) = Some d" using assms(2) d(2) by (intro find_unique)
    moreover have "find (\<lambda>d. dim_id d = i) ?found = Some d"
      using d by (intro find_unique) (simp_all add: distinct_map_filter assms(2))
    ultimately show ?thesis using d(1) by (simp add: dim_by_id_def)
  qed
  show "i \<in> set (ka_dim k a) \<Longrightarrow> \<exists>n. item_view db (Dim k) i = Some (org, n)" using found [of i] by auto
  have "map_option dim_number (find (\<lambda>d. dim_id d = i) ?found) = map_option snd (item_view db (Dim k) i)"
    if "i \<in> set (ka_dim k a)" for i using found [OF that] by auto
  then show "ns = List.map_filter (\<lambda>i. map_option snd (item_view db (Dim k) i)) (ka_dim k a)"
    unfolding ns by (rule map_filter_cong)
qed

lemma validate_folders_org:
  assumes "validate_folders db org ids ms = Inr ()" and "i \<in> set ids" and "folder_ids_ok (k_folders db)"
  shows "item_view db Folders i = Some (org, 0)"
proof -
  have "i \<in> fo_id ` set (filter (\<lambda>f. fo_id f \<in> set ids) (in_org org (k_folders db)))"
    using assms(1,2) by (auto simp: validate_folders_def refuse_unknown_def Let_def result_simps filter_empty_conv split: if_splits)
  then obtain f where f: "f \<in> set (k_folders db)" "fo_org f = org" "fo_id f = i" by (auto simp: in_org_def)
  have "find (\<lambda>g. fo_id g = i) (k_folders db) = Some f"
    using assms(3) f(1,3) unfolding folder_ids_ok_def by (rule find_unique)
  then show ?thesis using f(2) by (simp add: folder_by_id_def)
qed

lemma validate_assignments_Inr:
  assumes "validate_assignments db org a = Inr ()" and "dims_inv (k_dims db)" and "folder_ids_ok (k_folders db)"
  shows "i \<in> set (ka_kind kind a) \<Longrightarrow> map_option fst (item_view db kind i) = Some org"
    and "\<exists>n ms. org_number org (k_dims db) = Some n \<and> calculate_masks_from_assignments n
      (List.map_filter (\<lambda>i. map_option snd (item_view db (Dim Region) i)) (ka_regions a))
      (List.map_filter (\<lambda>i. map_option snd (item_view db (Dim Department) i)) (ka_departments a))
      (List.map_filter (\<lambda>i. map_option snd (item_view db (Dim Role) i)) (ka_roles a))
      (List.map_filter (\<lambda>i. map_option snd (item_view db (Dim Group) i)) (ka_groups a)) = Inr ms"
proof -
  from assms(1) obtain rgs ros grs dps n ms where nums: "assigned_numbers db org a Region = Inr rgs"
      "assigned_numbers db org a Role = Inr ros" "assigned_numbers db org a Group = Inr grs"
      "assigned_numbers db org a Department = Inr dps"
    and n: "org_number org (k_dims db) = Some n" and ms: "calculate_masks_from_assignments n rgs dps ros grs = Inr ms"
    and folders: "ka_folders a = [] \<or> validate_folders db org (ka_folders a) (with_unrestricted ms) = Inr ()"
    by (auto simp: validate_assignments_def result_simps split: option.splits if_splits)
  have dist: "distinct (map dim_id (dim_table k (k_dims db)))" for k using assms(2) by (simp add: dims_inv_def numbers_ok_def)
  show "map_option fst (item_view db kind i) = Some org" if "i \<in> set (ka_kind kind a)"
  proof (cases kind)
    case (Dim k)
    then show ?thesis using that nums [THEN assigned_numbers_Inr(1), OF dist] by (cases k) fastforce+
  next
    case Folders
    then show ?thesis using that folders validate_folders_org [OF _ _ assms(3)] by (cases "ka_folders a = []") fastforce+
  qed
  show "\<exists>n ms. org_number org (k_dims db) = Some n \<and> calculate_masks_from_assignments n
      (List.map_filter (\<lambda>i. map_option snd (item_view db (Dim Region) i)) (ka_regions a))
      (List.map_filter (\<lambda>i. map_option snd (item_view db (Dim Department) i)) (ka_departments a))
      (List.map_filter (\<lambda>i. map_option snd (item_view db (Dim Role) i)) (ka_roles a))
      (List.map_filter (\<lambda>i. map_option snd (item_view db (Dim Group) i)) (ka_groups a)) = Inr ms"
    using n ms nums [THEN assigned_numbers_Inr(2), OF dist] by (auto simp del: item_view.simps)
qed

lemma held_items_saved:
  assumes "\<forall>(kind, key', i) \<in> set (k_held db). key' \<noteq> key"
  shows "held_items (save_assignments key a db) kind key = ka_kind kind a"
    and "key' \<noteq> key \<Longrightarrow> held_items (save_assignments key a db) kind key' = held_items db kind key'"
proof -
  have "filter (\<lambda>(k, a, _). k = kind \<and> a = key) (k_held db) = []" using assms by (auto simp: filter_empty_conv)
  moreover have "filter (\<lambda>(k, a', _). k = kind \<and> a' = key) (map (\<lambda>i. (kd, key, i)) xs) = (if kd = kind then map (\<lambda>i. (kd, key, i)) xs else [])"
    for kd xs by (auto simp: filter_empty_conv filter_id_conv)
  moreover have "filter (\<lambda>(k, a', _). k = kind \<and> a' = key') (map (\<lambda>i. (kd, key, i)) xs) = []" if "key' \<noteq> key" for kd key' xs
    using that by (auto simp: filter_empty_conv)
  ultimately show "held_items (save_assignments key a db) kind key = ka_kind kind a"
    and "key' \<noteq> key \<Longrightarrow> held_items (save_assignments key a db) kind key' = held_items db kind key'"
    unfolding held_items_def save_assignments_def ASSIGNMENT_KINDS_def
    by (cases kind; cases "case kind of Dim k \<Rightarrow> k | Folders \<Rightarrow> Region"; simp add: comp_def; fail)+
qed

lemma item_view_saved [simp]: "item_view (save_assignments key a db) kind i = item_view db kind i"
  by (cases kind) (simp_all add: dim_by_id_def folder_by_id_def save_assignments_def)

lemma create_key_Inr:
  assumes "create_key hash new_id token now org name scopes expires created_by assignments db = Inr (db', k, plaintext)"
  shows "ak_id k = new_id" and "ak_org k = org"
    and "is_scoped k \<Longrightarrow> \<exists>a. assignments = Some a \<and> \<not> ka_is_empty a \<and> validate_assignments db org a = Inr ()
      \<and> db' = save_assignments new_id a (db\<lparr>k_keys := k_keys db @ [k]\<rparr>) \<and> check_constraints_now db'"
    and "\<not> is_scoped k \<Longrightarrow> db' = db\<lparr>k_keys := k_keys db @ [k]\<rparr>"
  using assms unfolding create_key_def Let_def generate_key_def is_scoped_def ACCESS_MODE_ORG_def ACCESS_MODE_SCOPED_def
  by (auto simp: result_simps split: if_splits option.splits sum.splits)

lemma keys_inv_mint:
  assumes inv: "keys_inv t db" and fresh: "new_id \<notin> ak_id ` set (k_keys db)"
    and mint: "create_key hash new_id token t org name scopes expires created_by assignments db = Inr (db', k, plaintext)"
  shows "keys_inv t db'"
proof -
  note ck = create_key_Inr [OF mint]
  let ?db1 = "db\<lparr>k_keys := k_keys db @ [k]\<rparr>"
  have dims: "dims_inv (k_dims db)" and folders: "folder_ids_ok (k_folders db)" using inv by (simp_all add: keys_inv_def)
  have unheld: "\<forall>(kind, key', i) \<in> set (k_held ?db1). key' \<noteq> new_id" using inv fresh by (auto simp: keys_inv_def)
  show ?thesis
  proof (cases "is_scoped k")
    case False
    then show ?thesis using inv fresh ck(1) ck(4) by (auto simp: keys_inv_def intro: scope_ok_keys)
  next
    case True
    then obtain a where a: "\<not> ka_is_empty a" "validate_assignments db org a = Inr ()"
      and db': "db' = save_assignments new_id a ?db1" using ck(3) by blast
    note valid = validate_assignments_Inr [OF a(2) dims folders]
    note held = held_items_saved [OF unheld, where a = a]
    have new: "scope_ok db' k"
    proof -
      have "\<exists>kind. ka_kind kind a \<noteq> []" using a(1) by (auto simp: ka_is_empty_def list_all_iff)
      moreover have "held_numbers db' new_id kd = List.map_filter (\<lambda>i. map_option snd (item_view db (Dim kd) i)) (ka_dim kd a)" for kd
        by (simp add: held_numbers_def db' held(1) del: item_view.simps)
      moreover have "k_dims db' = k_dims db" by (simp add: db' save_assignments_def)
      ultimately show ?thesis using valid(2) valid(1)
        by (simp add: scope_ok_def ck(1,2) db' held(1) del: item_view.simps ka_kind.simps)
    qed
    have old: "scope_ok db' k'" if "k' \<in> set (k_keys db)" "scope_ok db k'" for k'
    proof (rule scope_ok_frame [OF that(2)])
      have "ak_id k' \<noteq> new_id" using that(1) fresh by auto
      then show "held_items db' kind (ak_id k') = held_items db kind (ak_id k')" for kind
        unfolding db' using held(2) by simp
      show "item_view db' kind i = item_view db kind i" for kind i by (simp add: db' del: item_view.simps)
      show "d_orgs (k_dims db') = d_orgs (k_dims db)" by (simp add: db' save_assignments_def)
    qed
    have "k_keys db' = k_keys db @ [k]" "k_dims db' = k_dims db" "k_folders db' = k_folders db"
      by (simp_all add: db' save_assignments_def)
    moreover have "key \<in> insert new_id (ak_id ` set (k_keys db))" if "(kind, key, i) \<in> set (k_held db')" for kind key i
      using that inv by (auto simp: db' save_assignments_def keys_inv_def ASSIGNMENT_KINDS_def)
    ultimately show ?thesis using inv fresh new old ck(1) unfolding keys_inv_def by auto
  qed
qed

lemma keys_inv_reachable: "keys_reachable t db \<Longrightarrow> keys_inv t db"
proof (induction rule: keys_reachable.induct)
  case (start db t)
  then show ?case by (simp add: keys_inv_def)
next
  case (tick t db t')
  then show ?case using keys_inv_tick by blast
next
  case (mint t db new_id hash token org name scopes expires created_by assignments db' k plaintext)
  then show ?case using keys_inv_mint by blast
next
  case (used t db hash credentials x_api_key db' p)
  obtain k where "db' = touch_last_used t k db" by (rule require_api_key_Inr [OF used.hyps(2)])
  then show ?case unfolding touch_last_used_def using used.IH by (simp add: keys_inv_upd inactive_def)
next
  case (revoke t db org i db')
  then show ?case unfolding revoke_key_def by (auto simp: keys_inv_upd inactive_def split: option.splits if_splits)
next
  case (new_dimension t db new_id k org name description ds d)
  then show ?case using keys_inv_new_dimension by blast
next
  case (rename_dimension t db k org i name description ds d)
  then show ?case using keys_inv_rename_dimension by blast
next
  case (drop_dimension t db org k i db')
  then show ?case using keys_inv_drop_dimension by blast
next
  case (drop_folder t db org i db')
  then show ?case using keys_inv_drop_folder by blast
qed

text \<open>
  C22. Over minting, use, revoking, the passing of time, new and renamed dimensions and the deletion of dimensions and
  folders, key ids stay distinct and every scoped key that is neither revoked nor expired resolves to its masks: no
  deletion takes from a live key what it was minted with.
\<close>

theorem live_scoped_keys_resolve:
  assumes "keys_reachable t db"
  shows "distinct (map ak_id (k_keys db))
    \<and> (\<forall>k \<in> set (k_keys db). is_scoped k \<and> ak_revoked k = None \<and> \<not> is_expired t k \<longrightarrow> (\<exists>s. resolve_key_scope db k = Inr s))"
proof -
  have inv: "keys_inv t db" using assms by (rule keys_inv_reachable)
  have "\<exists>s. resolve_key_scope db k = Inr s"
    if "k \<in> set (k_keys db)" "is_scoped k" "ak_revoked k = None" "\<not> is_expired t k" for k
    by (rule scope_ok_resolves) (use that inv in \<open>auto simp: keys_inv_def inactive_def is_expired_def split: option.splits\<close>)
  with inv show ?thesis by (auto simp: keys_inv_def)
qed

subsection \<open>A scoped key for one region and one folder\<close>

definition before_mint :: kdb where
  "before_mint = \<lparr>k_dims = two_regions, k_folders = restricted, k_docs = [], k_members = [], k_site_admins = [], k_keys = [], k_held = []\<rparr>"

definition robot :: api_key where
  "robot = \<lparr>ak_id = ''k1'', ak_org = ''o1'', ak_name = ''Robot'', ak_prefix = ''km2_s3cr3t'', ak_hash = ''km2_s3cr3t'',
     ak_scopes = [''search:read'', ''agents:run''], ak_created_by = None, ak_mode = ACCESS_MODE_SCOPED,
     ak_last_used = None, ak_expires = Some 1000, ak_revoked = None\<rparr>"

definition with_robot :: kdb where
  "with_robot = before_mint\<lparr>k_keys := [robot], k_held := [(Dim Region, ''k1'', ''South''), (Folders, ''k1'', ''b'')]\<rparr>"

lemma mint_robot:
  "create_key (\<lambda>s. s) ''k1'' ''s3cr3t'' 100 ''o1'' '' Robot '' [''agents:run'', ''search:read''] (Some 1000) None
     (Some (assignments_of [''South'', ''South''] [] [] [] [''b''])) before_mint = Inr (with_robot, robot, ''km2_s3cr3t'')"
  by code_simp

lemma with_robot_reachable: "keys_reachable 100 with_robot"
proof (rule keys_reachable.mint [OF _ _ mint_robot])
  have "folder_ids_ok restricted" unfolding restricted_eq by (simp add: folder_ids_ok_def abc_folder_def abc_a_def)
  then show "keys_reachable 100 before_mint"
    using dims_inv_reachable [OF two_regions_reachable] by (intro keys_reachable.start) (simp_all add: before_mint_def)
qed (simp add: before_mint_def)

theorem live_scoped_keys_resolve_witness:
  "\<exists>s. resolve_key_scope with_robot robot = Inr s"
proof -
  have "robot \<in> set (k_keys with_robot)" "is_scoped robot" "ak_revoked robot = None" "\<not> is_expired 100 robot"
    by (simp_all add: with_robot_def robot_def is_scoped_def is_expired_def)
  then show ?thesis using live_scoped_keys_resolve [OF with_robot_reachable] by blast
qed

lemma with_robot_ids: "folder_ids_ok (k_folders with_robot)"
  by (simp add: with_robot_def before_mint_def restricted_eq folder_ids_ok_def abc_folder_def abc_a_def)

theorem scoped_key_confined_witness:
  "\<exists>db' p ms. require_api_key (\<lambda>s. s) 200 None (Some ''km2_s3cr3t'') with_robot = Inr (db', p)
    \<and> api_key_access_keys p = Inr (Some ms) \<and> key_masks with_robot robot ms
    \<and> (\<exists>ids. pr_folders p = Some ids \<and> (\<forall>i. i \<in> set ids \<longleftrightarrow> key_reads_folder with_robot robot ms i))"
proof -
  have "\<not> isl (require_api_key (\<lambda>s. s) 200 None (Some ''km2_s3cr3t'') with_robot)" by code_simp
  then obtain r where "require_api_key (\<lambda>s. s) 200 None (Some ''km2_s3cr3t'') with_robot = Inr r" by (metis sum.collapse(2))
  then obtain db' p where ok: "require_api_key (\<lambda>s. s) 200 None (Some ''km2_s3cr3t'') with_robot = Inr (db', p)"
    by (cases r) auto
  have robot: "set (k_keys with_robot) = {robot}" by (simp add: with_robot_def)
  have "is_scoped robot" by (simp add: robot_def is_scoped_def)
  moreover have "held_items with_robot Folders (ak_id robot) \<noteq> []" by code_simp
  ultimately have "\<exists>ms. api_key_access_keys p = Inr (Some ms) \<and> key_masks with_robot robot ms
      \<and> (\<exists>ids. pr_folders p = Some ids \<and> (\<forall>i. i \<in> set ids \<longleftrightarrow> key_reads_folder with_robot robot ms i))"
    using scoped_key_confined [OF ok with_robot_ids] unfolding robot by auto
  then show ?thesis using ok by blast
qed

theorem scoped_key_reads_as_member_witness:
  "\<exists>s. resolve_key_scope with_robot robot = Inr s
    \<and> resolve_user_access_keys with_robot False ''o1'' (in_region (region_row ''South'' 2)) = Inr (Some (ks_masks s))"
proof -
  have "\<not> isl (resolve_key_scope with_robot robot)" by code_simp
  then obtain s where s: "resolve_key_scope with_robot robot = Inr s" by (metis sum.collapse(2))
  have "held kd (in_region (region_row ''South'' 2)) =
      List.map_filter (dim_by_id with_robot kd) (held_items with_robot (Dim kd) (ak_id robot))" for kd
    by (cases kd; simp only:; code_simp)
  from scoped_key_reads_as_member [OF s this] s show ?thesis by (simp add: robot_def)
qed

theorem revoked_key_stops_witness:
  "\<exists>db'. revoke_key 150 ''o1'' ''k1'' with_robot = Inr db'
    \<and> require_api_key (\<lambda>s. s) 200 None (Some ''km2_s3cr3t'') db' = Inl Unauthorized"
proof -
  let ?db = "with_robot\<lparr>k_keys := [robot\<lparr>ak_revoked := Some 150\<rparr>]\<rparr>"
  have rev: "revoke_key 150 ''o1'' (ak_id robot) with_robot = Inr ?db" by code_simp
  have key: "robot \<in> set (k_keys with_robot)" "ak_org robot = ''o1''" "distinct (map ak_id (k_keys with_robot))"
    "distinct (map ak_hash (k_keys with_robot))"
    by (simp_all add: with_robot_def) (simp add: robot_def)
  have pres: "presented_key None (Some ''km2_s3cr3t'') = Some ''km2_s3cr3t''" by code_simp
  let ?ctx = "\<lparr>rc_via_key = True, rc_key = Some (ak_id robot), rc_org = ''o1''\<rparr>"
  have "require_api_key (\<lambda>s. s) 200 None (Some ''km2_s3cr3t'') ?db = Inl Unauthorized"
    using revoked_key_stops [OF rev key pres, of "\<lambda>s. s" ?ctx 200] by (simp add: robot_def)
  then show ?thesis using rev by (simp add: robot_def)
qed

theorem key_run_tools_witness:
  "scoped_key_refusal 200 \<lparr>rc_via_key = True, rc_key = Some ''k1'', rc_org = ''o1''\<rparr> ''search_knowledge'' with_robot = None
   \<and> scoped_key_refusal 200 \<lparr>rc_via_key = True, rc_key = Some ''k1'', rc_org = ''o1''\<rparr> ''update_record'' with_robot \<noteq> None"
proof -
  let ?ctx = "\<lparr>rc_via_key = True, rc_key = Some ''k1'', rc_org = ''o1''\<rparr>"
  have "scoped_key_refusal 200 ?ctx ''search_knowledge'' with_robot = None" by code_simp
  moreover have "scoped_key_refusal 200 ?ctx ''update_record'' with_robot \<noteq> None"
  proof
    assume "scoped_key_refusal 200 ?ctx ''update_record'' with_robot = None"
    from key_run_tools [OF _ this] have "is_scoped robot \<longrightarrow> ''update_record'' \<in> set SCOPED_KEY_RUN_TOOLS"
      by (auto simp: with_robot_def)
    then show False by (simp add: is_scoped_def robot_def SCOPED_KEY_RUN_TOOLS_def)
  qed
  ultimately show ?thesis by blast
qed

end
