(* ===== verification/Knowledge_Props.thy ===== *)
theory Knowledge_Props
  imports Knowledge_Write Api_Key_Props
begin

section \<open>Properties of the documents and of writing them\<close>

text \<open>
  The list of documents of a scoped key and the gate for one document agree. A write changes only the document it
  names or creates one, in a folder the key may add to; what it enqueues carries the effective masks of the
  folder or the document's own; external refs stay unique in a folder; sending the same document again changes nothing.
\<close>

subsection \<open>Listing and reading agree\<close>

lemma kdoc_visible_Some:
  "kdoc_visible org d (Some ms) tab \<longleftrightarrow> (\<exists>i f. do_folder d = Some i \<and> folder_get org i tab = Some f
     \<and> folder_visible org f (Some ms) tab \<and> doc_masks_pass (Some ms) d)"
  by (auto simp: kdoc_visible_def document.truncate_def document_visible_def doc_masks_pass_def overlaps_def split: option.splits)

lemma folder_get_unique:
  "folder_ids_ok tab \<Longrightarrow> f \<in> set tab \<Longrightarrow> fo_org f = org \<Longrightarrow> fo_id f = i \<Longrightarrow> folder_get org i tab = Some f"
  unfolding folder_get_def folder_ids_ok_def by (rule find_only) (auto dest: distinct_map_eq)

lemma folder_get_row: "folder_get org i tab = Some f \<Longrightarrow> f \<in> set tab \<and> fo_org f = org \<and> fo_id f = i"
  unfolding folder_get_def by (drule find_SomeD) auto

lemma set_visible_folder_ids:
  assumes "folder_ids_ok tab"
  shows "i \<in> set (visible_folder_ids org masks tab) \<longleftrightarrow> (\<exists>f. folder_get org i tab = Some f \<and> folder_visible org f masks tab)"
proof
  assume "i \<in> set (visible_folder_ids org masks tab)"
  then obtain f where "f \<in> set (fst (list_visible_to_masks org masks None None tab))" "fo_id f = i"
    by (auto simp: visible_folder_ids_def)
  then show "\<exists>f. folder_get org i tab = Some f \<and> folder_visible org f masks tab"
    using folder_get_unique [OF assms] unfolding list_visible_iff [OF assms] by blast
next
  assume "\<exists>f. folder_get org i tab = Some f \<and> folder_visible org f masks tab"
  then obtain f where f: "folder_get org i tab = Some f" "folder_visible org f masks tab" by blast
  then have "f \<in> set (fst (list_visible_to_masks org masks None None tab))" "fo_id f = i"
    using folder_get_row [OF f(1)] unfolding list_visible_iff [OF assms] by simp_all
  then show "i \<in> set (visible_folder_ids org masks tab)" unfolding visible_folder_ids_def by auto
qed

lemma doc_get_unique:
  assumes "distinct (map do_id docs)" and "d \<in> set docs"
  shows "doc_get org (do_id d) docs = Inr (if do_org d = org then Some d else None)"
proof -
  have "filter (\<lambda>r. do_id r = do_id d \<and> do_org r = org) docs = filter (\<lambda>r. do_org r = org) (filter (\<lambda>r. do_id r = do_id d) docs)"
    by (simp add: conj_commute)
  then show ?thesis by (simp add: doc_get_def filter_distinct_map [OF assms])
qed

lemma in_folders_visible: "in_folders (Some ids) False d \<longleftrightarrow> (\<exists>i \<in> set ids. do_folder d = Some i)"
  by (auto simp: in_folders_def split: option.splits)

lemma set_list_for_folders:
  "length docs \<le> maxn \<Longrightarrow> set (fst (list_for_folders org ids unfiled 0 maxn ms docs)) =
     {d \<in> set docs. do_org d = org \<and> in_folders ids unfiled d \<and> doc_masks_pass ms d}"
  by (auto simp: list_for_folders_def Let_def le_trans [OF length_filter_le])

lemma load_document_iff:
  assumes "api_key_access_keys p = Inr (Some ms)" and "distinct (map do_id docs)" and "d \<in> set docs"
  shows "load_document db p (do_id d) docs = Inr d \<longleftrightarrow> do_org d = pr_org p
    \<and> \<not> outside_folders (pr_folders p) (do_folder d) \<and> kdoc_visible (pr_org p) d (Some ms) (k_folders db)"
  by (auto simp: load_document_def doc_get_unique [OF assms(2,3)] assms(1))

text \<open>What authentication ensures of a principal: no masks and no folders, or masks that see all folders of its list.\<close>

lemma authenticated_principal:
  assumes "require_api_key hash now credentials x_api_key db = Inr (db', p)" and "folder_ids_ok (k_folders db)"
  shows "api_key_access_keys p = Inr None \<and> pr_folders p = None
    \<or> (\<exists>ms. api_key_access_keys p = Inr (Some ms) \<and> (\<forall>ids. pr_folders p = Some ids \<longrightarrow> (\<forall>i \<in> set ids.
          \<exists>f \<in> set (k_folders db). fo_org f = pr_org p \<and> fo_id f = i \<and> folder_visible (pr_org p) f (Some ms) (k_folders db))))"
    and "k_folders db' = k_folders db"
proof -
  obtain k where p: "principal_of db k = Inr p" and db': "db' = touch_last_used now k db"
    by (metis require_api_key_Inr [OF assms(1)])
  show "k_folders db' = k_folders db" by (simp add: db' touch_last_used_def)
  note pr = principal_of_Inr [OF p]
  show "api_key_access_keys p = Inr None \<and> pr_folders p = None
    \<or> (\<exists>ms. api_key_access_keys p = Inr (Some ms) \<and> (\<forall>ids. pr_folders p = Some ids \<longrightarrow> (\<forall>i \<in> set ids.
          \<exists>f \<in> set (k_folders db). fo_org f = pr_org p \<and> fo_id f = i \<and> folder_visible (pr_org p) f (Some ms) (k_folders db))))"
  proof (cases "is_scoped k")
    case True
    then obtain sc where sc: "resolve_key_scope db k = Inr sc" "pr_masks p = Some (ks_masks sc)" "pr_folders p = ks_folders sc"
      using pr(5) by blast
    note conf = resolved_scope_confined [OF sc(1) assms(2)]
    have "api_key_access_keys p = Inr (Some (ks_masks sc))"
      using True conf(1) sc(2) pr(4) by (simp add: api_key_access_keys_def split: list.split)
    then show ?thesis using conf(3) sc(3) pr(2) by auto
  next
    case False
    then show ?thesis using pr by (simp add: api_key_access_keys_def)
  qed
qed

lemma set_listed:
  "set (fst (list_for_folders org ids unfiled 0 (length docs) ms docs)) =
     {d \<in> set docs. do_org d = org \<and> in_folders ids unfiled d \<and> doc_masks_pass ms d}"
  by (rule set_list_for_folders) simp

text \<open>The list of an organization key.\<close>

lemma org_key_lists:
  assumes "api_key_access_keys p = Inr None" "pr_folders p = None" "distinct (map do_id docs)" "d \<in> set docs"
  shows "case v1_list_documents db p 0 (length docs) folder docs of
      Inr (ds, n) \<Rightarrow> d \<in> set ds \<longleftrightarrow> load_document db p (do_id d) docs = Inr d \<and> (folder = None \<or> do_folder d = folder)
    | Inl e \<Rightarrow> False"
proof -
  have opens: "load_document db p (do_id d) docs = Inr d \<longleftrightarrow> do_org d = pr_org p"
    by (simp add: load_document_def doc_get_unique [OF assms(3,4)] assms(1,2) outside_folders_def kdoc_visible_def document_visible_def)
  have list: "v1_list_documents db p 0 (length docs) folder docs =
      Inr (list_for_folders (pr_org p) (map_option (\<lambda>i. [i]) folder) (folder = None) 0 (length docs) None docs)"
    by (simp add: v1_list_documents_def assms(1))
  have "in_folders (map_option (\<lambda>i. [i]) folder) (folder = None) d \<longleftrightarrow> folder = None \<or> do_folder d = folder"
    by (cases folder; cases "do_folder d") (auto simp: in_folders_def)
  then have "d \<in> set (fst (list_for_folders (pr_org p) (map_option (\<lambda>i. [i]) folder) (folder = None) 0 (length docs) None docs)) \<longleftrightarrow>
      do_org d = pr_org p \<and> (folder = None \<or> do_folder d = folder)"
    unfolding set_listed using assms(4) by (simp add: doc_masks_pass_def)
  then show ?thesis unfolding list opens by (simp add: case_prod_beta)
qed

text \<open>
  C26. What a key can list is what it can open. For every key that authenticates, in the list of all documents and in the list of any
  one folder: a document is in the list exactly when the gate for one document lets it through and it lies in the folder asked for.
  A list is refused, with 404, only for a folder of which the key can open no document.
\<close>

theorem key_lists_what_it_reads:
  assumes auth: "require_api_key hash now credentials x_api_key db = Inr (db', p)" and ok: "folder_ids_ok (k_folders db)"
    and ids: "distinct (map do_id docs)" and d: "d \<in> set docs"
  shows "case v1_list_documents db' p 0 (length docs) folder docs of
      Inr (ds, n) \<Rightarrow> d \<in> set ds \<longleftrightarrow> load_document db' p (do_id d) docs = Inr d \<and> (folder = None \<or> do_folder d = folder)
    | Inl e \<Rightarrow> e = DocHttp 404 \<and> folder \<noteq> None \<and> (do_folder d = folder \<longrightarrow> load_document db' p (do_id d) docs \<noteq> Inr d)"
  using authenticated_principal(1) [OF auth ok]
proof (elim disjE conjE exE)
  assume "api_key_access_keys p = Inr None" "pr_folders p = None"
  from org_key_lists [OF this ids d, of db' folder] show ?thesis by (auto split: sum.splits)
next
  fix ms
  let ?tab = "k_folders db" and ?org = "pr_org p"
  let ?visible = "case pr_folders p of Some ids \<Rightarrow> sort ids | None \<Rightarrow> visible_folder_ids ?org (Some ms) ?tab"
  assume masks: "api_key_access_keys p = Inr (Some ms)" and seen: "\<forall>ids. pr_folders p = Some ids \<longrightarrow> (\<forall>i \<in> set ids.
      \<exists>f \<in> set ?tab. fo_org f = ?org \<and> fo_id f = i \<and> folder_visible ?org f (Some ms) ?tab)"
  have tab: "k_folders db' = ?tab" by (rule authenticated_principal(2) [OF auth ok])
  have vis: "i \<in> set ?visible \<longleftrightarrow> \<not> outside_folders (pr_folders p) (Some i) \<and>
      (\<exists>f. folder_get ?org i ?tab = Some f \<and> folder_visible ?org f (Some ms) ?tab)" for i
  proof (cases "pr_folders p")
    case None
    then show ?thesis by (simp add: set_visible_folder_ids [OF ok] outside_folders_def)
  next
    case (Some ids)
    have "i \<in> set ids \<Longrightarrow> \<exists>f. folder_get ?org i ?tab = Some f \<and> folder_visible ?org f (Some ms) ?tab"
      using seen Some folder_get_unique [OF ok] by blast
    with Some show ?thesis by (auto simp: outside_folders_def)
  qed
  have opens: "load_document db' p (do_id d) docs = Inr d \<longleftrightarrow>
      do_org d = ?org \<and> (\<exists>i \<in> set ?visible. do_folder d = Some i) \<and> doc_masks_pass (Some ms) d"
    unfolding load_document_iff [OF masks ids d] kdoc_visible_Some tab using vis by (cases "do_folder d") auto
  have listed: "d \<in> set (fst (list_for_folders ?org (Some is) False 0 (length docs) (Some ms) docs)) \<longleftrightarrow>
      do_org d = ?org \<and> (\<exists>i \<in> set is. do_folder d = Some i) \<and> doc_masks_pass (Some ms) d" for "is"
    unfolding set_listed in_folders_visible using d by auto
  show ?thesis
  proof (cases folder)
    case None
    have "v1_list_documents db' p 0 (length docs) None docs = Inr (if ?visible = [] then ([], 0)
        else list_for_folders ?org (Some ?visible) False 0 (length docs) (Some ms) docs)"
      unfolding v1_list_documents_def masks tab by (simp add: Let_def)
    then show ?thesis using None opens listed [of ?visible] by (auto split: prod.splits if_splits)
  next
    case (Some i)
    have "v1_list_documents db' p 0 (length docs) (Some i) docs = (if i \<notin> set ?visible then Inl (DocHttp 404)
        else Inr (list_for_folders ?org (Some [i]) False 0 (length docs) (Some ms) docs))"
      unfolding v1_list_documents_def masks tab by (simp add: Let_def)
    then show ?thesis using Some opens listed [of "[i]"] by (auto split: prod.splits if_splits)
  qed
qed

subsection \<open>What a write touches\<close>

text \<open>Rows changed in place: only the rows with one id change, and they keep the columns that place them.\<close>

definition same_place :: "kdoc \<Rightarrow> kdoc \<Rightarrow> bool" where
  "same_place r r' \<longleftrightarrow> do_id r' = do_id r \<and> do_org r' = do_org r \<and> do_folder r' = do_folder r \<and> do_key r' = do_key r
     \<and> kd_ref r' = kd_ref r \<and> do_viewer r' = do_viewer r \<and> do_view_masks r' = do_view_masks r
     \<and> kd_contributor r' = kd_contributor r \<and> kd_contrib_masks r' = kd_contrib_masks r"

definition touches :: "uuid \<Rightarrow> kdoc list \<Rightarrow> kdoc list \<Rightarrow> bool" where
  "touches i docs docs' \<longleftrightarrow> (\<exists>h. docs' = map h docs \<and> (\<forall>r \<in> set docs. do_id r \<noteq> i \<longrightarrow> h r = r) \<and> (\<forall>r \<in> set docs. same_place r (h r)))"

lemma same_place_refl [simp]: "same_place r r"
  by (simp add: same_place_def)

lemma same_place_trans: "same_place a b \<Longrightarrow> same_place b c \<Longrightarrow> same_place a c"
  by (simp add: same_place_def)

lemma touches_refl [simp]: "touches i docs docs"
  unfolding touches_def by (rule exI [of _ "\<lambda>r. r"]) simp

lemma touches_trans:
  assumes "touches i xs ys" and "touches i ys zs"
  shows "touches i xs zs"
proof -
  from assms obtain h g where h: "ys = map h xs" "\<forall>r \<in> set xs. do_id r \<noteq> i \<longrightarrow> h r = r" "\<forall>r \<in> set xs. same_place r (h r)"
    and g: "zs = map g ys" "\<forall>r \<in> set ys. do_id r \<noteq> i \<longrightarrow> g r = r" "\<forall>r \<in> set ys. same_place r (g r)"
    unfolding touches_def by blast
  have "\<forall>r \<in> set xs. do_id r \<noteq> i \<longrightarrow> g (h r) = r" using h g(2) by (auto simp: same_place_def)
  moreover have "\<forall>r \<in> set xs. same_place r (g (h r))"
  proof
    fix r assume r: "r \<in> set xs"
    have "same_place r (h r)" "same_place (h r) (g (h r))" using r h(1,3) g(3) by simp_all
    then show "same_place r (g (h r))" by (rule same_place_trans)
  qed
  ultimately show ?thesis unfolding touches_def by (intro exI [of _ "\<lambda>r. g (h r)"]) (simp add: h(1) g(1))
qed

lemma touches_upd_where:
  assumes "\<And>r. same_place r (f r)"
  shows "touches i docs (upd_where (\<lambda>r. do_id r = i) f docs)"
  unfolding touches_def upd_where_def using assms by (intro exI [of _ "\<lambda>r. if do_id r = i then f r else r"]) auto

lemma touches_put_doc:
  assumes "distinct (map do_id docs)" and "d \<in> set docs" and "same_place d d'"
  shows "touches (do_id d) docs (put_doc now d' docs)"
proof -
  have id: "do_id d' = do_id d" using assms(3) by (simp add: same_place_def)
  have "same_place r (if r = d' then r else d'\<lparr>kd_updated := Some now\<rparr>)" if "r \<in> set docs" "do_id r = do_id d" for r
  proof -
    have r: "r = d" using distinct_map_eq [OF assms(1,2) that] .
    have "same_place d (d'\<lparr>kd_updated := Some now\<rparr>)"
      by (rule same_place_trans [OF assms(3)]) (simp add: same_place_def)
    then show ?thesis unfolding r using assms(3) by (cases "d = d'") simp_all
  qed
  then show ?thesis unfolding touches_def put_doc_def id
    by (intro exI [of _ "\<lambda>r. if do_id r = do_id d then (if r = d' then r else d'\<lparr>kd_updated := Some now\<rparr>) else r"]) auto
qed

lemma dispatch_touches:
  assumes "dispatch_doc e org d tags ak s = (s', r)"
  shows "touches (do_id d) (ks_docs s) (ks_docs s')" and "ks_tab s' = ks_tab s" and "ks_objects s' = ks_objects s"
    and "ks_tasks s' = ks_tasks s @ (case we_task e of None \<Rightarrow> [] | Some t \<Rightarrow> [task_for org d tags ak t])"
  using assms touches_upd_where [where i = "do_id d" and docs = "ks_docs s"]
  by (auto simp: dispatch_doc_def mark_enqueue_failed_def persist_task_id_def Let_def same_place_def split: option.splits if_splits)

lemma discard_simps [simp]:
  "ks_docs (discard e k s) = ks_docs s" "ks_tab (discard e k s) = ks_tab s" "ks_tasks (discard e k s) = ks_tasks s"
  by (auto simp: discard_def split: option.splits)

lemma store_object_Inr:
  "store_object e key data s = Inr s' \<Longrightarrow> s' = s\<lparr>ks_objects := dset (ks_objects s) key (di_content data, content_type_of data)\<rparr>"
  by (simp add: store_object_def split: if_splits)

lemma same_place_requeued [simp]: "same_place d (requeued e d data new stored)"
  by (simp add: requeued_def with_fields_def Let_def same_place_def)

lemma same_place_with_fields [simp]: "same_place d (with_fields d data)"
  by (simp add: with_fields_def same_place_def)

lemma requeue_touches:
  assumes "requeue e org d data new s = (s', r)" and "distinct (map do_id (ks_docs s))" and "d \<in> set (ks_docs s)"
  shows "touches (do_id d) (ks_docs s) (ks_docs s')"
proof -
  let ?key = "object_key org (do_key d) data (we_hash e (di_content data)) True"
  let ?stored = "if new \<and> di_filename data \<noteq> None then Some ?key else None"
  let ?s0 = "s\<lparr>ks_index := filter (\<lambda>k. k \<noteq> do_key d) (ks_index s)\<rparr>"
  obtain tags ak where sc: "scoping org d (ks_tab s) = (tags, ak)" by (cases "scoping org d (ks_tab s)")
  show ?thesis
  proof (cases "we_purge e \<and> (?stored = None \<or> we_put e)")
    case False
    then have "ks_docs s' = ks_docs s" using assms(1)
      by (auto simp: requeue_def sc store_object_def split: if_splits)
    then show ?thesis by simp
  next
    case True
    then obtain s1 where s1: "(if ?stored = None then Inr ?s0 else store_object e ?key data ?s0) = Inr s1" "ks_docs s1 = ks_docs s"
      by (auto simp: store_object_def split: if_splits)
    let ?d' = "requeued e d data new ?stored"
    let ?s2 = "s1\<lparr>ks_docs := put_doc (we_now e) ?d' (ks_docs s1)\<rparr>"
    let ?s3 = "if new \<and> kd_url d \<noteq> None \<and> kd_url d \<noteq> kd_url ?d' then discard e (kd_url d) ?s2 else ?s2"
    have disp: "dispatch_doc e org ?d' tags ak ?s3 = (s', r)"
      using assms(1) True unfolding requeue_def sc Let_def prod.case s1(1) by simp
    have id: "do_id ?d' = do_id d" using same_place_requeued [of d e data new ?stored] by (simp add: same_place_def)
    have "ks_docs ?s3 = put_doc (we_now e) ?d' (ks_docs s)" by (simp add: s1(2))
    then have "touches (do_id d) (put_doc (we_now e) ?d' (ks_docs s)) (ks_docs s')"
      using dispatch_touches(1) [OF disp] unfolding id by simp
    moreover have "touches (do_id d) (ks_docs s) (put_doc (we_now e) ?d' (ks_docs s))"
      by (rule touches_put_doc [OF assms(2,3)]) simp
    ultimately show ?thesis using touches_trans by blast
  qed
qed

lemma replace_touches:
  assumes "replace_doc e p masks d data s = (s', r)" and "distinct (map do_id (ks_docs s))" and "d \<in> set (ks_docs s)"
  shows "touches (do_id d) (ks_docs s) (ks_docs s')"
proof -
  have meta: "touches (do_id d) (ks_docs s) (ks_docs s'')" if "update_metadata_only e (pr_org p) d data s = (s'', d'')" for s'' d''
    using that touches_put_doc [OF assms(2,3) same_place_with_fields]
    by (auto simp: update_metadata_only_def Let_def split: prod.splits if_splits)
  show ?thesis
    using assms(1) requeue_touches [OF _ assms(2,3)] meta
    by (fastforce simp: replace_doc_def Let_def split: if_splits prod.splits)
qed

lemma create_doc_cases:
  assumes "create_doc e p f data s = (s', r)"
  obtains (refused) "ks_docs s' = ks_docs s \<or> ks_docs s' = ks_docs s @ we_others e" and "ks_tasks s' = ks_tasks s" and "isl r"
  | (made) d s3 r' where "d = (new_doc e (pr_org p) f data)\<lparr>kd_url := (if di_filename data = None then None
          else Some (object_key (pr_org p) (we_key e) data (we_hash e (di_content data)) False))\<rparr>"
      and "\<not> ref_taken d (ks_docs s @ we_others e)" and "ks_docs s3 = ks_docs s @ we_others e @ [d]"
      and "ks_tab s3 = ks_tab s" and "ks_tasks s3 = ks_tasks s"
      and "dispatch_doc e (pr_org p) d (index_tags [] (Some (fo_id f))) (effective_view_masks (pr_org p) (Some f) (ks_tab s)) s3 = (s', r')"
      and "r = bind_res r' (\<lambda>d'. Inr (Created, d'))"
proof -
  let ?org = "pr_org p" and ?docs = "ks_docs s @ we_others e"
  let ?key = "object_key ?org (we_key e) data (we_hash e (di_content data)) False"
  let ?stored = "if di_filename data = None then None else Some ?key"
  let ?d = "(new_doc e ?org f data)\<lparr>kd_url := ?stored\<rparr>"
  have key: "do_key (new_doc e ?org f data) = we_key e" by (simp add: new_doc_def)
  note step = assms [unfolded create_doc_def Let_def key]
  show ?thesis
  proof (cases "if ?stored = None then Inr s else store_object e ?key data s")
    case (Inl er)
    show ?thesis using step [unfolded Inl sum.case] by (intro refused) auto
  next
    case (Inr s1)
    then have s1: "ks_docs s1 = ks_docs s" "ks_tab s1 = ks_tab s" "ks_tasks s1 = ks_tasks s"
      by (auto dest: store_object_Inr split: if_splits)
    let ?s2 = "s1\<lparr>ks_docs := ?docs\<rparr>"
    note step = step [unfolded Inr sum.case s1]
    show ?thesis
    proof (cases "key_taken ?d ?docs \<or> ref_taken ?d ?docs")
      case True
      then have "s' = discard e ?stored ?s2 \<and> isl r"
        using step by (cases "key_taken ?d ?docs") auto
      then show ?thesis using s1 by (intro refused) simp_all
    next
      case False
      let ?s3 = "?s2\<lparr>ks_docs := ?docs @ [?d]\<rparr>"
      obtain s4 r' where disp: "dispatch_doc e ?org ?d (index_tags [] (Some (fo_id f))) (effective_view_masks ?org (Some f) (ks_tab s)) ?s3 = (s4, r')"
        by (cases "dispatch_doc e ?org ?d (index_tags [] (Some (fo_id f))) (effective_view_masks ?org (Some f) (ks_tab s)) ?s3")
      have "(s', r) = (s4, bind_res r' (\<lambda>d'. Inr (Created, d')))"
        using disp step False by simp
      with disp show ?thesis using False s1 by (intro made [of ?d ?s3 r']) simp_all
    qed
  qed
qed

lemma authorised_folder_Inr:
  assumes "authorised_folder p masks i tab = Inr f"
  shows "\<not> outside_folders (pr_folders p) (Some i)" and "folder_get (pr_org p) i tab = Some f" and "fo_id f = i"
    and "folder_visible (pr_org p) f masks tab" and "can_add_to_folder (pr_org p) f masks tab"
  using assms folder_get_row by (auto simp: authorised_folder_def split: if_splits option.splits)

lemma get_by_external_ref_Some:
  "get_by_external_ref org i ref docs = Inr (Some d) \<Longrightarrow> d \<in> set docs \<and> do_org d = org \<and> do_folder d = Some i \<and> kd_ref d = Some ref"
  unfolding get_by_external_ref_def scalar_one_or_none_Some filter_eq_Cons_iff by auto

lemma upsert_cases:
  assumes "upsert e p data s = (s', r)"
  obtains (refused) "s' = s" and "isl r"
  | (create) masks f where "api_key_access_keys p = Inr masks" and "authorised_folder p masks (di_folder data) (ks_tab s) = Inr f"
      and "create_doc e p f data s = (s', r)" and "di_ref data = None \<or> di_ref data = Some [] \<or>
        (\<exists>ref. di_ref data = Some ref \<and> get_by_external_ref (pr_org p) (fo_id f) ref (ks_docs s) = Inr None)"
  | (replace) masks f ref d where "api_key_access_keys p = Inr masks" and "authorised_folder p masks (di_folder data) (ks_tab s) = Inr f"
      and "di_ref data = Some ref" and "ref \<noteq> []" and "get_by_external_ref (pr_org p) (fo_id f) ref (ks_docs s) = Inr (Some d)"
      and "replace_doc e p masks d data s = (s', r)"
proof (cases "api_key_access_keys p")
  case (Inl er)
  then show ?thesis using assms by (intro refused) (auto simp: upsert_def)
next
  case (Inr masks)
  note masks = Inr
  show ?thesis
  proof (cases "authorised_folder p masks (di_folder data) (ks_tab s)")
    case (Inl er)
    then show ?thesis using assms masks by (intro refused) (auto simp: upsert_def)
  next
    case (Inr f)
    note up = assms [unfolded upsert_def masks sum.case Inr]
    show ?thesis
    proof (cases "di_ref data = None \<or> di_ref data = Some []")
      case True
      then have "create_doc e p f data s = (s', r)" using up by auto
      then show ?thesis using True by (intro create [OF masks Inr]) auto
    next
      case False
      then obtain ref where ref: "di_ref data = Some ref" "ref \<noteq> []" by auto
      show ?thesis
      proof (cases "get_by_external_ref (pr_org p) (fo_id f) ref (ks_docs s)")
        case (Inl er)
        then show ?thesis using up ref by (intro refused) auto
      next
        case (Inr found)
        then show ?thesis
        proof (cases found)
          case None
          then show ?thesis using up ref Inr by (intro create [OF masks \<open>authorised_folder _ _ _ _ = _\<close>]) simp_all
        next
          case (Some d)
          then show ?thesis using up ref Inr by (intro replace [OF masks \<open>authorised_folder _ _ _ _ = _\<close> ref]) simp_all
        qed
      qed
    qed
  qed
qed

lemma touches_elem: "touches i docs docs' \<Longrightarrow> d \<in> set docs \<Longrightarrow> do_id d \<noteq> i \<Longrightarrow> d \<in> set docs'"
  unfolding touches_def by force

lemma touches_elem_back:
  "touches i docs docs' \<Longrightarrow> d' \<in> set docs' \<Longrightarrow> d' \<in> set docs \<or> (\<exists>d \<in> set docs. do_id d = i \<and> same_place d d')"
  unfolding touches_def by force

text \<open>
  C23. A write touches at most one document: rows of other organizations, other folders or other refs stay as they are,
  and every row that is new or changed lies in the requested folder with the requested ref, a folder the key sees, may add to,
  and that is not outside the folders of the key.
\<close>

theorem write_touches_one_document:
  assumes "upsert e p data s = (s', r)" and "distinct (map do_id (ks_docs s))" and "we_id e \<notin> do_id ` set (ks_docs s @ we_others e)"
  shows "(\<forall>d \<in> set (ks_docs s). do_org d \<noteq> pr_org p \<or> do_folder d \<noteq> Some (di_folder data) \<or> kd_ref d \<noteq> di_ref data \<longrightarrow> d \<in> set (ks_docs s'))
    \<and> (\<forall>d' \<in> set (ks_docs s'). d' \<in> set (ks_docs s @ we_others e) \<or>
        do_org d' = pr_org p \<and> do_folder d' = Some (di_folder data) \<and> kd_ref d' = di_ref data
        \<and> (\<exists>masks f. api_key_access_keys p = Inr masks \<and> folder_get (pr_org p) (di_folder data) (ks_tab s) = Some f
            \<and> folder_visible (pr_org p) f masks (ks_tab s) \<and> can_add_to_folder (pr_org p) f masks (ks_tab s)
            \<and> \<not> outside_folders (pr_folders p) (Some (di_folder data))))"
  using assms(1)
proof (cases rule: upsert_cases)
  case refused
  then show ?thesis by simp
next
  case (create masks f)
  note auth = authorised_folder_Inr [OF create(2)]
  from create(3) show ?thesis
  proof (cases rule: create_doc_cases)
    case refused
    then show ?thesis by auto
  next
    case (made d s3 r')
    have d: "do_id d = we_id e" "do_org d = pr_org p" "do_folder d = Some (di_folder data)" "kd_ref d = di_ref data"
      using auth(3) by (simp_all add: made(1) new_doc_def)
    have t: "touches (we_id e) (ks_docs s @ we_others e @ [d]) (ks_docs s')"
      using dispatch_touches(1) [OF made(6)] made(3) d(1) by simp
    have "x \<in> set (ks_docs s')" if "x \<in> set (ks_docs s)" for x
      using touches_elem [OF t, of x] that assms(3) by (metis UnI1 image_eqI set_append)
    moreover have "x \<in> set (ks_docs s @ we_others e) \<or> same_place d x" if x: "x \<in> set (ks_docs s')" for x
      using touches_elem_back [OF t x]
    proof
      assume "\<exists>y \<in> set (ks_docs s @ we_others e @ [d]). do_id y = we_id e \<and> same_place y x"
      then obtain y where y: "y \<in> set (ks_docs s @ we_others e @ [d])" "do_id y = we_id e" "same_place y x" by blast
      then have "y = d" using assms(3) by force
      then show ?thesis using y(3) by simp
    qed auto
    ultimately show ?thesis using d auth create(1) unfolding same_place_def by metis
  qed
next
  case (replace masks f ref d)
  note auth = authorised_folder_Inr [OF replace(2)]
  have d: "d \<in> set (ks_docs s)" "do_org d = pr_org p" "do_folder d = Some (di_folder data)" "kd_ref d = di_ref data"
    using get_by_external_ref_Some [OF replace(5)] auth(3) replace(3) by auto
  note t = replace_touches [OF replace(6) assms(2) d(1)]
  have "x \<in> set (ks_docs s')" if "x \<in> set (ks_docs s)" "do_org x \<noteq> pr_org p \<or> do_folder x \<noteq> Some (di_folder data) \<or> kd_ref x \<noteq> di_ref data" for x
  proof (rule touches_elem [OF t that(1)])
    show "do_id x \<noteq> do_id d" using distinct_map_eq [OF assms(2) d(1) that(1)] that(2) d(2-4) by auto
  qed
  moreover have "x \<in> set (ks_docs s) \<or> same_place d x" if x: "x \<in> set (ks_docs s')" for x
    using touches_elem_back [OF t x] distinct_map_eq [OF assms(2) d(1)] by metis
  ultimately show ?thesis using d auth replace(1) unfolding same_place_def by (metis UnI1 set_append)
qed

subsection \<open>What a write enqueues\<close>

lemma requeue_cases:
  assumes "requeue e org d data new s = (s', r)"
  obtains (refused) "ks_docs s' = ks_docs s" and "ks_tasks s' = ks_tasks s" and "isl r"
  | (queued) stored s3 where "ks_docs s3 = put_doc (we_now e) (requeued e d data new stored) (ks_docs s)"
      and "ks_tasks s3 = ks_tasks s"
      and "dispatch_doc e org (requeued e d data new stored) (fst (scoping org d (ks_tab s))) (snd (scoping org d (ks_tab s))) s3 = (s', r)"
proof -
  let ?key = "object_key org (do_key d) data (we_hash e (di_content data)) True"
  let ?stored = "if new \<and> di_filename data \<noteq> None then Some ?key else None"
  let ?s0 = "s\<lparr>ks_index := filter (\<lambda>k. k \<noteq> do_key d) (ks_index s)\<rparr>"
  obtain tags ak where sc: "scoping org d (ks_tab s) = (tags, ak)" by (cases "scoping org d (ks_tab s)")
  show ?thesis
  proof (cases "we_purge e \<and> (?stored = None \<or> we_put e)")
    case False
    then show ?thesis using assms by (intro refused) (auto simp: requeue_def sc store_object_def split: if_splits)
  next
    case True
    then obtain s1 where s1: "(if ?stored = None then Inr ?s0 else store_object e ?key data ?s0) = Inr s1"
        "ks_docs s1 = ks_docs s" "ks_tasks s1 = ks_tasks s"
      by (auto simp: store_object_def split: if_splits)
    let ?d' = "requeued e d data new ?stored"
    let ?s2 = "s1\<lparr>ks_docs := put_doc (we_now e) ?d' (ks_docs s1)\<rparr>"
    let ?s3 = "if new \<and> kd_url d \<noteq> None \<and> kd_url d \<noteq> kd_url ?d' then discard e (kd_url d) ?s2 else ?s2"
    have "dispatch_doc e org ?d' tags ak ?s3 = (s', r)"
      using assms True unfolding requeue_def sc Let_def prod.case s1(1) by simp
    then show ?thesis using s1 by (intro queued [of ?s3 ?stored]) (simp_all add: sc)
  qed
qed

lemma update_metadata_only_tasks: "update_metadata_only e org d data s = (s', d') \<Longrightarrow> ks_tasks s' = ks_tasks s"
  by (auto simp: update_metadata_only_def Let_def split: prod.splits if_splits)

lemma replace_doc_cases:
  assumes "replace_doc e p masks d data s = (s', r)"
  obtains (quiet) "ks_tasks s' = ks_tasks s" and "\<And>d'. r \<noteq> Inr (Updated, d')" and "\<And>d'. r \<noteq> Inr (Reprocessed, d')"
  | (requeue) new r' where "requeue e (pr_org p) d data new s = (s', r')" and "\<not> outside_folders (pr_folders p) (do_folder d)"
      and "kdoc_visible (pr_org p) d masks (ks_tab s)" and "may_contribute_to_document d masks"
      and "new \<or> kd_hash d = Some (we_hash e (di_content data))"
      and "r = bind_res r' (\<lambda>d'. Inr (if new then Updated else Reprocessed, d'))"
proof (cases "outside_folders (pr_folders p) (do_folder d) \<or> \<not> kdoc_visible (pr_org p) d masks (ks_tab s) \<or> \<not> may_contribute_to_document d masks")
  case True
  then show ?thesis using assms by (intro quiet) (auto simp: replace_doc_def Let_def split: if_splits)
next
  case False
  let ?same = "kd_hash d = Some (we_hash e (di_content data))"
  let ?retry = "kd_status d \<in> set RETRYABLE \<or> is_stuck_pending d (we_now e)"
  let ?skip = "if ?same then \<not> ?retry else \<not> ?retry \<and> kd_status d \<in> {PENDING, PROCESSING}"
  show ?thesis
  proof (cases ?skip)
    case True
    then show ?thesis using assms False update_metadata_only_tasks
      by (intro quiet) (auto simp: replace_doc_def Let_def split: if_splits prod.splits)
  next
    case skip: False
    obtain r' where r': "requeue e (pr_org p) d data (\<not> ?same) s = (s', r')" "r = bind_res r' (\<lambda>d'. Inr (if \<not> ?same then Updated else Reprocessed, d'))"
      using assms False skip by (auto simp: replace_doc_def Let_def split: if_splits prod.splits)
    show ?thesis by (rule requeue [OF r'(1)]) (use False r'(2) in auto)
  qed
qed

text \<open>
  C24. Every task a write enqueues, and a write enqueues at most one, is for a document that is filed in the requested folder of the key's
  organization under the requested reference; it carries the tag of that folder and exactly the masks that govern reading the
  document: its own override, or the effective masks of the folder.
\<close>

theorem queued_task_scoped:
  assumes "upsert e p data s = (s', r)" and "distinct (map do_id (ks_docs s))"
  shows "\<exists>ts. ks_tasks s' = ks_tasks s @ ts \<and> length ts \<le> 1
    \<and> (\<forall>t \<in> set ts. it_tenant t = pr_org p \<and> it_tags t = [folder_tag (di_folder data)]
        \<and> (\<exists>d f. d \<in> set (ks_docs s') \<and> do_id d = it_doc t
            \<and> do_org d = pr_org p \<and> do_folder d = Some (di_folder data) \<and> kd_ref d = di_ref data
            \<and> folder_get (pr_org p) (di_folder data) (ks_tab s) = Some f
            \<and> it_access_keys t = (if do_viewer d \<noteq> None then do_view_masks d else effective_view_masks (pr_org p) (Some f) (ks_tab s))))"
  using assms(1)
proof (cases rule: upsert_cases)
  case refused
  then show ?thesis by (intro exI [of _ "[]"]) simp
next
  case (create masks f)
  note auth = authorised_folder_Inr [OF create(2)]
  from create(3) show ?thesis
  proof (cases rule: create_doc_cases)
    case refused
    then show ?thesis by (intro exI [of _ "[]"]) simp
  next
    case (made d s3 r')
    note disp = dispatch_touches [OF made(6)]
    obtain h where h: "ks_docs s' = map h (ks_docs s3)" "\<forall>r \<in> set (ks_docs s3). same_place r (h r)"
      using disp(1) unfolding touches_def by blast
    have "h d \<in> set (ks_docs s')" and "same_place d (h d)" using h made(3) by simp_all
    moreover have "do_viewer d = None" "do_org d = pr_org p" "do_folder d = Some (di_folder data)" "kd_ref d = di_ref data"
      using auth(3) by (simp_all add: made(1) new_doc_def)
    ultimately show ?thesis using auth(2,3) unfolding disp(4) made(5)
      by (intro exI [of _ "case we_task e of None \<Rightarrow> [] | Some t \<Rightarrow> [task_for (pr_org p) d (index_tags [] (Some (fo_id f)))
          (effective_view_masks (pr_org p) (Some f) (ks_tab s)) t]"])
        (auto simp: task_for_def index_tags_def same_place_def split: option.splits intro!: exI [of _ "h d"])
  qed
next
  case (replace masks f ref d)
  note auth = authorised_folder_Inr [OF replace(2)]
  have d: "d \<in> set (ks_docs s)" "do_folder d = Some (di_folder data)" "do_org d = pr_org p" "kd_ref d = di_ref data"
    using get_by_external_ref_Some [OF replace(5)] auth(3) replace(3) by auto
  have sc: "scoping (pr_org p) d (ks_tab s) = ([folder_tag (di_folder data)],
      if do_viewer d \<noteq> None then do_view_masks d else effective_view_masks (pr_org p) (Some f) (ks_tab s))"
    by (simp add: scoping_def d(2) auth(2,3) index_tags_def Let_def)
  from replace(6) show ?thesis
  proof (cases rule: replace_doc_cases)
    case quiet
    then show ?thesis by (intro exI [of _ "[]"]) simp
  next
    case (requeue new r')
    note t = requeue_touches [OF requeue(1) assms(2) d(1)]
    obtain h where h: "ks_docs s' = map h (ks_docs s)" "\<forall>r \<in> set (ks_docs s). same_place r (h r)"
      using t unfolding touches_def by blast
    then have hd: "h d \<in> set (ks_docs s')" "same_place d (h d)" using d(1) by simp_all
    from requeue(1) show ?thesis
    proof (cases rule: requeue_cases)
      case refused
      then show ?thesis by (intro exI [of _ "[]"]) simp
    next
      case (queued stored s3)
      note disp = dispatch_touches(4) [OF queued(3)]
      show ?thesis unfolding disp queued(2) sc
        by (intro exI [of _ "case we_task e of None \<Rightarrow> [] | Some t \<Rightarrow> [task_for (pr_org p) (requeued e d data new stored)
            [folder_tag (di_folder data)]
            (if do_viewer d \<noteq> None then do_view_masks d else effective_view_masks (pr_org p) (Some f) (ks_tab s)) t]"])
          (use hd d(2-) auth(2) same_place_requeued [of d e data new stored] in
            \<open>auto simp: task_for_def same_place_def split: option.splits intro!: exI [of _ "h d"]\<close>)
    qed
  qed
qed

subsection \<open>Sending a document again\<close>

lemma dispatch_doc_Inr:
  assumes "dispatch_doc e org d tags ak s = (s', Inr d')" and "we_persist e"
  obtains t where "we_task e = Some t"
    and "ks_docs s' = upd_where (\<lambda>r. do_id r = do_id d) (\<lambda>r. r\<lparr>kd_task := Some t, kd_updated := Some (we_now e)\<rparr>) (ks_docs s)"
    and "ks_tab s' = ks_tab s"
  using assms by (auto simp: dispatch_doc_def persist_task_id_def Let_def split: option.splits)

lemma unchanged_upsert:
  assumes "api_key_access_keys p = Inr masks" and "authorised_folder p masks (di_folder data) (ks_tab s) = Inr f"
    and "di_ref data = Some ref" and "ref \<noteq> []" and "get_by_external_ref (pr_org p) (fo_id f) ref (ks_docs s) = Inr (Some d)"
    and "kdoc_visible (pr_org p) d masks (ks_tab s)" and "may_contribute_to_document d masks"
    and "kd_hash d = Some (we_hash e (di_content data))" and "kd_status d \<notin> set RETRYABLE"
    and "\<not> is_stuck_pending d (we_now e)" and "\<not> metadata_changed d data"
  shows "upsert e p data s = (s, Inr (Unchanged, d))"
proof -
  note auth = authorised_folder_Inr [OF assms(2)]
  have "\<not> outside_folders (pr_folders p) (do_folder d)"
    using get_by_external_ref_Some [OF assms(5)] auth(1,3) by simp
  then show ?thesis using assms by (simp add: upsert_def replace_doc_def Let_def)
qed

lemma filter_map_same_place:
  assumes "\<And>r. r \<in> set docs \<Longrightarrow> same_place r (h r)"
  shows "filter (\<lambda>d. do_org d = org \<and> do_folder d = Some i \<and> kd_ref d = Some ref) (map h docs) =
    map h (filter (\<lambda>d. do_org d = org \<and> do_folder d = Some i \<and> kd_ref d = Some ref) docs)"
  unfolding filter_map by (intro arg_cong [where f = "map h"] filter_cong refl) (use assms in \<open>auto simp: same_place_def\<close>)

lemma put_doc_map: "put_doc now d docs = map (\<lambda>r. if do_id r = do_id d then (if r = d then r else d\<lparr>kd_updated := Some now\<rparr>) else r) docs"
  by (simp add: put_doc_def)

lemma kdoc_visible_same_place: "same_place d d' \<Longrightarrow> kdoc_visible org d' masks tab = kdoc_visible org d masks tab"
  by (simp add: kdoc_visible_def document_visible_def document.truncate_def same_place_def cong: option.case_cong)

lemma may_contribute_same_place: "same_place d d' \<Longrightarrow> may_contribute_to_document d' masks = may_contribute_to_document d masks"
  by (simp add: may_contribute_to_document_def same_place_def cong: option.case_cong)

lemma created_visible:
  assumes "folder_visible org f masks tab" and "folder_get org (fo_id f) tab = Some f" and "do_folder d = Some (fo_id f)" and "do_viewer d = None"
  shows "kdoc_visible org d masks tab"
  using assms by (cases masks) (simp_all add: kdoc_visible_def document_visible_def document.truncate_def)

definition settled :: "wenv \<Rightarrow> doc_input \<Rightarrow> string \<Rightarrow> kdoc \<Rightarrow> bool" where
  "settled e data t d \<longleftrightarrow> kd_hash d = Some (we_hash e (di_content data)) \<and> kd_status d = PENDING \<and> kd_task d = Some t
     \<and> kd_updated d = Some (we_now e) \<and> do_title d = di_title data
     \<and> (\<forall>m. di_metadata data = Some m \<longrightarrow> kd_metadata d = Some m)"

lemma settled_not_changed:
  "settled e data t d \<Longrightarrow> (\<And>m. di_metadata data = Some m \<Longrightarrow> py_eq (JObj m) (JObj m)) \<Longrightarrow> \<not> metadata_changed d data"
  by (auto simp: settled_def metadata_changed_def split: option.splits)

lemma settled_after_create:
  assumes "dispatch_doc e org d tags ak s3 = (s', Inr d')" and "we_persist e"
    and "d = (new_doc e org f data)\<lparr>kd_url := url\<rparr>" and "ks_docs s3 = docs @ [d]"
    and "do_id d \<notin> do_id ` set docs" and "\<not> ref_taken d docs" and "di_ref data = Some ref"
  obtains t d1 where "settled e data t d1" and "same_place d d1" and "ks_tab s' = ks_tab s3"
    and "get_by_external_ref org (fo_id f) ref (ks_docs s') = Inr (Some d1)"
proof -
  obtain t where t: "ks_docs s' = upd_where (\<lambda>r. do_id r = do_id d) (\<lambda>r. r\<lparr>kd_task := Some t, kd_updated := Some (we_now e)\<rparr>) (ks_docs s3)"
    "ks_tab s' = ks_tab s3" by (rule dispatch_doc_Inr [OF assms(1,2)])
  let ?d1 = "d\<lparr>kd_task := Some t, kd_updated := Some (we_now e)\<rparr>"
  have "upd_where (\<lambda>r. do_id r = do_id d) (\<lambda>r. r\<lparr>kd_task := Some t, kd_updated := Some (we_now e)\<rparr>) docs = docs"
    using assms(5) by (intro upd_where_id) (metis image_eqI)
  then have docs: "ks_docs s' = docs @ [?d1]" by (simp add: t(1) assms(4))
  have "filter (\<lambda>r. do_org r = org \<and> do_folder r = Some (fo_id f) \<and> kd_ref r = Some ref) docs = []"
    using assms(6,7) by (auto simp: ref_taken_def assms(3) new_doc_def filter_empty_conv list_ex_iff)
  then have "get_by_external_ref org (fo_id f) ref (ks_docs s') = Inr (Some ?d1)"
    using assms(7) by (simp add: get_by_external_ref_def docs) (simp add: assms(3) new_doc_def)
  moreover have "settled e data t ?d1" by (simp add: settled_def assms(3) new_doc_def)
  moreover have "same_place d ?d1" by (simp add: same_place_def)
  ultimately show ?thesis using that t(2) by blast
qed

lemma settled_after_requeue:
  assumes "requeue e org d data new s = (s', Inr d')" and "we_persist e" and "distinct (map do_id (ks_docs s))"
    and "get_by_external_ref org i ref (ks_docs s) = Inr (Some d)" and "new \<or> kd_hash d = Some (we_hash e (di_content data))"
  obtains t d1 where "settled e data t d1" and "same_place d d1" and "ks_tab s' = ks_tab s"
    and "get_by_external_ref org i ref (ks_docs s') = Inr (Some d1)"
  using assms(1)
proof (cases rule: requeue_cases)
  case (queued stored s3)
  let ?d' = "requeued e d data new stored"
  have d: "d \<in> set (ks_docs s)" using get_by_external_ref_Some [OF assms(4)] by simp
  have id: "do_id ?d' = do_id d" using same_place_requeued [of d e data new stored] by (simp add: same_place_def)
  obtain t where t: "ks_docs s' = upd_where (\<lambda>r. do_id r = do_id ?d') (\<lambda>r. r\<lparr>kd_task := Some t, kd_updated := Some (we_now e)\<rparr>) (ks_docs s3)"
    "ks_tab s' = ks_tab s3" by (rule dispatch_doc_Inr [OF queued(3) assms(2)])
  have tab: "ks_tab s' = ks_tab s"
    using assms(1) by (auto simp: requeue_def dispatch_doc_def mark_enqueue_failed_def persist_task_id_def Let_def discard_def
        store_object_def split: prod.splits if_splits option.splits sum.splits)
  let ?h = "\<lambda>r. if do_id r = do_id d then ?d'\<lparr>kd_task := Some t, kd_updated := Some (we_now e)\<rparr> else r"
  have docs: "ks_docs s' = map ?h (ks_docs s)"
    unfolding t(1) queued(1) put_doc_map upd_where_def id using id by (auto)
  have h: "same_place r (?h r)" if "r \<in> set (ks_docs s)" for r
    using distinct_map_eq [OF assms(3) d that] same_place_requeued [of d e data new stored] by (auto simp: same_place_def)
  have one: "filter (\<lambda>d. do_org d = org \<and> do_folder d = Some i \<and> kd_ref d = Some ref) (ks_docs s) = [d]"
    using assms(4) by (simp add: get_by_external_ref_def)
  have "filter (\<lambda>d. do_org d = org \<and> do_folder d = Some i \<and> kd_ref d = Some ref) (map ?h (ks_docs s)) = map ?h [d]"
    unfolding one [symmetric] by (rule filter_map_same_place) (use h in blast)
  then have "get_by_external_ref org i ref (ks_docs s') = Inr (Some (?h d))"
    unfolding get_by_external_ref_def docs by (simp only: list.map scalar_one_or_none.simps)
  moreover have "settled e data t (?h d)" using assms(5)
    by (auto simp: settled_def requeued_def with_fields_def Let_def)
  moreover have "same_place d (?h d)" using same_place_requeued [of d e data new stored] by (simp add: same_place_def)
  ultimately show ?thesis using that tab by blast
qed auto

text \<open>What the worker reports between two writes: the callbacks of any tasks, each of which is accepted or refused.\<close>

fun take_reports :: "(int \<times> uuid \<times> uuid \<times> string \<times> jdict option) list \<Rightarrow> kdoc list \<Rightarrow> kdoc list" where
  "take_reports [] docs = docs"
| "take_reports ((now, org, i, status, details) # rs) docs =
     take_reports rs (case update_document_status now org i status details docs of Inl _ \<Rightarrow> docs | Inr docs' \<Rightarrow> docs')"

definition reported :: "kdoc \<Rightarrow> kdoc \<Rightarrow> bool" where
  "reported r r' \<longleftrightarrow> (\<exists>status details u. r' = r\<lparr>kd_status := status, kd_details := details, kd_updated := u\<rparr>)"

lemma reported_refl [simp]: "reported r r"
  unfolding reported_def by (intro exI [of _ "kd_status r"] exI [of _ "kd_details r"] exI [of _ "kd_updated r"]) simp

lemma reported_trans: "reported a b \<Longrightarrow> reported b c \<Longrightarrow> reported a c"
  by (clarsimp simp: reported_def) blast

lemma reported_same_place: "reported r r' \<Longrightarrow> same_place r r'"
  by (auto simp: reported_def same_place_def)

lemma reported_content: "reported r r' \<Longrightarrow> kd_hash r' = kd_hash r \<and> metadata_changed r' data = metadata_changed r data"
  by (auto simp: reported_def metadata_changed_def cong: option.case_cong)

lemma one_report:
  assumes "distinct (map do_id docs)" "update_document_status now org i status details docs = Inr docs'"
  shows "\<exists>h. docs' = map h docs \<and> (\<forall>r \<in> set docs. reported r (h r))"
proof -
  obtain d where d: "doc_get org i docs = Inr (Some d)"
    using assms(2) by (auto simp: update_document_status_def update_status_def bind_res_eq_Inr split: option.splits)
  then have "d \<in> set docs" by (auto simp: doc_get_def scalar_one_or_none_Some filter_eq_Cons_iff)
  show ?thesis
  proof (cases "kd_status d \<in> set terminal_statuses")
    case True
    then have "docs' = map id docs" using assms(2) d by (simp add: update_document_status_def update_status_def)
    then show ?thesis by (intro exI [of _ id]) simp
  next
    case False
    define d' where "d' = d\<lparr>kd_status := status, kd_details := (case details of None \<Rightarrow> kd_details d | Some x \<Rightarrow> Some x)\<rparr>"
    have "docs' = put_doc now d' docs" using assms(2) d False by (simp add: update_document_status_def update_status_def d'_def Let_def)
    moreover have "reported r (if do_id r = do_id d' then (if r = d' then r else d'\<lparr>kd_updated := Some now\<rparr>) else r)" if "r \<in> set docs" for r
    proof (cases "do_id r = do_id d'")
      case True
      then have "r = d" using distinct_map_eq [OF assms(1) \<open>d \<in> set docs\<close> that] by (simp add: d'_def)
      moreover have "reported d (d'\<lparr>kd_updated := Some now\<rparr>)"
        unfolding reported_def d'_def by (intro exI) (rule refl)
      ultimately show ?thesis by simp
    qed simp
    ultimately show ?thesis unfolding put_doc_map by blast
  qed
qed

lemma take_reports_map:
  "distinct (map do_id docs) \<Longrightarrow> \<exists>h. take_reports rs docs = map h docs \<and> (\<forall>r \<in> set docs. reported r (h r))"
proof (induction rs docs rule: take_reports.induct)
  case (1 docs)
  then show ?case by (intro exI [of _ id]) simp
next
  case (2 now org i status details rs docs)
  let ?docs = "case update_document_status now org i status details docs of Inl _ \<Rightarrow> docs | Inr docs' \<Rightarrow> docs'"
  obtain g where g: "?docs = map g docs" "\<forall>r \<in> set docs. reported r (g r)"
  proof (cases "update_document_status now org i status details docs")
    case (Inl x)
    then show ?thesis by (intro that [of id]) simp_all
  next
    case (Inr docs')
    then show ?thesis using one_report [OF 2(2) Inr] that by auto
  qed
  have "map do_id ?docs = map do_id docs" using g reported_same_place by (auto simp: same_place_def)
  then obtain h where "take_reports rs ?docs = map h ?docs" "\<forall>r \<in> set ?docs. reported r (h r)" using 2 by metis
  then have "take_reports ((now, org, i, status, details) # rs) docs = map (h \<circ> g) docs" "\<forall>r \<in> set docs. reported r ((h \<circ> g) r)"
    using g reported_trans by (simp_all, metis image_eqI list.set_map)
  then show ?case by blast
qed

lemma touches_ids: "touches i docs docs' \<Longrightarrow> map do_id docs' = map do_id docs"
  by (auto simp: touches_def same_place_def)

text \<open>
  C25. Sending the same document again with its ref is a no-op: after a write that created, updated or re-ran a document, and whatever
  the ingest has reported about any document since (nothing, progress, success), the same write by the same key answers
  that nothing changed and leaves the whole state as it is, unless the ingest of the document has failed, was cancelled or is stuck in the
  queue. In particular this holds once the document is indexed, and within ten minutes of a write when nothing was reported.
\<close>

theorem resend_is_noop:
  assumes "upsert e p data s = (s1, Inr (out, d))" and "out = Created \<or> out = Updated \<or> out = Reprocessed"
    and "distinct (map do_id (ks_docs s @ we_others e))" and "we_id e \<notin> do_id ` set (ks_docs s @ we_others e)"
    and "di_ref data = Some ref" and "ref \<noteq> []" and "we_persist e"
    and "\<And>m. di_metadata data = Some m \<Longrightarrow> py_eq (JObj m) (JObj m)"
    and "we_hash e' = we_hash e"
    and later: "s2 = s1\<lparr>ks_docs := take_reports reports (ks_docs s1), ks_index := index, ks_tasks := tasks\<rparr>"
    and healthy: "reports = [] \<and> we_now e' - we_now e \<le> PENDING_STALE_AFTER
      \<or> (\<forall>r \<in> set (ks_docs s2). do_org r = pr_org p \<and> do_folder r = Some (di_folder data) \<and> kd_ref r = Some ref
           \<longrightarrow> kd_status r \<notin> {FAILED, CANCELLED} \<and> \<not> is_stuck_pending r (we_now e'))"
  shows "\<exists>d'. upsert e' p data s2 = (s2, Inr (Unchanged, d'))"
proof -
  have ids: "distinct (map do_id (ks_docs s))" using assms(3) by simp
  have finish: "\<exists>d'. upsert e' p data s2 = (s2, Inr (Unchanged, d'))"
    if acc: "api_key_access_keys p = Inr masks" and auth: "authorised_folder p masks (di_folder data) (ks_tab s) = Inr f"
      and set: "settled e data t d1" and tab: "ks_tab s1 = ks_tab s" and vis: "kdoc_visible (pr_org p) d1 masks (ks_tab s)"
      and may: "may_contribute_to_document d1 masks" and d1: "get_by_external_ref (pr_org p) (fo_id f) ref (ks_docs s1) = Inr (Some d1)"
      and dist: "distinct (map do_id (ks_docs s1))" for masks f t d1
  proof -
    obtain h where h: "take_reports reports (ks_docs s1) = map h (ks_docs s1)" "\<forall>r \<in> set (ks_docs s1). reported r (h r)"
      using take_reports_map [OF dist] by blast
    note in1 = get_by_external_ref_Some [OF d1]
    have r: "reported d1 (h d1)" using h(2) in1 by blast
    note place = reported_same_place [OF r] and content = reported_content [OF r, of data]
    have "filter (\<lambda>d. do_org d = pr_org p \<and> do_folder d = Some (fo_id f) \<and> kd_ref d = Some ref) (ks_docs s1) = [d1]"
      using d1 by (simp add: get_by_external_ref_def)
    then have "filter (\<lambda>d. do_org d = pr_org p \<and> do_folder d = Some (fo_id f) \<and> kd_ref d = Some ref) (map h (ks_docs s1)) = [h d1]"
      using filter_map_same_place [of "ks_docs s1" h] h(2) reported_same_place by simp
    then have d2: "get_by_external_ref (pr_org p) (fo_id f) ref (ks_docs s2) = Inr (Some (h d1))"
      by (simp add: get_by_external_ref_def later h(1))
    have fine: "kd_status (h d1) \<notin> set RETRYABLE \<and> \<not> is_stuck_pending (h d1) (we_now e')"
      using healthy
    proof
      assume now: "reports = [] \<and> we_now e' - we_now e \<le> PENDING_STALE_AFTER"
      then have "h d1 = d1" using h(1) in1 by (metis list.map_id map_eq_conv take_reports.simps(1) id_apply)
      then show ?thesis using set now by (simp add: settled_def RETRYABLE_def status_defs is_stuck_pending_def)
    next
      assume "\<forall>r \<in> set (ks_docs s2). do_org r = pr_org p \<and> do_folder r = Some (di_folder data) \<and> kd_ref r = Some ref
           \<longrightarrow> kd_status r \<notin> {FAILED, CANCELLED} \<and> \<not> is_stuck_pending r (we_now e')"
      then show ?thesis using get_by_external_ref_Some [OF d2] authorised_folder_Inr(3) [OF auth] by (auto simp: RETRYABLE_def)
    qed
    have "upsert e' p data s2 = (s2, Inr (Unchanged, h d1))"
    proof (rule unchanged_upsert [OF acc _ assms(5,6) d2])
      show "authorised_folder p masks (di_folder data) (ks_tab s2) = Inr f" using auth tab by (simp add: later)
      show "kdoc_visible (pr_org p) (h d1) masks (ks_tab s2)" using vis tab kdoc_visible_same_place [OF place] by (simp add: later)
      show "may_contribute_to_document (h d1) masks" using may may_contribute_same_place [OF place] by simp
      show "kd_hash (h d1) = Some (we_hash e' (di_content data))" using content set assms(9) by (simp add: settled_def)
      show "\<not> metadata_changed (h d1) data" using content settled_not_changed [OF set assms(8)] by simp
    qed (use fine in auto)
    then show ?thesis by blast
  qed
  from assms(1) show ?thesis
  proof (cases rule: upsert_cases)
    case (create masks f)
    note auth = authorised_folder_Inr [OF create(2)]
    from create(3) show ?thesis
    proof (cases rule: create_doc_cases)
      case (made d0 s3 r')
      obtain d' where r': "r' = Inr d'" using made(7) by (cases r') auto
      have d0: "do_id d0 = we_id e" "do_folder d0 = Some (fo_id f)" "do_viewer d0 = None" "kd_contributor d0 = None"
        by (simp_all add: made(1) new_doc_def)
      obtain t d1 where s: "settled e data t d1" "same_place d0 d1" "ks_tab s1 = ks_tab s3"
        "get_by_external_ref (pr_org p) (fo_id f) ref (ks_docs s1) = Inr (Some d1)"
      proof (rule settled_after_create [OF made(6) [unfolded r'] assms(7) made(1) _ _ made(2) assms(5)])
        show "ks_docs s3 = (ks_docs s @ we_others e) @ [d0]" by (simp add: made(3))
        show "do_id d0 \<notin> do_id ` set (ks_docs s @ we_others e)" using assms(4) d0(1) by simp
      qed
      have "kdoc_visible (pr_org p) d1 masks (ks_tab s)"
        by (rule created_visible [OF auth(4)]) (use auth(2,3) s(2) d0 in \<open>simp_all add: same_place_def\<close>)
      moreover have "may_contribute_to_document d1 masks"
        using s(2) d0(4) by (simp add: may_contribute_to_document_def same_place_def split: option.split)
      moreover have "distinct (map do_id (ks_docs s1))"
        using touches_ids [OF dispatch_touches(1) [OF made(6)]] made(3) assms(3,4) d0(1) by (simp add: image_Un)
      ultimately show ?thesis using finish [OF create(1,2) s(1)] s(3,4) made(4) by simp
    qed auto
  next
    case (replace masks f ref' d0)
    have ref': "ref' = ref" using replace(3) assms(5) by simp
    from replace(6) show ?thesis
    proof (cases rule: replace_doc_cases)
      case quiet
      moreover have "out \<noteq> Created"
        using replace(6) by (auto simp: replace_doc_def Let_def bind_res_eq_Inr split: if_splits prod.splits)
      ultimately show ?thesis using assms(2) by blast
    next
      case (requeue new r')
      obtain d' where r': "r' = Inr d'" using requeue(6) by (cases r') auto
      obtain t d1 where s: "settled e data t d1" "same_place d0 d1" "ks_tab s1 = ks_tab s"
        "get_by_external_ref (pr_org p) (fo_id f) ref (ks_docs s1) = Inr (Some d1)"
        by (rule settled_after_requeue [OF requeue(1) [unfolded r'] assms(7) ids replace(5) [unfolded ref'] requeue(5)])
      have "d0 \<in> set (ks_docs s)" using get_by_external_ref_Some [OF replace(5)] by simp
      then have "distinct (map do_id (ks_docs s1))" using touches_ids [OF replace_touches [OF replace(6) ids]] ids by simp
      then show ?thesis
        using finish [OF replace(1,2) s(1,3)] requeue(3,4) s(4) kdoc_visible_same_place [OF s(2)] may_contribute_same_place [OF s(2)]
        by simp
    qed
  qed auto
qed

subsection \<open>A file that cannot be stored\<close>

definition writer :: principal where
  "writer = \<lparr>pr_key = ''k'', pr_org = ''o1'', pr_scopes = [''knowledge:write''], pr_name = ''Writer'', pr_mode = ACCESS_MODE_ORG,
     pr_masks = None, pr_folders = None\<rparr>"

definition good_env :: "uuid \<Rightarrow> int \<Rightarrow> wenv" where
  "good_env i now = \<lparr>we_id = i, we_key = ''key-'' @ i, we_now = now, we_hash = (\<lambda>s. ''h:'' @ s), we_purge = True, we_put = True, we_drop = True,
     we_task = Some (''task-'' @ i), we_mark = True, we_persist = True, we_update = True, we_others = []\<rparr>"

definition note_v1 :: doc_input where
  "note_v1 = \<lparr>di_folder = ''c'', di_title = ''Note'', di_content = ''one'', di_filename = Some ''n.txt'', di_content_type = None,
     di_ref = Some ''r1'', di_metadata = None\<rparr>"

definition empty_state :: kstate where
  "empty_state = \<lparr>ks_tab = restricted, ks_docs = [], ks_objects = [], ks_index = [], ks_tasks = [], ks_updates = []\<rparr>"

text \<open>The worker indexes the document and reports success.\<close>

definition indexed :: "kstate \<Rightarrow> kstate" where
  "indexed s = s\<lparr>ks_docs := map (\<lambda>d. d\<lparr>kd_status := SUCCESS\<rparr>) (ks_docs s), ks_index := map do_key (ks_docs s), ks_tasks := []\<rparr>"

definition with_note :: kstate where
  "with_note = indexed (fst (upsert (good_env ''d1'' 0) writer note_v1 empty_state))"

text \<open>
  A failed storage of a new version is refused with 502, but the purge of the index has been done: the document
  keeps the status SUCCESS and its content hash while it is no longer in the index, and sending the stored content again
  answers that nothing changed, so it stays out of the index.
\<close>

theorem store_failure_loses_index:
  "ks_index with_note = [''key-d1''] \<and> map kd_status (ks_docs with_note) = [SUCCESS] \<and>
   (let (s, r) = upsert ((good_env ''d2'' 100)\<lparr>we_put := False\<rparr>) writer (note_v1\<lparr>di_content := ''two''\<rparr>) with_note;
        (s', r') = upsert (good_env ''d3'' 200) writer note_v1 s
    in r = Inl (WriteError 502 ''Failed to store the uploaded file'') \<and> ks_index s = [] \<and> ks_docs s = ks_docs with_note
       \<and> s' = s \<and> map_sum id fst r' = Inr Unchanged)"
  by code_simp

subsection \<open>Concrete writes\<close>

theorem write_touches_one_document_witness:
  "\<exists>d. ks_docs (fst (upsert (good_env ''d1'' 0) writer note_v1 empty_state)) = [d] \<and> do_org d = ''o1'' \<and> do_folder d = Some ''c''"
proof -
  let ?r = "upsert (good_env ''d1'' 0) writer note_v1 empty_state"
  have "length (ks_docs (fst ?r)) = 1" by code_simp
  then obtain d where d: "ks_docs (fst ?r) = [d]" by (auto simp: length_Suc_conv)
  have none: "ks_docs empty_state = []" "we_others (good_env ''d1'' 0) = []" by (simp_all add: empty_state_def good_env_def)
  have "do_org d = pr_org writer \<and> do_folder d = Some (di_folder note_v1)"
    using write_touches_one_document [of "good_env ''d1'' 0" writer note_v1 empty_state "fst ?r" "snd ?r"] none d by simp
  then show ?thesis using d by (simp add: writer_def note_v1_def)
qed

theorem queued_task_scoped_witness:
  "\<exists>t d. ks_tasks (fst (upsert (good_env ''d1'' 0) writer note_v1 empty_state)) = [t] \<and> it_access_keys t = [2293759]
    \<and> ks_docs (fst (upsert (good_env ''d1'' 0) writer note_v1 empty_state)) = [d] \<and> it_doc t = do_id d \<and> do_folder d = Some ''c''"
proof -
  let ?r = "upsert (good_env ''d1'' 0) writer note_v1 empty_state"
  have "length (ks_tasks (fst ?r)) = 1" "length (ks_docs (fst ?r)) = 1" by code_simp+
  then obtain t d where t: "ks_tasks (fst ?r) = [t]" and d: "ks_docs (fst ?r) = [d]" by (auto simp: length_Suc_conv)
  have "list_all (\<lambda>d. do_viewer d = None) (ks_docs (fst ?r))" by code_simp
  then have plain: "do_viewer d = None" using d by simp
  have eff: "(case folder_get ''o1'' ''c'' (ks_tab empty_state) of None \<Rightarrow> [] | Some f \<Rightarrow> effective_view_masks ''o1'' (Some f) (ks_tab empty_state)) = [2293759]"
    by code_simp
  have "distinct (map do_id (ks_docs empty_state))" by (simp add: empty_state_def)
  from queued_task_scoped [OF prod.collapse [symmetric] this, of "good_env ''d1'' 0" writer note_v1] t
  have "do_id d = it_doc t \<and> do_folder d = Some (di_folder note_v1)
      \<and> (\<exists>f. folder_get (pr_org writer) (di_folder note_v1) (ks_tab empty_state) = Some f
        \<and> it_access_keys t = effective_view_masks (pr_org writer) (Some f) (ks_tab empty_state))"
    using plain d by (auto simp: empty_state_def)
  then show ?thesis using t d eff by (auto simp: writer_def note_v1_def)
qed

text \<open>The witness for a resend: a day after the worker reported that it began, and that the document is indexed.\<close>

definition note_reported :: kstate where
  "note_reported = (let s = fst (upsert (good_env ''d1'' 0) writer note_v1 empty_state) in
     s\<lparr>ks_docs := take_reports [(20, ''o1'', ''d1'', PROCESSING, None), (30, ''o1'', ''d1'', SUCCESS, None)] (ks_docs s),
       ks_index := [''key-d1''], ks_tasks := []\<rparr>)"

theorem resend_is_noop_witness:
  "map kd_status (ks_docs note_reported) = [SUCCESS]
   \<and> map_sum id fst (snd (upsert (good_env ''d2'' 90000) writer note_v1 note_reported)) = Inr Unchanged"
proof -
  let ?r = "upsert (good_env ''d1'' 0) writer note_v1 empty_state"
  have "(case snd ?r of Inr (out, d) \<Rightarrow> out = Created | Inl _ \<Rightarrow> False)" by code_simp
  then obtain d where "snd ?r = Inr (Created, d)" by (auto split: sum.splits)
  then have up: "upsert (good_env ''d1'' 0) writer note_v1 empty_state = (fst ?r, Inr (Created, d))" by (metis prod.collapse)
  have "list_all (\<lambda>d. kd_status d = SUCCESS) (ks_docs note_reported)" by code_simp
  then have "\<forall>d \<in> set (ks_docs note_reported). kd_status d \<notin> {FAILED, CANCELLED} \<and> \<not> is_stuck_pending d 90000"
    by (auto simp: list_all_iff is_stuck_pending_def status_defs)
  then have "\<exists>d'. upsert (good_env ''d2'' 90000) writer note_v1 note_reported = (note_reported, Inr (Unchanged, d'))"
    by (intro resend_is_noop [OF up _ _ _ _ _ _ _ _ note_reported_def [unfolded Let_def], where ref = "''r1''"])
      (simp_all add: empty_state_def good_env_def note_v1_def)
  moreover have "map kd_status (ks_docs note_reported) = [SUCCESS]" by code_simp
  ultimately show ?thesis by auto
qed

text \<open>The witness for the lists: the scoped key of \<open>Api_Key_Props\<close> asks for the folder it holds.\<close>

theorem key_lists_what_it_reads_witness:
  "\<exists>db' p. require_api_key (\<lambda>s. s) 200 None (Some ''km2_s3cr3t'') with_robot = Inr (db', p)
    \<and> (\<forall>d \<in> set (ks_docs with_note). case v1_list_documents db' p 0 (length (ks_docs with_note)) (Some ''c'') (ks_docs with_note) of
        Inr (ds, n) \<Rightarrow> d \<in> set ds \<longleftrightarrow> load_document db' p (do_id d) (ks_docs with_note) = Inr d \<and> do_folder d = Some ''c''
      | Inl e \<Rightarrow> e = DocHttp 404)"
proof -
  have "\<not> isl (require_api_key (\<lambda>s. s) 200 None (Some ''km2_s3cr3t'') with_robot)" by code_simp
  then obtain r where "require_api_key (\<lambda>s. s) 200 None (Some ''km2_s3cr3t'') with_robot = Inr r" by (metis sum.collapse(2))
  then obtain db' p where ok: "require_api_key (\<lambda>s. s) 200 None (Some ''km2_s3cr3t'') with_robot = Inr (db', p)"
    by (cases r) auto
  have "map do_id (ks_docs with_note) = [''d1'']" by code_simp
  then have ids: "distinct (map do_id (ks_docs with_note))" by simp
  have "case v1_list_documents db' p 0 (length (ks_docs with_note)) (Some ''c'') (ks_docs with_note) of
        Inr (ds, n) \<Rightarrow> d \<in> set ds \<longleftrightarrow> load_document db' p (do_id d) (ks_docs with_note) = Inr d \<and> do_folder d = Some ''c''
      | Inl e \<Rightarrow> e = DocHttp 404" if "d \<in> set (ks_docs with_note)" for d
    using key_lists_what_it_reads [OF ok with_robot_ids ids that, of "Some ''c''"] by (auto split: sum.splits prod.splits)
  then show ?thesis using ok by blast
qed

end
