(* ===== verification/Ingest_Job_Props.thy ===== *)
theory Ingest_Job_Props
  imports Ingest_Job Knowledge_Props
begin

section \<open>Properties of the ingest job\<close>

text \<open>
  Every run of a task reports progress and then, when it finishes, exactly one terminal status, the one of its
  result; the progress never falls. Submissions and polls are bounded. Delivered to a document the first terminal
  status stays, whatever other runs report later.
\<close>

subsection \<open>Shape of a run\<close>

fun result_status :: "job_result \<Rightarrow> string" where
  "result_status (JobSuccess _ _) = SUCCESS"
| "result_status (JobFailed _) = FAILED"
| "result_status JobCancelled = CANCELLED"

lemma status_distinct [simp]:
  "FAILED \<noteq> PROCESSING" "SUCCESS \<noteq> PROCESSING" "CANCELLED \<noteq> PROCESSING" "PENDING \<noteq> PROCESSING"
  by (simp_all add: status_defs)

lemma result_status_terminal: "result_status r \<in> set terminal_statuses"
  by (cases r) (simp_all add: terminal_statuses_def)

lemma reports_simps [simp]:
  "reports [] = []" "reports (Report r # evs) = r # reports evs" "reports (Post t # evs) = reports evs"
  "reports (PutObject k x # evs) = reports evs" "reports (as @ bs) = reports as @ reports bs"
  by (simp_all add: reports_def List.map_filter_simps) (simp add: List.map_filter_def)

lemma posts_simps [simp]:
  "posts [] = []" "posts (Report r # evs) = posts evs" "posts (Post t # evs) = t # posts evs"
  "posts (PutObject k x # evs) = posts evs" "posts (as @ bs) = posts as @ posts bs"
  by (simp_all add: posts_def List.map_filter_simps) (simp add: List.map_filter_def)

definition percent_of :: "wreport \<Rightarrow> int" where
  "percent_of r = (case dget (wr_details r) ''percent'' of Some (JInt n) \<Rightarrow> n | _ \<Rightarrow> 0)"

text \<open>Progress from \<open>low\<close> on: non-decreasing percentages below the ceiling, then the terminal status if the run finished.\<close>

fun climbs :: "int \<Rightarrow> wreport list \<Rightarrow> job_result progress \<Rightarrow> bool" where
  "climbs low [] out = (\<forall>r. out \<noteq> Finished r)"
| "climbs low (q # qs) out = (if wr_status q = PROCESSING
     then low \<le> percent_of q \<and> percent_of q \<le> INGEST_BAND_END \<and> climbs (percent_of q) qs out
     else qs = [] \<and> (\<exists>r. out = Finished r \<and> wr_status q = result_status r))"

lemma climbs_mono: "climbs low qs out \<Longrightarrow> low' \<le> low \<Longrightarrow> climbs low' qs out"
  by (cases qs) auto

lemma climbs_shape:
  "climbs low qs (Finished r) \<Longrightarrow> \<exists>ps t. qs = ps @ [t] \<and> (\<forall>q \<in> set ps. wr_status q = PROCESSING) \<and> wr_status t = result_status r"
proof (induction qs arbitrary: low)
  case (Cons q qs)
  show ?case
  proof (cases "wr_status q = PROCESSING")
    case True
    with Cons.prems have "climbs (percent_of q) qs (Finished r)" by simp
    from Cons.IH [OF this] obtain ps t where "qs = ps @ [t]" "\<forall>q \<in> set ps. wr_status q = PROCESSING" "wr_status t = result_status r" by blast
    then show ?thesis using True by (intro exI [of _ "q # ps"] exI [of _ t]) simp
  next
    case False
    then show ?thesis using Cons.prems by (intro exI [of _ "[]"] exI [of _ q]) simp
  qed
qed simp

lemma climbs_unfinished: "climbs low qs out \<Longrightarrow> (\<And>r. out \<noteq> Finished r) \<Longrightarrow> \<forall>q \<in> set qs. wr_status q = PROCESSING"
  by (induction qs arbitrary: low) (auto split: if_splits)

lemma report_progress_simps [simp]:
  "wr_status \<lparr>wr_status = s, wr_details = ds\<rparr> = s"
  by simp

lemma progress_report:
  "report_progress ''queued'' = Report \<lparr>wr_status = PROCESSING, wr_details = [(''stage'', JStr ''queued''), (''percent'', JInt 5)]\<rparr>"
  "report_progress ''downloading'' = Report \<lparr>wr_status = PROCESSING, wr_details = [(''stage'', JStr ''downloading''), (''percent'', JInt 15)]\<rparr>"
  "report_progress ''extracting'' = Report \<lparr>wr_status = PROCESSING, wr_details = [(''stage'', JStr ''extracting''), (''percent'', JInt 35)]\<rparr>"
  "report_progress ''ingesting'' = Report \<lparr>wr_status = PROCESSING, wr_details = [(''stage'', JStr ''ingesting''), (''percent'', JInt 60)]\<rparr>"
  by (simp_all add: report_progress_def report_status_def STAGE_PERCENT_def)

lemma climbs_terminal [simp]:
  "climbs low [\<lparr>wr_status = FAILED, wr_details = ds\<rparr>] (Finished (JobFailed x))"
  "climbs low [\<lparr>wr_status = SUCCESS, wr_details = ds\<rparr>] (Finished (JobSuccess a b))"
  "climbs low [\<lparr>wr_status = CANCELLED, wr_details = ds\<rparr>] (Finished JobCancelled)"
  by simp_all

lemma climbs_poll: "climbs (ps_percent ps) (reports (fst (poll_until_complete deadline ps evs))) (snd (poll_until_complete deadline ps evs))"
  if "ps_percent ps \<le> INGEST_BAND_END"
  using that
proof (induction evs arbitrary: ps)
  case (Cons ev evs)
  show ?case
  proof (cases "pv_cancelled ev \<or> pv_time ev > deadline")
    case True
    then show ?thesis by (auto simp: cancelled_report_def report_status_def)
  next
    case live: False
    show ?thesis
    proof (cases "pv_reply ev")
      case (PollFailure m)
      then show ?thesis using live Cons.IH [of "ps\<lparr>ps_errors := ps_errors ps + 1\<rparr>"] Cons.prems by (auto simp: Let_def report_status_def)
    next
      case (Reply body)
      let ?s = "jget body ''state''"
      consider "py_eq ?s (JStr ''done'')" | "\<not> py_eq ?s (JStr ''done'')" "py_eq ?s (JStr ''failed'')"
        | "\<not> py_eq ?s (JStr ''done'')" "\<not> py_eq ?s (JStr ''failed'')" "py_eq ?s (JStr ''unknown'')"
        | "\<not> py_eq ?s (JStr ''done'')" "\<not> py_eq ?s (JStr ''failed'')" "\<not> py_eq ?s (JStr ''unknown'')" by blast
      then show ?thesis
      proof cases
        case 1
        then show ?thesis using live Reply by (auto simp: Let_def report_status_def split: sum.split)
      next
        case 2
        then show ?thesis using live Reply by (auto simp: Let_def report_status_def)
      next
        case 3
        then show ?thesis using live Reply Cons.IH [of "ps\<lparr>ps_errors := 0, ps_unknown := ps_unknown ps + 1\<rparr>"] Cons.prems
          by (auto simp: Let_def report_status_def)
      next
        case 4
        show ?thesis
        proof (cases "relay_progress body (ps_percent ps) (ps_phase ps)")
          case (Inl x)
          then show ?thesis using live Reply 4 by (simp add: Let_def)
        next
          case (Inr q)
          obtain outl percent phase where q: "q = (outl, percent, phase)" by (cases q) auto
          let ?ps = "ps\<lparr>ps_errors := 0, ps_unknown := 0, ps_percent := percent, ps_phase := phase\<rparr>"
          from Inr q have rel: "(outl = [] \<and> percent = ps_percent ps) \<or>
              (outl = [report_status PROCESSING [(''stage'', phase), (''percent'', JInt percent)]] \<and> ps_percent ps \<le> percent \<and> percent \<le> INGEST_BAND_END)"
            using Cons.prems by (auto simp: relay_progress_def Let_def result_simps split: if_splits)
          then have "ps_percent ?ps \<le> INGEST_BAND_END" using Cons.prems by auto
          from Cons.IH [OF this] have "climbs percent (reports (fst (poll_until_complete deadline ?ps evs))) (snd (poll_until_complete deadline ?ps evs))" by simp
          then show ?thesis using live Reply 4 Inr q rel
            by (auto simp: Let_def report_status_def percent_of_def split: prod.split)
        qed
      qed
    qed
  qed
qed simp

lemma climbs_submit:
  "submit_ingest data n a ts = (evs, out) \<Longrightarrow>
    (\<forall>r. out = Finished (Some r) \<longrightarrow> climbs low (reports evs) (Finished r)) \<and> ((\<forall>r. out \<noteq> Finished (Some r)) \<longrightarrow> reports evs = [])"
proof (induction ts arbitrary: a evs out)
  case (Cons t ts)
  then show ?case
    by (auto simp: Let_def cancelled_report_def report_status_def split: if_splits submit_reply.splits prod.splits)
qed simp

lemma climbs_brain: "post_to_brain_and_report mw data v = (evs, out) \<Longrightarrow> climbs 60 (reports evs) out"
  using climbs_poll [of poll_start "jv_start v + mw" "jv_polls v"] climbs_submit [of data MAX_RETRIES 0 "jv_submits v" _ _ 60]
  by (auto simp: post_to_brain_and_report_def Let_def poll_start_def INGEST_BAND_END_def split: prod.splits progress.splits option.splits)

lemma climbs_ingest: "task_ingest_document mw data v = (evs, out) \<Longrightarrow> climbs 5 (reports evs) out"
  using climbs_brain [of mw data v]
  by (auto simp: task_ingest_document_def Let_def cancelled_report_def report_status_def progress_report percent_of_def INGEST_BAND_END_def
      split: if_splits prod.splits)

lemma climbs_extract: "task_extract_and_ingest mw fn tr data v = (evs, out) \<Longrightarrow> climbs 5 (reports evs) out"
  using climbs_brain [of mw "data\<lparr>it_source := Inr (Some x)\<rparr>" v for x]
  by (auto simp: task_extract_and_ingest_def Let_def cancelled_report_def report_status_def progress_report percent_of_def
      INGEST_BAND_END_def split: if_splits prod.splits sum.splits)

text \<open>The two tasks under one name.\<close>

datatype task_kind = TextTask | FileTask string string

fun run_task :: "int \<Rightarrow> task_kind \<Rightarrow> ingest_task \<Rightarrow> job_view \<Rightarrow> job_event list \<times> job_result progress" where
  "run_task mw TextTask data v = task_ingest_document mw data v"
| "run_task mw (FileTask fn tr) data v = task_extract_and_ingest mw fn tr data v"

lemma climbs_run: "run_task mw k data v = (evs, out) \<Longrightarrow> climbs 5 (reports evs) out"
  by (cases k) (auto intro: climbs_ingest climbs_extract)

text \<open>
  C28. Every run of an ingest task reports a climb: first progress whose percentages never fall and stay at most 97, then,
  exactly when the run finishes, one terminal status, the one of its result. A run that is cut off or leaves with
  an exception reports no terminal status.
\<close>

theorem run_reports_climb:
  assumes "run_task mw k data v = (evs, out)"
  shows "climbs 5 (reports evs) out
    \<and> (\<forall>r. out = Finished r \<longrightarrow> (\<exists>ps t. reports evs = ps @ [t] \<and> (\<forall>q \<in> set ps. wr_status q = PROCESSING) \<and> wr_status t = result_status r))
    \<and> ((\<forall>r. out \<noteq> Finished r) \<longrightarrow> (\<forall>q \<in> set (reports evs). wr_status q = PROCESSING))"
  using climbs_run [OF assms] climbs_shape climbs_unfinished by blast

subsection \<open>Bounds\<close>

lemma posts_submit:
  "submit_ingest data n a ts = (evs, out) \<Longrightarrow> a \<le> n \<Longrightarrow> length (posts evs) \<le> n - a + 1 \<and> set (posts evs) \<subseteq> {data}"
proof (induction ts arbitrary: a evs out)
  case (Cons t ts)
  show ?case
  proof (cases "sb_cancelled t")
    case True
    then show ?thesis using Cons.prems by (auto simp: cancelled_report_def report_status_def)
  next
    case live: False
    show ?thesis
    proof (cases "a < n \<and> (case sb_reply t of HttpFailure status _ _ \<Rightarrow> is_retryable_http_error status | ConnectFailure _ \<Rightarrow> True | _ \<Rightarrow> False)")
      case True
      obtain evs' out' where rest: "submit_ingest data n (a + 1) ts = (evs', out')" by (cases "submit_ingest data n (a + 1) ts")
      then have "evs = Post data # evs'"
        using Cons.prems(1) live True by (auto simp: Let_def split: submit_reply.splits)
      then show ?thesis using Cons.IH [OF rest] True by auto
    next
      case False
      then have "posts evs = [data]"
        using Cons.prems(1) live by (auto simp: Let_def report_status_def split: submit_reply.splits if_splits)
      then show ?thesis by simp
    qed
  qed
qed simp

lemma posts_poll: "posts (fst (poll_until_complete deadline ps evs)) = []"
proof (induction evs arbitrary: ps)
  case (Cons ev evs)
  have relay: "relay_progress body a b = Inr (out, x) \<Longrightarrow> posts out = []" for body a b out x
    by (auto simp: relay_progress_def Let_def result_simps report_status_def split: if_splits)
  have IH: "poll_until_complete deadline ps evs = (x, r) \<Longrightarrow> posts x = []" for ps x r
    using Cons.IH [of ps] by simp
  show ?case using Cons.IH
    by (auto dest: IH relay simp: Let_def report_status_def cancelled_report_def split: poll_reply.split sum.split prod.split)
qed simp

lemma poll_ends:
  "\<exists>ev \<in> set evs. pv_time ev > deadline \<Longrightarrow> snd (poll_until_complete deadline ps evs) \<noteq> Running"
proof (induction evs arbitrary: ps)
  case (Cons ev evs)
  show ?case
  proof (cases "pv_cancelled ev \<or> pv_time ev > deadline")
    case True
    then show ?thesis by auto
  next
    case False
    then have "\<exists>ev \<in> set evs. pv_time ev > deadline" using Cons.prems by auto
    note ends = Cons.IH [OF this]
    have IH: "poll_until_complete deadline ps evs = (x, Running) \<Longrightarrow> False" for ps x
      using ends [of ps] by simp
    show ?thesis using False ends by (auto dest: IH simp: Let_def split: poll_reply.split sum.split prod.split)
  qed
qed simp

lemma submit_ends:
  "a \<le> n \<Longrightarrow> length ts > n - a \<Longrightarrow> snd (submit_ingest data n a ts) \<noteq> Running"
proof (induction ts arbitrary: a)
  case (Cons t ts)
  have "a < n \<Longrightarrow> snd (submit_ingest data n (a + 1) ts) \<noteq> Running" using Cons.IH [of "a + 1"] Cons.prems by simp
  then show ?case by (auto simp: Let_def split: submit_reply.split prod.split)
qed simp

text \<open>
  C29. Handing a document to the retrieval service always ends: once four submissions have been answered and some poll has
  come after the deadline, the run is over, and it has posted the document at most four times and nothing else.
\<close>

theorem brain_job_ends:
  assumes "post_to_brain_and_report mw data v = (evs, out)"
    and "length (jv_submits v) > MAX_RETRIES" and "\<exists>ev \<in> set (jv_polls v). pv_time ev > jv_start v + mw"
  shows "out \<noteq> Running \<and> length (posts evs) \<le> MAX_RETRIES + 1 \<and> set (posts evs) \<subseteq> {data}"
proof -
  obtain es o1 where sub: "submit_ingest data MAX_RETRIES 0 (jv_submits v) = (es, o1)"
    by (cases "submit_ingest data MAX_RETRIES 0 (jv_submits v)")
  have o1: "o1 \<noteq> Running" using submit_ends [of 0 MAX_RETRIES "jv_submits v" data] assms(2) sub by simp
  have es: "length (posts es) \<le> MAX_RETRIES + 1 \<and> set (posts es) \<subseteq> {data}" using posts_submit [OF sub] by simp
  obtain ps o2 where poll: "poll_until_complete (jv_start v + mw) poll_start (jv_polls v) = (ps, o2)"
    by (cases "poll_until_complete (jv_start v + mw) poll_start (jv_polls v)")
  have "o2 \<noteq> Running" "posts ps = []" using poll_ends [OF assms(3), of poll_start] posts_poll [of "jv_start v + mw" poll_start "jv_polls v"] poll by simp_all
  then show ?thesis using assms(1) o1 es
    by (auto simp: post_to_brain_and_report_def sub poll split: progress.splits option.splits)
qed

subsection \<open>The status of the document\<close>

text \<open>The callbacks that arrive, one after the other; a refused one changes nothing.\<close>

definition deliver_one :: "int \<Rightarrow> uuid \<Rightarrow> uuid \<Rightarrow> wreport \<Rightarrow> kdoc list \<Rightarrow> kdoc list" where
  "deliver_one now org i r docs =
     (case update_document_status now org i (wr_status r) (Some (wr_details r)) docs of Inl _ \<Rightarrow> docs | Inr docs' \<Rightarrow> docs')"

fun deliver :: "int \<Rightarrow> uuid \<Rightarrow> uuid \<Rightarrow> wreport list \<Rightarrow> kdoc list \<Rightarrow> kdoc list" where
  "deliver now org i [] docs = docs"
| "deliver now org i (r # rs) docs = deliver now org i rs (deliver_one now org i r docs)"

text \<open>What the reports make of a status: the first terminal one stays.\<close>

fun final_status :: "string \<Rightarrow> wreport list \<Rightarrow> string" where
  "final_status s [] = s"
| "final_status s (r # rs) = (if s \<in> set terminal_statuses then s else final_status (wr_status r) rs)"

lemma final_status_terminal: "s \<in> set terminal_statuses \<Longrightarrow> final_status s rs = s"
  by (cases rs) simp_all

definition with_status :: "string \<Rightarrow> kdoc \<Rightarrow> kdoc \<Rightarrow> bool" where
  "with_status s d d' \<longleftrightarrow> kd_status d' = s \<and> same_place d d' \<and> kd_hash d' = kd_hash d \<and> kd_text d' = kd_text d \<and> kd_url d' = kd_url d
     \<and> kd_task d' = kd_task d"

lemma map_same_id:
  assumes "distinct (map do_id docs)" and "d \<in> set docs"
  shows "map (\<lambda>x. if do_id x = do_id d then f x else x) docs = map (\<lambda>x. if do_id x = do_id d then f d else x) docs"
proof (rule map_cong [OF refl])
  fix x assume x: "x \<in> set docs"
  show "(if do_id x = do_id d then f x else x) = (if do_id x = do_id d then f d else x)"
  proof (cases "do_id x = do_id d")
    case True
    then show ?thesis using distinct_map_eq [OF assms(1) x assms(2)] by simp
  qed simp
qed

lemma map_own_id: "distinct (map do_id docs) \<Longrightarrow> d \<in> set docs \<Longrightarrow> map (\<lambda>x. if do_id x = do_id d then d else x) docs = docs"
  using map_same_id [of docs d "\<lambda>x. x"] by simp

lemma if_same: "P b \<Longrightarrow> P c \<Longrightarrow> P (if a = b then a else c)"
  by simp

lemma deliver_step:
  assumes "distinct (map do_id docs)" and "d \<in> set docs" and "do_org d = org"
  obtains d' where "with_status (if kd_status d \<in> set terminal_statuses then kd_status d else wr_status r) d d'"
    and "deliver_one now org (do_id d) r docs = map (\<lambda>x. if do_id x = do_id d then d' else x) docs"
proof (cases "kd_status d \<in> set terminal_statuses")
  case True
  have "deliver_one now org (do_id d) r docs = docs"
    using True doc_get_unique [OF assms(1,2), of org] assms(3)
    by (simp add: deliver_one_def update_document_status_def update_status_def lift_doc_def Let_def)
  then have "deliver_one now org (do_id d) r docs = map (\<lambda>x. if do_id x = do_id d then d else x) docs"
    using map_same_id [OF assms(1,2), of "\<lambda>x. x"] by simp
  moreover have "with_status (kd_status d) d d" by (simp add: with_status_def same_place_def)
  ultimately show ?thesis using that True by simp
next
  case False
  let ?d1 = "d\<lparr>kd_status := wr_status r, kd_details := Some (wr_details r)\<rparr>"
  let ?f = "\<lambda>x. if x = ?d1 then x else ?d1\<lparr>kd_updated := Some now\<rparr>"
  have "deliver_one now org (do_id d) r docs = put_doc now ?d1 docs"
    using False doc_get_unique [OF assms(1,2), of org] assms(3)
    by (simp add: deliver_one_def update_document_status_def update_status_def lift_doc_def Let_def)
  then have upd: "deliver_one now org (do_id d) r docs = map (\<lambda>x. if do_id x = do_id d then ?f d else x) docs"
    using map_same_id [OF assms(1,2), of ?f] by (simp add: put_doc_map)
  have "with_status (wr_status r) d ?d1" "with_status (wr_status r) d (?d1\<lparr>kd_updated := Some now\<rparr>)"
    by (simp_all add: with_status_def same_place_def)
  then have "with_status (wr_status r) d (?f d)" using if_same [of "with_status (wr_status r) d" ?d1] by blast
  then show ?thesis using upd that [of "?f d"] False by simp
qed

lemma deliver_map:
  assumes "distinct (map do_id docs)" and "d \<in> set docs" and "do_org d = org"
  shows "\<exists>d'. with_status (final_status (kd_status d) rs) d d' \<and>
    deliver now org (do_id d) rs docs = map (\<lambda>x. if do_id x = do_id d then d' else x) docs"
  using assms
proof (induction rs arbitrary: docs d)
  case Nil
  then show ?case using map_own_id [OF Nil(1,2)] by (intro exI [of _ d]) (simp add: with_status_def same_place_def)
next
  case (Cons r rs)
  let ?s = "if kd_status d \<in> set terminal_statuses then kd_status d else wr_status r"
  obtain d1 where d1: "with_status ?s d d1"
    and upd: "deliver_one now org (do_id d) r docs =
      map (\<lambda>x. if do_id x = do_id d then d1 else x) docs"
    by (rule deliver_step [OF Cons.prems])
  let ?docs = "map (\<lambda>x. if do_id x = do_id d then d1 else x) docs"
  have id: "do_id d1 = do_id d" "do_org d1 = org" using d1 Cons.prems(3) by (simp_all add: with_status_def same_place_def)
  have "map do_id ?docs = map do_id docs" using id by auto
  then have "distinct (map do_id ?docs)" using Cons.prems(1) by (metis (no_types, lifting))
  moreover have "d1 \<in> set ?docs" using Cons.prems(2) by force
  ultimately obtain d2 where d2: "with_status (final_status (kd_status d1) rs) d1 d2"
    and del: "deliver now org (do_id d1) rs ?docs = map (\<lambda>x. if do_id x = do_id d1 then d2 else x) ?docs"
    using Cons.IH [OF _ _ id(2)] by blast
  have "final_status (kd_status d1) rs = final_status (kd_status d) (r # rs)"
    using d1 final_status_terminal by (auto simp: with_status_def)
  then have "with_status (final_status (kd_status d) (r # rs)) d d2"
    using d1 d2 same_place_trans unfolding with_status_def by metis
  moreover have "deliver now org (do_id d) (r # rs) docs = map (\<lambda>x. if do_id x = do_id d then d2 else x) docs"
    using del upd id by (auto simp: comp_def)
  ultimately show ?case by blast
qed

lemma final_status_append: "final_status s (xs @ ys) = final_status (final_status s xs) ys"
  by (induction xs arbitrary: s) (auto simp: final_status_terminal)

lemma final_status_shuffle:
  assumes "zs \<in> shuffles xs ys" and "\<And>q. q \<in> set xs \<Longrightarrow> wr_status q = PROCESSING \<or> wr_status q = a"
    and "\<And>q. q \<in> set ys \<Longrightarrow> wr_status q = PROCESSING \<or> wr_status q = b" and "\<exists>q \<in> set zs. wr_status q \<in> set terminal_statuses"
    and "s \<notin> set terminal_statuses"
  shows "final_status s zs \<in> {a, b}"
proof -
  have all: "wr_status q \<in> {PROCESSING, a, b}" if "q \<in> set zs" for q
    using set_shuffles [OF assms(1)] that assms(2,3) by blast
  from assms(4) obtain ps t qs where zs: "zs = ps @ t # qs" and t: "wr_status t \<in> set terminal_statuses"
    and ps: "\<forall>q \<in> set ps. wr_status q \<notin> set terminal_statuses"
    using split_list_first_prop [of zs "\<lambda>q. wr_status q \<in> set terminal_statuses"] by blast
  have "final_status s (ps @ t # qs) = wr_status t" using assms(5) ps
  proof (induction ps arbitrary: s)
    case Nil
    then show ?case using final_status_terminal [OF t] by simp
  qed simp
  then have "final_status s zs = wr_status t" by (simp add: zs)
  moreover have "wr_status t \<in> {PROCESSING, a, b}" using all [of t] by (simp add: zs)
  moreover have "wr_status t \<noteq> PROCESSING" using t by (auto simp: terminal_statuses_def status_defs)
  ultimately show ?thesis by auto
qed

text \<open>
  C27. A document whose ingest is open ends with the result of a run: when all callbacks of a finished run arrive, in any
  interleaving with those of a second run of the same task, its status is the result of one of the two, nothing that arrives
  later changes it, and no other document and no other column than status, details and time is touched.
\<close>

theorem first_result_settles:
  assumes "run_task mw k data v = (evs1, Finished r1)" and "run_task mw k' data' v' = (evs2, Finished r2)"
    and "zs \<in> shuffles (reports evs1) (reports evs2)"
    and "distinct (map do_id docs)" and "d \<in> set docs" and "do_org d = org" and "kd_status d \<notin> set terminal_statuses"
  shows "\<exists>s \<in> {result_status r1, result_status r2}. \<exists>d'. with_status s d d'
    \<and> deliver now org (do_id d) (zs @ later) docs = map (\<lambda>x. if do_id x = do_id d then d' else x) docs"
proof -
  obtain ps1 t1 where x: "reports evs1 = ps1 @ [t1]" "\<forall>q \<in> set ps1. wr_status q = PROCESSING" "wr_status t1 = result_status r1"
    using climbs_shape [OF climbs_run [OF assms(1)]] by blast
  obtain ps2 t2 where y: "reports evs2 = ps2 @ [t2]" "\<forall>q \<in> set ps2. wr_status q = PROCESSING" "wr_status t2 = result_status r2"
    using climbs_shape [OF climbs_run [OF assms(2)]] by blast
  have "t1 \<in> set zs" using set_shuffles [OF assms(3)] x(1) by auto
  then have ends: "\<exists>q \<in> set zs. wr_status q \<in> set terminal_statuses" using x(3) result_status_terminal by metis
  have fin: "final_status (kd_status d) zs \<in> {result_status r1, result_status r2}"
    by (rule final_status_shuffle [OF assms(3) _ _ ends assms(7)]) (use x y in auto)
  have "final_status (kd_status d) zs \<in> set terminal_statuses"
    using fin result_status_terminal by auto
  then have "final_status (kd_status d) (zs @ later) \<in> {result_status r1, result_status r2}"
    using fin by (simp add: final_status_append final_status_terminal)
  then show ?thesis using deliver_map [OF assms(4-6), of "zs @ later" now] by blast
qed


text \<open>The document a first write leaves, and the task it queues.\<close>

definition note_doc :: kdoc where
  "note_doc = \<lparr>do_id = ''d1'', do_org = ''o1'', do_folder = Some ''c'', do_key = ''key-d1'', do_title = ''Note'', do_tags = [], do_viewer = None,
     do_view_masks = [], kd_text = None, kd_url = Some ''o1/key-d1/n.txt'', kd_size = Some 3, kd_status = ''PENDING'', kd_details = Some [],
     kd_task = Some ''task-d1'', kd_metadata = Some [], kd_kg = None, kd_ref = Some ''r1'', kd_hash = Some ''h:one'', kd_contributor = None,
     kd_contrib_masks = [], kd_uploader = None, kd_created = 0, kd_updated = Some 0\<rparr>"

definition note_task :: ingest_task where
  "note_task = \<lparr>it_doc = ''d1'', it_tenant = ''o1'', it_key = ''key-d1'', it_title = ''Note'', it_tags = [''folder:c''], it_access_keys = [2293759],
     it_kg = True, it_metadata = [], it_source = Inl ''o1/key-d1/n.txt'', it_task = ''task-d1''\<rparr>"

definition note_state :: kstate where
  "note_state = empty_state\<lparr>ks_docs := [note_doc], ks_objects := [(''o1/key-d1/n.txt'', ''one'', ''text/plain'')], ks_tasks := [note_task]\<rparr>"

lemma note_state_upsert: "fst (upsert (good_env ''d1'' 0) writer note_v1 empty_state) = note_state"
  by code_simp

definition accepted :: submit_try where "accepted = \<lparr>sb_cancelled = False, sb_reply = Accepted\<rparr>"

definition poll_at :: "int \<Rightarrow> jdict \<Rightarrow> poll_event" where
  "poll_at t body = \<lparr>pv_cancelled = False, pv_time = t, pv_reply = Reply body\<rparr>"

definition good_view :: job_view where
  "good_view = \<lparr>jv_checks = [], jv_original = Inr ''one'', jv_text = Inr ''one'', jv_sidecar = False, jv_submits = [accepted], jv_start = 0,
     jv_polls = [poll_at 5 [(''state'', JStr ''running''), (''phase'', JStr ''embedding'')],
       poll_at 10 [(''state'', JStr ''done''), (''chunks'', JInt 3)]]\<rparr>"

definition bad_view :: job_view where
  "bad_view = good_view\<lparr>jv_submits := [\<lparr>sb_cancelled = False, sb_reply = SubmitTimeout ''timed out''\<rparr>]\<rparr>"


lemma good_run: "run_task 14400 (FileTask ''n.txt'' ''ocr'') note_task good_view =
  ([report_progress ''queued'', report_progress ''downloading'', report_progress ''extracting'', report_progress ''ingesting'',
    Post (note_task\<lparr>it_source := Inr (Some ''one'')\<rparr>),
    report_status PROCESSING [(''stage'', JStr ''embedding''), (''percent'', JInt 60)],
    report_status SUCCESS [(''chunks'', JInt 3), (''triplets'', JInt 0)]], Finished (JobSuccess 3 0))"
  by code_simp

lemma bad_run: "run_task 14400 TextTask note_task bad_view =
  ([report_progress ''queued'', report_progress ''ingesting'', Post note_task,
    report_status FAILED [(''error'', JStr ''submit_timeout''), (''message'', JStr ''timed out'')]], Finished (JobFailed (JStr ''timed out'')))"
  by code_simp

lemmas sample_reports = good_run bad_run progress_report report_status_def

theorem run_reports_climb_witness:
  "\<exists>evs. run_task 14400 (FileTask ''n.txt'' ''ocr'') note_task good_view = (evs, Finished (JobSuccess 3 0))
    \<and> climbs 5 (reports evs) (Finished (JobSuccess 3 0)) \<and> length (reports evs) = 6"
  using run_reports_climb [OF good_run] good_run by (simp add: report_status_def progress_report)

theorem brain_job_ends_witness:
  "\<exists>evs. post_to_brain_and_report 4 note_task (good_view\<lparr>jv_submits := replicate 4 \<lparr>sb_cancelled = False, sb_reply = ConnectFailure ''refused''\<rparr>\<rparr>)
      = (evs, Finished (JobFailed (JStr ''refused''))) \<and> length (posts evs) = 4"
proof -
  let ?v = "good_view\<lparr>jv_submits := replicate 4 \<lparr>sb_cancelled = False, sb_reply = ConnectFailure ''refused''\<rparr>\<rparr>"
  let ?evs = "replicate 4 (Post note_task) @ [report_status FAILED [(''error'', JStr ''network''), (''message'', JStr ''refused'')]]"
  have r: "post_to_brain_and_report 4 note_task ?v = (?evs, Finished (JobFailed (JStr ''refused'')))" by code_simp
  have "length (jv_submits ?v) > MAX_RETRIES" "\<exists>ev \<in> set (jv_polls ?v). pv_time ev > jv_start ?v + 4"
    by (simp_all add: MAX_RETRIES_def good_view_def poll_at_def)
  from brain_job_ends [OF r this] have "length (posts ?evs) \<le> 4" by (simp add: MAX_RETRIES_def)
  moreover have "length (posts ?evs) = 4" by (simp add: report_status_def numeral_eq_Suc)
  ultimately show ?thesis using r by blast
qed

lemma append_shuffles: "xs @ ys \<in> shuffles xs ys"
  by (induction xs) (auto intro: Cons_in_shuffles_leftI)

theorem first_result_settles_witness:
  "\<exists>zs s d'. s \<in> {SUCCESS, FAILED} \<and> with_status s note_doc d' \<and>
    deliver 20 ''o1'' ''d1'' zs [note_doc] = map (\<lambda>x. if do_id x = ''d1'' then d' else x) [note_doc] \<and> length zs = 9"
proof -
  let ?a = "reports (fst (run_task 14400 (FileTask ''n.txt'' ''ocr'') note_task good_view))"
  let ?b = "reports (fst (run_task 14400 TextTask note_task bad_view))"
  have len: "length (?a @ ?b) = 9" by (simp add: good_run bad_run progress_report report_status_def del: run_task.simps)
  have sh: "?a @ ?b \<in> shuffles ?a ?b" by (rule append_shuffles)
  have d: "do_id note_doc = ''d1''" "do_org note_doc = ''o1''" "kd_status note_doc \<notin> set terminal_statuses"
    by (simp_all add: note_doc_def terminal_statuses_def status_defs)
  have runs: "run_task 14400 (FileTask ''n.txt'' ''ocr'') note_task good_view = (fst (run_task 14400 (FileTask ''n.txt'' ''ocr'') note_task good_view), Finished (JobSuccess 3 0))"
    "run_task 14400 TextTask note_task bad_view = (fst (run_task 14400 TextTask note_task bad_view), Finished (JobFailed (JStr ''timed out'')))"
    by (simp_all add: good_run bad_run del: run_task.simps)
  from first_result_settles [OF runs sh _ _ d(2,3), of "[note_doc]" 20 "[]"]
  have "\<exists>s \<in> {SUCCESS, FAILED}. \<exists>d'. with_status s note_doc d' \<and>
      deliver 20 ''o1'' ''d1'' (?a @ ?b) [note_doc] = map (\<lambda>x. if do_id x = ''d1'' then d' else x) [note_doc]"
    unfolding append_Nil2 d(1) result_status.simps by simp
  then show ?thesis using len by blast
qed

subsection \<open>Two gaps\<close>

text \<open>
  A write that replaces a document whose ingest is stuck queues a second task, and the callbacks name the document, not the task:
  the success of the superseded task settles the new version, and the failure of its own ingest is then ignored.
\<close>

theorem superseded_task_settles_new_version:
  "let (s, r) = upsert (good_env ''d2'' 1000) writer (note_v1\<lparr>di_content := ''two''\<rparr>) note_state;
       old = reports (fst (run_task 14400 (FileTask ''n.txt'' ''ocr'') note_task good_view));
       new = reports (fst (run_task 14400 (FileTask ''n.txt'' ''ocr'') (last (ks_tasks s)) bad_view));
       docs = deliver 1010 ''o1'' ''d1'' old (ks_docs s)
    in map_sum id fst r = Inr Updated \<and> length (ks_tasks s) = 2
       \<and> map (\<lambda>d. (kd_status d, kd_hash d)) docs = [(SUCCESS, Some ''h:two'')]
       \<and> map kd_status (deliver 1020 ''o1'' ''d1'' new docs) = [SUCCESS]"
  by code_simp

text \<open>
  A transport error other than a refused connection or a timeout, such as a connection that is reset while the request is sent, leaves the task with
  no terminal report: the document stays PROCESSING, every new version is then refused as in flight, and the same content as unchanged.
\<close>

theorem reset_connection_blocks_document:
  "let (evs, out) = run_task 14400 TextTask note_task (good_view\<lparr>jv_submits := [\<lparr>sb_cancelled = False, sb_reply = OtherTransport\<rparr>]\<rparr>);
        s = note_state\<lparr>ks_docs := deliver 10 ''o1'' ''d1'' (reports evs) (ks_docs note_state)\<rparr>
    in out = Raised \<and> map kd_status (ks_docs s) = [PROCESSING]
       \<and> snd (upsert (good_env ''d2'' 1000000) writer (note_v1\<lparr>di_content := ''two''\<rparr>) s) = Inl (WriteError 409 IN_FLIGHT_DETAIL)
       \<and> map_sum id fst (snd (upsert (good_env ''d2'' 1000000) writer note_v1 s)) = Inr Unchanged"
  by code_simp

end
