(* ===== verification/Chunker.thy ===== *)
theory Chunker
  imports Py_Text
begin

section \<open>Chunking text for the retrieval index\<close>

text \<open>
  The chunker of the retrieval SDK (\<open>src/packages/brain_sdk/src/brain_sdk/chunking/chunker.py\<close>). The sentence splitter
  and the tokenizer are third-party packages: \<open>split\<close> is the list of sentences of a text and \<open>count\<close> the number of
  tokens of a sentence. The loop over the sentences has the iteration limit of the code. The separator of section
  titles is the three bytes of its character between blanks.
\<close>

subsection \<open>Chunks of sentences\<close>

datatype chunk_error = ChunkSizeError | IterationLimit

definition MAX_ITERATIONS :: nat where "MAX_ITERATIONS = 10000000"

record chunk_state =
  ck_chunks :: "string list"
  ck_current :: "string list"
  ck_count :: int
  ck_i :: nat

text \<open>The tail of the current chunk that is kept: \<open>j\<close> is one more than in the code.\<close>

fun overlap_tail :: "int list \<Rightarrow> nat \<Rightarrow> string list \<Rightarrow> int \<Rightarrow> nat \<Rightarrow> string list \<Rightarrow> int \<Rightarrow> string list \<times> int" where
  "overlap_tail lens i current overlap 0 kept n = (kept, n)"
| "overlap_tail lens i current overlap (Suc j) kept n =
     (let s_len = lens ! (i - (length current - j))
      in if n + s_len > overlap then (kept, n)
         else overlap_tail lens i current overlap j (current ! j # kept) (n + s_len))"

definition chunk_step :: "string list \<Rightarrow> int list \<Rightarrow> int \<Rightarrow> int \<Rightarrow> chunk_state \<Rightarrow> chunk_state" where
  "chunk_step sentences lens max_tokens overlap st =
     (let i = ck_i st; sentence = sentences ! i; token_count = lens ! i;
          joined = join_with '' '' (ck_current st)
      in if token_count > max_tokens then
           (if ck_current st \<noteq> [] then st\<lparr>ck_chunks := ck_chunks st @ [joined, sentence], ck_current := [], ck_count := 0, ck_i := i + 1\<rparr>
            else st\<lparr>ck_chunks := ck_chunks st @ [sentence], ck_i := i + 1\<rparr>)
         else if ck_count st + token_count \<le> max_tokens then
           st\<lparr>ck_current := ck_current st @ [sentence], ck_count := ck_count st + token_count, ck_i := i + 1\<rparr>
         else let (kept, n) = overlap_tail lens i (ck_current st) overlap (length (ck_current st)) [] 0
           in st\<lparr>ck_chunks := ck_chunks st @ [joined], ck_current := kept, ck_count := n\<rparr>)"

fun chunk_loop :: "string list \<Rightarrow> int list \<Rightarrow> int \<Rightarrow> int \<Rightarrow> nat \<Rightarrow> chunk_state \<Rightarrow> (chunk_error, chunk_state) result" where
  "chunk_loop sentences lens max_tokens overlap 0 st = (if ck_i st < length sentences then Inl IterationLimit else Inr st)"
| "chunk_loop sentences lens max_tokens overlap (Suc n) st =
     (if ck_i st < length sentences then chunk_loop sentences lens max_tokens overlap n (chunk_step sentences lens max_tokens overlap st) else Inr st)"

definition chunk_start :: chunk_state where
  "chunk_start = \<lparr>ck_chunks = [], ck_current = [], ck_count = 0, ck_i = 0\<rparr>"

definition last_chunk :: "chunk_state \<Rightarrow> string list" where
  "last_chunk st = ck_chunks st @ (if ck_current st \<noteq> [] then [join_with '' '' (ck_current st)] else [])"

definition sentence_chunks :: "(string \<Rightarrow> string list) \<Rightarrow> (string \<Rightarrow> nat) \<Rightarrow> string \<Rightarrow> int \<Rightarrow> int \<Rightarrow> (chunk_error, string list) result" where
  "sentence_chunks split count full_text max_tokens overlap =
     (if full_text = [] then Inr []
      else if max_tokens \<le> overlap then Inl ChunkSizeError
      else let sentences = split full_text
        in bind_res (chunk_loop sentences (map (\<lambda>s. int (count s)) sentences) max_tokens overlap MAX_ITERATIONS chunk_start)
             (\<lambda>st. Inr (last_chunk st)))"

definition chunk_text :: "(string \<Rightarrow> string list) \<Rightarrow> (string \<Rightarrow> nat) \<Rightarrow> string \<Rightarrow> (chunk_error, string list) result" where
  "chunk_text split count full_text = sentence_chunks split count full_text 500 20"

subsection \<open>Headings\<close>

definition is_blank :: "char \<Rightarrow> bool" where
  "is_blank c \<longleftrightarrow> c = CHR '' '' \<or> c = chr_of 9"

text \<open>What may follow the title: blanks, number signs, blanks.\<close>

definition heading_end :: "string \<Rightarrow> bool" where
  "heading_end s = (dropWhile is_blank (dropWhile (\<lambda>c. c = CHR ''#'') (dropWhile is_blank s)) = [])"

text \<open>The shortest title, given the characters it already has.\<close>

fun heading_title :: "string \<Rightarrow> string \<Rightarrow> string" where
  "heading_title acc [] = acc"
| "heading_title acc (c # s) = (if heading_end s then acc @ [c] else heading_title (acc @ [c]) s)"

definition heading_of :: "string \<Rightarrow> (nat \<times> string) option" where
  "heading_of line =
     (let indent = length (takeWhile (\<lambda>c. c = CHR '' '') line); s = drop indent line;
          level = length (takeWhile (\<lambda>c. c = CHR ''#'') s); s1 = drop level s;
          blanks = takeWhile is_blank s1; s2 = drop (length blanks) s1
      in if indent > 3 \<or> level = 0 \<or> level > 6 \<or> blanks = [] then None
         else if s2 \<noteq> [] then Some (level, heading_title [] s2)
         else if length blanks \<ge> 2 then Some (level, [last blanks]) else None)"

definition SECTION_SEP :: string where
  "SECTION_SEP = '' '' @ map chr_of [226, 128, 186] @ '' ''"

record section_state =
  sc_segments :: "(string option \<times> string) list"
  sc_stack :: "(nat \<times> string) list"
  sc_lines :: "string list"
  sc_section :: "string option"

definition section_flush :: "section_state \<Rightarrow> (string option \<times> string) list" where
  "section_flush st = (let body = strip (join_with [chr_of 10] (sc_lines st))
     in if body \<noteq> [] then sc_segments st @ [(sc_section st, body)] else sc_segments st)"

text \<open>The stack, its last heading on top as the last element.\<close>

definition push_heading :: "nat \<Rightarrow> string \<Rightarrow> (nat \<times> string) list \<Rightarrow> (nat \<times> string) list" where
  "push_heading level title stack = rev (dropWhile (\<lambda>(l, _). l \<ge> level) (rev stack)) @ [(level, title)]"

definition section_line :: "string \<Rightarrow> section_state \<Rightarrow> section_state" where
  "section_line line st = (case heading_of line of
       None \<Rightarrow> st\<lparr>sc_lines := sc_lines st @ [line]\<rparr>
     | Some (level, title) \<Rightarrow> (let stack = push_heading level (strip title) (sc_stack st)
         in st\<lparr>sc_segments := section_flush st, sc_stack := stack, sc_section := Some (join_with SECTION_SEP (map snd stack)),
              sc_lines := [line]\<rparr>))"

definition section_start :: section_state where
  "section_start = \<lparr>sc_segments = [], sc_stack = [], sc_lines = [], sc_section = None\<rparr>"

definition split_by_headings :: "string \<Rightarrow> (string option \<times> string) list" where
  "split_by_headings full_text =
     (let segments = section_flush (fold section_line (split_on (chr_of 10) full_text) section_start)
      in if segments \<noteq> [] then segments else [(None, strip full_text)])"

definition sectioned_chunks ::
  "(string \<Rightarrow> string list) \<Rightarrow> (string \<Rightarrow> nat) \<Rightarrow> string \<Rightarrow> int \<Rightarrow> int \<Rightarrow> (chunk_error, (string \<times> string option) list) result" where
  "sectioned_chunks split count full_text max_tokens overlap =
     (if full_text = [] then Inr []
      else bind_res (map_res (\<lambda>(sec, segment). bind_res (sentence_chunks split count segment max_tokens overlap)
             (\<lambda>cs. Inr (map (\<lambda>c. (c, sec)) cs))) (split_by_headings full_text)) (\<lambda>css. Inr (concat css)))"

end
