(* ===== verification/Chunker_Props.thy ===== *)
theory Chunker_Props
  imports Chunker
begin

section \<open>Properties of the chunker\<close>

text \<open>
  Chunks are described by the ranges of the sentences they join. A run that ends leaves ranges that cover all
  sentences, each within the limit or a single sentence, each but the first starting with the longest overlap allowed. It ends when every
  sentence that fits a chunk leaves room for the overlap, and never ends when one that does not follows a short sentence.
\<close>

subsection \<open>Ranges of sentences\<close>

definition slice :: "nat \<Rightarrow> nat \<Rightarrow> 'a list \<Rightarrow> 'a list" where
  "slice x y xs = take (y - x) (drop x xs)"

definition tokens :: "int list \<Rightarrow> nat \<Rightarrow> nat \<Rightarrow> int" where
  "tokens L x y = sum_list (slice x y L)"

lemma slice_same [simp]: "slice x x xs = []"
  by (simp add: slice_def)

lemma tokens_same [simp]: "tokens L x x = 0"
  by (simp add: tokens_def)

lemma length_slice: "y \<le> length xs \<Longrightarrow> length (slice x y xs) = y - x"
  by (simp add: slice_def)

lemma nth_slice: "y \<le> length xs \<Longrightarrow> j < y - x \<Longrightarrow> slice x y xs ! j = xs ! (x + j)"
  by (simp add: slice_def)

lemma slice_Suc: "x \<le> y \<Longrightarrow> y < length xs \<Longrightarrow> slice x (Suc y) xs = slice x y xs @ [xs ! y]"
  by (simp add: slice_def take_Suc_conv_app_nth Suc_diff_le)

lemma slice_Cons: "x < y \<Longrightarrow> y \<le> length xs \<Longrightarrow> slice x y xs = xs ! x # slice (Suc x) y xs"
  using Cons_nth_drop_Suc [of x xs, symmetric] Suc_diff_Suc [of x y, symmetric] by (simp add: slice_def)

lemma tokens_Suc: "x \<le> y \<Longrightarrow> y < length L \<Longrightarrow> tokens L x (Suc y) = tokens L x y + L ! y"
  by (simp add: tokens_def slice_Suc)

lemma tokens_Cons: "x < y \<Longrightarrow> y \<le> length L \<Longrightarrow> tokens L x y = L ! x + tokens L (Suc x) y"
  by (simp add: tokens_def slice_Cons)

lemma slice_eq_Nil: "y \<le> length xs \<Longrightarrow> slice x y xs = [] \<longleftrightarrow> y \<le> x"
  by (auto simp: slice_def)

lemma tokens_nonneg: "\<forall>n \<in> set L. 0 \<le> n \<Longrightarrow> 0 \<le> tokens L x y"
  unfolding tokens_def slice_def by (rule sum_list_nonneg) (auto dest: in_set_takeD in_set_dropD)

lemma tokens_mono_start:
  assumes "\<forall>n \<in> set L. 0 \<le> n" and "x \<le> x'" and "x' \<le> y" and "y \<le> length L"
  shows "tokens L x' y \<le> tokens L x y"
  using assms(2,3)
proof (induction rule: inc_induct)
  case (step m)
  then have "tokens L m y = L ! m + tokens L (Suc m) y" using assms(3,4) by (intro tokens_Cons) simp_all
  moreover have "0 \<le> L ! m" using assms(1,4) step(2,3) assms(3) by (simp add: nth_mem)
  ultimately show ?case using step by simp
qed simp

lemma tokens_mono_end:
  assumes "\<forall>n \<in> set L. 0 \<le> n" and "y \<le> y'" and "x \<le> y" and "y' \<le> length L"
  shows "tokens L x y \<le> tokens L x y'"
  using assms(2,4)
proof (induction rule: dec_induct)
  case (step m)
  then have "tokens L x (Suc m) = tokens L x m + L ! m" using assms(3) by (intro tokens_Suc) simp_all
  moreover have "0 \<le> L ! m" using assms(1) step.prems by (simp add: nth_mem)
  ultimately show ?case using step by simp
qed simp

text \<open>The overlap of a chunk: the longest tail within the limit.\<close>

definition longest_tail :: "int list \<Rightarrow> int \<Rightarrow> nat \<Rightarrow> nat \<Rightarrow> nat \<Rightarrow> bool" where
  "longest_tail L overlap x y x' \<longleftrightarrow> x \<le> x' \<and> x' \<le> y \<and> tokens L x' y \<le> max 0 overlap \<and> (x' = x \<or> overlap < tokens L (x' - 1) y)"

lemma overlap_tail_range:
  assumes "x \<le> i" and "i \<le> length ss" and "length ss = length L" and "j \<le> i - x" and "tokens L (x + j) i \<le> max 0 overlap"
  shows "\<exists>x'. overlap_tail L i (slice x i ss) overlap j (slice (x + j) i ss) (tokens L (x + j) i) = (slice x' i ss, tokens L x' i)
    \<and> longest_tail L overlap x i x'"
  using assms(4,5)
proof (induction j)
  case 0
  then show ?case using assms(1) by (intro exI [of _ x]) (simp add: longest_tail_def)
next
  case (Suc j)
  have idx: "i - (length (slice x i ss) - j) = x + j" using Suc.prems(1) assms(1,2) by (simp add: length_slice)
  have cur: "slice x i ss ! j = ss ! (x + j)" using Suc.prems(1) assms(2) by (simp add: nth_slice)
  have tok: "tokens L (x + j) i = L ! (x + j) + tokens L (Suc (x + j)) i"
    using Suc.prems(1) assms(2,3) by (intro tokens_Cons) auto
  have sl: "slice (x + j) i ss = ss ! (x + j) # slice (Suc (x + j)) i ss"
    using Suc.prems(1) assms(2) by (intro slice_Cons) auto
  show ?case
  proof (cases "tokens L (Suc (x + j)) i + L ! (x + j) > overlap")
    case True
    then show ?thesis using Suc.prems assms(1) tok
      by (intro exI [of _ "Suc (x + j)"]) (auto simp: idx longest_tail_def)
  next
    case False
    then have "tokens L (x + j) i \<le> max 0 overlap" using tok by simp
    from Suc.IH [OF _ this] Suc.prems(1) obtain x' where
      x': "overlap_tail L i (slice x i ss) overlap j (slice (x + j) i ss) (tokens L (x + j) i) = (slice x' i ss, tokens L x' i)"
      "longest_tail L overlap x i x'" by auto
    moreover have "overlap_tail L i (slice x i ss) overlap (Suc j) (slice (x + Suc j) i ss) (tokens L (x + Suc j) i)
      = overlap_tail L i (slice x i ss) overlap j (slice (x + j) i ss) (tokens L (x + j) i)"
      using False sl tok by (simp add: idx cur add.commute [of "L ! (x + j)"])
    ultimately show ?thesis by metis
  qed
qed

subsection \<open>The loop\<close>

text \<open>
  Two chunks in a row: the second reaches further, and starts in the first with the longest overlap allowed,
  or is a single sentence beyond the limit.
\<close>

definition follows :: "int list \<Rightarrow> int \<Rightarrow> int \<Rightarrow> nat \<times> nat \<Rightarrow> nat \<times> nat \<Rightarrow> bool" where
  "follows L max_tokens overlap r r' \<longleftrightarrow> snd r < snd r'
     \<and> (longest_tail L overlap (fst r) (snd r) (fst r') \<or> fst r' = snd r \<and> max_tokens < L ! snd r \<and> snd r' = Suc (snd r))"

definition fits :: "int list \<Rightarrow> int \<Rightarrow> nat \<times> nat \<Rightarrow> bool" where
  "fits L max_tokens r \<longleftrightarrow> fst r < snd r \<and> snd r \<le> length L \<and> (tokens L (fst r) (snd r) \<le> max_tokens \<or> snd r = Suc (fst r))"

text \<open>How the current chunk, from \<open>x\<close> to \<open>i\<close>, goes on from the chunks so far.\<close>

definition continues :: "int list \<Rightarrow> int \<Rightarrow> int \<Rightarrow> (nat \<times> nat) list \<Rightarrow> nat \<Rightarrow> nat \<Rightarrow> bool" where
  "continues L max_tokens overlap rs x i \<longleftrightarrow> (if rs = [] then x = 0 else fst (hd rs) = 0
     \<and> longest_tail L overlap (fst (last rs)) (snd (last rs)) x \<and> snd (last rs) \<le> i
     \<and> (snd (last rs) = i \<longrightarrow> x = i \<or> i < length L \<and> L ! i \<le> max_tokens))"

definition chunk_of :: "string list \<Rightarrow> nat \<times> nat \<Rightarrow> string" where
  "chunk_of ss r = join_with '' '' (slice (fst r) (snd r) ss)"

definition chunked :: "string list \<Rightarrow> int list \<Rightarrow> int \<Rightarrow> int \<Rightarrow> chunk_state \<Rightarrow> (nat \<times> nat) list \<Rightarrow> nat \<Rightarrow> bool" where
  "chunked ss L max_tokens overlap st rs x \<longleftrightarrow> ck_chunks st = map (chunk_of ss) rs
     \<and> x \<le> ck_i st \<and> ck_i st \<le> length L \<and> ck_current st = slice x (ck_i st) ss \<and> ck_count st = tokens L x (ck_i st)
     \<and> ck_count st \<le> max_tokens \<and> list_all (fits L max_tokens) rs \<and> successively (follows L max_tokens overlap) rs
     \<and> continues L max_tokens overlap rs x (ck_i st)"

definition stuck :: "int list \<Rightarrow> int \<Rightarrow> int \<Rightarrow> chunk_state \<Rightarrow> bool" where
  "stuck L max_tokens overlap st \<longleftrightarrow> ck_i st < length L \<and> L ! ck_i st \<le> max_tokens \<and> ck_count st + L ! ck_i st > max_tokens \<and> ck_count st \<le> overlap"

lemma fst_hd_append: "continues L m ov rs x i \<Longrightarrow> fst (hd (rs @ [(x, y)])) = 0"
  by (cases rs) (simp_all add: continues_def)

lemma follows_last:
  assumes "continues L m ov rs x i" and "rs \<noteq> []" and "snd (last rs) < y"
  shows "follows L m ov (last rs) (x, y)"
  using assms by (simp add: continues_def follows_def)

lemma successively_snoc: "successively P (xs @ [y]) \<longleftrightarrow> successively P xs \<and> (xs = [] \<or> P (last xs) y)"
  by (simp add: successively_append_iff)

lemma overlap_tail_current:
  assumes "x \<le> i" and "i \<le> length ss" and "length ss = length L"
  shows "\<exists>x'. overlap_tail L i (slice x i ss) overlap (length (slice x i ss)) [] 0 = (slice x' i ss, tokens L x' i)
    \<and> longest_tail L overlap x i x'"
  using overlap_tail_range [OF assms, of "i - x" overlap] assms by (simp add: length_slice)

lemma chunked_close:
  assumes "chunked ss L m ov st rs x" and "x < ck_i st" and "rs \<noteq> [] \<Longrightarrow> snd (last rs) < ck_i st"
  shows "list_all (fits L m) (rs @ [(x, ck_i st)]) \<and> successively (follows L m ov) (rs @ [(x, ck_i st)])
    \<and> map (chunk_of ss) (rs @ [(x, ck_i st)]) = ck_chunks st @ [join_with '' '' (ck_current st)] \<and> fst (hd (rs @ [(x, ck_i st)])) = 0"
  using assms follows_last [of L m ov rs x "ck_i st" "ck_i st"] fst_hd_append [of L m ov rs x "ck_i st" "ck_i st"]
  by (auto simp: chunked_def successively_snoc fits_def chunk_of_def)

lemma chunk_step_chunked:
  assumes ch: "chunked ss L m ov st rs x" and i: "ck_i st < length L" and len: "length ss = length L" and ov: "ov < m"
    and nn: "\<forall>n \<in> set L. 0 \<le> n" and ns: "\<not> stuck L m ov st"
  shows "\<exists>rs' x'. chunked ss L m ov (chunk_step ss L m ov st) rs' x'"
proof -
  let ?i = "ck_i st"
  have st: "x \<le> ?i" "ck_current st = slice x ?i ss" "ck_count st = tokens L x ?i" "continues L m ov rs x ?i" "ck_count st \<le> m"
    using ch by (simp_all add: chunked_def)
  have cur: "ck_current st = [] \<longleftrightarrow> x = ?i" using st(1,2) i len by (auto simp: slice_eq_Nil)
  have li: "0 \<le> L ! ?i" using nn i by simp
  have one: "tokens L ?i (Suc ?i) = L ! ?i" "slice ?i (Suc ?i) ss = [ss ! ?i]" using i len by (simp_all add: tokens_Suc slice_Suc)
  consider (long) "L ! ?i > m" | (accept) "L ! ?i \<le> m" "ck_count st + L ! ?i \<le> m" | (full) "L ! ?i \<le> m" "ck_count st + L ! ?i > m"
    by linarith
  then show ?thesis
  proof cases
    case long
    have tail: "longest_tail L ov ?i (Suc ?i) (Suc ?i)" using long ov one(1) by (simp add: longest_tail_def)
    show ?thesis
    proof (cases "x = ?i")
      case True
      have "follows L m ov (last rs) (?i, Suc ?i)" if "rs \<noteq> []"
        using follows_last [OF st(4) that, of "Suc ?i"] st(4) that True by (simp add: continues_def)
      then have "chunked ss L m ov (chunk_step ss L m ov st) (rs @ [(?i, Suc ?i)]) (Suc ?i)"
        using ch long True cur tail i one fst_hd_append [OF st(4), of "Suc ?i"] ov li st(5)
        by (auto simp: chunked_def chunk_step_def Let_def successively_snoc fits_def chunk_of_def continues_def)
      then show ?thesis by blast
    next
      case False
      then have lt: "x < ?i" using st(1) by simp
      have "snd (last rs) < ?i" if "rs \<noteq> []" using st(4) that False long by (auto simp: continues_def)
      note close = chunked_close [OF ch lt this]
      have "follows L m ov (x, ?i) (?i, Suc ?i)" using long by (simp add: follows_def)
      then have "successively (follows L m ov) (rs @ [(x, ?i), (?i, Suc ?i)])" using close by (auto simp: successively_append_iff)
      then have "chunked ss L m ov (chunk_step ss L m ov st) ((rs @ [(x, ?i)]) @ [(?i, Suc ?i)]) (Suc ?i)"
        using ch close long False cur tail i one ov li st(5) tokens_nonneg [OF nn, of x ?i]
        by (auto simp: chunked_def chunk_step_def Let_def successively_snoc fits_def chunk_of_def continues_def hd_append)
      then show ?thesis by blast
    qed
  next
    case accept
    then have "chunked ss L m ov (chunk_step ss L m ov st) rs x"
      using ch i len st(1) by (auto simp: chunked_def chunk_step_def Let_def slice_Suc tokens_Suc continues_def)
    then show ?thesis by blast
  next
    case full
    then have "ck_count st > 0" by linarith
    then have lt: "x < ?i" using st(1,3) by (cases "x = ?i") auto
    have "snd (last rs) < ?i" if "rs \<noteq> []"
    proof (rule ccontr)
      assume "\<not> snd (last rs) < ?i"
      then have "tokens L x ?i \<le> max 0 ov" using st(4) that by (auto simp: continues_def longest_tail_def)
      then show False using ns full i st(3) \<open>ck_count st > 0\<close> by (auto simp: stuck_def)
    qed
    note close = chunked_close [OF ch lt this]
    obtain x' where x': "overlap_tail L ?i (ck_current st) ov (length (ck_current st)) [] 0 = (slice x' ?i ss, tokens L x' ?i)"
      "longest_tail L ov x ?i x'"
      using overlap_tail_current [of x ?i ss L ov] st(1,2) i len by auto
    have "tokens L x' ?i \<le> m" using x'(2) st(3,5) tokens_mono_start [OF nn, of x x' ?i] i by (simp add: longest_tail_def)
    then have "chunked ss L m ov (chunk_step ss L m ov st) (rs @ [(x, ?i)]) x'"
      using ch close full x' i by (simp add: chunked_def chunk_step_def Let_def continues_def longest_tail_def)
    then show ?thesis by blast
  qed
qed

text \<open>A stuck state only repeats its chunk.\<close>

definition current_from :: "string list \<Rightarrow> int list \<Rightarrow> chunk_state \<Rightarrow> nat \<Rightarrow> bool" where
  "current_from ss L st x \<longleftrightarrow> x \<le> ck_i st \<and> ck_i st \<le> length ss \<and> ck_current st = slice x (ck_i st) ss \<and> ck_count st = tokens L x (ck_i st)"

lemma chunk_step_stuck:
  assumes st: "current_from ss L st x" and len: "length ss = length L" and nn: "\<forall>n \<in> set L. 0 \<le> n" and "stuck L m ov st"
  shows "stuck L m ov (chunk_step ss L m ov st) \<and> current_from ss L (chunk_step ss L m ov st) x"
proof -
  let ?i = "ck_i st"
  obtain x' where x': "overlap_tail L ?i (ck_current st) ov (length (ck_current st)) [] 0 = (slice x' ?i ss, tokens L x' ?i)"
    "longest_tail L ov x ?i x'"
    using overlap_tail_current [of x ?i ss L ov] st len by (auto simp: current_from_def)
  have "x' = x"
  proof (rule ccontr)
    assume "x' \<noteq> x"
    then have b: "ov < tokens L (x' - 1) ?i" "x \<le> x' - 1" "x' - 1 \<le> ?i" using x'(2) by (auto simp: longest_tail_def)
    have "tokens L (x' - 1) ?i \<le> tokens L x ?i"
      using tokens_mono_start [OF nn b(2,3)] st len by (simp add: current_from_def)
    then show False using assms(4) st b(1) by (simp add: stuck_def current_from_def)
  qed
  then show ?thesis using assms(4) st x' by (simp add: stuck_def chunk_step_def Let_def current_from_def)
qed

lemma chunk_loop_stuck:
  assumes "length ss = length L" and "\<forall>n \<in> set L. 0 \<le> n"
  shows "current_from ss L st x \<Longrightarrow> stuck L m ov st \<Longrightarrow> chunk_loop ss L m ov n st = Inl IterationLimit"
proof (induction n arbitrary: st)
  case 0
  then show ?case using assms by (simp add: stuck_def)
next
  case (Suc n)
  then have "stuck L m ov (chunk_step ss L m ov st)" "current_from ss L (chunk_step ss L m ov st) x"
    using chunk_step_stuck [OF Suc.prems(1) assms Suc.prems(2)] by simp_all
  then show ?case using Suc.IH [of "chunk_step ss L m ov st"] Suc.prems(2) assms(1) by (simp add: stuck_def)
qed

lemma chunked_current: "chunked ss L m ov st rs x \<Longrightarrow> length ss = length L \<Longrightarrow> current_from ss L st x"
  by (simp add: chunked_def current_from_def)

lemma chunk_loop_chunked:
  assumes "length ss = length L" and "\<forall>n \<in> set L. 0 \<le> n" and "ov < m"
  shows "chunked ss L m ov st rs x \<Longrightarrow> chunk_loop ss L m ov n st = Inr st' \<Longrightarrow>
    \<exists>rs' x'. chunked ss L m ov st' rs' x' \<and> length L \<le> ck_i st'"
proof (induction n arbitrary: st rs x)
  case 0
  then show ?case using assms(1) by (auto split: if_splits)
next
  case (Suc n)
  show ?case
  proof (cases "ck_i st < length L")
    case True
    have "\<not> stuck L m ov st" using chunk_loop_stuck [OF assms(1,2) chunked_current [OF Suc.prems(1) assms(1)], of m ov "Suc n"] Suc.prems(2) by auto
    then obtain rs' x' where "chunked ss L m ov (chunk_step ss L m ov st) rs' x'"
      using chunk_step_chunked [OF Suc.prems(1) True assms(1,3,2)] by blast
    from Suc.IH [OF this] Suc.prems(2) True assms(1) show ?thesis by simp
  next
    case False
    then show ?thesis using Suc.prems assms(1) by auto
  qed
qed

lemma chunked_start: "0 \<le> m \<Longrightarrow> chunked ss L m ov chunk_start [] 0"
  by (simp add: chunked_def chunk_start_def continues_def)

subsection \<open>What a run yields\<close>

text \<open>The ranges of a complete chunking.\<close>

definition chunking :: "int list \<Rightarrow> int \<Rightarrow> int \<Rightarrow> (nat \<times> nat) list \<Rightarrow> bool" where
  "chunking L max_tokens overlap rs \<longleftrightarrow> list_all (fits L max_tokens) rs \<and> successively (follows L max_tokens overlap) rs
     \<and> (rs \<noteq> [] \<longrightarrow> fst (hd rs) = 0) \<and> (\<forall>k < length L. \<exists>r \<in> set rs. fst r \<le> k \<and> k < snd r)"

definition lengths :: "(string \<Rightarrow> nat) \<Rightarrow> string list \<Rightarrow> int list" where
  "lengths count ss = map (\<lambda>s. int (count s)) ss"

lemma lengths_simps [simp]: "length (lengths count ss) = length ss" "\<forall>n \<in> set (lengths count ss). 0 \<le> n"
  by (auto simp: lengths_def)

lemma follows_covers:
  assumes "successively (follows L m ov) rs" and "rs \<noteq> []" and "fst (hd rs) \<le> k" and "k < snd (last rs)"
  shows "\<exists>r \<in> set rs. fst r \<le> k \<and> k < snd r"
  using assms
proof (induction rs rule: induct_list012)
  case (3 r r' rs)
  show ?case
  proof (cases "k < snd r")
    case False
    have "fst r' \<le> snd r" using "3.prems"(1) by (auto simp: follows_def longest_tail_def)
    then have "\<exists>q \<in> set (r' # rs). fst q \<le> k \<and> k < snd q" using 3 False by (intro "3.IH"(2)) auto
    then show ?thesis by auto
  qed (use 3 in auto)
qed auto

lemma chunked_final:
  assumes "chunked ss L m ov st rs x" and "length L \<le> ck_i st" and "length ss = length L"
  shows "\<exists>rs. last_chunk st = map (chunk_of ss) rs \<and> chunking L m ov rs"
proof -
  have i: "ck_i st = length L" and x: "x \<le> length L" using assms(1,2) by (simp_all add: chunked_def)
  have cont: "continues L m ov rs x (length L)" using assms(1) i by (simp add: chunked_def)
  show ?thesis
  proof (cases "x = length L")
    case True
    then have "last_chunk st = map (chunk_of ss) rs" using assms(1) i by (simp add: chunked_def last_chunk_def)
    moreover have "chunking L m ov rs"
      using assms(1) cont True follows_covers [of L m ov rs]
      by (auto simp: chunking_def chunked_def continues_def longest_tail_def split: if_splits)
    ultimately show ?thesis by blast
  next
    case False
    then have lt: "x < ck_i st" using x i by simp
    have "snd (last rs) < ck_i st" if "rs \<noteq> []" using cont that i False by (auto simp: continues_def)
    note close = chunked_close [OF assms(1) lt this]
    have "chunking L m ov (rs @ [(x, ck_i st)])"
      using close i follows_covers [of L m ov "rs @ [(x, ck_i st)]"] by (auto simp: chunking_def)
    moreover have "last_chunk st = map (chunk_of ss) (rs @ [(x, ck_i st)])"
      using close assms(1,3) lt i by (simp add: last_chunk_def chunked_def slice_eq_Nil)
    ultimately show ?thesis by blast
  qed
qed

lemma sentence_chunks_chunking:
  assumes "sentence_chunks split count t m ov = Inr cs" and "t \<noteq> []" and "0 \<le> m"
  shows "\<exists>rs. cs = map (chunk_of (split t)) rs \<and> chunking (lengths count (split t)) m ov rs"
proof -
  let ?ss = "split t" and ?L = "lengths count (split t)"
  from assms(1,2) obtain st where ov: "ov < m" and run: "chunk_loop ?ss ?L m ov MAX_ITERATIONS chunk_start = Inr st" and cs: "cs = last_chunk st"
    by (auto simp: sentence_chunks_def lengths_def [symmetric] Let_def result_simps split: if_splits)
  from chunk_loop_chunked [OF _ _ ov chunked_start [OF assms(3)] run] obtain rs x where
    "chunked ?ss ?L m ov st rs x" "length ?L \<le> ck_i st" by auto
  from chunked_final [OF this] cs show ?thesis by simp
qed

text \<open>
  C34. The chunks of a text that is chunked are joined ranges of its sentences: every sentence is in a chunk, a chunk of more than
  one sentence keeps the token limit, and each chunk after the first reaches further than the one before and starts in
  it with the longest overlap allowed, unless it is a sentence beyond the limit.
\<close>

theorem chunks_cover_text:
  assumes "sentence_chunks split count t m ov = Inr cs" and "t \<noteq> []" and "0 \<le> m"
  shows "\<exists>rs. cs = map (\<lambda>(x, y). join_with '' '' (slice x y (split t))) rs \<and> chunking (lengths count (split t)) m ov rs"
proof -
  have "chunk_of (split t) = (\<lambda>(x, y). join_with '' '' (slice x y (split t)))" by (rule ext) (simp add: chunk_of_def split_beta)
  then show ?thesis using sentence_chunks_chunking [OF assms] by simp
qed

subsection \<open>Termination\<close>

definition room :: "int list \<Rightarrow> int \<Rightarrow> int \<Rightarrow> bool" where
  "room L max_tokens overlap \<longleftrightarrow> (\<forall>n \<in> set L. n \<le> max_tokens - overlap \<or> max_tokens < n)"

definition to_do :: "int list \<Rightarrow> int \<Rightarrow> chunk_state \<Rightarrow> nat" where
  "to_do L overlap st = 2 * (length L - ck_i st) + (if max 0 overlap < ck_count st then 1 else 0)"

lemma chunk_step_progress:
  assumes st: "current_from ss L st x" and i: "ck_i st < length L" and len: "length ss = length L" and room: "room L m ov" and ov: "ov < m"
  shows "\<exists>x'. current_from ss L (chunk_step ss L m ov st) x' \<and> to_do L ov (chunk_step ss L m ov st) < to_do L ov st"
proof -
  let ?i = "ck_i st"
  note c = st [unfolded current_from_def]
  consider (long) "L ! ?i > m" | (accept) "L ! ?i \<le> m" "ck_count st + L ! ?i \<le> m" | (full) "L ! ?i \<le> m" "ck_count st + L ! ?i > m"
    by linarith
  then show ?thesis
  proof cases
    case long
    then have "current_from ss L (chunk_step ss L m ov st) (Suc ?i)"
      using c i len by (auto simp: chunk_step_def Let_def current_from_def slice_eq_Nil)
    moreover have "to_do L ov (chunk_step ss L m ov st) < to_do L ov st" using long i by (auto simp: chunk_step_def Let_def to_do_def)
    ultimately show ?thesis by blast
  next
    case accept
    then have "current_from ss L (chunk_step ss L m ov st) x"
      using c i len by (auto simp: chunk_step_def Let_def current_from_def slice_Suc tokens_Suc)
    moreover have "to_do L ov (chunk_step ss L m ov st) < to_do L ov st" using accept i by (auto simp: chunk_step_def Let_def to_do_def)
    ultimately show ?thesis by blast
  next
    case full
    obtain x' where x': "overlap_tail L ?i (ck_current st) ov (length (ck_current st)) [] 0 = (slice x' ?i ss, tokens L x' ?i)"
      "longest_tail L ov x ?i x'"
      using overlap_tail_current [of x ?i ss L ov] c len by auto
    have "L ! ?i \<le> m - ov" using room full(1) nth_mem [OF i] by (auto simp: room_def)
    then have "max 0 ov < ck_count st" using full ov by linarith
    moreover have "\<not> max 0 ov < tokens L x' ?i" using x'(2) by (auto simp: longest_tail_def not_less max_def split: if_splits)
    ultimately have "to_do L ov (chunk_step ss L m ov st) < to_do L ov st"
      using full x'(1) i by (simp add: chunk_step_def Let_def to_do_def del: max_less_iff_conj)
    moreover have "current_from ss L (chunk_step ss L m ov st) x'"
      using full x' c i len by (simp add: chunk_step_def Let_def current_from_def longest_tail_def)
    ultimately show ?thesis by blast
  qed
qed

lemma chunk_loop_ends:
  assumes "length ss = length L" and "room L m ov" and "ov < m"
  shows "current_from ss L st x \<Longrightarrow> to_do L ov st \<le> n \<Longrightarrow> \<exists>st'. chunk_loop ss L m ov n st = Inr st'"
proof (induction n arbitrary: st x)
  case 0
  then show ?case using assms(1) by (auto simp: to_do_def split: if_splits)
next
  case (Suc n)
  show ?case
  proof (cases "ck_i st < length L")
    case True
    obtain x' where "current_from ss L (chunk_step ss L m ov st) x'" "to_do L ov (chunk_step ss L m ov st) < to_do L ov st"
      using chunk_step_progress [OF Suc.prems(1) True assms] by blast
    then show ?thesis using Suc.IH [of "chunk_step ss L m ov st" x'] Suc.prems(2) True assms(1) by simp
  qed (use assms(1) in simp)
qed

text \<open>
  C35. Chunking ends with a result when every sentence that fits a chunk leaves room for the overlap, within two
  iterations of the loop for each sentence.
\<close>

theorem chunking_ends:
  assumes "overlap < max_tokens" and "\<And>s. s \<in> set (split t) \<Longrightarrow> int (count s) \<le> max_tokens - overlap \<or> max_tokens < int (count s)"
    and "2 * length (split t) + 1 \<le> MAX_ITERATIONS"
  shows "\<exists>cs. sentence_chunks split count t max_tokens overlap = Inr cs"
proof -
  let ?L = "lengths count (split t)"
  have "room ?L max_tokens overlap" using assms(2) by (auto simp: room_def lengths_def)
  moreover have "current_from (split t) ?L chunk_start 0" by (simp add: current_from_def chunk_start_def)
  moreover have "to_do ?L overlap chunk_start \<le> MAX_ITERATIONS" using assms(3) by (simp add: to_do_def chunk_start_def)
  ultimately obtain st where "chunk_loop (split t) ?L max_tokens overlap MAX_ITERATIONS chunk_start = Inr st"
    using chunk_loop_ends [of "split t" ?L max_tokens overlap chunk_start 0 MAX_ITERATIONS] assms(1) by auto
  then show ?thesis using assms(1) by (simp add: sentence_chunks_def Let_def lengths_def)
qed

lemma chunk_loop_Inl: "chunk_loop ss L m ov n st = Inl e \<Longrightarrow> e = IterationLimit"
  by (induction n arbitrary: st) (auto split: if_splits)

lemma follows_crosses:
  assumes "successively (follows L m ov) rs" and "rs \<noteq> []" and "snd (hd rs) \<le> k" and "r \<in> set rs" and "k < snd r"
  shows "\<exists>q q'. q \<in> set rs \<and> q' \<in> set rs \<and> follows L m ov q q' \<and> snd q \<le> k \<and> k < snd q'"
  using assms
proof (induction rs rule: induct_list012)
  case (3 q q' rs)
  show ?case
  proof (cases "k < snd q'")
    case True
    then show ?thesis using "3.prems" by (intro exI [of _ q] exI [of _ q']) auto
  next
    case False
    then have "r \<in> set (q' # rs)" using "3.prems"(3-5) by auto
    then have "\<exists>p p'. p \<in> set (q' # rs) \<and> p' \<in> set (q' # rs) \<and> follows L m ov p p' \<and> snd p \<le> k \<and> k < snd p'"
      using 3 False by (intro "3.IH"(2)) auto
    then show ?thesis by auto
  qed
qed auto

lemma short_sentence_no_chunking:
  assumes nn: "\<forall>n \<in> set L. 0 \<le> n" and k: "Suc k < length L" "L ! k \<le> ov" "L ! Suc k \<le> m" "m < L ! k + L ! Suc k"
  shows "\<not> chunking L m ov rs"
proof
  assume ch: "chunking L m ov rs"
  have pair: "\<not> Suc k < snd r" if "r \<in> set rs" "fst r \<le> k" for r
  proof
    assume lt: "Suc k < snd r"
    then have r: "snd r \<le> length L" "tokens L (fst r) (snd r) \<le> m" using ch that by (auto simp: chunking_def list_all_iff fits_def)
    have "tokens L k (snd r) \<le> tokens L (fst r) (snd r)" using tokens_mono_start [OF nn that(2)] lt r(1) by simp
    moreover have "tokens L k (Suc (Suc k)) \<le> tokens L k (snd r)" using tokens_mono_end [OF nn, of "Suc (Suc k)" "snd r" k] lt r(1) by simp
    moreover have "tokens L k (Suc (Suc k)) = L ! k + L ! Suc k" using k(1) by (simp add: tokens_Suc)
    ultimately show False using r(2) k(4) by simp
  qed
  obtain r where r: "r \<in> set rs" "Suc k < snd r" using ch k(1) by (auto simp: chunking_def)
  then have "rs \<noteq> []" by auto
  then have "snd (hd rs) \<le> Suc k" using pair [of "hd rs"] ch by (simp add: chunking_def)
  then obtain q q' where q: "q \<in> set rs" "q' \<in> set rs" "follows L m ov q q'" "snd q \<le> Suc k" "Suc k < snd q'"
    using follows_crosses [of L m ov rs "Suc k" r] \<open>rs \<noteq> []\<close> r ch unfolding chunking_def by blast
  have far: "\<not> fst q' \<le> k" using pair [OF q(2)] q(5) by blast
  from q(3) show False unfolding follows_def
  proof (elim conjE disjE)
    assume tail: "longest_tail L ov (fst q) (snd q) (fst q')"
    then have "fst q' = Suc k" "snd q = Suc k" using far q(4) by (auto simp: longest_tail_def)
    moreover have "fst q < snd q" using ch q(1) by (auto simp: chunking_def list_all_iff fits_def)
    moreover have "tokens L k (Suc k) = L ! k" using k(1) by (simp add: tokens_Suc)
    ultimately show False using tail k(2) by (auto simp: longest_tail_def)
  next
    assume "fst q' = snd q" "m < L ! snd q" "snd q' = Suc (snd q)"
    then have "snd q = Suc k" using q(4,5) by simp
    then show False using \<open>m < L ! snd q\<close> k(3) by simp
  qed
qed

text \<open>
  A short sentence before one that fits a chunk, but not together with it, is never passed: the sentence kept as
  overlap leaves no room, the same chunk is emitted over and over, and the run ends with the iteration limit.
\<close>

theorem short_sentence_never_passed:
  assumes "t \<noteq> []" and "overlap < max_tokens" and "Suc k < length (split t)" and "int (count (split t ! k)) \<le> overlap"
    and "int (count (split t ! Suc k)) \<le> max_tokens" and "max_tokens < int (count (split t ! k)) + int (count (split t ! Suc k))"
  shows "sentence_chunks split count t max_tokens overlap = Inl IterationLimit"
proof (cases "sentence_chunks split count t max_tokens overlap")
  case (Inl e)
  then have "chunk_loop (split t) (lengths count (split t)) max_tokens overlap MAX_ITERATIONS chunk_start = Inl e"
    using assms(1,2) by (auto simp: sentence_chunks_def Let_def lengths_def result_simps)
  then show ?thesis using Inl chunk_loop_Inl by metis
next
  case (Inr cs)
  have "0 \<le> max_tokens" using assms(5) by linarith
  from sentence_chunks_chunking [OF Inr assms(1) this] obtain rs where "chunking (lengths count (split t)) max_tokens overlap rs" by blast
  then show ?thesis using short_sentence_no_chunking [of "lengths count (split t)" k overlap max_tokens rs] assms by (simp add: lengths_def)
qed

subsection \<open>Samples\<close>

text \<open>Sentences are lines and a token is a character.\<close>

definition lines_of :: "string \<Rightarrow> string list" where
  "lines_of t = split_on (CHR ''/'') t"

lemma chunk_loop_fuel: "chunk_loop ss L m ov n st = Inr st' \<Longrightarrow> chunk_loop ss L m ov (n + k) st = Inr st'"
proof (induction n arbitrary: st)
  case 0
  then show ?case by (cases k) (simp_all split: if_splits)
qed (auto split: if_splits)

lemma sample_chunks: "sentence_chunks lines_of length ''one/is/two/nineteen/ten'' 6 2 = Inr [''one is'', ''is two'', ''nineteen'', ''ten'']"
proof -
  let ?ss = "lines_of ''one/is/two/nineteen/ten''"
  have "chunk_loop ?ss (map (\<lambda>s. int (length s)) ?ss) 6 2 9 chunk_start =
      Inr \<lparr>ck_chunks = [''one is'', ''is two'', ''nineteen''], ck_current = [''ten''], ck_count = 3, ck_i = 5\<rparr>" by code_simp
  from chunk_loop_fuel [OF this, of "MAX_ITERATIONS - 9"] show ?thesis
    by (simp add: sentence_chunks_def Let_def MAX_ITERATIONS_def last_chunk_def)
qed

theorem chunks_cover_text_witness:
  "\<exists>rs. [''one is'', ''is two'', ''nineteen'', ''ten''] = map (\<lambda>(x, y). join_with '' '' (slice x y (lines_of ''one/is/two/nineteen/ten''))) rs
    \<and> chunking [3, 2, 3, 8, 3] 6 2 rs"
proof -
  have "lengths length (lines_of ''one/is/two/nineteen/ten'') = [3, 2, 3, 8, 3]" by code_simp
  then show ?thesis using chunks_cover_text [OF sample_chunks] by simp
qed

theorem chunking_ends_witness: "\<exists>cs. sentence_chunks lines_of length ''one/is/four/nineteen/ten'' 6 2 = Inr cs"
proof -
  have l: "lines_of ''one/is/four/nineteen/ten'' = [''one'', ''is'', ''four'', ''nineteen'', ''ten'']" by code_simp
  have "int (length s) \<le> 6 - 2 \<or> 6 < int (length s)" if "s \<in> set (lines_of ''one/is/four/nineteen/ten'')" for s using that by (auto simp: l)
  then show ?thesis using l by (intro chunking_ends) (simp_all add: MAX_ITERATIONS_def)
qed

theorem short_sentence_never_passed_witness: "sentence_chunks lines_of length ''four/is/horse'' 6 2 = Inl IterationLimit"
proof -
  have "lines_of ''four/is/horse'' = [''four'', ''is'', ''horse'']" by code_simp
  then show ?thesis using short_sentence_never_passed [of "''four/is/horse''" 2 6 1 lines_of length] by simp
qed

subsection \<open>Sections\<close>

text \<open>The headings above a place: those no later heading of the same or a smaller level closes.\<close>

fun open_headings :: "(nat \<times> string) list \<Rightarrow> (nat \<times> string) list" where
  "open_headings [] = []"
| "open_headings (h # hs) = (if \<forall>h' \<in> set hs. fst h < fst h' then h # open_headings hs else open_headings hs)"

lemma set_open_headings: "set (open_headings hs) \<subseteq> set hs"
  by (induction hs) auto

lemma open_headings_sorted: "sorted_wrt (\<lambda>h h'. fst h < fst h') (open_headings hs)"
  by (induction hs) (use set_open_headings in auto)

lemma open_headings_snoc: "open_headings (hs @ [h]) = filter (\<lambda>h'. fst h' < fst h) (open_headings hs) @ [h]"
  by (induction hs) auto

lemma drop_while_sorted:
  "sorted_wrt (\<lambda>h h'. fst h < fst h') (hs :: (nat \<times> 'a) list) \<Longrightarrow> rev (dropWhile (\<lambda>(l, _). l \<ge> n) (rev hs)) = filter (\<lambda>h'. fst h' < n) hs"
proof (induction hs rule: rev_induct)
  case (snoc h hs)
  show ?case
  proof (cases "fst h < n")
    case True
    then have "filter (\<lambda>h'. fst h' < n) hs = hs" using snoc.prems by (auto simp: sorted_wrt_append intro!: filter_True)
    then show ?thesis using True by (simp add: split_beta)
  next
    case False
    then show ?thesis using snoc by (simp add: split_beta sorted_wrt_append)
  qed
qed simp

lemma push_open_headings: "push_heading level title (open_headings hs) = open_headings (hs @ [(level, title)])"
  by (simp add: push_heading_def drop_while_sorted [OF open_headings_sorted] open_headings_snoc)

definition headings :: "string list \<Rightarrow> (nat \<times> string) list" where
  "headings ls = List.map_filter (\<lambda>l. map_option (\<lambda>(n, t). (n, strip t)) (heading_of l)) ls"

lemma headings_simps [simp]:
  "headings [] = []" "headings (as @ bs) = headings as @ headings bs"
  "headings [l] = (case heading_of l of None \<Rightarrow> [] | Some (n, t) \<Rightarrow> [(n, strip t)])"
  by (simp_all add: headings_def List.map_filter_def split: option.split)

definition section_at :: "string list \<Rightarrow> string option" where
  "section_at ls = (let hs = open_headings (headings ls) in if hs = [] then None else Some (join_with SECTION_SEP (map snd hs)))"

definition body_of :: "string list \<Rightarrow> string" where
  "body_of ls = strip (join_with [chr_of 10] ls)"

text \<open>The segments of consecutive groups of lines, after the lines already seen.\<close>

fun segments_of :: "string list \<Rightarrow> string list list \<Rightarrow> (string option \<times> string) list" where
  "segments_of seen [] = []"
| "segments_of seen (g # gs) =
     (if body_of g \<noteq> [] then [(section_at (seen @ g), body_of g)] else []) @ segments_of (seen @ g) gs"

lemma segments_of_append: "segments_of seen (as @ bs) = segments_of seen as @ segments_of (seen @ concat as) bs"
  by (induction as arbitrary: seen) simp_all

text \<open>Groups of lines: every group but the first opens with a heading, and a heading stands only there.\<close>

definition heading_groups :: "string list list \<Rightarrow> bool" where
  "heading_groups gs \<longleftrightarrow> (\<forall>g \<in> set gs. \<forall>l \<in> set (tl g). heading_of l = None) \<and> (\<forall>g \<in> set (tl gs). g \<noteq> [] \<and> heading_of (hd g) \<noteq> None)"

definition sectioned :: "section_state \<Rightarrow> string list \<Rightarrow> string list list \<Rightarrow> bool" where
  "sectioned st ls gs \<longleftrightarrow> ls = concat (gs @ [sc_lines st]) \<and> heading_groups (gs @ [sc_lines st]) \<and> sc_segments st = segments_of [] gs
     \<and> sc_stack st = open_headings (headings ls) \<and> sc_section st = section_at ls"

lemma section_flush_of: "sectioned st ls gs \<Longrightarrow> section_flush st = segments_of [] (gs @ [sc_lines st])"
  by (simp add: sectioned_def section_flush_def segments_of_append body_of_def)

lemma heading_groups_line: "heading_groups (gs @ [g]) \<Longrightarrow> heading_of l = None \<Longrightarrow> heading_groups (gs @ [g @ [l]])"
  by (cases g; cases gs) (auto simp: heading_groups_def)

lemma heading_groups_open: "heading_groups (gs @ [g]) \<Longrightarrow> heading_of l \<noteq> None \<Longrightarrow> heading_groups ((gs @ [g]) @ [[l]])"
  by (cases gs) (auto simp: heading_groups_def)

lemma section_line_sectioned:
  assumes "sectioned st ls gs"
  shows "\<exists>gs'. sectioned (section_line l st) (ls @ [l]) gs'"
proof (cases "heading_of l")
  case None
  then have "sectioned (section_line l st) (ls @ [l]) gs"
    using assms heading_groups_line [of gs "sc_lines st" l] by (simp add: sectioned_def section_line_def section_at_def)
  then show ?thesis by blast
next
  case (Some h)
  obtain level title where h: "h = (level, title)" by (cases h)
  have "sectioned (section_line l st) (ls @ [l]) (gs @ [sc_lines st])"
    using assms Some h section_flush_of [OF assms] open_headings_snoc [of "headings ls" "(level, strip title)"]
      heading_groups_open [of gs "sc_lines st" l]
    by (simp add: sectioned_def section_line_def section_at_def push_open_headings Let_def)
  then show ?thesis by blast
qed

lemma fold_section_sectioned: "sectioned st ls gs \<Longrightarrow> \<exists>gs'. sectioned (fold section_line ms st) (ls @ ms) gs'"
proof (induction ms arbitrary: st ls gs)
  case (Cons m ms)
  from section_line_sectioned [OF Cons.prems] obtain gs' where "sectioned (section_line m st) (ls @ [m]) gs'" ..
  from Cons.IH [OF this] show ?case by simp
qed auto

text \<open>
  Splitting a text at its headings loses no line: the lines fall into groups that open at the headings, each group with text is
  one segment, and its section is the path of the headings still open there.
\<close>

theorem sections_follow_headings:
  "\<exists>gs. split_on (chr_of 10) t = concat gs \<and> heading_groups gs
    \<and> split_by_headings t = (if segments_of [] gs \<noteq> [] then segments_of [] gs else [(None, strip t)])"
proof -
  have "sectioned section_start [] []" by (simp add: sectioned_def section_start_def heading_groups_def section_at_def)
  from fold_section_sectioned [OF this, of "split_on (chr_of 10) t"] obtain gs where
    gs: "sectioned (fold section_line (split_on (chr_of 10) t) section_start) (split_on (chr_of 10) t) gs" by auto
  let ?gs = "gs @ [sc_lines (fold section_line (split_on (chr_of 10) t) section_start)]"
  have "split_by_headings t = (if segments_of [] ?gs \<noteq> [] then segments_of [] ?gs else [(None, strip t)])"
    using section_flush_of [OF gs] by (simp add: split_by_headings_def)
  then show ?thesis using gs unfolding sectioned_def by blast
qed

lemma sample_sections:
  "map (map_prod id length) (split_by_headings (''# A'' @ [chr_of 10] @ ''x'' @ [chr_of 10] @ ''## B #'' @ [chr_of 10] @ ''y'' @ [chr_of 10] @ ''# C''))
    = [(Some ''A'', 5), (Some (''A'' @ SECTION_SEP @ ''B''), 8), (Some ''C'', 3)]"
  by code_simp

end
