(* ===== verification/Agent_Inbox.thy ===== *)
theory Agent_Inbox
  imports Wf_State Agent_Authority "HOL-Library.List_Lexorder" "HOL-Library.Char_ord"
begin

section \<open>Questions, approvals and the runs that wait for them\<close>

text \<open>
  How an agent run that needs a person or another agent is parked and woken: the questions
  (\<open>services/agents/questions.py\<close>, \<open>repositories/agent_questions.py\<close>), the approvals (\<open>approvals.py\<close>), the end of a run
  (\<open>lifecycle.py\<close>), the notices (\<open>notify.py\<close>), the tools that ask (\<open>delegation.py\<close>, \<open>review_gate.py\<close>) and the parts of the
  executor that park, requeue and remind (\<open>run_executor.py\<close>). The state \<open>idb\<close> holds the rows; the resume state
  of a run is a record of its own, its messages and pending calls are values. What the wake-up of a workflow token does is in
  \<open>Wf_Engine\<close>; delivery of a notice outside the application is left out. New identifiers and the clock are arguments.
\<close>

subsection \<open>Rows\<close>

record resume =
  rs_messages :: "json list"
  rs_pending :: "json list"
  rs_approved :: "string list"
  rs_answers :: "(string, json) dict"

record irun =
  ir_id :: nat
  ir_org :: nat
  ir_agent :: nat
  ir_status :: agent_status
  ir_trigger :: string
  ir_wait :: "string option"
  ir_resume :: "resume option"
  ir_requeues :: nat
  ir_parent :: "nat option"
  ir_wo :: "nat option"
  ir_hops :: nat
  ir_error :: "string option"
  ir_activity :: int

datatype question_status = QPending | QAnswered | QDeclined | QVoided

record question =
  q_id :: nat
  q_org :: nat
  q_run :: nat
  q_call :: string
  q_asked_by :: "nat option"
  q_audience :: string
  q_target :: "nat option"
  q_peer :: "nat option"
  q_wo :: "nat option"
  q_text :: string
  q_context :: "string option"
  q_answer :: "string option"
  q_status :: question_status
  q_profile :: "nat option"
  q_agent :: "nat option"
  q_answered :: "int option"
  q_created :: int

record iapproval =
  ia_id :: nat
  ia_org :: nat
  ia_run :: nat
  ia_tool :: string
  ia_status :: approval_status
  ia_by :: "nat option"
  ia_at :: "int option"

record inotice =
  nt_org :: nat
  nt_run :: "nat option"
  nt_wo :: "nat option"
  nt_kind :: string
  nt_title :: string
  nt_body :: string
  nt_role :: "string option"
  nt_status :: string

record ientry =
  ie_org :: nat
  ie_wo :: nat
  ie_run :: "nat option"
  ie_role :: string
  ie_text :: string

record idb =
  i_runs :: "irun list"
  i_questions :: "question list"
  i_approvals :: "iapproval list"
  i_notices :: "inotice list"
  i_entries :: "ientry list"

datatype inbox_error = QuestionSettled | QuestionNotFound | ApprovalNotFound | ApprovalSettled approval_status

subsection \<open>Queries\<close>

definition irun_get :: "nat \<Rightarrow> nat \<Rightarrow> idb \<Rightarrow> irun option" where
  "irun_get org i db = find (\<lambda>r. ir_id r = i \<and> ir_org r = org) (i_runs db)"

definition question_get :: "nat \<Rightarrow> nat \<Rightarrow> idb \<Rightarrow> question option" where
  "question_get org i db = find (\<lambda>q. q_id q = i \<and> q_org q = org) (i_questions db)"

definition pending_for_peer_run :: "nat \<Rightarrow> nat \<Rightarrow> idb \<Rightarrow> question option" where
  "pending_for_peer_run org i db = find (\<lambda>q. q_peer q = Some i \<and> q_org q = org \<and> q_status q = QPending) (i_questions db)"

definition count_for_run :: "nat \<Rightarrow> nat \<Rightarrow> string \<Rightarrow> idb \<Rightarrow> nat" where
  "count_for_run org i audience db = length (filter (\<lambda>q. q_run q = i \<and> q_org q = org \<and> q_audience q = audience) (i_questions db))"

definition siblings :: "nat \<Rightarrow> question \<Rightarrow> idb \<Rightarrow> question list" where
  "siblings org q db = filter (\<lambda>s. q_run s = q_run q \<and> q_call s = q_call q \<and> q_org s = org \<and> q_id s \<noteq> q_id q) (i_questions db)"

definition put_irun :: "irun \<Rightarrow> idb \<Rightarrow> idb" where
  "put_irun r db = db\<lparr>i_runs := map (\<lambda>x. if ir_id x = ir_id r then r else x) (i_runs db)\<rparr>"

definition put_question :: "question \<Rightarrow> idb \<Rightarrow> idb" where
  "put_question q db = db\<lparr>i_questions := map (\<lambda>x. if q_id x = q_id q then q else x) (i_questions db)\<rparr>"

definition put_iapproval :: "iapproval \<Rightarrow> idb \<Rightarrow> idb" where
  "put_iapproval a db = db\<lparr>i_approvals := map (\<lambda>x. if ia_id x = ia_id a then a else x) (i_approvals db)\<rparr>"

subsection \<open>Notices\<close>

definition settle_notifications :: "nat \<Rightarrow> nat \<Rightarrow> string \<Rightarrow> idb \<Rightarrow> idb" where
  "settle_notifications org i kind db = db\<lparr>i_notices := upd_where
     (\<lambda>n. nt_org n = org \<and> nt_run n = Some i \<and> nt_kind n = kind \<and> nt_status n \<noteq> ''resolved'')
     (\<lambda>n. n\<lparr>nt_status := ''resolved''\<rparr>) (i_notices db)\<rparr>"

definition create_notification :: "nat \<Rightarrow> string \<Rightarrow> string \<Rightarrow> string \<Rightarrow> nat \<Rightarrow> nat option \<Rightarrow> string option \<Rightarrow> idb \<Rightarrow> idb" where
  "create_notification org kind title body i wo role db = db\<lparr>i_notices := i_notices db @
     [\<lparr>nt_org = org, nt_run = Some i, nt_wo = wo, nt_kind = kind, nt_title = title, nt_body = body,
       nt_role = role, nt_status = ''unread''\<rparr>]\<rparr>"

definition close_question_notice :: "nat \<Rightarrow> nat \<Rightarrow> idb \<Rightarrow> idb" where
  "close_question_notice org i db =
     (if list_ex (\<lambda>q. q_run q = i \<and> q_org q = org \<and> q_status q = QPending \<and> q_audience q = ''human'') (i_questions db) then db
      else settle_notifications org i ''question'' db)"

subsection \<open>Answering\<close>

definition BOARD_NOTE :: string where
  "BOARD_NOTE = ''Every reviewer has now answered. Their verdicts are NOT recorded until you '' @
     ''call the same tool again with your submission '' @ EM_DASH @ '' that call is the only thing '' @
     ''that moves this forward, and stopping here leaves the work unfinished. '' @
     ''Address any objection first; resubmitting unchanged text will not re-open '' @
     ''the review. Do not ask a person instead: the tool decides when to involve one.''"

definition opt_str :: "string option \<Rightarrow> json" where
  "opt_str s = (case s of None \<Rightarrow> JNull | Some x \<Rightarrow> JStr x)"

text \<open>A call of a review board has one question per reviewer; its result carries all answers in the order they were asked.\<close>

definition combined :: "question \<Rightarrow> question list \<Rightarrow> jdict \<Rightarrow> jdict" where
  "combined q sibs payload =
     [(''answers'', JList (map (\<lambda>x. JObj [
          (''agent_id'', opt_uuid (q_target x)),
          (''answer'', if q_id x = q_id q then jget payload ''answer'' else opt_str (q_answer x)),
          (''declined'', JBool (q_status x = QDeclined))]) (sort_key q_created (q # sibs)))),
      (''note'', JStr BOARD_NOTE)]"

definition no_resume :: resume where
  "no_resume = \<lparr>rs_messages = [], rs_pending = [], rs_approved = [], rs_answers = []\<rparr>"

definition resume_of :: "irun \<Rightarrow> resume" where
  "resume_of r = (case ir_resume r of None \<Rightarrow> no_resume | Some x \<Rightarrow> x)"

text \<open>\<open>seen\<close> are the sibling questions as the transaction reads them.\<close>

definition inject_answer :: "int \<Rightarrow> nat \<Rightarrow> question \<Rightarrow> jdict \<Rightarrow> question list \<Rightarrow> idb \<Rightarrow> idb \<times> bool" where
  "inject_answer now org q payload seen db =
     (case irun_get org (q_run q) db of None \<Rightarrow> (db, False)
      | Some r \<Rightarrow>
        if ir_status r \<noteq> AWaiting then (db, False)
        else if list_ex (\<lambda>s. q_status s = QPending) seen then (db, False)
        else let value = (if seen = [] then payload else combined q seen payload); x = resume_of r
          in (put_irun (r\<lparr>ir_resume := Some (x\<lparr>rs_answers := dset (rs_answers x) (q_call q) (JObj value)\<rparr>),
                ir_status := AQueued, ir_wait := None, ir_activity := now\<rparr>) db, True))"

definition NOT_DELIVERED :: string where
  "NOT_DELIVERED = [chr_of 10, chr_of 10] @ ''(The agent had already stopped waiting, so this did not reach it.)''"

definition diary_the_answer :: "nat \<Rightarrow> question \<Rightarrow> string \<Rightarrow> bool \<Rightarrow> idb \<Rightarrow> idb" where
  "diary_the_answer org q answer delivered db = (case q_wo q of None \<Rightarrow> db
     | Some wo \<Rightarrow> if q_audience q \<noteq> ''human'' then db
         else db\<lparr>i_entries := i_entries db @ [\<lparr>ie_org = org, ie_wo = wo, ie_run = Some (q_run q), ie_role = ''human'',
           ie_text = answer @ (if delivered then [] else NOT_DELIVERED)\<rparr>]\<rparr>)"

definition str_or :: "string option \<Rightarrow> string \<Rightarrow> string" where
  "str_or s d = (case s of None \<Rightarrow> d | Some x \<Rightarrow> if x = [] then d else x)"

definition record_answer_seen ::
  "question list \<Rightarrow> int \<Rightarrow> nat \<Rightarrow> question \<Rightarrow> string \<Rightarrow> nat option \<Rightarrow> nat option \<Rightarrow> string option \<Rightarrow> idb
    \<Rightarrow> idb \<times> (inbox_error, bool) result" where
  "record_answer_seen seen now org q answer by_profile by_agent answered_by db =
     (if q_status q \<noteq> QPending then (db, Inl QuestionSettled)
      else
        let q1 = q\<lparr>q_status := QAnswered, q_answer := Some answer, q_profile := by_profile, q_agent := by_agent, q_answered := Some now\<rparr>;
            who = str_or answered_by (if by_agent \<noteq> None then ''an agent'' else ''a human'');
            (db2, resumed) = inject_answer now org q1 [(''answered_by'', JStr who), (''answer'', JStr answer)] seen (put_question q1 db);
            q2 = (if resumed then q1 else q1\<lparr>q_status := QVoided\<rparr>)
        in (close_question_notice org (q_run q) (diary_the_answer org q2 answer resumed (put_question q2 db2)), Inr resumed))"

definition record_answer ::
  "int \<Rightarrow> nat \<Rightarrow> question \<Rightarrow> string \<Rightarrow> nat option \<Rightarrow> nat option \<Rightarrow> string option \<Rightarrow> idb \<Rightarrow> idb \<times> (inbox_error, bool) result" where
  "record_answer now org q answer by_profile by_agent answered_by db =
     record_answer_seen (siblings org q db) now org q answer by_profile by_agent answered_by db"

definition decline ::
  "int \<Rightarrow> nat \<Rightarrow> question \<Rightarrow> string option \<Rightarrow> nat option \<Rightarrow> idb \<Rightarrow> idb \<times> (inbox_error, bool) result" where
  "decline now org q reason by_profile db =
     (if q_status q \<noteq> QPending then (db, Inl QuestionSettled)
      else
        let q1 = q\<lparr>q_status := QDeclined, q_answer := reason, q_profile := by_profile, q_answered := Some now\<rparr>;
            (db2, resumed) = inject_answer now org q1 [(''answered'', JBool False), (''answer'', JStr (str_or reason ''No answer is available.'')),
                (''guidance'', JStr ''Proceed on your own judgement or escalate.'')] (siblings org q db) (put_question q1 db)
        in (close_question_notice org (q_run q)
              (diary_the_answer org q1 (str_or reason ''Told the agent to use its own judgement.'') resumed db2), Inr resumed))"

definition human_question :: "nat \<Rightarrow> nat \<Rightarrow> idb \<Rightarrow> (inbox_error, question) result" where
  "human_question org i db = (case question_get org i db of None \<Rightarrow> Inl QuestionNotFound
     | Some q \<Rightarrow> if q_audience q \<noteq> ''human'' then Inl QuestionNotFound else Inr q)"

definition answer_question :: "int \<Rightarrow> nat \<Rightarrow> nat \<Rightarrow> string \<Rightarrow> nat option \<Rightarrow> idb \<Rightarrow> idb \<times> (inbox_error, bool) result" where
  "answer_question now org i answer by_profile db = (case human_question org i db of Inl e \<Rightarrow> (db, Inl e)
     | Inr q \<Rightarrow> record_answer now org q answer by_profile None None db)"

definition decline_question :: "int \<Rightarrow> nat \<Rightarrow> nat \<Rightarrow> string option \<Rightarrow> nat option \<Rightarrow> idb \<Rightarrow> idb \<times> (inbox_error, bool) result" where
  "decline_question now org i reason by_profile db = (case human_question org i db of Inl e \<Rightarrow> (db, Inl e)
     | Inr q \<Rightarrow> decline now org q reason by_profile db)"

subsection \<open>The end of a run\<close>

text \<open>Runs spawned to answer a question of a run that has ended are stopped, and the questions they ask are closed.\<close>

definition cancel_orphaned_consults :: "int \<Rightarrow> nat \<Rightarrow> nat \<Rightarrow> idb \<Rightarrow> idb" where
  "cancel_orphaned_consults now org i db =
     (let ids = List.map_filter q_peer (filter (\<lambda>q. q_run q = i \<and> q_org q = org) (i_questions db)) in
      if ids = [] then db
      else db\<lparr>
        i_runs := upd_where (\<lambda>r. ir_id r \<in> set ids \<and> ir_org r = org \<and> (ir_status r = AQueued \<or> ir_status r = AWaiting))
          (\<lambda>r. r\<lparr>ir_status := ACancelled, ir_error := Some ''the agent that asked is no longer waiting'', ir_wait := None\<rparr>) (i_runs db),
        i_questions := upd_where (\<lambda>q. q_run q \<in> set ids \<and> q_org q = org \<and> q_status q = QPending)
          (\<lambda>q. q\<lparr>q_status := QVoided, q_answered := Some now\<rparr>) (i_questions db)\<rparr>)"

definition void_open_questions :: "int \<Rightarrow> nat \<Rightarrow> nat \<Rightarrow> idb \<Rightarrow> idb" where
  "void_open_questions now org i db =
     cancel_orphaned_consults now org i (close_question_notice org i
       (db\<lparr>i_questions := upd_where (\<lambda>q. q_run q = i \<and> q_org q = org \<and> q_status q = QPending)
          (\<lambda>q. q\<lparr>q_status := QVoided, q_answered := Some now\<rparr>) (i_questions db)\<rparr>))"

definition settle_for_peer_run :: "int \<Rightarrow> nat \<Rightarrow> nat \<Rightarrow> string \<Rightarrow> idb \<Rightarrow> idb" where
  "settle_for_peer_run now org i reason db = (case pending_for_peer_run org i db of None \<Rightarrow> db
     | Some q \<Rightarrow> fst (decline now org q (Some reason) None db))"

definition settle_questions :: "int \<Rightarrow> nat \<Rightarrow> nat \<Rightarrow> string \<Rightarrow> idb \<Rightarrow> idb" where
  "settle_questions now org i reason db = void_open_questions now org i (settle_for_peer_run now org i reason db)"

text \<open>A run ends only from a state that is not final; the caller learns whether it was this call that ended it.\<close>

definition irun_open :: "nat \<Rightarrow> nat \<Rightarrow> irun \<Rightarrow> bool" where
  "irun_open org i r \<longleftrightarrow> ir_id r = i \<and> ir_org r = org \<and> is_nonterminal (ir_status r)"

definition end_run :: "int \<Rightarrow> nat \<Rightarrow> nat \<Rightarrow> agent_status \<Rightarrow> string option \<Rightarrow> idb \<Rightarrow> idb \<times> bool" where
  "end_run now org i status err db =
     (db\<lparr>i_runs := upd_where (irun_open org i)
          (\<lambda>r. r\<lparr>ir_status := status, ir_error := err, ir_wait := None, ir_activity := now\<rparr>) (i_runs db)\<rparr>,
      list_ex (irun_open org i) (i_runs db))"

definition life_finalize :: "int \<Rightarrow> nat \<Rightarrow> nat \<Rightarrow> agent_status \<Rightarrow> string option \<Rightarrow> idb \<Rightarrow> idb \<times> bool" where
  "life_finalize now org i status err db = (let (db1, won) = end_run now org i status err db in
     (if won then settle_questions now org i
        (''The consulted agent's run ended ('' @ agent_status_str status @ '') without answering.'') db1 else db1, won))"

definition life_cancel :: "int \<Rightarrow> nat \<Rightarrow> nat \<Rightarrow> string \<Rightarrow> idb \<Rightarrow> idb \<times> bool" where
  "life_cancel now org i reason db = (let (db1, won) = end_run now org i ACancelled (Some reason) db in
     (if won then settle_questions now org i ''The consulted agent's run was cancelled.''
        (db1\<lparr>i_approvals := upd_where (\<lambda>a. ia_run a = i \<and> ia_org a = org \<and> ia_status a = ApPending)
           (\<lambda>a. a\<lparr>ia_status := ApVoided, ia_at := Some now\<rparr>) (i_approvals db1)\<rparr>) else db1, won))"

subsection \<open>Approvals\<close>

definition approval_get :: "nat \<Rightarrow> nat \<Rightarrow> idb \<Rightarrow> iapproval option" where
  "approval_get org i db = find (\<lambda>a. ia_id a = i \<and> ia_org a = org) (i_approvals db)"

definition close_approval_notice :: "nat \<Rightarrow> nat \<Rightarrow> idb \<Rightarrow> idb" where
  "close_approval_notice org i db =
     (if list_ex (\<lambda>a. ia_org a = org \<and> ia_status a = ApPending \<and> ia_run a = i) (i_approvals db) then db
      else settle_notifications org i ''approval'' db)"

definition with_approved :: "string \<Rightarrow> resume \<Rightarrow> resume" where
  "with_approved tool x = x\<lparr>rs_approved := sort (fromkeys (rs_approved x @ [tool]))\<rparr>"

definition approve :: "int \<Rightarrow> nat \<Rightarrow> nat \<Rightarrow> nat option \<Rightarrow> idb \<Rightarrow> idb \<times> (inbox_error, iapproval) result" where
  "approve now org i by db = (case approval_get org i db of None \<Rightarrow> (db, Inl ApprovalNotFound)
     | Some a \<Rightarrow>
       if ia_status a \<noteq> ApPending then (db, Inl (ApprovalSettled (ia_status a)))
       else
         let run = irun_get org (ia_run a) db;
             ended = (case run of None \<Rightarrow> False | Some r \<Rightarrow> \<not> is_nonterminal (ir_status r));
             a1 = a\<lparr>ia_status := (if ended then ApVoided else ApApproved), ia_by := by, ia_at := Some now\<rparr>;
             db1 = put_iapproval a1 db;
             db2 = (case run of None \<Rightarrow> db1
               | Some r \<Rightarrow> if ir_status r = AWaiting
                   then put_irun (r\<lparr>ir_resume := Some (with_approved (ia_tool a) (resume_of r)), ir_status := AQueued, ir_wait := None,
                     ir_activity := now\<rparr>) db1
                   else db1)
         in (close_approval_notice org (ia_run a) db2, Inr a1))"

definition deny :: "int \<Rightarrow> nat \<Rightarrow> nat \<Rightarrow> nat option \<Rightarrow> idb \<Rightarrow> idb \<times> (inbox_error, iapproval) result" where
  "deny now org i by db = (case approval_get org i db of None \<Rightarrow> (db, Inl ApprovalNotFound)
     | Some a \<Rightarrow>
       if ia_status a \<noteq> ApPending then (db, Inl (ApprovalSettled (ia_status a)))
       else
         let a1 = a\<lparr>ia_status := ApDenied, ia_by := by, ia_at := Some now\<rparr>; db1 = put_iapproval a1 db;
             db2 = (case irun_get org (ia_run a) db of None \<Rightarrow> db1
               | Some r \<Rightarrow> if ir_status r = AWaiting
                   then fst (life_finalize now org (ir_id r) AError (Some (''approval denied: '' @ ia_tool a)) db1) else db1)
         in (close_approval_notice org (ia_run a) db2, Inr a1))"

subsection \<open>Parking and waking in the executor\<close>

definition claim :: "int \<Rightarrow> nat \<Rightarrow> nat \<Rightarrow> idb \<Rightarrow> idb \<times> irun option" where
  "claim now org i db =
     (let p = (\<lambda>r. ir_id r = i \<and> ir_org r = org \<and> ir_status r = AQueued);
          db1 = db\<lparr>i_runs := upd_where p (\<lambda>r. r\<lparr>ir_status := ARunning, ir_activity := now\<rparr>) (i_runs db)\<rparr>
      in (db1, if list_ex p (i_runs db) then irun_get org i db1 else None))"

text \<open>
  The executor stores the resume state and marks the run as waiting; of the answers of the previous park it keeps those of calls
  that are still pending. The row is written by its key, whatever its status has become.
\<close>

definition call_id :: "json \<Rightarrow> string" where
  "call_id c = (case c of JObj d \<Rightarrow> py_str (jget d ''id'') | _ \<Rightarrow> [])"

definition park_run :: "int \<Rightarrow> nat \<Rightarrow> string \<Rightarrow> resume \<Rightarrow> idb \<Rightarrow> idb" where
  "park_run now i kind x db = db\<lparr>i_runs := upd_where (\<lambda>r. ir_id r = i) (\<lambda>r. r\<lparr>
      ir_resume := Some (x\<lparr>rs_approved := sort (fromkeys (rs_approved x)),
        rs_answers := filter (\<lambda>(k, _). k \<in> call_id ` set (rs_pending x)) (rs_answers x)\<rparr>),
      ir_status := AWaiting, ir_wait := Some kind, ir_activity := now\<rparr>) (i_runs db)\<rparr>"

text \<open>A call that needs permission: the approval is recorded, the run parked and a person told.\<close>

definition park_for_approval :: "int \<Rightarrow> nat \<Rightarrow> irun \<Rightarrow> string \<Rightarrow> string \<Rightarrow> resume \<Rightarrow> idb \<Rightarrow> idb" where
  "park_for_approval now fresh r agent tool x db =
     create_notification (ir_org r) ''approval'' (agent @ '' needs approval'') tool (ir_id r) (ir_wo r) (Some ''org_admin'')
       (park_run now (ir_id r) ''approval'' x (db\<lparr>i_approvals := i_approvals db @
          [\<lparr>ia_id = fresh, ia_org = ir_org r, ia_run = ir_id r, ia_tool = tool, ia_status = ApPending, ia_by = None, ia_at = None\<rparr>]\<rparr>))"

definition REMINDER_TITLE :: string where
  "REMINDER_TITLE = ''Reminder: an agent run is still waiting for you''"

text \<open>A running run whose heartbeat is stale is queued once more; the second time it ends in error.\<close>

definition reclaim_one :: "int \<Rightarrow> irun \<Rightarrow> idb \<Rightarrow> idb" where
  "reclaim_one now r db =
     (if ir_requeues r \<ge> 1 then fst (life_finalize now (ir_org r) (ir_id r) AError (Some ''worker lost (lease expired twice)'') db)
      else db\<lparr>i_runs := upd_where (\<lambda>x. ir_id x = ir_id r)
        (\<lambda>x. x\<lparr>ir_requeues := ir_requeues r + 1, ir_status := AQueued, ir_activity := now\<rparr>) (i_runs db)\<rparr>)"

definition reclaim_stale :: "int \<Rightarrow> int \<Rightarrow> nat \<Rightarrow> idb \<Rightarrow> idb" where
  "reclaim_stale now lease_ttl maxn db =
     fold (reclaim_one now) (take maxn (sort_key ir_activity (filter (\<lambda>r. ir_status r = ARunning \<and> ir_activity r < now - lease_ttl) (i_runs db)))) db"

definition close_reminders :: "(irun \<Rightarrow> bool) \<Rightarrow> idb \<Rightarrow> idb" where
  "close_reminders p db = db\<lparr>i_notices := upd_where
     (\<lambda>n. nt_title n = REMINDER_TITLE \<and> nt_status n \<noteq> ''resolved''
        \<and> list_ex (\<lambda>r. p r \<and> nt_run n = Some (ir_id r)) (i_runs db))
     (\<lambda>n. n\<lparr>nt_status := ''resolved''\<rparr>) (i_notices db)\<rparr>"

definition remind :: "int \<Rightarrow> irun \<Rightarrow> idb \<Rightarrow> idb" where
  "remind now r db =
     (let db1 = create_notification (ir_org r) ''escalation'' REMINDER_TITLE
            (''Run '' @ show_uuid (ir_id r) @ '' has been waiting ('' @ (case ir_wait r of None \<Rightarrow> ''None'' | Some k \<Rightarrow> k) @ '') past the timeout.'')
            (ir_id r) (ir_wo r) (Some ''org_admin'') (close_reminders (\<lambda>x. ir_id x = ir_id r) db)
      in db1\<lparr>i_runs := upd_where (\<lambda>x. ir_id x = ir_id r) (\<lambda>x. x\<lparr>ir_activity := now\<rparr>) (i_runs db1)\<rparr>)"

definition backstop :: "int \<Rightarrow> int \<Rightarrow> nat \<Rightarrow> idb \<Rightarrow> idb" where
  "backstop now timeout maxn db =
     (let db1 = close_reminders (\<lambda>r. ir_status r \<noteq> AWaiting) db
      in fold (remind now) (take maxn (sort_key ir_activity (filter (\<lambda>r. ir_status r = AWaiting \<and> ir_activity r < now - timeout
           \<and> ir_trigger r \<noteq> ''workflow'') (i_runs db1)))) db1)"

subsection \<open>The tools that ask\<close>

text \<open>
  A tool of an agent run: an error or a result the model reads, a run that is parked, or a run that is finished. The context of a
  call is the calling agent, its run and the identifier of the call.
\<close>

datatype tool_outcome = ToolError string | ToolResult jdict | Parked string | FinishedWith jdict

record tool_ctx =
  tc_org :: nat
  tc_agent :: agent
  tc_run :: "nat option"
  tc_call :: "string option"
  tc_wo :: "nat option"

definition MAX_HUMAN_QUESTIONS_PER_RUN :: nat where "MAX_HUMAN_QUESTIONS_PER_RUN = 2"
definition HINT_NAME_CAP :: nat where "HINT_NAME_CAP = 20"

definition diary :: "tool_ctx \<Rightarrow> string \<Rightarrow> idb \<Rightarrow> idb" where
  "diary ctx msg db = (case tc_wo ctx of None \<Rightarrow> db
     | Some wo \<Rightarrow> db\<lparr>i_entries := i_entries db @ [\<lparr>ie_org = tc_org ctx, ie_wo = wo, ie_run = tc_run ctx,
         ie_role = agt_name (tc_agent ctx), ie_text = msg\<rparr>]\<rparr>)"

definition create_question ::
  "int \<Rightarrow> nat \<Rightarrow> nat \<Rightarrow> nat \<Rightarrow> string \<Rightarrow> nat option \<Rightarrow> string \<Rightarrow> string \<Rightarrow> string option \<Rightarrow> nat option \<Rightarrow> nat option \<Rightarrow> nat option \<Rightarrow> idb \<Rightarrow> idb" where
  "create_question now fresh org i call asked_by audience msg context target peer wo db = db\<lparr>i_questions := i_questions db @
     [\<lparr>q_id = fresh, q_org = org, q_run = i, q_call = call, q_asked_by = asked_by, q_audience = audience, q_target = target, q_peer = peer,
       q_wo = wo, q_text = msg, q_context = context, q_answer = None, q_status = QPending, q_profile = None, q_agent = None,
       q_answered = None, q_created = now\<rparr>]\<rparr>"

text \<open>Of the input of a run the model keeps how many escalations it is downstream of.\<close>

definition spawn_run :: "int \<Rightarrow> nat \<Rightarrow> nat \<Rightarrow> nat \<Rightarrow> string \<Rightarrow> nat option \<Rightarrow> nat option \<Rightarrow> nat \<Rightarrow> idb \<Rightarrow> idb" where
  "spawn_run now fresh org agent trigger parent wo hops db = db\<lparr>i_runs := i_runs db @
     [\<lparr>ir_id = fresh, ir_org = org, ir_agent = agent, ir_status = AQueued, ir_trigger = trigger, ir_wait = None, ir_resume = None,
       ir_requeues = 0, ir_parent = parent, ir_wo = wo, ir_hops = hops, ir_error = None, ir_activity = now\<rparr>]\<rparr>"

definition ask_human :: "int \<Rightarrow> nat \<Rightarrow> tool_ctx \<Rightarrow> string \<Rightarrow> string \<Rightarrow> idb \<Rightarrow> idb \<times> tool_outcome" where
  "ask_human now fresh ctx raw_question raw_context db =
     (let msg = strip raw_question; context = (if strip raw_context = [] then None else Some (strip raw_context)) in
      if msg = [] then (db, ToolError '''question' is required'')
      else case (tc_run ctx, tc_call ctx) of
        (Some i, Some call) \<Rightarrow>
          if call = [] then (db, ToolError ''ask_human is only available inside an agent run'')
          else let asked = count_for_run (tc_org ctx) i ''human'' db in
            if asked \<ge> MAX_HUMAN_QUESTIONS_PER_RUN
            then (db, ToolError (''You have already asked '' @ show_nat asked @ '' question(s) on this run, which is the limit. ''
              @ ''Proceed on your best assumption and say plainly what you assumed '' @ EM_DASH @ '' a person ''
              @ ''can correct an assumption, and can do nothing with a run that stopped to ask.''))
            else (diary ctx (''Asked a human: '' @ msg)
                (create_notification (tc_org ctx) ''question'' (agt_name (tc_agent ctx) @ '' has a question for you'')
                  (case context of None \<Rightarrow> msg | Some c \<Rightarrow> msg @ [chr_of 10, chr_of 10] @ c) i (tc_wo ctx) (Some ''org_admin'')
                  (create_question now fresh (tc_org ctx) i call (Some (agt_id (tc_agent ctx))) ''human'' msg context None None (tc_wo ctx) db)),
              Parked ''question'')
      | _ \<Rightarrow> (db, ToolError ''ask_human is only available inside an agent run''))"

definition resolve_agent :: "(string \<Rightarrow> nat option) \<Rightarrow> nat \<Rightarrow> string \<Rightarrow> agent list \<Rightarrow> agent option" where
  "resolve_agent ref_id org ref agents = (case ref_id ref of
       Some i \<Rightarrow> find (\<lambda>a. agt_id a = i \<and> agt_org a = org) agents
     | None \<Rightarrow> find (\<lambda>a. agt_name a = ref \<and> agt_org a = org) agents)"

definition name_list :: "agent list \<Rightarrow> string" where
  "name_list agents = (let names = map agt_name agents in
     if length names \<le> HINT_NAME_CAP then join_with '', '' names
     else join_with '', '' (take HINT_NAME_CAP names) @ '', and '' @ show_nat (length names - HINT_NAME_CAP) @ '' more'')"

definition consultable :: "nat \<Rightarrow> nat \<Rightarrow> agent list \<Rightarrow> agent list" where
  "consultable org i agents =
     sort_key agt_name (filter (\<lambda>a. agt_org a = org \<and> agt_kind a = ''advisory'' \<and> agt_enabled a \<and> agt_id a \<noteq> i) agents)"

definition consultable_hint :: "nat \<Rightarrow> agent \<Rightarrow> agent list \<Rightarrow> string" where
  "consultable_hint org caller agents =
     (let peers = consultable org (agt_id caller) agents
      in if peers = [] then ''There are no advisory agents in this organization to consult.''
         else ''Advisory agents you can consult: '' @ name_list peers @ ''.'')"

definition consult_peer ::
  "(string \<Rightarrow> nat option) \<Rightarrow> agent list \<Rightarrow> int \<Rightarrow> nat \<Rightarrow> nat \<Rightarrow> tool_ctx \<Rightarrow> string \<Rightarrow> string \<Rightarrow> idb \<Rightarrow> idb \<times> tool_outcome" where
  "consult_peer ref_id agents now fresh_run fresh ctx raw_target raw_question db =
     (let target = strip raw_target; msg = strip raw_question; me = tc_agent ctx; org = tc_org ctx in
      if target = [] \<or> msg = [] then (db, ToolError ''Both 'agent' and 'question' are required'')
      else case resolve_agent ref_id org target agents of
        None \<Rightarrow> (db, ToolError (''Unknown peer: '' @ target @ ''. '' @ consultable_hint org me agents))
      | Some peer \<Rightarrow>
        if agt_id peer = agt_id me then (db, ToolError ''You cannot consult yourself'')
        else if agt_kind peer \<noteq> ''advisory'' then (db, ToolError ([chr_of 39] @ agt_name peer @ [chr_of 39] @ '' is a '' @ agt_kind peer
            @ '' agent; you may only consult advisory agents. '' @ consultable_hint org me agents))
        else if \<not> agt_enabled peer then (db, ToolError (agt_name peer @ '' is not currently enabled''))
        else case (tc_run ctx, tc_call ctx) of
          (Some i, Some call) \<Rightarrow>
            if call = [] then (db, ToolError ''consult_peer is only available inside an agent run'')
            else if (case irun_get org i db of None \<Rightarrow> False | Some r \<Rightarrow> ir_trigger r = ''consult'')
            then (db, ToolError ''A consult may not itself consult. Answer from what you know, or escalate.'')
            else (diary ctx (''Consulted '' @ agt_name peer @ '': '' @ msg)
                (create_question now fresh org i call (Some (agt_id me)) ''agent'' msg None (Some (agt_id peer)) (Some fresh_run) (tc_wo ctx)
                  (spawn_run now fresh_run org (agt_id peer) ''consult'' (Some i) (tc_wo ctx) 0 db)),
              Parked ''consult'')
        | _ \<Rightarrow> (db, ToolError ''consult_peer is only available inside an agent run''))"

end
