(* ===== verification/Delegation.thy ===== *)
theory Delegation
  imports Agent_Inbox
begin

section \<open>Work handed down and blockers handed up\<close>

text \<open>
  The tools that queue a run for another agent of the chart (\<open>delegate\<close>, \<open>_delegate_task\<close> and \<open>_escalate\<close> of
  \<open>services/agents/delegation.py\<close>) and what follows from the limit on escalations. Provider, model, brief and the identity
  a run acts for are left out.
\<close>

definition MAX_ESCALATION_HOPS :: nat where "MAX_ESCALATION_HOPS = 4"

definition direct_reports :: "nat \<Rightarrow> nat \<Rightarrow> agent list \<Rightarrow> agent list" where
  "direct_reports org i agents = sort_key agt_name (filter (\<lambda>a. agt_org a = org \<and> agt_supervisor a = Some i) agents)"

definition reports_hint :: "nat \<Rightarrow> agent \<Rightarrow> agent list \<Rightarrow> string" where
  "reports_hint org caller agents = (let reports = direct_reports org (agt_id caller) agents in
     if reports = [] then quoted (agt_name caller) @ '' has no direct reports to delegate to.''
     else ''Direct reports of '' @ quoted (agt_name caller) @ '': '' @ name_list reports @ ''.'')"

definition routable_colleagues :: "nat \<Rightarrow> agent \<Rightarrow> agent list \<Rightarrow> agent list \<times> agent list" where
  "routable_colleagues org a agents = (filter agt_enabled (direct_reports org (agt_id a) agents), consultable org (agt_id a) agents)"

definition delegate ::
  "(string \<Rightarrow> nat option) \<Rightarrow> agent list \<Rightarrow> int \<Rightarrow> nat \<Rightarrow> tool_ctx \<Rightarrow> string \<Rightarrow> string \<Rightarrow> idb \<Rightarrow> (string, idb) result" where
  "delegate ref_id agents now fresh_run ctx target task db =
     (let org = tc_org ctx; me = tc_agent ctx in
      case resolve_agent ref_id org target agents of
        None \<Rightarrow> Inl (''Unknown target agent: '' @ target @ ''. '' @ reports_hint org me agents)
      | Some t \<Rightarrow>
          if agt_supervisor t \<noteq> Some (agt_id me)
          then Inl (quoted (agt_name me) @ '' may only delegate to its direct reports. '' @ reports_hint org me agents)
          else Inr (spawn_run now fresh_run org (agt_id t) ''delegation'' (tc_run ctx) (tc_wo ctx) 0 db))"

definition delegate_task ::
  "(string \<Rightarrow> nat option) \<Rightarrow> agent list \<Rightarrow> int \<Rightarrow> nat \<Rightarrow> tool_ctx \<Rightarrow> string \<Rightarrow> string \<Rightarrow> idb \<Rightarrow> idb \<times> tool_outcome" where
  "delegate_task ref_id agents now fresh_run ctx raw_target raw_task db =
     (let target = strip raw_target; task = strip raw_task in
      if target = [] \<or> task = [] then (db, ToolError ''Both 'agent' and 'task' are required'')
      else case delegate ref_id agents now fresh_run ctx target task db of
        Inl e \<Rightarrow> (db, ToolError e)
      | Inr db1 \<Rightarrow> (diary ctx (''Delegated to '' @ target @ '': '' @ task) db1,
          ToolResult [(''delegated_to'', JStr target), (''child_run_id'', JStr (show_uuid fresh_run)), (''status'', JStr ''queued'')]))"

definition supervisor_of :: "nat \<Rightarrow> agent \<Rightarrow> agent list \<Rightarrow> agent option" where
  "supervisor_of org a agents = (case agt_supervisor a of None \<Rightarrow> None | Some s \<Rightarrow> find (\<lambda>x. agt_id x = s \<and> agt_org x = org) agents)"

definition escalation_hops :: "tool_ctx \<Rightarrow> idb \<Rightarrow> nat" where
  "escalation_hops ctx db = (case tc_run ctx of None \<Rightarrow> 0
     | Some i \<Rightarrow> (case irun_get (tc_org ctx) i db of None \<Rightarrow> 0 | Some r \<Rightarrow> ir_hops r))"

text \<open>A blocker goes to the supervisor, or to a person when no enabled one is left or it has climbed too often.\<close>

definition escalation_handler :: "nat \<Rightarrow> nat \<Rightarrow> agent \<Rightarrow> agent list \<Rightarrow> agent option" where
  "escalation_handler org hops a agents = (case supervisor_of org a agents of None \<Rightarrow> None
     | Some s \<Rightarrow> if \<not> agt_enabled s \<or> hops \<ge> MAX_ESCALATION_HOPS then None else Some s)"

definition escalation_reason :: "nat \<Rightarrow> nat \<Rightarrow> agent \<Rightarrow> agent list \<Rightarrow> string \<Rightarrow> string" where
  "escalation_reason org hops a agents reason = (case supervisor_of org a agents of None \<Rightarrow> reason
     | Some s \<Rightarrow> if agt_enabled s \<and> hops \<ge> MAX_ESCALATION_HOPS
         then reason @ [chr_of 10, chr_of 10] @ ''(Escalated '' @ show_nat hops @ '' times without resolution; stopping here and asking a person.)''
         else reason)"

definition notice_of :: "tool_ctx \<Rightarrow> string \<Rightarrow> string \<Rightarrow> string \<Rightarrow> string option \<Rightarrow> idb \<Rightarrow> idb" where
  "notice_of ctx kind title body role db = db\<lparr>i_notices := i_notices db @
     [\<lparr>nt_org = tc_org ctx, nt_run = tc_run ctx, nt_wo = tc_wo ctx, nt_kind = kind, nt_title = title, nt_body = body,
       nt_role = role, nt_status = ''unread''\<rparr>]\<rparr>"

definition escalate :: "agent list \<Rightarrow> int \<Rightarrow> nat \<Rightarrow> tool_ctx \<Rightarrow> string \<Rightarrow> idb \<Rightarrow> idb \<times> tool_outcome" where
  "escalate agents now fresh_run ctx raw_reason db =
     (if strip raw_reason = [] then (db, ToolError '''reason' is required'')
      else
        let org = tc_org ctx; me = tc_agent ctx; hops = escalation_hops ctx db; handler = escalation_handler org hops me agents;
            reason = escalation_reason org hops me agents (strip raw_reason);
            db1 = (case handler of None \<Rightarrow> db
              | Some s \<Rightarrow> spawn_run now fresh_run org (agt_id s) ''escalation'' (tc_run ctx) (tc_wo ctx) (hops + 1) db);
            db2 = diary ctx (''Escalated to '' @ (case handler of None \<Rightarrow> ''a human'' | Some s \<Rightarrow> agt_name s) @ '': '' @ reason)
              (notice_of ctx ''escalation'' (''Escalation from '' @ agt_name me) reason
                (if handler = None then Some ''org_admin'' else None) db1)
        in (db2, case handler of
             None \<Rightarrow> ToolResult [(''escalated_to'', JStr ''human reviewer''), (''status'', JStr ''notified'')]
           | Some s \<Rightarrow> ToolResult [(''escalated_to'', JStr (agt_name s)), (''status'', JStr ''queued''),
               (''supervisor_run_id'', JStr (show_uuid fresh_run))]))"

lemma escalation_reason_kept: "\<exists>more. escalation_reason org hops a agents reason = reason @ more"
  by (cases "supervisor_of org a agents") (simp_all add: escalation_reason_def)

subsection \<open>How far a blocker climbs\<close>

lemma escalation_handler_Some: "escalation_handler org hops a agents = Some s \<Longrightarrow>
    agt_supervisor a = Some (agt_id s) \<and> agt_org s = org \<and> agt_enabled s \<and> hops < MAX_ESCALATION_HOPS"
  by (auto simp: escalation_handler_def supervisor_of_def not_le split: option.splits if_splits dest: find_SomeD)

text \<open>The agents a blocker passes when each of them hands it on.\<close>

function escalation_path :: "nat \<Rightarrow> agent list \<Rightarrow> nat \<Rightarrow> agent \<Rightarrow> agent list" where
  "escalation_path org agents hops a = (case escalation_handler org hops a agents of None \<Rightarrow> []
     | Some s \<Rightarrow> s # escalation_path org agents (hops + 1) s)"
  by auto
termination
  by (relation "measure (\<lambda>(org, agents, hops, a). MAX_ESCALATION_HOPS - hops)") (auto dest: escalation_handler_Some)

declare escalation_path.simps [simp del]

lemma escalation_path_bounded: "length (escalation_path org agents hops a) \<le> MAX_ESCALATION_HOPS - hops"
proof (induction org agents hops a rule: escalation_path.induct)
  case (1 org agents hops a)
  show ?case
  proof (cases "escalation_handler org hops a agents")
    case None
    then show ?thesis by (simp add: escalation_path.simps [of org agents hops a])
  next
    case (Some s)
    then have "escalation_path org agents hops a = s # escalation_path org agents (hops + 1) s"
      by (simp add: escalation_path.simps [of org agents hops a])
    moreover have "hops < MAX_ESCALATION_HOPS" using escalation_handler_Some [OF Some] by simp
    ultimately show ?thesis using 1 [OF Some] by simp
  qed
qed

text \<open>
  C33. However the chart is drawn, a blocker stops climbing and is never dropped. While the caller has an enabled supervisor and the
  work was handed on fewer than four times, an escalation queues one run, for that supervisor, that is one hand-off further than its own.
  Otherwise it queues none and puts an unread notice with the reason before the administrators of the organization. The
  notice is written in both cases; with a supervisor it is a record of the hand-off and addressed to nobody.
\<close>

theorem escalation_hands_on:
  assumes "escalate agents now fresh_run ctx reason db = (db1, res)" "strip reason \<noteq> []"
  shows "\<exists>n more. i_notices db1 = i_notices db @ [n] \<and> nt_org n = tc_org ctx \<and> nt_run n = tc_run ctx \<and> nt_kind n = ''escalation''
    \<and> nt_status n = ''unread'' \<and> nt_body n = strip reason @ more
    \<and> (if (\<exists>s. supervisor_of (tc_org ctx) (tc_agent ctx) agents = Some s \<and> agt_enabled s) \<and> escalation_hops ctx db < MAX_ESCALATION_HOPS
       then nt_role n = None \<and> (\<exists>s r. supervisor_of (tc_org ctx) (tc_agent ctx) agents = Some s \<and> i_runs db1 = i_runs db @ [r]
         \<and> ir_id r = fresh_run \<and> ir_org r = tc_org ctx \<and> ir_agent r = agt_id s \<and> ir_status r = AQueued \<and> ir_parent r = tc_run ctx
         \<and> ir_hops r = escalation_hops ctx db + 1 \<and> ir_hops r \<le> MAX_ESCALATION_HOPS)
       else nt_role n = Some ''org_admin'' \<and> i_runs db1 = i_runs db
         \<and> res = ToolResult [(''escalated_to'', JStr ''human reviewer''), (''status'', JStr ''notified'')])"
proof -
  let ?org = "tc_org ctx" and ?me = "tc_agent ctx" and ?hops = "escalation_hops ctx db"
  let ?handler = "escalation_handler ?org ?hops ?me agents" and ?reason = "escalation_reason ?org ?hops ?me agents (strip reason)"
  let ?note = "\<lparr>nt_org = ?org, nt_run = tc_run ctx, nt_wo = tc_wo ctx, nt_kind = ''escalation'', nt_title = ''Escalation from '' @ agt_name ?me,
    nt_body = ?reason, nt_role = if ?handler = None then Some ''org_admin'' else None, nt_status = ''unread''\<rparr>"
  have handed: "?handler \<noteq> None \<longleftrightarrow> (\<exists>s. supervisor_of ?org ?me agents = Some s \<and> agt_enabled s) \<and> ?hops < MAX_ESCALATION_HOPS"
    by (auto simp: escalation_handler_def split: option.splits)
  have sup: "?handler = Some s \<Longrightarrow> supervisor_of ?org ?me agents = Some s" for s
    by (auto simp: escalation_handler_def split: option.splits if_splits)
  obtain more where more: "?reason = strip reason @ more" using escalation_reason_kept by blast
  have notice: "i_notices db1 = i_notices db @ [?note]"
    using assms by (cases ?handler) (auto simp: escalate_def Let_def diary_def notice_of_def spawn_run_def split: option.splits)
  show ?thesis
  proof (cases ?handler)
    case None
    then have "i_runs db1 = i_runs db" "res = ToolResult [(''escalated_to'', JStr ''human reviewer''), (''status'', JStr ''notified'')]"
      using assms by (auto simp: escalate_def Let_def diary_def notice_of_def split: option.splits)
    with None notice more handed show ?thesis by (intro exI [of _ ?note] exI [of _ more]) simp
  next
    case (Some s)
    then have "i_runs db1 = i_runs (spawn_run now fresh_run ?org (agt_id s) ''escalation'' (tc_run ctx) (tc_wo ctx) (?hops + 1) db)"
      using assms by (auto simp: escalate_def Let_def diary_def notice_of_def split: option.splits)
    moreover have "?hops < MAX_ESCALATION_HOPS" "\<exists>s. supervisor_of ?org ?me agents = Some s \<and> agt_enabled s"
      using handed Some by auto
    ultimately show ?thesis using notice more Some sup [OF Some]
      by (intro exI [of _ ?note] exI [of _ more]) (simp add: spawn_run_def)
  qed
qed

definition two_agents :: "agent list" where
  "two_agents = [\<lparr>agt_id = 1, agt_org = 1, agt_name = ''ann'', agt_kind = ''operator'', agt_supervisor = Some 2, agt_enabled = True, agt_grants = JNull\<rparr>,
     \<lparr>agt_id = 2, agt_org = 1, agt_name = ''bob'', agt_kind = ''coordinator'', agt_supervisor = Some 1, agt_enabled = True, agt_grants = JNull\<rparr>]"

lemma cyclic_chart_path: "map agt_name (escalation_path 1 two_agents 0 (hd two_agents)) = [''bob'', ''ann'', ''bob'', ''ann'']"
  by code_simp

definition blocked_ctx :: tool_ctx where
  "blocked_ctx = \<lparr>tc_org = 1, tc_agent = hd two_agents, tc_run = None, tc_call = None, tc_wo = None\<rparr>"

definition blank_inbox :: idb where
  "blank_inbox = \<lparr>i_runs = [], i_questions = [], i_approvals = [], i_notices = [], i_entries = []\<rparr>"

text \<open>The witness: \<open>ann\<close> hands the blocker to \<open>bob\<close>; an agent without a supervisor asks a person.\<close>

definition lone_ctx :: tool_ctx where
  "lone_ctx = \<lparr>tc_org = 1, tc_agent = (hd two_agents)\<lparr>agt_supervisor := None\<rparr>, tc_run = None, tc_call = None, tc_wo = None\<rparr>"

theorem escalation_hands_on_witness:
  "map ir_hops (i_runs (fst (escalate two_agents 5 9 blocked_ctx ''stuck'' blank_inbox))) = [1]
   \<and> map nt_role (i_notices (fst (escalate two_agents 5 9 lone_ctx ''stuck'' blank_inbox))) = [Some ''org_admin'']"
proof -
  have said: "strip ''stuck'' \<noteq> []" by code_simp
  have hops: "escalation_hops blocked_ctx blank_inbox = 0" "escalation_hops lone_ctx blank_inbox = 0"
    by (simp_all add: escalation_hops_def blocked_ctx_def lone_ctx_def)
  have sup: "supervisor_of 1 (tc_agent blocked_ctx) two_agents = Some (two_agents ! 1)" "agt_enabled (two_agents ! 1)"
    "supervisor_of 1 (tc_agent lone_ctx) two_agents = None"
    by (simp_all add: supervisor_of_def blocked_ctx_def lone_ctx_def two_agents_def)
  have org: "tc_org blocked_ctx = 1" "tc_org lone_ctx = 1" by (simp_all add: blocked_ctx_def lone_ctx_def)
  have blank: "i_runs blank_inbox = []" "i_notices blank_inbox = []" by (simp_all add: blank_inbox_def)
  show ?thesis
    using escalation_hands_on [OF prod.collapse [symmetric] said, of two_agents 5 9 blocked_ctx blank_inbox]
      escalation_hands_on [OF prod.collapse [symmetric] said, of two_agents 5 9 lone_ctx blank_inbox]
    by (auto simp: hops sup org blank MAX_ESCALATION_HOPS_def simp del: One_nat_def)
qed

text \<open>The count does not pass through a delegation: a run handed down starts at none, however far its work has climbed.\<close>

theorem delegation_forgets_hops:
  assumes "delegate ref_id agents now fresh_run ctx target task db = Inr db1"
  shows "\<exists>r. i_runs db1 = i_runs db @ [r] \<and> ir_hops r = 0"
  using assms by (auto simp: delegate_def spawn_run_def Let_def split: option.splits if_splits)


end
