(* ===== verification/Review_Board.thy ===== *)
theory Review_Board
  imports Json_Logic Wf_Values
begin

section \<open>The review board\<close>

text \<open>
  Who sits on a board, what the diary says they decided and what a gate does with it
  (\<open>services/agents/review_board.py\<close>, the gate of \<open>services/agents/delegation.py\<close>). The state is the diary of a work order, a list of
  texts in the order they were written. The digest of a submission is the parameter \<open>sha\<close>. The symbol that opens a
  marker and the dash are their bytes; a word is made of the word characters of patterns.
\<close>

subsection \<open>Vocabulary\<close>

definition LEVEL_SIZES :: "(string \<times> nat) list" where
  "LEVEL_SIZES = [(''none'', 0), (''light'', 1), (''standard'', 2), (''full'', 4)]"
definition DEFAULT_BOARD :: string where "DEFAULT_BOARD = ''engineering''"
definition MAX_ROUNDS :: nat where "MAX_ROUNDS = 2"
definition CONVENED :: string where "CONVENED = ''[[REVIEW-CONVENED]]''"
definition VERDICT :: string where "VERDICT = ''[[REVIEW]]''"
definition PASSED :: string where "PASSED = ''[[REVIEW-PASSED]]''"
definition RELEASED :: string where "RELEASED = ''[[REVIEW-RELEASED]]''"
definition PASS_TOKEN :: string where "PASS_TOKEN = ''PASS''"
definition FAIL_TOKEN :: string where "FAIL_TOKEN = ''FAIL''"
definition BOARD_SIGN :: string where "BOARD_SIGN = map chr_of [240, 159, 143, 155, 239, 184, 143, 32]"

lemma BOARD_SIGN_code [code]: "BOARD_SIGN = [CHR 0xF0, CHR 0x9F, CHR 0x8F, CHR 0x9B, CHR 0xEF, CHR 0xB8, CHR 0x8F, CHR 0x20]"
  by code_simp

record seat =
  seat_agent :: string
  seat_lens :: string

record board_outcome =
  bo_verdicts :: "(string, string) dict"
  bo_pending :: "string list"
  bo_failed :: "string list"

definition bo_settled :: "board_outcome \<Rightarrow> bool" where
  "bo_settled b \<longleftrightarrow> bo_pending b = []"

definition bo_approved :: "board_outcome \<Rightarrow> bool" where
  "bo_approved b \<longleftrightarrow> bo_settled b \<and> bo_failed b = []"

subsection \<open>Choosing the board\<close>

definition seat_field :: "jdict \<Rightarrow> string \<Rightarrow> string" where
  "seat_field d k = strip (py_str (py_or (jget d k) (JStr '''')))"

definition seats_of :: "json \<Rightarrow> seat list" where
  "seats_of raw = (case raw of JList items \<Rightarrow> List.map_filter (\<lambda>item. case item of
       JObj d \<Rightarrow> if seat_field d ''agent'' = [] then None
         else Some \<lparr>seat_agent = seat_field d ''agent'', seat_lens = seat_field d ''lens''\<rparr>
     | _ \<Rightarrow> None) items | _ \<Rightarrow> [])"

definition resolve_board :: "json \<Rightarrow> string \<Rightarrow> string \<Rightarrow> string option \<Rightarrow> seat list" where
  "resolve_board boards level board_name author =
     (let n = (case dget LEVEL_SIZES level of Some k \<Rightarrow> k | None \<Rightarrow> 2) in
      if n = 0 then []
      else
        let table = (case boards of JObj d \<Rightarrow> d | _ \<Rightarrow> []);
            seats = seats_of (py_or (jget table board_name) (jget table DEFAULT_BOARD));
            others = (case author of None \<Rightarrow> seats | Some a \<Rightarrow> if a = [] then seats else filter (\<lambda>s. seat_agent s \<noteq> a) seats)
        in take n others)"

subsection \<open>Text\<close>

text \<open>Words between white space, lines at any line separator, and the parts of a text around the first occurrence of another.\<close>

fun split_words :: "string \<Rightarrow> string \<Rightarrow> string list" where
  "split_words acc [] = (if acc = [] then [] else [acc])"
| "split_words acc (c # s) = (if is_space c then (if acc = [] then split_words [] s else acc # split_words [] s) else split_words (acc @ [c]) s)"

definition is_line_end :: "char \<Rightarrow> bool" where
  "is_line_end c \<longleftrightarrow> char_code c \<in> {10, 11, 12, 13, 28, 29, 30, 133}"

fun text_lines :: "string \<Rightarrow> string \<Rightarrow> string list" where
  "text_lines acc [] = [acc]"
| "text_lines acc (c # s) = (if is_line_end c then acc # text_lines [] s else text_lines (acc @ [c]) s)"

definition starts_with :: "string \<Rightarrow> string \<Rightarrow> bool" where
  "starts_with p s \<longleftrightarrow> take (length p) s = p"

fun after_first :: "string \<Rightarrow> string \<Rightarrow> string option" where
  "after_first p s = (if starts_with p s then Some (drop (length p) s)
     else case s of [] \<Rightarrow> None | _ # s' \<Rightarrow> after_first p s')"

definition at_word_end :: "string \<Rightarrow> bool" where
  "at_word_end s \<longleftrightarrow> (case s of [] \<Rightarrow> True | c # _ \<Rightarrow> \<not> word_char c)"

text \<open>A whole word anywhere in a text, upper or lower case; the flag says whether a word may start here.\<close>

fun has_word :: "string \<Rightarrow> bool \<Rightarrow> string \<Rightarrow> bool" where
  "has_word w b [] = False"
| "has_word w b (c # s) = (b \<and> lower (take (length w) (c # s)) = lower w \<and> at_word_end (drop (length w) (c # s))
     \<or> has_word w (\<not> word_char c) s)"

subsection \<open>Markers\<close>

definition fingerprint :: "(string \<Rightarrow> string) \<Rightarrow> string \<Rightarrow> string" where
  "fingerprint sha submission = take 16 (sha (join_with '' '' (split_words [] submission)))"

definition convene_marker :: "string \<Rightarrow> string \<Rightarrow> seat list \<Rightarrow> string" where
  "convene_marker gate digest seats = BOARD_SIGN @ CONVENED @ '' '' @ gate @ '' ('' @ digest @ '') '' @ EM_DASH @ '' ''
     @ join_with '', '' (map seat_agent seats)"

definition verdict_marker :: "string \<Rightarrow> string \<Rightarrow> string \<Rightarrow> string" where
  "verdict_marker reviewer verdict note = BOARD_SIGN @ VERDICT @ '' '' @ verdict @ '' by '' @ reviewer @ '': '' @ note"

fun first_verdict :: "string list \<Rightarrow> string" where
  "first_verdict [] = FAIL_TOKEN"
| "first_verdict (l # ls) = (if has_word FAIL_TOKEN True l then FAIL_TOKEN
     else if has_word PASS_TOKEN True l then PASS_TOKEN else first_verdict ls)"

definition parse_verdict :: "string \<Rightarrow> string" where
  "parse_verdict answer = first_verdict (text_lines [] answer)"

subsection \<open>Reading the diary\<close>

definition opens_round :: "string \<Rightarrow> string \<Rightarrow> bool" where
  "opens_round gate entry = substring (CONVENED @ '' '' @ gate @ '' '') entry"

definition rounds_run :: "string list \<Rightarrow> string \<Rightarrow> nat" where
  "rounds_run entries gate = length (filter (\<lambda>e. substring CONVENED e \<and> opens_round gate e) entries)"

definition is_hex :: "char \<Rightarrow> bool" where
  "is_hex c \<longleftrightarrow> is_digit c \<or> (97 \<le> char_code c \<and> char_code c \<le> 102)"

fun find_digest :: "string \<Rightarrow> string option" where
  "find_digest [] = None"
| "find_digest (c # s) = (if c = CHR ''('' \<and> length (take 16 s) = 16 \<and> list_all is_hex (take 16 s) \<and> starts_with '')'' (drop 16 s)
     then Some (take 16 s) else find_digest s)"

fun first_some :: "('a \<Rightarrow> 'b option) \<Rightarrow> 'a list \<Rightarrow> 'b option" where
  "first_some f [] = None"
| "first_some f (x # xs) = (case f x of Some y \<Rightarrow> Some y | None \<Rightarrow> first_some f xs)"

definition last_digest :: "string list \<Rightarrow> string \<Rightarrow> string option" where
  "last_digest entries gate = first_some (\<lambda>e. if opens_round gate e then find_digest e else None) (rev entries)"

definition current_seats :: "string list \<Rightarrow> string \<Rightarrow> string list" where
  "current_seats entries gate = (case find (opens_round gate) (rev entries) of None \<Rightarrow> []
     | Some e \<Rightarrow> filter (\<lambda>n. n \<noteq> []) (map strip (split_on (CHR '','') (case after_first EM_DASH e of None \<Rightarrow> [] | Some s \<Rightarrow> s))))"

definition name_char :: "char \<Rightarrow> bool" where
  "name_char c \<longleftrightarrow> (let n = char_code c in is_digit c \<or> (65 \<le> n \<and> n \<le> 90) \<or> (97 \<le> n \<and> n \<le> 122) \<or> n = 95 \<or> n = 45)"

text \<open>The verdict a text starts with: the word, \<open>by\<close> and a name.\<close>

definition verdict_here :: "string \<Rightarrow> (string \<times> string) option" where
  "verdict_here s = (let v = take 4 s; s1 = drop 4 s; s2 = dropWhile is_space s1; s3 = drop 2 s2; s4 = dropWhile is_space s3;
       name = takeWhile name_char s4
     in if (v = PASS_TOKEN \<or> v = FAIL_TOKEN) \<and> s2 \<noteq> s1 \<and> starts_with ''by'' s2 \<and> s4 \<noteq> s3 \<and> name \<noteq> [] then Some (name, v) else None)"

fun find_verdict :: "bool \<Rightarrow> string \<Rightarrow> (string \<times> string) option" where
  "find_verdict b [] = None"
| "find_verdict b (c # s) = (case (if b then verdict_here (c # s) else None) of Some v \<Rightarrow> Some v
     | None \<Rightarrow> find_verdict (\<not> word_char c) s)"

definition entry_verdict :: "string list \<Rightarrow> string \<Rightarrow> (string \<times> string) option" where
  "entry_verdict seats e = (if \<not> substring VERDICT e then None
     else case find_verdict True e of None \<Rightarrow> None | Some (who, v) \<Rightarrow> if who \<in> set seats then Some (who, v) else None)"

definition this_round :: "string list \<Rightarrow> string \<Rightarrow> string list" where
  "this_round entries gate = (if list_ex (opens_round gate) entries
     then rev (takeWhile (\<lambda>e. \<not> opens_round gate e) (rev entries)) else drop 1 entries)"

definition board_state :: "string list \<Rightarrow> string \<Rightarrow> board_outcome" where
  "board_state entries gate =
     (let seats = current_seats entries gate in
      if seats = [] then \<lparr>bo_verdicts = [], bo_pending = [], bo_failed = []\<rparr>
      else let vs = fold (\<lambda>(who, v) d. dset d who v) (List.map_filter (entry_verdict seats) (this_round entries gate)) []
        in \<lparr>bo_verdicts = vs, bo_pending = filter (\<lambda>s. s \<notin> set (dkeys vs)) seats,
            bo_failed = map fst (filter (\<lambda>(_, v). v = FAIL_TOKEN) vs)\<rparr>)"

definition has_passed :: "string list \<Rightarrow> string \<Rightarrow> string \<Rightarrow> bool" where
  "has_passed entries gate digest = list_ex (\<lambda>e. substring (PASSED @ '' '' @ gate @ '' ('' @ digest @ '')'') e
     \<or> substring (RELEASED @ '' '' @ gate @ '' ('' @ digest @ '')'') e) entries"

subsection \<open>The delivery gate\<close>

datatype gate_step = Cleared | ClearedWith string | ChangesRequested "string list" | Convene "seat list"

definition verdict_names :: "board_outcome \<Rightarrow> string" where
  "verdict_names b = (if bo_verdicts b = [] then ''no verdicts'' else join_with '', '' (dkeys (bo_verdicts b)))"

text \<open>
  What a submission meets at its gate: nothing more to do, an entry that clears the gate, the objections, or a new round. The
  gates differ in the entry: a deliverable lists who decided, a plan the verdicts of an approval or the objections left.
\<close>

definition delivery_gate :: "string list \<Rightarrow> string \<Rightarrow> seat list \<Rightarrow> gate_step" where
  "delivery_gate entries digest seats =
     (let gate = ''delivery''; b = board_state entries gate in
      if has_passed entries gate digest then Cleared
      else if seats = [] then Cleared
      else if last_digest entries gate = Some digest \<and> bo_settled b then
        (if bo_approved b \<or> rounds_run entries gate \<ge> MAX_ROUNDS
         then ClearedWith (BOARD_SIGN @ (if bo_approved b then PASSED else RELEASED) @ '' '' @ gate @ '' ('' @ digest @ '') '' @ EM_DASH @ '' ''
           @ verdict_names b)
         else ChangesRequested (bo_failed b))
      else Convene seats)"

definition plan_gate :: "string list \<Rightarrow> string \<Rightarrow> seat list \<Rightarrow> gate_step" where
  "plan_gate entries digest seats =
     (let gate = ''plan''; b = board_state entries gate in
      if has_passed entries gate digest then Cleared
      else if seats = [] then Cleared
      else if last_digest entries gate = Some digest \<and> bo_settled b then
        (if bo_approved b
         then ClearedWith (BOARD_SIGN @ PASSED @ '' '' @ gate @ '' ('' @ digest @ '') '' @ EM_DASH @ '' '' @ join_with '', '' (dkeys (bo_verdicts b)))
         else if rounds_run entries gate \<ge> MAX_ROUNDS
         then ClearedWith (BOARD_SIGN @ RELEASED @ '' '' @ gate @ '' ('' @ digest @ '') '' @ EM_DASH @ '' unresolved: '' @ join_with '', '' (bo_failed b))
         else ChangesRequested (bo_failed b))
      else Convene seats)"

end
