(* ===== verification/Peer_Review.thy ===== *)
theory Peer_Review
  imports Delegation Review_Board
begin

section \<open>Peer review of a run's work\<close>

text \<open>
  The tools that put a plan or a deliverable before a board and the one that answers (\<open>services/agents/review_gate.py\<close>,
  \<open>_reply_to_peer\<close>, \<open>_peer_review_delivery\<close> and \<open>_request_review\<close> of \<open>delegation.py\<close>, \<open>submit_plan\<close> of \<open>tools/plan_mode.py\<close>), over the
  rows of \<open>Agent_Inbox\<close> and the rules of \<open>Review_Board\<close>. The diary of an order is the list of its entries. The
  work order comes in as its identifier, title, level and board; the text of its tasks, a brief for the reviewer, is left out.
\<close>

record order_view =
  ov_id :: nat
  ov_title :: string
  ov_level :: string
  ov_board :: string

definition wo_texts :: "nat \<Rightarrow> nat \<Rightarrow> idb \<Rightarrow> string list" where
  "wo_texts org wo db = map ie_text (filter (\<lambda>e. ie_wo e = wo \<and> ie_org e = org) (i_entries db))"

definition add_review_entry :: "nat \<Rightarrow> nat \<Rightarrow> string \<Rightarrow> idb \<Rightarrow> idb" where
  "add_review_entry org wo msg db = db\<lparr>i_entries := i_entries db @
     [\<lparr>ie_org = org, ie_wo = wo, ie_run = None, ie_role = ''review'', ie_text = msg\<rparr>]\<rparr>"

subsection \<open>The board of an order\<close>

definition BOARD_BY_KIND :: "(string, string) dict" where
  "BOARD_BY_KIND = [(''business'', ''business''), (''engineering'', ''engineering'')]"

definition board_for :: "order_view \<Rightarrow> json \<Rightarrow> string option \<Rightarrow> seat list" where
  "board_for wo boards author = resolve_board boards (ov_level wo)
     (case dget BOARD_BY_KIND (ov_board wo) of Some k \<Rightarrow> k | None \<Rightarrow> DEFAULT_BOARD) author"

definition seat_agents :: "nat \<Rightarrow> agent list \<Rightarrow> seat list \<Rightarrow> (seat \<times> agent) list" where
  "seat_agents org agents seats = List.map_filter (\<lambda>s.
     case find (\<lambda>a. agt_name a = seat_agent s \<and> agt_org a = org \<and> agt_enabled a) agents of None \<Rightarrow> None | Some a \<Rightarrow> Some (s, a)) seats"

subsection \<open>A round\<close>

definition OPEN_QUOTE :: string where "OPEN_QUOTE = map chr_of [226, 128, 156]"
definition CLOSE_QUOTE :: string where "CLOSE_QUOTE = map chr_of [226, 128, 157]"

text \<open>One reviewer: a run of its own and a question of the asking call that waits for it.\<close>

definition seat_reviewer :: "int \<Rightarrow> nat \<Rightarrow> nat \<Rightarrow> tool_ctx \<Rightarrow> nat \<Rightarrow> order_view \<Rightarrow> string \<Rightarrow> nat \<times> agent \<Rightarrow> idb \<Rightarrow> idb" where
  "seat_reviewer now fresh_run fresh ctx i wo gate = (\<lambda>(k, a) db.
     create_question now (fresh + k) (tc_org ctx) i (str_or (tc_call ctx) []) (Some (agt_id (tc_agent ctx))) ''agent''
       (''Review the '' @ gate @ '' for '' @ OPEN_QUOTE @ ov_title wo @ CLOSE_QUOTE @ '' through your lens.'') None
       (Some (agt_id a)) (Some (fresh_run + k)) (Some (ov_id wo))
       (spawn_run now (fresh_run + k) (tc_org ctx) (agt_id a) ''consult'' (Some i) (Some (ov_id wo)) 0 db))"

definition convene ::
  "agent list \<Rightarrow> int \<Rightarrow> nat \<Rightarrow> nat \<Rightarrow> tool_ctx \<Rightarrow> nat \<Rightarrow> order_view \<Rightarrow> string \<Rightarrow> string \<Rightarrow> seat list \<Rightarrow> idb \<Rightarrow> idb \<times> tool_outcome" where
  "convene agents now fresh_run fresh ctx i wo gate digest seats db =
     (let staffed = seat_agents (tc_org ctx) agents seats in
      if staffed = [] then (db, ToolResult [(''convened'', JList [])])
      else (add_review_entry (tc_org ctx) (ov_id wo) (convene_marker gate digest (map fst staffed))
              (fold (seat_reviewer now fresh_run fresh ctx i wo gate) (zip [0..<length staffed] (map snd staffed)) db),
            Parked ''consult''))"

text \<open>A reply to a question that belongs to an order files a verdict.\<close>

definition record_verdict :: "tool_ctx \<Rightarrow> question \<Rightarrow> string \<Rightarrow> idb \<Rightarrow> idb" where
  "record_verdict ctx q answer db = (case q_wo q of None \<Rightarrow> db
     | Some wo \<Rightarrow> if q_audience q \<noteq> ''agent'' then db
         else db\<lparr>i_entries := i_entries db @ [\<lparr>ie_org = tc_org ctx, ie_wo = wo, ie_run = tc_run ctx, ie_role = ''review'',
           ie_text = verdict_marker (agt_name (tc_agent ctx)) (parse_verdict answer) (take 1500 (strip answer))\<rparr>]\<rparr>)"

definition reply_to_peer :: "int \<Rightarrow> tool_ctx \<Rightarrow> string \<Rightarrow> idb \<Rightarrow> idb \<times> tool_outcome" where
  "reply_to_peer now ctx raw_answer db =
     (let answer = strip raw_answer in
      if answer = [] then (db, ToolError '''answer' is required'')
      else case tc_run ctx of None \<Rightarrow> (db, ToolError ''reply_to_peer is only available inside an agent run'')
      | Some i \<Rightarrow> (case pending_for_peer_run (tc_org ctx) i db of
          None \<Rightarrow> (db, ToolError (''No one is waiting on you '' @ EM_DASH @ '' reply_to_peer only answers a consult.''))
        | Some q \<Rightarrow>
          let (db1, res) = record_answer now (tc_org ctx) q answer None (Some (agt_id (tc_agent ctx))) (Some (agt_name (tc_agent ctx))) db;
              db2 = diary ctx (''Answered the consult: '' @ answer) (record_verdict ctx q answer db1)
          in if res = Inr True then (db2, FinishedWith [(''output'', JObj [(''answer'', JStr answer)])])
             else (db2, ToolResult [(''answered'', JBool False), (''reason'', JStr ''The agent that asked is no longer waiting for an answer.'')])))"

subsection \<open>The gates as tools\<close>

definition gate_of :: "string \<Rightarrow> string list \<Rightarrow> string \<Rightarrow> seat list \<Rightarrow> gate_step" where
  "gate_of gate = (if gate = ''plan'' then plan_gate else delivery_gate)"

definition DELIVERY_NOTE :: string where
  "DELIVERY_NOTE = ''Your reviewers are not satisfied. Address this and call request_review '' @ ''again with a revised summary of what you delivered.''"

definition plan_note :: "nat \<Rightarrow> string" where
  "plan_note remaining = ''Address these and call submit_plan again with a revised summary; ''
     @ ''resubmitting the same text will not re-open the review. ''
     @ show_nat remaining @ '' review round(s) remain, after which this goes to a person '' @ ''with any unresolved objections attached.''"

definition objections :: "string \<Rightarrow> string list \<Rightarrow> string list \<Rightarrow> jdict" where
  "objections gate entries failed =
     (let findings = map (\<lambda>(w, v). (w, JStr v)) (bo_verdicts (board_state entries gate));
          remaining = MAX_ROUNDS - rounds_run entries gate
      in [(''review'', JStr ''changes requested''), (''failed'', JList (map JStr failed)), (''findings'', JObj findings)]
         @ (if gate = ''plan'' then [(''review_rounds_remaining'', JInt (int remaining)), (''note'', JStr (plan_note remaining))]
            else [(''note'', JStr DELIVERY_NOTE)]))"

text \<open>What the gate leaves to the tool: an outcome of the call, or nothing when the submission is cleared.\<close>

definition review_submission ::
  "(string \<Rightarrow> string) \<Rightarrow> json \<Rightarrow> agent list \<Rightarrow> int \<Rightarrow> nat \<Rightarrow> nat \<Rightarrow> tool_ctx \<Rightarrow> nat \<Rightarrow> order_view \<Rightarrow> string \<Rightarrow> string \<Rightarrow> idb
    \<Rightarrow> idb \<times> tool_outcome option" where
  "review_submission sha boards agents now fresh_run fresh ctx i wo gate summary db =
     (let digest = fingerprint sha summary; entries = wo_texts (tc_org ctx) (ov_id wo) db;
          seats = board_for wo boards (Some (agt_name (tc_agent ctx)))
      in case gate_of gate entries digest seats of
           Cleared \<Rightarrow> (db, None)
         | ClearedWith t \<Rightarrow> (add_review_entry (tc_org ctx) (ov_id wo) t db, None)
         | ChangesRequested failed \<Rightarrow> (db, Some (ToolResult (objections gate entries failed)))
         | Convene s \<Rightarrow> (case convene agents now fresh_run fresh ctx i wo gate digest s db of
              (db1, Parked k) \<Rightarrow> (db1, Some (Parked k))
            | (db1, _) \<Rightarrow> (db1, None)))"

definition peer_review_delivery ::
  "(string \<Rightarrow> string) \<Rightarrow> json \<Rightarrow> agent list \<Rightarrow> int \<Rightarrow> nat \<Rightarrow> nat \<Rightarrow> tool_ctx \<Rightarrow> order_view \<Rightarrow> string \<Rightarrow> idb \<Rightarrow> idb \<times> tool_outcome option" where
  "peer_review_delivery sha boards agents now fresh_run fresh ctx wo summary db =
     (case (tc_wo ctx, tc_run ctx) of
        (Some _, Some i) \<Rightarrow> review_submission sha boards agents now fresh_run fresh ctx i wo ''delivery'' summary db
      | _ \<Rightarrow> (db, None))"

text \<open>A cleared deliverable is announced to the supervisor, or to the administrators.\<close>

definition request_review ::
  "(string \<Rightarrow> string) \<Rightarrow> json \<Rightarrow> agent list \<Rightarrow> int \<Rightarrow> nat \<Rightarrow> nat \<Rightarrow> tool_ctx \<Rightarrow> order_view \<Rightarrow> string \<Rightarrow> idb \<Rightarrow> idb \<times> tool_outcome" where
  "request_review sha boards agents now fresh_run fresh ctx wo raw_summary db =
     (let summary = strip raw_summary in
      if summary = [] then (db, ToolError '''summary' is required'')
      else case peer_review_delivery sha boards agents now fresh_run fresh ctx wo summary db of
        (db1, Some res) \<Rightarrow> (db1, res)
      | (db1, None) \<Rightarrow>
          (diary ctx (''Requested review: '' @ summary)
             (notice_of ctx ''review'' (''Review requested by '' @ agt_name (tc_agent ctx)) summary
               (if supervisor_of (tc_org ctx) (tc_agent ctx) agents = None then Some ''org_admin'' else None) db1),
           ToolResult [(''review_requested_from'', JStr (case supervisor_of (tc_org ctx) (tc_agent ctx) agents of
               Some s \<Rightarrow> agt_name s | None \<Rightarrow> ''human reviewer'')), (''status'', JStr ''pending'')]))"

text \<open>A plan a board has cleared still needs a person; what an approved plan starts is in \<open>Work_Orders\<close>.\<close>

definition human_approved :: "nat \<Rightarrow> nat \<Rightarrow> idb \<Rightarrow> bool" where
  "human_approved org i db = list_ex (\<lambda>a. ia_run a = i \<and> ia_org a = org \<and> ia_tool a = ''submit_plan'' \<and> ia_status a = ApApproved) (i_approvals db)"

definition ask_the_human :: "nat \<Rightarrow> nat \<Rightarrow> nat \<Rightarrow> idb \<Rightarrow> idb \<times> tool_outcome" where
  "ask_the_human fresh org i db = (db\<lparr>i_approvals := i_approvals db @
     [\<lparr>ia_id = fresh, ia_org = org, ia_run = i, ia_tool = ''submit_plan'', ia_status = ApPending, ia_by = None, ia_at = None\<rparr>]\<rparr>, Parked ''approval'')"

definition submit_plan ::
  "(string \<Rightarrow> string) \<Rightarrow> json \<Rightarrow> agent list \<Rightarrow> int \<Rightarrow> nat \<Rightarrow> nat \<Rightarrow> tool_ctx \<Rightarrow> nat \<Rightarrow> order_view \<Rightarrow> string \<Rightarrow> idb \<Rightarrow> idb \<times> tool_outcome" where
  "submit_plan sha boards agents now fresh_run fresh ctx i wo raw_summary db =
     (case tc_wo ctx of None \<Rightarrow> (db, ToolError ''This run is not attached to a work order, so there is no plan to submit.'')
      | Some w \<Rightarrow> let summary = strip raw_summary in
        if summary = [] then (db, ToolError ('''summary' is required '' @ EM_DASH @ '' state the plan you want approved.''))
        else case review_submission sha boards agents now fresh_run fresh ctx i wo ''plan'' summary db of
          (db1, Some res) \<Rightarrow> (db1, res)
        | (db1, None) \<Rightarrow>
            if \<not> human_approved (tc_org ctx) i db1 then ask_the_human fresh (tc_org ctx) i db1
            else (db1\<lparr>i_entries := i_entries db1 @ [\<lparr>ie_org = tc_org ctx, ie_wo = w, ie_run = tc_run ctx, ie_role = agt_name (tc_agent ctx),
                    ie_text = ''Plan approved. Starting work.'' @ [chr_of 10, chr_of 10] @ summary\<rparr>]\<rparr>,
                  FinishedWith [(''approved'', JBool True), (''mode'', JStr ''manual'')]))"


end
