(* ===== verification/Agent_Inbox_Props.thy ===== *)
theory Agent_Inbox_Props
  imports Peer_Review
begin

section \<open>No run waits for nobody\<close>

text \<open>
  The invariant of the rows of \<open>Agent_Inbox\<close>, kept by every operation that parks, wakes or ends a run: each open
  question and each open approval belongs to a run that waits for it, each waiting run has something open, and the agent that
  owes an answer still has a run. Operations are atomic here; what two of them do when they overlap is shown at the end.
\<close>

subsection \<open>The invariant\<close>

definition pend :: "question \<Rightarrow> bool" where "pend q \<longleftrightarrow> q_status q = QPending"
definition asked :: "iapproval \<Rightarrow> bool" where "asked a \<longleftrightarrow> ia_status a = ApPending"
definition ended :: "irun \<Rightarrow> bool" where "ended r \<longleftrightarrow> \<not> is_nonterminal (ir_status r)"
definition awaits_answer :: "irun \<Rightarrow> bool" where
  "awaits_answer r \<longleftrightarrow> ir_status r = AWaiting \<and> ir_wait r \<noteq> Some ''approval''"
definition awaits_approval :: "irun \<Rightarrow> bool" where
  "awaits_approval r \<longleftrightarrow> ir_status r = AWaiting \<and> ir_wait r = Some ''approval''"

lemmas wait_defs = pend_def asked_def ended_def awaits_answer_def awaits_approval_def is_nonterminal_def

definition has_run :: "idb \<Rightarrow> nat \<Rightarrow> nat \<Rightarrow> (irun \<Rightarrow> bool) \<Rightarrow> bool" where
  "has_run db org i P \<longleftrightarrow> (\<exists>r\<in>set (i_runs db). ir_id r = i \<and> ir_org r = org \<and> P r)"

text \<open>The rows refer to each other by key.\<close>

definition keys_ok :: "idb \<Rightarrow> bool" where
  "keys_ok db \<longleftrightarrow> distinct (map ir_id (i_runs db)) \<and> distinct (map q_id (i_questions db)) \<and> distinct (map ia_id (i_approvals db))
     \<and> distinct (List.map_filter q_peer (i_questions db))
     \<and> (\<forall>q\<in>set (i_questions db). has_run db (q_org q) (q_run q) (\<lambda>_. True)
          \<and> (\<forall>p. q_peer q = Some p \<longrightarrow> has_run db (q_org q) p (\<lambda>_. True)) \<and> (q_audience q = ''agent'' \<longrightarrow> q_peer q \<noteq> None))
     \<and> (\<forall>a\<in>set (i_approvals db). has_run db (ia_org a) (ia_run a) (\<lambda>_. True))"

text \<open>\<open>X\<close> holds the runs that are being ended: between two updates of one operation their own rows may lag behind.\<close>

definition questions_ok :: "nat set \<Rightarrow> idb \<Rightarrow> bool" where
  "questions_ok X db \<longleftrightarrow>
     (\<forall>q\<in>set (i_questions db). pend q \<and> q_run q \<notin> X \<longrightarrow> has_run db (q_org q) (q_run q) awaits_answer)
     \<and> (\<forall>r\<in>set (i_runs db). awaits_answer r \<longrightarrow> (\<exists>q\<in>set (i_questions db). pend q \<and> q_run q = ir_id r))
     \<and> (\<forall>q\<in>set (i_questions db). \<forall>q'\<in>set (i_questions db). pend q \<and> pend q' \<and> q_run q = q_run q' \<longrightarrow> q_call q = q_call q')
     \<and> (\<forall>q\<in>set (i_questions db). \<forall>p. pend q \<and> q_peer q = Some p \<and> p \<notin> X \<longrightarrow> has_run db (q_org q) p (\<lambda>r. \<not> ended r))"

definition approvals_ok :: "idb \<Rightarrow> bool" where
  "approvals_ok db \<longleftrightarrow>
     (\<forall>r\<in>set (i_runs db). awaits_approval r \<longrightarrow> (\<exists>a\<in>set (i_approvals db). asked a \<and> ia_run a = ir_id r))
     \<and> (\<forall>a\<in>set (i_approvals db). asked a \<longrightarrow> has_run db (ia_org a) (ia_run a) (\<lambda>r. awaits_approval r \<or> ended r))
     \<and> (\<forall>a\<in>set (i_approvals db). \<forall>b\<in>set (i_approvals db). asked a \<and> asked b \<and> ia_run a = ia_run b \<longrightarrow>
          a = b \<or> has_run db (ia_org a) (ia_run a) ended)"

definition inbox_inv :: "nat set \<Rightarrow> idb \<Rightarrow> bool" where
  "inbox_inv X db \<longleftrightarrow> keys_ok db \<and> questions_ok X db \<and> approvals_ok db"

subsection \<open>Updates in place\<close>

definition keeps_run :: "(irun \<Rightarrow> irun) \<Rightarrow> bool" where
  "keeps_run f \<longleftrightarrow> (\<forall>r. ir_id (f r) = ir_id r \<and> ir_org (f r) = ir_org r)"

definition keeps_question :: "(question \<Rightarrow> question) \<Rightarrow> bool" where
  "keeps_question g \<longleftrightarrow> (\<forall>q. q_id (g q) = q_id q \<and> q_org (g q) = q_org q \<and> q_run (g q) = q_run q \<and> q_call (g q) = q_call q
     \<and> q_peer (g q) = q_peer q \<and> q_audience (g q) = q_audience q)"

definition keeps_approval :: "(iapproval \<Rightarrow> iapproval) \<Rightarrow> bool" where
  "keeps_approval h \<longleftrightarrow> (\<forall>a. ia_id (h a) = ia_id a \<and> ia_org (h a) = ia_org a \<and> ia_run (h a) = ia_run a)"

lemma has_run_map: "keeps_run f \<Longrightarrow> i_runs db' = map f (i_runs db) \<Longrightarrow> has_run db' org i P \<longleftrightarrow> has_run db org i (P \<circ> f)"
  by (auto simp: has_run_def keeps_run_def)

lemma has_run_mono: "has_run db org i P \<Longrightarrow> (\<And>r. r \<in> set (i_runs db) \<Longrightarrow> ir_id r = i \<Longrightarrow> P r \<Longrightarrow> Q r) \<Longrightarrow> has_run db org i Q"
  by (auto simp: has_run_def)

lemma keys_map:
  assumes "keys_ok db" "keeps_run f" "keeps_question g" "keeps_approval h"
    "i_runs db' = map f (i_runs db)" "i_questions db' = map g (i_questions db)" "i_approvals db' = map h (i_approvals db)"
  shows "keys_ok db'"
proof -
  have "map ir_id (i_runs db') = map ir_id (i_runs db)" "map q_id (i_questions db') = map q_id (i_questions db)"
    "map ia_id (i_approvals db') = map ia_id (i_approvals db)"
    using assms(2-7) by (simp_all add: keeps_run_def keeps_question_def keeps_approval_def)
  moreover have "List.map_filter q_peer (i_questions db') = List.map_filter q_peer (i_questions db)"
    using assms(3,6) by (simp add: List.map_filter_def filter_map comp_def keeps_question_def)
  ultimately show ?thesis
    using assms(1,3,4,6,7) has_run_map [OF assms(2,5)]
    by (auto simp: keys_ok_def keeps_question_def keeps_approval_def comp_def)
qed

lemma questions_map:
  assumes "questions_ok X db" "keeps_run f" "keeps_question g"
    and runs: "i_runs db' = map f (i_runs db)" and qs: "i_questions db' = map g (i_questions db)"
    and g: "\<And>q. q \<in> set (i_questions db) \<Longrightarrow> pend (g q) \<Longrightarrow> pend q"
    and a: "\<And>q. q \<in> set (i_questions db) \<Longrightarrow> pend (g q) \<Longrightarrow> q_run q \<notin> Y \<Longrightarrow> q_run q \<notin> X \<and>
      (\<forall>r\<in>set (i_runs db). ir_id r = q_run q \<and> awaits_answer r \<longrightarrow> awaits_answer (f r))"
    and b: "\<And>r. r \<in> set (i_runs db) \<Longrightarrow> awaits_answer (f r) \<Longrightarrow> \<exists>q\<in>set (i_questions db). pend (g q) \<and> q_run q = ir_id r"
    and c: "\<And>q p. q \<in> set (i_questions db) \<Longrightarrow> pend (g q) \<Longrightarrow> q_peer q = Some p \<Longrightarrow> p \<notin> Y \<Longrightarrow> p \<notin> X \<and>
      (\<forall>r\<in>set (i_runs db). ir_id r = p \<and> \<not> ended r \<longrightarrow> \<not> ended (f r))"
  shows "questions_ok Y db'"
proof -
  note k = assms(3) [unfolded keeps_question_def, rule_format] and m = has_run_map [OF assms(2) runs]
  note q = assms(1) [unfolded questions_ok_def]
  have wait: "has_run db (q_org q) (q_run q) (awaits_answer \<circ> f)"
    if "q \<in> set (i_questions db)" "pend (g q)" "q_run q \<notin> Y" for q
  proof -
    have "has_run db (q_org q) (q_run q) awaits_answer" using q g [OF that(1,2)] a [OF that] that(1) by blast
    then show ?thesis by (rule has_run_mono) (use a [OF that] in simp)
  qed
  have peer: "has_run db (q_org q) p ((\<lambda>r. \<not> ended r) \<circ> f)"
    if "q \<in> set (i_questions db)" "pend (g q)" "q_peer q = Some p" "p \<notin> Y" for q p
  proof -
    have "has_run db (q_org q) p (\<lambda>r. \<not> ended r)" using q g [OF that(1,2)] c [OF that] that(1,3) by blast
    then show ?thesis by (rule has_run_mono) (use c [OF that] in simp)
  qed
  have same: "q_call q = q_call q'"
    if "q \<in> set (i_questions db)" "q' \<in> set (i_questions db)" "pend (g q)" "pend (g q')" "q_run q = q_run q'" for q q'
    using q g [OF that(1,3)] g [OF that(2,4)] that by blast
  have r: "ir_id (f r) = ir_id r" for r using assms(2) by (simp add: keeps_run_def)
  show ?thesis unfolding questions_ok_def runs qs m
    by (intro conjI) (use wait in \<open>simp add: k\<close>, use b in \<open>simp add: k r\<close>, simp add: k, use same in blast, use peer in \<open>simp add: k\<close>)
qed

lemma approvals_map:
  assumes "approvals_ok db" "keeps_run f" "keeps_approval h"
    and runs: "i_runs db' = map f (i_runs db)" and as: "i_approvals db' = map h (i_approvals db)"
    and h: "\<And>a. a \<in> set (i_approvals db) \<Longrightarrow> asked (h a) \<Longrightarrow> h a = a"
    and e: "\<And>r. r \<in> set (i_runs db) \<Longrightarrow> ended r \<Longrightarrow> ended (f r)"
    and p: "\<And>r. r \<in> set (i_runs db) \<Longrightarrow> awaits_approval (f r) \<Longrightarrow> \<exists>a\<in>set (i_approvals db). asked (h a) \<and> ia_run a = ir_id r"
    and w: "\<And>a r. a \<in> set (i_approvals db) \<Longrightarrow> asked (h a) \<Longrightarrow> r \<in> set (i_runs db) \<Longrightarrow> ir_id r = ia_run a \<Longrightarrow> awaits_approval r
      \<Longrightarrow> awaits_approval (f r) \<or> ended (f r)"
  shows "approvals_ok db'"
proof -
  note k = assms(3) [unfolded keeps_approval_def, rule_format] and m = has_run_map [OF assms(2) runs]
  note q = assms(1) [unfolded approvals_ok_def]
  have "has_run db (ia_org a) (ia_run a) ((\<lambda>r. awaits_approval r \<or> ended r) \<circ> f)"
    if "a \<in> set (i_approvals db)" "asked (h a)" for a
  proof -
    have "has_run db (ia_org a) (ia_run a) (\<lambda>r. awaits_approval r \<or> ended r)" using q h [OF that] that by metis
    then show ?thesis by (rule has_run_mono) (use w [OF that] e in auto)
  qed
  moreover have "a = b \<or> has_run db (ia_org a) (ia_run a) (ended \<circ> f)"
    if "a \<in> set (i_approvals db)" "b \<in> set (i_approvals db)" "asked (h a)" "asked (h b)" "ia_run a = ia_run b" for a b
  proof -
    have "a = b \<or> has_run db (ia_org a) (ia_run a) ended" using q h that by metis
    then show ?thesis using has_run_mono [of db "ia_org a" "ia_run a" ended "ended \<circ> f"] e by auto
  qed
  moreover have "ir_id (f r) = ir_id r" for r using assms(2) by (simp add: keeps_run_def)
  ultimately show ?thesis using p h unfolding approvals_ok_def runs as m by (simp add: k) metis
qed

subsection \<open>Settling a question\<close>

lemma id_unique: "distinct (map ir_id rs) \<Longrightarrow> r \<in> set rs \<Longrightarrow> s \<in> set rs \<Longrightarrow> ir_id r = ir_id s \<Longrightarrow> r = s"
  by (auto simp: distinct_map dest: inj_onD)

lemma question_unique: "distinct (map q_id qs) \<Longrightarrow> r \<in> set qs \<Longrightarrow> s \<in> set qs \<Longrightarrow> q_id r = q_id s \<Longrightarrow> r = s"
  by (auto simp: distinct_map dest: inj_onD)

lemma approval_unique: "distinct (map ia_id qs) \<Longrightarrow> r \<in> set qs \<Longrightarrow> s \<in> set qs \<Longrightarrow> ia_id r = ia_id s \<Longrightarrow> r = s"
  by (auto simp: distinct_map dest: inj_onD)

lemma map_replace: "(\<And>x. x \<in> set xs \<Longrightarrow> key x = key y \<Longrightarrow> x = y) \<Longrightarrow>
    map (\<lambda>x. if key x = key y then F y else x) xs = map (\<lambda>x. if key x = key y then F x else x) xs"
  by auto

lemma keysD:
  assumes "keys_ok db"
  shows "distinct (map ir_id (i_runs db))" "distinct (map q_id (i_questions db))" "distinct (map ia_id (i_approvals db))"
    "distinct (List.map_filter q_peer (i_questions db))"
    "q \<in> set (i_questions db) \<Longrightarrow> has_run db (q_org q) (q_run q) (\<lambda>_. True)"
    "q \<in> set (i_questions db) \<Longrightarrow> q_peer q = Some p \<Longrightarrow> has_run db (q_org q) p (\<lambda>_. True)"
    "q \<in> set (i_questions db) \<Longrightarrow> q_audience q = ''agent'' \<Longrightarrow> q_peer q \<noteq> None"
    "a \<in> set (i_approvals db) \<Longrightarrow> has_run db (ia_org a) (ia_run a) (\<lambda>_. True)"
  using assms by (auto simp: keys_ok_def)

lemma has_run_unique:
  assumes "keys_ok db" "has_run db org i P" "r \<in> set (i_runs db)" "ir_id r = i"
  shows "ir_org r = org \<and> P r"
  using assms id_unique [OF keysD(1) [OF assms(1)]] by (auto simp: has_run_def)

lemma same_org:
  assumes "keys_ok db" "q \<in> set (i_questions db)" "q' \<in> set (i_questions db)" "q_run q = q_run q'"
  shows "q_org q = q_org q'"
proof -
  obtain r where "r \<in> set (i_runs db)" "ir_id r = q_run q" "ir_org r = q_org q"
    using keysD(5) [OF assms(1,2)] by (auto simp: has_run_def)
  then show ?thesis using has_run_unique [OF assms(1) keysD(5) [OF assms(1,3)]] assms(4) by auto
qed

definition wakes :: "(irun \<Rightarrow> irun) \<Rightarrow> bool" where
  "wakes w \<longleftrightarrow> (\<forall>r. ir_id (w r) = ir_id r \<and> ir_org (w r) = ir_org r \<and> ir_status (w r) = AQueued)"

definition settles :: "(question \<Rightarrow> question) \<Rightarrow> bool" where
  "settles g \<longleftrightarrow> keeps_question g \<and> (\<forall>q. \<not> pend (g q))"

lemma wakesD: "wakes w \<Longrightarrow> \<not> awaits_answer (w r) \<and> \<not> awaits_approval (w r) \<and> \<not> ended (w r)"
  by (simp add: wakes_def wait_defs)

lemma settle_inv:
  assumes inv: "inbox_inv X db" and q: "q \<in> set (i_questions db)" "pend q" and w: "wakes w" and g: "settles g"
    and runs: "i_runs db' = map (\<lambda>x. if woken \<and> ir_id x = q_run q then w x else x) (i_runs db)"
    and qs: "i_questions db' = map (\<lambda>x. if q_id x = q_id q then g x else x) (i_questions db)"
    and as: "i_approvals db' = i_approvals db"
    and yes: "woken \<Longrightarrow> q_run q \<notin> X \<and> (\<forall>x\<in>set (i_questions db). pend x \<and> q_run x = q_run q \<longrightarrow> q_id x = q_id q)"
    and no: "\<not> woken \<Longrightarrow> has_run db (q_org q) (q_run q) awaits_answer \<Longrightarrow> \<exists>x\<in>set (i_questions db). pend x \<and> q_run x = q_run q \<and> q_id x \<noteq> q_id q"
  shows "inbox_inv X db'"
proof -
  let ?f = "\<lambda>x. if woken \<and> ir_id x = q_run q then w x else x" and ?g = "\<lambda>x. if q_id x = q_id q then g x else x"
  have keys: "keys_ok db" and Q: "questions_ok X db" and A: "approvals_ok db" using inv by (auto simp: inbox_inv_def)
  have f: "keeps_run ?f" using w by (auto simp: keeps_run_def wakes_def)
  have kg: "keeps_question ?g" using g by (auto simp: settles_def keeps_question_def)
  have ng: "\<not> pend (g x)" for x using g by (simp add: settles_def)
  have kh: "keeps_approval id" by (simp add: keeps_approval_def)
  have as': "i_approvals db' = map id (i_approvals db)" using as by simp
  have asker: "awaits_answer r" if "woken" "r \<in> set (i_runs db)" "ir_id r = q_run q" for r
    using Q q yes [OF that(1)] has_run_unique [OF keys _ that(2,3)] unfolding questions_ok_def by blast
  have "keys_ok db'" by (rule keys_map [OF keys f kg kh runs qs as'])
  moreover have "questions_ok X db'"
  proof (rule questions_map [OF Q f kg runs qs])
    fix x assume "x \<in> set (i_questions db)" "pend (?g x)"
    then show "pend x" using ng by (auto split: if_splits)
  next
    fix x assume "x \<in> set (i_questions db)" "pend (?g x)" "q_run x \<notin> X"
    then show "q_run x \<notin> X \<and> (\<forall>r\<in>set (i_runs db). ir_id r = q_run x \<and> awaits_answer r \<longrightarrow> awaits_answer (?f r))"
      using ng yes by (auto split: if_splits)
  next
    fix r assume r: "r \<in> set (i_runs db)" "awaits_answer (?f r)"
    then have "awaits_answer r" "\<not> (woken \<and> ir_id r = q_run q)" using wakesD [OF w] by (auto split: if_splits)
    moreover from this(1) obtain x where x: "x \<in> set (i_questions db)" "pend x" "q_run x = ir_id r"
      using Q r(1) unfolding questions_ok_def by blast
    ultimately show "\<exists>x\<in>set (i_questions db). pend (?g x) \<and> q_run x = ir_id r"
    proof (cases "q_id x = q_id q")
      case True
      then have "x = q" using question_unique [OF keysD(2) [OF keys]] x(1) q(1) by blast
      then have "\<not> woken" "has_run db (q_org q) (q_run q) awaits_answer"
        using \<open>\<not> (woken \<and> _)\<close> x(3) r(1) \<open>awaits_answer r\<close> has_run_unique [OF keys keysD(5) [OF keys q(1)] r(1)] by (auto simp: has_run_def)
      from no [OF this] show ?thesis using x(3) \<open>x = q\<close> by force
    next
      case False
      then show ?thesis using x by force
    qed
  next
    fix x p assume "x \<in> set (i_questions db)" "pend (?g x)" "q_peer x = Some p" "p \<notin> X"
    then show "p \<notin> X \<and> (\<forall>r\<in>set (i_runs db). ir_id r = p \<and> \<not> ended r \<longrightarrow> \<not> ended (?f r))"
      using wakesD [OF w] by auto
  qed
  moreover have "approvals_ok db'"
    by (rule approvals_map [OF A f kh runs as'])
      (use asker wakesD [OF w] A in \<open>auto simp: approvals_ok_def wait_defs split: if_splits\<close>)
  ultimately show ?thesis by (simp add: inbox_inv_def)
qed


lemma rows_close_notice [simp]:
  "i_runs (close_question_notice org i db) = i_runs db" "i_questions (close_question_notice org i db) = i_questions db"
  "i_approvals (close_question_notice org i db) = i_approvals db"
  "i_runs (close_approval_notice org i db) = i_runs db" "i_questions (close_approval_notice org i db) = i_questions db"
  "i_approvals (close_approval_notice org i db) = i_approvals db"
  by (simp_all add: close_question_notice_def close_approval_notice_def settle_notifications_def)

lemma rows_diary [simp]:
  "i_runs (diary_the_answer org q s b db) = i_runs db" "i_questions (diary_the_answer org q s b db) = i_questions db"
  "i_approvals (diary_the_answer org q s b db) = i_approvals db"
  "i_runs (diary ctx s db) = i_runs db" "i_questions (diary ctx s db) = i_questions db" "i_approvals (diary ctx s db) = i_approvals db"
  "i_runs (record_verdict ctx q s db) = i_runs db" "i_questions (record_verdict ctx q s db) = i_questions db"
  "i_approvals (record_verdict ctx q s db) = i_approvals db"
  by (simp_all add: diary_the_answer_def diary_def record_verdict_def split: option.split)

lemma rows_put [simp]:
  "i_questions (put_irun r db) = i_questions db" "i_approvals (put_irun r db) = i_approvals db"
  "i_runs (put_question q db) = i_runs db" "i_approvals (put_question q db) = i_approvals db"
  "i_runs (put_iapproval a db) = i_runs db" "i_questions (put_iapproval a db) = i_questions db"
  by (simp_all add: put_irun_def put_question_def put_iapproval_def)

lemma rows_notice [simp]:
  "i_runs (create_notification org k t b i wo role db) = i_runs db" "i_questions (create_notification org k t b i wo role db) = i_questions db"
  "i_approvals (create_notification org k t b i wo role db) = i_approvals db"
  "i_runs (notice_of ctx k t b role db) = i_runs db" "i_questions (notice_of ctx k t b role db) = i_questions db"
  "i_approvals (notice_of ctx k t b role db) = i_approvals db"
  by (simp_all add: create_notification_def notice_of_def)

lemma same_rows:
  assumes "i_runs db' = i_runs db" "i_questions db' = i_questions db" "i_approvals db' = i_approvals db"
  shows "inbox_inv X db' = inbox_inv X db"
  using assms by (simp add: inbox_inv_def keys_ok_def questions_ok_def approvals_ok_def has_run_def)

lemma irun_get_Some: "irun_get org i db = Some r \<Longrightarrow> r \<in> set (i_runs db) \<and> ir_id r = i \<and> ir_org r = org"
  by (auto simp: irun_get_def dest: find_SomeD)

lemma irun_get_None: "irun_get org i db = None \<Longrightarrow> \<not> has_run db org i P"
  by (auto simp: irun_get_def has_run_def find_None_iff)

lemma inject_rows:
  assumes "distinct (map ir_id (i_runs db))" "inject_answer now org q payload seen db = (db2, woken)"
  shows "i_questions db2 = i_questions db" "i_approvals db2 = i_approvals db"
    "\<exists>w. wakes w \<and> i_runs db2 = map (\<lambda>x. if woken \<and> ir_id x = q_run q then w x else x) (i_runs db)"
    "woken \<longleftrightarrow> has_run db org (q_run q) (\<lambda>r. ir_status r = AWaiting) \<and> \<not> list_ex pend seen"
proof -
  have pend: "pend = (\<lambda>s. q_status s = QPending)" by (auto simp: pend_def)
  have noop: "\<exists>w. wakes w \<and> i_runs db = map (\<lambda>x. if False \<and> P x then w x else x) (i_runs db)" for P
    by (rule exI [of _ "\<lambda>r. r\<lparr>ir_status := AQueued\<rparr>"]) (simp add: wakes_def)
  have all: "i_questions db2 = i_questions db \<and> i_approvals db2 = i_approvals db
    \<and> (\<exists>w. wakes w \<and> i_runs db2 = map (\<lambda>x. if woken \<and> ir_id x = q_run q then w x else x) (i_runs db))
    \<and> (woken \<longleftrightarrow> has_run db org (q_run q) (\<lambda>r. ir_status r = AWaiting) \<and> \<not> list_ex pend seen)"
  proof (cases "irun_get org (q_run q) db")
    case None
    then show ?thesis using assms(2) irun_get_None [OF None] noop by (auto simp: inject_answer_def)
  next
    case (Some r)
    note r = irun_get_Some [OF Some]
    have run: "has_run db org (q_run q) P \<longleftrightarrow> P r" for P
    proof
      assume "has_run db org (q_run q) P"
      then obtain x where "x \<in> set (i_runs db)" "ir_id x = q_run q" "P x" by (auto simp: has_run_def)
      then show "P r" using id_unique [OF assms(1), of x r] r by simp
    qed (use r in \<open>auto simp: has_run_def\<close>)
    show ?thesis
    proof (cases "ir_status r = AWaiting \<and> \<not> list_ex (\<lambda>s. q_status s = QPending) seen")
      case False
      then have "inject_answer now org q payload seen db = (db, False)" using Some by (auto simp: inject_answer_def)
      then have "db2 = db" "\<not> woken" using assms(2) by auto
      then show ?thesis using False noop by (simp add: run pend)
    next
      case True
      let ?v = "JObj (if seen = [] then payload else combined q seen payload)"
      let ?w = "\<lambda>x. x\<lparr>ir_resume := Some (resume_of r\<lparr>rs_answers := dset (rs_answers (resume_of r)) (q_call q) ?v\<rparr>),
        ir_status := AQueued, ir_wait := None, ir_activity := now\<rparr>"
      have "db2 = put_irun (?w r) db \<and> woken" using assms(2) Some True by (simp add: inject_answer_def Let_def)
      moreover have "map (\<lambda>x. if ir_id x = ir_id r then ?w r else x) (i_runs db) = map (\<lambda>x. if ir_id x = q_run q then ?w x else x) (i_runs db)"
        using map_replace [of "i_runs db" ir_id r ?w] id_unique [OF assms(1)] r by simp
      moreover have "wakes ?w" by (simp add: wakes_def)
      ultimately show ?thesis using True by (auto simp: put_irun_def run pend)
    qed
  qed
  then show "i_questions db2 = i_questions db" "i_approvals db2 = i_approvals db"
    "\<exists>w. wakes w \<and> i_runs db2 = map (\<lambda>x. if woken \<and> ir_id x = q_run q then w x else x) (i_runs db)"
    "woken \<longleftrightarrow> has_run db org (q_run q) (\<lambda>r. ir_status r = AWaiting) \<and> \<not> list_ex pend seen"
    by blast+
qed


text \<open>What answering and declining do to the rows: the question is settled, and its run woken unless another one is open.\<close>

definition settled_rows :: "nat \<Rightarrow> question \<Rightarrow> idb \<Rightarrow> idb \<Rightarrow> bool" where
  "settled_rows org q db db' \<longleftrightarrow> (\<exists>w g woken. wakes w \<and> settles g
     \<and> i_runs db' = map (\<lambda>x. if woken \<and> ir_id x = q_run q then w x else x) (i_runs db)
     \<and> i_questions db' = map (\<lambda>x. if q_id x = q_id q then g x else x) (i_questions db)
     \<and> i_approvals db' = i_approvals db
     \<and> (woken \<longleftrightarrow> has_run db org (q_run q) (\<lambda>r. ir_status r = AWaiting) \<and> \<not> list_ex pend (siblings org q db)))"

lemma has_run_rows: "i_runs a = i_runs b \<Longrightarrow> has_run a org i P = has_run b org i P"
  by (simp add: has_run_def)

lemma put_question_twice:
  "q_id q2 = q_id q1 \<Longrightarrow> i_questions db2 = i_questions (put_question q1 db) \<Longrightarrow>
    i_questions (put_question q2 db2) = map (\<lambda>x. if q_id x = q_id q1 then q2 else x) (i_questions db)"
  by (simp add: put_question_def)

lemma settled_rowsI:
  assumes keys: "keys_ok db" and q: "q \<in> set (i_questions db)" and g: "settles g"
    and i: "inject_answer now org q1 payload (siblings org q db) (put_question q0 db) = (db2, woken)" "q_run q1 = q_run q"
    and r: "i_runs db' = i_runs db2" "i_approvals db' = i_approvals db2"
    and qs: "i_questions db' = map (\<lambda>x. if q_id x = q_id q then g q else x) (i_questions db)"
  shows "settled_rows org q db db'"
proof -
  have d: "distinct (map ir_id (i_runs (put_question q0 db)))" using keysD(1) [OF keys] by simp
  note rows = inject_rows [OF d i(1)]
  obtain w where w: "wakes w" "i_runs db2 = map (\<lambda>x. if woken \<and> ir_id x = q_run q then w x else x) (i_runs db)"
    using rows(3) i(2) by auto
  have "map (\<lambda>x. if q_id x = q_id q then g q else x) (i_questions db) = map (\<lambda>x. if q_id x = q_id q then g x else x) (i_questions db)"
    using map_replace [of "i_questions db" q_id q g] question_unique [OF keysD(2) [OF keys]] q by blast
  then show ?thesis
    using w g r qs rows(2,4) i(2) has_run_rows [of "put_question q0 db" db] unfolding settled_rows_def by auto
qed

lemma record_answer_rows:
  assumes "keys_ok db" "q \<in> set (i_questions db)" "pend q"
  shows "settled_rows org q db (fst (record_answer now org q answer prof agent by db))"
proof -
  let ?q1 = "q\<lparr>q_status := QAnswered, q_answer := Some answer, q_profile := prof, q_agent := agent, q_answered := Some now\<rparr>"
  obtain db2 woken where i: "inject_answer now org ?q1 [(''answered_by'', JStr (str_or by (if agent \<noteq> None then ''an agent'' else ''a human''))),
      (''answer'', JStr answer)] (siblings org q db) (put_question ?q1 db) = (db2, woken)" by fastforce
  let ?g = "\<lambda>x. x\<lparr>q_status := if woken then QAnswered else QVoided, q_answer := Some answer, q_profile := prof, q_agent := agent, q_answered := Some now\<rparr>"
  have d: "distinct (map ir_id (i_runs (put_question ?q1 db)))" using keysD(1) [OF assms(1)] by simp
  have q2: "(if woken then ?q1 else ?q1\<lparr>q_status := QVoided\<rparr>) = ?g q" by simp
  have p: "q_status q = QPending" using assms(3) by (simp add: pend_def)
  have res: "fst (record_answer now org q answer prof agent by db)
      = close_question_notice org (q_run q) (diary_the_answer org (?g q) answer woken (put_question (?g q) db2))"
    unfolding record_answer_def record_answer_seen_def Let_def i prod.case q2 by (simp only: p simp_thms if_False fst_conv)
  have qs: "i_questions (put_question (?g q) db2) = map (\<lambda>x. if q_id x = q_id q then ?g q else x) (i_questions db)"
    using put_question_twice [of "?g q" ?q1 db2 db] inject_rows(1) [OF d i] by simp
  have "settles ?g" by (simp add: settles_def keeps_question_def pend_def)
  then show ?thesis
    by (rule settled_rowsI [OF assms(1,2) _ i]) (simp_all only: res rows_close_notice rows_diary rows_put qs, simp)
qed

lemma decline_rows:
  assumes "keys_ok db" "q \<in> set (i_questions db)" "pend q"
  shows "settled_rows org q db (fst (decline now org q reason prof db))"
proof -
  let ?g = "\<lambda>x. x\<lparr>q_status := QDeclined, q_answer := reason, q_profile := prof, q_answered := Some now\<rparr>"
  obtain db2 woken where i: "inject_answer now org (?g q) [(''answered'', JBool False), (''answer'', JStr (str_or reason ''No answer is available.'')),
      (''guidance'', JStr ''Proceed on your own judgement or escalate.'')] (siblings org q db) (put_question (?g q) db) = (db2, woken)" by fastforce
  have p: "q_status q = QPending" using assms(3) by (simp add: pend_def)
  have res: "fst (decline now org q reason prof db)
      = close_question_notice org (q_run q) (diary_the_answer org (?g q) (str_or reason ''Told the agent to use its own judgement.'') woken db2)"
    using i p by (simp add: decline_def Let_def)
  have d: "distinct (map ir_id (i_runs (put_question (?g q) db)))" using keysD(1) [OF assms(1)] by simp
  have qs: "i_questions db2 = map (\<lambda>x. if q_id x = q_id q then ?g q else x) (i_questions db)"
    using inject_rows(1) [OF d i] by (simp add: put_question_def)
  have "settles ?g" by (simp add: settles_def keeps_question_def pend_def)
  then show ?thesis
    by (rule settled_rowsI [OF assms(1,2) _ i]) (simp_all only: res rows_close_notice rows_diary qs, simp)
qed


lemma inbox_invD: "inbox_inv X db \<Longrightarrow> keys_ok db \<and> questions_ok X db \<and> approvals_ok db"
  by (simp add: inbox_inv_def)

lemma questions_okD:
  assumes "questions_ok X db"
  shows "q \<in> set (i_questions db) \<Longrightarrow> pend q \<Longrightarrow> q_run q \<notin> X \<Longrightarrow> has_run db (q_org q) (q_run q) awaits_answer"
    "r \<in> set (i_runs db) \<Longrightarrow> awaits_answer r \<Longrightarrow> \<exists>q\<in>set (i_questions db). pend q \<and> q_run q = ir_id r"
    "q \<in> set (i_questions db) \<Longrightarrow> pend q \<Longrightarrow> q_peer q = Some p \<Longrightarrow> p \<notin> X \<Longrightarrow> has_run db (q_org q) p (\<lambda>r. \<not> ended r)"
    "q \<in> set (i_questions db) \<Longrightarrow> q' \<in> set (i_questions db) \<Longrightarrow> pend q \<Longrightarrow> pend q' \<Longrightarrow> q_run q = q_run q' \<Longrightarrow> q_call q = q_call q'"
  using assms unfolding questions_ok_def by blast+

lemma approvals_okD:
  assumes "approvals_ok db"
  shows "r \<in> set (i_runs db) \<Longrightarrow> awaits_approval r \<Longrightarrow> \<exists>a\<in>set (i_approvals db). asked a \<and> ia_run a = ir_id r"
    "a \<in> set (i_approvals db) \<Longrightarrow> asked a \<Longrightarrow> has_run db (ia_org a) (ia_run a) (\<lambda>r. awaits_approval r \<or> ended r)"
    "a \<in> set (i_approvals db) \<Longrightarrow> b \<in> set (i_approvals db) \<Longrightarrow> asked a \<Longrightarrow> asked b \<Longrightarrow> ia_run a = ia_run b
      \<Longrightarrow> a = b \<or> has_run db (ia_org a) (ia_run a) ended"
  using assms unfolding approvals_ok_def by blast+

lemma has_run_True: "has_run db org i P \<Longrightarrow> has_run db org i Q \<Longrightarrow> keys_ok db \<Longrightarrow> has_run db org i (\<lambda>r. P r \<and> Q r)"
  using has_run_unique [of db org i P] unfolding has_run_def by metis

lemma settled_inv:
  assumes inv: "inbox_inv X db" and q: "q \<in> set (i_questions db)" "pend q" "q_org q = org"
    and x: "q_run q \<in> X \<Longrightarrow> \<not> has_run db org (q_run q) (\<lambda>r. ir_status r = AWaiting)"
    and s: "settled_rows org q db db'"
  shows "inbox_inv X db'"
proof -
  obtain w g woken where w: "wakes w" "settles g"
    "i_runs db' = map (\<lambda>x. if woken \<and> ir_id x = q_run q then w x else x) (i_runs db)"
    "i_questions db' = map (\<lambda>x. if q_id x = q_id q then g x else x) (i_questions db)" "i_approvals db' = i_approvals db"
    and woken: "woken \<longleftrightarrow> has_run db org (q_run q) (\<lambda>r. ir_status r = AWaiting) \<and> \<not> list_ex pend (siblings org q db)"
    using s unfolding settled_rows_def by blast
  have keys: "keys_ok db" and Q: "questions_ok X db" using inbox_invD [OF inv] by auto
  have sib: "y \<in> set (siblings org q db)" if "y \<in> set (i_questions db)" "pend y" "q_run y = q_run q" "q_id y \<noteq> q_id q" for y
  proof -
    have "q_call y = q_call q" using Q q that unfolding questions_ok_def by blast
    then show ?thesis using that q(3) same_org [OF keys that(1) q(1)] by (simp add: siblings_def)
  qed
  show ?thesis
  proof (rule settle_inv [OF inv q(1,2) w])
    assume "woken"
    then show "q_run q \<notin> X \<and> (\<forall>x\<in>set (i_questions db). pend x \<and> q_run x = q_run q \<longrightarrow> q_id x = q_id q)"
      using woken x sib by (auto simp: list_ex_iff)
  next
    assume "\<not> woken" "has_run db (q_org q) (q_run q) awaits_answer"
    then have "list_ex pend (siblings org q db)"
      using woken q(3) has_run_mono [of db org "q_run q" awaits_answer "\<lambda>r. ir_status r = AWaiting"] by (auto simp: awaits_answer_def)
    then show "\<exists>x\<in>set (i_questions db). pend x \<and> q_run x = q_run q \<and> q_id x \<noteq> q_id q"
      by (auto simp: list_ex_iff siblings_def)
  qed
qed

lemma peer_unique: "distinct (List.map_filter q_peer qs) \<Longrightarrow> q \<in> set qs \<Longrightarrow> q' \<in> set qs \<Longrightarrow> q_peer q = Some p \<Longrightarrow> q_peer q' = Some p \<Longrightarrow> q = q'"
proof (induction qs)
  case (Cons x qs)
  have "p \<in> set (List.map_filter q_peer qs)" if "y \<in> set qs" "q_peer y = Some p" for y
    using that by (force simp: map_filter_def)
  then show ?case using Cons by (auto simp: List.map_filter_simps split: option.splits)
qed simp

lemma end_run_inv:
  assumes inv: "inbox_inv {} db" and s: "\<not> is_nonterminal status"
  shows "inbox_inv {i} (fst (end_run now org i status err db))"
proof -
  define f where "f r = (if irun_open org i r then r\<lparr>ir_status := status, ir_error := err, ir_wait := None, ir_activity := now\<rparr> else r)" for r
  let ?db = "fst (end_run now org i status err db)"
  have rows: "i_runs ?db = map f (i_runs db)" "i_questions ?db = map id (i_questions db)" "i_approvals ?db = map id (i_approvals db)"
    by (simp_all add: end_run_def upd_where_def f_def)
  have k: "keeps_run f" "keeps_question id" "keeps_approval id"
    by (simp_all add: keeps_run_def keeps_question_def keeps_approval_def f_def)
  have f: "awaits_answer (f r) \<Longrightarrow> f r = r" "awaits_approval (f r) \<Longrightarrow> f r = r" "f r = r \<or> ended (f r)" "ir_id r \<noteq> i \<Longrightarrow> f r = r" for r
    using s by (auto simp: wait_defs irun_open_def f_def)
  have d: "keys_ok db" "questions_ok {} db" "approvals_ok db" using inbox_invD [OF inv] by auto
  have "questions_ok {i} ?db"
  proof (rule questions_map [OF d(2) k(1,2) rows(1,2)])
    fix r assume "r \<in> set (i_runs db)" "awaits_answer (f r)"
    then show "\<exists>q\<in>set (i_questions db). pend (id q) \<and> q_run q = ir_id r"
      using questions_okD(2) [OF d(2)] f(1) [of r] by simp
  qed (use f in auto)
  moreover have "approvals_ok ?db"
  proof (rule approvals_map [OF d(3) k(1,3) rows(1,3)])
    fix r assume "r \<in> set (i_runs db)" "awaits_approval (f r)"
    then show "\<exists>a\<in>set (i_approvals db). asked (id a) \<and> ia_run a = ir_id r"
      using approvals_okD(1) [OF d(3)] f(2) [of r] by simp
  qed (simp, metis f(3), metis f(3))
  ultimately show ?thesis using keys_map [OF _ k rows] d by (simp add: inbox_inv_def)
qed


subsection \<open>The end of a run\<close>

lemma has_run_org:
  assumes "keys_ok db" "has_run db org i P" "has_run db org' i Q"
  shows "org' = org"
proof -
  obtain r where "r \<in> set (i_runs db)" "ir_id r = i" "ir_org r = org'" using assms(3) by (auto simp: has_run_def)
  then show ?thesis using has_run_unique [OF assms(1,2), of r] by simp
qed

lemma peer_org: "keys_ok db \<Longrightarrow> q \<in> set (i_questions db) \<Longrightarrow> q_peer q = Some i \<Longrightarrow> has_run db org i P \<Longrightarrow> q_org q = org"
  using has_run_org [OF _ _ keysD(6) [of db q i]] by blast

lemma run_org: "keys_ok db \<Longrightarrow> q \<in> set (i_questions db) \<Longrightarrow> has_run db org (q_run q) P \<Longrightarrow> q_org q = org"
  using has_run_org [OF _ _ keysD(5) [of db q]] by blast

lemma ended_not_waiting: "keys_ok db \<Longrightarrow> has_run db org i ended \<Longrightarrow> \<not> has_run db org' i (\<lambda>r. ir_status r = AWaiting)"
  using has_run_unique [of db org i ended] by (auto simp: has_run_def wait_defs)

lemma settle_for_peer_inv:
  assumes inv: "inbox_inv {i} db" and e: "has_run db org i ended" and d: "db' = settle_for_peer_run now org i reason db"
  shows "inbox_inv {i} db'" "has_run db' org i ended" "\<forall>q\<in>set (i_questions db'). q_peer q = Some i \<longrightarrow> \<not> pend q"
proof -
  have keys: "keys_ok db" using inbox_invD [OF inv] by simp
  have all: "inbox_inv {i} db' \<and> has_run db' org i ended \<and> (\<forall>q\<in>set (i_questions db'). q_peer q = Some i \<longrightarrow> \<not> pend q)"
  proof (cases "pending_for_peer_run org i db")
    case None
    then have "\<not> pend q" if "q \<in> set (i_questions db)" "q_peer q = Some i" for q
      using that peer_org [OF keys that e] by (auto simp: pending_for_peer_run_def find_None_iff pend_def)
    then show ?thesis using None d inv e by (simp add: settle_for_peer_run_def)
  next
    case (Some q)
    then have q: "q \<in> set (i_questions db)" "pend q" "q_org q = org" "q_peer q = Some i"
      by (auto simp: pending_for_peer_run_def pend_def dest: find_SomeD)
    have s: "settled_rows org q db db'"
      using decline_rows [OF keys q(1,2)] d Some by (simp add: settle_for_peer_run_def)
    then obtain w g woken where w: "wakes w" "settles g" "i_runs db' = map (\<lambda>x. if woken \<and> ir_id x = q_run q then w x else x) (i_runs db)"
        "i_questions db' = map (\<lambda>x. if q_id x = q_id q then g x else x) (i_questions db)"
        "woken \<longrightarrow> has_run db org (q_run q) (\<lambda>r. ir_status r = AWaiting)"
      unfolding settled_rows_def by blast
    have "woken \<longrightarrow> q_run q \<noteq> i" using w(5) ended_not_waiting [OF keys e] by blast
    then have "has_run db' org i ended" using e w(3) by (auto simp: has_run_def)
    moreover have "\<not> pend y" if y: "y \<in> set (i_questions db')" "q_peer y = Some i" for y
    proof -
      obtain x where x: "x \<in> set (i_questions db)" "y = (if q_id x = q_id q then g x else x)" using y(1) w(4) by auto
      show ?thesis
      proof (cases "q_id x = q_id q")
        case True
        then show ?thesis using w(2) x(2) by (simp add: settles_def)
      next
        case False
        then show ?thesis using x y(2) peer_unique [OF keysD(4) [OF keys] x(1) q(1)] q(4) by auto
      qed
    qed
    moreover have "inbox_inv {i} db'"
      by (rule settled_inv [OF inv q(1-3) _ s]) (use ended_not_waiting [OF keys e] in blast)
    ultimately show ?thesis by blast
  qed
  then show "inbox_inv {i} db'" "has_run db' org i ended" "\<forall>q\<in>set (i_questions db'). q_peer q = Some i \<longrightarrow> \<not> pend q" by blast+
qed

definition void_of :: "int \<Rightarrow> nat \<Rightarrow> nat set \<Rightarrow> question \<Rightarrow> question" where
  "void_of now org ids q = (if q_run q \<in> ids \<and> q_org q = org \<and> q_status q = QPending then q\<lparr>q_status := QVoided, q_answered := Some now\<rparr> else q)"

lemma void_of_keeps: "keeps_question (void_of now org ids)"
  by (simp add: keeps_question_def void_of_def)

lemma void_of_pend: "pend (void_of now org ids q) \<longleftrightarrow> pend q \<and> \<not> (q_run q \<in> ids \<and> q_org q = org)"
  by (simp add: void_of_def pend_def) blast

lemma void_inv:
  assumes inv: "inbox_inv {i} db" and e: "has_run db org i ended" and p: "\<forall>q\<in>set (i_questions db). q_peer q = Some i \<longrightarrow> \<not> pend q"
    and r: "i_runs db' = i_runs db" "i_approvals db' = i_approvals db" and qs: "i_questions db' = map (void_of now org {i}) (i_questions db)"
  shows "inbox_inv {} db' \<and> (\<forall>q\<in>set (i_questions db'). q_run q = i \<longrightarrow> \<not> pend q)"
proof -
  have d: "keys_ok db" "questions_ok {i} db" "approvals_ok db" using inbox_invD [OF inv] by auto
  have k: "keeps_run id" "keeps_approval id" by (simp_all add: keeps_run_def keeps_approval_def)
  have rows: "i_runs db' = map id (i_runs db)" "i_approvals db' = map id (i_approvals db)" using r by simp_all
  have mine: "\<not> pend (void_of now org {i} q)" if "q \<in> set (i_questions db)" "q_run q = i" for q
    using run_org [OF d(1) that(1)] that e by (auto simp: void_of_pend)
  have "questions_ok {} db'"
  proof (rule questions_map [OF d(2) k(1) void_of_keeps rows(1) qs])
    fix r assume r: "r \<in> set (i_runs db)" "awaits_answer (id r)"
    then obtain q where "q \<in> set (i_questions db)" "pend q" "q_run q = ir_id r" using questions_okD(2) [OF d(2)] by auto
    moreover from this(3) have "q_run q \<noteq> i" using r has_run_unique [OF d(1) e r(1)] by (auto simp: wait_defs)
    ultimately show "\<exists>q\<in>set (i_questions db). pend (void_of now org {i} q) \<and> q_run q = ir_id r" by (auto simp: void_of_pend)
  next
    fix q assume "q \<in> set (i_questions db)" "pend (void_of now org {i} q)"
    then show "q_run q \<notin> {i} \<and> (\<forall>r\<in>set (i_runs db). ir_id r = q_run q \<and> awaits_answer r \<longrightarrow> awaits_answer (id r))" using mine by auto
  qed (use p in \<open>auto simp: void_of_pend\<close>)
  moreover have "approvals_ok db'"
    using d(3) r has_run_rows [OF r(1)] by (simp add: approvals_ok_def)
  moreover have "keys_ok db'" by (rule keys_map [OF d(1) k(1) void_of_keeps k(2) rows(1) qs rows(2)])
  moreover have "q_run (void_of now org {i} q) = q_run q" for q by (simp add: void_of_def)
  ultimately show ?thesis using mine qs by (auto simp: inbox_inv_def)
qed


lemma orphans_inv:
  assumes inv: "inbox_inv {} db" and p: "\<forall>q\<in>set (i_questions db). q_run q = i \<longrightarrow> \<not> pend q"
  shows "inbox_inv {} (cancel_orphaned_consults now org i db)"
proof -
  define ids where "ids = List.map_filter q_peer (filter (\<lambda>q. q_run q = i \<and> q_org q = org) (i_questions db))"
  define f where "f r = (if ir_id r \<in> set ids \<and> ir_org r = org \<and> (ir_status r = AQueued \<or> ir_status r = AWaiting)
      then r\<lparr>ir_status := ACancelled, ir_error := Some ''the agent that asked is no longer waiting'', ir_wait := None\<rparr> else r)" for r :: irun
  let ?db = "cancel_orphaned_consults now org i db" and ?g = "void_of now org (set ids)"
  show ?thesis
  proof (cases "ids = []")
    case True
    then show ?thesis using inv by (simp add: cancel_orphaned_consults_def ids_def [symmetric])
  next
    case False
    have rows: "i_runs ?db = map f (i_runs db)" "i_questions ?db = map ?g (i_questions db)" "i_approvals ?db = map id (i_approvals db)"
      using False by (simp_all add: cancel_orphaned_consults_def ids_def [symmetric] Let_def upd_where_def f_def void_of_def)
    have k: "keeps_run f" "keeps_approval id" by (simp_all add: keeps_run_def keeps_approval_def f_def)
    have f: "awaits_answer (f r) \<Longrightarrow> f r = r" "awaits_approval (f r) \<Longrightarrow> f r = r" "f r = r \<or> ended (f r)" "ir_id r \<notin> set ids \<Longrightarrow> f r = r" for r
      by (auto simp: wait_defs f_def)
    have d: "keys_ok db" "questions_ok {} db" "approvals_ok db" using inbox_invD [OF inv] by auto
    have peer: "\<exists>q\<in>set (i_questions db). q_run q = i \<and> q_peer q = Some j \<and> q_org q = org" if "j \<in> set ids" for j
      using that by (auto simp: ids_def map_filter_def)
    have org: "o' = org" if "j \<in> set ids" "has_run db o' j P" for j o' P
    proof -
      obtain q where q: "q \<in> set (i_questions db)" "q_peer q = Some j" "q_org q = org" using peer [OF \<open>j \<in> set ids\<close>] by blast
      show ?thesis using peer_org [OF d(1) q(1,2) that(2)] q(3) by simp
    qed
    have away: "q_run q \<notin> set ids" if "q \<in> set (i_questions db)" "pend (?g q)" for q
      using that org [OF _ keysD(5) [OF d(1) that(1)]] by (auto simp: void_of_pend)
    have "questions_ok {} ?db"
    proof (rule questions_map [OF d(2) k(1) void_of_keeps rows(1,2)])
      fix r assume r: "r \<in> set (i_runs db)" "awaits_answer (f r)"
      then obtain q where q: "q \<in> set (i_questions db)" "pend q" "q_run q = ir_id r" using questions_okD(2) [OF d(2)] f(1) [of r] by auto
      have "\<not> (ir_id r \<in> set ids \<and> ir_org r = org)" using r(2) by (auto simp: f_def awaits_answer_def split: if_splits)
      then have "ir_id r \<notin> set ids" using org [of "ir_id r" "ir_org r"] r(1) by (auto simp: has_run_def)
      then show "\<exists>q\<in>set (i_questions db). pend (?g q) \<and> q_run q = ir_id r" using q by (auto simp: void_of_pend)
    next
      fix q assume q: "q \<in> set (i_questions db)" "pend (?g q)"
      then show "pend q" by (simp add: void_of_pend)
      show "q_run q \<notin> {} \<and> (\<forall>r\<in>set (i_runs db). ir_id r = q_run q \<and> awaits_answer r \<longrightarrow> awaits_answer (f r))"
        using away [OF q] f(4) by auto
      fix j assume j: "q_peer q = Some j"
      have "j \<notin> set ids"
      proof
        assume "j \<in> set ids"
        then obtain x where "x \<in> set (i_questions db)" "q_run x = i" "q_peer x = Some j" using peer by blast
        then have "q_run q = i" using peer_unique [OF keysD(4) [OF d(1)] q(1)] j by metis
        then show False using p q by (simp add: void_of_pend)
      qed
      then show "j \<notin> {} \<and> (\<forall>r\<in>set (i_runs db). ir_id r = j \<and> \<not> ended r \<longrightarrow> \<not> ended (f r))" using f(4) by auto
    qed
    moreover have "approvals_ok ?db"
    proof (rule approvals_map [OF d(3) k(1,2) rows(1,3)])
      fix r assume "r \<in> set (i_runs db)" "awaits_approval (f r)"
      then show "\<exists>a\<in>set (i_approvals db). asked (id a) \<and> ia_run a = ir_id r"
        using approvals_okD(1) [OF d(3)] f(2) [of r] by simp
    qed (simp, metis f(3), metis f(3))
    ultimately show ?thesis using keys_map [OF d(1) k(1) void_of_keeps k(2) rows] by (simp add: inbox_inv_def)
  qed
qed

lemma settle_questions_inv:
  assumes "inbox_inv {i} db" "has_run db org i ended"
  shows "inbox_inv {} (settle_questions now org i reason db)"
proof -
  let ?a = "settle_for_peer_run now org i reason db"
  let ?b = "close_question_notice org i (?a\<lparr>i_questions := upd_where (\<lambda>q. q_run q = i \<and> q_org q = org \<and> q_status q = QPending)
      (\<lambda>q. q\<lparr>q_status := QVoided, q_answered := Some now\<rparr>) (i_questions ?a)\<rparr>)"
  note a = settle_for_peer_inv [OF assms refl, of now reason]
  have "i_questions ?b = map (void_of now org {i}) (i_questions ?a)" by (simp add: upd_where_def void_of_def)
  from void_inv [OF a _ _ this] have "inbox_inv {} ?b \<and> (\<forall>q\<in>set (i_questions ?b). q_run q = i \<longrightarrow> \<not> pend q)" by simp
  then show ?thesis using orphans_inv by (simp add: settle_questions_def void_open_questions_def)
qed

lemma end_run_won:
  assumes "end_run now org i status err db = (db1, True)" "\<not> is_nonterminal status"
  shows "has_run db1 org i ended"
proof -
  let ?e = "\<lambda>r. r\<lparr>ir_status := status, ir_error := err, ir_wait := None, ir_activity := now\<rparr>"
  obtain r where r: "r \<in> set (i_runs db)" "irun_open org i r" using assms(1) by (auto simp: end_run_def list_ex_iff)
  then have "?e r \<in> set (i_runs db1)" using assms(1) by (auto simp: end_run_def set_upd_where)
  moreover have "ir_id (?e r) = i \<and> ir_org (?e r) = org \<and> ended (?e r)" using r(2) assms(2) by (simp add: irun_open_def ended_def)
  ultimately show ?thesis unfolding has_run_def by blast
qed

lemma end_run_lost: "end_run now org i status err db = (db1, False) \<Longrightarrow> db1 = db"
  by (auto simp: end_run_def list_ex_iff upd_where_id)

lemma finalize_inv:
  assumes "inbox_inv {} db" "\<not> is_nonterminal status"
  shows "inbox_inv {} (fst (life_finalize now org i status err db))"
proof (cases "end_run now org i status err db")
  case (Pair db1 won)
  show ?thesis
  proof (cases won)
    case True
    then have "inbox_inv {i} db1" "has_run db1 org i ended"
      using end_run_inv [OF assms, of i now org err] end_run_won [OF _ assms(2)] Pair by auto
    from settle_questions_inv [OF this] show ?thesis using True Pair by (simp add: life_finalize_def)
  next
    case False
    then have "db1 = db" using end_run_lost Pair by simp
    then show ?thesis using False Pair assms(1) by (simp add: life_finalize_def)
  qed
qed


lemma approval_update_inv:
  assumes inv: "inbox_inv X db" and k: "keeps_approval h"
    and r: "i_runs db' = i_runs db" "i_questions db' = i_questions db" and as: "i_approvals db' = map h (i_approvals db)"
    and h: "\<And>a. a \<in> set (i_approvals db) \<Longrightarrow> asked (h a) \<Longrightarrow> h a = a"
    and p: "\<And>r. r \<in> set (i_runs db) \<Longrightarrow> awaits_approval r \<Longrightarrow> \<exists>a\<in>set (i_approvals db). asked (h a) \<and> ia_run a = ir_id r"
  shows "inbox_inv X db'"
proof -
  have d: "keys_ok db" "questions_ok X db" "approvals_ok db" using inbox_invD [OF inv] by auto
  have kid: "keeps_run id" "keeps_question id" by (simp_all add: keeps_run_def keeps_question_def)
  have rows: "i_runs db' = map id (i_runs db)" "i_questions db' = map id (i_questions db)" using r by simp_all
  have "questions_ok X db'" using d(2) unfolding questions_ok_def has_run_rows [OF r(1)] r .
  moreover have "approvals_ok db'"
    by (rule approvals_map [OF d(3) kid(1) k rows(1) as]) (rule h, assumption+, simp, use p in simp, simp)
  ultimately show ?thesis using keys_map [OF d(1) kid k rows as] by (simp add: inbox_inv_def)
qed

lemma cancel_inv:
  assumes "inbox_inv {} db"
  shows "inbox_inv {} (fst (life_cancel now org i reason db))"
proof (cases "end_run now org i ACancelled (Some reason) db")
  case (Pair db1 won)
  have t: "\<not> is_nonterminal ACancelled" by (simp add: is_nonterminal_def)
  show ?thesis
  proof (cases won)
    case True
    then have inv: "inbox_inv {i} db1" and e: "has_run db1 org i ended"
      using end_run_inv [OF assms t, of i now org "Some reason"] end_run_won [OF _ t] Pair by auto
    let ?h = "\<lambda>a. if ia_run a = i \<and> ia_org a = org \<and> ia_status a = ApPending then a\<lparr>ia_status := ApVoided, ia_at := Some now\<rparr> else a"
    let ?db = "db1\<lparr>i_approvals := map ?h (i_approvals db1)\<rparr>"
    have d: "keys_ok db1" "approvals_ok db1" using inbox_invD [OF inv] by auto
    have "inbox_inv {i} ?db"
    proof (rule approval_update_inv [OF inv, where h = ?h])
      fix r assume r: "r \<in> set (i_runs db1)" "awaits_approval r"
      then have "ir_id r \<noteq> i" using has_run_unique [OF d(1) e r(1)] by (auto simp: wait_defs)
      then show "\<exists>a\<in>set (i_approvals db1). asked (?h a) \<and> ia_run a = ir_id r" using approvals_okD(1) [OF d(2) r] by force
    qed (auto simp: keeps_approval_def asked_def)
    moreover have "has_run ?db org i ended" using e by (simp add: has_run_def)
    ultimately show ?thesis using settle_questions_inv True Pair by (simp add: life_cancel_def upd_where_def)
  next
    case False
    then have "db1 = db" using end_run_lost Pair by simp
    then show ?thesis using False Pair assms by (simp add: life_cancel_def)
  qed
qed

subsection \<open>Settling an approval\<close>

lemma approval_get_Some: "approval_get org i db = Some a \<Longrightarrow> a \<in> set (i_approvals db) \<and> ia_id a = i \<and> ia_org a = org"
  by (auto simp: approval_get_def dest: find_SomeD)

lemma put_iapproval_rows:
  assumes "keys_ok db" "a \<in> set (i_approvals db)" "\<And>x. ia_id (F x) = ia_id x"
  shows "i_approvals (put_iapproval (F a) db) = map (\<lambda>x. if ia_id x = ia_id a then F x else x) (i_approvals db)"
  using map_replace [of "i_approvals db" ia_id a F] approval_unique [OF keysD(3) [OF assms(1)]] assms(2,3)
  by (simp add: put_iapproval_def)

text \<open>An approval and its run move together: the approval is settled and its run, when it waits, is woken.\<close>

lemma approve_inv:
  assumes inv: "inbox_inv {} db"
  shows "inbox_inv {} (fst (approve now org i by db))"
proof (cases "approval_get org i db")
  case None
  then show ?thesis using inv by (simp add: approve_def)
next
  case (Some a)
  note a = approval_get_Some [OF Some]
  have d: "keys_ok db" "questions_ok {} db" "approvals_ok db" using inbox_invD [OF inv] by auto
  show ?thesis
  proof (cases "ia_status a = ApPending")
    case False
    then show ?thesis using Some inv by (simp add: approve_def)
  next
    case True
    then have pend: "has_run db org (ia_run a) (\<lambda>r. awaits_approval r \<or> ended r)"
      using approvals_okD(2) [OF d(3)] a by (auto simp: asked_def)
    then obtain r where r: "irun_get org (ia_run a) db = Some r" using irun_get_None by (metis not_Some_eq)
    note rr = irun_get_Some [OF r]
    have state: "awaits_approval r \<or> ended r" using has_run_unique [OF d(1) pend] rr by blast
    define st where "st = (if \<not> is_nonterminal (ir_status r) then ApVoided else ApApproved)"
    define g where "g x = x\<lparr>ia_status := st, ia_by := by, ia_at := Some now\<rparr>" for x :: iapproval
    define h where "h x = (if ia_id x = ia_id a then g x else x)" for x
    define w where "w x = x\<lparr>ir_resume := Some (with_approved (ia_tool a) (resume_of r)), ir_status := AQueued, ir_wait := None, ir_activity := now\<rparr>" for x :: irun
    define f where "f x = (if ir_status r = AWaiting \<and> ir_id x = ir_id r then w x else x)" for x
    let ?db = "fst (approve now org i by db)"
    have w: "wakes w" by (simp add: wakes_def w_def)
    have rep: "map (\<lambda>x. if ir_id x = ir_id r then w r else x) (i_runs db) = map (\<lambda>x. if ir_id x = ir_id r then w x else x) (i_runs db)"
      using map_replace [of "i_runs db" ir_id r w] id_unique [OF keysD(1) [OF d(1)]] rr by blast
    have res: "?db = close_approval_notice org (ia_run a)
        (if ir_status r = AWaiting then put_irun (w r) (put_iapproval (g a) db) else put_iapproval (g a) db)"
      using Some True r by (simp add: approve_def Let_def g_def st_def w_def)
    have "i_approvals (put_iapproval (g a) db) = map h (i_approvals db)"
      unfolding h_def by (rule put_iapproval_rows [OF d(1)]) (use a in \<open>simp_all add: g_def\<close>)
    then have as: "i_approvals ?db = map h (i_approvals db)" by (simp add: res)
    have wid: "ir_id (w r) = ir_id r" by (simp add: w_def)
    have rows: "i_runs ?db = map f (i_runs db)" "i_questions ?db = map id (i_questions db)"
      using rep by (simp_all add: res f_def put_irun_def wid map_idI)
    have k: "keeps_run f" "keeps_question id" "keeps_approval h"
      by (simp_all add: keeps_run_def keeps_question_def keeps_approval_def f_def w_def h_def g_def)
    have woken: "x = r" if "x \<in> set (i_runs db)" "f x \<noteq> x" for x
      using that id_unique [OF keysD(1) [OF d(1)] that(1), of r] rr by (auto simp: f_def split: if_splits)
    have fr: "f x = x \<or> x = r \<and> awaits_approval r \<and> ir_status (f x) = AQueued" if "x \<in> set (i_runs db)" for x
      using woken [OF that] state w by (auto simp: f_def wakes_def wait_defs)
    have fa: "awaits_answer (f x)" if "x \<in> set (i_runs db)" "awaits_answer x" for x
      using fr [OF that(1)] that(2) by (elim disjE) (auto simp: wait_defs)
    have fe: "\<not> ended (f x)" if "x \<in> set (i_runs db)" "\<not> ended x" for x
      using fr [OF that(1)] that(2) by (elim disjE) (auto simp: wait_defs)
    have ef: "ended (f x)" if "x \<in> set (i_runs db)" "ended x" for x
      using fr [OF that(1)] that(2) by (elim disjE) (auto simp: wait_defs)
    have na: "\<not> asked (g x)" for x by (simp add: g_def st_def asked_def)
    have ha: "h x = x" if "x \<in> set (i_approvals db)" "asked (h x)" for x
      using that na by (auto simp: h_def split: if_splits)
    have "questions_ok {} ?db"
    proof (rule questions_map [OF d(2) k(1,2) rows])
      fix x assume x: "x \<in> set (i_runs db)" "awaits_answer (f x)"
      then have "f x = x" using fr [OF x(1)] by (auto simp: wait_defs)
      then show "\<exists>q\<in>set (i_questions db). pend (id q) \<and> q_run q = ir_id x" using questions_okD(2) [OF d(2)] x by simp
    qed (use fa fe in simp_all)
    moreover have "approvals_ok ?db"
    proof (rule approvals_map [OF d(3) k(1,3) rows(1) as ha])
      fix x assume x: "x \<in> set (i_runs db)" "awaits_approval (f x)"
      then have fx: "f x = x" using fr [OF x(1)] by (auto simp: wait_defs)
      then obtain b where b: "b \<in> set (i_approvals db)" "asked b" "ia_run b = ir_id x"
        using approvals_okD(1) [OF d(3) x(1)] x(2) by auto
      have "ia_id b \<noteq> ia_id a"
      proof
        assume "ia_id b = ia_id a"
        then have "b = a" using approval_unique [OF keysD(3) [OF d(1)]] a b(1) by blast
        then have "x = r" using id_unique [OF keysD(1) [OF d(1)] x(1)] rr b(3) by auto
        then have "f x = w x" using x(2) fx by (simp add: f_def awaits_approval_def)
        moreover have "ir_status (w x) = AQueued" by (simp add: w_def)
        ultimately show False using x(2) by (simp add: awaits_approval_def)
      qed
      then show "\<exists>b\<in>set (i_approvals db). asked (h b) \<and> ia_run b = ir_id x" using b by (auto simp: h_def)
    next
      fix b x assume b: "b \<in> set (i_approvals db)" "asked (h b)" and x: "x \<in> set (i_runs db)" "ir_id x = ia_run b" "awaits_approval x"
      have "asked b" using ha [OF b] b by simp
      have "x \<noteq> r"
      proof
        assume xr: "x = r"
        have "b = a \<or> has_run db (ia_org b) (ia_run b) ended"
          using approvals_okD(3) [OF d(3) b(1), of a] a True \<open>asked b\<close> xr x(2) rr by (auto simp: asked_def)
        moreover have "\<not> has_run db (ia_org b) (ia_run b) ended"
          using has_run_unique [OF d(1) _ x(1,2), of "ia_org b" ended] x(3) by (auto simp: wait_defs)
        ultimately show False using b(2) na by (auto simp: h_def)
      qed
      then show "awaits_approval (f x) \<or> ended (f x)" using fr [OF x(1)] x(3) by auto
    qed (assumption, assumption, rule ef)
    ultimately show ?thesis using keys_map [OF d(1) k rows as] by (simp add: inbox_inv_def)
  qed
qed


lemma orphans_ended: "has_run db o' j ended \<Longrightarrow> has_run (cancel_orphaned_consults now org i db) o' j ended"
  by (force simp: has_run_def cancel_orphaned_consults_def Let_def set_upd_where ended_def is_nonterminal_def)

lemma settle_questions_ended:
  assumes "inbox_inv {i} db" "has_run db org i ended"
  shows "has_run (settle_questions now org i reason db) org i ended"
proof -
  let ?a = "settle_for_peer_run now org i reason db"
  have "has_run (close_question_notice org i (?a\<lparr>i_questions := Q\<rparr>)) org i ended" for Q
    by (subst has_run_rows [where b = ?a]) (simp_all add: settle_for_peer_inv(2) [OF assms refl])
  then show ?thesis unfolding settle_questions_def void_open_questions_def by (rule orphans_ended)
qed

lemma finalize_ended:
  assumes "inbox_inv {} db" "\<not> is_nonterminal status" "has_run db org i (\<lambda>_. True)"
  shows "has_run (fst (life_finalize now org i status err db)) org i ended"
proof (cases "end_run now org i status err db")
  case (Pair db1 won)
  show ?thesis
  proof (cases won)
    case True
    then have "inbox_inv {i} db1" "has_run db1 org i ended"
      using end_run_inv [OF assms(1,2), of i now org err] end_run_won [OF _ assms(2)] Pair by auto
    from settle_questions_ended [OF this] show ?thesis using True Pair by (simp add: life_finalize_def)
  next
    case False
    then have "db1 = db" using end_run_lost Pair by simp
    moreover have "has_run db org i ended" using assms(3) False Pair
      by (auto simp: end_run_def has_run_def list_ex_iff irun_open_def ended_def)
    ultimately show ?thesis using False Pair by (simp add: life_finalize_def)
  qed
qed

text \<open>Ending a run never looks at the approvals.\<close>

lemma close_question_notice_upd: "close_question_notice org i (db\<lparr>i_approvals := A\<rparr>) = (close_question_notice org i db)\<lparr>i_approvals := A\<rparr>"
  by (simp add: close_question_notice_def settle_notifications_def)

lemma inject_answer_upd: "inject_answer now org q p seen (db\<lparr>i_approvals := A\<rparr>)
    = (let (d, b) = inject_answer now org q p seen db in (d\<lparr>i_approvals := A\<rparr>, b))"
  by (simp add: inject_answer_def irun_get_def put_irun_def Let_def split: option.split)

lemma decline_upd: "fst (decline now org q reason prof (db\<lparr>i_approvals := A\<rparr>)) = (fst (decline now org q reason prof db))\<lparr>i_approvals := A\<rparr>"
proof -
  have p: "put_question q1 (db\<lparr>i_approvals := A\<rparr>) = (put_question q1 db)\<lparr>i_approvals := A\<rparr>" for q1 by (simp add: put_question_def)
  have s: "siblings org q (db\<lparr>i_approvals := A\<rparr>) = siblings org q db" by (simp add: siblings_def)
  have d: "diary_the_answer org q1 t b (d\<lparr>i_approvals := A\<rparr>) = (diary_the_answer org q1 t b d)\<lparr>i_approvals := A\<rparr>" for q1 t b and d :: idb
    by (simp add: diary_the_answer_def split: option.split)
  show ?thesis by (simp add: decline_def p s inject_answer_upd d close_question_notice_upd Let_def split: prod.split)
qed

lemma orphans_upd: "cancel_orphaned_consults now org i (db\<lparr>i_approvals := A\<rparr>) = (cancel_orphaned_consults now org i db)\<lparr>i_approvals := A\<rparr>"
  by (simp add: cancel_orphaned_consults_def Let_def)

lemma settle_questions_upd: "settle_questions now org i reason (db\<lparr>i_approvals := A\<rparr>) = (settle_questions now org i reason db)\<lparr>i_approvals := A\<rparr>"
proof -
  have p: "settle_for_peer_run now org i reason (db\<lparr>i_approvals := A\<rparr>) = (settle_for_peer_run now org i reason db)\<lparr>i_approvals := A\<rparr>"
    by (simp add: settle_for_peer_run_def pending_for_peer_run_def decline_upd split: option.split)
  define V where "V d = d\<lparr>i_questions := upd_where (\<lambda>q. q_run q = i \<and> q_org q = org \<and> q_status q = QPending)
      (\<lambda>q. q\<lparr>q_status := QVoided, q_answered := Some now\<rparr>) (i_questions d)\<rparr>" for d :: idb
  have o: "void_open_questions now org i d = cancel_orphaned_consults now org i (close_question_notice org i (V d))" for d
    by (simp add: void_open_questions_def V_def)
  have v: "V (d\<lparr>i_approvals := A\<rparr>) = (V d)\<lparr>i_approvals := A\<rparr>" for d by (simp add: V_def)
  show ?thesis by (simp add: settle_questions_def p o v close_question_notice_upd orphans_upd)
qed

lemma finalize_upd: "fst (life_finalize now org i status err (db\<lparr>i_approvals := A\<rparr>)) = (fst (life_finalize now org i status err db))\<lparr>i_approvals := A\<rparr>"
proof -
  have "end_run now org i status err (db\<lparr>i_approvals := A\<rparr>) = (let (d, b) = end_run now org i status err db in (d\<lparr>i_approvals := A\<rparr>, b))"
    by (simp add: end_run_def)
  then show ?thesis by (simp add: life_finalize_def settle_questions_upd split: prod.split)
qed

lemma settled_approvals: "i_approvals (fst (life_finalize now org i status err db)) = i_approvals db"
  using arg_cong [OF finalize_upd [of now org i status err "i_approvals db" db], of i_approvals] by simp


lemma close_approval_notice_inv: "inbox_inv X (close_approval_notice org i db) = inbox_inv X db"
  by (rule same_rows) simp_all

lemma deny_inv:
  assumes inv: "inbox_inv {} db"
  shows "inbox_inv {} (fst (deny now org i by db))"
proof (cases "approval_get org i db")
  case None
  then show ?thesis using inv by (simp add: deny_def)
next
  case (Some a)
  note a = approval_get_Some [OF Some]
  have d: "keys_ok db" "approvals_ok db" using inbox_invD [OF inv] by auto
  show ?thesis
  proof (cases "ia_status a = ApPending")
    case False
    then show ?thesis using Some inv by (simp add: deny_def)
  next
    case True
    then have pend: "has_run db org (ia_run a) (\<lambda>r. awaits_approval r \<or> ended r)"
      using approvals_okD(2) [OF d(2)] a by (auto simp: asked_def)
    then obtain r where r: "irun_get org (ia_run a) db = Some r" using irun_get_None by (metis not_Some_eq)
    note rr = irun_get_Some [OF r]
    have state: "awaits_approval r \<or> ended r" using has_run_unique [OF d(1) pend] rr by blast
    define g where "g x = x\<lparr>ia_status := ApDenied, ia_by := by, ia_at := Some now\<rparr>" for x :: iapproval
    define h where "h x = (if ia_id x = ia_id a then g x else x)" for x
    let ?err = "Some (''approval denied: '' @ ia_tool a)"
    define e where "e = (if ir_status r = AWaiting then fst (life_finalize now org (ir_id r) AError ?err db) else db)"
    have t: "\<not> is_nonterminal AError" by (simp add: is_nonterminal_def)
    have einv: "inbox_inv {} e" using inv finalize_inv [OF inv t] by (simp add: e_def)
    have "has_run db org (ir_id r) (\<lambda>_. True)" using rr by (auto simp: has_run_def)
    then have ended: "has_run e org (ia_run a) ended"
      using finalize_ended [OF inv t] state rr by (auto simp: e_def awaits_approval_def has_run_def)
    have eas: "i_approvals e = i_approvals db" by (simp add: e_def settled_approvals)
    have put: "put_iapproval (g a) db = db\<lparr>i_approvals := map h (i_approvals db)\<rparr>"
      using put_iapproval_rows [OF d(1), of a g] a by (simp add: put_iapproval_def h_def g_def)
    have "fst (deny now org i by db) = close_approval_notice org (ia_run a) (e\<lparr>i_approvals := map h (i_approvals db)\<rparr>)"
      using Some True r put by (simp add: deny_def Let_def e_def g_def finalize_upd)
    moreover have "inbox_inv {} (e\<lparr>i_approvals := map h (i_approvals db)\<rparr>)"
    proof (rule approval_update_inv [OF einv, where h = h])
      fix x assume x: "x \<in> set (i_runs e)" "awaits_approval x"
      have de: "keys_ok e" "approvals_ok e" using inbox_invD [OF einv] by auto
      obtain b where b: "b \<in> set (i_approvals db)" "asked b" "ia_run b = ir_id x"
        using approvals_okD(1) [OF de(2) x] eas by auto
      have "ir_id x \<noteq> ia_run a" using has_run_unique [OF de(1) ended x(1)] x(2) by (auto simp: wait_defs)
      then have "ia_id b \<noteq> ia_id a" using approval_unique [OF keysD(3) [OF d(1)]] a b by metis
      then show "\<exists>y\<in>set (i_approvals e). asked (h y) \<and> ia_run y = ir_id x" using b eas by (auto simp: h_def)
    qed (simp_all add: eas keeps_approval_def h_def g_def asked_def split: if_splits)
    ultimately show ?thesis by (simp add: close_approval_notice_inv)
  qed
qed

subsection \<open>Parking a run\<close>

lemma park_rows:
  "i_runs (park_run now i k x db) = map (\<lambda>r. if ir_id r = i then r\<lparr>ir_resume := Some (x\<lparr>rs_approved := sort (fromkeys (rs_approved x)),
        rs_answers := filter (\<lambda>(k, _). k \<in> call_id ` set (rs_pending x)) (rs_answers x)\<rparr>),
      ir_status := AWaiting, ir_wait := Some k, ir_activity := now\<rparr> else r) (i_runs db)"
  "i_questions (park_run now i k x db) = i_questions db" "i_approvals (park_run now i k x db) = i_approvals db"
  by (simp_all add: park_run_def upd_where_def)

definition parks :: "nat \<Rightarrow> string \<Rightarrow> (irun \<Rightarrow> irun) \<Rightarrow> bool" where
  "parks i k f \<longleftrightarrow> (\<forall>r. ir_id (f r) = ir_id r \<and> ir_org (f r) = ir_org r \<and> (ir_id r \<noteq> i \<longrightarrow> f r = r)
     \<and> (ir_id r = i \<longrightarrow> ir_status (f r) = AWaiting \<and> ir_wait (f r) = Some k))"

lemma park_parks: "\<exists>f. parks i k f \<and> i_runs (park_run now i k x db) = map f (i_runs db)"
  by (rule exI [of _ "\<lambda>r. if ir_id r = i then r\<lparr>ir_resume := Some (x\<lparr>rs_approved := sort (fromkeys (rs_approved x)),
        rs_answers := filter (\<lambda>(k, _). k \<in> call_id ` set (rs_pending x)) (rs_answers x)\<rparr>),
      ir_status := AWaiting, ir_wait := Some k, ir_activity := now\<rparr> else r"]) (simp add: parks_def park_rows)

text \<open>A run that is running has nothing open.\<close>

lemma running_free:
  assumes inv: "inbox_inv {} db" and i: "has_run db org i (\<lambda>r. ir_status r = ARunning)"
  shows "q \<in> set (i_questions db) \<Longrightarrow> pend q \<Longrightarrow> q_run q \<noteq> i" "a \<in> set (i_approvals db) \<Longrightarrow> asked a \<Longrightarrow> ia_run a \<noteq> i"
proof -
  have d: "keys_ok db" "questions_ok {} db" "approvals_ok db" using inbox_invD [OF inv] by auto
  obtain r where r: "r \<in> set (i_runs db)" "ir_id r = i" "ir_status r = ARunning" using i by (auto simp: has_run_def)
  show "q_run q \<noteq> i" if "q \<in> set (i_questions db)" "pend q"
  proof
    assume "q_run q = i"
    from has_run_unique [OF d(1) questions_okD(1) [OF d(2) that] r(1)] this r show False by (auto simp: wait_defs)
  qed
  show "ia_run a \<noteq> i" if "a \<in> set (i_approvals db)" "asked a"
  proof
    assume "ia_run a = i"
    from has_run_unique [OF d(1) approvals_okD(2) [OF d(3) that] r(1)] this r show False by (auto simp: wait_defs)
  qed
qed


lemma has_run_append: "i_runs db' = i_runs db @ ns \<Longrightarrow> has_run db org i P \<Longrightarrow> has_run db' org i P"
  by (auto simp: has_run_def)

text \<open>New runs, queued, change nothing for the rows there are.\<close>

lemma spawn_inv:
  assumes inv: "inbox_inv {} db" and r: "i_runs db' = i_runs db @ ns" "i_questions db' = i_questions db" "i_approvals db' = i_approvals db"
    and ns: "distinct (map ir_id ns)" "set (map ir_id ns) \<inter> set (map ir_id (i_runs db)) = {}" "\<forall>r\<in>set ns. ir_status r = AQueued"
  shows "inbox_inv {} db'"
proof -
  have d: "keys_ok db" "questions_ok {} db" "approvals_ok db" using inbox_invD [OF inv] by auto
  note up = has_run_append [OF r(1)]
  have "keys_ok db'"
    using d(1) ns(1,2) up unfolding keys_ok_def r by (auto; metis up)
  moreover have "questions_ok {} db'"
    unfolding questions_ok_def r(2)
  proof (intro conjI ballI allI impI; (elim conjE)?)
    fix x assume "x \<in> set (i_runs db')" "awaits_answer x"
    then show "\<exists>q\<in>set (i_questions db). pend q \<and> q_run q = ir_id x"
      using questions_okD(2) [OF d(2)] ns(3) by (auto simp: r(1) wait_defs)
  qed (use questions_okD [OF d(2)] up in blast)+
  moreover have "approvals_ok db'"
    unfolding approvals_ok_def r(3)
  proof (intro conjI ballI allI impI; (elim conjE)?)
    fix x assume "x \<in> set (i_runs db')" "awaits_approval x"
    then show "\<exists>a\<in>set (i_approvals db). asked a \<and> ia_run a = ir_id x"
      using approvals_okD(1) [OF d(3)] ns(3) by (auto simp: r(1) wait_defs)
  qed (use approvals_okD [OF d(3)] up in blast)+
  ultimately show ?thesis by (simp add: inbox_inv_def)
qed


lemma park_question_inv:
  assumes inv: "inbox_inv {} db" and i: "has_run db org i (\<lambda>r. ir_status r = ARunning)" and f: "parks i k f" and k: "k \<noteq> ''approval''"
    and r: "i_runs db' = map f (i_runs db)" "i_questions db' = i_questions db @ nq" "i_approvals db' = i_approvals db"
    and nq: "nq \<noteq> []" "\<And>q. q \<in> set nq \<Longrightarrow> pend q \<and> q_run q = i \<and> q_org q = org \<and> q_call q = c \<and> (q_audience q = ''agent'' \<longrightarrow> q_peer q \<noteq> None)"
    and np: "\<And>q p. q \<in> set nq \<Longrightarrow> q_peer q = Some p \<Longrightarrow> has_run db org p (\<lambda>r. ir_status r = AQueued)"
    and nd: "distinct (map q_id nq)" "set (map q_id nq) \<inter> set (map q_id (i_questions db)) = {}"
      "distinct (List.map_filter q_peer nq)" "set (List.map_filter q_peer nq) \<inter> set (List.map_filter q_peer (i_questions db)) = {}"
  shows "inbox_inv {} db'"
proof -
  have d: "keys_ok db" "questions_ok {} db" "approvals_ok db" using inbox_invD [OF inv] by auto
  note free = running_free [OF inv i]
  have fi: "ir_id (f r) = ir_id r" "ir_org (f r) = ir_org r" "ir_id r \<noteq> i \<Longrightarrow> f r = r" for r using f by (auto simp: parks_def)
  have fw: "ir_id r = i \<Longrightarrow> awaits_answer (f r) \<and> \<not> ended (f r) \<and> \<not> awaits_approval (f r)" for r
    using f k by (auto simp: parks_def wait_defs)
  have keep: "keeps_run f" using fi by (simp add: keeps_run_def)
  note m = has_run_map [OF keep r(1)]
  have any: "has_run db' o' j (\<lambda>_. True)" if "has_run db o' j P" for o' j P using that unfolding m by (auto simp: has_run_def)
  have other: "has_run db' o' j P" if "has_run db o' j P" "j \<noteq> i" for o' j P
    using that fi(3) unfolding m by (auto simp: has_run_def)
  have me: "has_run db' org i awaits_answer" using i fw unfolding m by (auto simp: has_run_def)
  have live: "has_run db' o' j (\<lambda>r. \<not> ended r)" if "has_run db o' j (\<lambda>r. \<not> ended r)" for o' j
  proof (cases "j = i")
    case True
    then show ?thesis using that fw unfolding m by (auto simp: has_run_def)
  next
    case False
    then show ?thesis using other [OF that] by simp
  qed
  have run0: "x \<in> set (i_runs db) \<Longrightarrow> ir_id x = i \<Longrightarrow> ir_status x = ARunning" for x
    using has_run_unique [OF d(1) i] by blast
  have "keys_ok db'"
  proof -
    have ids: "map ir_id (i_runs db') = map ir_id (i_runs db)" using r(1) fi by simp
    have mf: "List.map_filter q_peer (i_questions db @ nq) = List.map_filter q_peer (i_questions db) @ List.map_filter q_peer nq"
      by (simp add: List.map_filter_def)
    have dq: "distinct (map q_id (i_questions db'))" "distinct (List.map_filter q_peer (i_questions db'))"
      using keysD(2,4) [OF d(1)] nd unfolding r(2) mf by auto
    have "has_run db' (q_org q) (q_run q) (\<lambda>_. True) \<and> (\<forall>p. q_peer q = Some p \<longrightarrow> has_run db' (q_org q) p (\<lambda>_. True))
        \<and> (q_audience q = ''agent'' \<longrightarrow> q_peer q \<noteq> None)" if "q \<in> set (i_questions db')" for q
    proof (cases "q \<in> set nq")
      case True
      show ?thesis using nq(2) [OF True] any [OF i] any [OF np [OF True]] by auto
    next
      case False
      then have q: "q \<in> set (i_questions db)" using that r(2) by simp
      show ?thesis using any [OF keysD(5) [OF d(1) q]] any [OF keysD(6) [OF d(1) q]] keysD(7) [OF d(1) q] by auto
    qed
    moreover have "has_run db' (ia_org a) (ia_run a) (\<lambda>_. True)" if "a \<in> set (i_approvals db')" for a
      using any [OF keysD(8) [OF d(1)]] that r(3) by simp
    ultimately show ?thesis unfolding keys_ok_def ids using keysD(1,3) [OF d(1)] dq r(3) by auto
  qed
  moreover have "questions_ok {} db'"
    unfolding questions_ok_def
  proof (intro conjI ballI allI impI; (elim conjE)?)
    fix q assume q: "q \<in> set (i_questions db')" "pend q"
    show "has_run db' (q_org q) (q_run q) awaits_answer"
      using q r(2) nq(2) me other [OF questions_okD(1) [OF d(2)]] free(1) by (cases "q \<in> set nq") auto
    fix p assume p: "q_peer q = Some p"
    show "has_run db' (q_org q) p (\<lambda>r. \<not> ended r)"
    proof (cases "q \<in> set nq")
      case True
      have "has_run db org p (\<lambda>r. \<not> ended r)"
        by (rule has_run_mono [OF np [OF True p]]) (simp add: wait_defs)
      then show ?thesis using live nq(2) [OF True] by simp
    next
      case False
      then show ?thesis using live questions_okD(3) [OF d(2)] q p r(2) by auto
    qed
  next
    fix x assume x: "x \<in> set (i_runs db')" "awaits_answer x"
    then obtain y where y: "y \<in> set (i_runs db)" "x = f y" using r(1) by auto
    show "\<exists>q\<in>set (i_questions db'). pend q \<and> q_run q = ir_id x"
    proof (cases "ir_id y = i")
      case True
      obtain q where "q \<in> set nq" using nq(1) by (cases nq) auto
      then show ?thesis using nq(2) [of q] True y(2) fi(1) r(2) by auto
    next
      case False
      then show ?thesis using questions_okD(2) [OF d(2) y(1)] x(2) y(2) fi(3) r(2) by auto
    qed
  next
    fix q q' assume q: "q \<in> set (i_questions db')" "q' \<in> set (i_questions db')" "pend q" "pend q'" "q_run q = q_run q'"
    have same: "q \<in> set nq \<longleftrightarrow> q_run q = i" if "q \<in> set (i_questions db')" "pend q" for q
      using that nq(2) free(1) r(2) by auto
    show "q_call q = q_call q'"
    proof (cases "q_run q = i")
      case True
      then show ?thesis using nq(2) same q by metis
    next
      case False
      then show ?thesis using same [OF q(1,3)] same [OF q(2,4)] q questions_okD(4) [OF d(2), of q q'] r(2) by auto
    qed
  qed
  moreover have "approvals_ok db'"
  proof (rule approvals_map [OF d(3) keep, where h = id])
    fix x assume x: "x \<in> set (i_runs db)" "awaits_approval (f x)"
    then show "\<exists>a\<in>set (i_approvals db). asked (id a) \<and> ia_run a = ir_id x"
      using approvals_okD(1) [OF d(3) x(1)] fw [of x] fi(3) [of x] by (cases "ir_id x = i") auto
  next
    fix x assume x: "x \<in> set (i_runs db)" "ended x"
    then show "ended (f x)" using run0 [OF x(1)] fi(3) [of x] by (cases "ir_id x = i") (auto simp: wait_defs)
  next
    fix a x assume x: "x \<in> set (i_runs db)" "awaits_approval x"
    then show "awaits_approval (f x) \<or> ended (f x)" using run0 [OF x(1)] fi(3) [of x] by (cases "ir_id x = i") (auto simp: wait_defs)
  qed (simp_all add: r keeps_approval_def)
  ultimately show ?thesis by (simp add: inbox_inv_def)
qed


lemma park_approval_inv:
  assumes inv: "inbox_inv {} db" and i: "has_run db org i (\<lambda>r. ir_status r = ARunning)" and f: "parks i ''approval'' f"
    and r: "i_runs db' = map f (i_runs db)" "i_questions db' = i_questions db" "i_approvals db' = i_approvals db @ [a]"
    and a: "asked a" "ia_run a = i" "ia_org a = org" "ia_id a \<notin> set (map ia_id (i_approvals db))"
  shows "inbox_inv {} db'"
proof -
  have d: "keys_ok db" "questions_ok {} db" "approvals_ok db" using inbox_invD [OF inv] by auto
  note free = running_free [OF inv i]
  have fi: "ir_id (f r) = ir_id r" "ir_org (f r) = ir_org r" "ir_id r \<noteq> i \<Longrightarrow> f r = r" for r using f by (auto simp: parks_def)
  have fw: "ir_id r = i \<Longrightarrow> awaits_approval (f r) \<and> \<not> ended (f r) \<and> \<not> awaits_answer (f r)" for r
    using f by (auto simp: parks_def wait_defs)
  have keep: "keeps_run f" "keeps_question id" using fi by (simp_all add: keeps_run_def keeps_question_def)
  note m = has_run_map [OF keep(1) r(1)]
  have any: "has_run db' o' j (\<lambda>_. True)" if "has_run db o' j P" for o' j P using that unfolding m by (auto simp: has_run_def)
  have other: "has_run db' o' j P" if "has_run db o' j P" "j \<noteq> i" for o' j P
    using that fi(3) unfolding m by (auto simp: has_run_def)
  have me: "has_run db' org i awaits_approval" using i fw unfolding m by (auto simp: has_run_def)
  have run0: "x \<in> set (i_runs db) \<Longrightarrow> ir_id x = i \<Longrightarrow> ir_status x = ARunning" for x
    using has_run_unique [OF d(1) i] by blast
  have "keys_ok db'"
  proof -
    have "map ir_id (i_runs db') = map ir_id (i_runs db)" using r(1) fi by simp
    moreover have "has_run db' (ia_org b) (ia_run b) (\<lambda>_. True)" if "b \<in> set (i_approvals db')" for b
      using that r(3) any [OF keysD(8) [OF d(1)]] any [OF i] a by auto
    moreover have "has_run db' (q_org q) (q_run q) (\<lambda>_. True) \<and> (\<forall>p. q_peer q = Some p \<longrightarrow> has_run db' (q_org q) p (\<lambda>_. True))
        \<and> (q_audience q = ''agent'' \<longrightarrow> q_peer q \<noteq> None)" if q: "q \<in> set (i_questions db)" for q
      using any [OF keysD(5) [OF d(1) q]] any [OF keysD(6) [OF d(1) q]] keysD(7) [OF d(1) q] by auto
    ultimately show ?thesis unfolding keys_ok_def using keysD(1-4) [OF d(1)] r(2,3) a(4) by auto
  qed
  moreover have "questions_ok {} db'"
  proof (rule questions_map [OF d(2) keep r(1)])
    fix x assume x: "x \<in> set (i_runs db)" "awaits_answer (f x)"
    then show "\<exists>q\<in>set (i_questions db). pend (id q) \<and> q_run q = ir_id x"
      using questions_okD(2) [OF d(2) x(1)] fw [of x] fi(3) [of x] by (cases "ir_id x = i") auto
  next
    fix q assume q: "q \<in> set (i_questions db)" "pend (id q)"
    then show "q_run q \<notin> {} \<and> (\<forall>x\<in>set (i_runs db). ir_id x = q_run q \<and> awaits_answer x \<longrightarrow> awaits_answer (f x))"
      using free(1) fi(3) by simp
  next
    fix q p assume "q_peer q = Some p"
    show "p \<notin> {} \<and> (\<forall>x\<in>set (i_runs db). ir_id x = p \<and> \<not> ended x \<longrightarrow> \<not> ended (f x))"
      using fw fi(3) by (metis empty_iff)
  qed (simp_all add: r)
  moreover have "approvals_ok db'"
    unfolding approvals_ok_def
  proof (intro conjI ballI allI impI; (elim conjE)?)
    fix x assume x: "x \<in> set (i_runs db')" "awaits_approval x"
    then obtain y where y: "y \<in> set (i_runs db)" "x = f y" using r(1) by auto
    show "\<exists>b\<in>set (i_approvals db'). asked b \<and> ia_run b = ir_id x"
    proof (cases "ir_id y = i")
      case True
      then show ?thesis using a r(3) y(2) fi(1) by auto
    next
      case False
      then show ?thesis using approvals_okD(1) [OF d(3) y(1)] x(2) y(2) fi(3) r(3) by auto
    qed
  next
    fix b assume b: "b \<in> set (i_approvals db')" "asked b"
    show "has_run db' (ia_org b) (ia_run b) (\<lambda>r. awaits_approval r \<or> ended r)"
    proof (cases "b = a")
      case True
      then show ?thesis using me a by (auto simp: has_run_def)
    next
      case False
      then show ?thesis using b r(3) other [OF approvals_okD(2) [OF d(3)]] free(2) by auto
    qed
  next
    fix b c assume b: "b \<in> set (i_approvals db')" "c \<in> set (i_approvals db')" "asked b" "asked c" "ia_run b = ia_run c"
    have new: "x = a \<longleftrightarrow> ia_run x = i" if "x \<in> set (i_approvals db')" "asked x" for x
      using that r(3) a(2) free(2) by auto
    show "b = c \<or> has_run db' (ia_org b) (ia_run b) ended"
    proof (cases "ia_run b = i")
      case True
      then show ?thesis using new b by metis
    next
      case False
      then have "b \<noteq> a" "c \<noteq> a" using b(5) a(2) by auto
      then have "b \<in> set (i_approvals db)" "c \<in> set (i_approvals db)" using b(1,2) r(3) by auto
      then show ?thesis using approvals_okD(3) [OF d(3) _ _ b(3-5)] other False by blast
    qed
  qed
  ultimately show ?thesis by (simp add: inbox_inv_def)
qed

text \<open>Claiming a queued run or returning a lost one to the queue touches no run that waits or has ended.\<close>

lemma busy_inv:
  assumes inv: "inbox_inv {} db" and f: "\<And>r. f r = r \<or> ir_id (f r) = ir_id r \<and> ir_org (f r) = ir_org r
      \<and> ir_status r \<in> {AQueued, ARunning} \<and> ir_status (f r) \<in> {AQueued, ARunning}"
    and r: "i_runs db' = map f (i_runs db)" "i_questions db' = i_questions db" "i_approvals db' = i_approvals db"
  shows "inbox_inv {} db'"
proof -
  have d: "keys_ok db" "questions_ok {} db" "approvals_ok db" using inbox_invD [OF inv] by auto
  have keep: "keeps_run f" "keeps_question id" "keeps_approval id"
    using f by (auto simp: keeps_run_def keeps_question_def keeps_approval_def; metis)+
  have st: "awaits_answer (f r) = awaits_answer r" "awaits_approval (f r) = awaits_approval r" "ended (f r) = ended r" for r
    using f [of r] by (auto simp: wait_defs)
  have "questions_ok {} db'"
    by (rule questions_map [OF d(2) keep(1,2) r(1)]) (use questions_okD(2) [OF d(2)] in \<open>simp_all add: r st\<close>)
  moreover have "approvals_ok db'"
    by (rule approvals_map [OF d(3) keep(1,3) r(1)]) (use approvals_okD(1) [OF d(3)] in \<open>simp_all add: r st\<close>)
  ultimately show ?thesis using keys_map [OF d(1) keep r(1)] r by (simp add: inbox_inv_def)
qed


subsection \<open>Steps\<close>

definition new_ids :: "nat \<Rightarrow> nat \<Rightarrow> nat \<Rightarrow> idb \<Rightarrow> bool" where
  "new_ids fresh_run fresh fresh_approval db \<longleftrightarrow> (\<forall>r\<in>set (i_runs db). ir_id r < fresh_run) \<and> (\<forall>q\<in>set (i_questions db). q_id q < fresh)
     \<and> (\<forall>a\<in>set (i_approvals db). ia_id a < fresh_approval)"

definition runs_tool :: "tool_ctx \<Rightarrow> nat \<Rightarrow> idb \<Rightarrow> bool" where
  "runs_tool ctx i db \<longleftrightarrow> tc_run ctx = Some i \<and> has_run db (tc_org ctx) i (\<lambda>r. ir_status r = ARunning)"

text \<open>
  One transaction: a new run, the executor's own moves, a tool call of a running run that parks it or answers for another, a
  decision of a person, or the end of a run.
\<close>

inductive inbox_step :: "idb \<Rightarrow> idb \<Rightarrow> bool" where
  queue: "new_ids fresh_run fresh n db \<Longrightarrow> inbox_step db (spawn_run now fresh_run org agent trigger parent wo hops db)"
| claims: "inbox_step db (fst (claim now org i db))"
| lost: "r \<in> set (i_runs db) \<Longrightarrow> ir_status r = ARunning \<Longrightarrow> inbox_step db (reclaim_one now r db)"
| ask: "runs_tool ctx i db \<Longrightarrow> new_ids fresh_run fresh n db \<Longrightarrow> ask_human now fresh ctx question context db = (db1, Parked k)
    \<Longrightarrow> inbox_step db (park_run now i k x db1)"
| consult: "runs_tool ctx i db \<Longrightarrow> new_ids fresh_run fresh n db
    \<Longrightarrow> consult_peer ref_id agents now fresh_run fresh ctx target question db = (db1, Parked k) \<Longrightarrow> inbox_step db (park_run now i k x db1)"
| review: "runs_tool ctx i db \<Longrightarrow> new_ids fresh_run fresh n db
    \<Longrightarrow> convene agents now fresh_run fresh ctx i wo gate digest seats db = (db1, Parked k) \<Longrightarrow> inbox_step db (park_run now i k x db1)"
| permission: "has_run db (ir_org r) (ir_id r) (\<lambda>r. ir_status r = ARunning) \<Longrightarrow> new_ids fresh_run fresh n db
    \<Longrightarrow> inbox_step db (park_for_approval now n r agent tool x db)"
| plan: "has_run db org i (\<lambda>r. ir_status r = ARunning) \<Longrightarrow> new_ids fresh_run fresh n db \<Longrightarrow> ask_the_human n org i db = (db1, Parked k)
    \<Longrightarrow> inbox_step db (park_run now i k x db1)"
| reply: "reply_to_peer now ctx answer db = (db1, res) \<Longrightarrow> inbox_step db db1"
| answer: "inbox_step db (fst (answer_question now org i text by db))"
| declined: "inbox_step db (fst (decline_question now org i reason by db))"
| approved: "inbox_step db (fst (approve now org i by db))"
| denied: "inbox_step db (fst (deny now org i by db))"
| finish: "\<not> is_nonterminal status \<Longrightarrow> inbox_step db (fst (life_finalize now org i status err db))"
| cancelled: "inbox_step db (fst (life_cancel now org i reason db))"

definition empty_inbox :: idb where
  "empty_inbox = \<lparr>i_runs = [], i_questions = [], i_approvals = [], i_notices = [], i_entries = []\<rparr>"

lemma empty_inv: "inbox_inv {} empty_inbox"
  by (simp add: inbox_inv_def keys_ok_def questions_ok_def approvals_ok_def empty_inbox_def List.map_filter_def)

lemma spawn_rows:
  "i_questions (spawn_run now fresh org agent trigger parent wo hops db) = i_questions db"
  "i_approvals (spawn_run now fresh org agent trigger parent wo hops db) = i_approvals db"
  "\<exists>r. i_runs (spawn_run now fresh org agent trigger parent wo hops db) = i_runs db @ [r] \<and> ir_id r = fresh \<and> ir_org r = org \<and> ir_status r = AQueued"
  by (simp_all add: spawn_run_def)

lemma queue_inv:
  assumes "inbox_inv {} db" "new_ids fresh_run fresh n db"
  shows "inbox_inv {} (spawn_run now fresh_run org agent trigger parent wo hops db)"
proof -
  obtain r where r: "i_runs (spawn_run now fresh_run org agent trigger parent wo hops db) = i_runs db @ [r]" "ir_id r = fresh_run" "ir_status r = AQueued"
    using spawn_rows(3) by metis
  show ?thesis
    by (rule spawn_inv [OF assms(1) r(1) spawn_rows(1,2)]) (use r(2,3) assms(2) in \<open>auto simp: new_ids_def\<close>)
qed

lemma claim_inv: "inbox_inv {} db \<Longrightarrow> inbox_inv {} (fst (claim now org i db))"
  by (rule busy_inv [where f = "\<lambda>r. if ir_id r = i \<and> ir_org r = org \<and> ir_status r = AQueued then r\<lparr>ir_status := ARunning, ir_activity := now\<rparr> else r"])
    (auto simp: claim_def Let_def upd_where_def)

lemma reclaim_inv:
  assumes inv: "inbox_inv {} db" and r: "r \<in> set (i_runs db)" "ir_status r = ARunning"
  shows "inbox_inv {} (reclaim_one now r db)"
proof (cases "ir_requeues r \<ge> 1")
  case True
  then show ?thesis using finalize_inv [OF inv] by (simp add: reclaim_one_def is_nonterminal_def)
next
  case False
  define f where "f x = (if ir_id x = ir_id r \<and> ir_status x = ARunning then x\<lparr>ir_requeues := ir_requeues r + 1, ir_status := AQueued, ir_activity := now\<rparr> else x)"
    for x :: irun
  have "x = r" if "x \<in> set (i_runs db)" "ir_id x = ir_id r" for x
    using id_unique [OF keysD(1)] inbox_invD [OF inv] that r(1) by blast
  then have "i_runs (reclaim_one now r db) = map f (i_runs db)"
    using False r(2) by (auto simp: reclaim_one_def upd_where_def f_def)
  moreover have "f x = x \<or> ir_id (f x) = ir_id x \<and> ir_org (f x) = ir_org x \<and> ir_status x \<in> {AQueued, ARunning} \<and> ir_status (f x) \<in> {AQueued, ARunning}" for x
    by (simp add: f_def)
  ultimately show ?thesis
    using busy_inv [OF inv, of f] False by (simp add: reclaim_one_def)
qed


lemma create_rows:
  "i_runs (create_question now fresh org i call by aud msg c target peer wo db) = i_runs db"
  "i_approvals (create_question now fresh org i call by aud msg c target peer wo db) = i_approvals db"
  "\<exists>q. i_questions (create_question now fresh org i call by aud msg c target peer wo db) = i_questions db @ [q] \<and> pend q \<and> q_id q = fresh
     \<and> q_run q = i \<and> q_org q = org \<and> q_call q = call \<and> q_audience q = aud \<and> q_peer q = peer"
  by (simp_all add: create_question_def pend_def)

lemma new_question_id: "new_ids fresh_run fresh n db \<Longrightarrow> q_id q = fresh \<Longrightarrow> set (map q_id [q]) \<inter> set (map q_id (i_questions db)) = {}"
  by (auto simp: new_ids_def)

lemma new_peer:
  assumes "keys_ok db" "new_ids fresh_run fresh n db" "p \<ge> fresh_run"
  shows "p \<notin> set (List.map_filter q_peer (i_questions db))"
proof
  assume "p \<in> set (List.map_filter q_peer (i_questions db))"
  then obtain q where "q \<in> set (i_questions db)" "q_peer q = Some p" by (auto simp: map_filter_def)
  then show False using keysD(6) [OF assms(1)] assms(2,3) by (fastforce simp: has_run_def new_ids_def)
qed

lemma ask_inv:
  assumes inv: "inbox_inv {} db" and t: "runs_tool ctx i db" "new_ids fresh_run fresh n db"
    and a: "ask_human now fresh ctx question context db = (db1, Parked k)"
  shows "inbox_inv {} (park_run now i k x db1)"
proof -
  have i: "tc_run ctx = Some i" "has_run db (tc_org ctx) i (\<lambda>r. ir_status r = ARunning)" using t(1) by (auto simp: runs_tool_def)
  obtain call msg c where k: "k = ''question''"
    and rows: "i_runs db1 = i_runs db" "i_approvals db1 = i_approvals db"
      "i_questions db1 = i_questions (create_question now fresh (tc_org ctx) i call (Some (agt_id (tc_agent ctx))) ''human'' msg c None None (tc_wo ctx) db)"
    using a i(1) by (auto simp: ask_human_def Let_def create_rows(1,2) split: if_splits option.splits)
  obtain q where q: "i_questions db1 = i_questions db @ [q]" "pend q" "q_id q = fresh" "q_run q = i" "q_org q = tc_org ctx" "q_call q = call"
      "q_audience q = ''human''" "q_peer q = None"
    using create_rows(3) rows(3) by metis
  obtain f where f: "parks i k f" "i_runs (park_run now i k x db1) = map f (i_runs db1)" using park_parks by blast
  show ?thesis
    by (rule park_question_inv [OF inv i(2) f(1), where nq = "[q]" and c = call])
      (use f(2) rows q k new_question_id [OF t(2) q(3)] in \<open>simp_all add: park_rows(2,3) List.map_filter_simps\<close>)
qed

lemma consult_form:
  assumes "consult_peer ref_id agents now fresh_run fresh ctx target question db = (db1, Parked k)" "tc_run ctx = Some i"
  shows "\<exists>call msg (peer :: agent) t. k = ''consult'' \<and> db1 = diary ctx t (create_question now fresh (tc_org ctx) i call (Some (agt_id (tc_agent ctx)))
    ''agent'' msg None (Some (agt_id peer)) (Some fresh_run) (tc_wo ctx)
    (spawn_run now fresh_run (tc_org ctx) (agt_id peer) ''consult'' (Some i) (tc_wo ctx) 0 db))"
  using assms unfolding consult_peer_def Let_def by (simp split: if_splits option.splits) (intro exI, erule sym)+

lemma consult_inv:
  assumes inv: "inbox_inv {} db" and t: "runs_tool ctx i db" "new_ids fresh_run fresh n db"
    and a: "consult_peer ref_id agents now fresh_run fresh ctx target question db = (db1, Parked k)"
  shows "inbox_inv {} (park_run now i k x db1)"
proof -
  have i: "tc_run ctx = Some i" "has_run db (tc_org ctx) i (\<lambda>r. ir_status r = ARunning)" using t(1) by (auto simp: runs_tool_def)
  obtain call msg and peer :: agent and t' where k: "k = ''consult''" and form: "db1 = diary ctx t' (create_question now fresh (tc_org ctx) i call
      (Some (agt_id (tc_agent ctx))) ''agent'' msg None (Some (agt_id peer)) (Some fresh_run) (tc_wo ctx)
      (spawn_run now fresh_run (tc_org ctx) (agt_id peer) ''consult'' (Some i) (tc_wo ctx) 0 db))"
    using consult_form [OF a i(1)] by blast
  let ?db = "spawn_run now fresh_run (tc_org ctx) (agt_id peer) ''consult'' (Some i) (tc_wo ctx) 0 db"
  obtain q where q: "i_questions db1 = i_questions db @ [q]" "pend q" "q_id q = fresh" "q_run q = i" "q_org q = tc_org ctx" "q_call q = call"
      "q_audience q = ''agent''" "q_peer q = Some fresh_run"
    using create_rows(3) spawn_rows(1) rows_diary(5) form by metis
  have rows: "i_runs db1 = i_runs ?db" "i_approvals db1 = i_approvals db" by (simp_all add: form create_rows(1,2) spawn_rows(2))
  obtain r where r: "i_runs ?db = i_runs db @ [r]" "ir_id r = fresh_run" "ir_org r = tc_org ctx" "ir_status r = AQueued"
    using spawn_rows(3) by metis
  have peer: "has_run ?db (tc_org ctx) fresh_run (\<lambda>r. ir_status r = AQueued)" using r by (auto simp: has_run_def)
  have inv1: "inbox_inv {} ?db" by (rule queue_inv [OF inv t(2)])
  have keys: "keys_ok db" using inbox_invD [OF inv] by simp
  obtain f where f: "parks i k f" "i_runs (park_run now i k x db1) = map f (i_runs db1)" using park_parks by blast
  show ?thesis
    by (rule park_question_inv [OF inv1 has_run_append [OF r(1) i(2)] f(1), where nq = "[q]" and c = call])
      (use f(2) rows q k peer new_question_id [OF t(2) q(3)] new_peer [OF keys t(2), of fresh_run] in
        \<open>simp_all add: park_rows(2,3) spawn_rows List.map_filter_simps\<close>)
qed

lemma permission_inv:
  assumes inv: "inbox_inv {} db" and t: "has_run db (ir_org r) (ir_id r) (\<lambda>r. ir_status r = ARunning)" "new_ids fresh_run fresh n db"
  shows "inbox_inv {} (park_for_approval now n r agent tool x db)"
proof -
  let ?a = "\<lparr>ia_id = n, ia_org = ir_org r, ia_run = ir_id r, ia_tool = tool, ia_status = ApPending, ia_by = None, ia_at = None\<rparr>"
  let ?d = "db\<lparr>i_approvals := i_approvals db @ [?a]\<rparr>"
  obtain f where f: "parks (ir_id r) ''approval'' f" "i_runs (park_run now (ir_id r) ''approval'' x ?d) = map f (i_runs ?d)" using park_parks by blast
  show ?thesis
    by (rule park_approval_inv [OF inv t(1) f(1), where a = ?a])
      (use f(2) t(2) in \<open>auto simp: park_for_approval_def park_rows(2,3) asked_def new_ids_def\<close>)
qed

lemma plan_inv:
  assumes inv: "inbox_inv {} db" and t: "has_run db org i (\<lambda>r. ir_status r = ARunning)" "new_ids fresh_run fresh n db"
    and a: "ask_the_human n org i db = (db1, Parked k)"
  shows "inbox_inv {} (park_run now i k x db1)"
proof -
  let ?a = "\<lparr>ia_id = n, ia_org = org, ia_run = i, ia_tool = ''submit_plan'', ia_status = ApPending, ia_by = None, ia_at = None\<rparr>"
  have k: "k = ''approval''" "db1 = db\<lparr>i_approvals := i_approvals db @ [?a]\<rparr>" using a by (auto simp: ask_the_human_def)
  obtain f where f: "parks i k f" "i_runs (park_run now i k x db1) = map f (i_runs db1)" using park_parks by blast
  show ?thesis
    by (rule park_approval_inv [OF inv t(1) f(1) [unfolded k(1)], where a = ?a])
      (use f(2) t(2) k in \<open>auto simp: park_rows(2,3) asked_def new_ids_def\<close>)
qed


text \<open>A board: one run and one question for each reviewer, all of the same call.\<close>

lemma reviewers_rows:
  "\<exists>ns nq. i_runs (fold (seat_reviewer now fr f ctx i wo gate) ks db) = i_runs db @ ns
     \<and> i_questions (fold (seat_reviewer now fr f ctx i wo gate) ks db) = i_questions db @ nq
     \<and> i_approvals (fold (seat_reviewer now fr f ctx i wo gate) ks db) = i_approvals db
     \<and> map ir_id ns = map (\<lambda>ka. fr + fst ka) ks \<and> (\<forall>r\<in>set ns. ir_org r = tc_org ctx \<and> ir_status r = AQueued)
     \<and> map q_id nq = map (\<lambda>ka. f + fst ka) ks \<and> map q_peer nq = map (\<lambda>ka. Some (fr + fst ka)) ks
     \<and> (\<forall>q\<in>set nq. pend q \<and> q_run q = i \<and> q_org q = tc_org ctx \<and> q_call q = str_or (tc_call ctx) [] \<and> q_audience q = ''agent'')"
proof (induction ks arbitrary: db)
  case Nil
  then show ?case by simp
next
  case (Cons ka ks)
  obtain k a where ka: "ka = (k, a)" by (cases ka)
  let ?d1 = "spawn_run now (fr + k) (tc_org ctx) (agt_id a) ''consult'' (Some i) (Some (ov_id wo)) 0 db"
  let ?d = "seat_reviewer now fr f ctx i wo gate ka db"
  obtain r where r: "i_runs ?d = i_runs db @ [r]" "ir_id r = fr + k" "ir_org r = tc_org ctx" "ir_status r = AQueued"
    by (simp add: ka seat_reviewer_def create_rows(1) spawn_run_def)
  obtain q where q: "i_questions ?d = i_questions db @ [q]" "pend q" "q_id q = f + k" "q_run q = i" "q_org q = tc_org ctx"
      "q_call q = str_or (tc_call ctx) []" "q_audience q = ''agent''" "q_peer q = Some (fr + k)"
    using create_rows(3) spawn_rows(1) by (simp add: ka seat_reviewer_def create_question_def pend_def spawn_run_def)
  have as: "i_approvals ?d = i_approvals db" by (simp add: ka seat_reviewer_def create_rows(2) spawn_rows(2))
  obtain ns nq where "i_runs (fold (seat_reviewer now fr f ctx i wo gate) ks ?d) = i_runs ?d @ ns"
     "i_questions (fold (seat_reviewer now fr f ctx i wo gate) ks ?d) = i_questions ?d @ nq"
     "i_approvals (fold (seat_reviewer now fr f ctx i wo gate) ks ?d) = i_approvals ?d"
     "map ir_id ns = map (\<lambda>ka. fr + fst ka) ks" "\<forall>r\<in>set ns. ir_org r = tc_org ctx \<and> ir_status r = AQueued"
     "map q_id nq = map (\<lambda>ka. f + fst ka) ks" "map q_peer nq = map (\<lambda>ka. Some (fr + fst ka)) ks"
     "\<forall>q\<in>set nq. pend q \<and> q_run q = i \<and> q_org q = tc_org ctx \<and> q_call q = str_or (tc_call ctx) [] \<and> q_audience q = ''agent''"
    using Cons [of ?d] by blast
  then show ?case using r q as ka
    by (intro exI [of _ "r # ns"] exI [of _ "q # nq"]) simp
qed

lemma map_filter_Some: "map q_peer nq = map (\<lambda>x. Some (g x)) ks \<Longrightarrow> List.map_filter q_peer nq = map g ks"
proof (induction nq arbitrary: ks)
  case (Cons q nq)
  then show ?case by (cases ks) (auto simp: List.map_filter_simps)
qed (simp add: List.map_filter_simps)

lemma review_inv:
  assumes inv: "inbox_inv {} db" and t: "runs_tool ctx i db" "new_ids fresh_run fresh n db"
    and a: "convene agents now fresh_run fresh ctx i wo gate digest seats db = (db1, Parked k)"
  shows "inbox_inv {} (park_run now i k x db1)"
proof -
  have i: "has_run db (tc_org ctx) i (\<lambda>r. ir_status r = ARunning)" using t(1) by (auto simp: runs_tool_def)
  define st where "st = seat_agents (tc_org ctx) agents seats"
  define ks where "ks = zip [0..<length st] (map snd st)"
  have st: "st \<noteq> []" and k: "k = ''consult''"
    and db1: "db1 = add_review_entry (tc_org ctx) (ov_id wo) (convene_marker gate digest (map fst st)) (fold (seat_reviewer now fresh_run fresh ctx i wo gate) ks db)"
    using a by (auto simp: convene_def Let_def st_def ks_def split: if_splits)
  have ksn: "map fst ks = [0..<length st]" "ks \<noteq> []" using st by (simp_all add: ks_def)
  have idx: "map (\<lambda>ka. c + fst ka) ks = map ((+) c) [0..<length st]" for c :: nat
    using arg_cong [OF ksn(1), of "map ((+) c)"] by (simp add: comp_def)
  obtain ns nq where rows: "i_runs db1 = i_runs db @ ns" "i_questions db1 = i_questions db @ nq" "i_approvals db1 = i_approvals db"
    and ns: "map ir_id ns = map ((+) fresh_run) [0..<length st]" "\<forall>r\<in>set ns. ir_org r = tc_org ctx \<and> ir_status r = AQueued"
    and nq: "map q_id nq = map ((+) fresh) [0..<length st]" "map q_peer nq = map (\<lambda>ka. Some (fresh_run + fst ka)) ks"
      "\<forall>q\<in>set nq. pend q \<and> q_run q = i \<and> q_org q = tc_org ctx \<and> q_call q = str_or (tc_call ctx) [] \<and> q_audience q = ''agent''"
    using reviewers_rows [of now fresh_run fresh ctx i wo gate ks db] unfolding idx by (auto simp: db1 add_review_entry_def)
  have pq: "List.map_filter q_peer nq = map ((+) fresh_run) [0..<length st]"
    using map_filter_Some [OF nq(2)] idx by simp
  let ?db = "db\<lparr>i_runs := i_runs db @ ns\<rparr>"
  have nr: "i_runs ?db = i_runs db @ ns" by simp
  have inv1: "inbox_inv {} ?db"
    by (rule spawn_inv [OF inv nr]) (use ns t(2) in \<open>auto simp: new_ids_def distinct_map\<close>)
  have keys: "keys_ok db" using inbox_invD [OF inv] by simp
  obtain f where f: "parks i k f" "i_runs (park_run now i k x db1) = map f (i_runs db1)" using park_parks by blast
  show ?thesis
  proof (rule park_question_inv [OF inv1 has_run_append [OF nr i] f(1), where nq = nq and c = "str_or (tc_call ctx) []"])
    show "nq \<noteq> []" using nq(2) ksn(2) by auto
  next
    fix q assume q: "q \<in> set nq"
    have "q_peer q \<in> set (map q_peer nq)" using q by simp
    then have "q_peer q \<noteq> None" unfolding nq(2) by auto
    then show "pend q \<and> q_run q = i \<and> q_org q = tc_org ctx \<and> q_call q = str_or (tc_call ctx) [] \<and> (q_audience q = ''agent'' \<longrightarrow> q_peer q \<noteq> None)"
      using nq(3) q by blast
    fix p assume "q_peer q = Some p"
    then have "p \<in> set (List.map_filter q_peer nq)" using q by (force simp: map_filter_def)
    then have "p \<in> set (map ir_id ns)" unfolding pq ns(1) .
    then show "has_run ?db (tc_org ctx) p (\<lambda>r. ir_status r = AQueued)" using ns(2) by (auto simp: has_run_def)
  next
    show "distinct (map q_id nq)" unfolding nq(1) by (simp add: distinct_map)
    show "set (map q_id nq) \<inter> set (map q_id (i_questions ?db)) = {}" unfolding nq(1) using t(2) by (auto simp: new_ids_def)
    show "distinct (List.map_filter q_peer nq)" unfolding pq by (simp add: distinct_map)
    show "set (List.map_filter q_peer nq) \<inter> set (List.map_filter q_peer (i_questions ?db)) = {}"
      unfolding pq using new_peer [OF keys t(2)] by auto
  qed (use f(2) rows k in \<open>simp_all add: park_rows(2,3)\<close>)
qed


lemma settle_one_inv:
  assumes inv: "inbox_inv {} db" and q: "q \<in> set (i_questions db)" "q_org q = org" "pend q"
  shows "inbox_inv {} (fst (record_answer now org q answer prof agent by db))" "inbox_inv {} (fst (decline now org q reason prof db))"
  using settled_inv [OF inv q(1,3,2)] record_answer_rows [OF _ q(1,3)] decline_rows [OF _ q(1,3)] inbox_invD [OF inv] by auto

lemma not_open: "\<not> pend q \<Longrightarrow> fst (record_answer now org q answer prof agent by db) = db" "\<not> pend q \<Longrightarrow> fst (decline now org q reason prof db) = db"
  by (simp_all add: record_answer_def record_answer_seen_def decline_def pend_def)

lemma human_question_Some: "human_question org i db = Inr q \<Longrightarrow> q \<in> set (i_questions db) \<and> q_id q = i \<and> q_org q = org \<and> q_audience q = ''human''"
  by (auto simp: human_question_def question_get_def split: option.splits if_splits dest: find_SomeD)

lemma answer_inv: "inbox_inv {} db \<Longrightarrow> inbox_inv {} (fst (answer_question now org i text by db))"
  by (cases "human_question org i db"; cases "pend (projr (human_question org i db))")
    (auto simp: answer_question_def not_open settle_one_inv dest: human_question_Some)

lemma declined_inv: "inbox_inv {} db \<Longrightarrow> inbox_inv {} (fst (decline_question now org i reason by db))"
  by (cases "human_question org i db"; cases "pend (projr (human_question org i db))")
    (auto simp: decline_question_def not_open settle_one_inv dest: human_question_Some)

lemma reply_inv:
  assumes inv: "inbox_inv {} db" and r: "reply_to_peer now ctx answer db = (db1, res)"
  shows "inbox_inv {} db1"
proof (cases "strip answer \<noteq> [] \<and> (\<exists>i q. tc_run ctx = Some i \<and> pending_for_peer_run (tc_org ctx) i db = Some q)")
  case False
  then have "db1 = db" using r by (auto simp: reply_to_peer_def Let_def split: option.splits if_splits)
  then show ?thesis using inv by simp
next
  case True
  then obtain i q where i: "tc_run ctx = Some i" "pending_for_peer_run (tc_org ctx) i db = Some q" by blast
  then have q: "q \<in> set (i_questions db)" "q_org q = tc_org ctx" "pend q"
    by (auto simp: pending_for_peer_run_def pend_def dest: find_SomeD)
  let ?d = "fst (record_answer now (tc_org ctx) q (strip answer) None (Some (agt_id (tc_agent ctx))) (Some (agt_name (tc_agent ctx))) db)"
  have "db1 = diary ctx (''Answered the consult: '' @ strip answer) (record_verdict ctx q (strip answer) ?d)"
    using r True i by (auto simp: reply_to_peer_def Let_def split: prod.splits if_splits)
  then have "inbox_inv {} db1 = inbox_inv {} ?d" by (intro same_rows) simp_all
  then show ?thesis using settle_one_inv(1) [OF inv q] by simp
qed

lemma step_inv: "inbox_step db db' \<Longrightarrow> inbox_inv {} db \<Longrightarrow> inbox_inv {} db'"
  by (induction rule: inbox_step.induct)
    (erule (1) queue_inv, erule claim_inv, erule (2) reclaim_inv, rule ask_inv, assumption+, rule consult_inv, assumption+,
     rule review_inv, assumption+, rule permission_inv, assumption+, rule plan_inv, assumption+, erule (1) reply_inv,
     erule answer_inv, erule declined_inv, erule approve_inv, erule deny_inv, erule (1) finalize_inv, erule cancel_inv)

lemma reachable_inv: "inbox_step\<^sup>*\<^sup>* empty_inbox db \<Longrightarrow> inbox_inv {} db"
  by (induction rule: rtranclp_induct) (auto intro: empty_inv step_inv)

text \<open>
  C16. A run never waits for nobody. After any sequence of tool calls, decisions, claims, endings and cancellations, a run that
  waits has an open approval, an open question to a person, or an open question to an agent whose own run has not ended.
\<close>

theorem waiting_run_is_owed:
  assumes "inbox_step\<^sup>*\<^sup>* empty_inbox db" "r \<in> set (i_runs db)" "ir_status r = AWaiting"
  shows "(\<exists>a\<in>set (i_approvals db). ia_run a = ir_id r \<and> ia_status a = ApPending)
    \<or> (\<exists>q\<in>set (i_questions db). q_run q = ir_id r \<and> q_status q = QPending
        \<and> (q_audience q \<noteq> ''agent'' \<or> (\<exists>p\<in>set (i_runs db). q_peer q = Some (ir_id p) \<and> is_nonterminal (ir_status p))))"
proof -
  have d: "keys_ok db" "questions_ok {} db" "approvals_ok db" using inbox_invD [OF reachable_inv [OF assms(1)]] by auto
  show ?thesis
  proof (cases "ir_wait r = Some ''approval''")
    case True
    then show ?thesis using approvals_okD(1) [OF d(3) assms(2)] assms(3) by (auto simp: awaits_approval_def asked_def)
  next
    case False
    then obtain q where q: "q \<in> set (i_questions db)" "pend q" "q_run q = ir_id r"
      using questions_okD(2) [OF d(2) assms(2)] assms(3) by (auto simp: awaits_answer_def)
    moreover have "\<exists>p\<in>set (i_runs db). q_peer q = Some (ir_id p) \<and> is_nonterminal (ir_status p)" if "q_audience q = ''agent''"
      using keysD(7) [OF d(1) q(1) that] questions_okD(3) [OF d(2) q(1,2)] by (auto simp: has_run_def ended_def)
    ultimately show ?thesis by (auto simp: pend_def)
  qed
qed


lemma has_run_get: "has_run db org i P \<Longrightarrow> \<exists>r. irun_get org i db = Some r"
  using irun_get_None [of org i db P] by (cases "irun_get org i db") auto

text \<open>
  C17. Nothing is asked of the inbox in vain: after any sequence of steps, an open question belongs to a run of its organization
  that still waits, so an answer has somewhere to go, and the agent it was put to still has a run.
\<close>

theorem open_question_is_awaited:
  assumes "inbox_step\<^sup>*\<^sup>* empty_inbox db" "q \<in> set (i_questions db)" "q_status q = QPending"
  shows "\<exists>r\<in>set (i_runs db). ir_id r = q_run q \<and> ir_org r = q_org q \<and> ir_status r = AWaiting
    \<and> (q_audience q = ''agent'' \<longrightarrow> (\<exists>p\<in>set (i_runs db). q_peer q = Some (ir_id p) \<and> ir_org p = q_org q \<and> is_nonterminal (ir_status p)))"
proof -
  have d: "keys_ok db" "questions_ok {} db" using inbox_invD [OF reachable_inv [OF assms(1)]] by auto
  have p: "pend q" using assms(3) by (simp add: pend_def)
  have "\<exists>p\<in>set (i_runs db). q_peer q = Some (ir_id p) \<and> ir_org p = q_org q \<and> is_nonterminal (ir_status p)" if "q_audience q = ''agent''"
    using keysD(7) [OF d(1) assms(2) that] questions_okD(3) [OF d(2) assms(2) p] by (auto simp: has_run_def ended_def)
  then show ?thesis using questions_okD(1) [OF d(2) assms(2) p] by (auto simp: has_run_def awaits_answer_def)
qed

text \<open>
  C18. A person's answer reaches the run that asked. Whatever happened before, answering an open question that stands alone in its
  call puts the asking run back in the queue with the answer as the result of exactly that call, and says that it was delivered.
\<close>

theorem answer_reaches_asker:
  assumes reach: "inbox_step\<^sup>*\<^sup>* empty_inbox db" and q: "human_question org i db = Inr q" "q_status q = QPending" "siblings org q db = []"
  shows "\<exists>r. irun_get org (q_run q) (fst (answer_question now org i text by db)) = Some r \<and> ir_status r = AQueued \<and> ir_wait r = None
    \<and> dget (rs_answers (resume_of r)) (q_call q) = Some (JObj [(''answered_by'', JStr ''a human''), (''answer'', JStr text)])
    \<and> snd (answer_question now org i text by db) = Inr True"
proof -
  have d: "keys_ok db" "questions_ok {} db" using inbox_invD [OF reachable_inv [OF reach]] by auto
  note h = human_question_Some [OF q(1)]
  have w: "has_run db org (q_run q) awaits_answer" using questions_okD(1) [OF d(2)] h q(2) by (auto simp: pend_def)
  from has_run_get [OF this] obtain r where r: "irun_get org (q_run q) db = Some r" by blast
  note rr = irun_get_Some [OF r]
  have "ir_status r = AWaiting" using has_run_unique [OF d(1) w, of r] rr by (simp add: awaits_answer_def)
  let ?q = "q\<lparr>q_status := QAnswered, q_answer := Some text, q_profile := by, q_agent := None, q_answered := Some now\<rparr>"
  let ?v = "[(''answered_by'', JStr ''a human''), (''answer'', JStr text)]"
  let ?w = "r\<lparr>ir_resume := Some (resume_of r\<lparr>rs_answers := dset (rs_answers (resume_of r)) (q_call q) (JObj ?v)\<rparr>),
      ir_status := AQueued, ir_wait := None, ir_activity := now\<rparr>"
  have g: "irun_get org (q_run q) (put_question ?q db) = Some r" using r by (simp add: irun_get_def)
  have i: "inject_answer now org ?q ?v [] (put_question ?q db) = (put_irun ?w (put_question ?q db), True)"
    using g \<open>ir_status r = AWaiting\<close> by (simp add: inject_answer_def Let_def)
  have res: "answer_question now org i text by db
      = (close_question_notice org (q_run q) (diary_the_answer org ?q text True (put_question ?q (put_irun ?w (put_question ?q db)))), Inr True)"
    using q i by (simp add: answer_question_def record_answer_def record_answer_seen_def str_or_def Let_def)
  have "find (\<lambda>x. ir_id x = q_run q \<and> ir_org x = org) (map (\<lambda>x. if ir_id x = ir_id r then ?w else x) (i_runs db)) = Some ?w"
  proof -
    have "find (\<lambda>x. ir_id x = q_run q \<and> ir_org x = org) (map (\<lambda>x. if ir_id x = ir_id r then ?w else x) xs) = Some ?w" if "r \<in> set xs" for xs
      using that rr by (induction xs) auto
    then show ?thesis using rr by blast
  qed
  then have "irun_get org (q_run q) (fst (answer_question now org i text by db)) = Some ?w"
    by (simp add: res irun_get_def) (simp add: put_irun_def)
  then show ?thesis by (simp add: res resume_of_def)
qed


subsection \<open>A run that asks\<close>

definition asking_agent :: agent where
  "asking_agent = \<lparr>agt_id = 5, agt_org = 1, agt_name = ''ann'', agt_kind = ''operator'', agt_supervisor = None, agt_enabled = True, agt_grants = JNull\<rparr>"

definition asking_ctx :: tool_ctx where
  "asking_ctx = \<lparr>tc_org = 1, tc_agent = asking_agent, tc_run = Some 1, tc_call = Some ''c1'', tc_wo = None\<rparr>"

definition claimed_inbox :: idb where
  "claimed_inbox = fst (claim 11 1 1 (spawn_run 10 1 1 5 ''manual'' None None 0 empty_inbox))"

definition asked_inbox :: idb where
  "asked_inbox = park_run 12 1 ''question'' no_resume
     (fst (ask_human 12 1 asking_ctx ''Which budget?'' '''' claimed_inbox))"

lemma claimed_ready: "runs_tool asking_ctx 1 claimed_inbox" "new_ids 2 1 1 claimed_inbox"
  by (simp_all add: runs_tool_def has_run_def new_ids_def claimed_inbox_def claim_def spawn_run_def empty_inbox_def asking_ctx_def upd_where_def Let_def)

lemma claimed_asks_none: "count_for_run 1 1 ''human'' claimed_inbox = 0" "strip ''Which budget?'' = ''Which budget?''" "strip [] = []"
  by code_simp+

lemma asked_call:
  "ask_human 12 1 asking_ctx ''Which budget?'' '''' claimed_inbox = (diary asking_ctx (''Asked a human: '' @ ''Which budget?'')
     (create_notification 1 ''question'' (''ann'' @ '' has a question for you'') ''Which budget?'' 1 None (Some ''org_admin'')
       (create_question 12 1 1 1 ''c1'' (Some 5) ''human'' ''Which budget?'' None None None None claimed_inbox)), Parked ''question'')"
  unfolding ask_human_def claimed_asks_none Let_def
  using claimed_asks_none(1) by (simp add: asking_ctx_def asking_agent_def MAX_HUMAN_QUESTIONS_PER_RUN_def)

lemma three_steps: "inbox_step a b \<Longrightarrow> inbox_step b c \<Longrightarrow> inbox_step c d \<Longrightarrow> inbox_step\<^sup>*\<^sup>* a d"
  by (meson r_into_rtranclp rtranclp_trans)

lemma asked_reachable: "inbox_step\<^sup>*\<^sup>* empty_inbox asked_inbox"
proof (rule three_steps)
  show "inbox_step empty_inbox (spawn_run 10 1 1 5 ''manual'' None None 0 empty_inbox)"
    by (rule inbox_step.queue [of 1 1 1]) (simp add: new_ids_def empty_inbox_def)
  show "inbox_step (spawn_run 10 1 1 5 ''manual'' None None 0 empty_inbox) claimed_inbox"
    unfolding claimed_inbox_def by (rule claims)
  show "inbox_step claimed_inbox asked_inbox"
    unfolding asked_inbox_def asked_call fst_conv by (rule inbox_step.ask [OF claimed_ready asked_call])
qed

lemma claimed_rows:
  "\<exists>r. i_runs claimed_inbox = [r] \<and> ir_id r = 1 \<and> ir_status r = ARunning" "i_questions claimed_inbox = []"
  by (simp_all add: claimed_inbox_def claim_def spawn_run_def empty_inbox_def upd_where_def Let_def)

lemma asked_rows:
  "\<exists>r. i_runs asked_inbox = [r] \<and> ir_id r = 1 \<and> ir_status r = AWaiting"
  "\<exists>q. i_questions asked_inbox = [q] \<and> q_id q = 1 \<and> q_org q = 1 \<and> q_run q = 1 \<and> q_call q = ''c1'' \<and> q_audience q = ''human'' \<and> q_status q = QPending"
  unfolding asked_inbox_def asked_call fst_conv park_rows rows_diary rows_notice create_rows(1)
  using claimed_rows by (auto simp: create_question_def)

theorem waiting_run_is_owed_witness:
  "(\<exists>a\<in>set (i_approvals asked_inbox). ia_run a = 1 \<and> ia_status a = ApPending)
    \<or> (\<exists>q\<in>set (i_questions asked_inbox). q_run q = 1 \<and> q_status q = QPending
        \<and> (q_audience q \<noteq> ''agent'' \<or> (\<exists>p\<in>set (i_runs asked_inbox). q_peer q = Some (ir_id p) \<and> is_nonterminal (ir_status p))))"
proof -
  obtain r where r: "i_runs asked_inbox = [r]" "ir_id r = 1" "ir_status r = AWaiting" using asked_rows(1) by blast
  then have "r \<in> set (i_runs asked_inbox)" by simp
  from waiting_run_is_owed [OF asked_reachable this r(3)] show ?thesis unfolding r(2) .
qed

theorem open_question_is_awaited_witness:
  "\<exists>r\<in>set (i_runs asked_inbox). ir_id r = 1 \<and> ir_status r = AWaiting"
proof -
  obtain q where q: "i_questions asked_inbox = [q]" "q_run q = 1" "q_status q = QPending" using asked_rows(2) by blast
  then have "q \<in> set (i_questions asked_inbox)" by simp
  from open_question_is_awaited [OF asked_reachable this q(3)] show ?thesis unfolding q(2) by blast
qed

theorem answer_reaches_asker_witness:
  "\<exists>r. irun_get 1 1 (fst (answer_question 20 1 1 ''the small one'' (Some 9) asked_inbox)) = Some r \<and> ir_status r = AQueued
    \<and> dget (rs_answers (resume_of r)) ''c1'' = Some (JObj [(''answered_by'', JStr ''a human''), (''answer'', JStr ''the small one'')])"
proof -
  obtain q where i: "i_questions asked_inbox = [q]" and q: "q_id q = 1" "q_org q = 1" "q_run q = 1" "q_call q = ''c1''"
      "q_audience q = ''human''" "q_status q = QPending" using asked_rows(2) by blast
  have "human_question 1 1 asked_inbox = Inr q" "siblings 1 q asked_inbox = []"
    by (simp_all add: human_question_def question_get_def siblings_def i q)
  from answer_reaches_asker [OF asked_reachable this(1) q(6) this(2), of 20 "''the small one''" "Some 9"] show ?thesis unfolding q(3,4) by blast
qed


subsection \<open>Overlapping transactions and what is left behind\<close>

definition board_question :: "nat \<Rightarrow> nat \<Rightarrow> question" where
  "board_question i peer = \<lparr>q_id = i, q_org = 1, q_run = 1, q_call = ''c1'', q_asked_by = Some 5, q_audience = ''agent'', q_target = Some peer,
     q_peer = Some peer, q_wo = None, q_text = ''review'', q_context = None, q_answer = None, q_status = QPending, q_profile = None,
     q_agent = None, q_answered = None, q_created = 1\<rparr>"

definition board_run :: "nat \<Rightarrow> agent_status \<Rightarrow> string option \<Rightarrow> irun" where
  "board_run i s w = \<lparr>ir_id = i, ir_org = 1, ir_agent = 5, ir_status = s, ir_trigger = ''manual'', ir_wait = w, ir_resume = None, ir_requeues = 0,
     ir_parent = None, ir_wo = None, ir_hops = 0, ir_error = None, ir_activity = 1\<rparr>"

definition board_inbox :: idb where
  "board_inbox = \<lparr>i_runs = [board_run 1 AWaiting (Some ''consult''), board_run 2 ARunning None, board_run 3 ARunning None],
     i_questions = [board_question 10 2, board_question 11 3], i_approvals = [], i_notices = [], i_entries = []\<rparr>"

lemmas board_defs = board_inbox_def board_question_def board_run_def record_answer_seen_def record_answer_def inject_answer_def irun_get_def
  put_question_def put_irun_def close_question_notice_def settle_notifications_def diary_the_answer_def siblings_def upd_where_def Let_def

text \<open>Two reviewers that answer at the same time each see the other's question still open: both are settled and the asker waits on.\<close>

theorem overlapping_replies_strand_asker:
  "let first = fst (record_answer_seen [board_question 11 3] 5 1 (board_question 10 2) ''PASS'' None (Some 2) (Some ''ann'') board_inbox);
       both = fst (record_answer_seen [board_question 10 2] 5 1 (board_question 11 3) ''PASS'' None (Some 3) (Some ''bob'') first)
   in map ir_status (i_runs both) = [AWaiting, ARunning, ARunning] \<and> list_all (\<lambda>q. \<not> pend q) (i_questions both)"
  by (simp add: board_defs pend_def)

text \<open>The first of two reviewers is told that nobody waits for its answer, although the asker receives it with the second.\<close>

theorem early_reply_reported_lost:
  "snd (record_answer 5 1 (board_question 10 2) ''PASS'' None (Some 2) (Some ''ann'') board_inbox) = Inr False
   \<and> map q_status (i_questions (fst (record_answer 5 1 (board_question 10 2) ''PASS'' None (Some 2) (Some ''ann'') board_inbox))) = [QVoided, QPending]"
  by (simp add: board_defs)

text \<open>A run cancelled while its executor is parking it waits again afterwards.\<close>

theorem parking_revives_cancelled_run:
  "map ir_status (i_runs (fst (life_cancel 8 1 1 ''stop'' claimed_inbox))) = [ACancelled]
   \<and> map ir_status (i_runs (park_run 9 1 ''question'' no_resume (fst (life_cancel 8 1 1 ''stop'' claimed_inbox)))) = [AWaiting]"
  by (simp add: claimed_inbox_def claim_def spawn_run_def empty_inbox_def upd_where_def Let_def life_cancel_def end_run_def irun_open_def
      is_nonterminal_def settle_questions_def settle_for_peer_run_def pending_for_peer_run_def void_open_questions_def
      close_question_notice_def settle_notifications_def cancel_orphaned_consults_def List.map_filter_def park_run_def)

text \<open>Cancelling a run that waits for permission settles the approval and leaves the notice that asks for it.\<close>

definition permission_inbox :: idb where
  "permission_inbox = park_for_approval 5 7 (board_run 1 ARunning None) ''ann'' ''delete'' no_resume
     \<lparr>i_runs = [board_run 1 ARunning None], i_questions = [], i_approvals = [], i_notices = [], i_entries = []\<rparr>"

theorem cancel_leaves_approval_notice:
  "map ia_status (i_approvals (fst (life_cancel 8 1 1 ''stop'' permission_inbox))) = [ApVoided]
   \<and> map nt_status (i_notices (fst (life_cancel 8 1 1 ''stop'' permission_inbox))) = [''unread'']"
  by (simp add: permission_inbox_def board_run_def park_for_approval_def create_notification_def upd_where_def Let_def life_cancel_def
      end_run_def irun_open_def is_nonterminal_def settle_questions_def settle_for_peer_run_def pending_for_peer_run_def
      void_open_questions_def close_question_notice_def settle_notifications_def cancel_orphaned_consults_def List.map_filter_def park_run_def)

text \<open>A board none of whose seats the organization staffs lets the submission through.\<close>

theorem unstaffed_board_clears:
  assumes "gate_of gate (wo_texts (tc_org ctx) (ov_id wo) db) (fingerprint sha summary) (board_for wo boards (Some (agt_name (tc_agent ctx)))) = Convene s"
    and "seat_agents (tc_org ctx) agents s = []"
  shows "review_submission sha boards agents now fresh_run fresh ctx i wo gate summary db = (db, None)"
  using assms by (simp add: review_submission_def convene_def Let_def)


end
