(* ===== verification/Review_Board_Props.thy ===== *)
theory Review_Board_Props
  imports Review_Board
begin

section \<open>The review board: what its markers say\<close>

text \<open>
  A round is written into the diary as text and read back from it. Shown here: the board never seats the author, a
  verdict is the first line that declares one, a round written with the markers is read back as the reviewers filed it, and
  the gate follows from that.
\<close>

subsection \<open>Finding a text inside another\<close>

lemma take_all_prefix: "take (length p) (p @ s) = p"
  by simp

lemma substring_here: "substring p (p @ s)"
  by (cases "p @ s") (use take_all_prefix [of p s] in auto)

lemma substring_appendI: "substring p s \<Longrightarrow> substring p (a @ s)"
  by (induction a) auto

lemma substring_mid [intro]: "substring p (a @ p @ b)"
  by (rule substring_appendI [OF substring_here])

lemma substring_skip: "p = c # p' \<Longrightarrow> c \<notin> set a \<Longrightarrow> substring p (a @ s) = substring p s"
  by (induction a) auto

lemma substring_absent: "p = c # p' \<Longrightarrow> c \<notin> set s \<Longrightarrow> \<not> substring p s"
  by (induction s) auto

lemma substring_set: "substring p s \<Longrightarrow> set p \<subseteq> set s"
proof (induction s)
  case Nil
  then show ?case by simp
next
  case (Cons c s)
  then show ?case
    by (metis set_subset_Cons set_take_subset subset_trans substring.simps(2))
qed

declare after_first.simps [simp del]

lemma after_first_here: "after_first p (p @ s) = Some s"
  by (subst after_first.simps) (simp add: starts_with_def)

lemma after_first_later: "p = c # p' \<Longrightarrow> d \<noteq> c \<Longrightarrow> after_first p (d # s) = after_first p s"
  by (subst after_first.simps) (simp add: starts_with_def)

lemma after_first_skip: "p = c # p' \<Longrightarrow> c \<notin> set a \<Longrightarrow> after_first p (a @ p @ s) = Some s"
proof (induction a)
  case Nil
  then show ?case using after_first_here [of p s] by simp
next
  case (Cons d a)
  then have "after_first p (d # (a @ p @ s)) = after_first p (a @ p @ s)"
    by (intro after_first_later) auto
  with Cons show ?case by simp
qed

subsection \<open>Names in a list\<close>

definition seat_name :: "string \<Rightarrow> bool" where
  "seat_name n \<longleftrightarrow> n \<noteq> [] \<and> list_all name_char n"

lemma name_char_plain: "name_char c \<Longrightarrow> \<not> is_space c \<and> c \<noteq> CHR '',''"
  by (auto simp: name_char_def is_space_def is_digit_def Let_def char_code_def)

lemma strip_plain: "list_all (\<lambda>c. \<not> is_space c) s \<Longrightarrow> strip s = s"
proof -
  assume a: "list_all (\<lambda>c. \<not> is_space c) s"
  have d: "list_all (\<lambda>c. \<not> is_space c) xs \<Longrightarrow> dropWhile is_space xs = xs" for xs
    by (cases xs) auto
  show ?thesis using d [OF a] d [of "rev s"] a by (simp add: strip_def list_all_iff)
qed

lemma strip_space: "strip (CHR '' '' # s) = strip s"
  by (simp add: strip_def is_space_def char_code_def)

lemma seat_name_strip: "seat_name n \<Longrightarrow> strip n = n"
  by (rule strip_plain) (auto simp: seat_name_def list_all_iff dest: name_char_plain)

lemma seat_name_no_comma: "seat_name n \<Longrightarrow> CHR '','' \<notin> set n"
  by (auto simp: seat_name_def list_all_iff dest: name_char_plain)

lemma split_names:
  assumes "list_all seat_name ns" "ns \<noteq> []"
  shows "map strip (split_on (CHR '','') (CHR '' '' # join_with '', '' ns)) = ns"
  using assms
proof (induction ns rule: induct_list012)
  case (2 n)
  then have "split_on (CHR '','') (CHR '' '' # n) = [CHR '' '' # n]"
    by (intro split_on_no_sep) (auto dest: seat_name_no_comma)
  then show ?case using 2 by (simp add: strip_space seat_name_strip)
next
  case (3 n m ns)
  have "split_on (CHR '','') ((CHR '' '' # n) @ CHR '','' # (CHR '' '' # join_with '', '' (m # ns)))
      = (CHR '' '' # n) # split_on (CHR '','') (CHR '' '' # join_with '', '' (m # ns))"
    using 3 by (intro split_on_append) (auto dest: seat_name_no_comma)
  then show ?case using 3 by (simp add: strip_space seat_name_strip)
qed simp

lemma seats_from_text:
  assumes "list_all seat_name ns"
  shows "filter (\<lambda>n. n \<noteq> []) (map strip (split_on (CHR '','') (CHR '' '' # join_with '', '' ns))) = ns"
proof (cases "ns = []")
  case True
  then show ?thesis by (simp add: strip_space strip_plain)
next
  case False
  show ?thesis by (subst split_names [OF assms False]) (use assms in \<open>auto simp: filter_id_conv list_all_iff seat_name_def\<close>)
qed

subsection \<open>Reading a marker\<close>

lemmas board_text = BOARD_SIGN_def CONVENED_def VERDICT_def PASSED_def RELEASED_def PASS_TOKEN_def FAIL_TOKEN_def EM_DASH_def
  chr_of_def

definition hex_digest :: "string \<Rightarrow> bool" where
  "hex_digest d \<longleftrightarrow> length d = 16 \<and> list_all is_hex d"

lemma find_digest_skip: "CHR ''('' \<notin> set a \<Longrightarrow> find_digest (a @ s) = find_digest s"
  by (induction a) auto

lemma find_digest_here: "hex_digest d \<Longrightarrow> find_digest (CHR ''('' # d @ CHR '')'' # s) = Some d"
  by (simp add: hex_digest_def starts_with_def)

lemma name_char_codes: "name_char c \<Longrightarrow> char_code c \<noteq> 40 \<and> char_code c \<noteq> 91 \<and> char_code c \<noteq> 226 \<and> char_code c \<noteq> 32"
  by (auto simp: name_char_def is_digit_def Let_def)

lemma hex_codes: "is_hex c \<Longrightarrow> char_code c \<noteq> 40 \<and> char_code c \<noteq> 91 \<and> char_code c \<noteq> 226 \<and> char_code c \<noteq> 41"
  by (auto simp: is_hex_def is_digit_def)

lemma no_code: "(\<And>x. x \<in> set s \<Longrightarrow> char_code x \<noteq> char_code c) \<Longrightarrow> c \<notin> set s"
  by auto

lemma convene_opens: "opens_round gate (convene_marker gate d seats)"
proof -
  have "convene_marker gate d seats = BOARD_SIGN @ (CONVENED @ '' '' @ gate @ '' '')
      @ (''('' @ d @ '') '' @ EM_DASH @ '' '' @ join_with '', '' (map seat_agent seats))"
    by (simp add: convene_marker_def)
  then show ?thesis using substring_mid unfolding opens_round_def by metis
qed

lemma convene_counts: "substring CONVENED (convene_marker gate d seats)"
  unfolding convene_marker_def by (rule substring_mid)

lemma convene_digest:
  assumes "list_all name_char gate" "hex_digest d"
  shows "find_digest (convene_marker gate d seats) = Some d"
proof -
  have "CHR ''('' \<notin> set (BOARD_SIGN @ CONVENED @ '' '' @ gate @ '' '')"
  proof (rule no_code)
    fix x assume "x \<in> set (BOARD_SIGN @ CONVENED @ '' '' @ gate @ '' '')"
    then show "char_code x \<noteq> char_code CHR ''(''"
      using assms(1) name_char_codes by (auto simp: board_text list_all_iff char_code_def)
  qed
  then have "find_digest ((BOARD_SIGN @ CONVENED @ '' '' @ gate @ '' '') @ (CHR ''('' # d @ CHR '')''
      # ('' '' @ EM_DASH @ '' '' @ join_with '', '' (map seat_agent seats)))) = Some d"
    by (rule trans [OF find_digest_skip find_digest_here [OF assms(2)]])
  then show ?thesis by (simp add: convene_marker_def)
qed

lemma EM_DASH_Cons: "EM_DASH = chr_of 226 # map chr_of [128, 148]"
  by (simp add: EM_DASH_def)

lemma convene_seats:
  assumes "list_all name_char gate" "hex_digest d"
  shows "after_first EM_DASH (convene_marker gate d seats) = Some (CHR '' '' # join_with '', '' (map seat_agent seats))"
proof -
  let ?a = "BOARD_SIGN @ CONVENED @ '' '' @ gate @ '' ('' @ d @ '') ''"
  have "chr_of 226 \<notin> set ?a"
  proof (rule no_code)
    fix x assume "x \<in> set ?a"
    then show "char_code x \<noteq> char_code (chr_of 226)"
      using assms name_char_codes hex_codes
      by (auto simp: board_text list_all_iff char_code_def hex_digest_def)
  qed
  from after_first_skip [OF EM_DASH_Cons this] show ?thesis by (simp add: convene_marker_def)
qed

lemma verdict_here_other: "c \<noteq> CHR ''P'' \<Longrightarrow> c \<noteq> CHR ''F'' \<Longrightarrow> verdict_here (c # s) = None"
  by (simp add: verdict_here_def PASS_TOKEN_def FAIL_TOKEN_def Let_def)

lemma find_verdict_skip:
  "CHR ''P'' \<notin> set a \<Longrightarrow> CHR ''F'' \<notin> set a \<Longrightarrow> find_verdict b (a @ CHR '' '' # s) = find_verdict True s"
proof (induction a arbitrary: b)
  case Nil
  then show ?case by (simp add: verdict_here_other word_char_def is_digit_def char_code_def)
next
  case (Cons c a)
  then show ?case by (cases b) (auto simp: verdict_here_other)
qed

lemma colon_ends_name: "\<not> name_char (CHR '':'')"
  by (simp add: name_char_def is_digit_def char_code_def)

lemma verdict_here_marker:
  assumes "v = PASS_TOKEN \<or> v = FAIL_TOKEN" "seat_name w"
  shows "verdict_here (v @ '' by '' @ w @ CHR '':'' # s) = Some (w, v)"
proof -
  obtain c w' where w: "w = c # w'" using assms(2) by (cases w) (auto simp: seat_name_def)
  have "takeWhile name_char (w @ CHR '':'' # s) = w"
    using assms(2) by (simp add: takeWhile_append2 seat_name_def list_all_iff colon_ends_name)
  moreover have "\<not> is_space c" using assms(2) w by (auto simp: seat_name_def dest: name_char_plain)
  ultimately show ?thesis
    using assms(1) w by (auto simp: verdict_here_def PASS_TOKEN_def FAIL_TOKEN_def is_space_def char_code_def Let_def starts_with_def)
qed

lemma verdict_entry:
  assumes "v = PASS_TOKEN \<or> v = FAIL_TOKEN" "seat_name w"
  shows "entry_verdict seats (verdict_marker w v note) = (if w \<in> set seats then Some (w, v) else None)"
proof -
  have s: "substring VERDICT (verdict_marker w v note)"
    unfolding verdict_marker_def by (rule substring_mid)
  have "find_verdict True ((BOARD_SIGN @ VERDICT) @ CHR '' '' # (v @ '' by '' @ w @ CHR '':'' # CHR '' '' # note))
      = find_verdict True (v @ '' by '' @ w @ CHR '':'' # CHR '' '' # note)"
    by (rule find_verdict_skip; rule no_code) (auto simp: board_text char_code_def)
  also have "\<dots> = Some (w, v)"
    using verdict_here_marker [OF assms] assms(1) by (cases v) (auto simp: PASS_TOKEN_def FAIL_TOKEN_def)
  finally show ?thesis using s by (simp add: entry_verdict_def verdict_marker_def)
qed

subsection \<open>A round\<close>

text \<open>What follows a convening in the diary: verdicts of reviewers and any other entries.\<close>

datatype filing = Remark string | Filed string string string

fun filing_text :: "filing \<Rightarrow> string" where
  "filing_text (Remark t) = t"
| "filing_text (Filed who v note) = verdict_marker who v note"

fun filing_ok :: "filing \<Rightarrow> bool" where
  "filing_ok (Remark t) = (\<not> substring VERDICT t)"
| "filing_ok (Filed who v note) = ((v = PASS_TOKEN \<or> v = FAIL_TOKEN) \<and> seat_name who)"

fun filed :: "filing \<Rightarrow> (string \<times> string) option" where
  "filed (Remark t) = None"
| "filed (Filed who v note) = Some (who, v)"

text \<open>The round as the reviewers see it: the last verdict of each seat.\<close>

definition last_verdict :: "string \<Rightarrow> filing list \<Rightarrow> string option" where
  "last_verdict who fs = map_of (rev (List.map_filter filed fs)) who"

definition round_outcome :: "string list \<Rightarrow> filing list \<Rightarrow> board_outcome" where
  "round_outcome names fs =
     (let vs = fold (\<lambda>(who, v) d. if who \<in> set names then dset d who v else d) (List.map_filter filed fs) []
      in \<lparr>bo_verdicts = vs, bo_pending = filter (\<lambda>s. last_verdict s fs = None) names,
          bo_failed = map fst (filter (\<lambda>(_, v). v = FAIL_TOKEN) vs)\<rparr>)"

lemma fold_seats:
  "(\<And>f. f \<in> set fs \<Longrightarrow> g f = (case filed f of None \<Rightarrow> None | Some (w, v) \<Rightarrow> if w \<in> A then Some (w, v) else None)) \<Longrightarrow>
    fold (\<lambda>(who, v) d. dset d who v) (List.map_filter g fs) d
      = fold (\<lambda>(who, v) d. if who \<in> A then dset d who v else d) (List.map_filter filed fs) d"
proof (induction fs arbitrary: d)
  case (Cons f fs)
  have "g f = (case filed f of None \<Rightarrow> None | Some (w, v) \<Rightarrow> if w \<in> A then Some (w, v) else None)"
    by (rule Cons.prems) simp
  then show ?case using Cons by (cases "filed f") (auto simp: List.map_filter_simps)
qed (simp add: List.map_filter_simps)

lemma dget_fold_seats:
  "dget (fold (\<lambda>(who, v) d. if who \<in> A then dset d who v else d) vs d) s
    = (if s \<in> A then (case map_of (rev vs) s of Some v \<Rightarrow> Some v | None \<Rightarrow> dget d s) else dget d s)"
  by (induction vs arbitrary: d) (auto split: option.splits simp: map_add_Some_iff map_add_def)

lemma in_dkeys: "k \<in> set (dkeys d) \<longleftrightarrow> dget d k \<noteq> None"
  by (simp add: dget_None_iff)

lemma find_append_none: "(\<And>x. x \<in> set xs \<Longrightarrow> \<not> p x) \<Longrightarrow> p y \<Longrightarrow> find p (xs @ y # ys) = Some y"
  by (induction xs) auto

lemma filing_verdict:
  "filing_ok f \<Longrightarrow> entry_verdict seats (filing_text f)
    = (case filed f of None \<Rightarrow> None | Some (w, v) \<Rightarrow> if w \<in> set seats then Some (w, v) else None)"
proof (cases f)
  case (Remark t)
  then show "filing_ok f \<Longrightarrow> ?thesis" by (simp add: entry_verdict_def)
next
  case (Filed w v n)
  then show "filing_ok f \<Longrightarrow> ?thesis" using verdict_entry [of v w seats n] by simp
qed

lemma map_filter_map: "List.map_filter g (map h xs) = List.map_filter (g \<circ> h) xs"
  by (simp add: List.map_filter_def filter_map comp_def)

lemma round_state:
  assumes "list_all name_char gate" "hex_digest d" "seats \<noteq> []" "\<forall>s\<in>set seats. seat_name (seat_agent s)"
    and "\<forall>f\<in>set fs. filing_ok f \<and> \<not> opens_round gate (filing_text f)"
  shows "board_state (old @ convene_marker gate d seats # map filing_text fs) gate = round_outcome (map seat_agent seats) fs"
proof -
  let ?m = "convene_marker gate d seats" and ?names = "map seat_agent seats"
  let ?es = "old @ ?m # map filing_text fs"
  have later: "x \<in> set (map filing_text (rev fs)) \<Longrightarrow> \<not> opens_round gate x" for x using assms(5) by auto
  have "find (opens_round gate) (map filing_text (rev fs) @ ?m # rev old) = Some ?m"
    by (rule find_append_none) (use later convene_opens in auto)
  then have names: "current_seats ?es gate = ?names"
    using assms(4) seats_from_text [of ?names]
    by (simp add: current_seats_def rev_map convene_seats [OF assms(1,2)] list_all_iff)
  have "takeWhile (\<lambda>e. \<not> opens_round gate e) (map filing_text (rev fs) @ ?m # rev old) = map filing_text (rev fs)"
    using later by (subst takeWhile_append2) (auto simp: convene_opens)
  then have round: "this_round ?es gate = map filing_text fs"
    by (simp add: this_round_def convene_opens rev_map)
  have "fold (\<lambda>(who, v) d. dset d who v) (List.map_filter (entry_verdict ?names) (map filing_text fs)) []
      = fold (\<lambda>(who, v) d. if who \<in> set ?names then dset d who v else d) (List.map_filter filed fs) []"
    unfolding map_filter_map by (rule fold_seats) (use assms(5) filing_verdict in \<open>auto simp del: filing_ok.simps\<close>)
  moreover have "filter (\<lambda>s. s \<notin> set (dkeys (fold (\<lambda>(who, v) d. if who \<in> set ?names then dset d who v else d)
      (List.map_filter filed fs) []))) ?names = filter (\<lambda>s. last_verdict s fs = None) ?names"
    by (rule filter_cong) (auto simp: in_dkeys dget_fold_seats last_verdict_def split: option.splits)
  ultimately show ?thesis using assms(3) unfolding board_state_def names round round_outcome_def by (simp add: Let_def)
qed

lemma round_digest:
  assumes "list_all name_char gate" "hex_digest d" "\<forall>f\<in>set fs. \<not> opens_round gate (filing_text f)"
  shows "last_digest (old @ convene_marker gate d seats # map filing_text fs) gate = Some d"
proof -
  have skip: "(\<And>x. x \<in> set xs \<Longrightarrow> f x = None) \<Longrightarrow> first_some f (xs @ y # ys) = (case f y of Some z \<Rightarrow> Some z | None \<Rightarrow> first_some f ys)"
    for f :: "string \<Rightarrow> string option" and xs y ys by (induction xs) auto
  show ?thesis unfolding last_digest_def rev_append rev.simps append_assoc rev_map append.simps
    by (subst skip) (use assms(3) in \<open>auto simp: convene_opens convene_digest [OF assms(1,2)]\<close>)
qed

subsection \<open>A pass is for one submission\<close>

lemma substring_two:
  assumes "p = CHR ''['' # CHR ''['' # p'" "CHR ''['' \<notin> set a" "CHR ''['' \<notin> set b" "b \<noteq> []"
  shows "substring p (a @ CHR ''['' # CHR ''['' # b) = (take (length p') b = p')"
proof -
  obtain c b' where b: "b = c # b'" "c \<noteq> CHR ''[''" using assms(3,4) by (cases b) auto
  have "substring p (CHR ''['' # CHR ''['' # b) = (take (length p') b = p')"
    using assms(1) b substring_absent [of p "CHR ''[''" _ b] assms(3) by auto
  then show ?thesis using substring_skip [OF assms(1,2)] by simp
qed

definition clearing :: "string \<Rightarrow> string \<Rightarrow> string \<Rightarrow> string \<Rightarrow> string" where
  "clearing kind gate d names = BOARD_SIGN @ kind @ '' '' @ gate @ '' ('' @ d @ '') '' @ EM_DASH @ '' '' @ names"

lemma take_frame: "length d = length d' \<Longrightarrow> take (3 + length d') (a # b # d @ c # s) = a # b # d @ [c]"
  by (simp add: numeral_3_eq_3)

lemma clearing_seen:
  assumes "kind = PASSED \<or> kind = RELEASED" "list_all name_char gate" "hex_digest d" "hex_digest d'" "CHR ''['' \<notin> set names"
  shows "has_passed [clearing kind gate d names] gate d' \<longleftrightarrow> d' = d"
proof -
  define w where "w = drop 2 kind"
  define b where "b = w @ '' '' @ gate @ '' ('' @ d @ '') '' @ EM_DASH @ '' '' @ names"
  have len: "length d = length d'" using assms(3,4) by (simp add: hex_digest_def)
  have c: "clearing kind gate d names = BOARD_SIGN @ CHR ''['' # CHR ''['' # b"
    using assms(1) by (auto simp: clearing_def b_def w_def PASSED_def RELEASED_def)
  have sign: "CHR ''['' \<notin> set BOARD_SIGN" by (rule no_code) (auto simp: board_text char_code_def)
  have free: "CHR ''['' \<notin> set (gate @ '' ('' @ d @ '') '' @ EM_DASH @ '' '')"
  proof (rule no_code)
    fix x assume "x \<in> set (gate @ '' ('' @ d @ '') '' @ EM_DASH @ '' '')"
    then show "char_code x \<noteq> char_code CHR ''[''"
      using assms(2,3) name_char_codes hex_codes by (auto simp: board_text list_all_iff char_code_def hex_digest_def)
  qed
  have b: "CHR ''['' \<notin> set b" "b \<noteq> []"
    using free assms(1,5) by (auto simp: b_def w_def PASSED_def RELEASED_def)
  have found: "substring (k @ '' '' @ gate @ '' ('' @ d' @ '')'') (clearing kind gate d names) \<longleftrightarrow> k = kind \<and> d' = d"
    if k: "k = PASSED \<or> k = RELEASED" for k
  proof -
    have "k @ '' '' @ gate @ '' ('' @ d' @ '')'' = CHR ''['' # CHR ''['' # (drop 2 k @ '' '' @ gate @ '' ('' @ d' @ '')'')"
      using k by (auto simp: PASSED_def RELEASED_def)
    from substring_two [OF this sign b] have "substring (k @ '' '' @ gate @ '' ('' @ d' @ '')'') (clearing kind gate d names)
        \<longleftrightarrow> take (length (drop 2 k @ '' '' @ gate @ '' ('' @ d' @ '')'')) b = drop 2 k @ '' '' @ gate @ '' ('' @ d' @ '')''"
      unfolding c .
    also have "\<dots> \<longleftrightarrow> k = kind \<and> d' = d"
      using k assms(1) len by (auto simp: b_def w_def PASSED_def RELEASED_def take_frame)
    finally show ?thesis .
  qed
  show ?thesis using assms(1) found [of PASSED] found [of RELEASED] by (auto simp: has_passed_def)
qed

subsection \<open>What the gate does\<close>

lemma wf_fold_seats: "wf_dict d \<Longrightarrow> wf_dict (fold (\<lambda>(who, v) d. if who \<in> A then dset d who v else d) vs d)"
  by (induction vs arbitrary: d) (simp_all add: split_beta)

lemma wf_dict_mem: "wf_dict d \<Longrightarrow> (k, v) \<in> set d \<longleftrightarrow> dget d k = Some v"
  by (simp add: wf_dict_def dkeys_def dget_def)

lemma round_failed:
  "bo_failed (round_outcome names fs) = [] \<longleftrightarrow> (\<forall>s\<in>set names. last_verdict s fs \<noteq> Some FAIL_TOKEN)"
proof -
  let ?vs = "fold (\<lambda>(who, v) d. if who \<in> set names then dset d who v else d) (List.map_filter filed fs) []"
  have "wf_dict ?vs" by (rule wf_fold_seats) (simp add: wf_dict_def dkeys_def)
  then have "(k, FAIL_TOKEN) \<in> set ?vs \<longleftrightarrow> k \<in> set names \<and> last_verdict k fs = Some FAIL_TOKEN" for k
    by (simp add: wf_dict_mem dget_fold_seats last_verdict_def split: option.splits)
  then show ?thesis by (auto simp: round_outcome_def Let_def filter_empty_conv)
qed

lemma round_settled: "bo_settled (round_outcome names fs) \<longleftrightarrow> (\<forall>s\<in>set names. last_verdict s fs \<noteq> None)"
  by (simp add: bo_settled_def round_outcome_def Let_def filter_empty_conv)

lemma last_verdict_word: "\<forall>f\<in>set fs. filing_ok f \<Longrightarrow> last_verdict s fs = Some v \<Longrightarrow> v = PASS_TOKEN \<or> v = FAIL_TOKEN"
proof -
  assume ok: "\<forall>f\<in>set fs. filing_ok f" and "last_verdict s fs = Some v"
  then have "(s, v) \<in> set (List.map_filter filed fs)"
    by (auto simp: last_verdict_def dest: map_of_SomeD)
  then obtain f where "f \<in> set fs" and f: "filed f = Some (s, v)" by (auto simp: map_filter_def)
  then have "filing_ok f" using ok by blast
  then show ?thesis using f by (cases f) auto
qed

lemma pass_not_fail: "PASS_TOKEN \<noteq> FAIL_TOKEN"
  by (simp add: PASS_TOKEN_def FAIL_TOKEN_def)

lemma round_approved:
  assumes "\<forall>f\<in>set fs. filing_ok f"
  shows "bo_approved (round_outcome names fs) \<longleftrightarrow> (\<forall>s\<in>set names. last_verdict s fs = Some PASS_TOKEN)"
  using last_verdict_word [OF assms] pass_not_fail
  by (fastforce simp: bo_approved_def round_settled round_failed)

lemma verdict_here_name: "verdict_here s = Some (w, v) \<Longrightarrow> list_all name_char w"
  by (auto simp: verdict_here_def Let_def list_all_iff dest: set_takeWhileD split: if_splits)

lemma find_verdict_name: "find_verdict b s = Some (w, v) \<Longrightarrow> list_all name_char w"
  by (induction b s rule: find_verdict.induct) (auto split: option.splits if_splits dest: verdict_here_name)

lemma entry_verdict_name: "entry_verdict seats e = Some (w, v) \<Longrightarrow> list_all name_char w"
  by (auto simp: entry_verdict_def split: option.splits if_splits dest: find_verdict_name)

lemma set_dkeys_fold: "set (dkeys (fold (\<lambda>(who, v) d. dset d who v) vs d)) = set (dkeys d) \<union> fst ` set vs"
  by (induction vs arbitrary: d) (auto simp: split_beta)

lemma board_names: "w \<in> set (dkeys (bo_verdicts (board_state entries gate))) \<Longrightarrow> list_all name_char w"
proof -
  assume "w \<in> set (dkeys (bo_verdicts (board_state entries gate)))"
  then have "w \<in> fst ` set (List.map_filter (entry_verdict (current_seats entries gate)) (this_round entries gate))"
    by (auto simp: board_state_def Let_def set_dkeys_fold simp del: set_map split: if_splits) (simp_all add: dkeys_def)
  then show ?thesis by (auto simp: map_filter_def dest: entry_verdict_name)
qed

lemma join_with_set: "set (join_with sep xs) \<subseteq> set sep \<union> \<Union> (set ` set xs)"
  by (induction sep xs rule: join_with.induct) auto

lemma names_plain:
  assumes "\<And>w. w \<in> set ws \<Longrightarrow> list_all name_char w"
  shows "CHR ''['' \<notin> set (join_with '', '' ws)"
proof
  assume "CHR ''['' \<in> set (join_with '', '' ws)"
  then obtain w where "w \<in> set ws" "CHR ''['' \<in> set w" using join_with_set [of "'', ''" ws] by auto
  then show False using assms name_char_codes [of "CHR ''[''"] by (auto simp: list_all_iff char_code_def)
qed

lemma board_failed: "set (bo_failed (board_state entries gate)) \<subseteq> set (dkeys (bo_verdicts (board_state entries gate)))"
  by (auto simp: board_state_def Let_def dkeys_def)

lemma has_passed_append: "has_passed (es @ fs) gate d \<longleftrightarrow> has_passed es gate d \<or> has_passed fs gate d"
  by (simp add: has_passed_def)

text \<open>
  C20. An entry that clears a plan or a deliverable clears that submission and no other: of the digests that had not passed before,
  exactly the one it was written for has passed after.
\<close>

theorem pass_blesses_one_submission:
  assumes "delivery_gate entries d seats = ClearedWith t \<and> g = ''delivery'' \<or> plan_gate entries d seats = ClearedWith t \<and> g = ''plan''"
    and "hex_digest d" "hex_digest d'"
  shows "has_passed (entries @ [t]) g d' \<longleftrightarrow> has_passed entries g d' \<or> d' = d"
proof -
  let ?b = "board_state entries g"
  have keys: "CHR ''['' \<notin> set (join_with '', '' (dkeys (bo_verdicts ?b)))"
    by (rule names_plain) (rule board_names)
  have failed: "CHR ''['' \<notin> set (join_with '', '' (bo_failed ?b))"
    by (rule names_plain) (use board_failed board_names in blast)
  have g: "list_all name_char g"
    using assms(1) by (auto simp: name_char_def is_digit_def char_code_def)
  obtain kind names where "kind = PASSED \<or> kind = RELEASED" "t = clearing kind g d names" "CHR ''['' \<notin> set names"
  proof -
    consider "delivery_gate entries d seats = ClearedWith t" "g = ''delivery''" | "plan_gate entries d seats = ClearedWith t" "g = ''plan''"
      using assms(1) by blast
    then show ?thesis
    proof cases
      case 1
      then show ?thesis using keys
        by (intro that [of "if bo_approved ?b then PASSED else RELEASED" "verdict_names ?b"])
          (auto simp: delivery_gate_def clearing_def verdict_names_def Let_def split: if_splits)
    next
      case 2
      then show ?thesis using keys failed
        by (intro that [of "if bo_approved ?b then PASSED else RELEASED"
              "if bo_approved ?b then join_with '', '' (dkeys (bo_verdicts ?b)) else ''unresolved: '' @ join_with '', '' (bo_failed ?b)"])
          (auto simp: plan_gate_def clearing_def Let_def split: if_splits)
    qed
  qed
  then show ?thesis using clearing_seen [OF _ g assms(2,3)] by (auto simp: has_passed_append)
qed

lemma gate_after_round:
  assumes "gate = ''delivery'' \<or> gate = ''plan''" "hex_digest d" "seats \<noteq> []" "\<forall>s\<in>set seats. seat_name (seat_agent s)"
    and "\<forall>f\<in>set fs. filing_ok f \<and> \<not> opens_round gate (filing_text f)"
  shows "board_state (old @ convene_marker gate d seats # map filing_text fs) gate = round_outcome (map seat_agent seats) fs"
    and "last_digest (old @ convene_marker gate d seats # map filing_text fs) gate = Some d"
proof -
  have g: "list_all name_char gate" using assms(1) by (auto simp: name_char_def is_digit_def char_code_def)
  show "board_state (old @ convene_marker gate d seats # map filing_text fs) gate = round_outcome (map seat_agent seats) fs"
    by (rule round_state [OF g assms(2-)])
  show "last_digest (old @ convene_marker gate d seats # map filing_text fs) gate = Some d"
    by (rule round_digest [OF g assms(2)]) (use assms(5) in blast)
qed

lemma settled_names: "seats \<noteq> [] \<Longrightarrow> bo_settled (round_outcome (map seat_agent seats) fs) \<Longrightarrow>
    join_with '', '' (dkeys (bo_verdicts (round_outcome (map seat_agent seats) fs))) = verdict_names (round_outcome (map seat_agent seats) fs)"
proof -
  assume seats: "seats \<noteq> []" and "bo_settled (round_outcome (map seat_agent seats) fs)"
  then have "last_verdict (seat_agent (hd seats)) fs \<noteq> None" by (simp add: round_settled)
  then have "dget (bo_verdicts (round_outcome (map seat_agent seats) fs)) (seat_agent (hd seats)) \<noteq> None"
    using seats by (simp add: round_outcome_def Let_def dget_fold_seats last_verdict_def split: option.splits)
  then have "bo_verdicts (round_outcome (map seat_agent seats) fs) \<noteq> []" by (auto simp: dget_def)
  then show ?thesis by (simp add: verdict_names_def)
qed

text \<open>
  C19. A round of review, written into the diary as text and read back from it, decides as the reviewers did, at both gates. Provided the
  reviewers have plain names, the other entries of the round carry neither the marker of a verdict nor a text that convenes a
  further one, and the submission has not passed before: for the submission it was convened for the gate waits while a seat has filed
  no verdict, opens when the last verdict of every seat is a pass or the rounds are used up, and otherwise returns the objections; any
  other submission convenes a board of its own. The two gates differ in what the entry of a released submission lists. The condition
  on the other entries is needed (\<open>quoted_verdict_opens_gate\<close>).
\<close>

theorem gate_follows_last_verdicts:
  assumes gate: "gate = ''delivery'' \<and> step = delivery_gate entries d' board \<or> gate = ''plan'' \<and> step = plan_gate entries d' board"
    and e: "entries = old @ convene_marker gate d seats # map filing_text fs"
    and "hex_digest d" "seats \<noteq> []" "\<forall>s\<in>set seats. seat_name (seat_agent s)"
    and "\<forall>f\<in>set fs. filing_ok f \<and> \<not> opens_round gate (filing_text f)"
    and "\<not> has_passed entries gate d'" "board \<noteq> []"
  shows "step =
    (let outcome = round_outcome (map seat_agent seats) fs in
     if d' \<noteq> d \<or> (\<exists>s\<in>set seats. last_verdict (seat_agent s) fs = None) then Convene board
     else if \<forall>s\<in>set seats. last_verdict (seat_agent s) fs = Some PASS_TOKEN
     then ClearedWith (clearing PASSED gate d (verdict_names outcome))
     else if rounds_run entries gate \<ge> MAX_ROUNDS
     then ClearedWith (clearing RELEASED gate d
       (if gate = ''delivery'' then verdict_names outcome else ''unresolved: '' @ join_with '', '' (bo_failed outcome)))
     else ChangesRequested (bo_failed outcome))"
proof -
  have ok: "\<forall>f\<in>set fs. filing_ok f" using assms(6) by blast
  have either: "gate = ''delivery'' \<or> gate = ''plan''" using gate by blast
  note round = gate_after_round [OF either assms(3-6), of old, folded e]
  note outcome = round_approved [OF ok, of "map seat_agent seats"] round_settled [of "map seat_agent seats" fs]
    settled_names [OF assms(4), of fs]
  from gate show ?thesis
  proof (elim disjE conjE)
    assume "gate = ''delivery''" "step = delivery_gate entries d' board"
    then show ?thesis using assms(7,8) outcome round by (auto simp: delivery_gate_def Let_def clearing_def)
  next
    assume "gate = ''plan''" "step = plan_gate entries d' board"
    then show ?thesis using assms(7,8) outcome round by (auto simp: plan_gate_def Let_def clearing_def)
  qed
qed

definition two_seats :: "seat list" where
  "two_seats = [\<lparr>seat_agent = ''ann'', seat_lens = ''risk''\<rparr>, \<lparr>seat_agent = ''bob'', seat_lens = ''cost''\<rparr>]"

definition digest_a :: string where "digest_a = ''0123456789abcdef''"
definition digest_b :: string where "digest_b = ''00000000ffffffff''"

definition split_round :: "filing list" where
  "split_round = [Remark ''read'', Filed ''ann'' ''PASS'' ''fine'', Filed ''bob'' ''FAIL'' ''no rollback'']"

lemma split_round_ok: "\<forall>f\<in>set split_round. filing_ok f \<and> \<not> opens_round ''delivery'' (filing_text f)"
  by code_simp

lemma two_seats_ok: "\<forall>s\<in>set two_seats. seat_name (seat_agent s)"
  by code_simp

theorem gate_follows_last_verdicts_witness:
  "delivery_gate (convene_marker ''delivery'' digest_a two_seats # map filing_text split_round) digest_a two_seats = ChangesRequested [''bob'']"
proof -
  have h: "hex_digest digest_a" by code_simp
  have p: "\<not> has_passed ([] @ convene_marker ''delivery'' digest_a two_seats # map filing_text split_round) ''delivery'' digest_a"
    by code_simp
  have v: "last_verdict ''ann'' split_round = Some PASS_TOKEN" "last_verdict ''bob'' split_round = Some FAIL_TOKEN"
    "rounds_run ([] @ convene_marker ''delivery'' digest_a two_seats # map filing_text split_round) ''delivery'' = 1"
    "bo_failed (round_outcome (map seat_agent two_seats) split_round) = [''bob'']" by code_simp+
  show ?thesis
    using gate_follows_last_verdicts [OF _ refl h _ two_seats_ok split_round_ok p, of _ two_seats] v pass_not_fail
    by (simp add: two_seats_def MAX_ROUNDS_def)
qed


subsection \<open>What the text of the diary lets through\<close>

definition passed_round :: "string list" where
  "passed_round = convene_marker ''delivery'' digest_a two_seats # map filing_text [Filed ''ann'' ''PASS'' ''fine'', Filed ''bob'' ''PASS'' ''ok'']"

lemma passed_round_clears: "delivery_gate passed_round digest_a two_seats
    = ClearedWith (clearing PASSED ''delivery'' digest_a ''ann, bob'')"
  by code_simp

theorem pass_blesses_one_submission_witness:
  "\<not> has_passed (passed_round @ [clearing PASSED ''delivery'' digest_a ''ann, bob'']) ''delivery'' digest_b
   \<and> has_passed (passed_round @ [clearing PASSED ''delivery'' digest_a ''ann, bob'']) ''delivery'' digest_a"
proof -
  have h: "hex_digest digest_a" "hex_digest digest_b" "digest_a \<noteq> digest_b" by code_simp+
  have b: "\<not> has_passed passed_round ''delivery'' digest_b" by code_simp
  have "(delivery_gate passed_round digest_a two_seats = ClearedWith (clearing PASSED ''delivery'' digest_a ''ann, bob'') \<and> ''delivery'' = ''delivery'')
     \<or> (plan_gate passed_round digest_a two_seats = ClearedWith (clearing PASSED ''delivery'' digest_a ''ann, bob'') \<and> ''delivery'' = ''plan'')"
    using passed_round_clears by blast
  from pass_blesses_one_submission [OF this h(1,1)] pass_blesses_one_submission [OF this h(1,2)] h(3) b show ?thesis by auto
qed

text \<open>A verdict is read from any entry that has the marker, so an author's own entry that quotes one changes what a reviewer said.\<close>

theorem quoted_verdict_opens_gate:
  "delivery_gate (convene_marker ''delivery'' digest_a two_seats # map filing_text split_round) digest_a two_seats = ChangesRequested [''bob'']
   \<and> delivery_gate (convene_marker ''delivery'' digest_a two_seats # map filing_text split_round
        @ [''Asked a human: what does [[REVIEW]] PASS by bob mean?'']) digest_a two_seats
      = ClearedWith (clearing PASSED ''delivery'' digest_a ''ann, bob'')"
  by code_simp

text \<open>The limit on rounds counts only for an unchanged submission: a revised one meets a new board however many have sat.\<close>

definition failed_round :: "string \<Rightarrow> string list" where
  "failed_round d = convene_marker ''plan'' d two_seats # map filing_text [Filed ''ann'' ''FAIL'' ''no'', Filed ''bob'' ''FAIL'' ''no'']"

theorem revised_plan_exceeds_rounds:
  "rounds_run (failed_round digest_a @ failed_round digest_a @ failed_round digest_a) ''plan'' > MAX_ROUNDS
   \<and> plan_gate (failed_round digest_a @ failed_round digest_a @ failed_round digest_a) digest_b two_seats = Convene two_seats"
  by code_simp

text \<open>The author is never on its own board, and leaving it out never makes the board smaller than its size while seats remain.\<close>

lemma author_never_seated:
  "a \<noteq> [] \<Longrightarrow> s \<in> set (resolve_board boards level name (Some a)) \<Longrightarrow> seat_agent s \<noteq> a"
  by (auto simp: resolve_board_def Let_def dest: in_set_takeD split: if_splits)

text \<open>The verdict of an answer is declared by the first line that has either word; a line with both is a refusal.\<close>

definition declares :: "string \<Rightarrow> bool" where
  "declares l \<longleftrightarrow> has_word FAIL_TOKEN True l \<or> has_word PASS_TOKEN True l"

lemma first_verdict_find:
  "first_verdict ls = (case find declares ls of None \<Rightarrow> FAIL_TOKEN
     | Some l \<Rightarrow> if has_word FAIL_TOKEN True l then FAIL_TOKEN else PASS_TOKEN)"
  by (induction ls) (auto simp: declares_def)

lemma parse_verdict_word: "parse_verdict answer = PASS_TOKEN \<or> parse_verdict answer = FAIL_TOKEN"
  by (simp add: parse_verdict_def first_verdict_find split: option.splits)

lemma parse_verdict_pass:
  "parse_verdict answer = PASS_TOKEN \<longleftrightarrow>
    (\<exists>l. find declares (text_lines [] answer) = Some l \<and> \<not> has_word FAIL_TOKEN True l)"
  using pass_not_fail by (auto simp: parse_verdict_def first_verdict_find split: option.splits)


text \<open>An advisor's answer to an ordinary question on the order is filed as its verdict, and replaces the one it gave as a reviewer.\<close>

theorem advice_replaces_verdict:
  "delivery_gate passed_round digest_a two_seats = ClearedWith (clearing PASSED ''delivery'' digest_a ''ann, bob'')
   \<and> delivery_gate (passed_round @ [verdict_marker ''ann'' (parse_verdict ''Use the second index.'') ''Use the second index.'']) digest_a two_seats
      = ChangesRequested [''ann'']"
  by code_simp


end
