(* ===== verification/Agent_Loop.thy ===== *)
theory Agent_Loop
  imports Agent_Authority "HOL-Library.Sublist"
begin

section \<open>The loop that drives an agent\<close>

text \<open>
  One run of an agent, from the model's turn to the execution of the tools it calls (\<open>services/agents/runtime.py\<close>), and how its
  transcript is kept small (\<open>services/agents/transcript.py\<close>). What lies outside is an argument: the model, the handlers, the
  check of the run's key, the person who approves, the steering and cancelling of the run and the serialization of a value
  all are functions of a state of any type that they may change. Frames for the screen and token counts are left out.
\<close>

subsection \<open>Messages\<close>

record call =
  lc_id :: string
  lc_name :: string
  lc_args :: json

datatype message = MSystem string | MUser string | MAssistant string "call list" | MTool string json

record completion =
  cp_content :: string
  cp_calls :: "call list"

fun message_calls :: "message \<Rightarrow> call list" where
  "message_calls (MAssistant _ cs) = cs"
| "message_calls _ = []"

definition call_ids :: "message list \<Rightarrow> string list" where
  "call_ids ms = map lc_id (concat (map message_calls ms))"

definition awaits_tool_results :: "message list \<Rightarrow> bool" where
  "awaits_tool_results ms \<longleftrightarrow> ms \<noteq> [] \<and> message_calls (last ms) \<noteq> []"

subsection \<open>Keeping the transcript small\<close>

definition DETAIL_TOOL :: string where "DETAIL_TOOL = ''read_run_detail''"
definition PREVIEW_CHARS :: nat where "PREVIEW_CHARS = 200"

definition elision :: "(json \<Rightarrow> string) \<Rightarrow> json \<Rightarrow> string \<Rightarrow> json" where
  "elision dumps value i = (let rendered = (case value of JStr s \<Rightarrow> s | _ \<Rightarrow> dumps value) in
     JObj [(''elided'', JBool True), (''chars'', JInt (int (length rendered))), (''preview'', JStr (take PREVIEW_CHARS rendered)),
       (''call_id'', JStr i)])"

definition detail :: "string \<Rightarrow> json" where
  "detail i = JObj [(''call_id'', JStr i), (''tool'', JStr DETAIL_TOOL)]"

definition is_elided :: "json \<Rightarrow> bool" where
  "is_elided v \<longleftrightarrow> (case v of JObj d \<Rightarrow> truthy (jget d ''elided'') | _ \<Rightarrow> False)"

definition cut_preview :: "nat \<Rightarrow> json \<Rightarrow> json" where
  "cut_preview width v = (case v of JObj d \<Rightarrow> JObj (dset d ''preview'' (case jget d ''preview'' of JStr s \<Rightarrow> JStr (take width s) | w \<Rightarrow> w)) | _ \<Rightarrow> v)"

fun shrink_previews :: "(json \<Rightarrow> string) \<Rightarrow> nat list \<Rightarrow> string list \<Rightarrow> int \<Rightarrow> jdict \<Rightarrow> jdict" where
  "shrink_previews dumps [] ks budget d = d"
| "shrink_previews dumps (w # ws) ks budget d =
     (if int (length (dumps (JObj d))) \<le> budget then d
      else shrink_previews dumps ws ks budget (map (\<lambda>(k, v). if k \<in> set ks then (k, cut_preview w v) else (k, v)) d))"

fun elide_fields :: "(json \<Rightarrow> string) \<Rightarrow> int \<Rightarrow> string \<Rightarrow> (string \<times> json) list \<Rightarrow> jdict \<Rightarrow> jdict" where
  "elide_fields dumps budget i [] d = d"
| "elide_fields dumps budget i ((k, v) # kvs) d =
     (if int (length (dumps (JObj d))) \<le> budget then d else elide_fields dumps budget i kvs (dset d k (elision dumps v i)))"

definition compact_tool_output :: "(json \<Rightarrow> string) \<Rightarrow> int \<Rightarrow> json \<Rightarrow> string \<Rightarrow> json" where
  "compact_tool_output dumps budget result i =
     (if budget \<le> 0 \<or> int (length (dumps result)) \<le> budget then result
      else case result of
        JObj d \<Rightarrow>
          let by_size = sort_key (\<lambda>(_, v). - int (length (dumps v))) d;
              compacted = elide_fields dumps budget i by_size (dset d ''_detail'' (detail i));
              ks = map fst (filter (\<lambda>(_, v). is_elided v) compacted)
          in JObj (shrink_previews dumps [100, 40, 0] ks budget compacted)
      | _ \<Rightarrow> JObj [(''result'', elision dumps result i), (''_detail'', detail i)])"

text \<open>Of a long transcript the instructions, the task and the last turns are kept, and no result is parted from its call.\<close>

definition is_system :: "message \<Rightarrow> bool" where
  "is_system m \<longleftrightarrow> (case m of MSystem _ \<Rightarrow> True | _ \<Rightarrow> False)"

definition transcript_head :: "message list \<Rightarrow> message list" where
  "transcript_head ms = takeWhile is_system ms
     @ (case dropWhile is_system ms of MUser t # _ \<Rightarrow> [MUser t] | _ \<Rightarrow> [])"

definition has_orphans :: "message list \<Rightarrow> bool" where
  "has_orphans ms \<longleftrightarrow> list_ex (\<lambda>m. case m of MTool i _ \<Rightarrow> i \<notin> set (call_ids ms) | _ \<Rightarrow> False) ms"

fun widen :: "message list \<Rightarrow> nat \<Rightarrow> nat" where
  "widen body 0 = 0"
| "widen body (Suc n) = (if has_orphans (drop (Suc n) body) then widen body n else Suc n)"

definition fold_note :: "nat \<Rightarrow> string \<Rightarrow> string" where
  "fold_note n summary = ''Summary of '' @ show_nat n @ '' earlier messages in this run (full detail is retained; use '' @ DETAIL_TOOL
     @ '' to read any of it):'' @ [chr_of 10] @ summary"

definition fold_old_turns :: "message list \<Rightarrow> string \<Rightarrow> int \<Rightarrow> message list" where
  "fold_old_turns ms summary keep_recent =
     (let head = transcript_head ms; body = drop (length head) ms in
      if int (length body) \<le> keep_recent then ms
      else let split = widen body (if keep_recent > 0 then length body - nat keep_recent else length body)
        in head @ [MSystem (fold_note split summary)] @ drop split body)"

subsection \<open>What the loop calls\<close>

record run_tool_spec =
  rt_spec :: tool_spec
  rt_terminal :: bool

datatype tool_result = Returned json | Raised string | ParkedAt string | FinishedAs string jdict

datatype approval_answer = Approved | Refused | ApprovalParked string

record 's loop_env =
  en_agent :: agent
  en_autonomy :: string
  en_specs :: "(string, run_tool_spec) dict"
  en_continue :: "'s \<Rightarrow> 's \<times> bool"
  en_steer :: "'s \<Rightarrow> 's \<times> string list"
  en_model :: "message list \<Rightarrow> 's \<Rightarrow> 's \<times> (string, completion) result"
  en_summarize :: "message list \<Rightarrow> 's \<Rightarrow> 's \<times> string"
  en_refusal :: "string \<Rightarrow> 's \<Rightarrow> (string \<times> bool) option"
  en_handler :: "call \<Rightarrow> 's \<Rightarrow> 's \<times> tool_result"
  en_approve :: "tool_spec \<Rightarrow> json \<Rightarrow> 's \<Rightarrow> 's \<times> approval_answer"
  en_dumps :: "json \<Rightarrow> string"
  en_chars :: "message list \<Rightarrow> nat"
  en_transcript_budget :: nat
  en_result_budget :: int
  en_keep_recent :: int

definition compact_if_needed :: "'s loop_env \<Rightarrow> message list \<Rightarrow> 's \<Rightarrow> 's \<times> message list" where
  "compact_if_needed env ms s =
     (if en_chars env ms \<le> en_transcript_budget env then (s, ms)
      else let (s1, summary) = en_summarize env ms s in
        if summary = [] then (s1, ms)
        else let folded = fold_old_turns ms summary (en_keep_recent env)
          in (s1, if length folded \<ge> length ms then ms else folded))"

subsection \<open>One batch of calls\<close>

text \<open>A key that is gone ends the run; any other refusal, and any failure of a handler, is a result the model reads.\<close>

definition error_result :: "string \<Rightarrow> json" where
  "error_result e = JObj [(''error'', JStr e)]"

definition run_tool :: "'s loop_env \<Rightarrow> call \<Rightarrow> 's \<Rightarrow> 's \<times> tool_result" where
  "run_tool env tc s = (case en_refusal env (lc_name tc) s of
       Some (why, gone) \<Rightarrow> (s, if gone then FinishedAs ''error'' [(''reason'', JStr why)] else Returned (error_result why))
     | None \<Rightarrow> (case en_handler env tc s of
         (s1, Raised e) \<Rightarrow> (s1, Returned (error_result (''Tool '' @ quoted (lc_name tc) @ '' failed: '' @ e)))
       | r \<Rightarrow> r))"

record plan =
  pl_call :: call
  pl_spec :: "run_tool_spec option"
  pl_preset :: "json option"

definition plan_of :: "call \<Rightarrow> run_tool_spec option \<Rightarrow> json option \<Rightarrow> plan" where
  "plan_of tc spec preset = \<lparr>pl_call = tc, pl_spec = spec, pl_preset = preset\<rparr>"

datatype gate_end = Gated "plan list" | GateParked string | GateRaised py_exc

text \<open>Every call of a turn is decided before any of them runs.\<close>

fun gate_tools :: "'s loop_env \<Rightarrow> (string, json) dict \<Rightarrow> call list \<Rightarrow> plan list \<Rightarrow> 's \<Rightarrow> 's \<times> gate_end" where
  "gate_tools env answers [] plans s = (s, Gated plans)"
| "gate_tools env answers (tc # tcs) plans s =
     (let spec = dget (en_specs env) (lc_name tc); next = (\<lambda>preset s. gate_tools env answers tcs (plans @ [plan_of tc spec preset]) s) in
      case dget answers (lc_id tc) of Some v \<Rightarrow> next (Some v) s
      | None \<Rightarrow> (case spec of None \<Rightarrow> next (Some (error_result (''Unknown tool: '' @ lc_name tc))) s
        | Some sp \<Rightarrow> (case decide (en_agent env) (rt_spec sp) (en_autonomy env) of
            Inl e \<Rightarrow> (s, GateRaised e)
          | Inr v \<Rightarrow> (case vd_decision v of
              DENY \<Rightarrow> next (Some (error_result (''Not permitted: '' @ vd_reason v))) s
            | ALLOW \<Rightarrow> next None s
            | ASK \<Rightarrow> (case en_approve env (rt_spec sp) (lc_args tc) s of
                (s1, Approved) \<Rightarrow> next None s1
              | (s1, Refused) \<Rightarrow> next (Some (error_result ''Denied by human reviewer'')) s1
              | (s1, ApprovalParked k) \<Rightarrow> (s1, GateParked k))))))"

definition is_terminal_plan :: "plan \<Rightarrow> bool" where
  "is_terminal_plan p \<longleftrightarrow> (case pl_spec p of None \<Rightarrow> False | Some sp \<Rightarrow> rt_terminal sp)"

definition terminal_last :: "plan list \<Rightarrow> plan list" where
  "terminal_last plans = filter (\<lambda>p. \<not> is_terminal_plan p) plans @ filter is_terminal_plan plans"

datatype exec_end = Executed | ExecParked string "call list" | ExecFinished string jdict

definition tool_message :: "'s loop_env \<Rightarrow> call \<Rightarrow> json \<Rightarrow> message" where
  "tool_message env tc result = MTool (lc_id tc) (compact_tool_output (en_dumps env) (en_result_budget env) result (lc_id tc))"

fun execute_plans :: "'s loop_env \<Rightarrow> plan list \<Rightarrow> message list \<Rightarrow> 's \<Rightarrow> 's \<times> message list \<times> exec_end" where
  "execute_plans env [] ms s = (s, ms, Executed)"
| "execute_plans env (p # ps) ms s =
     (case (case pl_preset p of Some v \<Rightarrow> (s, Returned v) | None \<Rightarrow> run_tool env (pl_call p) s) of
        (s1, Returned v) \<Rightarrow> execute_plans env ps (ms @ [tool_message env (pl_call p) v]) s1
      | (s1, ParkedAt k) \<Rightarrow> (s1, ms, ExecParked k (map pl_call (p # ps)))
      | (s1, FinishedAs st payload) \<Rightarrow> (s1, ms, ExecFinished st payload)
      | (s1, Raised e) \<Rightarrow> execute_plans env ps (ms @ [tool_message env (pl_call p) (error_result e)]) s1)"

subsection \<open>The loop\<close>

datatype loop_end =
    LoopDone string | LoopTruncated | LoopCancelled | LoopParked string "call list" | LoopFinished string jdict
  | LoopModelError string | LoopRaised py_exc

datatype batch_end = BatchDone | BatchEnd loop_end

text \<open>Gate, look for a cancellation that came meanwhile, execute.\<close>

definition run_batch :: "'s loop_env \<Rightarrow> (string, json) dict \<Rightarrow> call list \<Rightarrow> message list \<Rightarrow> 's \<Rightarrow> 's \<times> message list \<times> batch_end" where
  "run_batch env answers calls ms s = (case gate_tools env answers calls [] s of
       (s1, GateParked k) \<Rightarrow> (s1, ms, BatchEnd (LoopParked k calls))
     | (s1, GateRaised e) \<Rightarrow> (s1, ms, BatchEnd (LoopRaised e))
     | (s1, Gated plans) \<Rightarrow> (case en_continue env s1 of
         (s2, False) \<Rightarrow> (s2, ms, BatchEnd LoopCancelled)
       | (s2, True) \<Rightarrow> (case execute_plans env (terminal_last plans) ms s2 of
           (s3, ms3, Executed) \<Rightarrow> (s3, ms3, BatchDone)
         | (s3, ms3, ExecParked k cs) \<Rightarrow> (s3, ms3, BatchEnd (LoopParked k cs))
         | (s3, ms3, ExecFinished st payload) \<Rightarrow> (s3, ms3, BatchEnd (LoopFinished st payload)))))"

text \<open>The model's turn; the list of prompts records what it was sent. The fuel is the number of iterations a run may take.\<close>

definition model_turn :: "'s loop_env \<Rightarrow> message list \<Rightarrow> 's \<Rightarrow> 's \<times> message list \<times> (string, completion) result" where
  "model_turn env ms s =
     (let (s1, texts) = (if awaits_tool_results ms then (s, []) else en_steer env s);
          (s2, ms2) = compact_if_needed env (ms @ map MUser texts) s1;
          (s3, c) = en_model env ms2 s2
      in (s3, ms2, c))"

fun drive_loop ::
  "'s loop_env \<Rightarrow> nat \<Rightarrow> call list option \<Rightarrow> (string, json) dict \<Rightarrow> message list \<Rightarrow> 's
    \<Rightarrow> 's \<times> message list \<times> message list list \<times> loop_end" where
  "drive_loop env 0 pending answers ms s = (s, ms, [], LoopTruncated)"
| "drive_loop env (Suc n) pending answers ms s = (case en_continue env s of
       (s1, False) \<Rightarrow> (s1, ms, [], LoopCancelled)
     | (s1, True) \<Rightarrow> (case pending of
         Some calls \<Rightarrow> (case run_batch env answers calls ms s1 of
             (s2, ms2, BatchEnd e) \<Rightarrow> (s2, ms2, [], e)
           | (s2, ms2, BatchDone) \<Rightarrow> drive_loop env n None [] ms2 s2)
       | None \<Rightarrow> (case model_turn env ms s1 of
             (s2, ms2, Inl e) \<Rightarrow> (s2, ms2, [ms2], LoopModelError e)
           | (s2, ms2, Inr c) \<Rightarrow>
               let ms3 = ms2 @ [MAssistant (cp_content c) (cp_calls c)] in
               if cp_calls c = [] then (s2, ms3, [ms2], LoopDone (cp_content c))
               else (case run_batch env answers (cp_calls c) ms3 s2 of
                   (s4, ms4, BatchEnd e) \<Rightarrow> (s4, ms4, [ms2], e)
                 | (s4, ms4, BatchDone) \<Rightarrow>
                     (case drive_loop env n None [] ms4 s4 of (s5, ms5, prompts, e) \<Rightarrow> (s5, ms5, ms2 # prompts, e))))))"


end
