(* ===== verification/Agent_Loop_Props.thy ===== *)
theory Agent_Loop_Props
  imports Agent_Loop "HOL-Library.Multiset"
begin

section \<open>What the agent's loop guarantees\<close>

text \<open>
  A transcript is read by an automaton whose state is the list of calls still open: a result closes one of them, and a turn of the
  model, the user or the system may only come when none is open. This is what the providers ask of a prompt. The
  lemmas follow the automaton through the folding of old turns, the execution of a batch and the loop; a second group shows that a
  handler only runs for a call the authority check lets through.
\<close>

subsection \<open>The calls a transcript leaves open\<close>

fun open_after :: "string list \<Rightarrow> message list \<Rightarrow> string list option" where
  "open_after ids [] = Some ids"
| "open_after ids (MTool i _ # ms) = (if i \<in> set ids then open_after (remove1 i ids) ms else None)"
| "open_after ids (MAssistant _ cs # ms) = (if ids = [] then open_after (map lc_id cs) ms else None)"
| "open_after ids (MUser _ # ms) = (if ids = [] then open_after [] ms else None)"
| "open_after ids (MSystem _ # ms) = (if ids = [] then open_after [] ms else None)"

definition prompt_ok :: "message list \<Rightarrow> bool" where
  "prompt_ok ms \<longleftrightarrow> open_after [] ms = Some []"

definition awaits_calls :: "call list \<Rightarrow> message list \<Rightarrow> bool" where
  "awaits_calls cs ms \<longleftrightarrow> (case open_after [] ms of Some ids \<Rightarrow> mset ids = mset (map lc_id cs) | None \<Rightarrow> False)"

lemma open_after_append:
  "open_after ids (ms @ ms') = (case open_after ids ms of Some ids' \<Rightarrow> open_after ids' ms' | None \<Rightarrow> None)"
  by (induction ids ms rule: open_after.induct) auto

lemma awaits_no_calls [simp]: "awaits_calls [] ms \<longleftrightarrow> prompt_ok ms"
  by (auto simp: awaits_calls_def prompt_ok_def split: option.splits)

lemma awaits_calls_cong: "mset (map lc_id cs) = mset (map lc_id cs') \<Longrightarrow> awaits_calls cs ms = awaits_calls cs' ms"
  by (simp add: awaits_calls_def split: option.splits)

lemma call_ids_simps [simp]:
  "call_ids [] = []" "call_ids (m # ms) = map lc_id (message_calls m) @ call_ids ms" "call_ids (ms @ ms') = call_ids ms @ call_ids ms'"
  by (simp_all add: call_ids_def)

lemma awaits_result:
  assumes "awaits_calls (c # cs) ms"
  shows "awaits_calls cs (ms @ [MTool (lc_id c) v])"
proof -
  obtain ids where ids: "open_after [] ms = Some ids" "mset ids = mset (map lc_id (c # cs))"
    using assms by (auto simp: awaits_calls_def split: option.splits)
  then have "lc_id c \<in> set ids" by (metis list.set_intros(1) list.simps(9) set_mset_mset)
  with ids show ?thesis by (simp add: awaits_calls_def open_after_append)
qed

lemma awaits_turn:
  "prompt_ok ms \<Longrightarrow> awaits_calls cs (ms @ [MAssistant t cs])"
  by (simp add: awaits_calls_def prompt_ok_def open_after_append)

lemma prompt_ok_users: "prompt_ok ms \<Longrightarrow> prompt_ok (ms @ map MUser texts)"
proof (induction texts arbitrary: ms)
  case (Cons t texts)
  then have "prompt_ok (ms @ [MUser t])" by (simp add: prompt_ok_def open_after_append)
  from Cons.IH [OF this] show ?case by simp
qed simp

subsection \<open>Folding keeps every result with its call\<close>

lemma open_ids_from:
  "open_after ids ms = Some ids' \<Longrightarrow> set ids' \<subseteq> set ids \<union> set (call_ids ms)"
proof (induction ids ms arbitrary: ids' rule: open_after.induct)
  case (2 ids i v ms)
  then show ?case using set_remove1_subset [of i ids] by (fastforce split: if_splits)
qed (fastforce split: if_splits)+

lemma split_has_orphan:
  assumes "open_after [] (front @ rest) = Some []" "open_after [] front = Some ids" "ids \<noteq> []" "distinct (call_ids (front @ rest))"
  shows "has_orphans rest"
proof -
  have next_msg: "open_after ids rest = Some []" using assms(1,2) by (simp add: open_after_append)
  then obtain i v ms where rest: "rest = MTool i v # ms" "i \<in> set ids"
    using assms(3) by (cases "(ids, rest)" rule: open_after.cases) (auto split: if_splits)
  have "i \<in> set (call_ids front)" using open_ids_from [OF assms(2)] rest(2) by auto
  then have "i \<notin> set (call_ids rest)" using assms(4) by auto
  then show ?thesis using rest(1) by (simp add: has_orphans_def)
qed

lemma widen_le: "widen body n \<le> n"
  by (induction body n rule: widen.induct) auto

lemma widen_no_orphans: "widen body n = 0 \<or> \<not> has_orphans (drop (widen body n) body)"
  by (induction body n rule: widen.induct) auto

lemma head_of_system: "open_after [] (takeWhile is_system ms) = Some []"
  by (induction ms) (auto simp: is_system_def split: message.splits)

lemma transcript_head_ok: "open_after [] (transcript_head ms) = Some []"
  by (simp add: transcript_head_def open_after_append head_of_system split: list.split message.split)

lemma transcript_head_prefix: "ms = transcript_head ms @ drop (length (transcript_head ms)) ms"
proof -
  have "\<exists>rest. dropWhile is_system ms = (case dropWhile is_system ms of MUser t # _ \<Rightarrow> [MUser t] | _ \<Rightarrow> []) @ rest"
    by (auto split: list.split message.split)
  then have "\<exists>rest. ms = transcript_head ms @ rest" by (metis transcript_head_def takeWhile_dropWhile_id append.assoc)
  then show ?thesis by (metis append_eq_conv_conj)
qed

lemma kept_turns_ok:
  assumes ok: "open_after [] body = Some []" and once: "distinct (call_ids body)"
  shows "open_after [] (drop (widen body n) body) = Some []"
proof -
  let ?k = "widen body n"
  have parts: "open_after [] (take ?k body @ drop ?k body) = Some []" using ok by simp
  then obtain ids where front: "open_after [] (take ?k body) = Some ids"
    by (cases "open_after [] (take ?k body)") (simp_all only: open_after_append option.simps)
  have "ids = []"
  proof (rule ccontr)
    assume "ids \<noteq> []"
    with split_has_orphan [OF parts front] once have "has_orphans (drop ?k body)" by simp
    with widen_no_orphans [of body n] have "?k = 0" by blast
    with front \<open>ids \<noteq> []\<close> show False by simp
  qed
  with parts front show ?thesis by (simp only: open_after_append option.simps)
qed

lemma fold_keeps_prompt_ok:
  assumes ok: "prompt_ok ms" and once: "distinct (call_ids ms)"
  shows "prompt_ok (fold_old_turns ms summary keep) \<and> distinct (call_ids (fold_old_turns ms summary keep))
    \<and> set (call_ids (fold_old_turns ms summary keep)) \<subseteq> set (call_ids ms)"
proof (cases "fold_old_turns ms summary keep = ms")
  case True
  then show ?thesis using assms by simp
next
  case False
  define head where "head = transcript_head ms"
  define body where "body = drop (length head) ms"
  have ms: "ms = head @ body" using transcript_head_prefix [of ms] by (simp add: head_def body_def)
  obtain k n where fold: "fold_old_turns ms summary keep = head @ [MSystem (fold_note k summary)] @ drop k body" and k: "k = widen body n"
    using False unfolding fold_old_turns_def Let_def head_def body_def by (auto split: if_splits)
  have head: "open_after [] head = Some []" by (simp add: head_def transcript_head_ok)
  have body: "open_after [] body = Some []" using ok head by (simp add: prompt_ok_def ms open_after_append)
  have kept: "open_after [] (drop k body) = Some []" using kept_turns_ok [OF body] once by (simp add: k ms)
  have ids: "call_ids body = call_ids (take k body) @ call_ids (drop k body)"
    by (metis append_take_drop_id call_ids_simps(3))
  have "distinct (call_ids head @ call_ids (take k body) @ call_ids (drop k body))" using once by (simp only: ms ids call_ids_simps)
  then have "distinct (call_ids (fold_old_turns ms summary keep))" unfolding fold by auto
  moreover have "set (call_ids (fold_old_turns ms summary keep)) \<subseteq> set (call_ids ms)" unfolding fold by (auto simp: ms ids)
  moreover have "prompt_ok (fold_old_turns ms summary keep)" using head kept by (simp add: fold prompt_ok_def open_after_append)
  ultimately show ?thesis by blast
qed

text \<open>Where nothing is ever folded away the names of the calls do not matter.\<close>

definition never_folds :: "'s loop_env \<Rightarrow> bool" where
  "never_folds env \<longleftrightarrow> (\<forall>ms s. snd (compact_if_needed env ms s) = ms)"

definition apart_if :: "bool \<Rightarrow> message list \<Rightarrow> bool" where
  "apart_if q ms \<longleftrightarrow> (q \<longrightarrow> distinct (call_ids ms))"

lemma apart_if_cong: "call_ids ms = call_ids ms' \<Longrightarrow> apart_if q ms = apart_if q ms'"
  by (simp add: apart_if_def)

lemma compacted_prompt_ok:
  assumes "prompt_ok ms" "apart_if q ms" "q \<or> never_folds env" "compact_if_needed env ms s = (s', ms')"
  shows "prompt_ok ms' \<and> apart_if q ms'"
proof (cases q)
  case True
  then have once: "distinct (call_ids ms)" using assms(2) by (simp add: apart_if_def)
  then show ?thesis using assms(4) fold_keeps_prompt_ok [OF assms(1) once] assms(1)
    by (auto simp: apart_if_def compact_if_needed_def Let_def split: if_splits prod.splits)
next
  case False
  then have "ms' = ms" using assms(3,4) unfolding never_folds_def by (metis snd_conv)
  then show ?thesis using assms(1,2) by simp
qed

subsection \<open>A batch closes exactly the calls of its turn\<close>

lemma executed_calls:
  assumes "awaits_calls (map pl_call ps) ms" "execute_plans env ps ms s = (s', ms', e)"
  shows "(case e of Executed \<Rightarrow> prompt_ok ms' | ExecParked _ cs \<Rightarrow> awaits_calls cs ms' | _ \<Rightarrow> True) \<and> call_ids ms' = call_ids ms"
  using assms
proof (induction env ps ms s rule: execute_plans.induct)
  case (2 env p ps ms s)
  obtain s1 r where r: "(case pl_preset p of Some v \<Rightarrow> (s, Returned v) | None \<Rightarrow> run_tool env (pl_call p) s) = (s1, r)"
    by (rule prod.exhaust)
  have answered: "awaits_calls (map pl_call ps) (ms @ [tool_message env (pl_call p) v])" for v
    unfolding tool_message_def by (rule awaits_result) (use "2.prems"(1) in simp)
  have ids: "call_ids (ms @ [tool_message env (pl_call p) v]) = call_ids ms" for v by (simp add: tool_message_def)
  show ?case
  proof (cases r)
    case (Returned v)
    with "2.prems"(2) r have "execute_plans env ps (ms @ [tool_message env (pl_call p) v]) s1 = (s', ms', e)" by simp
    from "2.IH"(1) [OF r [symmetric] _ answered this] Returned ids show ?thesis by simp
  next
    case (Raised x)
    with "2.prems"(2) r have "execute_plans env ps (ms @ [tool_message env (pl_call p) (error_result x)]) s1 = (s', ms', e)" by simp
    from "2.IH"(2) [OF r [symmetric] _ answered this] Raised ids show ?thesis by simp
  qed (use "2.prems" r in auto)
qed auto

lemma terminal_last_calls: "mset (map pl_call (terminal_last plans)) = mset (map pl_call plans)"
  by (metis terminal_last_def mset_map mset_append mset_filter multiset_partition union_commute)


lemma gated_calls:
  "gate_tools env answers calls plans s = (s', Gated plans') \<Longrightarrow> map pl_call plans' = map pl_call plans @ calls"
  by (induction env answers calls plans s rule: gate_tools.induct)
    (auto simp: Let_def plan_of_def split: option.splits sum.splits decision.splits prod.splits approval_answer.splits)

lemma batch_closes_calls:
  assumes "awaits_calls calls ms" "run_batch env answers calls ms s = (s', ms', e)"
  shows "(case e of BatchDone \<Rightarrow> prompt_ok ms' | BatchEnd (LoopParked _ cs) \<Rightarrow> awaits_calls cs ms' | BatchEnd (LoopDone _) \<Rightarrow> False
      | BatchEnd LoopTruncated \<Rightarrow> False | _ \<Rightarrow> True) \<and> call_ids ms' = call_ids ms"
proof -
  obtain s1 g where g: "gate_tools env answers calls [] s = (s1, g)" by (rule prod.exhaust)
  show ?thesis
  proof (cases g)
    case (Gated plans)
    obtain s2 go where go: "en_continue env s1 = (s2, go)" by (rule prod.exhaust)
    obtain s3 ms3 x where x: "execute_plans env (terminal_last plans) ms s2 = (s3, ms3, x)" by (metis prod.exhaust)
    have "mset (map pl_call (terminal_last plans)) = mset calls"
      using gated_calls [of env answers calls "[]" s s1 plans] g Gated terminal_last_calls [of plans] by (simp del: mset_map)
    then have "awaits_calls (map pl_call (terminal_last plans)) ms"
      using assms(1) by (metis awaits_calls_cong mset_map)
    from executed_calls [OF this x] show ?thesis
      using assms(2) g Gated go x by (cases go; cases x) (auto simp: run_batch_def)
  qed (use assms g in \<open>auto simp: run_batch_def\<close>)
qed

lemma model_turn_prompt_ok:
  assumes "prompt_ok ms" "apart_if q ms" "q \<or> never_folds env" "model_turn env ms s = (s', ms', c)"
  shows "prompt_ok ms' \<and> apart_if q ms' \<and> (\<exists>s2. en_model env ms' s2 = (s', c))"
proof -
  obtain s1 texts where t: "(if awaits_tool_results ms then (s, []) else en_steer env s) = (s1, texts)" by (rule prod.exhaust)
  obtain s2 ms2 where m: "compact_if_needed env (ms @ map MUser texts) s1 = (s2, ms2)" by (rule prod.exhaust)
  have "call_ids (map MUser texts) = []" by (induction texts) simp_all
  then have "apart_if q (ms @ map MUser texts)" using assms(2) by (simp add: apart_if_def)
  then have "prompt_ok ms2 \<and> apart_if q ms2" by (rule compacted_prompt_ok [OF prompt_ok_users [OF assms(1)] _ assms(3) m])
  moreover have "ms' = ms2" "en_model env ms2 s2 = (s', c)"
    using assms(4) t m by (auto simp: model_turn_def split: prod.splits)
  ultimately show ?thesis by blast
qed


subsection \<open>Every prompt is complete\<close>

definition left_in_order :: "bool \<Rightarrow> loop_end \<Rightarrow> message list \<Rightarrow> bool" where
  "left_in_order q e ms = (case e of LoopParked _ calls \<Rightarrow> awaits_calls calls ms \<and> apart_if q ms
     | LoopDone _ \<Rightarrow> prompt_ok ms | LoopTruncated \<Rightarrow> prompt_ok ms | _ \<Rightarrow> True)"

lemma batch_in_order:
  assumes "awaits_calls calls ms" "apart_if q ms" "run_batch env answers calls ms s = (s', ms', b)"
  shows "case b of BatchDone \<Rightarrow> prompt_ok ms' \<and> apart_if q ms' | BatchEnd e \<Rightarrow> left_in_order q e ms'"
  using batch_closes_calls [OF assms(1,3)] assms(2) apart_if_cong [of ms' ms q]
  by (auto simp: left_in_order_def split: batch_end.splits loop_end.splits)

text \<open>The provider names the calls of every completion apart, from each other and from the calls of the transcript.\<close>

definition names_apart :: "'s loop_env \<Rightarrow> bool" where
  "names_apart env \<longleftrightarrow>
     (\<forall>ms s s' c. distinct (call_ids ms) \<and> en_model env ms s = (s', Inr c) \<longrightarrow> distinct (call_ids ms @ map lc_id (cp_calls c)))"

lemma turns_complete:
  assumes fresh: "q \<longrightarrow> names_apart env" and folds: "q \<or> never_folds env"
  shows "prompt_ok ms \<Longrightarrow> apart_if q ms \<Longrightarrow> drive_loop env n None answers ms s = (s', ms', prompts, e) \<Longrightarrow>
    (\<forall>prompt \<in> set prompts. prompt_ok prompt) \<and> length prompts \<le> n \<and> left_in_order q e ms'"
proof (induction n arbitrary: answers ms s s' ms' prompts e)
  case 0
  then show ?case by (simp add: left_in_order_def)
next
  case (Suc n)
  obtain s1 go where go: "en_continue env s = (s1, go)" by (rule prod.exhaust)
  obtain s2 ms2 c where turn: "model_turn env ms s1 = (s2, ms2, c)" by (metis prod.exhaust)
  from model_turn_prompt_ok [OF Suc.prems(1,2) folds turn] obtain s3 where
    sent: "prompt_ok ms2" "apart_if q ms2" and model: "en_model env ms2 s3 = (s2, c)" by blast
  show ?case
  proof (cases c)
    case (Inl x)
    then show ?thesis using Suc.prems(3) go turn sent by (cases go) (auto simp: left_in_order_def)
  next
    case (Inr a)
    define ms3 where "ms3 = ms2 @ [MAssistant (cp_content a) (cp_calls a)]"
    have asked: "awaits_calls (cp_calls a) ms3" using sent(1) by (simp add: ms3_def awaits_turn)
    have once: "apart_if q ms3" using fresh model Inr sent(2) unfolding names_apart_def ms3_def apart_if_def by auto
    obtain s4 ms4 b where batch: "run_batch env answers (cp_calls a) ms3 s2 = (s4, ms4, b)" by (metis prod.exhaust)
    note after = batch_in_order [OF asked once batch]
    obtain s5 ms5 ps x where rest: "drive_loop env n None [] ms4 s4 = (s5, ms5, ps, x)" by (metis prod.exhaust)
    consider "\<not> go" | "go" "cp_calls a = []" | y where "go" "cp_calls a \<noteq> []" "b = BatchEnd y" | "go" "cp_calls a \<noteq> []" "b = BatchDone"
      by (cases b) blast+
    then show ?thesis
    proof cases
      case 1
      then show ?thesis using Suc.prems(3) go by (auto simp: left_in_order_def)
    next
      case 2
      then show ?thesis using Suc.prems(3) go turn Inr sent asked by (auto simp: left_in_order_def ms3_def)
    next
      case 3
      then show ?thesis using Suc.prems(3) go turn Inr sent batch after by (auto simp: ms3_def)
    next
      case 4
      then have "s' = s5" "ms' = ms5" "prompts = ms2 # ps" "e = x"
        using Suc.prems(3) go turn Inr batch rest by (auto simp: ms3_def)
      moreover have "(\<forall>prompt \<in> set ps. prompt_ok prompt) \<and> length ps \<le> n \<and> left_in_order q x ms5"
        using Suc.IH [OF _ _ rest] after 4 by simp
      ultimately show ?thesis using sent by simp
    qed
  qed
qed

text \<open>
  C14. Where the provider names the calls of a transcript apart, or nothing is ever folded away, every prompt the model is sent
  is complete, whatever the person steers in and the handlers return: each result stands behind the turn that asked for it and no call is
  left open. A run that parks leaves a transcript that awaits exactly the calls it parked with, and in the first case still names them apart,
  so its resumption starts in the same condition; and a run sends at most as many prompts as it has iterations. The condition is needed:
  a provider that sends no ids is given the same ones in every turn, and a fold may then part a result from its call
  (\<open>reused_id_parts_result\<close>).
\<close>

theorem prompts_complete:
  assumes "q \<and> names_apart env \<and> distinct (call_ids ms) \<or> \<not> q \<and> never_folds env"
    and "awaits_calls (case pending of Some calls \<Rightarrow> calls | None \<Rightarrow> []) ms" "0 < n"
    and "drive_loop env n pending answers ms s = (s', ms', prompts, e)"
  shows "(\<forall>prompt \<in> set prompts. prompt_ok prompt) \<and> length prompts \<le> n \<and> left_in_order q e ms'"
proof -
  have q: "q \<longrightarrow> names_apart env" "q \<or> never_folds env" "apart_if q ms" using assms(1) by (auto simp: apart_if_def)
  note turns = turns_complete [OF q(1,2)]
  show ?thesis
  proof (cases pending)
    case None
    then show ?thesis using turns assms(2-) q(3) by simp
  next
    case (Some calls)
    obtain m where n: "n = Suc m" using assms(3) by (cases n) auto
    obtain s1 go where go: "en_continue env s = (s1, go)" by (rule prod.exhaust)
    obtain s2 ms2 b where batch: "run_batch env answers calls ms s1 = (s2, ms2, b)" by (metis prod.exhaust)
    have after: "case b of BatchDone \<Rightarrow> prompt_ok ms2 \<and> apart_if q ms2 | BatchEnd e \<Rightarrow> left_in_order q e ms2"
      using batch_in_order [OF _ q(3) batch] assms(2) Some by simp
    consider "\<not> go" | y where "go" "b = BatchEnd y" | "go" "b = BatchDone" by (cases b) blast+
    then show ?thesis
    proof cases
      case 3
      then have "drive_loop env m None [] ms2 s2 = (s', ms', prompts, e)" using assms(4) n go Some batch by simp
      from turns [OF _ _ this] show ?thesis using after 3 n by auto
    qed (use assms(4) n go Some batch after in \<open>auto simp: left_in_order_def\<close>)
  qed
qed

subsection \<open>A run that asks and is answered\<close>

definition mail_call :: call where
  "mail_call = \<lparr>lc_id = ''c1'', lc_name = ''send_email'', lc_args = JObj []\<rparr>"

text \<open>The state counts the calls that reached a handler; the handler asks a question, and the model stops once its call is answered.\<close>

definition mail_env :: "nat loop_env" where
  "mail_env = \<lparr>en_agent = operator0, en_autonomy = AUTOMATIC, en_specs = [(''send_email'', \<lparr>rt_spec = email0, rt_terminal = False\<rparr>)],
     en_continue = (\<lambda>s. (s, True)), en_steer = (\<lambda>s. (s, [])),
     en_model = (\<lambda>ms s. (s, Inr (if call_ids ms = [] then \<lparr>cp_content = [], cp_calls = [mail_call]\<rparr>
       else \<lparr>cp_content = ''ok'', cp_calls = []\<rparr>))),
     en_summarize = (\<lambda>_ s. (s, [])), en_refusal = (\<lambda>_ _. None), en_handler = (\<lambda>_ s. (s + 1, ParkedAt ''question'')),
     en_approve = (\<lambda>_ _ s. (s, Refused)), en_dumps = (\<lambda>_. []), en_chars = length, en_transcript_budget = 10,
     en_result_budget = 0, en_keep_recent = 4\<rparr>"

definition mail_start :: "message list" where
  "mail_start = [MSystem ''be brief'', MUser ''mail ann'']"

lemmas loop_unfolds = mail_env_def mail_start_def mail_call_def model_turn_def compact_if_needed_def awaits_tool_results_def run_batch_def
  plan_of_def terminal_last_def is_terminal_plan_def tool_message_def compact_tool_output_def run_tool_def
  dget_def verdict_of_def eval_nat_numeral

lemma mail_parks:
  "drive_loop mail_env 3 None [] mail_start 0 = (1, mail_start @ [MAssistant [] [mail_call]], [mail_start], LoopParked ''question'' [mail_call])"
  using decide_email(2) by (simp add: loop_unfolds email0_def)

lemma mail_resumes:
  "drive_loop mail_env 3 (Some [mail_call]) [(''c1'', JStr ''go on'')] (mail_start @ [MAssistant [] [mail_call]]) 1 =
    (1, mail_start @ [MAssistant [] [mail_call], MTool ''c1'' (JStr ''go on''), MAssistant ''ok'' []],
     [mail_start @ [MAssistant [] [mail_call], MTool ''c1'' (JStr ''go on'')]], LoopDone ''ok'')"
  by (simp add: loop_unfolds)

theorem prompts_complete_witness:
  "prompt_ok (mail_start @ [MAssistant [] [mail_call], MTool ''c1'' (JStr ''go on'')])"
proof -
  have fresh: "names_apart mail_env" by (auto simp: names_apart_def mail_env_def mail_call_def)
  have "left_in_order True (LoopParked ''question'' [mail_call]) (mail_start @ [MAssistant [] [mail_call]])"
    using prompts_complete [OF _ _ _ mail_parks, of True] fresh by (simp add: mail_start_def prompt_ok_def)
  then have "awaits_calls [mail_call] (mail_start @ [MAssistant [] [mail_call]])"
    "distinct (call_ids (mail_start @ [MAssistant [] [mail_call]]))" by (simp_all add: left_in_order_def apart_if_def)
  then show ?thesis using prompts_complete [OF _ _ _ mail_resumes, of True] fresh by simp
qed

subsection \<open>A call id used twice\<close>

text \<open>
  The loop expects that a provider may name a call of a later turn like an earlier one (it forgets the answers of a batch for that
  reason), but the folding takes a result for kept together with its call when any kept turn has a call of that name: here the
  result of the third message is kept without the turn that asked for it, and the prompt is refused.
\<close>

definition reused_ids :: "message list" where
  "reused_ids = [MUser ''go'', MAssistant [] [mail_call], MTool ''c1'' JNull, MAssistant [] [mail_call], MTool ''c1'' JNull]"

theorem reused_id_parts_result:
  "prompt_ok reused_ids \<and> \<not> prompt_ok (fold_old_turns reused_ids ''sum'' 3)"
  by (simp add: reused_ids_def prompt_ok_def fold_old_turns_def transcript_head_def is_system_def has_orphans_def mail_call_def eval_nat_numeral)

subsection \<open>Handlers run with permission only\<close>

text \<open>A call may reach its handler when the tool is known and the authority check allows it, or asks and a person may say yes.\<close>

definition may_run :: "'s loop_env \<Rightarrow> call \<Rightarrow> bool" where
  "may_run env tc = (case dget (en_specs env) (lc_name tc) of None \<Rightarrow> False
     | Some sp \<Rightarrow> (case decide (en_agent env) (rt_spec sp) (en_autonomy env) of Inl _ \<Rightarrow> False
       | Inr v \<Rightarrow> vd_decision v = ALLOW \<or> vd_decision v = ASK \<and> (\<exists>s. snd (en_approve env (rt_spec sp) (lc_args tc) s) = Approved)))"

lemma gate_one:
  assumes "gate_tools env answers (tc # tcs) plans s = (s', Gated plans')"
  obtains preset s1 where "gate_tools env answers tcs (plans @ [plan_of tc (dget (en_specs env) (lc_name tc)) preset]) s1 = (s', Gated plans')"
    "preset = None \<Longrightarrow> dget answers (lc_id tc) = None \<and> may_run env tc"
proof (cases "dget answers (lc_id tc)")
  case (Some v)
  then show ?thesis using assms that [of "Some v" s] by (simp add: Let_def)
next
  case None
  show ?thesis
  proof (cases "dget (en_specs env) (lc_name tc)")
    case N: None
    then show ?thesis using assms None that [of "Some (error_result (''Unknown tool: '' @ lc_name tc))" s] by (simp add: Let_def)
  next
    case (Some sp)
    then obtain v where v: "decide (en_agent env) (rt_spec sp) (en_autonomy env) = Inr v"
      using assms None by (cases "decide (en_agent env) (rt_spec sp) (en_autonomy env)") (auto simp: Let_def)
    obtain s1 r where r: "en_approve env (rt_spec sp) (lc_args tc) s = (s1, r)" by (rule prod.exhaust)
    show ?thesis
    proof (cases "vd_decision v")
      case ALLOW
      then show ?thesis using assms None Some v that [of None s] by (simp add: Let_def may_run_def)
    next
      case DENY
      then show ?thesis using assms None Some v that [of "Some (error_result (''Not permitted: '' @ vd_reason v))" s] by (simp add: Let_def)
    next
      case ASK
      have yes: "r = Approved \<Longrightarrow> may_run env tc" using Some v ASK r by (auto simp: may_run_def intro!: exI [of _ s])
      show ?thesis using assms None Some v ASK r yes that [of None s1] that [of "Some (error_result ''Denied by human reviewer'')" s1]
        by (cases r) (simp_all add: Let_def)
    qed
  qed
qed

lemma gated_permission:
  "gate_tools env answers calls plans s = (s', Gated plans') \<Longrightarrow> p \<in> set plans' \<Longrightarrow> p \<notin> set plans \<Longrightarrow> pl_preset p = None
    \<Longrightarrow> may_run env (pl_call p) \<and> dget answers (lc_id (pl_call p)) = None"
proof (induction calls arbitrary: plans s)
  case (Cons tc tcs)
  from gate_one [OF Cons.prems(1)] obtain preset s1 where
    rest: "gate_tools env answers tcs (plans @ [plan_of tc (dget (en_specs env) (lc_name tc)) preset]) s1 = (s', Gated plans')"
    and ok: "preset = None \<Longrightarrow> dget answers (lc_id tc) = None \<and> may_run env tc" by blast
  show ?case
  proof (cases "p = plan_of tc (dget (en_specs env) (lc_name tc)) preset")
    case True
    then show ?thesis using ok Cons.prems(4) by (simp add: plan_of_def)
  next
    case False
    then show ?thesis using Cons.IH [OF rest Cons.prems(2) _ Cons.prems(4)] Cons.prems(3) by simp
  qed
qed simp

lemma gate_other_handler: "gate_tools (env\<lparr>en_handler := h\<rparr>) answers calls plans s = gate_tools env answers calls plans s"
  by (induction calls arbitrary: plans s)
    (simp_all add: Let_def cong: option.case_cong sum.case_cong decision.case_cong prod.case_cong approval_answer.case_cong)

lemma compact_other_handler: "compact_if_needed (env\<lparr>en_handler := h\<rparr>) ms s = compact_if_needed env ms s"
  by (simp add: compact_if_needed_def Let_def cong: prod.case_cong if_cong)

lemma turn_other_handler: "model_turn (env\<lparr>en_handler := h\<rparr>) ms s = model_turn env ms s"
  by (simp add: model_turn_def compact_other_handler cong: prod.case_cong)

lemma run_other_handler: "h tc = en_handler env tc \<Longrightarrow> run_tool (env\<lparr>en_handler := h\<rparr>) tc s = run_tool env tc s"
  by (simp add: run_tool_def cong: option.case_cong prod.case_cong)

lemma execute_other_handler:
  "\<forall>p \<in> set ps. pl_preset p = None \<longrightarrow> h (pl_call p) = en_handler env (pl_call p) \<Longrightarrow>
    execute_plans (env\<lparr>en_handler := h\<rparr>) ps ms s = execute_plans env ps ms s"
proof (induction env ps ms s rule: execute_plans.induct)
  case (2 env p ps ms s)
  have step: "(case pl_preset p of Some v \<Rightarrow> (s, Returned v) | None \<Rightarrow> run_tool (env\<lparr>en_handler := h\<rparr>) (pl_call p) s)
    = (case pl_preset p of Some v \<Rightarrow> (s, Returned v) | None \<Rightarrow> run_tool env (pl_call p) s)"
    using "2.prems" by (simp add: run_other_handler split: option.splits)
  obtain s1 r where r: "(case pl_preset p of Some v \<Rightarrow> (s, Returned v) | None \<Rightarrow> run_tool env (pl_call p) s) = (s1, r)"
    by (rule prod.exhaust)
  show ?case
  proof (cases r)
    case (Returned v)
    then show ?thesis using "2.IH"(1) [OF r [symmetric] Returned] "2.prems" step r by (simp add: tool_message_def)
  next
    case (Raised x)
    then show ?thesis using "2.IH"(2) [OF r [symmetric] Raised] "2.prems" step r by (simp add: tool_message_def)
  qed (use step r in simp_all)
qed simp

lemma batch_other_handler:
  assumes "\<forall>tc. may_run env tc \<and> dget answers (lc_id tc) = None \<longrightarrow> h tc = en_handler env tc"
  shows "run_batch (env\<lparr>en_handler := h\<rparr>) answers calls ms s = run_batch env answers calls ms s"
proof -
  obtain s1 g where g: "gate_tools env answers calls [] s = (s1, g)" by (rule prod.exhaust)
  show ?thesis
  proof (cases g)
    case (Gated plans)
    have ex: "execute_plans (env\<lparr>en_handler := h\<rparr>) (terminal_last plans) ms t = execute_plans env (terminal_last plans) ms t" for t
    proof (rule execute_other_handler, intro ballI impI)
      fix p assume "p \<in> set (terminal_last plans)" "pl_preset p = None"
      then show "h (pl_call p) = en_handler env (pl_call p)"
        using gated_permission [OF g [unfolded Gated], of p] assms by (auto simp: terminal_last_def)
    qed
    then show ?thesis using g Gated by (simp add: run_batch_def gate_other_handler ex split: prod.split bool.split)
  qed (use g in \<open>simp_all add: run_batch_def gate_other_handler\<close>)
qed

lemma loop_other_handler:
  assumes "\<forall>tc. may_run env tc \<longrightarrow> h tc = en_handler env tc"
  shows "drive_loop (env\<lparr>en_handler := h\<rparr>) n pending answers ms s = drive_loop env n pending answers ms s"
proof (induction n arbitrary: pending answers ms s)
  case (Suc n)
  have batch: "run_batch (env\<lparr>en_handler := h\<rparr>) answers calls ms s = run_batch env answers calls ms s" for answers calls ms s
    using assms by (simp add: batch_other_handler)
  show ?case unfolding drive_loop.simps(2) batch turn_other_handler Suc.IH by simp
qed simp

text \<open>
  C15. A handler only ever runs for a call the authority check lets through: however else handlers behave on the calls the check
  denies, on unknown tools and on calls every reviewer refuses, the run ends in the same state, with the same transcript,
  prompts and result. In a resumed batch a call whose answer came while the run was parked does not reach its handler either.
\<close>

theorem handlers_need_permission:
  assumes "\<forall>tc s. may_run env tc \<longrightarrow> h tc s = en_handler env tc s"
    and "\<forall>tc s. may_run env tc \<and> dget answers (lc_id tc) = None \<longrightarrow> h' tc s = en_handler env tc s"
  shows "drive_loop (env\<lparr>en_handler := h\<rparr>) n pending answers ms s = drive_loop env n pending answers ms s
    \<and> run_batch (env\<lparr>en_handler := h'\<rparr>) answers calls ms s = run_batch env answers calls ms s"
  using loop_other_handler [of env h] batch_other_handler [of env answers h'] assms by (simp add: fun_eq_iff)

text \<open>The mail tool is denied while only plans are allowed, so any handler, here one that reports success, leaves the run as it is.\<close>

definition quiet_env :: "nat loop_env" where
  "quiet_env = mail_env\<lparr>en_autonomy := PLAN_ONLY\<rparr>"

theorem handlers_need_permission_witness:
  "drive_loop (quiet_env\<lparr>en_handler := \<lambda>_ s. (s + 100, Returned (JStr ''sent''))\<rparr>) 3 None [] mail_start 0 = drive_loop quiet_env 3 None [] mail_start 0
    \<and> run_batch (quiet_env\<lparr>en_handler := \<lambda>_ s. (s + 100, Returned (JStr ''sent''))\<rparr>) [(''c1'', JNull)] [mail_call] mail_start 0
      = run_batch quiet_env [(''c1'', JNull)] [mail_call] mail_start 0"
proof -
  have "\<not> may_run quiet_env tc" for tc
    using decide_email(4) by (auto simp: may_run_def quiet_env_def mail_env_def dget_def verdict_of_def split: if_splits option.splits)
  then show ?thesis
    using handlers_need_permission [of quiet_env "\<lambda>_ s. (s + 100, Returned (JStr ''sent''))" "[(''c1'', JNull)]"
        "\<lambda>_ s. (s + 100, Returned (JStr ''sent''))" 3 None mail_start 0 "[mail_call]"]
      handlers_need_permission [of quiet_env "\<lambda>_ s. (s + 100, Returned (JStr ''sent''))" "[]"
        "\<lambda>_ s. (s + 100, Returned (JStr ''sent''))" 3 None mail_start 0 "[mail_call]"] by simp
qed


end
