(* ===== verification/Spec2Isabelle.thy ===== *)
theory Spec2Isabelle
  imports Access_Mask Wf_Engine_Runs Wf_Validation_Props Work_Order_Alerts Ingest_Job_Props Chunker_Props Agent_Inbox_Props Review_Board_Props Agent_Loop_Props
begin

section \<open>Red Arch Knowledge Management: a verification development\<close>

text \<open>
  The repository is a multi-tenant knowledge-management service: an API (\<open>src/services/api\<close>), packages it
  shares with a retrieval service and a worker (\<open>src/packages\<close>), and a user interface. The development models the
  decision logic of the API: who may read what, what a workflow run does, what an agent and its work orders may do.
  Every definition that models code is executable and named after it; the library is layered as follows, paths relative to
  \<open>src/services/api/src/api\<close> unless they start with \<open>src\<close>.

  Foundations. \<open>Prelude\<close> holds results (an exception is \<open>Inl\<close>), insertion-ordered dictionaries, updates of rows
  and the collections of simplification rules. \<open>Py_Values\<close>, \<open>Py_Text\<close> and \<open>Py_Time\<close> hold the values of JSON with
  their truth, equality and text, the text functions of the language, and instants.

  Access masks (\<open>Access_Mask\<close>: \<open>src/packages/access_mask\<close>). Encoding, decoding, wildcard matching and the masks
  of a member.

  Workflows. \<open>Json_Logic\<close> (\<open>services/workflow/jsonlogic.py\<close>, \<open>decision.py\<close>, \<open>expression.py\<close>), \<open>Wf_Graph\<close>
  (\<open>schemas/workflow_definition.py\<close>, \<open>compat.py\<close>), \<open>Wf_Eval\<close> (\<open>evaluator.py\<close>, \<open>schedule.py\<close>, \<open>permissions.py\<close>,
  \<open>manual_inputs.py\<close>), \<open>Wf_Values\<close> (the value helpers of \<open>actions.py\<close>, \<open>retry.py\<close>), \<open>Wf_State\<close> (the tables and
  queries of \<open>repositories/workflow.py\<close>), \<open>Wf_Engine\<close> (\<open>engine.py\<close>, \<open>runner.py\<close>, \<open>agent_bridge.py\<close>) with
  \<open>Wf_Engine_Inv\<close>, \<open>Wf_Engine_Props\<close> and \<open>Wf_Engine_Runs\<close>, and \<open>Wf_Validation\<close> (\<open>validation.py\<close>) with \<open>Wf_Scc\<close> and
  \<open>Wf_Validation_Props\<close>. The engine's state is the record of tables \<open>db\<close>; a step of a run is a function on it.
  The invariants are proved for one pass, lifted to driving a run and to nested runs.

  Agents. \<open>Agent_Authority\<close> (\<open>services/agents/authority.py\<close>, \<open>kind_gate.py\<close>), \<open>Agent_Capability\<close> (\<open>capability.py\<close>),
  \<open>Work_Orders\<close> (\<open>work_order_service.py\<close>, \<open>acceptance.py\<close>, \<open>repositories/work_order.py\<close>) with \<open>Work_Order_Props\<close> and
  \<open>Work_Order_Alerts\<close>. The work-order service refines an abstract lifecycle, adds no second live run to an order
  except by the two calls that are made to, and moves a single step to done only with evidence; the relations its calls keep are
  collected in the locales of \<open>Work_Order_Props\<close>.

  Runs of agents. \<open>Agent_Loop\<close> (\<open>services/agents/runtime.py\<close>, \<open>transcript.py\<close>) with \<open>Agent_Loop_Props\<close>: the loop between the
  model and the handlers of its calls, over the transcript and a state of any type that the functions outside may change; every
  prompt is complete where call ids are not reused or nothing is folded, and a handler runs with permission only. \<open>Agent_Inbox\<close> (\<open>questions.py\<close>, \<open>approvals.py\<close>, \<open>lifecycle.py\<close>,
  \<open>notify.py\<close>, the claiming, parking and reminding of \<open>run_executor.py\<close>, \<open>repositories/agent_questions.py\<close>) keeps runs,
  questions, approvals, notices and diary entries in the record \<open>idb\<close>; \<open>Agent_Inbox_Props\<close> has the steps of the processes on
  it as an inductive relation with its invariant, from which a run never waits for nobody and no question is asked in vain. \<open>Delegation\<close>
  (\<open>delegation.py\<close>): handing work down and blockers up. \<open>Review_Board\<close> (\<open>review_board.py\<close>) with \<open>Review_Board_Props\<close>: the
  board whose state is text in the diary, refined from a board that keeps the last verdict of each seat. \<open>Peer_Review\<close>
  (\<open>review_gate.py\<close>, \<open>tools/plan_mode.py\<close>, the reviews of \<open>delegation.py\<close>) joins the board to the inbox.

  Knowledge and keys. \<open>Permission_Config\<close> (\<open>repositories/dimension.py\<close>, \<open>repositories/org.py\<close>,
  \<open>services/permission_config.py\<close>): the dimensions of an organization, their numbers, and the translation of
  configurations and memberships into masks. \<open>Folder_Tree\<close> (\<open>repositories/folder.py\<close>, \<open>services/folder_service.py\<close>,
  \<open>services/knowledge_visibility.py\<close>, \<open>services/index_tags.py\<close>, \<open>routers/folders.py\<close>): folders with materialized
  paths, inheritance of masks, moves and the permission updates sent to the index; \<open>Folder_Tree_Props\<close>, \<open>Folder_Paths\<close>
  and \<open>Folder_Access\<close> prove that the tree stays acyclic with exact paths, that the three visibility checks of the
  code agree with inheritance from the nearest configured ancestor, and that a change reaches every document that
  inherits. \<open>Api_Keys\<close> (\<open>services/api_key_service.py\<close>, \<open>api_key_assignments.py\<close>, \<open>api_key_scope.py\<close>,
  \<open>api_key_scopes.py\<close>, \<open>search_access.py\<close>, \<open>auth/api_key.py\<close>, \<open>agents/tools/key_scope.py\<close>, \<open>api_rate_limit.py\<close>) with
  \<open>Api_Key_Props\<close>: keys, their scopes and what they read, on the state \<open>kdb\<close>.

  Documents. \<open>Knowledge_Docs\<close> (\<open>repositories/document.py\<close>, \<open>routers/documents.py\<close>, \<open>routers/v1/knowledge.py\<close>,
  \<open>routers/internal.py\<close>, \<open>schemas/reserved_metadata.py\<close>): the rows, the read gates of members and keys and the status callback.
  \<open>Knowledge_Write\<close> (\<open>services/knowledge_write.py\<close>, \<open>document_ingest.py\<close>): the write service on the state
  \<open>kstate\<close> of rows, stored objects, index and queues, with the failure of each service outside as an input.
  \<open>Knowledge_Props\<close>: what a write may touch, what it queues, that sending twice changes nothing, and that a key lists what it reads.
  \<open>Ingest_Job\<close> (\<open>src/services/worker/src/worker/tasks\<close>: \<open>_ingest_common.py\<close>, \<open>_job.py\<close>, \<open>ingest.py\<close>,
  \<open>extract.py\<close>) with \<open>Ingest_Job_Props\<close>: the worker's run as the events it causes on what it observes; its reports climb to
  one terminal status, it ends, and the document settles on the first result whatever the interleaving. \<open>Chunker\<close>
  (\<open>src/packages/brain_sdk/src/brain_sdk/chunking/chunker.py\<close>) with \<open>Chunker_Props\<close>: chunks of sentences with overlap, and sections by
  headings; the chunks cover the text, and when chunking ends.

  Bounds. \<open>drive_run\<close> nests to \<open>MAX_TOKEN_DEPTH\<close> (32) and gets fuel 33; a run is driven for at most \<open>MAX_PASSES\<close>
  passes, the bound of the code. The walk to an ancestor takes the number of folders as fuel, which is enough since
  the code stops at a repeated folder and folder ids are distinct; the recursive queries are computed to
  their fixed point with a termination proof, and rewriting of paths stops at depth 1000 as the code does. The search for strongly
  connected components is a \<open>while\<close> loop that may not end; it is proved to end on every graph. The fuel of \<open>chunk_loop\<close> is the iteration limit
  of the code (10,000,000) and that of \<open>drive_loop\<close> the iterations a run may take, both of which the code itself counts; an
  escalation is handed on at most four times.

  Parameters: the execution of an action, the clock, new identifiers and tokens, the hash of a key, the cron library,
  the completion of a language model and its tool handlers, the digest of a submission, the sentence splitter and tokenizer, the provider keys, the error details of the schema library, the
  iteration order of sets. Text is a list of characters, each a byte of UTF-8 where the code counts or cuts bytes
  and a Latin-1 character otherwise; collation is by code point. Finite floats are exact rationals.

  Not modelled: the user interface, the services in other languages, the handlers of workflow actions and the clients of language
  models, mail and storage, the delivery of notices by mail and workflow, the wording of prompts, entities, records, forms, views and reports (generated
  SQL and layout), text extraction, embedding and retrieval, migration, and the routers that only pass a request to a service.
\<close>

end
